(* ===== verification/Prelude.thy ===== *)
theory Prelude
  imports Complex_Main "HOL-Library.Word" "HOL-Library.Sublist" "HOL-Library.Multiset"
    "HOL-Library.List_Lexorder" "HOL-Library.Char_ord"
begin

text \<open>
  What every theory of the development shares: the names of the types of the model, the two
  combinators that stand for Go's \<open>if err != nil { return err }\<close> and for a loop whose body may
  return early, and generic facts on lists and results. Fallible Go code returns a sum:
  \<open>Inl e\<close> is the returned error and \<open>Inr v\<close> the value.
\<close>

type_synonym byte = "8 word"
type_synonym bytes = "byte list"

named_theorems res_simps \<open>equations of the result combinators\<close>
named_theorems res_elims \<open>inversion of successful results\<close>

section \<open>Results\<close>

definition rbind :: "'e + 'a \<Rightarrow> ('a \<Rightarrow> 'e + 'b) \<Rightarrow> 'e + 'b" where
  "rbind r f = (case r of Inl e \<Rightarrow> Inl e | Inr v \<Rightarrow> f v)"

definition guardr :: "bool \<Rightarrow> 'e \<Rightarrow> 'e + unit" where
  "guardr b e = (if b then Inr () else Inl e)"

definition of_opt :: "'e \<Rightarrow> 'a option \<Rightarrow> 'e + 'a" where
  "of_opt e r = (case r of None \<Rightarrow> Inl e | Some v \<Rightarrow> Inr v)"

definition map_err :: "('e \<Rightarrow> 'f) \<Rightarrow> 'e + 'a \<Rightarrow> 'f + 'a" where
  "map_err g r = (case r of Inl e \<Rightarrow> Inl (g e) | Inr v \<Rightarrow> Inr v)"

fun mapr :: "('a \<Rightarrow> 'e + 'b) \<Rightarrow> 'a list \<Rightarrow> 'e + 'b list" where
  "mapr f [] = Inr []"
| "mapr f (x # xs) = rbind (f x) (\<lambda>y. rbind (mapr f xs) (\<lambda>ys. Inr (y # ys)))"

fun loopr :: "('s \<Rightarrow> 'a \<Rightarrow> 'e + 's) \<Rightarrow> 's \<Rightarrow> 'a list \<Rightarrow> 'e + 's" where
  "loopr f s [] = Inr s"
| "loopr f s (x # xs) = rbind (f s x) (\<lambda>s'. loopr f s' xs)"

lemma rbind_simps [simp, res_simps]:
  "rbind (Inl e) f = Inl e"
  "rbind (Inr v) f = f v"
  by (simp_all add: rbind_def)

lemma rbind_eq_Inr_iff [simp, res_simps]:
  "rbind r f = Inr b \<longleftrightarrow> (\<exists>a. r = Inr a \<and> f a = Inr b)"
  by (cases r) auto

lemma rbind_eq_Inl_iff [res_simps]:
  "rbind r f = Inl e \<longleftrightarrow> r = Inl e \<or> (\<exists>a. r = Inr a \<and> f a = Inl e)"
  by (cases r) auto

lemma rbind_InrE [res_elims]:
  assumes "rbind r f = Inr b"
  obtains a where "r = Inr a" and "f a = Inr b"
  using assms by (cases r) auto

lemma rbind_assoc: "rbind (rbind r f) g = rbind r (\<lambda>x. rbind (f x) g)"
  by (cases r) simp_all

lemma guardr_simps [simp, res_simps]:
  "guardr True e = Inr ()"
  "guardr False e = Inl e"
  by (simp_all add: guardr_def)

lemma guardr_eq_iff [simp]:
  "guardr b e = Inr u \<longleftrightarrow> b"
  "guardr b e = Inl e' \<longleftrightarrow> \<not> b \<and> e' = e"
  by (auto simp: guardr_def)

lemma of_opt_simps [simp]:
  "of_opt e None = Inl e"
  "of_opt e (Some v) = Inr v"
  by (simp_all add: of_opt_def)

lemma of_opt_eq_iff [simp]:
  "of_opt e r = Inr v \<longleftrightarrow> r = Some v"
  "of_opt e r = Inl e' \<longleftrightarrow> r = None \<and> e' = e"
  by (cases r; auto)+

lemma map_err_simps [simp]:
  "map_err g (Inl e) = Inl (g e)"
  "map_err g (Inr v) = Inr v"
  by (simp_all add: map_err_def)

lemma map_err_eq_Inr_iff [simp]: "map_err g r = Inr v \<longleftrightarrow> r = Inr v"
  by (cases r) simp_all

lemma mapr_length: "mapr f xs = Inr ys \<Longrightarrow> length ys = length xs"
  by (induction xs arbitrary: ys) auto

lemma mapr_nth: "mapr f xs = Inr ys \<Longrightarrow> i < length xs \<Longrightarrow> f (xs ! i) = Inr (ys ! i)"
  by (induction xs arbitrary: ys i) (auto simp: nth_Cons split: nat.splits)

lemma mapr_pure: "(\<And>x. x \<in> set xs \<Longrightarrow> f x = Inr (g x)) \<Longrightarrow> mapr f xs = Inr (map g xs)"
  by (induction xs) simp_all

lemma loopr_append: "loopr f s (xs @ ys) = rbind (loopr f s xs) (\<lambda>s'. loopr f s' ys)"
  by (induction xs arbitrary: s) (simp_all add: rbind_assoc)

lemma loopr_invariant:
  assumes "loopr f s xs = Inr t"
    and "P s"
    and "\<And>s x s'. x \<in> set xs \<Longrightarrow> P s \<Longrightarrow> f s x = Inr s' \<Longrightarrow> P s'"
  shows "P t"
  using assms by (induction xs arbitrary: s) auto

lemma loopr_unit_all:
  "loopr (\<lambda>_ x. f x) () xs = Inr u \<longleftrightarrow> (\<forall>x \<in> set xs. f x = Inr ())"
  by (induction xs) (auto simp: res_simps)

section \<open>Lists\<close>

lemma drop_Suc_conv_tl: "i < length xs \<Longrightarrow> drop i xs = xs ! i # drop (Suc i) xs"
  by (simp add: Cons_nth_drop_Suc)

lemma sorted_distinct_strict:
  fixes f :: "'a \<Rightarrow> int"
  shows "sorted (map f xs) \<Longrightarrow> distinct (map f xs) \<Longrightarrow> sorted_wrt (\<lambda>x y. f x < f y) xs"
  by (induction xs) (auto simp: less_le image_iff)

end
