(* ===== verification/GoStrings.thy ===== *)
theory GoStrings
  imports Prelude
begin

text \<open>
  The parts of Go's \<open>strings\<close>, \<open>bytes\<close>, \<open>encoding/hex\<close>, \<open>encoding/base64\<close> and
  \<open>encoding/binary\<close> that the program calls. A Go \<open>string\<close> is a byte sequence, so it is a HOL
  \<open>string\<close> (a list of 8-bit characters); a \<open>[]byte\<close> is a list of 8-bit words.
  The conversions \<open>[]byte(s)\<close> and \<open>string(b)\<close> are \<open>bytes_of\<close> and \<open>string_of\<close>.
\<close>

section \<open>Strings and byte slices\<close>

definition bytes_of :: "string \<Rightarrow> bytes" where
  "bytes_of s = map of_char s"

definition string_of :: "bytes \<Rightarrow> string" where
  "string_of b = map (\<lambda>w. char_of (unat w)) b"

lemma unat_byte_lt [simp]: "unat (w :: byte) < 256"
  using unsigned_less [of w] by simp

lemma of_char_of_unat [simp]: "(of_char (char_of (unat w) :: char) :: byte) = w"
proof -
  have "(of_char (char_of (unat w) :: char) :: byte) = of_nat (of_char (char_of (unat w) :: char))"
    by (simp only: of_nat_of_char)
  also have "\<dots> = of_nat (unat w mod 256)"
    by (simp only: of_char_of)
  also have "\<dots> = w"
    by simp
  finally show ?thesis .
qed

lemma unat_of_char [simp]: "unat (of_char c :: byte) = of_char c"
proof -
  have "(of_char c :: byte) = of_nat (of_char c)"
    by (simp add: of_nat_of_char)
  then show ?thesis
    using of_char_mod_256 [of c, where 'a = nat] by (simp add: unat_of_nat)
qed

lemma string_of_bytes_of [simp]: "string_of (bytes_of s) = s"
  by (simp add: string_of_def bytes_of_def comp_def)

lemma bytes_of_string_of [simp]: "bytes_of (string_of b) = b"
  by (simp add: string_of_def bytes_of_def comp_def)

lemma bytes_of_inject [simp]: "bytes_of s = bytes_of t \<longleftrightarrow> s = t"
  using string_of_bytes_of by metis

lemma length_bytes_of [simp]: "length (bytes_of s) = length s"
  by (simp add: bytes_of_def)

lemma length_string_of [simp]: "length (string_of b) = length b"
  by (simp add: string_of_def)

lemma bytes_of_append [simp]: "bytes_of (s @ t) = bytes_of s @ bytes_of t"
  by (simp add: bytes_of_def)

section \<open>encoding/binary, big endian\<close>

definition put_uint64 :: "64 word \<Rightarrow> bytes" where
  "put_uint64 x = map (\<lambda>i. ucast (drop_bit (8 * (7 - i)) x)) [0..<8]"

definition put_uint32 :: "32 word \<Rightarrow> bytes" where
  "put_uint32 x = map (\<lambda>i. ucast (drop_bit (8 * (3 - i)) x)) [0..<4]"

definition get_uint64 :: "bytes \<Rightarrow> 64 word" where
  "get_uint64 b = foldl (\<lambda>a x. or (push_bit 8 a) (ucast x)) 0 b"

lemma length_put_uint64 [simp]: "length (put_uint64 x) = 8"
  by (simp add: put_uint64_def)

lemma length_put_uint32 [simp]: "length (put_uint32 x) = 4"
  by (simp add: put_uint32_def)

lemma put_uint64_unfold:
  "put_uint64 x = [ucast (drop_bit 56 x), ucast (drop_bit 48 x), ucast (drop_bit 40 x),
     ucast (drop_bit 32 x), ucast (drop_bit 24 x), ucast (drop_bit 16 x), ucast (drop_bit 8 x),
     ucast x]"
  by (simp add: put_uint64_def upt_rec)

lemma join_byte: "or (push_bit 8 (drop_bit (8 + k) (x :: 64 word))) (ucast (ucast (drop_bit k x) :: byte))
   = drop_bit k x"
  by (rule bit_word_eqI) (auto simp: bit_simps)

lemma top_byte: "(ucast (ucast (drop_bit 56 (x :: 64 word)) :: byte) :: 64 word) = drop_bit 56 x"
  by (rule bit_word_eqI) (auto simp: bit_simps dest: bit_imp_le_length)

lemma get_put_uint64 [simp]: "get_uint64 (put_uint64 x) = x"
  using join_byte [of 48 x] join_byte [of 40 x] join_byte [of 32 x] join_byte [of 24 x]
    join_byte [of 16 x] join_byte [of 8 x] join_byte [of 0 x]
  by (simp add: put_uint64_unfold get_uint64_def top_byte)

lemma put_uint64_inject [simp]: "put_uint64 x = put_uint64 y \<longleftrightarrow> x = y"
  by (metis get_put_uint64)

lemma byte_bit_less: "bit (w :: byte) n \<Longrightarrow> n < 8"
  using bit_imp_le_length by fastforce

lemma shift_in_low: "ucast (or (push_bit 8 (a :: 64 word)) (ucast (x :: byte))) = x"
  by (rule bit_word_eqI) (auto simp: bit_simps)

lemma ucast_drop_shift:
  "k \<le> 48 \<Longrightarrow> (ucast (drop_bit (8 + k) (or (push_bit 8 (a :: 64 word)) (ucast (x :: byte)))) :: byte) = ucast (drop_bit k a)"
  by (rule bit_word_eqI) (auto simp: bit_simps dest: byte_bit_less)

lemma ucast_drop_shifts:
  fixes a :: "64 word" and x :: byte
  defines "y \<equiv> or (push_bit 8 a) (ucast x)"
  shows "(ucast (drop_bit 56 y) :: byte) = ucast (drop_bit 48 a)"
    "(ucast (drop_bit 48 y) :: byte) = ucast (drop_bit 40 a)"
    "(ucast (drop_bit 40 y) :: byte) = ucast (drop_bit 32 a)"
    "(ucast (drop_bit 32 y) :: byte) = ucast (drop_bit 24 a)"
    "(ucast (drop_bit 24 y) :: byte) = ucast (drop_bit 16 a)"
    "(ucast (drop_bit 16 y) :: byte) = ucast (drop_bit 8 a)"
    "(ucast (drop_bit 8 y) :: byte) = ucast a"
    "(ucast y :: byte) = x"
  unfolding y_def
  using ucast_drop_shift [of 48 a x] ucast_drop_shift [of 40 a x] ucast_drop_shift [of 32 a x]
    ucast_drop_shift [of 24 a x] ucast_drop_shift [of 16 a x] ucast_drop_shift [of 8 a x]
    ucast_drop_shift [of 0 a x] shift_in_low [of a x]
  by simp_all

lemma put_get_uint64: "length b = 8 \<Longrightarrow> put_uint64 (get_uint64 b) = b"
proof -
  assume "length b = 8"
  then obtain a1 a2 a3 a4 a5 a6 a7 a8 where b: "b = [a1, a2, a3, a4, a5, a6, a7, a8]"
    by (auto simp: length_Suc_conv numeral_eq_Suc)
  show ?thesis
    unfolding b put_uint64_unfold get_uint64_def foldl.simps ucast_drop_shifts by simp
qed

section \<open>encoding/hex\<close>

definition hex_digit :: "nat \<Rightarrow> char" where
  "hex_digit n = (if n < 10 then char_of (48 + n) else char_of (87 + n))"

definition hex_value :: "char \<Rightarrow> nat option" where
  "hex_value c = (let n = of_char c :: nat in
     if 48 \<le> n \<and> n \<le> 57 then Some (n - 48)
     else if 97 \<le> n \<and> n \<le> 102 then Some (n - 87)
     else if 65 \<le> n \<and> n \<le> 70 then Some (n - 55)
     else None)"

definition hex_encode :: "bytes \<Rightarrow> string" where
  "hex_encode b = concat (map (\<lambda>w. [hex_digit (unat w div 16), hex_digit (unat w mod 16)]) b)"

fun hex_decode :: "string \<Rightarrow> bytes option" where
  "hex_decode [] = Some []"
| "hex_decode [c] = None"
| "hex_decode (c # d # s) =
     (case (hex_value c, hex_value d, hex_decode s) of
        (Some x, Some y, Some b) \<Rightarrow> Some (of_nat (16 * x + y) # b)
      | _ \<Rightarrow> None)"

lemma hex_value_digit: "n < 16 \<Longrightarrow> hex_value (hex_digit n) = Some n"
  by (auto simp: hex_value_def hex_digit_def Let_def)

lemma byte_split: "(of_nat (16 * (unat w div 16) + unat w mod 16) :: byte) = w"
  by (simp only: mult_div_mod_eq) simp

lemma hex_decode_encode [simp]: "hex_decode (hex_encode b) = Some b"
proof (induction b)
  case Nil
  then show ?case by (simp add: hex_encode_def)
next
  case (Cons w b)
  have "unat w div 16 < 16"
    using unat_byte_lt [of w] by (simp add: less_mult_imp_div_less)
  then show ?case
    using Cons byte_split [of w] by (simp add: hex_encode_def hex_value_digit)
qed

lemma hex_encode_inject [simp]: "hex_encode a = hex_encode b \<longleftrightarrow> a = b"
  by (metis hex_decode_encode option.inject)

lemma length_hex_encode [simp]: "length (hex_encode b) = 2 * length b"
  by (induction b) (simp_all add: hex_encode_def)

section \<open>encoding/base64, RawURLEncoding\<close>

definition b64_char :: "nat \<Rightarrow> char" where
  "b64_char n = (if n < 26 then char_of (65 + n)
     else if n < 52 then char_of (71 + n)
     else if n < 62 then char_of (n - 4)
     else if n = 62 then CHR ''-'' else CHR ''_'')"

definition b64_value :: "char \<Rightarrow> nat option" where
  "b64_value c = (let n = of_char c :: nat in
     if 65 \<le> n \<and> n \<le> 90 then Some (n - 65)
     else if 97 \<le> n \<and> n \<le> 122 then Some (n - 71)
     else if 48 \<le> n \<and> n \<le> 57 then Some (n + 4)
     else if n = 45 then Some 62
     else if n = 95 then Some 63
     else None)"

fun b64_sextets :: "bytes \<Rightarrow> nat list" where
  "b64_sextets [] = []"
| "b64_sextets [a] = [unat a div 4, unat a mod 4 * 16]"
| "b64_sextets [a, b] = [unat a div 4, unat a mod 4 * 16 + unat b div 16, unat b mod 16 * 4]"
| "b64_sextets (a # b # c # r) =
     unat a div 4 # (unat a mod 4 * 16 + unat b div 16) # (unat b mod 16 * 4 + unat c div 64)
       # unat c mod 64 # b64_sextets r"

definition b64_encode :: "bytes \<Rightarrow> string" where
  "b64_encode b = map b64_char (b64_sextets b)"

text \<open>
  Go's decoder skips carriage returns and line feeds wherever they stand, refuses padding in a
  raw encoding, refuses a final group of one character, and (not being \<open>Strict\<close>) ignores the
  unused low bits of a short final group.
\<close>

fun b64_groups :: "nat list \<Rightarrow> bytes option" where
  "b64_groups [] = Some []"
| "b64_groups [p] = None"
| "b64_groups [p, q] = Some [of_nat (p * 4 + q div 16)]"
| "b64_groups [p, q, r] = Some [of_nat (p * 4 + q div 16), of_nat (q mod 16 * 16 + r div 4)]"
| "b64_groups (p # q # r # s # t) =
     map_option (\<lambda>b. of_nat (p * 4 + q div 16) # of_nat (q mod 16 * 16 + r div 4)
       # of_nat (r mod 4 * 64 + s) # b) (b64_groups t)"

definition b64_decode :: "string \<Rightarrow> bytes option" where
  "b64_decode s =
     (let cs = filter (\<lambda>c. c \<noteq> CHR 0x0A \<and> c \<noteq> CHR 0x0D) s; vs = map b64_value cs
      in if None \<in> set vs then None else b64_groups (map the vs))"

lemma b64_value_char: "n < 64 \<Longrightarrow> b64_value (b64_char n) = Some n"
  by (auto simp: b64_value_def b64_char_def Let_def)

lemma b64_value_newline: "b64_value (CHR 0x0A) = None" "b64_value (CHR 0x0D) = None"
  by (simp_all add: b64_value_def)

lemma b64_char_not_newline: "n < 64 \<Longrightarrow> b64_char n \<noteq> CHR 0x0A \<and> b64_char n \<noteq> CHR 0x0D"
  using b64_value_char [of n] b64_value_newline by (metis option.distinct(1))

lemma div_byte_bounds [simp]: "unat (w :: byte) div 4 < 64" "unat w div 16 < 16" "unat w div 64 < 4"
  using unat_byte_lt [of w] by (simp_all add: less_mult_imp_div_less)

lemma sextet_arith:
  fixes x m n :: nat
  shows "m < 16 \<Longrightarrow> x mod 4 * 16 + m < 64"
    and "m < 4 \<Longrightarrow> x mod 16 * 4 + m < 64"
    and "m < 16 \<Longrightarrow> x div 4 * 4 + (x mod 4 * 16 + m) div 16 = x"
    and "m < 16 \<Longrightarrow> n < 4 \<Longrightarrow> (x mod 4 * 16 + m) mod 16 * 16 + (y mod 16 * 4 + n) div 4 = m * 16 + y mod 16"
    and "n < 4 \<Longrightarrow> (y mod 16 * 4 + n) mod 4 * 64 + z mod 64 = n * 64 + z mod 64"
  using mod_less_divisor [of 4 x] mod_less_divisor [of 16 x] by (auto simp: mult.commute)

lemma b64_sextets_lt: "n \<in> set (b64_sextets b) \<Longrightarrow> n < 64"
proof (induction b rule: b64_sextets.induct)
  case (2 a)
  then show ?case using sextet_arith(1) [of 0 "unat a"] by auto
next
  case (3 a b)
  then show ?case using sextet_arith(1) [of "unat b div 16" "unat a"] sextet_arith(2) [of 0 "unat b"]
    by auto
next
  case (4 a b c r)
  then show ?case using sextet_arith(1) [of "unat b div 16" "unat a"]
    sextet_arith(2) [of "unat c div 64" "unat b"] by auto
qed simp

lemma byte_of_parts: "n = unat (w :: byte) \<Longrightarrow> (of_nat n :: byte) = w"
  by simp

lemma b64_groups_sextets: "b64_groups (b64_sextets b) = Some b"
proof (induction b rule: b64_sextets.induct)
  case (2 a)
  have "unat a div 4 * 4 + unat a mod 4 * 16 div 16 = unat a"
    using sextet_arith(3) [of 0 "unat a"] by simp
  then show ?case by (simp add: byte_of_parts del: of_nat_add of_nat_mult)
next
  case (3 a b)
  have "unat a div 4 * 4 + (unat a mod 4 * 16 + unat b div 16) div 16 = unat a"
    by (rule sextet_arith(3)) simp
  moreover have "(unat a mod 4 * 16 + unat b div 16) mod 16 * 16 + unat b mod 16 * 4 div 4 = unat b"
    using sextet_arith(4) [of "unat b div 16" 0 "unat a" "unat b"] by simp
  ultimately show ?case by (simp add: byte_of_parts del: of_nat_add of_nat_mult)
next
  case (4 a b c r)
  have "unat a div 4 * 4 + (unat a mod 4 * 16 + unat b div 16) div 16 = unat a"
    by (rule sextet_arith(3)) simp
  moreover have "(unat a mod 4 * 16 + unat b div 16) mod 16 * 16
      + (unat b mod 16 * 4 + unat c div 64) div 4 = unat b"
    using sextet_arith(4) [of "unat b div 16" "unat c div 64" "unat a" "unat b"] by simp
  moreover have "(unat b mod 16 * 4 + unat c div 64) mod 4 * 64 + unat c mod 64 = unat c"
    using sextet_arith(5) [of "unat c div 64" "unat b" "unat c"] by simp
  ultimately show ?case using 4 by (simp add: byte_of_parts del: of_nat_add of_nat_mult)
qed simp

lemma b64_decode_encode [simp]: "b64_decode (b64_encode b) = Some b"
proof -
  have nonl: "filter (\<lambda>c. c \<noteq> CHR 0x0A \<and> c \<noteq> CHR 0x0D) (b64_encode b) = b64_encode b"
    unfolding b64_encode_def
    by (rule filter_True) (use b64_char_not_newline b64_sextets_lt in fastforce)
  have vals: "map b64_value (b64_encode b) = map Some (b64_sextets b)"
    unfolding b64_encode_def using b64_value_char b64_sextets_lt by fastforce
  show ?thesis
    unfolding b64_decode_def Let_def nonl vals by (simp add: comp_def b64_groups_sextets)
qed

section \<open>strings\<close>

text \<open>
  \<open>TrimSpace\<close> removes the runes of Unicode's White_Space property from both ends; the ones
  outside ASCII are compared by their UTF-8 encodings.
\<close>

definition white_space :: "string list" where
  "white_space =
     [[CHR 0x09], [CHR 0x0A], [CHR 0x0B], [CHR 0x0C], [CHR 0x0D], [CHR 0x20],
      [CHR 0xC2, CHR 0x85], [CHR 0xC2, CHR 0xA0], [CHR 0xE1, CHR 0x9A, CHR 0x80]]
     @ map (\<lambda>n. [CHR 0xE2, CHR 0x80, char_of n]) ([128..<139] @ [168, 169, 175 :: nat])
     @ [[CHR 0xE2, CHR 0x81, CHR 0x9F], [CHR 0xE3, CHR 0x80, CHR 0x80]]"

definition strip_one :: "string list \<Rightarrow> string \<Rightarrow> string option" where
  "strip_one ps s = map_option (\<lambda>p. drop (length p) s) (find (\<lambda>p. p \<noteq> [] \<and> prefix p s) ps)"

lemma strip_one_shorter: "strip_one ps s = Some t \<Longrightarrow> length t < length s"
  by (auto simp: strip_one_def find_Some_iff prefix_def)

function trim_left :: "string list \<Rightarrow> string \<Rightarrow> string" where
  "trim_left ps s = (case strip_one ps s of None \<Rightarrow> s | Some t \<Rightarrow> trim_left ps t)"
  by pat_completeness auto
termination
  by (relation "measure (\<lambda>(ps, s). length s)") (auto dest: strip_one_shorter)

declare trim_left.simps [simp del]

definition TrimSpace :: "string \<Rightarrow> string" where
  "TrimSpace s = rev (trim_left (map rev white_space) (rev (trim_left white_space s)))"

definition trim_right_set :: "char list \<Rightarrow> string \<Rightarrow> string" where
  "trim_right_set cs s = rev (dropWhile (\<lambda>c. c \<in> set cs) (rev s))"

fun split_on :: "char \<Rightarrow> string \<Rightarrow> string list" where
  "split_on c [] = [[]]"
| "split_on c (x # s) =
     (if x = c then [] # split_on c s
      else (case split_on c s of [] \<Rightarrow> [[x]] | w # ws \<Rightarrow> (x # w) # ws))"

text \<open>\<open>strings.SplitN(s, c, n)\<close> for a one-character separator: at most \<open>n\<close> pieces.\<close>

fun splitn :: "char \<Rightarrow> nat \<Rightarrow> string \<Rightarrow> string list" where
  "splitn c 0 s = []"
| "splitn c (Suc 0) s = [s]"
| "splitn c (Suc (Suc n)) s =
     (let p = takeWhile (\<lambda>x. x \<noteq> c) s; r = dropWhile (\<lambda>x. x \<noteq> c) s
      in if r = [] then [p] else p # splitn c (Suc n) (tl r))"

definition cut_prefix :: "string \<Rightarrow> string \<Rightarrow> string option" where
  "cut_prefix p s = (if prefix p s then Some (drop (length p) s) else None)"

text \<open>\<open>strings.Index\<close>: the least position at which the pattern occurs.\<close>

fun str_index :: "string \<Rightarrow> string \<Rightarrow> nat option" where
  "str_index p [] = (if p = [] then Some 0 else None)"
| "str_index p (x # s) = (if prefix p (x # s) then Some 0 else map_option Suc (str_index p s))"

definition index_byte :: "char \<Rightarrow> string \<Rightarrow> nat option" where
  "index_byte c s = (let p = takeWhile (\<lambda>x. x \<noteq> c) s in if length p < length s then Some (length p) else None)"

definition last_segment :: "char \<Rightarrow> string \<Rightarrow> string" where
  "last_segment c s = rev (takeWhile (\<lambda>x. x \<noteq> c) (rev s))"

definition trim_suffix :: "string \<Rightarrow> string \<Rightarrow> string" where
  "trim_suffix p s = (if suffix p s then take (length s - length p) s else s)"

definition contains_any :: "char list \<Rightarrow> string \<Rightarrow> bool" where
  "contains_any cs s = (\<exists>c \<in> set s. c \<in> set cs)"

definition ascii_upper :: "char \<Rightarrow> char" where
  "ascii_upper c = (let n = of_char c :: nat in if 97 \<le> n \<and> n \<le> 122 then char_of (n - 32) else c)"

definition ascii_lower :: "char \<Rightarrow> char" where
  "ascii_lower c = (let n = of_char c :: nat in if 65 \<le> n \<and> n \<le> 90 then char_of (n + 32) else c)"

lemma split_on_nonempty [simp]: "split_on c s \<noteq> []"
  by (induction s) (auto split: list.splits)

lemma split_on_no_sep: "w \<in> set (split_on c s) \<Longrightarrow> c \<notin> set w"
  by (induction s arbitrary: w) (auto split: if_splits list.splits)

lemma split_on_single: "c \<notin> set s \<Longrightarrow> split_on c s = [s]"
  by (induction s) auto

lemma split_on_append: "c \<notin> set p \<Longrightarrow> split_on c (p @ c # s) = p # split_on c s"
  by (induction p) auto

definition graphic :: "char \<Rightarrow> bool" where
  "graphic c \<longleftrightarrow> 33 \<le> (of_char c :: nat) \<and> (of_char c :: nat) < 128"

lemma graphic_code: "graphic c \<Longrightarrow> (of_char c :: nat) \<notin> {9, 10, 11, 12, 13, 32} \<and> (of_char c :: nat) < 128"
  by (auto simp: graphic_def)

lemma strip_one_graphic:
  assumes "list_all (\<lambda>p. p = [] \<or> \<not> graphic (hd p)) ps" "s \<noteq> [] \<Longrightarrow> graphic (hd s)"
  shows "strip_one ps s = None"
proof -
  have "\<not> prefix p s" if "p \<in> set ps" "p \<noteq> []" for p
  proof
    assume "prefix p s"
    then obtain r where "s = p @ r" by (auto simp: prefix_def)
    then show False using that assms by (auto simp: list_all_iff)
  qed
  then show ?thesis by (auto simp: strip_one_def find_None_iff)
qed

lemma white_space_graphic:
  "list_all (\<lambda>p. p = [] \<or> \<not> graphic (hd p)) white_space" "list_all (\<lambda>p. p = [] \<or> \<not> graphic (hd p)) (map rev white_space)"
  by (simp_all add: white_space_def graphic_def upt_rec)

lemma TrimSpace_graphic: "list_all graphic s \<Longrightarrow> TrimSpace s = s"
proof -
  assume g: "list_all graphic s"
  have "trim_left white_space s = s"
    using strip_one_graphic [OF white_space_graphic(1), of s] g by (subst trim_left.simps) (auto simp: list_all_iff)
  moreover have "trim_left (map rev white_space) (rev s) = rev s"
    using strip_one_graphic [OF white_space_graphic(2), of "rev s"] g
    by (subst trim_left.simps) (auto simp: list_all_iff hd_rev)
  ultimately show ?thesis by (simp add: TrimSpace_def)
qed

lemma b64_char_graphic: "n < 64 \<Longrightarrow> graphic (b64_char n)"
  by (auto simp: graphic_def b64_char_def)

lemma TrimSpace_b64 [simp]: "TrimSpace (b64_encode b) = b64_encode b"
  by (rule TrimSpace_graphic) (auto simp: list_all_iff b64_encode_def b64_sextets_lt intro: b64_char_graphic)

end
