(* ===== verification/GoCrypto.thy ===== *)
theory GoCrypto
  imports GoStrings
begin

text \<open>
  The symmetric cryptography of Go's standard library that the program calls: SHA-256 and SHA-384
  (\<open>crypto/sha256\<close>, \<open>crypto/sha512\<close>; FIPS 180-4), HMAC (\<open>crypto/hmac\<close>; FIPS 198-1),
  HKDF (RFC 5869) and AES-256-GCM with 12-byte nonces (\<open>crypto/aes\<close>, \<open>crypto/cipher\<close>; FIPS 197,
  SP 800-38D), as executable functions on byte lists. The proofs of the development use only the
  facts stated here: output lengths, and the laws of the locales \<open>hash_fun\<close> and \<open>aead_cipher\<close>,
  which are interpreted on these functions. Nothing anywhere relies on a cryptographic assumption.
\<close>

section \<open>SHA-2\<close>

definition be_word :: "bytes \<Rightarrow> 'a :: len word" where
  "be_word b = foldl (\<lambda>a x. or (push_bit 8 a) (ucast x)) 0 b"

definition word_be :: "nat \<Rightarrow> 'a :: len word \<Rightarrow> bytes" where
  "word_be n w = map (\<lambda>i. ucast (drop_bit (8 * (n - Suc i)) w)) [0..<n]"

fun words_of_block :: "nat \<Rightarrow> nat \<Rightarrow> bytes \<Rightarrow> 'a :: len word list" where
  "words_of_block 0 k b = []"
| "words_of_block (Suc n) k b = be_word (take k b) # words_of_block n k (drop k b)"

text \<open>Padding to a multiple of the block: a one bit, zeros, the bit length in \<open>blk div 8\<close> bytes.\<close>

definition sha_pad :: "nat \<Rightarrow> bytes \<Rightarrow> bytes" where
  "sha_pad blk m =
     (let lb = blk div 8; z = nat ((int blk - 1 - int lb - int (length m)) mod int blk)
      in m @ [0x80] @ replicate z 0
         @ word_be lb (of_nat (8 * length m) :: 128 word))"

definition sha_extend :: "('a :: len word \<Rightarrow> 'a word) \<Rightarrow> ('a word \<Rightarrow> 'a word) \<Rightarrow> 'a word list \<Rightarrow> 'a word list" where
  "sha_extend s0 s1 ws =
     (let t = length ws
      in ws @ [s1 (ws ! (t - 2)) + ws ! (t - 7) + s0 (ws ! (t - 15)) + ws ! (t - 16)])"

type_synonym 'a sha_state = "'a word \<times> 'a word \<times> 'a word \<times> 'a word \<times> 'a word \<times> 'a word \<times> 'a word \<times> 'a word"

definition sha_round ::
  "('a :: len word \<Rightarrow> 'a word) \<Rightarrow> ('a word \<Rightarrow> 'a word) \<Rightarrow> 'a sha_state \<Rightarrow> 'a word \<times> 'a word \<Rightarrow> 'a sha_state" where
  "sha_round S0 S1 st kw =
     (case st of (a, b, c, d, e, f, g, h) \<Rightarrow>
        let t1 = h + S1 e + xor (and e f) (and (not e) g) + fst kw + snd kw;
            t2 = S0 a + xor (xor (and a b) (and a c)) (and b c)
        in (t1 + t2, a, b, c, d + t1, e, f, g))"

definition sha_add :: "'a :: len sha_state \<Rightarrow> 'a sha_state \<Rightarrow> 'a sha_state" where
  "sha_add s t =
     (case s of (a, b, c, d, e, f, g, h) \<Rightarrow> case t of (a', b', c', d', e', f', g', h') \<Rightarrow>
        (a + a', b + b', c + c', d + d', e + e', f + f', g + g', h + h'))"

fun sha_blocks :: "nat \<Rightarrow> ('s \<Rightarrow> bytes \<Rightarrow> 's) \<Rightarrow> nat \<Rightarrow> 's \<Rightarrow> bytes \<Rightarrow> 's" where
  "sha_blocks 0 f blk s m = s"
| "sha_blocks (Suc n) f blk s m = sha_blocks n f blk (f s (take blk m)) (drop blk m)"

text \<open>
  The constants of the SHA-2 family are the first bits of the fractional parts of roots of the first
  primes: cube roots of the first 64 or 80 for the round constants, square roots for the start
  values. \<open>root_bits k b n\<close> is the integer part of the \<open>k\<close>-th root of \<open>n\<close>, built from its \<open>b\<close> bits.
\<close>

fun root_bits :: "nat \<Rightarrow> nat \<Rightarrow> nat \<Rightarrow> nat \<Rightarrow> nat" where
  "root_bits k 0 n r = r"
| "root_bits k (Suc b) n r = root_bits k b n (if (r + 2 ^ b) ^ k \<le> n then r + 2 ^ b else r)"

definition small_primes :: "nat list" where
  "small_primes = filter (\<lambda>n. \<forall>d \<in> set [2..<n]. n mod d \<noteq> 0) [2..<410]"

definition root_fraction :: "nat \<Rightarrow> nat \<Rightarrow> 'a :: len word" where
  "root_fraction k p = of_nat (root_bits k (LENGTH('a) + 5) (p * 2 ^ (k * LENGTH('a))) 0)"

definition K512 :: "64 word list" where
  "K512 = map (root_fraction 3) small_primes"

definition sha512_block :: "64 sha_state \<Rightarrow> bytes \<Rightarrow> 64 sha_state" where
  "sha512_block st b =
     (let s0 = (\<lambda>x. xor (xor (word_rotr 1 x) (word_rotr 8 x)) (drop_bit 7 x));
          s1 = (\<lambda>x. xor (xor (word_rotr 19 x) (word_rotr 61 x)) (drop_bit 6 x));
          S0 = (\<lambda>x. xor (xor (word_rotr 28 x) (word_rotr 34 x)) (word_rotr 39 x));
          S1 = (\<lambda>x. xor (xor (word_rotr 14 x) (word_rotr 18 x)) (word_rotr 41 x));
          ws = (sha_extend s0 s1 ^^ 64) (words_of_block 16 8 b)
      in sha_add st (foldl (sha_round S0 S1) st (zip K512 ws)))"

definition sha_start :: "'a :: len word list \<Rightarrow> 'a sha_state" where
  "sha_start w = (w ! 0, w ! 1, w ! 2, w ! 3, w ! 4, w ! 5, w ! 6, w ! 7)"

definition sha384_init :: "64 sha_state" where
  "sha384_init = sha_start (map (root_fraction 2) (take 8 (drop 8 small_primes)))"

text \<open>\<open>sha512.Sum384\<close>: the first 48 bytes of the SHA-512 compression from SHA-384's own start.\<close>

definition sha384 :: "bytes \<Rightarrow> bytes" where
  "sha384 m =
     (let p = sha_pad 128 m
      in case sha_blocks (length p div 128) sha512_block 128 sha384_init p of
           (a, b, c, d, e, f, g, h) \<Rightarrow> concat (map (word_be 8) [a, b, c, d, e, f]))"

definition K256 :: "32 word list" where
  "K256 = map (root_fraction 3) (take 64 small_primes)"

definition sha256_block :: "32 sha_state \<Rightarrow> bytes \<Rightarrow> 32 sha_state" where
  "sha256_block st b =
     (let s0 = (\<lambda>x. xor (xor (word_rotr 7 x) (word_rotr 18 x)) (drop_bit 3 x));
          s1 = (\<lambda>x. xor (xor (word_rotr 17 x) (word_rotr 19 x)) (drop_bit 10 x));
          S0 = (\<lambda>x. xor (xor (word_rotr 2 x) (word_rotr 13 x)) (word_rotr 22 x));
          S1 = (\<lambda>x. xor (xor (word_rotr 6 x) (word_rotr 11 x)) (word_rotr 25 x));
          ws = (sha_extend s0 s1 ^^ 48) (words_of_block 16 4 b)
      in sha_add st (foldl (sha_round S0 S1) st (zip K256 ws)))"

definition sha256_init :: "32 sha_state" where
  "sha256_init = sha_start (map (root_fraction 2) (take 8 small_primes))"

definition sha256 :: "bytes \<Rightarrow> bytes" where
  "sha256 m =
     (let p = sha_pad 64 m
      in case sha_blocks (length p div 64) sha256_block 64 sha256_init p of
           (a, b, c, d, e, f, g, h) \<Rightarrow> concat (map (word_be 4) [a, b, c, d, e, f, g, h]))"

lemma length_word_be [simp]: "length (word_be n w) = n"
  by (simp add: word_be_def)

lemma length_sha384 [simp]: "length (sha384 m) = 48"
  by (simp add: sha384_def Let_def split: prod.splits)

lemma length_sha256 [simp]: "length (sha256 m) = 32"
  by (simp add: sha256_def Let_def split: prod.splits)

section \<open>HMAC and HKDF over a hash function\<close>

definition xor_bytes :: "bytes \<Rightarrow> bytes \<Rightarrow> bytes" where
  "xor_bytes a b = map2 xor a b"

definition hmac :: "(bytes \<Rightarrow> bytes) \<Rightarrow> nat \<Rightarrow> bytes \<Rightarrow> bytes \<Rightarrow> bytes" where
  "hmac H blk k m =
     (let k0 = (if length k > blk then H k else k);
          kp = k0 @ replicate (blk - length k0) 0
      in H (map (xor 0x5c) kp @ H (map (xor 0x36) kp @ m)))"

text \<open>
  \<open>hkdf_expand H blk prk info n t i\<close> is the concatenation of \<open>n\<close> output blocks, \<open>t\<close> the previous
  block and \<open>i\<close> the counter of the next one.
\<close>

fun hkdf_expand :: "(bytes \<Rightarrow> bytes) \<Rightarrow> nat \<Rightarrow> bytes \<Rightarrow> bytes \<Rightarrow> nat \<Rightarrow> bytes \<Rightarrow> byte \<Rightarrow> bytes" where
  "hkdf_expand H blk prk info 0 t i = []"
| "hkdf_expand H blk prk info (Suc n) t i =
     (let b = hmac H blk prk (t @ info @ [i]) in b @ hkdf_expand H blk prk info n b (i + 1))"

locale hash_fun =
  fixes H :: "bytes \<Rightarrow> bytes" and blk :: nat and out :: nat
  assumes out_length: "length (H m) = out"
    and out_pos: "0 < out"
begin

lemma hmac_length: "length (hmac H blk k m) = out"
  by (simp add: hmac_def Let_def out_length)

lemma hkdf_expand_length: "length (hkdf_expand H blk prk info n t i) = n * out"
  by (induction n arbitrary: t i) (simp_all add: Let_def hmac_length)

lemma hkdf_take_length:
  "k \<le> n * out \<Longrightarrow> length (take k (hkdf_expand H blk prk info n t i)) = k"
  by (simp add: hkdf_expand_length)

end

interpretation sha384: hash_fun sha384 128 48
  by unfold_locales simp_all

interpretation sha256: hash_fun sha256 64 32
  by unfold_locales simp_all

definition hmac384 :: "bytes \<Rightarrow> bytes \<Rightarrow> bytes" where
  "hmac384 k m = hmac sha384 128 k m"

text \<open>
  \<open>hkdf.New(sha512.New384, ikm, salt, info)\<close> read for \<open>n\<close> bytes; a nil salt is a string of
  zeros of the hash length. RFC 5869 limits \<open>n\<close> to 255 blocks; every caller asks for 32 bytes.
\<close>

definition hkdf384 :: "bytes \<Rightarrow> bytes \<Rightarrow> bytes \<Rightarrow> nat \<Rightarrow> bytes" where
  "hkdf384 ikm salt info n =
     (let prk = hmac384 (if salt = [] then replicate 48 0 else salt) ikm
      in take n (hkdf_expand sha384 128 prk info ((n + 47) div 48) [] 1))"

lemma length_hmac384 [simp]: "length (hmac384 k m) = 48"
  by (simp add: hmac384_def sha384.hmac_length)

lemma length_hkdf384 [simp]: "length (hkdf384 ikm salt info n) = n"
proof -
  have "n \<le> (n + 47) div 48 * 48" by presburger
  then show ?thesis by (simp add: hkdf384_def Let_def sha384.hkdf_expand_length)
qed

section \<open>AES-256\<close>

definition aes_xtime :: "byte \<Rightarrow> byte" where
  "aes_xtime a = xor (push_bit 1 a) (if bit a 7 then 0x1b else 0)"

definition aes_mul :: "byte \<Rightarrow> byte \<Rightarrow> byte" where
  "aes_mul a b = foldr xor (map (\<lambda>i. if bit a i then (aes_xtime ^^ i) b else 0) [0..<8]) 0"

text \<open>The S-box: inversion in GF(2^8) (the 254th power), then the affine map.\<close>

definition aes_sbox :: "byte \<Rightarrow> byte" where
  "aes_sbox a =
     (let p2 = aes_mul a a; p3 = aes_mul p2 a; p12 = aes_mul (aes_mul p3 p3) (aes_mul p3 p3);
          p15 = aes_mul p12 p3; p240 = ((\<lambda>x. aes_mul x x) ^^ 4) p15;
          i = aes_mul (aes_mul p240 p12) p2
      in xor (xor (xor i (word_rotl 1 i)) (xor (word_rotl 2 i) (word_rotl 3 i))) (xor (word_rotl 4 i) 0x63))"

definition aes_key_step :: "nat \<Rightarrow> byte \<Rightarrow> bytes list \<Rightarrow> bytes list" where
  "aes_key_step i rcon ws =
     (let t = last ws;
          t' = (if i mod 8 = 0 then xor_bytes (map aes_sbox (rotate1 t)) [rcon, 0, 0, 0]
                else if i mod 8 = 4 then map aes_sbox t else t)
      in ws @ [xor_bytes (ws ! (i - 8)) t'])"

fun aes_key_words :: "nat \<Rightarrow> nat \<Rightarrow> bytes list \<Rightarrow> bytes list" where
  "aes_key_words 0 i ws = ws"
| "aes_key_words (Suc n) i ws =
     aes_key_words n (Suc i) (aes_key_step i ((aes_xtime ^^ (i div 8 - 1)) 1) ws)"

fun chunks_of :: "nat \<Rightarrow> nat \<Rightarrow> 'a list \<Rightarrow> 'a list list" where
  "chunks_of 0 k xs = []"
| "chunks_of (Suc n) k xs = take k xs # chunks_of n k (drop k xs)"

definition aes256_round_keys :: "bytes \<Rightarrow> bytes list" where
  "aes256_round_keys key =
     chunks_of 15 16 (concat (aes_key_words 52 8 (chunks_of 8 4 key)))"

definition aes_shift_rows :: "bytes \<Rightarrow> bytes" where
  "aes_shift_rows s = map (\<lambda>i. s ! ((i + 4 * (i mod 4)) mod 16)) [0..<16]"

definition aes_mix_columns :: "bytes \<Rightarrow> bytes" where
  "aes_mix_columns s =
     map (\<lambda>i. let c = 4 * (i div 4); r = i mod 4;
                 a = s ! (c + r); b = s ! (c + (r + 1) mod 4);
                 d = s ! (c + (r + 2) mod 4); e = s ! (c + (r + 3) mod 4)
             in xor (xor (aes_xtime a) (xor (aes_xtime b) b)) (xor d e)) [0..<16]"

definition aes256_encrypt :: "bytes \<Rightarrow> bytes \<Rightarrow> bytes" where
  "aes256_encrypt key blk =
     (let rk = aes256_round_keys key;
          s0 = xor_bytes blk (rk ! 0);
          s13 = foldl (\<lambda>s k. xor_bytes (aes_mix_columns (aes_shift_rows (map aes_sbox s))) k) s0
                  (take 13 (drop 1 rk))
      in xor_bytes (aes_shift_rows (map aes_sbox s13)) (rk ! 14))"

section \<open>GCM\<close>

text \<open>Multiplication in GF(2^128) with GCM's reflected bit order: bit 127 is the coefficient of 1.\<close>

definition gcm_shift :: "128 word \<Rightarrow> 128 word" where
  "gcm_shift v = (if bit v 0 then xor (drop_bit 1 v) 0xe1000000000000000000000000000000 else drop_bit 1 v)"

fun gcm_mul_loop :: "nat \<Rightarrow> 128 word \<Rightarrow> 128 word \<Rightarrow> 128 word \<Rightarrow> 128 word" where
  "gcm_mul_loop 0 x v z = z"
| "gcm_mul_loop (Suc n) x v z = gcm_mul_loop n x (gcm_shift v) (if bit x n then xor z v else z)"

definition gcm_mul :: "128 word \<Rightarrow> 128 word \<Rightarrow> 128 word" where
  "gcm_mul x y = gcm_mul_loop 128 x y 0"

definition pad16 :: "bytes \<Rightarrow> bytes" where
  "pad16 b = b @ replicate (nat ((- int (length b)) mod 16)) 0"

definition ghash :: "128 word \<Rightarrow> bytes \<Rightarrow> 128 word" where
  "ghash h b = foldl (\<lambda>y c. gcm_mul (xor y (be_word c)) h) 0 (chunks_of (length b div 16) 16 b)"

definition gcm_counter_block :: "bytes \<Rightarrow> nat \<Rightarrow> bytes" where
  "gcm_counter_block iv n = iv @ word_be 4 (of_nat n :: 32 word)"

definition gcm_keystream :: "bytes \<Rightarrow> bytes \<Rightarrow> nat \<Rightarrow> bytes" where
  "gcm_keystream key iv len =
     take len (concat (map (\<lambda>i. take 16 (aes256_encrypt key (gcm_counter_block iv (i + 2)) @ replicate 16 0))
       [0..<(len + 15) div 16]))"

definition gcm_tag :: "bytes \<Rightarrow> bytes \<Rightarrow> bytes \<Rightarrow> bytes \<Rightarrow> bytes" where
  "gcm_tag key iv aad c =
     (let h = be_word (aes256_encrypt key (replicate 16 0));
          s = ghash h (pad16 aad @ pad16 c
                @ word_be 8 (of_nat (8 * length aad) :: 64 word) @ word_be 8 (of_nat (8 * length c) :: 64 word))
      in word_be 16 (xor s (be_word (aes256_encrypt key (gcm_counter_block iv 1)))))"

text \<open>
  \<open>aead.Seal(nil, nonce, plaintext, aad)\<close> and \<open>aead.Open(nil, nonce, ciphertext, aad)\<close>; the
  tag is the last 16 bytes. \<open>None\<close> is the authentication error.
\<close>

definition gcm_seal :: "bytes \<Rightarrow> bytes \<Rightarrow> bytes \<Rightarrow> bytes \<Rightarrow> bytes" where
  "gcm_seal key iv p aad =
     (let c = xor_bytes p (gcm_keystream key iv (length p)) in c @ gcm_tag key iv aad c)"

definition gcm_open :: "bytes \<Rightarrow> bytes \<Rightarrow> bytes \<Rightarrow> bytes \<Rightarrow> bytes option" where
  "gcm_open key iv ct aad =
     (if length ct < 16 then None
      else let c = take (length ct - 16) ct
           in if drop (length ct - 16) ct = gcm_tag key iv aad c
              then Some (xor_bytes c (gcm_keystream key iv (length c))) else None)"

lemma length_gcm_tag [simp]: "length (gcm_tag key iv aad c) = 16"
  by (simp add: gcm_tag_def Let_def)

lemma length_concat_const: "(\<And>x. x \<in> set xs \<Longrightarrow> length x = k) \<Longrightarrow> length (concat xs) = length xs * k"
  by (induction xs) auto

lemma length_gcm_keystream [simp]: "length (gcm_keystream key iv n) = n"
proof -
  let ?blocks = "map (\<lambda>i. take 16 (aes256_encrypt key (gcm_counter_block iv (i + 2)) @ replicate 16 0))
       [0..<(n + 15) div 16]"
  have "length (concat ?blocks) = (n + 15) div 16 * 16"
    by (subst length_concat_const [where k = 16]) auto
  moreover have "n \<le> (n + 15) div 16 * 16" by presburger
  ultimately show ?thesis by (simp add: gcm_keystream_def)
qed

lemma length_xor_bytes [simp]: "length (xor_bytes a b) = min (length a) (length b)"
  by (simp add: xor_bytes_def)

lemma xor_bytes_cancel: "length a \<le> length k \<Longrightarrow> xor_bytes (xor_bytes a k) k = a"
  unfolding xor_bytes_def
  by (induction a k rule: list_induct2') (auto simp: xor.assoc)

lemma length_gcm_seal [simp]: "length (gcm_seal key iv p aad) = length p + 16"
  by (simp add: gcm_seal_def Let_def)

text \<open>
  The interface of an AEAD as the program uses it: sealing appends a tag of fixed length,
  opening undoes sealing, and whatever opens is exactly what sealing its plaintext gives.
\<close>

locale aead_cipher =
  fixes seal :: "bytes \<Rightarrow> bytes \<Rightarrow> bytes \<Rightarrow> bytes \<Rightarrow> bytes"
    and opn :: "bytes \<Rightarrow> bytes \<Rightarrow> bytes \<Rightarrow> bytes \<Rightarrow> bytes option"
    and tag :: nat
  assumes seal_length: "length (seal k n p a) = length p + tag"
    and open_seal: "opn k n (seal k n p a) a = Some p"
    and open_SomeD: "opn k n c a = Some p \<Longrightarrow> seal k n p a = c"
begin

lemma open_length: "opn k n c a = Some p \<Longrightarrow> length c = length p + tag"
  using open_SomeD seal_length by metis

lemma open_short: "length c < tag \<Longrightarrow> opn k n c a = None"
  using open_length by (cases "opn k n c a") fastforce+

lemma seal_inject: "seal k n p a = seal k n q a \<longleftrightarrow> p = q"
  by (metis open_seal option.inject)

lemma open_inject: "opn k n c a = Some p \<Longrightarrow> opn k n d a = Some p \<Longrightarrow> c = d"
  using open_SomeD by metis

end

interpretation gcm: aead_cipher gcm_seal gcm_open 16
proof
  fix k n p a
  show "gcm_open k n (gcm_seal k n p a) a = Some p"
    by (simp add: gcm_open_def gcm_seal_def Let_def xor_bytes_cancel)
next
  fix k n c a p
  assume "gcm_open k n c a = Some p"
  then have len: "16 \<le> length c"
    and tag: "drop (length c - 16) c = gcm_tag k n a (take (length c - 16) c)"
    and p: "p = xor_bytes (take (length c - 16) c) (gcm_keystream k n (length c - 16))"
    by (auto simp: gcm_open_def Let_def min_def split: if_splits)
  have "gcm_seal k n p a = take (length c - 16) c @ gcm_tag k n a (take (length c - 16) c)"
    using len by (simp add: gcm_seal_def Let_def p xor_bytes_cancel)
  then show "gcm_seal k n p a = c"
    using tag by (metis append_take_drop_id)
qed simp

end
