(* ===== verification/Spec.thy ===== *)
theory Spec
  imports GoStrings
begin

text \<open>
  \<open>internal/spec\<close>: the frozen constants of the archive format (\<open>spec.go\<close>), the container
  framing of sealed objects (\<open>container.go\<close>), the closed set of source types
  (\<open>sourcetype.go\<close>) and the ULID codec of run identifiers (\<open>ulid.go\<close>).
\<close>

section \<open>spec.go\<close>

definition Version :: string where "Version = ''downpipe/0.1.0''"
definition ChunkSize :: nat where "ChunkSize = 65536"

definition EnvelopeAEAD :: string where "EnvelopeAEAD = ''AES-256-GCM''"
definition EnvelopeKEM :: string where "EnvelopeKEM = ''X25519+ML-KEM-1024''"
definition EnvelopeSig :: string where "EnvelopeSig = ''Ed25519+ML-DSA-87''"
definition EnvelopeKDF :: string where "EnvelopeKDF = ''HKDF-SHA-384''"

definition CodecNone :: byte where "CodecNone = 0x00"
definition CodecGzip :: byte where "CodecGzip = 0x01"
definition CodecNameNone :: string where "CodecNameNone = ''none''"
definition CodecNameGzip :: string where "CodecNameGzip = ''gzip''"

definition AddrSingleNonSecret :: byte where "AddrSingleNonSecret = 0x01"
definition AddrPacked :: byte where "AddrPacked = 0x02"
definition AddrSecrets :: byte where "AddrSecrets = 0x03"

definition InfoContentAddress :: string where "InfoContentAddress = ''downpipe/0.1.0 content-address''"
definition InfoManifestKey :: string where "InfoManifestKey = ''downpipe/0.1.0 manifest-key''"
definition InfoManifestWrap :: string where "InfoManifestWrap = ''downpipe/0.1.0 manifest-wrap''"
definition InfoNameMAC :: string where "InfoNameMAC = ''downpipe/0.1.0 name-mac''"
definition InfoSegKey :: string where "InfoSegKey = ''downpipe/0.1.0 seg-key''"
definition InfoKeyCommit :: string where "InfoKeyCommit = ''downpipe/0.1.0 key-commit''"
definition InfoRecipientSet :: string where "InfoRecipientSet = ''downpipe/0.1.0 recipient-set''"
definition InfoCapsuleDEM :: string where "InfoCapsuleDEM = ''downpipe/0.1.0 capsule-dem''"

definition StreamNonceSize :: nat where "StreamNonceSize = 16"
definition TagSize :: nat where "TagSize = 16"
definition FileKeySize :: nat where "FileKeySize = 32"
definition InfoPayload :: string where "InfoPayload = ''downpipe/0.1.0 payload''"
definition HybridKEMLabel :: string where "HybridKEMLabel = ''downpipe/0.1.0 hybrid-kem''"

section \<open>container.go\<close>

definition MagicSeg :: bytes where "MagicSeg = [0x44, 0x50, 0x53, 0x31]"
definition MagicDpe :: bytes where "MagicDpe = [0x44, 0x50, 0x45, 0x31]"
definition ContainerVersion :: byte where "ContainerVersion = 0x01"
definition ContainerHeaderSize :: nat where "ContainerHeaderSize = 5"

datatype container_error =
    ContainerShort nat
  | ContainerMagic bytes
  | ContainerVersionUnsupported byte

definition FrameContainer :: "bytes \<Rightarrow> bytes \<Rightarrow> bytes" where
  "FrameContainer magic payload = take 4 magic @ [ContainerVersion] @ payload"

definition UnframeContainer :: "bytes \<Rightarrow> bytes \<Rightarrow> container_error + bytes" where
  "UnframeContainer magic b =
     (if length b < ContainerHeaderSize then Inl (ContainerShort (length b))
      else if take 4 b \<noteq> magic then Inl (ContainerMagic (take 4 b))
      else if b ! 4 \<noteq> ContainerVersion then Inl (ContainerVersionUnsupported (b ! 4))
      else Inr (drop ContainerHeaderSize b))"

text \<open>
  The streamed form reads the header from a reader and returns the reader positioned after it.
  A reader that delivers its content without a read error is the byte list still to be read:
  \<open>io.ReadFull\<close> of five bytes takes them from the front, or reports how many there were.
\<close>

definition UnframeContainerReader :: "bytes \<Rightarrow> bytes \<Rightarrow> container_error + bytes" where
  "UnframeContainerReader magic r =
     (let hdr = take ContainerHeaderSize r
      in if length hdr < ContainerHeaderSize then Inl (ContainerShort (length hdr))
         else if hdr ! 0 \<noteq> magic ! 0 \<or> hdr ! 1 \<noteq> magic ! 1 \<or> hdr ! 2 \<noteq> magic ! 2 \<or> hdr ! 3 \<noteq> magic ! 3
         then Inl (ContainerMagic (take 4 hdr))
         else if hdr ! 4 \<noteq> ContainerVersion then Inl (ContainerVersionUnsupported (hdr ! 4))
         else Inr (drop ContainerHeaderSize r))"

lemma take4_eq_iff:
  "length magic = 4 \<Longrightarrow> 4 \<le> length b \<Longrightarrow>
   take 4 b = magic \<longleftrightarrow> b ! 0 = magic ! 0 \<and> b ! 1 = magic ! 1 \<and> b ! 2 = magic ! 2 \<and> b ! 3 = magic ! 3"
  by (auto simp: list_eq_iff_nth_eq less_Suc_eq numeral_eq_Suc)

lemma magic_length [simp]: "length MagicSeg = 4" "length MagicDpe = 4"
  by (simp_all add: MagicSeg_def MagicDpe_def)

lemma UnframeContainer_Frame [simp]:
  "length magic = 4 \<Longrightarrow> UnframeContainer magic (FrameContainer magic p) = Inr p"
  by (simp add: UnframeContainer_def FrameContainer_def ContainerHeaderSize_def nth_append)

lemma UnframeContainer_Inr_iff:
  assumes "length magic = 4"
  shows "UnframeContainer magic b = Inr p \<longleftrightarrow> b = FrameContainer magic p"
proof
  assume u: "UnframeContainer magic b = Inr p"
  then have "b = take 4 b @ b ! 4 # drop 5 b"
    by (auto simp: UnframeContainer_def ContainerHeaderSize_def Cons_nth_drop_Suc numeral_eq_Suc
        split: if_splits)
  then show "b = FrameContainer magic p"
    using u assms by (auto simp: UnframeContainer_def FrameContainer_def ContainerHeaderSize_def split: if_splits)
qed (use assms in simp)

lemma UnframeContainerReader_eq:
  "length magic = 4 \<Longrightarrow> UnframeContainerReader magic b = UnframeContainer magic b"
  by (auto simp: UnframeContainerReader_def UnframeContainer_def ContainerHeaderSize_def Let_def
      take4_eq_iff min_def)

section \<open>sourcetype.go\<close>

definition SourceKV :: string where "SourceKV = ''kv''"
definition SourceR2 :: string where "SourceR2 = ''r2''"
definition SourceSecrets :: string where "SourceSecrets = ''secrets''"
definition SourceD1 :: string where "SourceD1 = ''d1''"
definition SourceWorkers :: string where "SourceWorkers = ''workers''"
definition SourceCFConfig :: string where "SourceCFConfig = ''cf-config''"
definition SourceStream :: string where "SourceStream = ''stream''"
definition SourceImages :: string where "SourceImages = ''images''"
definition SourceArtifacts :: string where "SourceArtifacts = ''artifacts''"

definition knownSourceTypes :: "string list" where
  "knownSourceTypes = [SourceKV, SourceR2, SourceSecrets, SourceD1, SourceWorkers, SourceCFConfig,
     SourceStream, SourceImages, SourceArtifacts]"

definition KnownSourceTypes :: "string list" where
  "KnownSourceTypes = sort knownSourceTypes"

definition IsKnownSourceType :: "string \<Rightarrow> bool" where
  "IsKnownSourceType t \<longleftrightarrow> t \<in> set knownSourceTypes"

definition ReprovisionSourceType :: "string \<Rightarrow> bool" where
  "ReprovisionSourceType t \<longleftrightarrow>
     t = SourceWorkers \<or> t = SourceCFConfig \<or> t = SourceStream \<or> t = SourceImages \<or> t = SourceArtifacts"

lemmas source_type_defs = SourceKV_def SourceR2_def SourceSecrets_def SourceD1_def SourceWorkers_def
  SourceCFConfig_def SourceStream_def SourceImages_def SourceArtifacts_def

lemma reprovision_known: "ReprovisionSourceType t \<Longrightarrow> IsKnownSourceType t"
  by (auto simp: ReprovisionSourceType_def IsKnownSourceType_def knownSourceTypes_def)

lemma reprovision_not_direct [simp]:
  "\<not> ReprovisionSourceType SourceD1" "\<not> ReprovisionSourceType SourceSecrets"
  "\<not> ReprovisionSourceType SourceKV" "\<not> ReprovisionSourceType SourceR2"
  by (simp_all add: ReprovisionSourceType_def source_type_defs)

lemma set_KnownSourceTypes: "t \<in> set KnownSourceTypes \<longleftrightarrow> IsKnownSourceType t"
  by (simp add: KnownSourceTypes_def IsKnownSourceType_def)

section \<open>ulid.go\<close>

definition crockfordAlphabet :: string where
  "crockfordAlphabet = ''0123456789ABCDEFGHJKMNPQRSTVWXYZ''"

text \<open>\<open>None\<close> is Go's \<open>-1\<close>.\<close>

definition crockfordValue :: "char \<Rightarrow> nat option" where
  "crockfordValue c = (let n = of_char c :: nat in
     if 48 \<le> n \<and> n \<le> 57 then Some (n - 48)
     else if 65 \<le> n \<and> n \<le> 72 then Some (n - 65 + 10)
     else if n = 74 \<or> n = 75 then Some (n - 74 + 18)
     else if n = 77 \<or> n = 78 then Some (n - 77 + 20)
     else if 80 \<le> n \<and> n \<le> 84 then Some (n - 80 + 22)
     else if 86 \<le> n \<and> n \<le> 90 then Some (n - 86 + 27)
     else None)"

fun ulid_encode_loop :: "nat \<Rightarrow> 64 word \<Rightarrow> 64 word \<Rightarrow> string \<Rightarrow> string" where
  "ulid_encode_loop 0 hi lo out = out"
| "ulid_encode_loop (Suc i) hi lo out =
     ulid_encode_loop i (drop_bit 5 hi) (or (drop_bit 5 lo) (push_bit 59 hi))
       (crockfordAlphabet ! unat (and lo 0x1f) # out)"

datatype ulid_error = UlidBytes nat | UlidLength nat | UlidChar char nat | UlidOverflow char

definition EncodeULID :: "bytes \<Rightarrow> ulid_error + string" where
  "EncodeULID b =
     (if length b \<noteq> 16 then Inl (UlidBytes (length b))
      else Inr (ulid_encode_loop 26 (get_uint64 (take 8 b)) (get_uint64 (drop 8 b)) []))"

fun ulid_decode_loop :: "nat \<Rightarrow> string \<Rightarrow> 64 word \<Rightarrow> 64 word \<Rightarrow> ulid_error + 64 word \<times> 64 word" where
  "ulid_decode_loop i [] hi lo = Inr (hi, lo)"
| "ulid_decode_loop i (c # s) hi lo =
     (case crockfordValue c of
        None \<Rightarrow> Inl (UlidChar c i)
      | Some v \<Rightarrow>
          if i = 0 \<and> v > 7 then Inl (UlidOverflow c)
          else ulid_decode_loop (Suc i) s (or (push_bit 5 hi) (drop_bit 59 lo))
                 (or (push_bit 5 lo) (of_nat v)))"

definition DecodeULID :: "string \<Rightarrow> ulid_error + bytes" where
  "DecodeULID s =
     (if length s \<noteq> 26 then Inl (UlidLength (length s))
      else map_sum id (\<lambda>(hi, lo). put_uint64 hi @ put_uint64 lo) (ulid_decode_loop 0 s 0 0))"


text \<open>
  The two registers of the codec are one 128-bit number, \<open>ulid_join hi lo\<close>; the encoder writes its
  base-32 digits and the decoder reads them back.
\<close>

definition ulid_join :: "64 word \<Rightarrow> 64 word \<Rightarrow> 128 word" where
  "ulid_join hi lo = or (push_bit 64 (ucast hi)) (ucast lo)"

fun digits32 :: "nat \<Rightarrow> nat \<Rightarrow> nat list" where
  "digits32 0 n = []"
| "digits32 (Suc k) n = digits32 k (n div 32) @ [n mod 32]"

definition undigits32 :: "nat \<Rightarrow> nat list \<Rightarrow> nat" where
  "undigits32 a ds = foldl (\<lambda>a d. 32 * a + d) a ds"

lemma undigits32_simps [simp]:
  "undigits32 a [] = a"
  "undigits32 a (d # ds) = undigits32 (32 * a + d) ds"
  "undigits32 a (ds @ [d]) = 32 * undigits32 a ds + d"
  by (simp_all add: undigits32_def)

lemma length_digits32 [simp]: "length (digits32 k n) = k"
  by (induction k arbitrary: n) simp_all

lemma digits32_lt: "d \<in> set (digits32 k n) \<Longrightarrow> d < 32"
  by (induction k arbitrary: n) auto

lemma undigits32_digits32: "n < 32 ^ k \<Longrightarrow> undigits32 0 (digits32 k n) = n"
  by (induction k arbitrary: n) (auto simp: less_mult_imp_div_less mult.commute)

lemma digits32_undigits32:
  "(\<And>d. d \<in> set ds \<Longrightarrow> d < 32) \<Longrightarrow> digits32 (length ds) (undigits32 0 ds) = ds"
  by (induction ds rule: rev_induct) (auto simp: mult.commute)

lemma ulid_join_inject: "ulid_join h l = ulid_join h' l' \<Longrightarrow> h = h' \<and> l = l'"
proof -
  have "ucast (ulid_join h l) = l" for h l
    unfolding ulid_join_def by (rule bit_word_eqI) (auto simp: bit_simps)
  moreover have "ucast (drop_bit 64 (ulid_join h l)) = h" for h l
    unfolding ulid_join_def by (rule bit_word_eqI) (auto simp: bit_simps dest: bit_imp_le_length)
  ultimately show "ulid_join h l = ulid_join h' l' \<Longrightarrow> h = h' \<and> l = l'" by metis
qed

lemma ulid_join_shr:
  "ulid_join (drop_bit 5 hi) (or (drop_bit 5 lo) (push_bit 59 hi)) = drop_bit 5 (ulid_join hi lo)"
proof (rule bit_word_eqI)
  fix n
  assume "n < LENGTH(128)"
  moreover have "5 + (n - 64) = n - 59" if "64 \<le> n" using that by arith
  ultimately show "bit (ulid_join (drop_bit 5 hi) (or (drop_bit 5 lo) (push_bit 59 hi))) n
     = bit (drop_bit 5 (ulid_join hi lo)) n"
    unfolding ulid_join_def
    by (cases "64 \<le> n") (auto simp: bit_simps dest: bit_imp_le_length)
qed

lemma bit_digit32: "v < 32 \<Longrightarrow> bit (v :: nat) n \<Longrightarrow> n < 5"
  using bit_take_bit_iff [of 5 v n] by (simp add: take_bit_nat_eq_self)

lemma ulid_join_shl:
  "v < 32 \<Longrightarrow> ulid_join (or (push_bit 5 hi) (drop_bit 59 lo)) (or (push_bit 5 lo) (of_nat v))
     = or (push_bit 5 (ulid_join hi lo)) (of_nat v)"
  unfolding ulid_join_def
  by (rule bit_word_eqI) (auto simp: bit_simps dest: bit_imp_le_length bit_digit32)

lemma ulid_join_low: "unat (and lo 0x1f) = unat (ulid_join hi lo) mod 32"
proof -
  have "and lo 0x1f = take_bit 5 lo"
    by (simp add: take_bit_eq_mask mask_numeral)
  moreover have "take_bit 5 (unat lo) = take_bit 5 (unat (ulid_join hi lo))"
    by (rule bit_eqI) (auto simp: ulid_join_def bit_simps)
  ultimately show ?thesis
    by (simp add: unat_mod take_bit_eq_mod)
qed

lemma ulid_encode_loop_digits:
  "ulid_encode_loop n hi lo out = map ((!) crockfordAlphabet) (digits32 n (unat (ulid_join hi lo))) @ out"
proof (induction n arbitrary: hi lo out)
  case (Suc n)
  have "unat (drop_bit 5 (ulid_join hi lo)) = unat (ulid_join hi lo) div 32"
    by (simp add: unat_div drop_bit_eq_div)
  then show ?case
    by (simp only: ulid_encode_loop.simps Suc ulid_join_shr ulid_join_low [of lo hi] digits32.simps map_append
        list.map append_assoc append_Cons append_Nil)
qed simp

lemma crockfordValue_alphabet: "n < 32 \<Longrightarrow> crockfordValue (crockfordAlphabet ! n) = Some n"
  by (auto simp: crockfordAlphabet_def crockfordValue_def less_Suc_eq numeral_eq_Suc)

lemma crockfordValue_code:
  "crockfordValue c = Some v \<Longrightarrow> v < 32 \<and> (of_char c :: nat) =
     (if v < 10 then v + 48 else if v < 18 then v + 55 else if v < 20 then v + 56
      else if v < 22 then v + 57 else if v < 27 then v + 58 else v + 59)"
  by (auto simp: crockfordValue_def Let_def split: if_split_asm)

lemma crockfordValue_inject:
  "crockfordValue c = Some v \<Longrightarrow> crockfordValue d = Some v \<Longrightarrow> c = d"
  using crockfordValue_code [of c v] crockfordValue_code [of d v] by (metis of_char_eq_iff)

lemma crockfordValue_Some:
  assumes "crockfordValue c = Some v"
  shows "v < 32 \<and> crockfordAlphabet ! v = c"
proof -
  have "v < 32"
    using crockfordValue_code [OF assms] by blast
  with assms show ?thesis using crockfordValue_alphabet crockfordValue_inject by blast
qed

lemma unat_shift_in:
  fixes c :: "128 word"
  assumes "unat c < 2 ^ 123" "v < 32"
  shows "unat (or (push_bit 5 c) (of_nat v)) = 32 * unat c + v"
proof -
  have "and (push_bit 5 c) (of_nat v) = 0"
    by (rule bit_word_eqI) (use assms(2) in \<open>auto simp: bit_simps dest: bit_digit32\<close>)
  then have "or (push_bit 5 c) (of_nat v) = push_bit 5 c + of_nat v"
    by (simp add: disjunctive_add_eq_or)
  moreover have "push_bit 5 c + of_nat v = of_nat (32 * unat c + v)"
    by (simp add: push_bit_eq_mult mult.commute)
  moreover have "32 * unat c + v < 2 ^ 128" using assms by simp
  ultimately show ?thesis by (simp add: unat_of_nat del: of_nat_add of_nat_mult)
qed

lemma ulid_decode_loop_value:
  assumes "ulid_decode_loop i s hi lo = Inr (hi', lo')" "i + length s \<le> 26"
    and "unat (ulid_join hi lo) < (if i = 0 then 1 else 2 ^ (5 * i - 2))"
  shows "\<exists>ds. map crockfordValue s = map Some ds \<and> unat (ulid_join hi' lo') = undigits32 (unat (ulid_join hi lo)) ds"
  using assms
proof (induction i s hi lo rule: ulid_decode_loop.induct)
  case (2 i c s hi lo)
  obtain v where v: "crockfordValue c = Some v" and v7: "i = 0 \<longrightarrow> v \<le> 7"
    and rest: "ulid_decode_loop (Suc i) s (or (push_bit 5 hi) (drop_bit 59 lo)) (or (push_bit 5 lo) (of_nat v))
       = Inr (hi', lo')"
    using "2.prems"(1) by (auto split: option.splits if_splits)
  have "v < 32" using v crockfordValue_Some by blast
  have le: "unat (ulid_join hi lo) < 2 ^ 123"
  proof (cases "i = 0")
    case False
    have "(2 :: nat) ^ (5 * i - 2) \<le> 2 ^ 123"
      using "2.prems"(2) by (intro power_increasing) auto
    with "2.prems"(3) False show ?thesis by simp
  qed (use "2.prems"(3) in simp)
  let ?hi = "or (push_bit 5 hi) (drop_bit 59 lo)" and ?lo = "or (push_bit 5 lo) (of_nat v)"
  have j: "unat (ulid_join ?hi ?lo) = 32 * unat (ulid_join hi lo) + v"
    using \<open>v < 32\<close> le by (simp only: ulid_join_shl unat_shift_in)
  have "32 * unat (ulid_join hi lo) + v < 2 ^ (5 * Suc i - 2)"
  proof (cases i)
    case (Suc m)
    have "(2 :: nat) ^ (5 * Suc i - 2) = 32 * 2 ^ (5 * i - 2)"
      by (simp add: Suc power_add)
    with "2.prems"(3) Suc \<open>v < 32\<close> show ?thesis by simp
  qed (use "2.prems"(3) v7 in simp)
  with j have "\<exists>ds. map crockfordValue s = map Some ds
      \<and> unat (ulid_join hi' lo') = undigits32 (unat (ulid_join ?hi ?lo)) ds"
    using "2.IH" [OF v _ rest] v7 "2.prems"(2) by fastforce
  then show ?case using v j by (auto intro: exI [of _ "v # _"])
qed (auto intro: exI [of _ "[]"])

lemma ulid_decode_loop_defined:
  "map crockfordValue s = map Some ds \<Longrightarrow> (i = 0 \<longrightarrow> ds = [] \<or> hd ds \<le> 7) \<Longrightarrow>
   \<exists>hi' lo'. ulid_decode_loop i s hi lo = Inr (hi', lo')"
proof (induction i s hi lo arbitrary: ds rule: ulid_decode_loop.induct)
  case (2 i c s hi lo)
  then obtain v ds' where "ds = v # ds'" "crockfordValue c = Some v" "map crockfordValue s = map Some ds'"
    by (cases ds) auto
  with 2 show ?case by auto
qed simp

lemma get_uint64_join: "length b = 16 \<Longrightarrow> put_uint64 (get_uint64 (take 8 b)) @ put_uint64 (get_uint64 (drop 8 b)) = b"
  using put_get_uint64 [of "take 8 b"] put_get_uint64 [of "drop 8 b"] by simp

lemma ulid_decode_encode:
  assumes "length b = 16"
  shows "rbind (EncodeULID b) DecodeULID = Inr b"
proof -
  let ?hi = "get_uint64 (take 8 b)" and ?lo = "get_uint64 (drop 8 b)"
  let ?N = "unat (ulid_join ?hi ?lo)"
  let ?ds = "digits32 26 ?N" and ?s = "ulid_encode_loop 26 ?hi ?lo []"
  have s: "?s = map ((!) crockfordAlphabet) ?ds" by (simp only: ulid_encode_loop_digits append_Nil2)
  have vals: "map crockfordValue ?s = map Some ?ds"
    unfolding s using digits32_lt crockfordValue_alphabet by auto
  have N: "?N < 2 ^ 128" using unsigned_less [of "ulid_join ?hi ?lo"] by simp
  then have und: "undigits32 0 ?ds = ?N" by (intro undigits32_digits32) (simp add: less_trans)
  have "hd ?ds \<le> 7"
  proof -
    obtain d ds where c: "?ds = d # ds" by (metis length_digits32 length_Suc_conv numeral_eq_Suc)
    have "undigits32 a xs \<ge> a * 32 ^ length xs" for a xs
      by (induction xs rule: rev_induct) (auto simp: algebra_simps)
    from this [of d ds] have "d * 32 ^ 25 \<le> ?N"
      using und c length_digits32 [of 26 ?N] by simp
    then have "d * 32 ^ 25 < 8 * 32 ^ 25" using N by simp
    then show ?thesis using c by simp
  qed
  then obtain hi' lo' where dec: "ulid_decode_loop 0 ?s 0 0 = Inr (hi', lo')"
    using ulid_decode_loop_defined [OF vals] by blast
  have z: "unat (ulid_join 0 0) = 0" by (simp add: ulid_join_def)
  obtain ds where "map crockfordValue ?s = map Some ds" "unat (ulid_join hi' lo') = undigits32 0 ds"
    using ulid_decode_loop_value [OF dec] z s by auto
  then have "unat (ulid_join hi' lo') = ?N"
    unfolding vals using und by (simp add: inj_map_eq_map)
  then have "hi' = ?hi \<and> lo' = ?lo"
    using ulid_join_inject unsigned_word_eqI by blast
  then show ?thesis
    using assms dec s by (simp add: EncodeULID_def DecodeULID_def get_uint64_join del: ulid_encode_loop.simps)
qed

lemma ulid_encode_decode:
  assumes "DecodeULID s = Inr b"
  shows "EncodeULID b = Inr s"
proof -
  have len: "length s = 26"
    using assms by (auto simp: DecodeULID_def split: if_splits)
  obtain hi lo where dec: "ulid_decode_loop 0 s 0 0 = Inr (hi, lo)" and b: "b = put_uint64 hi @ put_uint64 lo"
    using assms by (auto simp: DecodeULID_def map_sum_def split: if_splits sum.splits)
  have z: "unat (ulid_join 0 0) = 0" by (simp add: ulid_join_def)
  obtain ds where ds: "map crockfordValue s = map Some ds" "unat (ulid_join hi lo) = undigits32 0 ds"
    using ulid_decode_loop_value [OF dec] z len by auto
  have dv: "d < 32 \<and> crockfordAlphabet ! d = c" if "(c, d) \<in> set (zip s ds)" for c d
    using that ds(1) crockfordValue_Some by (auto simp: set_zip list_eq_iff_nth_eq)
  have lds: "length ds = 26" using ds(1) len by (metis length_map)
  have "d < 32" if "d \<in> set ds" for d
    using that dv lds len by (metis in_set_conv_nth in_set_zip fst_conv snd_conv)
  then have "digits32 26 (unat (ulid_join hi lo)) = ds"
    using digits32_undigits32 [of ds] lds ds(2) by simp
  moreover have "map ((!) crockfordAlphabet) ds = s"
    using dv lds len by (auto simp: list_eq_iff_nth_eq set_zip)
  ultimately show ?thesis
    unfolding EncodeULID_def b by (simp add: ulid_encode_loop_digits del: ulid_encode_loop.simps)
qed

text \<open>
  The ULID codec is canonical: a 26-character string decodes to sixteen bytes exactly when
  those bytes encode to that string. So every run identifier has one spelling, and the decoder
  accepts no lower case, no excluded letter and no value above 128 bits.
\<close>
theorem ulid_canonical: "DecodeULID s = Inr b \<longleftrightarrow> EncodeULID b = Inr s"
proof
  assume enc: "EncodeULID b = Inr s"
  then have "length b = 16" by (auto simp: EncodeULID_def split: if_splits)
  from ulid_decode_encode [OF this] enc show "DecodeULID s = Inr b" by simp
qed (rule ulid_encode_decode)

end
