(* ===== verification/StreamCipher.thy ===== *)
theory StreamCipher
  imports GoCrypto Spec
begin

text \<open>
  \<open>internal/crypto/stream.go\<close>: the chunked STREAM payload over AES-256-GCM. The buffer forms
  \<open>SealStream\<close> and \<open>OpenStream\<close>, the incremental writer (\<open>SealStreamTo\<close>, \<open>Write\<close>, \<open>Close\<close>)
  and the incremental opener \<open>OpenStreamTo\<close> are modelled loop by loop. A source reader is the
  list of bytes it still has to deliver and a destination writer the list of bytes it has taken;
  read and write faults of the underlying reader and writer are not part of the model. The cipher
  object of the code is represented by its derived payload key, and a chunk limit that is not
  positive (none) by 0.

  The second half relates all of them to one description of the payload: the list of sealed
  chunks, chunk \<open>i\<close> under the nonce of its index, the last one marked.
\<close>

section \<open>The code\<close>

definition streamChunkSize :: nat where "streamChunkSize = ChunkSize"
definition streamMaxChunk :: nat where "streamMaxChunk = streamChunkSize + TagSize"
definition streamMaxChunkIndex :: "64 word" where "streamMaxChunkIndex = 18446744073709551615"

datatype stream_error =
    NonceLength nat
  | PayloadShort nat
  | ChunkAuth "64 word"
  | FinalShort nat
  | FinalAuth "64 word"
  | NonceRead nat
  | FirstShort nat
  | ChunkLimit nat
  | ChunkShort "64 word" nat
  | CounterWrap "64 word"
  | WriteAfterClose
  | SlicePanic

definition chunkNonce :: "64 word \<Rightarrow> bool \<Rightarrow> bytes" where
  "chunkNonce counter final = [0, 0, 0] @ put_uint64 counter @ [if final then 0x01 else 0x00]"

definition advanceChunk :: "64 word \<Rightarrow> stream_error + 64 word" where
  "advanceChunk counter =
     (if counter \<ge> streamMaxChunkIndex then Inl (CounterWrap counter) else Inr (counter + 1))"

definition streamAEAD :: "bytes \<Rightarrow> bytes \<Rightarrow> stream_error + bytes" where
  "streamAEAD fileKey payloadNonce =
     (if length payloadNonce \<noteq> StreamNonceSize then Inl (NonceLength (length payloadNonce))
      else Inr (hkdf384 fileKey payloadNonce (bytes_of InfoPayload) 32))"

definition streamChunks :: "nat \<Rightarrow> nat" where
  "streamChunks n =
     (let chunks = n div streamChunkSize
      in if n mod streamChunkSize \<noteq> 0 \<or> n = 0 then chunks + 1 else chunks)"

function seal_loop :: "bytes \<Rightarrow> bytes \<Rightarrow> nat \<Rightarrow> nat \<Rightarrow> 64 word \<Rightarrow> bytes \<Rightarrow> stream_error + bytes" where
  "seal_loop aead plaintext chunks i counter out =
     (if i < chunks then
        (let start = i * streamChunkSize;
             end = min (start + streamChunkSize) (length plaintext);
             out' = out @ gcm_seal aead (chunkNonce counter (i = chunks - 1))
                            (take (end - start) (drop start plaintext)) []
         in if i \<noteq> chunks - 1
            then rbind (advanceChunk counter) (\<lambda>c. seal_loop aead plaintext chunks (i + 1) c out')
            else seal_loop aead plaintext chunks (i + 1) counter out')
      else Inr out)"
  by pat_completeness auto
termination
  by (relation "measure (\<lambda>(aead, plaintext, chunks, i, counter, out). chunks - i)") auto

declare seal_loop.simps [simp del]

definition SealStream :: "bytes \<Rightarrow> bytes \<Rightarrow> bytes \<Rightarrow> stream_error + bytes" where
  "SealStream fileKey plaintext payloadNonce =
     rbind (streamAEAD fileKey payloadNonce) (\<lambda>aead.
       seal_loop aead plaintext (streamChunks (length plaintext)) 0 0 payloadNonce)"

function open_loop :: "bytes \<Rightarrow> bytes \<Rightarrow> 64 word \<Rightarrow> bytes \<Rightarrow> stream_error + bytes" where
  "open_loop aead body counter out =
     (if length body > streamMaxChunk then
        (case gcm_open aead (chunkNonce counter False) (take streamMaxChunk body) [] of
           None \<Rightarrow> Inl (ChunkAuth counter)
         | Some p \<Rightarrow> rbind (advanceChunk counter) (\<lambda>c.
             open_loop aead (drop streamMaxChunk body) c (out @ p)))
      else if length body < TagSize then Inl (FinalShort (length body))
      else (case gcm_open aead (chunkNonce counter True) body [] of
              None \<Rightarrow> Inl (FinalAuth counter)
            | Some p \<Rightarrow> Inr (out @ p)))"
  by pat_completeness auto
termination
  by (relation "measure (\<lambda>(aead, body, counter, out). length body)")
     (auto simp: streamMaxChunk_def TagSize_def)

declare open_loop.simps [simp del]

definition OpenStream :: "bytes \<Rightarrow> bytes \<Rightarrow> stream_error + bytes" where
  "OpenStream fileKey payload =
     (if length payload < StreamNonceSize then Inl (PayloadShort (length payload))
      else rbind (streamAEAD fileKey (take StreamNonceSize payload)) (\<lambda>aead.
        open_loop aead (drop StreamNonceSize payload) 0 []))"

record streamWriter =
  sw_dst :: bytes
  sw_aead :: bytes
  sw_aad :: bytes
  sw_buf :: bytes
  sw_counter :: "64 word"
  sw_closed :: bool

definition SealStreamTo :: "bytes \<Rightarrow> bytes \<Rightarrow> bytes \<Rightarrow> bytes \<Rightarrow> stream_error + streamWriter" where
  "SealStreamTo dst fileKey payloadNonce aad =
     rbind (streamAEAD fileKey payloadNonce) (\<lambda>aead.
       Inr \<lparr>sw_dst = dst @ payloadNonce, sw_aead = aead, sw_aad = aad, sw_buf = [],
            sw_counter = 0, sw_closed = False\<rparr>)"

definition sw_flush :: "streamWriter \<Rightarrow> bool \<Rightarrow> stream_error + streamWriter" where
  "sw_flush w final =
     (let w' = w\<lparr>sw_dst := sw_dst w
                   @ gcm_seal (sw_aead w) (chunkNonce (sw_counter w) final) (sw_buf w) (sw_aad w),
                 sw_buf := []\<rparr>
      in if final then Inr w'
         else rbind (advanceChunk (sw_counter w)) (\<lambda>next. Inr (w'\<lparr>sw_counter := next\<rparr>)))"

text \<open>
  The loop of \<open>Write\<close>. A buffer longer than a chunk would make Go's \<open>p[:n]\<close> panic on a negative
  bound; no operation of the writer produces one.
\<close>

function sw_write_loop :: "streamWriter \<Rightarrow> bytes \<Rightarrow> stream_error + streamWriter" where
  "sw_write_loop w p =
     (if p = [] then Inr w
      else rbind (if length (sw_buf w) = streamChunkSize then sw_flush w False else Inr w) (\<lambda>w'.
        if length (sw_buf w') \<ge> streamChunkSize then Inl SlicePanic
        else (let n = min (streamChunkSize - length (sw_buf w')) (length p)
              in sw_write_loop (w'\<lparr>sw_buf := sw_buf w' @ take n p\<rparr>) (drop n p))))"
  by pat_completeness auto
termination
  by (relation "measure (\<lambda>(w, p). length p)") auto

declare sw_write_loop.simps [simp del]

definition sw_write :: "streamWriter \<Rightarrow> bytes \<Rightarrow> stream_error + streamWriter" where
  "sw_write w p = (if sw_closed w then Inl WriteAfterClose else sw_write_loop w p)"

definition sw_close :: "streamWriter \<Rightarrow> stream_error + streamWriter" where
  "sw_close w = (if sw_closed w then Inr w else sw_flush (w\<lparr>sw_closed := True\<rparr>) True)"

text \<open>
  The result of \<open>OpenStreamTo\<close> is what \<open>dst\<close> has received and the returned error: chunks that
  authenticated before the failing one have already been written.
\<close>

function open_to_loop ::
  "bytes \<Rightarrow> bytes \<Rightarrow> nat \<Rightarrow> bytes \<Rightarrow> bytes \<Rightarrow> 64 word \<Rightarrow> bytes \<Rightarrow> bytes \<times> stream_error option" where
  "open_to_loop aead aad maxChunks cur src counter dst =
     (let next = take streamMaxChunk src; src' = drop streamMaxChunk src; final = (next = [])
      in if maxChunks > 0 \<and> unat counter \<ge> maxChunks then (dst, Some (ChunkLimit maxChunks))
         else (case gcm_open aead (chunkNonce counter final) cur aad of
                 None \<Rightarrow> (dst, Some (ChunkAuth counter))
               | Some p \<Rightarrow>
                   if final then (dst @ p, None)
                   else (case advanceChunk counter of
                           Inl e \<Rightarrow> (dst @ p, Some e)
                         | Inr c \<Rightarrow>
                             if length next < TagSize then (dst @ p, Some (ChunkShort c (length next)))
                             else open_to_loop aead aad maxChunks next src' c (dst @ p))))"
  by pat_completeness auto
termination
  by (relation "measure (\<lambda>(aead, aad, maxChunks, cur, src, counter, dst). length src)")
     (auto simp: streamMaxChunk_def TagSize_def)

declare open_to_loop.simps [simp del]

definition OpenStreamTo :: "bytes \<Rightarrow> bytes \<Rightarrow> bytes \<Rightarrow> nat \<Rightarrow> bytes \<times> stream_error option" where
  "OpenStreamTo fileKey src aad maxChunks =
     (if length src < StreamNonceSize then ([], Some (NonceRead (length src)))
      else (case streamAEAD fileKey (take StreamNonceSize src) of
              Inl e \<Rightarrow> ([], Some e)
            | Inr aead \<Rightarrow>
                (let body = drop StreamNonceSize src; cur = take streamMaxChunk body
                 in if length cur < TagSize then ([], Some (FirstShort (length cur)))
                    else open_to_loop aead aad maxChunks cur (drop streamMaxChunk body) 0 [])))"

section \<open>Payloads as lists of sealed chunks\<close>

function split_max :: "nat \<Rightarrow> 'a list \<Rightarrow> 'a list list" where
  "split_max n xs = (if n = 0 \<or> length xs \<le> n then [xs] else take n xs # split_max n (drop n xs))"
  by pat_completeness auto
termination
  by (relation "measure (\<lambda>(n, xs). length xs)") auto

declare split_max.simps [simp del]

lemma split_max_short: "length xs \<le> n \<Longrightarrow> split_max n xs = [xs]"
  by (simp add: split_max.simps)

lemma split_max_long: "0 < n \<Longrightarrow> n < length xs \<Longrightarrow> split_max n xs = take n xs # split_max n (drop n xs)"
  by (subst split_max.simps) simp

lemma concat_split_max [simp]: "concat (split_max n xs) = xs"
  by (induction n xs rule: split_max.induct) (subst split_max.simps, simp)

lemma split_max_nonempty [simp]: "split_max n xs \<noteq> []"
  by (subst split_max.simps) simp

lemma length_split_max_pos [simp]: "0 < length (split_max n xs)"
  by simp

text \<open>Every piece but the last is full, and no piece is longer than \<open>n\<close>.\<close>

fun full_but_last :: "nat \<Rightarrow> 'a list list \<Rightarrow> bool" where
  "full_but_last n [] \<longleftrightarrow> False"
| "full_but_last n [x] \<longleftrightarrow> length x \<le> n"
| "full_but_last n (x # y # r) \<longleftrightarrow> length x = n \<and> full_but_last n (y # r)"

lemma full_but_last_split_max: "0 < n \<Longrightarrow> full_but_last n (split_max n xs)"
proof (induction n xs rule: split_max.induct)
  case (1 n xs)
  show ?case
  proof (cases "length xs \<le> n")
    case False
    then obtain y r where "split_max n (drop n xs) = y # r"
      by (meson neq_Nil_conv split_max_nonempty)
    with 1 False show ?thesis by (simp add: split_max_long)
  qed (simp add: split_max_short)
qed

lemma split_max_unique:
  "0 < n \<Longrightarrow> full_but_last n cs \<Longrightarrow> length cs = 1 \<or> last cs \<noteq> [] \<Longrightarrow> split_max n (concat cs) = cs"
proof (induction n cs rule: full_but_last.induct)
  case (3 n x y r)
  have "concat (y # r) \<noteq> []"
    using 3(4) by (cases r rule: rev_cases) auto
  moreover have "length (y # r) = 1 \<or> last (y # r) \<noteq> []" using 3(4) by auto
  ultimately show ?case using 3 by (simp add: split_max_long)
qed (auto simp: split_max_short)

lemma length_split_max:
  assumes "0 < n"
  shows "length (split_max n xs) = (if length xs = 0 then 1 else (length xs + n - 1) div n)"
  using assms
proof (induction n xs rule: split_max.induct)
  case (1 n xs)
  show ?case
  proof (cases "length xs \<le> n")
    case True
    have "(length xs + n - 1) div n = 1" if "xs \<noteq> []"
    proof -
      have eq: "length xs + n - 1 = n + (length xs - 1)" using that by (cases xs) auto
      have "length xs - 1 < n" using 1(2) True by linarith
      then show ?thesis unfolding eq using 1(2) by simp
    qed
    then show ?thesis using True by (simp add: split_max_short)
  next
    case False
    let ?m = "length (drop n xs) + n - 1"
    have ih: "length (split_max n (drop n xs)) = ?m div n"
      using 1(1)[OF _ 1(2)] 1(2) False by (simp del: length_drop)
    have eq: "length xs + n - 1 = ?m + n" using False by simp
    have "(length xs + n - 1) div n = ?m div n + 1"
      unfolding eq by (rule div_add_self2) (use 1(2) in simp)
    with ih show ?thesis using 1(2) False by (simp only: split_max_long) auto
  qed
qed

text \<open>The sealed chunks of a payload, and their opening; \<open>i\<close> is the index of the first one.\<close>

fun seal_chunks ::
  "(bytes \<Rightarrow> bytes \<Rightarrow> bytes \<Rightarrow> bytes \<Rightarrow> bytes) \<Rightarrow> bytes \<Rightarrow> bytes \<Rightarrow> nat \<Rightarrow> bytes list \<Rightarrow> bytes list" where
  "seal_chunks s k a i [] = []"
| "seal_chunks s k a i [p] = [s k (chunkNonce (of_nat i) True) p a]"
| "seal_chunks s k a i (p # q # r) =
     s k (chunkNonce (of_nat i) False) p a # seal_chunks s k a (Suc i) (q # r)"

fun open_chunks ::
  "(bytes \<Rightarrow> bytes \<Rightarrow> bytes \<Rightarrow> bytes \<Rightarrow> bytes option) \<Rightarrow> bytes \<Rightarrow> bytes \<Rightarrow> nat \<Rightarrow> bytes list \<Rightarrow> bytes list option" where
  "open_chunks opn k a i [] = None"
| "open_chunks opn k a i [c] = map_option (\<lambda>p. [p]) (opn k (chunkNonce (of_nat i) True) c a)"
| "open_chunks opn k a i (c # d # r) =
     (case opn k (chunkNonce (of_nat i) False) c a of
        None \<Rightarrow> None
      | Some p \<Rightarrow> map_option (Cons p) (open_chunks opn k a (Suc i) (d # r)))"

definition mid_chunks ::
  "(bytes \<Rightarrow> bytes \<Rightarrow> bytes \<Rightarrow> bytes \<Rightarrow> bytes) \<Rightarrow> bytes \<Rightarrow> bytes \<Rightarrow> bytes list \<Rightarrow> bytes" where
  "mid_chunks s k a ps = concat (map (\<lambda>(i, p). s k (chunkNonce (of_nat i) False) p a) (enumerate 0 ps))"

lemma length_seal_chunks [simp]: "length (seal_chunks s k a i ps) = length ps"
  by (induction s k a i ps rule: seal_chunks.induct) auto

lemma seal_chunks_Nil_iff [simp]: "seal_chunks s k a i ps = [] \<longleftrightarrow> ps = []"
  by (cases "(s, k, a, i, ps)" rule: seal_chunks.cases) auto

lemma Nil_seal_chunks_iff [simp]: "[] = seal_chunks s k a i ps \<longleftrightarrow> ps = []"
  by (metis seal_chunks_Nil_iff)

lemma open_chunks_length: "open_chunks opn k a i cs = Some ps \<Longrightarrow> length ps = length cs"
  by (induction opn k a i cs arbitrary: ps rule: open_chunks.induct) (auto split: option.splits)

lemma full_but_last_Cons [simp]:
  "r \<noteq> [] \<Longrightarrow> full_but_last n (x # r) \<longleftrightarrow> length x = n \<and> full_but_last n r"
  by (cases r) auto

lemma seal_chunks_Cons [simp]:
  "r \<noteq> [] \<Longrightarrow> seal_chunks s k a i (p # r) = s k (chunkNonce (of_nat i) False) p a # seal_chunks s k a (Suc i) r"
  by (cases r) auto

lemma open_chunks_Cons [simp]:
  "r \<noteq> [] \<Longrightarrow> open_chunks opn k a i (c # r) =
     (case opn k (chunkNonce (of_nat i) False) c a of
        None \<Rightarrow> None
      | Some p \<Rightarrow> map_option (Cons p) (open_chunks opn k a (Suc i) r))"
  by (cases r) auto

lemma seal_chunks_snoc:
  "concat (seal_chunks s k a i (ps @ [p])) =
     concat (map (\<lambda>(j, q). s k (chunkNonce (of_nat j) False) q a) (enumerate i ps))
       @ s k (chunkNonce (of_nat (i + length ps)) True) p a"
  by (induction ps arbitrary: i) (simp_all add: add.assoc add.left_commute add.commute)

lemma seal_chunks_mid:
  "concat (seal_chunks s k a 0 (ps @ [p])) =
     mid_chunks s k a ps @ s k (chunkNonce (of_nat (length ps)) True) p a"
  by (simp add: seal_chunks_snoc mid_chunks_def)

lemma mid_chunks_snoc:
  "mid_chunks s k a (ps @ [p]) = mid_chunks s k a ps @ s k (chunkNonce (of_nat (length ps)) False) p a"
  by (simp add: mid_chunks_def enumerate_append_eq)

lemma mid_chunks_Nil [simp]: "mid_chunks s k a [] = []"
  by (simp add: mid_chunks_def)

context aead_cipher
begin

lemma open_chunks_iff:
  "open_chunks opn k a i cs = Some ps \<longleftrightarrow> ps \<noteq> [] \<and> cs = seal_chunks seal k a i ps"
proof (induction cs arbitrary: i ps)
  case (Cons c r)
  show ?case
  proof (cases "r = []")
    case True
    have "opn k n c a = Some p \<longleftrightarrow> c = seal k n p a" for n p
      using open_SomeD open_seal by metis
    then show ?thesis using True
      by (cases ps rule: remdups_adj.cases) auto
  next
    case False
    have o: "opn k n c a = Some p \<longleftrightarrow> c = seal k n p a" for n p
      using open_SomeD open_seal by metis
    have "open_chunks opn k a i (c # r) = Some ps \<longleftrightarrow>
        (\<exists>p qs. opn k (chunkNonce (of_nat i) False) c a = Some p
           \<and> open_chunks opn k a (Suc i) r = Some qs \<and> ps = p # qs)"
      using False by (auto split: option.splits)
    also have "\<dots> \<longleftrightarrow> (\<exists>p qs. c = seal k (chunkNonce (of_nat i) False) p a
           \<and> qs \<noteq> [] \<and> r = seal_chunks seal k a (Suc i) qs \<and> ps = p # qs)"
      unfolding o Cons.IH by simp
    also have "\<dots> \<longleftrightarrow> ps \<noteq> [] \<and> c # r = seal_chunks seal k a i ps"
      using False by (cases ps rule: remdups_adj.cases) auto
    finally show ?thesis .
  qed
qed auto

lemma full_but_last_seal_chunks:
  "full_but_last (n + tag) (seal_chunks seal k a i ps) \<longleftrightarrow> full_but_last n ps"
proof (induction ps arbitrary: i)
  case (Cons p r)
  then show ?case by (cases "r = []") (simp_all add: seal_length del: seal_chunks.simps(3))
qed simp

end


section \<open>The buffer forms\<close>

abbreviation SC :: nat where "SC \<equiv> streamChunkSize"

lemma stream_sizes [simp]:
  "streamMaxChunk = SC + 16" "TagSize = 16" "StreamNonceSize = 16"
  by (simp_all add: streamMaxChunk_def TagSize_def StreamNonceSize_def)

lemma SC_pos [simp]: "0 < SC" and SC_nonzero [simp]: "SC \<noteq> 0"
  by (simp_all add: streamChunkSize_def ChunkSize_def)

lemma ceil_div_cases:
  "0 < (n::nat) \<Longrightarrow> (l + n - 1) div n = (if l mod n = 0 then l div n else l div n + 1)"
proof -
  assume n: "0 < n"
  have eq: "l + n - 1 = l div n * n + (l mod n + (n - 1))"
    using n div_mult_mod_eq [of l n] by linarith
  have "(l mod n + (n - 1)) div n = (if l mod n = 0 then 0 else 1)"
  proof (cases "l mod n = 0")
    case False
    then have "l mod n + (n - 1) = (l mod n - 1) + n" using n by linarith
    then show ?thesis using False n less_imp_diff_less [OF mod_less_divisor [OF n]]
      by (simp only: div_add_self2) simp
  qed (use n in simp)
  moreover have "(l div n * n + (l mod n + (n - 1))) div n = l div n + (l mod n + (n - 1)) div n"
    using n by (simp only: div_mult_self3)
  ultimately show ?thesis unfolding eq by simp
qed

lemma streamChunks_length: "streamChunks (length p) = length (split_max SC p)"
  using length_split_max [OF SC_pos, of p] ceil_div_cases [OF SC_pos, of "length p"]
  by (auto simp only: streamChunks_def Let_def split: if_splits) simp_all

lemma length_split_max_1: "0 < n \<Longrightarrow> length (split_max n xs) = Suc 0 \<longleftrightarrow> length xs \<le> n"
  by (cases "length xs \<le> n") (simp_all add: split_max_short split_max_long)

lemma advanceChunk_of_nat:
  "i < 2 ^ 64 \<Longrightarrow> advanceChunk (of_nat i) =
     (if i = 2 ^ 64 - 1 then Inl (CounterWrap (of_nat i)) else Inr (of_nat (Suc i)))"
  by (auto simp: advanceChunk_def streamMaxChunkIndex_def word_le_nat_alt unat_of_nat take_bit_eq_mod)

lemma drop_split_max:
  "0 < n \<Longrightarrow> i < length (split_max n xs) \<Longrightarrow> drop i (split_max n xs) = split_max n (drop (i * n) xs)"
proof (induction i arbitrary: xs)
  case (Suc i)
  have "n < length xs"
    using Suc.prems by (cases "length xs \<le> n") (simp_all add: split_max_short)
  then show ?case using Suc by (simp add: split_max_long add.commute)
qed simp

lemma seal_loop_chunks:
  assumes "i < length (split_max SC p)" and "length (split_max SC p) \<le> 2 ^ 64"
  shows "seal_loop k p (length (split_max SC p)) i (of_nat i) out =
           Inr (out @ concat (seal_chunks gcm_seal k [] i (split_max SC (drop (i * SC) p))))"
  using assms
proof (induction "length (split_max SC p) - i" arbitrary: i out)
  case (Suc m)
  let ?N = "length (split_max SC p)" and ?q = "drop (i * SC) p"
  have d: "drop i (split_max SC p) = split_max SC ?q"
    using Suc.prems by (simp add: drop_split_max)
  have e: "take (min (i * SC + SC) (length p) - i * SC) ?q = take SC ?q"
    by (simp add: min_def)
  show ?case
  proof (cases "i = ?N - 1")
    case True
    then have "length (split_max SC ?q) = Suc 0" unfolding d [symmetric] using Suc.prems by (cases "split_max SC p") simp_all
    then have s: "length ?q \<le> SC" unfolding length_split_max_1 [OF SC_pos] .
    show ?thesis
      using True Suc.prems s
      by (subst seal_loop.simps, subst seal_loop.simps) (simp add: Let_def e split_max_short)
  next
    case False
    then have l: "i + 1 < ?N" using Suc.prems by simp
    have "length (split_max SC ?q) \<noteq> Suc 0" unfolding d [symmetric] using l by simp
    then have s: "SC < length ?q" unfolding length_split_max_1 [OF SC_pos] by simp
    have "i \<noteq> 2 ^ 64 - 1" and "i < 2 ^ 64" using l Suc.prems by auto
    then have adv: "advanceChunk (of_nat i) = Inr (of_nat (Suc i))" by (simp add: advanceChunk_of_nat)
    have step: "seal_loop k p ?N i (of_nat i) out =
        seal_loop k p ?N (Suc i) (of_nat (Suc i))
          (out @ gcm_seal k (chunkNonce (of_nat i) False) (take SC ?q) [])"
      using False Suc.prems by (subst seal_loop.simps) (simp add: Let_def e adv)
    have "m = ?N - Suc i" using Suc.hyps(2) by simp
    from Suc.hyps(1) [OF this] l Suc.prems step s show ?thesis
      by (simp add: split_max_long add.commute)
  qed
qed simp

lemma SealStream_eq:
  assumes "length n = 16" and "length (split_max SC p) \<le> 2 ^ 64"
  shows "SealStream fk p n =
           Inr (n @ concat (seal_chunks gcm_seal (hkdf384 fk n (bytes_of InfoPayload) 32) [] 0 (split_max SC p)))"
  using seal_loop_chunks [of 0 p] assms
  by (simp add: SealStream_def streamAEAD_def streamChunks_length)

lemma open_loop_chunks:
  assumes "i < 2 ^ 64"
  shows "open_loop k body (of_nat i) out = Inr q \<longleftrightarrow>
    (\<exists>ps. open_chunks gcm_open k [] i (split_max streamMaxChunk body) = Some ps
        \<and> i + length ps \<le> 2 ^ 64 \<and> q = out @ concat ps)"
  using assms
proof (induction "length body" arbitrary: i body out rule: less_induct)
  case less
  show ?case
  proof (cases "length body > streamMaxChunk")
    case True
    let ?c = "take streamMaxChunk body" and ?r = "drop streamMaxChunk body"
    have sp: "split_max streamMaxChunk body = ?c # split_max streamMaxChunk ?r"
      using True by (simp add: split_max_long)
    show ?thesis
    proof (cases "gcm_open k (chunkNonce (of_nat i) False) ?c []")
      case None
      then show ?thesis using True sp by (subst open_loop.simps) simp
    next
      case (Some p)
      show ?thesis
      proof (cases "i = 2 ^ 64 - 1")
        case last: True
        have "\<not> i + length ps \<le> 2 ^ 64"
          if "open_chunks gcm_open k [] i (split_max streamMaxChunk body) = Some ps" for ps
          using open_chunks_length [OF that] last unfolding sp by (cases "split_max streamMaxChunk ?r") auto
        moreover have "advanceChunk (of_nat i) = Inl (CounterWrap (of_nat i))"
          using less.prems last by (simp only: advanceChunk_of_nat) simp
        ultimately show ?thesis
          using True Some by (subst open_loop.simps) auto
      next
        case False
        then have i': "Suc i < 2 ^ 64" and adv: "advanceChunk (of_nat i) = Inr (of_nat (Suc i))"
          using less.prems by (auto simp: advanceChunk_of_nat)
        have "length ?r < length body" using True by simp
        note ih = less.hyps [OF this i']
        have step: "open_loop k body (of_nat i) out = open_loop k ?r (of_nat (Suc i)) (out @ p)"
          using True Some adv by (subst open_loop.simps) simp
        show ?thesis unfolding step ih sp using Some by auto
      qed
    qed
  next
    case False
    then have sp: "split_max streamMaxChunk body = [body]" by (simp add: split_max_short)
    show ?thesis
      using False less.prems gcm.open_short [of body] unfolding sp
      by (subst open_loop.simps) (auto split: option.splits)
  qed
qed

text \<open>The payload of a list of chunks, under the key the nonce selects.\<close>

definition payload_of :: "bytes \<Rightarrow> bytes \<Rightarrow> bytes \<Rightarrow> bytes list \<Rightarrow> bytes" where
  "payload_of fk n a ps = n @ concat (seal_chunks gcm_seal (hkdf384 fk n (bytes_of InfoPayload) 32) a 0 ps)"

definition well_chunked :: "bytes list \<Rightarrow> bool" where
  "well_chunked ps \<longleftrightarrow> full_but_last streamChunkSize ps \<and> length ps \<le> 2 ^ 64"

lemma full_but_last_nonempty: "full_but_last n ps \<Longrightarrow> ps \<noteq> []"
  by auto

lemma split_max_seal:
  assumes "full_but_last SC ps"
  shows "split_max streamMaxChunk (concat (seal_chunks gcm_seal k a i ps)) = seal_chunks gcm_seal k a i ps"
proof (rule split_max_unique)
  show "full_but_last streamMaxChunk (seal_chunks gcm_seal k a i ps)"
    using assms by (simp add: gcm.full_but_last_seal_chunks)
  have "last (seal_chunks gcm_seal k a i ps) \<noteq> []" if "ps \<noteq> []" for ps
    using that
  proof (induction ps arbitrary: i)
    case (Cons p r)
    then show ?case by (cases "r = []") (auto simp flip: length_greater_0_conv)
  qed simp
  then show "length (seal_chunks gcm_seal k a i ps) = 1 \<or> last (seal_chunks gcm_seal k a i ps) \<noteq> []"
    using assms full_but_last_nonempty by blast
qed simp

lemma open_split_iff:
  "open_chunks gcm_open k a i (split_max streamMaxChunk body) = Some ps \<longleftrightarrow>
     full_but_last SC ps \<and> body = concat (seal_chunks gcm_seal k a i ps)"
proof
  assume "open_chunks gcm_open k a i (split_max streamMaxChunk body) = Some ps"
  then have e: "split_max streamMaxChunk body = seal_chunks gcm_seal k a i ps"
    by (simp only: gcm.open_chunks_iff)
  have "full_but_last (SC + 16) (seal_chunks gcm_seal k a i ps)"
    using full_but_last_split_max [of streamMaxChunk body] e by simp
  then show "full_but_last SC ps \<and> body = concat (seal_chunks gcm_seal k a i ps)"
    by (metis gcm.full_but_last_seal_chunks concat_split_max e)
next
  assume "full_but_last SC ps \<and> body = concat (seal_chunks gcm_seal k a i ps)"
  then show "open_chunks gcm_open k a i (split_max streamMaxChunk body) = Some ps"
    using split_max_seal full_but_last_nonempty by (metis gcm.open_chunks_iff)
qed

lemma OpenStream_Inr_iff:
  "OpenStream fk pl = Inr p \<longleftrightarrow>
     (\<exists>n ps. length n = 16 \<and> well_chunked ps \<and> p = concat ps \<and> pl = payload_of fk n [] ps)"
proof (cases "length pl < 16")
  case True
  then show ?thesis by (auto simp: OpenStream_def payload_of_def)
next
  case False
  let ?n = "take 16 pl" and ?b = "drop 16 pl"
  let ?k = "hkdf384 fk ?n (bytes_of InfoPayload) 32"
  have "OpenStream fk pl = open_loop ?k ?b (of_nat 0) []"
    using False by (simp add: OpenStream_def streamAEAD_def min_def)
  then have "OpenStream fk pl = Inr p \<longleftrightarrow>
      (\<exists>ps. well_chunked ps \<and> p = concat ps \<and> ?b = concat (seal_chunks gcm_seal ?k [] 0 ps))"
    using open_loop_chunks [of 0 ?k ?b "[]" p] unfolding open_split_iff by (auto simp: well_chunked_def)
  also have "\<dots> \<longleftrightarrow> (\<exists>n ps. length n = 16 \<and> well_chunked ps \<and> p = concat ps \<and> pl = payload_of fk n [] ps)"
    using False unfolding payload_of_def
    by (auto intro!: exI [of _ ?n] simp: min_def) (metis append_take_drop_id)
  finally show ?thesis .
qed

section \<open>The incremental opener\<close>

definition under_limit :: "nat \<Rightarrow> nat \<Rightarrow> bool" where
  "under_limit m n \<longleftrightarrow> m = 0 \<or> n \<le> m"

lemma split_max_at:
  assumes "0 < n" "length cur \<le> n" "src \<noteq> [] \<Longrightarrow> length cur = n"
  shows "split_max n (cur @ src) = (if src = [] then [cur] else cur # split_max n src)"
  using assms by (auto simp: split_max_short split_max_long)

lemma open_to_loop_chunks:
  assumes "i < 2 ^ 64" "16 \<le> length cur" "length cur \<le> streamMaxChunk"
    and "src \<noteq> [] \<Longrightarrow> length cur = streamMaxChunk"
  shows "open_to_loop k a m cur src (of_nat i) dst = (q, None) \<longleftrightarrow>
    (\<exists>ps. open_chunks gcm_open k a i (split_max streamMaxChunk (cur @ src)) = Some ps
        \<and> i + length ps \<le> 2 ^ 64 \<and> under_limit m (i + length ps) \<and> q = dst @ concat ps)"
  using assms
proof (induction "length src" arbitrary: i cur src dst rule: less_induct)
  case less
  have i [simp]: "unat (of_nat i :: 64 word) = i"
    using less.prems(1) by (simp add: unat_of_nat take_bit_eq_mod)
  have sp: "split_max streamMaxChunk (cur @ src) =
      (if src = [] then [cur] else cur # split_max streamMaxChunk src)"
    using less.prems by (intro split_max_at) auto
  show ?case
  proof (cases "src = []")
    case True
    then show ?thesis using less.prems(1) unfolding sp
      by (subst open_to_loop.simps) (auto simp: under_limit_def split: option.splits)
  next
    case False
    let ?next = "take streamMaxChunk src" and ?r = "drop streamMaxChunk src"
    have long: "1 < length ps" if "open_chunks gcm_open k a i (split_max streamMaxChunk (cur @ src)) = Some ps" for ps
      using open_chunks_length [OF that] False unfolding sp by (cases "split_max streamMaxChunk src") auto
    show ?thesis
    proof (cases "m > 0 \<and> i \<ge> m")
      case True
      then show ?thesis
        using long by (subst open_to_loop.simps) (fastforce simp: under_limit_def)
    next
      case lim: False
      show ?thesis
      proof (cases "gcm_open k (chunkNonce (of_nat i) False) cur a")
        case None
        then show ?thesis using False lim unfolding sp by (subst open_to_loop.simps) auto
      next
        case (Some p)
        show ?thesis
        proof (cases "i = 2 ^ 64 - 1")
          case True
          then have "advanceChunk (of_nat i) = Inl (CounterWrap (of_nat i))"
            using less.prems by (simp only: advanceChunk_of_nat) simp
          then show ?thesis
            using False lim Some long True by (subst open_to_loop.simps) fastforce
        next
          case notlast: False
          then have i': "Suc i < 2 ^ 64" and adv: "advanceChunk (of_nat i) = Inr (of_nat (Suc i))"
            using less.prems by (auto simp: advanceChunk_of_nat)
          show ?thesis
          proof (cases "length ?next < 16")
            case short: True
            then have "split_max streamMaxChunk src = [src]" by (auto simp: split_max_short)
            moreover have "gcm_open k n src a = None" for n
              using short by (intro gcm.open_short) (auto simp: min_def split: if_splits)
            ultimately show ?thesis
              using False lim Some adv short unfolding sp
              by (subst open_to_loop.simps) (simp add: min_def split: if_splits)
          next
            case enough: False
            have step: "open_to_loop k a m cur src (of_nat i) dst =
                open_to_loop k a m ?next ?r (of_nat (Suc i)) (dst @ p)"
              using False lim Some adv enough by (subst open_to_loop.simps) (auto simp: Let_def)
            have "length ?r < length src" using False by simp
            then have ih: "open_to_loop k a m ?next ?r (of_nat (Suc i)) (dst @ p) = (q, None) \<longleftrightarrow>
               (\<exists>ps. open_chunks gcm_open k a (Suc i) (split_max streamMaxChunk (?next @ ?r)) = Some ps
                 \<and> Suc i + length ps \<le> 2 ^ 64 \<and> under_limit m (Suc i + length ps) \<and> q = (dst @ p) @ concat ps)"
              using i' enough by (intro less.hyps) auto
            show ?thesis unfolding step ih sp append_take_drop_id using Some False by auto
          qed
        qed
      qed
    qed
  qed
qed

lemma OpenStreamTo_None_iff:
  "OpenStreamTo fk pl a m = (p, None) \<longleftrightarrow>
     (\<exists>n ps. length n = 16 \<and> well_chunked ps \<and> under_limit m (length ps)
        \<and> p = concat ps \<and> pl = payload_of fk n a ps)"
proof (cases "length pl < 16")
  case True
  then show ?thesis by (auto simp: OpenStreamTo_def payload_of_def)
next
  case False
  let ?n = "take 16 pl" and ?b = "drop 16 pl"
  let ?k = "hkdf384 fk ?n (bytes_of InfoPayload) 32"
  have "OpenStreamTo fk pl a m = (p, None) \<longleftrightarrow>
      (\<exists>ps. well_chunked ps \<and> under_limit m (length ps) \<and> p = concat ps
         \<and> ?b = concat (seal_chunks gcm_seal ?k a 0 ps))"
  proof (cases "length ?b < 16")
    case True
    have "?b \<noteq> concat (seal_chunks gcm_seal ?k a 0 ps)" if "ps \<noteq> []" for ps
    proof
      assume "?b = concat (seal_chunks gcm_seal ?k a 0 ps)"
      then have "16 \<le> length ?b" using that by (cases ps rule: remdups_adj.cases) auto
      then show False using True by simp
    qed
    then have "\<not> (well_chunked ps \<and> ?b = concat (seal_chunks gcm_seal ?k a 0 ps))" for ps
      using full_but_last_nonempty unfolding well_chunked_def by blast
    moreover have "snd (OpenStreamTo fk pl a m) \<noteq> None"
      using False True by (simp add: OpenStreamTo_def streamAEAD_def min_def Let_def)
    ultimately show ?thesis by auto
  next
    case nshort: False
    have "OpenStreamTo fk pl a m =
        open_to_loop ?k a m (take streamMaxChunk ?b) (drop streamMaxChunk ?b) (of_nat 0) []"
      using False nshort by (simp add: OpenStreamTo_def streamAEAD_def min_def Let_def)
    then show ?thesis
      using open_to_loop_chunks [of 0 "take streamMaxChunk ?b" "drop streamMaxChunk ?b" ?k a m "[]" p] nshort
      unfolding append_take_drop_id open_split_iff by (auto simp: well_chunked_def)
  qed
  also have "\<dots> \<longleftrightarrow> (\<exists>n ps. length n = 16 \<and> well_chunked ps \<and> under_limit m (length ps)
        \<and> p = concat ps \<and> pl = payload_of fk n a ps)"
    using False unfolding payload_of_def
    by (auto intro!: exI [of _ ?n] simp: min_def) (metis append_take_drop_id)
  finally show ?thesis .
qed

section \<open>The incremental writer\<close>

text \<open>
  A writer has taken the bytes \<open>d\<close> when its output is the nonce and the sealed full chunks of a
  prefix, its counter their number, and its buffer the rest, which is empty only at the start.
\<close>

definition sw_holds :: "bytes \<Rightarrow> bytes \<Rightarrow> bytes \<Rightarrow> bytes \<Rightarrow> streamWriter \<Rightarrow> bytes \<Rightarrow> bool" where
  "sw_holds pre k n a w d \<longleftrightarrow>
     (\<exists>cs. (\<forall>c \<in> set cs. length c = streamChunkSize) \<and> d = concat cs @ sw_buf w
        \<and> length (sw_buf w) \<le> streamChunkSize \<and> (cs \<noteq> [] \<longrightarrow> sw_buf w \<noteq> [])
        \<and> length cs < 2 ^ 64 \<and> sw_counter w = of_nat (length cs) \<and> \<not> sw_closed w
        \<and> sw_aead w = k \<and> sw_aad w = a \<and> sw_dst w = pre @ n @ mid_chunks gcm_seal k a cs)"

lemma split_max_concat_append:
  assumes "0 < n" "\<forall>c \<in> set cs. length c = n" "length b \<le> n" "cs \<noteq> [] \<longrightarrow> b \<noteq> []"
  shows "split_max n (concat cs @ b) = cs @ [b]"
  using assms(2,4)
proof (induction cs)
  case (Cons c cs)
  have "0 < length (concat cs @ b)" using Cons.prems by simp
  then have "split_max n (c @ concat cs @ b) = c # split_max n (concat cs @ b)"
    using Cons.prems assms(1) by (subst split_max_long) auto
  then show ?case using Cons by simp
qed (simp add: assms split_max_short)

lemma sw_holds_pieces:
  "sw_holds pre k n a w d \<Longrightarrow>
     \<exists>cs. split_max SC d = cs @ [sw_buf w] \<and> sw_dst w = pre @ n @ mid_chunks gcm_seal k a cs
        \<and> sw_counter w = of_nat (length cs) \<and> sw_aead w = k \<and> sw_aad w = a \<and> \<not> sw_closed w"
  unfolding sw_holds_def by (metis SC_pos split_max_concat_append)

lemma length_split_max_mono:
  "0 < n \<Longrightarrow> length xs \<le> length ys \<Longrightarrow> length (split_max n xs) \<le> length (split_max n ys)"
proof (cases "xs = []")
  case False
  assume n: "0 < n" and le: "length xs \<le> length ys"
  have "(length xs + n - 1) div n \<le> (length ys + n - 1) div n"
    using le by (intro div_le_mono) simp
  then show ?thesis using False le n unfolding length_split_max [OF n] by (cases ys) simp_all
next
  case True
  have "1 \<le> length (split_max n ys)" by (simp add: Suc_leI)
  then show ?thesis using True by (simp add: split_max_short)
qed

lemma sw_write_loop_holds:
  assumes "sw_holds pre k n a w d" and "length (split_max SC (d @ p)) \<le> 2 ^ 64"
  shows "\<exists>w'. sw_write_loop w p = Inr w' \<and> sw_holds pre k n a w' (d @ p)"
  using assms
proof (induction w p arbitrary: d rule: sw_write_loop.induct)
  case (1 w p)
  show ?case
  proof (cases "p = []")
    case True
    then show ?thesis using 1 by (subst sw_write_loop.simps) simp
  next
    case False
    obtain cs where cs: "\<forall>c \<in> set cs. length c = SC" "d = concat cs @ sw_buf w" "length (sw_buf w) \<le> SC"
      "cs \<noteq> [] \<longrightarrow> sw_buf w \<noteq> []" "length cs < 2 ^ 64" "sw_counter w = of_nat (length cs)" "\<not> sw_closed w"
      "sw_aead w = k" "sw_aad w = a" "sw_dst w = pre @ n @ mid_chunks gcm_seal k a cs"
      using 1(2) unfolding sw_holds_def by blast
    define full where "full \<longleftrightarrow> length (sw_buf w) = SC"
    define cs' where "cs' = (if full then cs @ [sw_buf w] else cs)"
    define b where "b = (if full then [] else sw_buf w)"
    define w1 where "w1 = (if full then w\<lparr>sw_dst := pre @ n @ mid_chunks gcm_seal k a cs', sw_buf := [],
                               sw_counter := of_nat (length cs')\<rparr> else w)"
    have cs'_full: "\<forall>c \<in> set cs'. length c = SC" and d': "d = concat cs' @ b"
      using cs by (auto simp: cs'_def b_def full_def)
    have b: "length b < SC" using cs by (auto simp: b_def full_def)
    have small: "length cs' < 2 ^ 64"
    proof -
      let ?x = "take 1 p"
      have "length (split_max SC (concat cs' @ b @ ?x)) \<le> length (split_max SC (d @ p))"
        by (rule length_split_max_mono) (auto simp: d')
      moreover have "split_max SC (concat cs' @ b @ ?x) = cs' @ [b @ ?x]"
        using cs'_full b False by (intro split_max_concat_append) (auto simp: take_Suc_conv_app_nth neq_Nil_conv)
      ultimately show ?thesis using 1(3) by simp
    qed
    have fl: "(if length (sw_buf w) = SC then sw_flush w False else Inr w) = Inr w1"
    proof (cases full)
      case True
      have "length cs \<noteq> 2 ^ 64 - 1" using small True by (auto simp: cs'_def)
      then have "advanceChunk (of_nat (length cs)) = Inr (of_nat (Suc (length cs)))"
        using cs(5) by (simp only: advanceChunk_of_nat) simp
      then show ?thesis
        using True cs by (simp add: full_def w1_def sw_flush_def Let_def cs'_def mid_chunks_snoc)
    qed (simp add: full_def w1_def)
    have w1b: "sw_buf w1 = b" by (simp add: w1_def b_def)
    let ?n = "min (SC - length b) (length p)"
    let ?w2 = "w1\<lparr>sw_buf := sw_buf w1 @ take ?n p\<rparr>"
    have npos: "0 < ?n" using b False by simp
    have "b @ take ?n p \<noteq> []" using npos False by simp
    moreover have "length (b @ take ?n p) \<le> SC" using b by simp
    ultimately have h: "sw_holds pre k n a ?w2 (d @ take ?n p)"
      unfolding sw_holds_def using cs cs'_full small w1b
      by (intro exI [of _ cs']) (auto simp: d' w1_def cs'_def)
    have step: "sw_write_loop w p = sw_write_loop ?w2 (drop ?n p)"
      using False b w1b by (subst sw_write_loop.simps) (simp add: fl Let_def)
    have "length (split_max SC ((d @ take ?n p) @ drop ?n p)) \<le> 2 ^ 64"
      using 1(3) by simp
    moreover have "\<not> SC \<le> length (sw_buf w1)" using b w1b by simp
    ultimately show ?thesis unfolding step using 1(1) [OF False, of w1 ?n "d @ take ?n p"] h w1b
      by (simp only: append_assoc append_take_drop_id HOL.simp_thms)
  qed
qed

lemma sw_writes_hold:
  assumes "sw_holds pre k n a w d" and "length (split_max SC (d @ concat ws)) \<le> 2 ^ 64"
  shows "\<exists>w'. loopr sw_write w ws = Inr w' \<and> sw_holds pre k n a w' (d @ concat ws)"
  using assms
proof (induction ws arbitrary: w d)
  case (Cons p ws)
  have "length (split_max SC (d @ p)) \<le> length (split_max SC (d @ concat (p # ws)))"
    by (rule length_split_max_mono) simp_all
  then obtain w' where w': "sw_write_loop w p = Inr w'" "sw_holds pre k n a w' (d @ p)"
    using sw_write_loop_holds Cons.prems by (meson le_trans)
  have "\<not> sw_closed w" using Cons.prems(1) unfolding sw_holds_def by blast
  then show ?case using Cons.IH [OF w'(2)] Cons.prems(2) w'(1) by (simp add: sw_write_def)
qed simp

lemma sw_close_holds:
  assumes "sw_holds pre k n a w d"
  shows "\<exists>w'. sw_close w = Inr w' \<and> sw_dst w' = pre @ n @ concat (seal_chunks gcm_seal k a 0 (split_max SC d))"
  using sw_holds_pieces [OF assms]
  by (auto simp: sw_close_def sw_flush_def Let_def seal_chunks_mid)

text \<open>The whole life of a writer: open it, write the pieces \<open>ws\<close> in order, close it.\<close>

definition stream_session :: "bytes \<Rightarrow> bytes \<Rightarrow> bytes \<Rightarrow> bytes \<Rightarrow> bytes list \<Rightarrow> stream_error + streamWriter" where
  "stream_session dst fk n a ws =
     rbind (SealStreamTo dst fk n a) (\<lambda>w. rbind (loopr sw_write w ws) sw_close)"

lemma stream_session_payload:
  assumes "length n = 16" and "length (split_max SC (concat ws)) \<le> 2 ^ 64"
  shows "\<exists>w. stream_session dst fk n a ws = Inr w
           \<and> sw_dst w = dst @ payload_of fk n a (split_max SC (concat ws))"
proof -
  let ?k = "hkdf384 fk n (bytes_of InfoPayload) 32"
  let ?w = "\<lparr>sw_dst = dst @ n, sw_aead = ?k, sw_aad = a, sw_buf = [], sw_counter = 0, sw_closed = False\<rparr>"
  have "sw_holds dst ?k n a ?w []" unfolding sw_holds_def by (intro exI [of _ "[]"]) simp
  from sw_writes_hold [OF this, of ws] assms obtain w where
    w: "loopr sw_write ?w ws = Inr w" "sw_holds dst ?k n a w (concat ws)" by auto
  from sw_close_holds [OF w(2)] w(1) show ?thesis
    using assms by (auto simp: stream_session_def SealStreamTo_def streamAEAD_def payload_of_def)
qed

lemma pieces_bound: "length p \<le> 2 ^ 80 \<Longrightarrow> length (split_max SC p) \<le> 2 ^ 64"
proof -
  assume "length p \<le> 2 ^ 80"
  then have "(length p + SC - 1) div SC \<le> (2 ^ 64 * SC + (SC - 1)) div SC"
    by (intro div_le_mono) (simp add: streamChunkSize_def ChunkSize_def)
  also have "\<dots> = 2 ^ 64" by (simp add: streamChunkSize_def ChunkSize_def)
  finally show ?thesis by (simp add: length_split_max)
qed

lemma well_chunked_split: "length p \<le> 2 ^ 80 \<Longrightarrow> well_chunked (split_max SC p)"
  using pieces_bound by (simp add: well_chunked_def full_but_last_split_max)

lemma SealStream_payload:
  "length n = 16 \<Longrightarrow> length p \<le> 2 ^ 80 \<Longrightarrow> SealStream fk p n = Inr (payload_of fk n [] (split_max SC p))"
  by (simp only: SealStream_eq pieces_bound payload_of_def)

lemma payload_of_inject:
  assumes "payload_of fk n a ps = payload_of fk n' a qs" "length n = 16" "length n' = 16"
    "full_but_last SC ps" "full_but_last SC qs"
  shows "n = n' \<and> ps = qs"
proof -
  from assms have n: "n = n'" by (simp add: payload_of_def)
  with assms(1) have "concat (seal_chunks gcm_seal (hkdf384 fk n (bytes_of InfoPayload) 32) a 0 ps) =
      concat (seal_chunks gcm_seal (hkdf384 fk n (bytes_of InfoPayload) 32) a 0 qs)"
    by (simp add: payload_of_def)
  with n assms(4,5) show ?thesis using open_split_iff by (metis option.inject)
qed

lemma length_payload_of:
  "length (payload_of fk n a ps) = length n + length (concat ps) + 16 * length ps"
proof -
  have "length (concat (seal_chunks gcm_seal k a i ps)) = length (concat ps) + 16 * length ps" for k i
    by (induction ps arbitrary: i rule: induct_list012) simp_all
  then show ?thesis by (simp add: payload_of_def)
qed

lemma open_to_loop_released:
  assumes "i < 2 ^ 64" and "open_to_loop k a m cur src (of_nat i) dst = (q, Some e)"
  shows "\<exists>ps rest. q = dst @ concat ps \<and>
     cur @ src = concat (map (\<lambda>(j, p). gcm_seal k (chunkNonce (of_nat j) False) p a) (enumerate i ps)) @ rest"
  using assms
proof (induction "length src" arbitrary: i cur src dst rule: less_induct)
  case less
  let ?P = "\<lambda>ps rest. q = dst @ concat ps \<and>
     cur @ src = concat (map (\<lambda>(j, p). gcm_seal k (chunkNonce (of_nat j) False) p a) (enumerate i ps)) @ rest"
  show ?case
  proof (cases "q = dst")
    case True
    then have "?P [] (cur @ src)" by simp
    then show ?thesis by blast
  next
    case False
    obtain p where p: "src \<noteq> []" "gcm_open k (chunkNonce (of_nat i) False) cur a = Some p"
      using less.prems(2) False
      by (subst (asm) open_to_loop.simps) (auto simp: Let_def split: if_splits option.splits)
    have cur: "gcm_seal k (chunkNonce (of_nat i) False) p a = cur" using gcm.open_SomeD [OF p(2)] .
    show ?thesis
    proof (cases "q = dst @ p")
      case True
      then have "?P [p] src" using cur by simp
      then show ?thesis by blast
    next
      case rec: False
      then have i': "Suc i < 2 ^ 64" and
        step: "open_to_loop k a m (take streamMaxChunk src) (drop streamMaxChunk src) (of_nat (Suc i)) (dst @ p) = (q, Some e)"
        using less.prems p False
        by (subst (asm) open_to_loop.simps;
            force simp: Let_def advanceChunk_of_nat split: if_splits sum.splits)+
      have "length (drop streamMaxChunk src) < length src" using p by simp
      from less.hyps [OF this i' step] obtain ps rest where r: "q = (dst @ p) @ concat ps"
        "src = concat (map (\<lambda>(j, p). gcm_seal k (chunkNonce (of_nat j) False) p a) (enumerate (Suc i) ps)) @ rest"
        by auto
      then have "?P (p # ps) rest" using cur by simp
      then show ?thesis by blast
    qed
  qed
qed

section \<open>Properties\<close>

text \<open>
  C1. Sealing then opening returns the plaintext: for a 16-byte nonce and a payload of up to
  \<open>2^64\<close> chunks, \<open>SealStream\<close> succeeds and \<open>OpenStream\<close> of its result is the plaintext.
\<close>
theorem stream_round_trip:
  assumes "length payloadNonce = StreamNonceSize" and "length plaintext \<le> 2 ^ 80"
  shows "\<exists>payload. SealStream fileKey plaintext payloadNonce = Inr payload
                 \<and> OpenStream fileKey payload = Inr plaintext"
proof -
  have "\<exists>n ps. length n = 16 \<and> well_chunked ps \<and> plaintext = concat ps
      \<and> payload_of fileKey payloadNonce [] (split_max SC plaintext) = payload_of fileKey n [] ps"
    using assms well_chunked_split by (intro exI [of _ payloadNonce] exI [of _ "split_max SC plaintext"]) simp
  then show ?thesis using assms SealStream_payload OpenStream_Inr_iff by simp
qed

theorem stream_round_trip_witness:
  "\<exists>payload. SealStream [7] [1, 2, 3] (replicate 16 9) = Inr payload \<and> OpenStream [7] payload = Inr [1, 2, 3]"
  by (rule stream_round_trip) simp_all

text \<open>
  C26. The incremental writer and the buffer form agree: however the plaintext is cut into writes,
  opening a writer with empty associated data, writing the pieces in order and closing it leaves
  in the destination exactly the payload \<open>SealStream\<close> returns for the whole plaintext.
\<close>
theorem stream_writer_eq_SealStream:
  assumes "length payloadNonce = StreamNonceSize" and "length (concat writes) \<le> 2 ^ 80"
  shows "\<exists>w. stream_session [] fileKey payloadNonce [] writes = Inr w
           \<and> SealStream fileKey (concat writes) payloadNonce = Inr (sw_dst w)"
  using stream_session_payload [of payloadNonce writes "[]" fileKey "[]"]
    SealStream_payload [of payloadNonce "concat writes" fileKey] pieces_bound [of "concat writes"] assms
  by auto

theorem stream_writer_eq_SealStream_witness:
  "\<exists>w. stream_session [] [7] (replicate 16 9) [] [[1], [], [2, 3]] = Inr w
     \<and> SealStream [7] (concat [[1], [], [2, 3]]) (replicate 16 9) = Inr (sw_dst w)"
  by (rule stream_writer_eq_SealStream) simp_all

text \<open>
  What the incremental writer seals under associated data, the incremental opener opens under
  the same associated data, provided its chunk limit is 0 (none) or at least the number of chunks
  \<open>streamChunks\<close> computes for the plaintext.
\<close>
theorem stream_writer_opens:
  assumes "length payloadNonce = StreamNonceSize" and "length (concat writes) \<le> 2 ^ 80"
    and "maxChunks = 0 \<or> streamChunks (length (concat writes)) \<le> maxChunks"
  shows "\<exists>w. stream_session [] fileKey payloadNonce aad writes = Inr w
           \<and> OpenStreamTo fileKey (sw_dst w) aad maxChunks = (concat writes, None)"
proof -
  let ?ps = "split_max SC (concat writes)"
  obtain w where w: "stream_session [] fileKey payloadNonce aad writes = Inr w"
    "sw_dst w = payload_of fileKey payloadNonce aad ?ps"
    using stream_session_payload [of payloadNonce writes "[]" fileKey aad] pieces_bound assms by auto
  have "OpenStreamTo fileKey (sw_dst w) aad maxChunks = (concat writes, None)"
    unfolding OpenStreamTo_None_iff w(2)
    using assms well_chunked_split streamChunks_length [of "concat writes"]
    by (intro exI [of _ payloadNonce] exI [of _ ?ps]) (simp add: under_limit_def)
  with w(1) show ?thesis by blast
qed

theorem stream_writer_opens_witness:
  "\<exists>w. stream_session [] [7] (replicate 16 9) [4] [[1], [2, 3]] = Inr w
     \<and> OpenStreamTo [7] (sw_dst w) [4] 1 = (concat [[1], [2, 3]], None)"
  by (rule stream_writer_opens) (simp_all add: streamChunks_def streamChunkSize_def ChunkSize_def)

text \<open>
  The two openers accept the same payloads and return the same bytes: \<open>OpenStream\<close> returns \<open>p\<close>
  exactly when \<open>OpenStreamTo\<close>, with empty associated data and no chunk limit, ends without an
  error having written \<open>p\<close>.
\<close>
theorem OpenStream_eq_OpenStreamTo:
  "OpenStream fileKey payload = Inr p \<longleftrightarrow> OpenStreamTo fileKey payload [] 0 = (p, None)"
  by (simp add: OpenStream_Inr_iff OpenStreamTo_None_iff under_limit_def)

text \<open>
  C2. What opens was sealed: when \<open>OpenStream\<close> returns \<open>p\<close> and the payload has the length a sealing
  of \<open>p\<close> has (the nonce, the plaintext, one tag for each of its chunks), the payload is, byte for
  byte, the sealing of \<open>p\<close> under the payload's own nonce. So no truncated, extended, reordered or
  modified payload of that length opens.
\<close>
theorem OpenStream_authentic:
  assumes "OpenStream fileKey payload = Inr p"
    and "length payload = StreamNonceSize + length p + TagSize * streamChunks (length p)"
    and "length p \<le> 2 ^ 80"
  shows "SealStream fileKey p (take StreamNonceSize payload) = Inr payload"
proof -
  obtain n ps where ps: "length n = 16" "well_chunked ps" "p = concat ps" "payload = payload_of fileKey n [] ps"
    using assms(1) OpenStream_Inr_iff by blast
  have len: "length ps = length (split_max SC p)"
    using assms(2) ps streamChunks_length [of p] by (simp add: length_payload_of)
  have "split_max SC (concat ps) = ps"
  proof (cases "length ps = 1 \<or> last ps \<noteq> []")
    case True
    then show ?thesis using ps(2) by (simp add: split_max_unique well_chunked_def)
  next
    case False
    then obtain qs where qs: "ps = qs @ [[]]" "qs \<noteq> []"
      using ps(2) by (cases ps rule: rev_cases) (auto simp: well_chunked_def)
    have all: "full_but_last m (xs @ [[]]) \<Longrightarrow> \<forall>x \<in> set xs. length x = m" for m and xs :: "bytes list"
      by (induction xs) auto
    have full: "\<forall>x \<in> set qs. length x = SC" using ps(2) all unfolding qs well_chunked_def by blast
    then have "length p = length qs * SC" using ps(3) qs length_concat_const [of qs SC] by simp
    then have "length (split_max SC p) = length qs"
      using qs ceil_div_cases [OF SC_pos, of "length p"] by (simp add: length_split_max)
    then show ?thesis using len qs by simp
  qed
  then show ?thesis using ps assms(3) SealStream_payload by (simp add: payload_of_def)
qed

theorem OpenStream_authentic_witness:
  "\<exists>payload. OpenStream [7] payload = Inr [1, 2, 3]
     \<and> SealStream [7] [1, 2, 3] (take StreamNonceSize payload) = Inr payload"
proof -
  let ?n = "replicate 16 9" and ?p = "[1, 2, 3] :: bytes"
  let ?pl = "payload_of [7] ?n [] (split_max SC ?p)"
  have o: "OpenStream [7] ?pl = Inr ?p"
    unfolding OpenStream_Inr_iff
    by (intro exI [of _ ?n] exI [of _ "split_max SC ?p"]) (simp add: well_chunked_split)
  have "length ?pl = StreamNonceSize + length ?p + TagSize * streamChunks (length ?p)"
    unfolding length_payload_of streamChunks_length concat_split_max by simp
  from OpenStream_authentic [OF o this] o show ?thesis by auto
qed

text \<open>
  Nothing unauthenticated is released: whatever \<open>OpenStreamTo\<close> has written when it returns an
  error is the plaintext of whole chunks, each of which stands, sealed under this key, this
  associated data and its own index, at the front of the payload.
\<close>
theorem OpenStreamTo_released:
  assumes "OpenStreamTo fileKey payload aad maxChunks = (out, Some e)" and "out \<noteq> []"
  shows "\<exists>nonce ps rest. length nonce = StreamNonceSize \<and> out = concat ps
     \<and> payload = nonce @ mid_chunks gcm_seal (hkdf384 fileKey nonce (bytes_of InfoPayload) 32) aad ps @ rest"
proof -
  have long: "16 \<le> length payload"
    using assms by (auto simp: OpenStreamTo_def split: if_splits)
  let ?n = "take 16 payload" and ?b = "drop 16 payload"
  let ?k = "hkdf384 fileKey ?n (bytes_of InfoPayload) 32"
  have "open_to_loop ?k aad maxChunks (take streamMaxChunk ?b) (drop streamMaxChunk ?b) (of_nat 0) [] = (out, Some e)"
    using assms long by (simp add: OpenStreamTo_def streamAEAD_def min_def Let_def split: if_splits)
  from open_to_loop_released [OF _ this] obtain ps rest where
    "out = concat ps" "?b = mid_chunks gcm_seal ?k aad ps @ rest"
    unfolding mid_chunks_def append_take_drop_id by auto
  then have "length ?n = StreamNonceSize \<and> out = concat ps \<and> payload = ?n @ mid_chunks gcm_seal ?k aad ps @ rest"
    using long append_take_drop_id [of 16 payload] by simp
  then show ?thesis by blast
qed

theorem OpenStreamTo_released_witness:
  "\<exists>payload out e. OpenStreamTo [7] payload [] 1 = (out, Some e) \<and> out \<noteq> []
     \<and> (\<exists>nonce ps rest. length nonce = StreamNonceSize \<and> out = concat ps
          \<and> payload = nonce @ mid_chunks gcm_seal (hkdf384 [7] nonce (bytes_of InfoPayload) 32) [] ps @ rest)"
proof -
  define n where "n = replicate 16 (9 :: byte)"
  define x where "x = replicate SC (1 :: byte)"
  define d where "d = replicate 16 (0 :: byte)"
  define k where "k = hkdf384 [7] n (bytes_of InfoPayload) 32"
  define c where "c = gcm_seal k (chunkNonce 0 False) x []"
  have len: "length n = 16" "length x = SC" "length d = 16" "length c = SC + 16" "d \<noteq> []" "x \<noteq> []"
    by (simp_all add: n_def x_def d_def c_def)
  have opens: "gcm_open k (chunkNonce 0 False) c [] = Some x" by (simp add: c_def gcm.open_seal)
  have "open_to_loop k [] 1 d [] 1 x = (x, Some (ChunkLimit 1))"
    by (subst open_to_loop.simps) simp
  then have "open_to_loop k [] 1 c d 0 [] = (x, Some (ChunkLimit 1))"
    using len opens by (subst open_to_loop.simps) (simp add: advanceChunk_def streamMaxChunkIndex_def)
  then have o: "OpenStreamTo [7] (n @ c @ d) [] 1 = (x, Some (ChunkLimit 1))"
    using len by (simp add: OpenStreamTo_def streamAEAD_def flip: k_def)
  show ?thesis by (rule exI, rule exI, rule exI, rule conjI [OF o conjI [OF len(6) OpenStreamTo_released [OF o len(6)]]])
qed

text \<open>
  The layout the format document forbids is accepted: a full chunk followed by an empty final
  chunk opens to the full chunk, although \<open>SealStream\<close> writes that plaintext as a single chunk. So a
  non-empty plaintext has two payloads under one key and nonce.
\<close>
theorem empty_final_chunk_accepted:
  assumes "length n = 16" and "length x = streamChunkSize"
  shows "OpenStream fk (payload_of fk n [] [x, []]) = Inr x
    \<and> SealStream fk x n = Inr (payload_of fk n [] [x])
    \<and> payload_of fk n [] [x, []] \<noteq> payload_of fk n [] [x]"
proof (intro conjI)
  show "OpenStream fk (payload_of fk n [] [x, []]) = Inr x"
    unfolding OpenStream_Inr_iff using assms
    by (intro exI [of _ n] exI [of _ "[x, []]"]) (simp add: well_chunked_def)
  have "length x \<le> 2 ^ 80" using assms by (simp add: streamChunkSize_def ChunkSize_def)
  then show "SealStream fk x n = Inr (payload_of fk n [] [x])"
    using assms SealStream_payload by (simp add: split_max_short)
  show "payload_of fk n [] [x, []] \<noteq> payload_of fk n [] [x]"
    by (rule notI, drule arg_cong [where f = length]) (simp add: length_payload_of)
qed

theorem empty_final_chunk_accepted_witness:
  "\<exists>n x. OpenStream [7] (payload_of [7] n [] [x, []]) = Inr x
    \<and> SealStream [7] x n = Inr (payload_of [7] n [] [x])
    \<and> payload_of [7] n [] [x, []] \<noteq> payload_of [7] n [] [x]"
  using empty_final_chunk_accepted [of "replicate 16 9" "replicate streamChunkSize 1" "[7]"]
  by (metis length_replicate)

end
