(* ===== verification/KeyDerive.thy ===== *)
theory KeyDerive
  imports StreamCipher
begin

text \<open>
  \<open>internal/crypto/derive.go\<close> and \<open>segment.go\<close>: the key schedule (HKDF-SHA-384 with one label per
  purpose, length-prefixed contexts), the keyed content address, the name MAC and key commitment, and
  the sealing and opening of data segments. Go's panics on fields of the wrong length are the value
  \<open>None\<close> of the derivations and \<open>SegPanic\<close> of the segment operations. A fixed-size Go array is a
  list; the lemmas carry its length where it matters.
\<close>

section \<open>Key derivation\<close>

definition hkdfKey :: "bytes \<Rightarrow> bytes \<Rightarrow> bytes \<Rightarrow> nat \<Rightarrow> bytes" where
  "hkdfKey ikm salt info n = hkdf384 ikm salt info n"

definition lpAppend :: "bytes \<Rightarrow> bytes \<Rightarrow> bytes option" where
  "lpAppend dst field =
     (if length field > 255 then None else Some (dst @ [of_nat (length field)] @ field))"

definition DeriveCAK :: "bytes \<Rightarrow> string \<Rightarrow> bytes" where
  "DeriveCAK master downpipeID = hkdfKey master (bytes_of downpipeID) (bytes_of InfoContentAddress) FileKeySize"

definition address_message :: "byte \<Rightarrow> bytes \<Rightarrow> bytes \<Rightarrow> bytes" where
  "address_message cls recordSalt segmentPlaintext =
     [cls] @ (if cls = AddrSecrets then recordSalt else []) @ segmentPlaintext"

definition SegID :: "bytes \<Rightarrow> byte \<Rightarrow> bytes \<Rightarrow> bytes \<Rightarrow> bytes" where
  "SegID cak cls recordSalt segmentPlaintext = hmac384 cak (address_message cls recordSalt segmentPlaintext)"

definition SegIDHex :: "bytes \<Rightarrow> string" where
  "SegIDHex i = hex_encode i"

definition first32 :: "bytes \<Rightarrow> bytes" where
  "first32 b = take 32 b @ replicate (32 - length b) 0"

definition chunkSizeBytes :: bytes where
  "chunkSizeBytes = put_uint32 (of_nat ChunkSize)"

definition nonSecretContext :: "bytes \<Rightarrow> byte \<Rightarrow> bytes option" where
  "nonSecretContext segID codecID =
     Option.bind (lpAppend [] segID) (\<lambda>ctx.
     Option.bind (lpAppend ctx [codecID]) (\<lambda>ctx.
     lpAppend ctx chunkSizeBytes))"

definition secretsContext :: "bytes \<Rightarrow> bytes \<Rightarrow> bytes \<Rightarrow> bytes option" where
  "secretsContext segID recordID recordSalt =
     Option.bind (lpAppend [] segID) (\<lambda>ctx.
     Option.bind (lpAppend ctx recordID) (\<lambda>ctx.
     Option.bind (lpAppend ctx recordSalt) (\<lambda>ctx.
     Option.bind (lpAppend ctx [CodecNone]) (\<lambda>ctx.
     lpAppend ctx chunkSizeBytes))))"

definition DeriveNonSecretFileKey :: "bytes \<Rightarrow> bytes \<Rightarrow> byte \<Rightarrow> bytes option" where
  "DeriveNonSecretFileKey master segID codecID =
     Option.bind (nonSecretContext segID codecID) (\<lambda>ctx.
       Some (first32 (hkdfKey master [] (bytes_of InfoSegKey @ [0x00] @ ctx) FileKeySize)))"

definition DeriveSecretsFileKey :: "bytes \<Rightarrow> bytes \<Rightarrow> bytes \<Rightarrow> bytes \<Rightarrow> bytes \<Rightarrow> bytes option" where
  "DeriveSecretsFileKey master segID recordID recordSalt runIDBytes =
     (if length recordID \<noteq> 16 \<or> length recordSalt \<noteq> 16 then None
      else Option.bind (secretsContext segID recordID recordSalt) (\<lambda>ctx.
        Some (first32 (hkdfKey master runIDBytes (bytes_of InfoSegKey @ [0x00] @ ctx) FileKeySize))))"

definition DeriveMK :: "bytes \<Rightarrow> bytes \<Rightarrow> bytes" where
  "DeriveMK master runIDBytes = hkdfKey master runIDBytes (bytes_of InfoManifestKey) FileKeySize"

definition DeriveNameMACKey :: "bytes \<Rightarrow> bytes \<Rightarrow> bytes" where
  "DeriveNameMACKey mk runIDBytes = hkdfKey mk runIDBytes (bytes_of InfoNameMAC) FileKeySize"

definition name_message :: "string \<Rightarrow> string \<Rightarrow> bytes" where
  "name_message sourceType name = bytes_of sourceType @ [0x00] @ bytes_of name"

definition NameMAC :: "bytes \<Rightarrow> string \<Rightarrow> string \<Rightarrow> bytes" where
  "NameMAC nameMACKey sourceType name = hmac384 nameMACKey (name_message sourceType name)"

definition DeriveManifestWrapKey :: "bytes \<Rightarrow> bytes \<Rightarrow> string \<Rightarrow> bytes" where
  "DeriveManifestWrapKey mk runIDBytes shardID =
     hkdfKey mk runIDBytes (bytes_of InfoManifestWrap @ [0x00] @ bytes_of shardID) FileKeySize"

definition KeyCommitment :: "bytes \<Rightarrow> bytes \<Rightarrow> bytes" where
  "KeyCommitment master runIDBytes = hmac384 master (bytes_of InfoKeyCommit @ runIDBytes)"

section \<open>Segments\<close>

datatype segment_error =
    SegClass byte
  | SegSeal string stream_error
  | SegContainer string container_error
  | SegOpen string stream_error
  | SegPanic

record SecretsSegmentParams =
  sp_RecordID :: bytes
  sp_RecordSalt :: bytes
  sp_RunIDBytes :: bytes

definition SealNonSecretSegment ::
  "bytes \<Rightarrow> string \<Rightarrow> byte \<Rightarrow> byte \<Rightarrow> bytes \<Rightarrow> bytes \<Rightarrow> segment_error + bytes \<times> bytes" where
  "SealNonSecretSegment master downpipeID cls codecID plaintext payloadNonce =
     (if cls \<noteq> AddrSingleNonSecret \<and> cls \<noteq> AddrPacked then Inl (SegClass cls)
      else (let segID = SegID (DeriveCAK master downpipeID) cls [] plaintext
            in rbind (of_opt SegPanic (DeriveNonSecretFileKey master segID codecID)) (\<lambda>key.
               rbind (map_err (SegSeal (SegIDHex segID)) (SealStream key plaintext payloadNonce)) (\<lambda>body.
                 Inr (segID, FrameContainer MagicSeg body)))))"

definition OpenNonSecretSegment :: "bytes \<Rightarrow> bytes \<Rightarrow> byte \<Rightarrow> bytes \<Rightarrow> segment_error + bytes" where
  "OpenNonSecretSegment master segID codecID sealed =
     rbind (map_err (SegContainer (SegIDHex segID)) (UnframeContainer MagicSeg sealed)) (\<lambda>body.
     rbind (of_opt SegPanic (DeriveNonSecretFileKey master segID codecID)) (\<lambda>key.
       map_err (SegOpen (SegIDHex segID)) (OpenStream key body)))"

definition SealSecretsSegment ::
  "bytes \<Rightarrow> string \<Rightarrow> SecretsSegmentParams \<Rightarrow> bytes \<Rightarrow> bytes \<Rightarrow> segment_error + bytes \<times> bytes" where
  "SealSecretsSegment master downpipeID p plaintext payloadNonce =
     (let segID = SegID (DeriveCAK master downpipeID) AddrSecrets (sp_RecordSalt p) plaintext
      in rbind (of_opt SegPanic (DeriveSecretsFileKey master segID (sp_RecordID p) (sp_RecordSalt p) (sp_RunIDBytes p))) (\<lambda>key.
         rbind (map_err (SegSeal (SegIDHex segID)) (SealStream key plaintext payloadNonce)) (\<lambda>body.
           Inr (segID, FrameContainer MagicSeg body))))"

definition OpenSecretsSegment ::
  "bytes \<Rightarrow> bytes \<Rightarrow> SecretsSegmentParams \<Rightarrow> bytes \<Rightarrow> segment_error + bytes" where
  "OpenSecretsSegment master segID p sealed =
     rbind (map_err (SegContainer (SegIDHex segID)) (UnframeContainer MagicSeg sealed)) (\<lambda>body.
     rbind (of_opt SegPanic (DeriveSecretsFileKey master segID (sp_RecordID p) (sp_RecordSalt p) (sp_RunIDBytes p))) (\<lambda>key.
       map_err (SegOpen (SegIDHex segID)) (OpenStream key body)))"

section \<open>Lemmas\<close>

lemma lpAppend_small [simp]:
  "length field \<le> 255 \<Longrightarrow> lpAppend dst field = Some (dst @ [of_nat (length field)] @ field)"
  by (simp add: lpAppend_def)

lemma lpAppend_Some:
  "lpAppend dst field = Some ctx \<longleftrightarrow> length field \<le> 255 \<and> ctx = dst @ of_nat (length field) # field"
  by (auto simp: lpAppend_def)

lemma lp_inject:
  assumes "length a \<le> 255" "length b \<le> 255"
    and "(of_nat (length a) :: byte) # a @ r = of_nat (length b) # b @ s"
  shows "a = b \<and> r = s"
proof -
  have "unat (of_nat (length a) :: byte) = unat (of_nat (length b) :: byte)" using assms(3) by simp
  then have "length a = length b"
    using assms(1,2) by (simp add: unat_of_nat take_bit_eq_mod)
  with assms(3) show ?thesis by simp
qed

lemma length_chunkSizeBytes [simp]: "length chunkSizeBytes = 4"
  by (simp add: chunkSizeBytes_def)

lemma length_SegID [simp]: "length (SegID k c s p) = 48"
  by (simp add: SegID_def)

lemma DeriveNonSecretFileKey_defined:
  "length segID = 48 \<Longrightarrow> \<exists>k. DeriveNonSecretFileKey master segID codecID = Some k"
  by (simp add: DeriveNonSecretFileKey_def nonSecretContext_def)

lemma DeriveSecretsFileKey_defined:
  "length segID = 48 \<Longrightarrow> length rid = 16 \<Longrightarrow> length salt = 16 \<Longrightarrow>
     \<exists>k. DeriveSecretsFileKey master segID rid salt run = Some k"
  by (simp add: DeriveSecretsFileKey_def secretsContext_def)

lemma stream_opens_sealed:
  assumes "length n = 16" "length p \<le> 2 ^ 80"
  obtains pl where "SealStream k p n = Inr pl" "OpenStream k pl = Inr p"
proof -
  have "OpenStream k (payload_of k n [] (split_max SC p)) = Inr p"
    unfolding OpenStream_Inr_iff using assms well_chunked_split by (metis concat_split_max)
  with SealStream_payload [OF assms] that show thesis by blast
qed

text \<open>
  A sealed non-secret segment opens: for the two non-secret address classes and a 16-byte
  payload nonce, \<open>SealNonSecretSegment\<close> succeeds and \<open>OpenNonSecretSegment\<close>, given the returned
  segment id and the same codec, recovers the plaintext.
\<close>
theorem nonsecret_segment_round_trip:
  assumes "cls = AddrSingleNonSecret \<or> cls = AddrPacked"
    and "length payloadNonce = StreamNonceSize" and "length plaintext \<le> 2 ^ 80"
  shows "\<exists>segID sealed. SealNonSecretSegment master downpipeID cls codecID plaintext payloadNonce = Inr (segID, sealed)
           \<and> OpenNonSecretSegment master segID codecID sealed = Inr plaintext"
proof -
  let ?id = "SegID (DeriveCAK master downpipeID) cls [] plaintext"
  obtain k where k: "DeriveNonSecretFileKey master ?id codecID = Some k"
    using DeriveNonSecretFileKey_defined by force
  from assms obtain pl where "SealStream k plaintext payloadNonce = Inr pl" "OpenStream k pl = Inr plaintext"
    using stream_opens_sealed [of payloadNonce plaintext k] by auto
  then show ?thesis using assms(1) k
    by (intro exI [of _ ?id] exI [of _ "FrameContainer MagicSeg pl"])
      (auto simp: SealNonSecretSegment_def OpenNonSecretSegment_def Let_def)
qed

theorem nonsecret_segment_round_trip_witness:
  "\<exists>segID sealed. SealNonSecretSegment [1] ''d'' AddrPacked 0 [5, 6] (replicate 16 0) = Inr (segID, sealed)
     \<and> OpenNonSecretSegment [1] segID 0 sealed = Inr [5, 6]"
  by (rule nonsecret_segment_round_trip) simp_all

text \<open>
  A sealed secrets segment opens under the identity it was sealed for: with a 16-byte record id
  and salt, \<open>SealSecretsSegment\<close> succeeds and \<open>OpenSecretsSegment\<close> with the same run, record and salt
  recovers the plaintext; with a record id or salt of another length both panic and neither returns.
\<close>
theorem secrets_segment_round_trip:
  assumes "length payloadNonce = StreamNonceSize" and "length plaintext \<le> 2 ^ 80"
  shows "if length (sp_RecordID p) = 16 \<and> length (sp_RecordSalt p) = 16
         then \<exists>segID sealed. SealSecretsSegment master downpipeID p plaintext payloadNonce = Inr (segID, sealed)
                \<and> OpenSecretsSegment master segID p sealed = Inr plaintext
         else SealSecretsSegment master downpipeID p plaintext payloadNonce = Inl SegPanic"
proof (cases "length (sp_RecordID p) = 16 \<and> length (sp_RecordSalt p) = 16")
  case True
  let ?id = "SegID (DeriveCAK master downpipeID) AddrSecrets (sp_RecordSalt p) plaintext"
  obtain k where k: "DeriveSecretsFileKey master ?id (sp_RecordID p) (sp_RecordSalt p) (sp_RunIDBytes p) = Some k"
    using DeriveSecretsFileKey_defined True by force
  from assms obtain pl where "SealStream k plaintext payloadNonce = Inr pl" "OpenStream k pl = Inr plaintext"
    using stream_opens_sealed [of payloadNonce plaintext k] by auto
  then have "SealSecretsSegment master downpipeID p plaintext payloadNonce = Inr (?id, FrameContainer MagicSeg pl)
      \<and> OpenSecretsSegment master ?id p (FrameContainer MagicSeg pl) = Inr plaintext"
    using k by (simp add: SealSecretsSegment_def OpenSecretsSegment_def Let_def)
  with True show ?thesis by simp
next
  case False
  then show ?thesis
    by (auto simp: SealSecretsSegment_def Let_def DeriveSecretsFileKey_def)
qed

theorem secrets_segment_round_trip_witness:
  "\<exists>segID sealed. SealSecretsSegment [1] ''d'' \<lparr>sp_RecordID = replicate 16 1, sp_RecordSalt = replicate 16 2, sp_RunIDBytes = [3]\<rparr>
       [5, 6] (replicate 16 0) = Inr (segID, sealed)
     \<and> OpenSecretsSegment [1] segID \<lparr>sp_RecordID = replicate 16 1, sp_RecordSalt = replicate 16 2, sp_RunIDBytes = [3]\<rparr> sealed = Inr [5, 6]"
  using secrets_segment_round_trip [of "replicate 16 0" "[5, 6]"
      "\<lparr>sp_RecordID = replicate 16 1, sp_RecordSalt = replicate 16 2, sp_RunIDBytes = [3]\<rparr>" "[1]" "''d''"]
  by simp

text \<open>
  The inputs of the key schedule never coincide across purposes: the file-key contexts of two
  segments are equal only when segment id and codec (or segment id, record id and salt) are, a
  non-secret context is never a secrets context, and the content-address messages of two segments
  are equal only when the address class, the plaintext and, for secrets, the 16-byte salt are.
\<close>
theorem key_contexts_injective:
  assumes "length s = 48" "length s' = 48"
    and "length r = 16" "length r' = 16" "length t = 16" "length t' = 16"
  shows "(nonSecretContext s c = nonSecretContext s' c' \<longleftrightarrow> s = s' \<and> c = c')
    \<and> (secretsContext s r t = secretsContext s' r' t' \<longleftrightarrow> s = s' \<and> r = r' \<and> t = t')
    \<and> nonSecretContext s c \<noteq> secretsContext s' r' t'
    \<and> (address_message a t p = address_message a' t' p' \<longleftrightarrow>
         a = a' \<and> p = p' \<and> (a = AddrSecrets \<longrightarrow> t = t'))"
  using assms by (auto simp: nonSecretContext_def secretsContext_def address_message_def)

theorem key_contexts_injective_witness:
  "nonSecretContext (replicate 48 1) 0 \<noteq> secretsContext (replicate 48 1) (replicate 16 2) (replicate 16 3)"
  using key_contexts_injective [of "replicate 48 1" "replicate 48 1" "replicate 16 2" "replicate 16 2"
      "replicate 16 3" "replicate 16 3"] by simp

end
