(* ===== verification/Capsule.thy ===== *)
theory Capsule
  imports KeyDerive
begin

text \<open>
  \<open>internal/crypto/keys.go\<close>, \<open>pq.go\<close> and \<open>capsule.go\<close>: the hybrid key material and its file
  encodings, the hybrid key encapsulation and signature, the recipient-set commitment and the
  capsule that wraps the run master to every recipient.

  The four primitives the code takes from Go packages outside the repository (X25519, ML-KEM-1024,
  Ed25519, ML-DSA-87) are the fields of a record every definition that needs them takes as an
  argument; keys are their byte encodings. What the properties rely on is the documented behaviour
  stated in \<open>kem_ok\<close> and \<open>sig_ok\<close>. Draws from the system's random source are arguments. Wiping of
  key material has no effect on any result and is not modelled.
\<close>

section \<open>The primitives\<close>

record pk_lib =
  x25519_priv_ok :: "bytes \<Rightarrow> bool"
  x25519_pub_ok :: "bytes \<Rightarrow> bool"
  x25519_pub :: "bytes \<Rightarrow> bytes"
  x25519_ecdh :: "bytes \<Rightarrow> bytes \<Rightarrow> bytes option"
  mlkem_seed_ok :: "bytes \<Rightarrow> bool"
  mlkem_pub_ok :: "bytes \<Rightarrow> bool"
  mlkem_pub :: "bytes \<Rightarrow> bytes"
  mlkem_encaps :: "bytes \<Rightarrow> bytes \<Rightarrow> bytes \<times> bytes"
  mlkem_decaps :: "bytes \<Rightarrow> bytes \<Rightarrow> bytes option"
  ed_pub :: "bytes \<Rightarrow> bytes"
  ed_sign :: "bytes \<Rightarrow> bytes \<Rightarrow> bytes"
  ed_verify :: "bytes \<Rightarrow> bytes \<Rightarrow> bytes \<Rightarrow> bool"
  mldsa_priv_ok :: "bytes \<Rightarrow> bool"
  mldsa_pub_ok :: "bytes \<Rightarrow> bool"
  mldsa_pub :: "bytes \<Rightarrow> bytes"
  mldsa_sign :: "bytes \<Rightarrow> bytes \<Rightarrow> bytes \<Rightarrow> bytes option"
  mldsa_verify :: "bytes \<Rightarrow> bytes \<Rightarrow> bytes \<Rightarrow> bool"

definition mlkem_SeedSize :: nat where "mlkem_SeedSize = 64"
definition mlkem_EncapsulationKeySize1024 :: nat where "mlkem_EncapsulationKeySize1024 = 1568"
definition mlkem_CiphertextSize1024 :: nat where "mlkem_CiphertextSize1024 = 1568"
definition ed25519_PublicKeySize :: nat where "ed25519_PublicKeySize = 32"
definition ed25519_SeedSize :: nat where "ed25519_SeedSize = 32"
definition ed25519_SignatureSize :: nat where "ed25519_SignatureSize = 64"

record HybridKEMPublic =
  kp_X25519 :: bytes
  kp_MLKEM :: bytes

record HybridKEMPrivate =
  ks_X25519 :: bytes
  ks_MLKEM :: bytes

record HybridSigner =
  sg_Ed :: bytes
  sg_MLDSA :: bytes

record HybridVerifier =
  vf_Ed :: bytes
  vf_MLDSA :: bytes

datatype crypto_error =
    RecipientPrivateLen nat | X25519PrivateKey | MLKEMPrivateKey
  | RecipientPublicLen nat | X25519PublicKey | MLKEMPublicKey
  | SignerPublicShort nat | MLDSAPublicKey | SignerPrivateShort nat | MLDSAPrivateKey
  | X25519ECDH | HybridCiphertextLen nat | MLKEMDecapsulate | X25519Ephemeral
  | HybridSignatureShort nat | Ed25519Verification | MLDSAVerification | MLDSASigning
  | NoRecipients | EncapsulateTo string crypto_error | CapsuleNonce | SealTo string stream_error
  | ErrIdentityMismatch string string | DecapsulateFor string crypto_error
  | OpenWrapFor string stream_error | RecoveredSecretLen nat

section \<open>Hybrid key encapsulation\<close>

definition PublicOf :: "pk_lib \<Rightarrow> HybridKEMPrivate \<Rightarrow> HybridKEMPublic" where
  "PublicOf L priv = \<lparr>kp_X25519 = x25519_pub L (ks_X25519 priv), kp_MLKEM = mlkem_pub L (ks_MLKEM priv)\<rparr>"

definition GenerateHybridKEM :: "pk_lib \<Rightarrow> bytes \<Rightarrow> bytes \<Rightarrow> HybridKEMPrivate \<times> HybridKEMPublic" where
  "GenerateHybridKEM L xk mk =
     (let priv = \<lparr>ks_X25519 = xk, ks_MLKEM = mk\<rparr>
      in (priv, \<lparr>kp_X25519 = x25519_pub L xk, kp_MLKEM = mlkem_pub L mk\<rparr>))"

definition NewHybridPublic :: "pk_lib \<Rightarrow> bytes \<Rightarrow> bytes \<Rightarrow> crypto_error + HybridKEMPublic" where
  "NewHybridPublic L x25519 mlkem1024 =
     (if \<not> x25519_pub_ok L x25519 then Inl X25519PublicKey
      else if \<not> mlkem_pub_ok L mlkem1024 then Inl MLKEMPublicKey
      else Inr \<lparr>kp_X25519 = x25519, kp_MLKEM = mlkem1024\<rparr>)"

definition hybridCombiner :: "bytes \<Rightarrow> bytes \<Rightarrow> bytes \<Rightarrow> bytes \<Rightarrow> bytes" where
  "hybridCombiner ssM ssX ctX pkX =
     hkdf384 (ssM @ ssX) [] (bytes_of HybridKEMLabel @ [0x00] @ ctX @ pkX) 32"

definition HybridKEMCombine :: "bytes \<Rightarrow> bytes \<Rightarrow> bytes \<Rightarrow> bytes \<Rightarrow> bytes" where
  "HybridKEMCombine ssM ssX ctX pkX = hybridCombiner ssM ssX ctX pkX"

definition EncapsulateHybrid ::
  "pk_lib \<Rightarrow> bytes \<times> bytes \<Rightarrow> HybridKEMPublic \<Rightarrow> crypto_error + bytes \<times> bytes" where
  "EncapsulateHybrid L draw pub =
     (case draw of (eph, rnd) \<Rightarrow>
        rbind (of_opt X25519ECDH (x25519_ecdh L eph (kp_X25519 pub))) (\<lambda>ssX.
          case mlkem_encaps L (kp_MLKEM pub) rnd of (ssM, ctM) \<Rightarrow>
            (let ctX = x25519_pub L eph
             in Inr (hybridCombiner ssM ssX ctX (kp_X25519 pub), ctM @ ctX))))"

definition DecapsulateHybrid :: "pk_lib \<Rightarrow> HybridKEMPrivate \<Rightarrow> bytes \<Rightarrow> crypto_error + bytes" where
  "DecapsulateHybrid L priv ciphertext =
     (if length ciphertext \<noteq> mlkem_CiphertextSize1024 + 32 then Inl (HybridCiphertextLen (length ciphertext))
      else (let ctM = take mlkem_CiphertextSize1024 ciphertext; ctX = drop mlkem_CiphertextSize1024 ciphertext
            in rbind (of_opt MLKEMDecapsulate (mlkem_decaps L (ks_MLKEM priv) ctM)) (\<lambda>ssM.
               if \<not> x25519_pub_ok L ctX then Inl X25519Ephemeral
               else rbind (of_opt X25519ECDH (x25519_ecdh L (ks_X25519 priv) ctX)) (\<lambda>ssX.
                 Inr (hybridCombiner ssM ssX ctX (x25519_pub L (ks_X25519 priv)))))))"

section \<open>Hybrid signatures\<close>

definition GenerateHybridSigner :: "pk_lib \<Rightarrow> bytes \<Rightarrow> bytes \<Rightarrow> HybridSigner \<times> HybridVerifier" where
  "GenerateHybridSigner L edPriv mPriv =
     (\<lparr>sg_Ed = edPriv, sg_MLDSA = mPriv\<rparr>, \<lparr>vf_Ed = ed_pub L edPriv, vf_MLDSA = mldsa_pub L mPriv\<rparr>)"

definition Verifier :: "pk_lib \<Rightarrow> HybridSigner \<Rightarrow> HybridVerifier" where
  "Verifier L s = \<lparr>vf_Ed = ed_pub L (sg_Ed s), vf_MLDSA = mldsa_pub L (sg_MLDSA s)\<rparr>"

definition Sign :: "pk_lib \<Rightarrow> bytes \<Rightarrow> HybridSigner \<Rightarrow> bytes \<Rightarrow> crypto_error + bytes" where
  "Sign L rnd s message =
     rbind (of_opt MLDSASigning (mldsa_sign L (sg_MLDSA s) rnd message)) (\<lambda>mSig.
       Inr (ed_sign L (sg_Ed s) message @ mSig))"

definition Verify :: "pk_lib \<Rightarrow> HybridVerifier \<Rightarrow> bytes \<Rightarrow> bytes \<Rightarrow> crypto_error + unit" where
  "Verify L v message signature =
     (if length signature < ed25519_SignatureSize then Inl (HybridSignatureShort (length signature))
      else (let edSig = take ed25519_SignatureSize signature; mSig = drop ed25519_SignatureSize signature;
                edOK = ed_verify L (vf_Ed v) message edSig;
                mlOK = mldsa_verify L (vf_MLDSA v) message mSig
            in if \<not> edOK then Inl Ed25519Verification
               else if \<not> mlOK then Inl MLDSAVerification
               else Inr ()))"

definition VerifyEach :: "pk_lib \<Rightarrow> HybridVerifier \<Rightarrow> bytes \<Rightarrow> bytes \<Rightarrow> bool \<times> bool" where
  "VerifyEach L v message signature =
     (if length signature < ed25519_SignatureSize then (False, False)
      else (ed_verify L (vf_Ed v) message (take ed25519_SignatureSize signature),
            mldsa_verify L (vf_MLDSA v) message (drop ed25519_SignatureSize signature)))"

section \<open>Key files\<close>

definition x25519KeySize :: nat where "x25519KeySize = 32"
definition kemPrivateSize :: nat where "kemPrivateSize = x25519KeySize + mlkem_SeedSize"
definition kemPublicSize :: nat where "kemPublicSize = x25519KeySize + mlkem_EncapsulationKeySize1024"

definition recipientEncoding :: "HybridKEMPublic \<Rightarrow> bytes" where
  "recipientEncoding pub = kp_X25519 pub @ kp_MLKEM pub"

definition MarshalKEMPrivate :: "HybridKEMPrivate \<Rightarrow> bytes" where
  "MarshalKEMPrivate k = ks_X25519 k @ ks_MLKEM k"

definition ParseKEMPrivate :: "pk_lib \<Rightarrow> bytes \<Rightarrow> crypto_error + HybridKEMPrivate" where
  "ParseKEMPrivate L b =
     (if length b \<noteq> kemPrivateSize then Inl (RecipientPrivateLen (length b))
      else if \<not> x25519_priv_ok L (take x25519KeySize b) then Inl X25519PrivateKey
      else if \<not> mlkem_seed_ok L (drop x25519KeySize b) then Inl MLKEMPrivateKey
      else Inr \<lparr>ks_X25519 = take x25519KeySize b, ks_MLKEM = drop x25519KeySize b\<rparr>)"

definition MarshalKEMPublic :: "HybridKEMPublic \<Rightarrow> bytes" where
  "MarshalKEMPublic k = recipientEncoding k"

definition ParseKEMPublic :: "pk_lib \<Rightarrow> bytes \<Rightarrow> crypto_error + HybridKEMPublic" where
  "ParseKEMPublic L b =
     (if length b \<noteq> kemPublicSize then Inl (RecipientPublicLen (length b))
      else NewHybridPublic L (take x25519KeySize b) (drop x25519KeySize b))"

definition MarshalVerifier :: "HybridVerifier \<Rightarrow> bytes" where
  "MarshalVerifier v = vf_Ed v @ vf_MLDSA v"

definition ParseVerifier :: "pk_lib \<Rightarrow> bytes \<Rightarrow> crypto_error + HybridVerifier" where
  "ParseVerifier L b =
     (if length b \<le> ed25519_PublicKeySize then Inl (SignerPublicShort (length b))
      else if \<not> mldsa_pub_ok L (drop ed25519_PublicKeySize b) then Inl MLDSAPublicKey
      else Inr \<lparr>vf_Ed = take ed25519_PublicKeySize b, vf_MLDSA = drop ed25519_PublicKeySize b\<rparr>)"

definition MarshalSigner :: "HybridSigner \<Rightarrow> bytes" where
  "MarshalSigner s = sg_Ed s @ sg_MLDSA s"

definition ParseSigner :: "pk_lib \<Rightarrow> bytes \<Rightarrow> crypto_error + HybridSigner" where
  "ParseSigner L b =
     (if length b \<le> ed25519_SeedSize then Inl (SignerPrivateShort (length b))
      else if \<not> mldsa_priv_ok L (drop ed25519_SeedSize b) then Inl MLDSAPrivateKey
      else Inr \<lparr>sg_Ed = take ed25519_SeedSize b, sg_MLDSA = drop ed25519_SeedSize b\<rparr>)"

section \<open>The recipient set and the capsule\<close>

definition RecipientFingerprint :: "HybridKEMPublic \<Rightarrow> string" where
  "RecipientFingerprint pub = ''dpr1:'' @ hex_encode (sha384 (recipientEncoding pub))"

definition SignerFingerprint :: "HybridVerifier \<Rightarrow> string" where
  "SignerFingerprint v = ''edmldsa1:'' @ hex_encode (sha384 (MarshalVerifier v))"

definition recipient_set_message :: "HybridKEMPublic list \<Rightarrow> bytes" where
  "recipient_set_message recipients =
     bytes_of InfoRecipientSet @ [0x00] @ concat (sort (map recipientEncoding recipients))"

definition RecipientSetHash :: "HybridKEMPublic list \<Rightarrow> bytes" where
  "RecipientSetHash recipients = sha384 (recipient_set_message recipients)"

definition ConstantTimeEqual :: "bytes \<Rightarrow> bytes \<Rightarrow> bool" where
  "ConstantTimeEqual a b = (if length a \<noteq> length b then False else list_all2 (=) a b)"

record WrappedKey =
  wk_Fingerprint :: string
  wk_KEMCiphertext :: bytes
  wk_Sealed :: bytes

record RecipientDesc =
  rd_Role :: string
  rd_Fingerprint :: string

definition sealSecretTo :: "bytes \<Rightarrow> bytes \<Rightarrow> bytes \<Rightarrow> bytes \<Rightarrow> stream_error + bytes" where
  "sealSecretTo secret wrapKey nonce context =
     rbind (SealStreamTo [] wrapKey nonce context) (\<lambda>sw.
     rbind (sw_write sw secret) (\<lambda>sw.
     rbind (sw_close sw) (\<lambda>sw. Inr (sw_dst sw))))"

text \<open>\<open>randr\<close> is the list of bytes the reader has left; each wrap takes 16 of them.\<close>

definition sealWrap ::
  "pk_lib \<Rightarrow> bytes \<Rightarrow> HybridKEMPublic \<Rightarrow> bytes \<Rightarrow> bytes \<times> bytes \<Rightarrow> bytes \<Rightarrow> crypto_error + WrappedKey \<times> bytes" where
  "sealWrap L secret r context draw randr =
     (let fp = RecipientFingerprint r
      in rbind (map_err (EncapsulateTo fp) (EncapsulateHybrid L draw r)) (\<lambda>(ss, ct).
         let wrapKey = first32 (hkdfKey ss [] (bytes_of InfoCapsuleDEM) FileKeySize)
         in if length randr < StreamNonceSize then Inl CapsuleNonce
            else rbind (map_err (SealTo fp) (sealSecretTo secret wrapKey (take StreamNonceSize randr) context)) (\<lambda>sealed.
              Inr (\<lparr>wk_Fingerprint = fp, wk_KEMCiphertext = ct, wk_Sealed = sealed\<rparr>, drop StreamNonceSize randr))))"

fun seal_wraps ::
  "pk_lib \<Rightarrow> bytes \<Rightarrow> (HybridKEMPublic \<times> bytes \<times> bytes) list \<Rightarrow> bytes \<Rightarrow> bytes \<Rightarrow> crypto_error + WrappedKey list" where
  "seal_wraps L secret [] context randr = Inr []"
| "seal_wraps L secret ((r, draw) # rs) context randr =
     rbind (sealWrap L secret r context draw randr) (\<lambda>(w, randr').
     rbind (seal_wraps L secret rs context randr') (\<lambda>ws. Inr (w # ws)))"

text \<open>Each recipient comes with the draw its encapsulation takes from the system's random source.\<close>

definition SealToRecipients ::
  "pk_lib \<Rightarrow> bytes \<Rightarrow> (HybridKEMPublic \<times> bytes \<times> bytes) list \<Rightarrow> bytes \<Rightarrow> bytes \<Rightarrow> crypto_error + WrappedKey list" where
  "SealToRecipients L secret recipients context randr =
     (if recipients = [] then Inl NoRecipients else seal_wraps L secret recipients context randr)"

fun join :: "string \<Rightarrow> string list \<Rightarrow> string" where
  "join sep [] = []"
| "join sep [x] = x"
| "join sep (x # y # r) = x @ sep @ join sep (y # r)"

definition describeWanted :: "RecipientDesc list \<Rightarrow> WrappedKey list \<Rightarrow> string" where
  "describeWanted wanted wraps =
     (let parts = map (\<lambda>r. if rd_Role r \<noteq> [] then rd_Role r @ '' '' @ rd_Fingerprint r else rd_Fingerprint r) wanted;
          parts' = (if parts = [] then map wk_Fingerprint wraps else parts)
      in if parts' = [] then ''this run lists no recipients to open it''
         else ''this run needs one of: '' @ join '', '' parts')"

definition openWrap ::
  "pk_lib \<Rightarrow> WrappedKey \<Rightarrow> HybridKEMPrivate \<Rightarrow> bytes \<Rightarrow> string \<Rightarrow> crypto_error + bytes" where
  "openWrap L w priv context want =
     rbind (map_err (DecapsulateFor want) (DecapsulateHybrid L priv (wk_KEMCiphertext w))) (\<lambda>ss.
       let wrapKey = first32 (hkdfKey ss [] (bytes_of InfoCapsuleDEM) FileKeySize)
       in case OpenStreamTo wrapKey (wk_Sealed w) context 1 of
            (out, Some e) \<Rightarrow> Inl (OpenWrapFor want e)
          | (out, None) \<Rightarrow>
              if length out \<noteq> 32 then Inl (RecoveredSecretLen (length out)) else Inr out)"

fun open_first_match ::
  "pk_lib \<Rightarrow> WrappedKey list \<Rightarrow> HybridKEMPrivate \<Rightarrow> bytes \<Rightarrow> string \<Rightarrow> string \<Rightarrow> crypto_error + bytes" where
  "open_first_match L [] priv context want txt = Inl (ErrIdentityMismatch want txt)"
| "open_first_match L (w # ws) priv context want txt =
     (if wk_Fingerprint w \<noteq> want then open_first_match L ws priv context want txt
      else openWrap L w priv context want)"

definition OpenCapsule ::
  "pk_lib \<Rightarrow> WrappedKey list \<Rightarrow> HybridKEMPrivate \<Rightarrow> bytes \<Rightarrow> RecipientDesc list \<Rightarrow> crypto_error + bytes" where
  "OpenCapsule L wraps priv context wanted =
     open_first_match L wraps priv context (RecipientFingerprint (PublicOf L priv)) (describeWanted wanted wraps)"

section \<open>What the primitives promise\<close>

definition kem_ok :: "pk_lib \<Rightarrow> bool" where
  "kem_ok L \<longleftrightarrow>
     (\<forall>a. x25519_priv_ok L a \<longrightarrow> x25519_pub_ok L (x25519_pub L a) \<and> length (x25519_pub L a) = 32)
     \<and> (\<forall>a b. x25519_priv_ok L a \<longrightarrow> x25519_priv_ok L b \<longrightarrow>
          x25519_ecdh L a (x25519_pub L b) = x25519_ecdh L b (x25519_pub L a))
     \<and> (\<forall>seed rnd ss ct. mlkem_seed_ok L seed \<longrightarrow> mlkem_encaps L (mlkem_pub L seed) rnd = (ss, ct) \<longrightarrow>
          mlkem_decaps L seed ct = Some ss \<and> length ct = mlkem_CiphertextSize1024)"

definition sig_ok :: "pk_lib \<Rightarrow> bool" where
  "sig_ok L \<longleftrightarrow>
     (\<forall>k m. length (ed_sign L k m) = ed25519_SignatureSize \<and> ed_verify L (ed_pub L k) m (ed_sign L k m))
     \<and> (\<forall>k rnd m sg. mldsa_sign L k rnd m = Some sg \<longrightarrow> mldsa_verify L (mldsa_pub L k) m sg)"

text \<open>An instance of the primitives, for the witnesses: it keeps the promises and no secrets.\<close>

definition plain_lib :: pk_lib where
  "plain_lib = \<lparr>
     x25519_priv_ok = (\<lambda>b. length b = 32), x25519_pub_ok = (\<lambda>b. length b = 32),
     x25519_pub = first32, x25519_ecdh = (\<lambda>a p. Some (map2 xor (first32 a) (first32 p))),
     mlkem_seed_ok = (\<lambda>b. length b = 64), mlkem_pub_ok = (\<lambda>b. True), mlkem_pub = (\<lambda>s. s),
     mlkem_encaps = (\<lambda>p r. (p, replicate 1568 0)), mlkem_decaps = (\<lambda>s c. Some s),
     ed_pub = (\<lambda>k. k), ed_sign = (\<lambda>k m. replicate 64 0), ed_verify = (\<lambda>p m s. s = replicate 64 0),
     mldsa_priv_ok = (\<lambda>b. True), mldsa_pub_ok = (\<lambda>b. True), mldsa_pub = (\<lambda>k. k),
     mldsa_sign = (\<lambda>k r m. Some m), mldsa_verify = (\<lambda>p m s. s = m)\<rparr>"

lemma first32_length [simp]: "length (first32 b) = 32"
  by (simp add: first32_def)

lemma first32_id [simp]: "length b = 32 \<Longrightarrow> first32 b = b"
  by (simp add: first32_def)

lemma map2_xor_commute: "length a = length b \<Longrightarrow> map2 xor a b = map2 xor b (a :: bytes)"
  by (simp add: list_eq_iff_nth_eq xor.commute)

lemma kem_ok_plain: "kem_ok plain_lib"
  by (simp add: kem_ok_def plain_lib_def map2_xor_commute mlkem_CiphertextSize1024_def)

lemma sig_ok_plain: "sig_ok plain_lib"
  by (simp add: sig_ok_def plain_lib_def ed25519_SignatureSize_def)

section \<open>Lemmas\<close>

lemma ConstantTimeEqual_iff [simp]: "ConstantTimeEqual a b \<longleftrightarrow> a = b"
  by (auto simp: ConstantTimeEqual_def simp flip: list_all2_eq)

lemma concat_inject_const:
  assumes "\<forall>x \<in> set xs. length x = k" "\<forall>y \<in> set ys. length y = k" "0 < k" "concat xs = concat ys"
  shows "xs = ys"
proof -
  have "length xs * k = length ys * k"
    using assms length_concat_const [of xs k] length_concat_const [of ys k] by metis
  then have "length xs = length ys" using assms(3) by simp
  moreover have "\<forall>(x, y) \<in> set (zip xs ys). length x = length y"
  proof clarify
    fix x y
    assume z: "(x, y) \<in> set (zip xs ys)"
    then show "length x = length y"
      using assms(1,2) set_zip_leftD [OF z] set_zip_rightD [OF z] by simp
  qed
  ultimately show ?thesis using concat_injective [OF assms(4)] by blast
qed

lemma DecapsulateHybrid_Encapsulate:
  assumes "kem_ok L" "x25519_priv_ok L (ks_X25519 priv)" "mlkem_seed_ok L (ks_MLKEM priv)" "x25519_priv_ok L eph"
    and "EncapsulateHybrid L (eph, rnd) (PublicOf L priv) = Inr (ss, ct)"
  shows "DecapsulateHybrid L priv ct = Inr ss"
proof -
  obtain ssM ctM where e: "mlkem_encaps L (mlkem_pub L (ks_MLKEM priv)) rnd = (ssM, ctM)" by fastforce
  have d: "mlkem_decaps L (ks_MLKEM priv) ctM = Some ssM" "length ctM = mlkem_CiphertextSize1024"
    using assms(1,3) e unfolding kem_ok_def by blast+
  have x: "x25519_pub_ok L (x25519_pub L eph)" "length (x25519_pub L eph) = 32"
    "x25519_ecdh L (ks_X25519 priv) (x25519_pub L eph) = x25519_ecdh L eph (x25519_pub L (ks_X25519 priv))"
    using assms(1,2,4) unfolding kem_ok_def by blast+
  show ?thesis using assms(5) e d x
    by (auto simp: EncapsulateHybrid_def DecapsulateHybrid_def PublicOf_def Let_def)
qed

lemma sealSecretTo_opens:
  assumes "length n = 16" "length secret = 32"
  obtains sealed where "sealSecretTo secret k n a = Inr sealed" "OpenStreamTo k sealed a 1 = (secret, None)"
proof -
  have sp: "split_max SC secret = [secret]"
    using assms by (simp add: split_max_short streamChunkSize_def ChunkSize_def)
  obtain w where w: "stream_session [] k n a [secret] = Inr w" "sw_dst w = payload_of k n a [secret]"
    using stream_session_payload [of n "[secret]" "[]" k a] assms sp by auto
  have "OpenStreamTo k (sw_dst w) a 1 = (secret, None)"
    unfolding OpenStreamTo_None_iff w(2) using assms
    by (intro exI [of _ n] exI [of _ "[secret]"])
      (simp add: well_chunked_def under_limit_def streamChunkSize_def ChunkSize_def)
  moreover have "sealSecretTo secret k n a = Inr (sw_dst w)"
    using w(1) by (auto simp: sealSecretTo_def stream_session_def)
  ultimately show thesis using that by blast
qed

definition draws_ok :: "pk_lib \<Rightarrow> (HybridKEMPublic \<times> bytes \<times> bytes) list \<Rightarrow> bool" where
  "draws_ok L rs \<longleftrightarrow> (\<forall>(r, eph, rnd) \<in> set rs. x25519_priv_ok L eph \<and> x25519_ecdh L eph (kp_X25519 r) \<noteq> None)"

lemma sealWrap_opens:
  assumes "length secret = 32" "16 \<le> length randr" "x25519_priv_ok L eph" "x25519_ecdh L eph (kp_X25519 r) \<noteq> None"
  shows "\<exists>w. sealWrap L secret r context (eph, rnd) randr = Inr (w, drop 16 randr)
    \<and> wk_Fingerprint w = RecipientFingerprint r
    \<and> (\<forall>priv want. kem_ok L \<longrightarrow> x25519_priv_ok L (ks_X25519 priv) \<longrightarrow> mlkem_seed_ok L (ks_MLKEM priv) \<longrightarrow>
         r = PublicOf L priv \<longrightarrow> openWrap L w priv context want = Inr secret)"
proof -
  obtain ss ct where e: "EncapsulateHybrid L (eph, rnd) r = Inr (ss, ct)"
    using assms(4) by (cases "mlkem_encaps L (kp_MLKEM r) rnd") (auto simp: EncapsulateHybrid_def Let_def)
  let ?k = "first32 (hkdfKey ss [] (bytes_of InfoCapsuleDEM) FileKeySize)"
  obtain sealed where s: "sealSecretTo secret ?k (take 16 randr) context = Inr sealed"
    "OpenStreamTo ?k sealed context 1 = (secret, None)"
    using sealSecretTo_opens [of "take 16 randr" secret ?k "context"] assms by auto
  let ?w = "\<lparr>wk_Fingerprint = RecipientFingerprint r, wk_KEMCiphertext = ct, wk_Sealed = sealed\<rparr>"
  have "sealWrap L secret r context (eph, rnd) randr = Inr (?w, drop 16 randr)"
    using assms(2) e s(1) by (simp add: sealWrap_def Let_def)
  moreover have "openWrap L ?w priv context want = Inr secret"
    if "kem_ok L" "x25519_priv_ok L (ks_X25519 priv)" "mlkem_seed_ok L (ks_MLKEM priv)" "r = PublicOf L priv" for priv want
  proof -
    have "DecapsulateHybrid L priv ct = Inr ss"
      using DecapsulateHybrid_Encapsulate that assms(3) e by blast
    then show ?thesis using s(2) assms(1) by (simp add: openWrap_def Let_def)
  qed
  ultimately show ?thesis by (intro exI [of _ ?w]) simp
qed

lemma seal_wraps_open:
  assumes "length secret = 32" "draws_ok L rs" "16 * length rs \<le> length randr" "kem_ok L"
    "x25519_priv_ok L (ks_X25519 priv)" "mlkem_seed_ok L (ks_MLKEM priv)"
    and "\<forall>r \<in> fst ` set rs. RecipientFingerprint r = RecipientFingerprint (PublicOf L priv) \<longrightarrow> r = PublicOf L priv"
  shows "\<exists>ws. seal_wraps L secret rs context randr = Inr ws \<and>
    open_first_match L ws priv context (RecipientFingerprint (PublicOf L priv)) txt =
      (if PublicOf L priv \<in> fst ` set rs then Inr secret
       else Inl (ErrIdentityMismatch (RecipientFingerprint (PublicOf L priv)) txt))"
  using assms
proof (induction rs arbitrary: randr)
  case (Cons x rs)
  obtain r eph rnd where x: "x = (r, eph, rnd)" by (cases x)
  obtain w where w: "sealWrap L secret r context (eph, rnd) randr = Inr (w, drop 16 randr)"
    "wk_Fingerprint w = RecipientFingerprint r"
    "r = PublicOf L priv \<Longrightarrow> openWrap L w priv context want = Inr secret" for want
    using sealWrap_opens [of secret randr L eph r "context" rnd] Cons.prems x by (auto simp: draws_ok_def)
  obtain ws where ws: "seal_wraps L secret rs context (drop 16 randr) = Inr ws"
    "open_first_match L ws priv context (RecipientFingerprint (PublicOf L priv)) txt =
      (if PublicOf L priv \<in> fst ` set rs then Inr secret
       else Inl (ErrIdentityMismatch (RecipientFingerprint (PublicOf L priv)) txt))"
  proof -
    have "draws_ok L rs" "16 * length rs \<le> length (drop 16 randr)"
      "\<forall>r \<in> fst ` set rs. RecipientFingerprint r = RecipientFingerprint (PublicOf L priv) \<longrightarrow> r = PublicOf L priv"
      using Cons.prems(2,3,7) by (simp_all add: draws_ok_def)
    from Cons.IH [OF Cons.prems(1) this(1,2) Cons.prems(4-6) this(3)] that show thesis by blast
  qed
  have "seal_wraps L secret (x # rs) context randr = Inr (w # ws)"
    using w(1) ws(1) x by simp
  moreover have "RecipientFingerprint r = RecipientFingerprint (PublicOf L priv) \<longleftrightarrow> r = PublicOf L priv"
    using Cons.prems(7) x by auto
  ultimately show ?case using w ws x by auto
qed simp

section \<open>Properties\<close>

text \<open>
  C24. The capsule opens for its recipients and only for them: \<open>SealToRecipients\<close> over a list of
  recipients succeeds, and \<open>OpenCapsule\<close> with a held identity, under the same run context, recovers
  the run master when the identity's public half is one of the recipients, and is
  \<open>ErrIdentityMismatch\<close> naming the identity and the recipients otherwise. The hypotheses are the
  documented behaviour of the key encapsulations, enough bytes of the nonce reader, and that no
  listed recipient other than the identity itself has the identity's SHA-384 fingerprint.
\<close>
theorem capsule_round_trip:
  assumes "kem_ok L" and "x25519_priv_ok L (ks_X25519 priv)" and "mlkem_seed_ok L (ks_MLKEM priv)"
    and "length secret = 32" and "draws_ok L rs" and "rs \<noteq> []" and "StreamNonceSize * length rs \<le> length randr"
    and "\<forall>r \<in> fst ` set rs. RecipientFingerprint r = RecipientFingerprint (PublicOf L priv) \<longrightarrow> r = PublicOf L priv"
  shows "\<exists>wraps. SealToRecipients L secret rs context randr = Inr wraps
    \<and> OpenCapsule L wraps priv context wanted =
        (if PublicOf L priv \<in> fst ` set rs then Inr secret
         else Inl (ErrIdentityMismatch (RecipientFingerprint (PublicOf L priv)) (describeWanted wanted wraps)))"
proof -
  have e: "16 * length rs \<le> length randr" using assms by simp
  obtain ws where ws: "seal_wraps L secret rs context randr = Inr ws"
    using seal_wraps_open [OF assms(4,5) e assms(1,2,3,8)] by blast
  have "open_first_match L ws priv context (RecipientFingerprint (PublicOf L priv)) (describeWanted wanted ws) =
      (if PublicOf L priv \<in> fst ` set rs then Inr secret
       else Inl (ErrIdentityMismatch (RecipientFingerprint (PublicOf L priv)) (describeWanted wanted ws)))"
    using seal_wraps_open [OF assms(4,5) e assms(1,2,3,8), of "context" "describeWanted wanted ws"] ws by auto
  then show ?thesis using ws assms(6) by (simp add: SealToRecipients_def OpenCapsule_def)
qed

theorem capsule_round_trip_witness:
  "\<exists>wraps. SealToRecipients plain_lib (replicate 32 7)
       [(PublicOf plain_lib \<lparr>ks_X25519 = replicate 32 1, ks_MLKEM = replicate 64 2\<rparr>, replicate 32 3, [])] [4] (replicate 16 5)
       = Inr wraps
     \<and> OpenCapsule plain_lib wraps \<lparr>ks_X25519 = replicate 32 1, ks_MLKEM = replicate 64 2\<rparr> [4] [] = Inr (replicate 32 7)"
proof -
  let ?p = "\<lparr>ks_X25519 = replicate 32 1, ks_MLKEM = replicate 64 2\<rparr>"
  have "draws_ok plain_lib [(PublicOf plain_lib ?p, replicate 32 3, [])]"
    by (simp add: draws_ok_def plain_lib_def)
  from capsule_round_trip [OF kem_ok_plain _ _ _ this, of ?p "replicate 32 7" "replicate 16 5" "[4]" "[]"]
  show ?thesis by (simp add: plain_lib_def)
qed

text \<open>
  The recipient-set commitment does not depend on the order in which recipients are listed and
  commits to the exact multiset: the message \<open>RecipientSetHash\<close> hashes is the same for two lists of
  recipients with 32-byte X25519 and 1568-byte ML-KEM keys exactly when one is a permutation of the
  other, and then the hashes are equal.
\<close>
theorem recipient_set_commits:
  assumes "\<forall>r \<in> set rs \<union> set rs'. length (kp_X25519 r) = x25519KeySize
             \<and> length (kp_MLKEM r) = mlkem_EncapsulationKeySize1024"
  shows "(recipient_set_message rs = recipient_set_message rs' \<longleftrightarrow> mset rs = mset rs')
    \<and> (mset rs = mset rs' \<longrightarrow> RecipientSetHash rs = RecipientSetHash rs')"
proof -
  have len: "length (recipientEncoding r) = 1600" if "r \<in> set rs \<union> set rs'" for r
    using assms that by (auto simp: recipientEncoding_def x25519KeySize_def mlkem_EncapsulationKeySize1024_def)
  have inj: "inj_on recipientEncoding (set rs \<union> set rs')"
  proof (rule inj_onI)
    fix a b
    assume "a \<in> set rs \<union> set rs'" "b \<in> set rs \<union> set rs'" "recipientEncoding a = recipientEncoding b"
    moreover from this have "length (kp_X25519 a) = length (kp_X25519 b)" using assms by auto
    ultimately show "a = b" by (simp add: recipientEncoding_def)
  qed
  let ?A = "sort (map recipientEncoding rs)" and ?B = "sort (map recipientEncoding rs')"
  have l: "\<forall>x \<in> set ?A. length x = 1600" "\<forall>x \<in> set ?B. length x = 1600"
    using len by auto
  have "concat ?A = concat ?B \<longleftrightarrow> ?A = ?B"
  proof
    assume c: "concat ?A = concat ?B"
    show "?A = ?B" by (rule concat_inject_const [OF l _ c]) simp
  qed simp
  then have "recipient_set_message rs = recipient_set_message rs' \<longleftrightarrow> ?A = ?B"
    unfolding recipient_set_message_def by (simp only: same_append_eq)
  also have "\<dots> \<longleftrightarrow> mset (map recipientEncoding rs) = mset (map recipientEncoding rs')"
  proof
    assume "?A = ?B"
    then have "mset ?A = mset ?B" by (rule arg_cong)
    then show "mset (map recipientEncoding rs) = mset (map recipientEncoding rs')" by (simp only: mset_sort)
  next
    assume "mset (map recipientEncoding rs) = mset (map recipientEncoding rs')"
    then show "?A = ?B" by (intro properties_for_sort sorted_sort) (simp only: mset_sort)
  qed
  also have "\<dots> \<longleftrightarrow> mset rs = mset rs'"
  proof
    assume m: "mset (map recipientEncoding rs) = mset (map recipientEncoding rs')"
    let ?g = "inv_into (set rs \<union> set rs') recipientEncoding"
    have "map ?g (map recipientEncoding xs) = xs" if "set xs \<subseteq> set rs \<union> set rs'" for xs
      using inj that by (intro nth_equalityI) (auto simp: inv_into_f_f subset_iff)
    then have "rs = map ?g (map recipientEncoding rs)" "rs' = map ?g (map recipientEncoding rs')" by simp_all
    then show "mset rs = mset rs'" using m by (metis mset_map)
  qed (simp only: mset_map)
  finally show ?thesis by (metis RecipientSetHash_def)
qed

theorem recipient_set_commits_witness:
  "RecipientSetHash [\<lparr>kp_X25519 = replicate 32 1, kp_MLKEM = replicate 1568 2\<rparr>, \<lparr>kp_X25519 = replicate 32 3, kp_MLKEM = replicate 1568 4\<rparr>]
   = RecipientSetHash [\<lparr>kp_X25519 = replicate 32 3, kp_MLKEM = replicate 1568 4\<rparr>, \<lparr>kp_X25519 = replicate 32 1, kp_MLKEM = replicate 1568 2\<rparr>]"
  using recipient_set_commits
    [of "[\<lparr>kp_X25519 = replicate 32 1, kp_MLKEM = replicate 1568 2\<rparr>, \<lparr>kp_X25519 = replicate 32 3, kp_MLKEM = replicate 1568 4\<rparr>]"
        "[\<lparr>kp_X25519 = replicate 32 3, kp_MLKEM = replicate 1568 4\<rparr>, \<lparr>kp_X25519 = replicate 32 1, kp_MLKEM = replicate 1568 2\<rparr>]"]
  by (simp add: x25519KeySize_def mlkem_EncapsulationKeySize1024_def add_mset_commute)

text \<open>
  A hybrid signature is accepted exactly when both halves are: \<open>Verify\<close> returns no error if and
  only if both results of \<open>VerifyEach\<close> are true, and that needs the full Ed25519 half to be present;
  and the error names the Ed25519 half whenever that half fails, whatever the other does.
\<close>
theorem verify_needs_both_halves:
  "(Verify L v m s = Inr () \<longleftrightarrow> VerifyEach L v m s = (True, True))
   \<and> (length s < ed25519_SignatureSize \<longrightarrow> VerifyEach L v m s = (False, False))
   \<and> (Verify L v m s = Inl Ed25519Verification \<longleftrightarrow>
        ed25519_SignatureSize \<le> length s \<and> \<not> fst (VerifyEach L v m s))"
  by (auto simp: Verify_def VerifyEach_def Let_def split: if_splits)

theorem verify_needs_both_halves_witness:
  "VerifyEach plain_lib \<lparr>vf_Ed = [], vf_MLDSA = []\<rparr> [1] [2] = (False, False)"
  using verify_needs_both_halves [of plain_lib "\<lparr>vf_Ed = [], vf_MLDSA = []\<rparr>" "[1]" "[2]"]
  by (simp add: ed25519_SignatureSize_def)

lemma ParseKEMPrivate_canonical:
  "ParseKEMPrivate L b = Inr k \<Longrightarrow> MarshalKEMPrivate k = b \<and> length b = kemPrivateSize"
  by (auto simp: ParseKEMPrivate_def MarshalKEMPrivate_def split: if_splits)

lemma ParseKEMPublic_canonical:
  "ParseKEMPublic L b = Inr k \<Longrightarrow> MarshalKEMPublic k = b \<and> length b = kemPublicSize"
  by (auto simp: ParseKEMPublic_def NewHybridPublic_def MarshalKEMPublic_def recipientEncoding_def split: if_splits)

lemma ParseVerifier_canonical: "ParseVerifier L b = Inr k \<Longrightarrow> MarshalVerifier k = b"
  by (auto simp: ParseVerifier_def MarshalVerifier_def split: if_splits)

lemma ParseSigner_canonical: "ParseSigner L b = Inr k \<Longrightarrow> MarshalSigner k = b"
  by (auto simp: ParseSigner_def MarshalSigner_def ed25519_SeedSize_def ed25519_PublicKeySize_def split: if_splits)

text \<open>
  Key files have one form: whatever one of the four parsers accepts is, byte for byte, what the
  matching marshaller writes for the parsed key.
\<close>
theorem key_files_canonical:
  "(ParseKEMPrivate L b = Inr k1 \<longrightarrow> MarshalKEMPrivate k1 = b \<and> length b = kemPrivateSize)
   \<and> (ParseKEMPublic L b = Inr k2 \<longrightarrow> MarshalKEMPublic k2 = b \<and> length b = kemPublicSize)
   \<and> (ParseVerifier L b = Inr k3 \<longrightarrow> MarshalVerifier k3 = b)
   \<and> (ParseSigner L b = Inr k4 \<longrightarrow> MarshalSigner k4 = b)"
  by (intro conjI impI ParseKEMPrivate_canonical [THEN conjunct1] ParseKEMPrivate_canonical [THEN conjunct2]
      ParseKEMPublic_canonical [THEN conjunct1] ParseKEMPublic_canonical [THEN conjunct2]
      ParseVerifier_canonical ParseSigner_canonical)

theorem key_files_canonical_witness:
  "ParseSigner plain_lib (replicate 40 1) = Inr \<lparr>sg_Ed = replicate 32 1, sg_MLDSA = replicate 8 1\<rparr>
   \<and> MarshalSigner \<lparr>sg_Ed = replicate 32 1, sg_MLDSA = replicate 8 1\<rparr> = replicate 40 1"
proof -
  have "ParseSigner plain_lib (replicate 40 1) = Inr \<lparr>sg_Ed = replicate 32 1, sg_MLDSA = replicate 8 1\<rparr>"
    by (simp add: ParseSigner_def plain_lib_def ed25519_SeedSize_def ed25519_PublicKeySize_def)
  then show ?thesis using key_files_canonical [of plain_lib "replicate 40 1"] by blast
qed

end
