(* ===== verification/Merkle.thy ===== *)
theory Merkle
  imports GoCrypto
begin

text \<open>
  \<open>internal/format/merkle.go\<close>: the level-by-level RFC 6962 root over record hashes and the
  streaming accumulator. Both are compared with the recursive tree of RFC 6962, \<open>mth\<close>, which
  splits a list at the largest power of two below its length.
\<close>

section \<open>Leaf and node hashes, the level-by-level root\<close>

definition leafHash :: "bytes \<Rightarrow> bytes" where
  "leafHash data = sha384 (0x00 # data)"

definition nodeHash :: "bytes \<Rightarrow> bytes \<Rightarrow> bytes" where
  "nodeHash left right = sha384 (0x01 # left @ right)"

fun merkle_level :: "bytes list \<Rightarrow> bytes list" where
  "merkle_level [] = []"
| "merkle_level [x] = [x]"
| "merkle_level (x # y # r) = nodeHash x y # merkle_level r"

lemma length_merkle_level [simp]: "length (merkle_level xs) = (length xs + 1) div 2"
  by (induction xs rule: merkle_level.induct) auto

function merkle_levels :: "bytes list \<Rightarrow> bytes list" where
  "merkle_levels level = (if length level > 1 then merkle_levels (merkle_level level) else level)"
  by pat_completeness auto
termination
  by (relation "measure length") auto

declare merkle_levels.simps [simp del]

definition MerkleRoot :: "bytes list \<Rightarrow> bytes" where
  "MerkleRoot recordHashes =
     (if recordHashes = [] then sha384 []
      else merkle_levels (map leafHash recordHashes) ! 0)"

section \<open>The streaming accumulator\<close>

record merkle_accumulator =
  subtrees :: "bytes list"
  heights :: "nat list"
  acc_n :: "64 word"

definition merkle_empty :: merkle_accumulator where
  "merkle_empty = \<lparr>subtrees = [], heights = [], acc_n = 0\<rparr>"

function merkle_carry :: "bytes list \<Rightarrow> nat list \<Rightarrow> bytes \<Rightarrow> nat \<Rightarrow> bytes list \<times> nat list" where
  "merkle_carry sub hs node height =
     (if hs \<noteq> [] \<and> last hs = height
      then merkle_carry (butlast sub) (butlast hs) (nodeHash (last sub) node) (height + 1)
      else (sub @ [node], hs @ [height]))"
  by pat_completeness auto
termination
  by (relation "measure (\<lambda>(sub, hs, node, height). length hs)") auto

declare merkle_carry.simps [simp del]

definition merkle_push :: "merkle_accumulator \<Rightarrow> bytes \<Rightarrow> merkle_accumulator" where
  "merkle_push m recordHash =
     (case merkle_carry (subtrees m) (heights m) (leafHash recordHash) 0 of
        (sub, hs) \<Rightarrow> \<lparr>subtrees = sub, heights = hs, acc_n = acc_n m + 1\<rparr>)"

definition merkle_count :: "merkle_accumulator \<Rightarrow> 64 word" where
  "merkle_count m = acc_n m"

definition merkle_acc_root :: "merkle_accumulator \<Rightarrow> bytes" where
  "merkle_acc_root m =
     (if acc_n m = 0 then sha384 []
      else foldr nodeHash (butlast (subtrees m)) (last (subtrees m)))"

section \<open>The tree of RFC 6962\<close>

text \<open>\<open>split_point n\<close> is the largest power of two below \<open>n\<close>, for \<open>n\<close> of at least two.\<close>

function split_from :: "nat \<Rightarrow> nat \<Rightarrow> nat" where
  "split_from k n = (if 0 < k \<and> 2 * k < n then split_from (2 * k) n else k)"
  by pat_completeness auto
termination
  by (relation "measure (\<lambda>(k, n). n - k)") auto

declare split_from.simps [simp del]

definition split_point :: "nat \<Rightarrow> nat" where
  "split_point n = split_from 1 n"

lemma split_from_props:
  assumes "0 < k" "k < n" "\<exists>i. k = 2 ^ i"
  shows "split_from k n < n \<and> n \<le> 2 * split_from k n \<and> (\<exists>i. split_from k n = 2 ^ i)"
  using assms
proof (induction k n rule: split_from.induct)
  case (1 k n)
  obtain i where i: "k = 2 ^ i" using 1 by blast
  show ?case
  proof (cases "2 * k < n")
    case True
    have "\<exists>i. 2 * k = 2 ^ i" using i by (intro exI [of _ "Suc i"]) simp
    with 1 True show ?thesis by (simp add: split_from.simps [of k n])
  next
    case False
    with 1 show ?thesis by (auto simp: split_from.simps [of k n])
  qed
qed

lemma split_point_props:
  assumes "2 \<le> n"
  shows "0 < split_point n" "split_point n < n" "n \<le> 2 * split_point n" "\<exists>i. split_point n = 2 ^ i"
proof -
  have "\<exists>i. (1::nat) = 2 ^ i" by (intro exI [of _ 0]) simp
  with assms split_from_props [of 1 n]
  show "split_point n < n" "n \<le> 2 * split_point n" and p: "\<exists>i. split_point n = 2 ^ i"
    by (auto simp: split_point_def)
  from p show "0 < split_point n" by auto
qed

lemma split_point_unique:
  assumes "(2::nat) ^ i < n" "n \<le> 2 * 2 ^ i"
  shows "split_point n = 2 ^ i"
proof -
  have "2 \<le> n" using assms(1) by (metis One_nat_def Suc_leI less_le_trans one_le_numeral
      one_le_power not_less_eq_eq numeral_2_eq_2 order_refl)
  then obtain j where j: "split_point n = 2 ^ j" and "2 ^ j < n" and "n \<le> 2 * 2 ^ j"
    using split_point_props by metis
  then have "(2::nat) ^ i < 2 ^ Suc j" "(2::nat) ^ j < 2 ^ Suc i"
    using assms by auto
  then have "i < Suc j" "j < Suc i"
    by (metis power_less_imp_less_exp one_less_numeral_iff semiring_norm(76))+
  then show ?thesis using j by simp
qed

function mth :: "bytes list \<Rightarrow> bytes" where
  "mth xs =
     (if length xs < 2 then xs ! 0
      else nodeHash (mth (take (split_point (length xs)) xs)) (mth (drop (split_point (length xs)) xs)))"
  by pat_completeness auto
termination
proof (relation "measure length", simp)
  fix xs :: "bytes list"
  assume "\<not> length xs < 2"
  then have "0 < split_point (length xs)" "split_point (length xs) < length xs"
    using split_point_props by (simp_all add: not_less)
  then show "(take (split_point (length xs)) xs, xs) \<in> measure length"
    and "(drop (split_point (length xs)) xs, xs) \<in> measure length"
    by simp_all
qed

declare mth.simps [simp del]

lemma mth_single [simp]: "mth [x] = x"
  by (simp add: mth.simps)

lemma mth_append:
  assumes "length xs = 2 ^ i" "0 < length ys" "length ys \<le> 2 ^ i"
  shows "mth (xs @ ys) = nodeHash (mth xs) (mth ys)"
proof -
  have "split_point (length (xs @ ys)) = 2 ^ i"
    by (rule split_point_unique) (use assms in auto)
  moreover have "\<not> length (xs @ ys) < 2"
  proof -
    have "0 < length xs" using assms(1) by simp
    with assms(2) show ?thesis by (cases xs; cases ys) simp_all
  qed
  ultimately show ?thesis
    using assms(1) by (simp add: mth.simps [of "xs @ ys"])
qed

section \<open>The level-by-level root is the tree of RFC 6962\<close>

lemma merkle_level_append: "even (length xs) \<Longrightarrow> merkle_level (xs @ ys) = merkle_level xs @ merkle_level ys"
  by (induction xs rule: merkle_level.induct) auto

lemma mth_merkle_level: "2 \<le> length xs \<Longrightarrow> mth (merkle_level xs) = mth xs"
proof (induction xs rule: length_induct)
  case (1 xs)
  let ?n = "length xs" and ?k = "split_point (length xs)"
  obtain i where i: "?k = 2 ^ i" and k: "?k < ?n" "?n \<le> 2 * ?k"
    using split_point_props [OF 1(2)] by metis
  define l r where "l = take ?k xs" and "r = drop ?k xs"
  have xs: "xs = l @ r" by (simp add: l_def r_def)
  have ll: "length l = 2 ^ i" and lr: "0 < length r" "length r \<le> 2 ^ i"
    using k i by (auto simp: l_def r_def)
  have split: "mth xs = nodeHash (mth l) (mth r)"
    unfolding xs using ll lr by (rule mth_append)
  show ?case
  proof (cases i)
    case 0
    with ll lr obtain a b where "l = [a]" "r = [b]"
      by (metis One_nat_def le_antisym length_0_conv length_Suc_conv length_greater_0_conv
          Suc_leI power_0)
    then show ?thesis using split xs by simp
  next
    case (Suc j)
    have IHr: "mth (merkle_level r) = mth r"
    proof (cases "2 \<le> length r")
      case True
      with 1(1) k i show ?thesis by (simp add: r_def)
    next
      case False
      with lr obtain b where "r = [b]" by (cases r) (auto simp: not_le)
      then show ?thesis by simp
    qed
    have IHl: "mth (merkle_level l) = mth l"
      using 1(1) k ll Suc by (simp add: l_def)
    have "merkle_level xs = merkle_level l @ merkle_level r"
      unfolding xs by (rule merkle_level_append) (simp add: ll Suc)
    moreover have "mth (merkle_level l @ merkle_level r) = nodeHash (mth (merkle_level l)) (mth (merkle_level r))"
      by (rule mth_append [where i = j]) (use ll lr Suc in auto)
    ultimately show ?thesis using split IHl IHr by simp
  qed
qed

lemma merkle_levels_mth: "xs \<noteq> [] \<Longrightarrow> merkle_levels xs = [mth xs]"
proof (induction xs rule: merkle_levels.induct)
  case (1 xs)
  show ?case
  proof (cases "1 < length xs")
    case True
    moreover have "merkle_level xs \<noteq> []"
      using True length_merkle_level [of xs] by (cases xs rule: merkle_level.cases) auto
    ultimately show ?thesis
      using 1 mth_merkle_level [of xs] by (simp add: merkle_levels.simps [of xs])
  next
    case False
    with 1 obtain a where "xs = [a]" by (cases xs) auto
    then show ?thesis by (simp add: merkle_levels.simps)
  qed
qed

lemma MerkleRoot_mth: "hs \<noteq> [] \<Longrightarrow> MerkleRoot hs = mth (map leafHash hs)"
  by (simp add: MerkleRoot_def merkle_levels_mth)

section \<open>The accumulator computes the same root\<close>

definition frontier_ok :: "bytes list \<Rightarrow> nat list \<Rightarrow> bytes list list \<Rightarrow> bool" where
  "frontier_ok sub hs bs \<longleftrightarrow>
     sub = map mth bs \<and> map length bs = map (\<lambda>h. 2 ^ h) hs \<and> sorted_wrt (>) hs"

lemma frontier_ok_length: "frontier_ok sub hs bs \<Longrightarrow> length sub = length bs \<and> length hs = length bs"
  by (auto simp: frontier_ok_def dest: map_eq_imp_length_eq)

lemma frontier_ok_snoc:
  "frontier_ok (sub @ [s]) (hs @ [h]) (bs @ [b])
   \<longleftrightarrow> frontier_ok sub hs bs \<and> s = mth b \<and> length b = 2 ^ h \<and> (\<forall>h' \<in> set hs. h < h')"
  by (auto simp: frontier_ok_def sorted_wrt_append)

lemma merkle_carry_frontier:
  assumes "frontier_ok sub hs bs" "length b = 2 ^ height" "node = mth b" "\<forall>h \<in> set hs. height \<le> h"
    and "merkle_carry sub hs node height = (sub', hs')"
  shows "\<exists>bs'. frontier_ok sub' hs' bs' \<and> concat bs' = concat bs @ b \<and> bs' \<noteq> []"
  using assms
proof (induction sub hs node height arbitrary: bs b sub' hs' rule: merkle_carry.induct)
  case (1 sub hs node height)
  show ?case
  proof (cases "hs \<noteq> [] \<and> last hs = height")
    case True
    with frontier_ok_length [OF 1(2)] have "sub \<noteq> []" "bs \<noteq> []" by auto
    then obtain sub1 s bs1 c hs1 where eqs: "sub = sub1 @ [s]" "bs = bs1 @ [c]" "hs = hs1 @ [height]"
      using True by (metis append_butlast_last_id)
    have f: "frontier_ok sub1 hs1 bs1" "s = mth c" "length c = 2 ^ height" "\<forall>h \<in> set hs1. height < h"
      using 1(2) unfolding eqs frontier_ok_snoc by auto
    have "nodeHash s node = mth (c @ b)"
      using mth_append [of c height b] f 1(3,4) by simp
    then have "\<exists>bs'. frontier_ok sub' hs' bs' \<and> concat bs' = concat bs1 @ (c @ b) \<and> bs' \<noteq> []"
      using 1(1) [of bs1 "c @ b" sub' hs'] True f 1(3) eqs 1(6) [unfolded merkle_carry.simps [of sub hs]]
      by (simp add: Suc_le_eq)
    then show ?thesis by (simp add: eqs)
  next
    case False
    then have res: "sub' = sub @ [node]" "hs' = hs @ [height]"
      using 1(6) by (auto simp: merkle_carry.simps [of sub hs])
    have "\<forall>h \<in> set hs. height < h"
    proof (cases hs rule: rev_cases)
      case (snoc hs1 h)
      with 1(2) have "\<forall>h' \<in> set hs1. h < h'" by (auto simp: frontier_ok_def sorted_wrt_append)
      moreover have "height < h" using snoc False 1(5) by fastforce
      ultimately show ?thesis using snoc by fastforce
    qed simp
    then have "frontier_ok sub' hs' (bs @ [b])"
      using 1(2,3,4) unfolding res frontier_ok_snoc by simp
    then show ?thesis by (intro exI [of _ "bs @ [b]"]) simp
  qed
qed

lemma sum_powers_less:
  "sorted_wrt (>) hs \<Longrightarrow> \<forall>h' \<in> set hs. h' < h \<Longrightarrow> (\<Sum>h\<leftarrow>hs. 2 ^ h) < (2 :: nat) ^ h"
proof (induction hs arbitrary: h)
  case (Cons a hs)
  then have "(\<Sum>h\<leftarrow>hs. 2 ^ h) < (2 :: nat) ^ a" by simp
  moreover have "(2 :: nat) ^ Suc a \<le> 2 ^ h"
    using Cons.prems by (intro power_increasing) auto
  ultimately show ?case by simp
qed simp

lemma frontier_fold:
  "frontier_ok sub hs bs \<Longrightarrow> bs \<noteq> [] \<Longrightarrow> foldr nodeHash (butlast sub) (last sub) = mth (concat bs)"
proof (induction bs arbitrary: sub hs)
  case (Cons b bs)
  obtain s sub1 h hs1 where eqs: "sub = s # sub1" "hs = h # hs1"
    using frontier_ok_length [OF Cons(2)] by (cases sub; cases hs) auto
  have f: "frontier_ok sub1 hs1 bs" "s = mth b" "length b = 2 ^ h" "\<forall>h' \<in> set hs1. h' < h"
    using Cons(2) by (auto simp: eqs frontier_ok_def)
  show ?case
  proof (cases "bs = []")
    case True
    with f(1) have "sub1 = []" by (simp add: frontier_ok_def)
    with True f show ?thesis by (simp add: eqs)
  next
    case False
    then have "sub1 \<noteq> []" using f(1) by (simp add: frontier_ok_def)
    have "length (concat bs) = (\<Sum>h\<leftarrow>hs1. 2 ^ h)"
      using f(1) by (simp add: frontier_ok_def length_concat)
    then have small: "length (concat bs) \<le> 2 ^ h"
      using sum_powers_less [of hs1 h] f(1,4) by (simp add: frontier_ok_def)
    obtain c bs1 h1 where "bs = c # bs1" "length c = 2 ^ h1"
      using False f(1) by (cases bs; cases hs1) (auto simp: frontier_ok_def)
    then have "0 < length (concat bs)" by simp
    then have "mth (b @ concat bs) = nodeHash (mth b) (mth (concat bs))"
      using mth_append f(3) small by blast
    then show ?thesis
      using Cons.IH [OF f(1) False] \<open>sub1 \<noteq> []\<close> by (simp add: eqs f(2))
  qed
qed simp

definition acc_holds :: "merkle_accumulator \<Rightarrow> bytes list \<Rightarrow> bool" where
  "acc_holds m hs \<longleftrightarrow>
     (\<exists>bs. frontier_ok (subtrees m) (heights m) bs \<and> concat bs = map leafHash hs)
     \<and> acc_n m = of_nat (length hs)"

lemma acc_holds_empty: "acc_holds merkle_empty []"
  by (auto simp: acc_holds_def merkle_empty_def frontier_ok_def intro: exI [of _ "[]"])

lemma acc_holds_push: "acc_holds m hs \<Longrightarrow> acc_holds (merkle_push m h) (hs @ [h])"
proof -
  assume "acc_holds m hs"
  then obtain bs where bs: "frontier_ok (subtrees m) (heights m) bs" "concat bs = map leafHash hs"
    and n: "acc_n m = of_nat (length hs)"
    by (auto simp: acc_holds_def)
  obtain sub' hs' where c: "merkle_carry (subtrees m) (heights m) (leafHash h) 0 = (sub', hs')"
    by fastforce
  from merkle_carry_frontier [OF bs(1) _ _ _ c, of "[leafHash h]"]
  show ?thesis using bs(2) n by (auto simp: acc_holds_def merkle_push_def c)
qed

lemma acc_holds_fold: "acc_holds m hs \<Longrightarrow> acc_holds (foldl merkle_push m gs) (hs @ gs)"
proof (induction gs arbitrary: m hs)
  case (Cons g gs)
  from Cons.IH [OF acc_holds_push [OF Cons.prems, of g]] show ?case by simp
qed simp

lemma acc_holds_root:
  assumes "acc_holds m hs" "length hs < 2 ^ 64"
  shows "merkle_acc_root m = MerkleRoot hs"
proof (cases "hs = []")
  case True
  with assms show ?thesis by (simp add: acc_holds_def merkle_acc_root_def MerkleRoot_def)
next
  case False
  obtain bs where bs: "frontier_ok (subtrees m) (heights m) bs" "concat bs = map leafHash hs"
    and n: "acc_n m = of_nat (length hs)"
    using assms(1) by (auto simp: acc_holds_def)
  have "unat (acc_n m) = length hs"
    using assms(2) by (simp add: n unat_of_nat)
  then have "acc_n m \<noteq> 0" using False by auto
  moreover have "bs \<noteq> []" using bs(2) False by auto
  ultimately show ?thesis
    using frontier_fold [OF bs(1)] bs(2) False by (simp add: merkle_acc_root_def MerkleRoot_mth)
qed

text \<open>
  The contract of a streaming commitment: pushing a list of leaves and asking for the root gives
  the batch root of that list. The streaming reader relies on it to verify in one pass what the
  load-all reader verifies over the whole record list.
\<close>

locale streaming_commitment =
  fixes empty :: "'s" and push :: "'s \<Rightarrow> bytes \<Rightarrow> 's" and root :: "'s \<Rightarrow> bytes"
    and batch :: "bytes list \<Rightarrow> bytes" and cap :: nat
  assumes root_fold: "length hs < cap \<Longrightarrow> root (foldl push empty hs) = batch hs"
begin

lemma root_resumed:
  "length hs + length gs < cap \<Longrightarrow> root (foldl push (foldl push empty hs) gs) = batch (hs @ gs)"
  using root_fold [of "hs @ gs"] by simp

lemma root_only_list_matters:
  "length hs < cap \<Longrightarrow> foldl push empty hs = foldl push empty gs \<Longrightarrow> length gs < cap \<Longrightarrow> batch hs = batch gs"
  using root_fold by metis

end

interpretation merkle: streaming_commitment merkle_empty merkle_push merkle_acc_root MerkleRoot "2 ^ 64"
proof
  fix hs :: "bytes list"
  assume "length hs < 2 ^ 64"
  then show "merkle_acc_root (foldl merkle_push merkle_empty hs) = MerkleRoot hs"
    using acc_holds_root acc_holds_fold [OF acc_holds_empty, of hs] by simp
qed

text \<open>
  C27. Streaming and batch roots agree: pushing any list of fewer than \<open>2^64\<close> record hashes into the
  empty accumulator one by one and asking for the root gives exactly what \<open>MerkleRoot\<close> returns over
  the whole list, at every list length, although the accumulator keeps only one subtree per binary
  digit of the count.
\<close>
theorem accumulator_root_eq_MerkleRoot:
  assumes "length hs < 2 ^ 64"
  shows "merkle_acc_root (foldl merkle_push merkle_empty hs) = MerkleRoot hs"
  using assms by (rule merkle.root_fold)

theorem accumulator_root_eq_MerkleRoot_witness:
  "merkle_acc_root (foldl merkle_push merkle_empty [[1], [2], [3]]) = MerkleRoot [[1], [2], [3]]"
  by (rule accumulator_root_eq_MerkleRoot) simp

text \<open>
  C28. The level-by-level construction of \<open>MerkleRoot\<close>, which promotes an odd last node unchanged, is
  the tree RFC 6962 defines by recursion: the root of a list of two or more leaves is the node over
  the roots of its first \<open>k\<close> leaves and of the rest, for \<open>k\<close> the largest power of two below the length.
\<close>
theorem MerkleRoot_is_RFC6962:
  "MerkleRoot hs = (if hs = [] then sha384 [] else mth (map leafHash hs))"
  using MerkleRoot_mth [of hs] by (simp add: MerkleRoot_def)

end
