(* ===== verification/Shamir.thy ===== *)
theory Shamir
  imports GoStrings GoCrypto
begin

text \<open>
  \<open>internal/custody/shamir.go\<close>: arithmetic in GF(256) by exponent and logarithm tables, the Lagrange
  recombination of Shamir shares and the public checksum. The tables are built by the code's own
  loop. The lemmas make the byte operations a field (the type \<open>gf\<close>, an instance of the library's
  class \<open>field\<close>), and interpolation is proved in an arbitrary field.
\<close>

section \<open>The code\<close>

definition SecretBytes :: nat where "SecretBytes = 32"
definition ShareBytes :: nat where "ShareBytes = 1 + SecretBytes"
definition ChecksumBytes :: nat where "ChecksumBytes = 4"
definition checksumDomain :: string where
  "checksumDomain = ''downpipes:break-glass:wrapping-key-checksum:v1''"

datatype shamir_error =
    NeedTwoShares
  | ShareLength nat nat
  | ZeroIndex nat
  | SameIndex byte
  | KeyLength nat

definition gfXtime :: "byte \<Rightarrow> int" where
  "gfXtime a =
     (let shifted = push_bit 1 (uint a);
          shifted' = (if and shifted 0x100 \<noteq> 0 then xor shifted 0x11b else shifted)
      in and shifted' 0xff)"

text \<open>The two loops of \<open>init\<close>: the state is \<open>x\<close> and the tables.\<close>

definition gf_table_step :: "int \<times> byte list \<times> byte list \<Rightarrow> nat \<Rightarrow> int \<times> byte list \<times> byte list" where
  "gf_table_step st i =
     (case st of (x, e, l) \<Rightarrow>
        (and (xor x (gfXtime (of_int x))) 0xff, e[i := of_int x], l[nat x := of_nat i]))"

definition gf_tables :: "byte list \<times> byte list" where
  "gf_tables =
     (case foldl gf_table_step (1, replicate 512 0, replicate 256 0) [0..<255] of
        (x, e, l) \<Rightarrow> (foldl (\<lambda>e i. e[i := e ! (i - 255)]) e [255..<512], l))"

definition gfExp :: "byte list" where "gfExp = fst gf_tables"
definition gfLog :: "byte list" where "gfLog = snd gf_tables"

definition gfMul :: "byte \<Rightarrow> byte \<Rightarrow> byte" where
  "gfMul a b = (if a = 0 \<or> b = 0 then 0 else gfExp ! (unat (gfLog ! unat a) + unat (gfLog ! unat b)))"

definition gfInv :: "byte \<Rightarrow> byte" where
  "gfInv a = gfExp ! (255 - unat (gfLog ! unat a))"

fun share_indices :: "nat \<Rightarrow> byte list \<Rightarrow> bytes list \<Rightarrow> shamir_error + byte list" where
  "share_indices i seen [] = Inr []"
| "share_indices i seen (sh # r) =
     (if length sh \<noteq> ShareBytes then Inl (ShareLength (i + 1) (length sh))
      else (let x = sh ! 0
            in if x = 0 then Inl (ZeroIndex (i + 1))
               else if x \<in> set seen then Inl (SameIndex x)
               else rbind (share_indices (i + 1) (x # seen) r) (\<lambda>xs. Inr (x # xs))))"

definition lagrange_weight :: "byte list \<Rightarrow> nat \<Rightarrow> byte" where
  "lagrange_weight xs i =
     (case foldl (\<lambda>(num, den) j. if j = i then (num, den)
                    else (gfMul num (xs ! j), gfMul den (xor (xs ! i) (xs ! j)))) (1, 1) [0..<length xs] of
        (num, den) \<Rightarrow> gfMul num (gfInv den))"

definition combine_byte :: "bytes list \<Rightarrow> byte list \<Rightarrow> nat \<Rightarrow> byte" where
  "combine_byte shares weights b =
     foldl (\<lambda>acc (sh, w). xor acc (gfMul (sh ! (1 + b)) w)) 0 (zip shares weights)"

definition Combine :: "bytes list \<Rightarrow> shamir_error + bytes" where
  "Combine shares =
     (if length shares < 2 then Inl NeedTwoShares
      else rbind (share_indices 0 [] shares) (\<lambda>xs.
        let weights = map (lagrange_weight xs) [0..<length xs]
        in Inr (map (combine_byte shares weights) [0..<SecretBytes])))"

definition Checksum :: "bytes \<Rightarrow> shamir_error + bytes" where
  "Checksum wrappingKey =
     (if length wrappingKey \<noteq> SecretBytes then Inl (KeyLength (length wrappingKey))
      else Inr (take ChecksumBytes (sha256 (bytes_of checksumDomain @ wrappingKey))))"

definition VerifyChecksum :: "bytes \<Rightarrow> bytes \<Rightarrow> bool" where
  "VerifyChecksum wrappingKey expected =
     (if length expected \<noteq> ChecksumBytes then False
      else case Checksum wrappingKey of Inl _ \<Rightarrow> False | Inr got \<Rightarrow> got = expected)"

definition Wipe :: "bytes \<Rightarrow> bytes" where
  "Wipe b = map (\<lambda>_. 0) b"

section \<open>The tables\<close>

text \<open>Multiplication by the generator 3, and its powers.\<close>

definition gf_step :: "byte \<Rightarrow> byte" where
  "gf_step a = xor a (xor (push_bit 1 a) (if bit a 7 then 0x1b else 0))"

definition gf_pow :: "nat \<Rightarrow> byte" where
  "gf_pow n = (gf_step ^^ n) 1"

lemma all_bytes:
  assumes "\<forall>n \<in> set [0..<256]. P (of_nat n :: byte)"
  shows "P a"
proof -
  have "unat a < 256" using unsigned_less [of a] by simp
  then have "P (of_nat (unat a))" using assms by (metis atLeastLessThan_iff le0 set_upt)
  then show ?thesis by simp
qed

lemma gf_step_code: "and (xor (uint a) (gfXtime a)) 0xff = uint (gf_step a)"
proof -
  have "\<forall>n \<in> set [0..<256]. and (xor (uint (of_nat n :: byte)) (gfXtime (of_nat n))) 0xff = uint (gf_step (of_nat n))"
    by code_simp
  then show ?thesis by (rule all_bytes)
qed

lemma gf_step_xor: "gf_step (xor a b) = xor (gf_step a) (gf_step b)"
  by (rule bit_word_eqI) (auto simp: gf_step_def bit_simps)

lemma gf_step_0 [simp]: "gf_step 0 = 0"
  by (simp add: gf_step_def)

text \<open>The same step on integers, which the simplifier evaluates.\<close>

definition int_step :: "int \<Rightarrow> int" where
  "int_step x = and (xor x (let s = push_bit 1 x in and (if and s 0x100 \<noteq> 0 then xor s 0x11b else s) 0xff)) 0xff"

fun int_iter :: "nat \<Rightarrow> int \<Rightarrow> int" where
  "int_iter 0 x = x"
| "int_iter (Suc n) x = int_iter n (int_step x)"

lemma int_step_gf: "int_step (uint a) = uint (gf_step a)"
  using gf_step_code [of a] by (simp add: int_step_def gfXtime_def)

lemma int_iter_gf: "int_iter n (uint a) = uint ((gf_step ^^ n) a)"
  by (induction n arbitrary: a) (simp_all add: int_step_gf funpow_swap1)

lemma gf_pow_int: "gf_pow n = of_int (int_iter n 1)"
  using int_iter_gf [of n 1] by (simp add: gf_pow_def)

lemma gf_pow_values: "gf_pow 255 = 1" "gf_pow 85 = 189" "gf_pow 51 = 12" "gf_pow 15 = 53"
  by (simp_all add: gf_pow_int eval_nat_numeral int_step_def)

lemma gf_pow_not_1: "gf_pow 85 \<noteq> 1" "gf_pow 51 \<noteq> 1" "gf_pow 15 \<noteq> 1"
  by (simp_all add: gf_pow_values)

lemma gf_step_kernel: "gf_step a = 0 \<longleftrightarrow> a = 0"
proof -
  have "\<forall>n \<in> set [0..<256]. gf_step (of_nat n :: byte) = 0 \<longleftrightarrow> (of_nat n :: byte) = 0"
    by code_simp
  then show ?thesis by (rule all_bytes)
qed

lemma gf_step_inject: "gf_step a = gf_step b \<longleftrightarrow> a = b"
proof
  assume "gf_step a = gf_step b"
  then have "gf_step (xor a b) = 0" by (simp add: gf_step_xor)
  then have "xor a b = 0" by (simp only: gf_step_kernel)
  moreover have "xor (xor a b) b = a" by (simp add: xor.assoc)
  ultimately show "a = b" by simp
qed simp

lemma gf_funpow_inject: "(gf_step ^^ n) a = (gf_step ^^ n) b \<longleftrightarrow> a = b"
  by (induction n) (simp_all add: gf_step_inject)

lemma gf_funpow_xor: "(gf_step ^^ n) (xor a b) = xor ((gf_step ^^ n) a) ((gf_step ^^ n) b)"
  by (induction n) (simp_all add: gf_step_xor)

lemma gf_funpow_0 [simp]: "(gf_step ^^ n) 0 = 0"
  by (induction n) simp_all

lemma gf_pow_add: "gf_pow (m + n) = (gf_step ^^ m) (gf_pow n)"
  by (simp add: gf_pow_def funpow_add)

lemma gf_pow_0 [simp]: "gf_pow 0 = 1"
  by (simp add: gf_pow_def)

lemma gf_pow_nonzero [simp]: "gf_pow n \<noteq> 0"
  by (metis gf_pow_def gf_funpow_0 gf_funpow_inject one_neq_zero)

lemma gf_pow_mult: "gf_pow d = 1 \<Longrightarrow> gf_pow (d * k) = 1"
  by (induction k) (simp_all add: gf_pow_add, metis gf_pow_def)

lemma gf_pow_mod:
  assumes "gf_pow d = 1" and "0 < d"
  shows "gf_pow (n mod d) = gf_pow n"
proof -
  have "gf_pow n = gf_pow (n mod d + d * (n div d))" by simp
  also have "\<dots> = gf_pow (n mod d)"
    unfolding gf_pow_add gf_pow_mult [OF assms(1)] by (simp add: gf_pow_def)
  finally show ?thesis by simp
qed

lemma gf_pow_1_iff: "gf_pow n = 1 \<longleftrightarrow> 255 dvd n"
proof
  assume n: "gf_pow n = 1"
  define d where "d = (LEAST d. 0 < d \<and> gf_pow d = 1)"
  have d: "0 < d" "gf_pow d = 1"
    using LeastI [of "\<lambda>d. 0 < d \<and> gf_pow d = 1" 255] gf_pow_values(1) by (simp_all add: d_def)
  have least: "m = 0" if "gf_pow m = 1" "m < d" for m
    using that not_less_Least [of m "\<lambda>d. 0 < d \<and> gf_pow d = 1"] by (auto simp: d_def)
  have dvd: "d dvd m" if "gf_pow m = 1" for m
    using least [of "m mod d"] gf_pow_mod [OF d(2,1), of m] that d(1) by auto
  have "d dvd 255" using dvd gf_pow_values(1) by blast
  moreover have "\<not> d dvd 85" "\<not> d dvd 51" "\<not> d dvd 15"
    using gf_pow_mult [OF d(2)] gf_pow_not_1 by (metis dvdE)+
  moreover have "e dvd 85 \<or> e dvd 51 \<or> e dvd 15 \<or> e = 255" if "e dvd 255" for e :: nat
  proof -
    have "e \<in> set (filter (\<lambda>e. 255 mod e = 0) [1..<256])"
      using that dvd_imp_le [OF that] by (cases "e = 0") auto
    also have "filter (\<lambda>e. 255 mod e = 0) [1..<256] = [1, 3, 5, 15, 17, 51, 85, 255 :: nat]"
      by code_simp
    finally show ?thesis by auto
  qed
  ultimately have "d = 255" by blast
  then show "255 dvd n" using dvd n by simp
next
  assume "255 dvd n"
  then show "gf_pow n = 1" using gf_pow_mult [OF gf_pow_values(1)] by (auto elim: dvdE)
qed

lemma gf_pow_eq_iff: "i \<le> j \<Longrightarrow> gf_pow i = gf_pow j \<longleftrightarrow> 255 dvd (j - i)"
  by (metis gf_funpow_inject gf_pow_1_iff gf_pow_add gf_pow_def le_add_diff_inverse)

lemma gf_pow_inj: "inj_on gf_pow {..<255}"
proof (rule inj_onI)
  have aux: "i = j" if "gf_pow i = gf_pow j" "j < 255" "i \<le> j" for i j
    using that gf_pow_eq_iff [of i j] nat_dvd_not_less [of "j - i" 255] by (cases "i = j") auto
  fix i j
  assume "i \<in> {..<255 :: nat}" "j \<in> {..<255}" "gf_pow i = gf_pow j"
  then show "i = j" using aux [of i j] aux [of j i] by (cases "i \<le> j") auto
qed

lemma gf_pow_surj: "gf_pow ` {..<255} = UNIV - {0}"
proof (rule card_subset_eq)
  show "card (gf_pow ` {..<255}) = card (UNIV - {0 :: byte})"
    by (simp add: card_image gf_pow_inj card_Diff_singleton card_word)
qed auto

lemma gf_pow_ex: "a \<noteq> 0 \<Longrightarrow> \<exists>i < 255. gf_pow i = a"
proof -
  assume "a \<noteq> 0"
  then have "a \<in> gf_pow ` {..<255}" unfolding gf_pow_surj by simp
  then show ?thesis by (auto simp only: image_iff lessThan_iff)
qed

lemma gf_table_step_pow:
  "gf_table_step (uint (gf_pow i), e, l) i =
     (uint (gf_pow (Suc i)), e[i := gf_pow i], l[unat (gf_pow i) := of_nat i])"
proof -
  have "gf_pow (Suc i) = gf_step (gf_pow i)" by (simp add: gf_pow_def)
  then show ?thesis by (simp add: gf_table_step_def gf_step_code)
qed

lemma gf_fill_tables:
  "n \<le> 255 \<Longrightarrow> \<exists>e l. foldl gf_table_step (1, replicate 512 0, replicate 256 0) [0..<n] = (uint (gf_pow n), e, l)
     \<and> length e = 512 \<and> length l = 256
     \<and> (\<forall>i < n. e ! i = gf_pow i \<and> l ! unat (gf_pow i) = of_nat i)"
proof (induction n)
  case (Suc n)
  then obtain e l where el: "foldl gf_table_step (1, replicate 512 0, replicate 256 0) [0..<n] = (uint (gf_pow n), e, l)"
    "length e = 512" "length l = 256" "\<forall>i < n. e ! i = gf_pow i \<and> l ! unat (gf_pow i) = of_nat i"
    by auto
  have "unat (gf_pow i) < 256" for i using unsigned_less [of "gf_pow i"] by simp
  moreover have "gf_pow i \<noteq> gf_pow n" "gf_pow n \<noteq> gf_pow i" if "i < n" for i
    using inj_on_eq_iff [OF gf_pow_inj, of i n] Suc.prems that by auto
  ultimately have "\<forall>i < Suc n. (e[n := gf_pow n]) ! i = gf_pow i
      \<and> (l[unat (gf_pow n) := of_nat n]) ! unat (gf_pow i) = of_nat i"
    using el Suc.prems by (auto simp: less_Suc_eq nth_list_update simp flip: word_unat_eq_iff)
  then show ?case using el by (simp add: gf_table_step_pow)
qed simp

lemma gf_wrap_table:
  assumes "length e = 512" "\<forall>i < 255. e ! i = gf_pow i" "n \<le> 512"
  shows "length (foldl (\<lambda>e i. e[i := e ! (i - 255)]) e [255..<n]) = 512
    \<and> (\<forall>i < max 255 n. foldl (\<lambda>e i. e[i := e ! (i - 255)]) e [255..<n] ! i = gf_pow i)"
  using assms(3)
proof (induction n)
  case (Suc n)
  show ?case
  proof (cases "n < 255")
    case True
    then show ?thesis using assms by (simp add: max_def)
  next
    case False
    have "gf_pow n = gf_pow (n - 255)" using False gf_pow_eq_iff [of "n - 255" n] by simp
    then show ?thesis using Suc False by (auto simp: nth_list_update less_Suc_eq max_def)
  qed
qed (use assms in simp)

lemma gf_tables_pow:
  "i < 512 \<Longrightarrow> gfExp ! i = gf_pow i" "j < 255 \<Longrightarrow> unat (gfLog ! unat (gf_pow j)) = j"
proof -
  obtain e l where el: "foldl gf_table_step (1, replicate 512 0, replicate 256 0) [0..<255] = (uint (gf_pow 255), e, l)"
    "length e = 512" "\<forall>i < 255. e ! i = gf_pow i \<and> l ! unat (gf_pow i) = of_nat i"
    using gf_fill_tables [of 255] by auto
  let ?e = "foldl (\<lambda>e i. e[i := e ! (i - 255)]) e [255..<512]"
  have e: "gfExp = ?e" unfolding gfExp_def gf_tables_def el(1) prod.case fst_conv ..
  have l: "gfLog = l" unfolding gfLog_def gf_tables_def el(1) prod.case snd_conv ..
  show "gfExp ! i = gf_pow i" if "i < 512"
  proof -
    have "\<forall>i < 255. e ! i = gf_pow i" using el(3) by blast
    from gf_wrap_table [OF el(2) this le_refl] have "\<forall>i < max 255 512. ?e ! i = gf_pow i" by (rule conjunct2)
    then show ?thesis unfolding e using that by (simp only: less_max_iff_disj) blast
  qed
  show "unat (gfLog ! unat (gf_pow j)) = j" if "j < 255"
    unfolding l using el(3) that by (simp add: unat_of_nat take_bit_eq_mod)
qed

section \<open>The field\<close>

lemma gfMul_pow: "i < 255 \<Longrightarrow> gfMul (gf_pow i) b = (gf_step ^^ i) b"
proof (cases "b = 0")
  case False
  assume i: "i < 255"
  obtain j where j: "j < 255" "gf_pow j = b" using gf_pow_ex [OF False] by blast
  then show ?thesis using i by (auto simp: gfMul_def gf_tables_pow simp flip: gf_pow_add)
qed (simp add: gfMul_def)

lemma gfMul_pow_pow: "i < 255 \<Longrightarrow> j < 255 \<Longrightarrow> gfMul (gf_pow i) (gf_pow j) = gf_pow (i + j)"
  by (simp add: gfMul_pow gf_pow_add)

lemma gfMul_0 [simp]: "gfMul 0 b = 0" "gfMul a 0 = 0"
  by (simp_all add: gfMul_def)

lemma gfMul_commute: "gfMul a b = gfMul b a"
  by (simp add: gfMul_def add.commute)

lemma gfMul_xor_right: "gfMul a (xor b c) = xor (gfMul a b) (gfMul a c)"
proof (cases "a = 0")
  case False
  then obtain i where "i < 255" "gf_pow i = a" using gf_pow_ex by blast
  then show ?thesis using gfMul_pow [of i] by (auto simp: gf_funpow_xor)
qed simp

lemma gfMul_assoc: "gfMul (gfMul a b) c = gfMul a (gfMul b c)"
proof (cases "a = 0 \<or> b = 0")
  case False
  then obtain i j where ij: "i < 255" "gf_pow i = a" "j < 255" "gf_pow j = b" using gf_pow_ex by metis
  let ?k = "(i + j) mod 255"
  have k: "?k < 255" "gf_pow ?k = gf_pow (i + j)" using gf_pow_mod [OF gf_pow_values(1)] by simp_all
  have "(gf_step ^^ ?k) c = (gf_step ^^ (i + j)) c"
  proof (cases "c = 0")
    case False
    then obtain m where m: "gf_pow m = c" using gf_pow_ex by blast
    have "gf_pow (?k + m) = gf_pow (i + j + m)"
      using gf_pow_mod [OF gf_pow_values(1), of "?k + m"] gf_pow_mod [OF gf_pow_values(1), of "i + j + m"]
      by (simp add: mod_add_left_eq)
    then show ?thesis using m by (simp add: gf_pow_add)
  qed simp
  then show ?thesis
    using gfMul_pow [OF k(1), of c] gfMul_pow [OF ij(1)] gfMul_pow [OF ij(3)] ij k(2)
    by (auto simp: gf_pow_add funpow_add)
qed auto

lemma gfMul_1 [simp]: "gfMul 1 a = a"
  using gfMul_pow [of 0 a] by simp

lemma gfInv_left: "a \<noteq> 0 \<Longrightarrow> gfMul (gfInv a) a = 1"
proof -
  assume "a \<noteq> 0"
  then obtain i where i: "i < 255" "gf_pow i = a" using gf_pow_ex by blast
  have inv: "gfInv a = gf_pow (255 - i)" using i by (auto simp: gfInv_def gf_tables_pow)
  show ?thesis
  proof (cases "i = 0")
    case True
    then show ?thesis using i inv gf_pow_values(1) by simp
  next
    case False
    then show ?thesis using i inv gfMul_pow_pow [of "255 - i" i] gf_pow_values(1) by auto
  qed
qed

typedef gf = "UNIV :: byte set" morphisms gf_byte byte_gf ..

setup_lifting type_definition_gf

instantiation gf :: field
begin

lift_definition zero_gf :: gf is 0 .
lift_definition one_gf :: gf is 1 .
lift_definition plus_gf :: "gf \<Rightarrow> gf \<Rightarrow> gf" is xor .
lift_definition minus_gf :: "gf \<Rightarrow> gf \<Rightarrow> gf" is xor .
lift_definition uminus_gf :: "gf \<Rightarrow> gf" is "\<lambda>a. a" .
lift_definition times_gf :: "gf \<Rightarrow> gf \<Rightarrow> gf" is gfMul .
lift_definition inverse_gf :: "gf \<Rightarrow> gf" is "\<lambda>a. if a = 0 then 0 else gfInv a" .
lift_definition divide_gf :: "gf \<Rightarrow> gf \<Rightarrow> gf" is "\<lambda>a b. gfMul a (if b = 0 then 0 else gfInv b)" .

instance
proof
  fix a b c :: gf
  show "a * b * c = a * (b * c)" by transfer (rule gfMul_assoc)
  show "a * b = b * a" by transfer (rule gfMul_commute)
  show "1 * a = a" by transfer simp
  show "a + b + c = a + (b + c)" by transfer (simp add: xor.assoc)
  show "a + b = b + a" by transfer (simp add: xor.commute)
  show "0 + a = a" by transfer simp
  show "- a + a = 0" by transfer simp
  show "a - b = a + - b" by transfer simp
  show "(a + b) * c = a * c + b * c" by transfer (metis gfMul_commute gfMul_xor_right)
  show "(0 :: gf) \<noteq> 1" by transfer simp
  show "a \<noteq> 0 \<Longrightarrow> inverse a * a = 1" by transfer (simp add: gfInv_left)
  show "a div b = a * inverse b" by transfer simp
  show "inverse (0 :: gf) = 0" by transfer simp
qed

end

section \<open>Interpolation in a field\<close>

fun peval :: "'a :: field list \<Rightarrow> 'a \<Rightarrow> 'a" where
  "peval [] x = 0"
| "peval (c # cs) x = c + x * peval cs x"

lemma peval_factor:
  "\<exists>q. length q = length p - 1 \<and> (\<forall>x. peval p x = (x - a) * peval q x + peval p a)"
proof (induction p)
  case (Cons c cs)
  then obtain q where q: "length q = length cs - 1" "\<And>x. peval cs x = (x - a) * peval q x + peval cs a" by blast
  show ?case
  proof (cases "cs = []")
    case False
    have alg: "c + x * ((x - a) * Q + R) = (x - a) * (R + x * Q) + (c + a * R)" for x Q R
      by (simp add: algebra_simps)
    have "peval (c # cs) x = (x - a) * peval (peval cs a # q) x + peval (c # cs) a" for x
    proof -
      have "peval (c # cs) x = c + x * ((x - a) * peval q x + peval cs a)"
        unfolding peval.simps q(2) [of x, symmetric] ..
      then show ?thesis unfolding alg by (simp only: peval.simps)
    qed
    moreover have "length (peval cs a # q) = length (c # cs) - 1" using q(1) False by simp
    ultimately show ?thesis by blast
  qed simp
qed simp

lemma peval_roots:
  "distinct as \<Longrightarrow> \<forall>a \<in> set as. peval p a = 0 \<Longrightarrow> length p \<le> length as \<Longrightarrow> peval p x = 0"
proof (induction as arbitrary: p)
  case (Cons a as)
  obtain q where q: "length q = length p - 1" "\<And>x. peval p x = (x - a) * peval q x"
    using peval_factor [of p a] Cons.prems(2) by auto
  have "\<forall>b \<in> set as. peval q b = 0"
    using Cons.prems(1,2) q(2) by (auto simp: mult_eq_0_iff)
  then have "peval q x = 0" using Cons.IH [of q] Cons.prems q(1) by simp
  then show ?case using q(2) by simp
qed simp

definition polyn :: "nat \<Rightarrow> ('a :: field \<Rightarrow> 'a) \<Rightarrow> bool" where
  "polyn n f \<longleftrightarrow> (\<exists>cs. length cs = n \<and> f = peval cs)"

lemma peval_replicate_0 [simp]: "peval (replicate n 0) x = 0"
  by (induction n) simp_all

lemma peval_append_0 [simp]: "peval (cs @ replicate n 0) x = peval cs x"
  by (induction cs) simp_all

lemma polyn_peval: "length cs \<le> n \<Longrightarrow> polyn n (peval cs)"
  unfolding polyn_def by (intro exI [of _ "cs @ replicate (n - length cs) 0"]) (auto simp: fun_eq_iff)

lemma polyn_0: "polyn n (\<lambda>x. 0)"
  unfolding polyn_def by (intro exI [of _ "replicate n 0"]) (auto simp: fun_eq_iff)

lemma polyn_add: "polyn n f \<Longrightarrow> polyn n g \<Longrightarrow> polyn n (\<lambda>x. f x + g x)"
proof -
  have "peval (map2 (+) a b) x = peval a x + peval b x" if "length a = length b" for a b :: "'a list" and x
    using that by (induction a b rule: list_induct2) (simp_all add: algebra_simps)
  then show "polyn n f \<Longrightarrow> polyn n g \<Longrightarrow> polyn n (\<lambda>x. f x + g x)"
    unfolding polyn_def by (auto simp: fun_eq_iff) (metis length_map length_zip min.idem)
qed

lemma polyn_scale: "polyn n f \<Longrightarrow> polyn n (\<lambda>x. c * f x)"
proof -
  have "peval (map ((*) c) a) x = c * peval a x" for a x
    by (induction a) (simp_all add: algebra_simps)
  then show "polyn n f \<Longrightarrow> polyn n (\<lambda>x. c * f x)"
    unfolding polyn_def by (auto simp: fun_eq_iff) (metis length_map)
qed

lemma polyn_shift: "polyn n f \<Longrightarrow> polyn (Suc n) (\<lambda>x. x * f x)"
  unfolding polyn_def by (auto simp: fun_eq_iff) (metis add_0 length_Cons peval.simps(2))

lemma polyn_mono: "polyn n f \<Longrightarrow> n \<le> m \<Longrightarrow> polyn m f"
  unfolding polyn_def by (metis polyn_def polyn_peval)

lemma polyn_linear: "polyn n f \<Longrightarrow> polyn (Suc n) (\<lambda>x. (x - a) / b * f x)"
proof -
  assume f: "polyn n f"
  have "polyn (Suc n) (\<lambda>x. (1 / b) * (x * f x) + (- a / b) * f x)"
    using f by (intro polyn_add polyn_scale polyn_shift) (auto intro: polyn_mono)
  moreover have "(\<lambda>x. (1 / b) * (x * f x) + (- a / b) * f x) = (\<lambda>x. (x - a) / b * f x)"
    by (simp add: fun_eq_iff field_simps diff_divide_distrib)
  ultimately show ?thesis by simp
qed

lemma polyn_prod: "finite S \<Longrightarrow> polyn (Suc (card S)) (\<lambda>x. \<Prod>j \<in> S. (x - g j) / h j)"
proof (induction S rule: finite_induct)
  case empty
  show ?case unfolding polyn_def by (intro exI [of _ "[1]"]) (auto simp: fun_eq_iff)
next
  case (insert j S)
  then show ?case using polyn_linear [OF insert.IH, of "g j" "h j"] by simp
qed

lemma polyn_sum: "(\<And>i. i \<in> A \<Longrightarrow> polyn n (f i)) \<Longrightarrow> polyn n (\<lambda>x. \<Sum>i \<in> A. f i x)"
  by (induction A rule: infinite_finite_induct) (auto simp: polyn_0 intro: polyn_add)

definition lagrange :: "'a :: field list \<Rightarrow> 'a list \<Rightarrow> 'a \<Rightarrow> 'a" where
  "lagrange xs ys x =
     (\<Sum>i < length xs. ys ! i * (\<Prod>j \<in> {..<length xs} - {i}. (x - xs ! j) / (xs ! i - xs ! j)))"

lemma polyn_lagrange: "polyn (length xs) (lagrange xs ys)"
proof -
  have "polyn (length xs) (\<lambda>x. \<Sum>i < length xs. ys ! i * (\<Prod>j \<in> {..<length xs} - {i}. (x - xs ! j) / (xs ! i - xs ! j)))"
  proof (intro polyn_sum polyn_scale)
    fix i
    assume "i \<in> {..<length xs}"
    then have "Suc (card ({..<length xs} - {i})) = length xs" by simp
    then show "polyn (length xs) (\<lambda>x. \<Prod>j \<in> {..<length xs} - {i}. (x - xs ! j) / (xs ! i - xs ! j))"
      using polyn_prod [of "{..<length xs} - {i}" "\<lambda>j. xs ! j" "\<lambda>j. xs ! i - xs ! j"] by simp
  qed
  then show ?thesis by (simp add: lagrange_def [abs_def])
qed

lemma lagrange_at_node:
  assumes "distinct xs" "k < length xs"
  shows "lagrange xs ys (xs ! k) = ys ! k"
proof -
  have zero: "(\<Prod>j \<in> {..<length xs} - {i}. (xs ! k - xs ! j) / (xs ! i - xs ! j)) = 0" if "i \<noteq> k" for i
    by (rule prod_zero) (use assms that in auto)
  have one: "(\<Prod>j \<in> {..<length xs} - {k}. (xs ! k - xs ! j) / (xs ! k - xs ! j)) = 1"
    by (rule prod.neutral) (use assms in \<open>auto simp: nth_eq_iff_index_eq\<close>)
  have "lagrange xs ys (xs ! k) = (\<Sum>i < length xs. if i = k then ys ! k else 0)"
    unfolding lagrange_def
  proof (rule sum.cong [OF refl])
    fix i
    show "ys ! i * (\<Prod>j \<in> {..<length xs} - {i}. (xs ! k - xs ! j) / (xs ! i - xs ! j)) = (if i = k then ys ! k else 0)"
      by (cases "i = k") (simp_all only: zero one mult_1_right mult_zero_right if_True if_False simp_thms)
  qed
  then show ?thesis using assms by simp
qed

lemma lagrange_unique:
  assumes "distinct xs" "polyn (length xs) f" "polyn (length xs) g" "\<forall>x \<in> set xs. f x = g x"
  shows "f x = g x"
proof -
  have "polyn (length xs) (\<lambda>x. f x + (- 1) * g x)" using assms by (intro polyn_add polyn_scale)
  then obtain cs where cs: "length cs = length xs" "\<And>x. f x + (- 1) * g x = peval cs x"
    unfolding polyn_def by (metis (no_types, lifting))
  have "\<forall>a \<in> set xs. peval cs a = 0" using assms(4) by (simp flip: cs(2))
  then have "peval cs x = 0" using peval_roots assms(1) cs(1) by (metis order_refl)
  then show ?thesis using cs(2) [of x] by simp
qed

lemma lagrange_interpolates:
  assumes "distinct xs" "length cs \<le> length xs"
  shows "lagrange xs (map (peval cs) xs) x = peval cs x"
  by (rule lagrange_unique [OF assms(1) polyn_lagrange polyn_peval [OF assms(2)]])
    (auto simp: in_set_conv_nth lagrange_at_node [OF assms(1)])

section \<open>Combine\<close>

lemma byte_gf_simps [simp]:
  "byte_gf (gfMul a b) = byte_gf a * byte_gf b"
  "byte_gf (xor a b) = byte_gf a + byte_gf b"
  "byte_gf 0 = 0" "byte_gf 1 = 1" "gf_byte (byte_gf a) = a"
  by (simp_all add: byte_gf_inverse times_gf.rep_eq plus_gf.rep_eq zero_gf.rep_eq one_gf.rep_eq flip: gf_byte_inject)

lemma byte_gf_inv: "a \<noteq> 0 \<Longrightarrow> byte_gf (gfInv a) = inverse (byte_gf a)"
  by (simp add: byte_gf_inverse inverse_gf.rep_eq flip: gf_byte_inject)

lemma byte_gf_eq_iff [simp]: "byte_gf a = byte_gf b \<longleftrightarrow> a = b"
  by (simp add: byte_gf_inject)

lemma byte_gf_eq_0 [simp]: "byte_gf a = 0 \<longleftrightarrow> a = 0"
  using byte_gf_eq_iff [of a 0] by simp

lemma gf_char2: "a + a = (0 :: gf)" "- a = (a :: gf)" "a - b = a + (b :: gf)"
  by (transfer; simp)+

lemma gf_add_eq_0: "a + b = 0 \<longleftrightarrow> a = (b :: gf)"
  using right_minus_eq [of a b] by (simp only: gf_char2(3))

lemma weight_loop:
  "m \<le> length xs \<Longrightarrow> foldl (\<lambda>(num, den) j. if j = i then (num, den)
       else (gfMul num (xs ! j), gfMul den (xor (xs ! i) (xs ! j)))) (1, 1) [0..<m] = (num, den) \<Longrightarrow>
     byte_gf num = (\<Prod>j \<in> {..<m} - {i}. byte_gf (xs ! j))
     \<and> byte_gf den = (\<Prod>j \<in> {..<m} - {i}. byte_gf (xs ! i) + byte_gf (xs ! j))"
proof (induction m arbitrary: num den)
  case (Suc m)
  obtain n0 d0 where nd: "foldl (\<lambda>(num, den) j. if j = i then (num, den)
       else (gfMul num (xs ! j), gfMul den (xor (xs ! i) (xs ! j)))) (1, 1) [0..<m] = (n0, d0)"
    by fastforce
  have S: "{..<Suc m} - {i} = (if m = i then {..<m} - {i} else insert m ({..<m} - {i}))"
    by (auto simp: lessThan_Suc)
  show ?case
    using Suc.IH [OF _ nd] Suc.prems nd unfolding S by (auto simp: mult.commute)
qed simp

lemma lagrange_weight_gf:
  assumes "distinct xs" "i < length xs"
  shows "byte_gf (lagrange_weight xs i) =
    (\<Prod>j \<in> {..<length xs} - {i}. (0 - map byte_gf xs ! j) / (map byte_gf xs ! i - map byte_gf xs ! j))"
proof -
  obtain num den where nd: "foldl (\<lambda>(num, den) j. if j = i then (num, den)
       else (gfMul num (xs ! j), gfMul den (xor (xs ! i) (xs ! j)))) (1, 1) [0..<length xs] = (num, den)"
    by fastforce
  note e = weight_loop [OF le_refl nd]
  have "byte_gf (xs ! i) + byte_gf (xs ! j) \<noteq> 0" if "j \<in> {..<length xs} - {i}" for j
    using assms that by (auto simp: nth_eq_iff_index_eq gf_add_eq_0)
  then have "byte_gf den \<noteq> 0" using e by simp
  then have "byte_gf (lagrange_weight xs i) = byte_gf num / byte_gf den"
    using nd by (simp add: lagrange_weight_def byte_gf_inv divide_inverse)
  also have "\<dots> = (\<Prod>j \<in> {..<length xs} - {i}. byte_gf (xs ! j) / (byte_gf (xs ! i) + byte_gf (xs ! j)))"
    using e by (simp add: prod_dividef)
  also have "\<dots> = (\<Prod>j \<in> {..<length xs} - {i}. (0 - map byte_gf xs ! j) / (map byte_gf xs ! i - map byte_gf xs ! j))"
    using assms(2) by (intro prod.cong refl) (simp only: gf_char2 nth_map add_0 Diff_iff lessThan_iff)
  finally show ?thesis .
qed

lemma combine_byte_sum:
  "byte_gf (foldl (\<lambda>acc p. xor acc (gfMul (fst p ! (1 + b)) (snd p))) acc ps) =
     byte_gf acc + (\<Sum>i < length ps. byte_gf (fst (ps ! i) ! (1 + b)) * byte_gf (snd (ps ! i)))"
proof (induction ps arbitrary: acc)
  case (Cons p ps)
  show ?case
    by (simp add: Cons.IH [simplified] sum.lessThan_Suc_shift del: sum.lessThan_Suc)
qed simp

lemma combine_byte_lagrange:
  assumes "distinct xs" "length shares = length xs"
  shows "byte_gf (combine_byte shares (map (lagrange_weight xs) [0..<length xs]) b) =
    lagrange (map byte_gf xs) (map (\<lambda>sh. byte_gf (sh ! (1 + b))) shares) 0"
proof -
  let ?ws = "map (lagrange_weight xs) [0..<length xs]"
  have "byte_gf (combine_byte shares ?ws b) =
      (\<Sum>i < length xs. byte_gf (shares ! i ! (1 + b)) * byte_gf (lagrange_weight xs i))"
    unfolding combine_byte_def case_prod_beta combine_byte_sum using assms(2) by simp
  also have "\<dots> = lagrange (map byte_gf xs) (map (\<lambda>sh. byte_gf (sh ! (1 + b))) shares) 0"
    unfolding lagrange_def length_map
    by (rule sum.cong [OF refl]) (simp only: assms(2) lagrange_weight_gf [OF assms(1)] lessThan_iff nth_map)
  finally show ?thesis .
qed

lemma share_indices_Inr_iff:
  "share_indices i seen shares = Inr xs \<longleftrightarrow>
     (\<forall>sh \<in> set shares. length sh = ShareBytes \<and> sh ! 0 \<noteq> 0 \<and> sh ! 0 \<notin> set seen)
     \<and> distinct (map (\<lambda>sh. sh ! 0) shares) \<and> xs = map (\<lambda>sh. sh ! 0) shares"
proof (induction shares arbitrary: i seen xs)
  case (Cons sh r)
  have nin: "sh ! 0 \<notin> set (map (\<lambda>sh. sh ! 0) r) \<longleftrightarrow> (\<forall>s \<in> set r. s ! 0 \<noteq> sh ! 0)"
    unfolding set_map by (metis (no_types, lifting) imageE imageI)
  have "share_indices i seen (sh # r) = Inr xs \<longleftrightarrow>
      length sh = ShareBytes \<and> sh ! 0 \<noteq> 0 \<and> sh ! 0 \<notin> set seen
      \<and> (\<exists>ys. share_indices (i + 1) (sh ! 0 # seen) r = Inr ys \<and> xs = sh ! 0 # ys)"
    by (auto simp: Let_def)
  then show ?case unfolding Cons.IH list.map distinct.simps(2) nin by auto
qed auto

text \<open>Evaluation of a polynomial over the bytes, and the share Shamir's scheme gives index \<open>x\<close>.\<close>

fun gf_eval :: "byte list \<Rightarrow> byte \<Rightarrow> byte" where
  "gf_eval [] x = 0"
| "gf_eval (c # cs) x = xor c (gfMul x (gf_eval cs x))"

definition shamir_share :: "byte list list \<Rightarrow> byte \<Rightarrow> bytes" where
  "shamir_share polys x = x # map (\<lambda>p. gf_eval p x) polys"

lemma gf_eval_peval: "byte_gf (gf_eval p x) = peval (map byte_gf p) (byte_gf x)"
  by (induction p) simp_all

lemma Combine_shares:
  assumes "length polys = SecretBytes" "\<forall>p \<in> set polys. p \<noteq> [] \<and> length p \<le> length xs"
    and "2 \<le> length xs" "distinct xs" "0 \<notin> set xs"
  shows "Combine (map (shamir_share polys) xs) = Inr (map hd polys)"
proof -
  have idx: "share_indices 0 [] (map (shamir_share polys) xs) = Inr xs"
    unfolding share_indices_Inr_iff using assms by (auto simp: shamir_share_def ShareBytes_def comp_def)
  have "combine_byte (map (shamir_share polys) xs) (map (lagrange_weight xs) [0..<length xs]) b = hd (polys ! b)"
    if b: "b < SecretBytes" for b
  proof -
    have p: "polys ! b \<noteq> []" "length (polys ! b) \<le> length xs" using assms(1,2) b by auto
    have d: "distinct (map byte_gf xs)" using assms(4) by (simp add: distinct_map inj_on_def)
    have "map (\<lambda>sh. byte_gf (sh ! (1 + b))) (map (shamir_share polys) xs) =
        map (peval (map byte_gf (polys ! b))) (map byte_gf xs)"
      using assms(1) b by (simp add: shamir_share_def gf_eval_peval)
    with combine_byte_lagrange [OF assms(4), of "map (shamir_share polys) xs" b]
    have "byte_gf (combine_byte (map (shamir_share polys) xs) (map (lagrange_weight xs) [0..<length xs]) b) =
        lagrange (map byte_gf xs) (map (peval (map byte_gf (polys ! b))) (map byte_gf xs)) 0"
      by (simp only: length_map)
    also have "\<dots> = peval (map byte_gf (polys ! b)) 0"
      by (rule lagrange_interpolates [OF d]) (use p in simp)
    also have "\<dots> = byte_gf (hd (polys ! b))" using p(1) by (cases "polys ! b") simp_all
    finally show ?thesis by simp
  qed
  then show ?thesis using assms(1,3) idx
    by (auto simp: Combine_def Let_def intro!: nth_equalityI)
qed
text \<open>Shares with distinct indices always lie on polynomials of degree below their number.\<close>

lemma interpolating_polys:
  assumes "distinct xs" "length ys = length xs" "xs \<noteq> []"
  shows "\<exists>p. length p = length xs \<and> map (gf_eval p) xs = ys"
proof -
  let ?X = "map byte_gf xs" and ?Y = "map byte_gf ys"
  obtain cs where cs: "length cs = length xs" "lagrange ?X ?Y = peval cs"
    using polyn_lagrange [of ?X ?Y] unfolding polyn_def by auto
  have d: "distinct ?X" using assms(1) by (simp add: distinct_map inj_on_def)
  let ?p = "map gf_byte cs"
  have "byte_gf (gf_eval ?p (xs ! i)) = byte_gf (ys ! i)" if "i < length xs" for i
  proof -
    have "map byte_gf ?p = cs" by (simp add: comp_def gf_byte_inverse)
    then have "byte_gf (gf_eval ?p (xs ! i)) = lagrange ?X ?Y (?X ! i)"
      using that by (simp add: gf_eval_peval cs(2))
    also have "\<dots> = ?Y ! i" by (rule lagrange_at_node [OF d]) (use that in simp)
    finally show ?thesis using that assms(2) by simp
  qed
  then have "map (gf_eval ?p) xs = ys" using assms(2) by (intro nth_equalityI) simp_all
  then show ?thesis using cs(1) by (intro exI [of _ ?p]) simp
qed

lemma share_polys:
  assumes "distinct (map (\<lambda>sh. sh ! 0) shares)" "\<forall>sh \<in> set shares. length sh = ShareBytes" "shares \<noteq> []"
  shows "\<exists>polys. length polys = SecretBytes \<and> (\<forall>p \<in> set polys. length p = length shares)
    \<and> (\<forall>sh \<in> set shares. sh = shamir_share polys (sh ! 0))"
proof -
  let ?xs = "map (\<lambda>sh. sh ! 0) shares"
  have "\<exists>p. length p = length shares \<and> map (gf_eval p) ?xs = map (\<lambda>sh. sh ! (1 + b)) shares" for b
    using interpolating_polys [OF assms(1), of "map (\<lambda>sh. sh ! (1 + b)) shares"] assms(3) by simp
  then obtain f where f: "\<And>b. length (f b) = length shares"
    "\<And>b. map (gf_eval (f b)) ?xs = map (\<lambda>sh. sh ! (1 + b)) shares" by metis
  let ?polys = "map f [0..<SecretBytes]"
  have "sh = shamir_share ?polys (sh ! 0)" if sh: "sh \<in> set shares" for sh
  proof (rule nth_equalityI)
    show "length sh = length (shamir_share ?polys (sh ! 0))"
      using assms(2) sh by (simp add: shamir_share_def ShareBytes_def)
    fix i
    assume i: "i < length sh"
    show "sh ! i = shamir_share ?polys (sh ! 0) ! i"
    proof (cases i)
      case (Suc b)
      have "gf_eval (f b) (sh ! 0) = sh ! (1 + b)" using f(2) [of b] sh by (auto simp: comp_def)
      moreover have "b < SecretBytes" using i Suc assms(2) sh by (simp add: ShareBytes_def)
      ultimately show ?thesis using Suc by (simp add: shamir_share_def)
    qed (simp add: shamir_share_def)
  qed
  then show ?thesis using f(1) by (intro exI [of _ ?polys]) auto
qed

lemma Combine_ok_iff:
  "(\<exists>out. Combine shares = Inr out) \<longleftrightarrow>
     2 \<le> length shares \<and> (\<forall>sh \<in> set shares. length sh = ShareBytes \<and> sh ! 0 \<noteq> 0)
     \<and> distinct (map (\<lambda>sh. sh ! 0) shares)"
  by (auto simp: Combine_def share_indices_Inr_iff Let_def)

section \<open>Properties\<close>

text \<open>
  C9. Any threshold of shares recovers the secret: when every secret byte was shared by a polynomial
  over GF(256) whose constant coefficient is that byte and whose number of coefficients (the
  threshold) is at most the number of shares supplied, \<open>Combine\<close> of shares with two or more distinct
  non-zero indices returns exactly the secret.
\<close>
theorem Combine_recovers_secret:
  assumes "length polys = SecretBytes" and "\<forall>p \<in> set polys. p \<noteq> [] \<and> length p \<le> length xs"
    and "2 \<le> length xs" and "distinct xs" and "0 \<notin> set xs"
  shows "Combine (map (shamir_share polys) xs) = Inr (map hd polys)"
  using assms by (rule Combine_shares)

theorem Combine_recovers_secret_witness:
  "Combine (map (shamir_share (replicate 32 [7, 9])) [1, 5, 200]) = Inr (replicate 32 7)"
  using Combine_recovers_secret [of "replicate 32 [7, 9]" "[1, 5, 200]"] by (simp add: SecretBytes_def)

text \<open>
  \<open>Combine\<close> checks structure and nothing else, and the order of the shares is irrelevant: it
  returns a value exactly when there are at least two shares, all of 33 bytes, with non-zero and
  distinct indices; the value is 32 bytes long; and two orderings of the same shares give the same
  value.
\<close>
theorem Combine_structure:
  "((\<exists>out. Combine shares = Inr out) \<longleftrightarrow>
      2 \<le> length shares \<and> (\<forall>sh \<in> set shares. length sh = ShareBytes \<and> sh ! 0 \<noteq> 0)
      \<and> distinct (map (\<lambda>sh. sh ! 0) shares))
   \<and> (Combine shares = Inr out \<longrightarrow> length out = SecretBytes
      \<and> (\<forall>shares'. mset shares' = mset shares \<longrightarrow> Combine shares' = Inr out))"
proof (intro conjI impI allI)
  assume out: "Combine shares = Inr out"
  then show "length out = SecretBytes" by (auto simp: Combine_def Let_def split: if_splits)
  fix shares'
  assume m: "mset shares' = mset shares"
  have ok: "2 \<le> length shares" "\<forall>sh \<in> set shares. length sh = ShareBytes \<and> sh ! 0 \<noteq> 0"
    "distinct (map (\<lambda>sh. sh ! 0) shares)"
    using out Combine_ok_iff by blast+
  have s: "set shares' = set shares" "length shares' = length shares"
    using m mset_eq_setD mset_eq_length by blast+
  have d': "distinct (map (\<lambda>sh. sh ! 0) shares')"
    using ok(3) m by (metis mset_eq_imp_distinct_iff mset_map)
  obtain polys where p: "length polys = SecretBytes" "\<forall>p \<in> set polys. length p = length shares"
    "\<forall>sh \<in> set shares. sh = shamir_share polys (sh ! 0)"
    using share_polys [of shares] ok by fastforce
  have "Combine shs = Inr (map hd polys)" if "set shs = set shares" "length shs = length shares"
    "distinct (map (\<lambda>sh. sh ! 0) shs)" for shs
  proof -
    have "map (shamir_share polys) (map (\<lambda>sh. sh ! 0) shs) = shs"
      using p(3) that(1) by (intro map_idI [THEN trans [OF map_map]]) (auto simp: comp_def)
    moreover have "0 \<notin> set (map (\<lambda>sh. sh ! 0) shs)" using ok(2) that(1) by auto
    moreover have "\<forall>q \<in> set polys. q \<noteq> [] \<and> length q \<le> length (map (\<lambda>sh. sh ! 0) shs)"
      using p(2) ok(1) that(2) by (metis length_map list.size(3) not_numeral_le_zero order_refl)
    ultimately show ?thesis
      using Combine_shares [of polys "map (\<lambda>sh. sh ! 0) shs"] p(1) ok(1) that by simp
  qed
  from this [of shares] this [OF s d'] ok(3) out show "Combine shares' = Inr out" by simp
qed (rule Combine_ok_iff)

theorem Combine_structure_witness:
  "Combine (map (shamir_share (replicate 32 [7, 9])) [5, 1]) = Inr (replicate 32 7)"
proof -
  have "Combine (map (shamir_share (replicate 32 [7, 9])) [1, 5]) = Inr (map hd (replicate 32 [7, 9]))"
    by (rule Combine_shares) (simp_all add: SecretBytes_def)
  then have "\<forall>shares'. mset shares' = mset (map (shamir_share (replicate 32 [7, 9])) [1, 5]) \<longrightarrow>
      Combine shares' = Inr (replicate 32 7)"
    using Combine_structure by (metis list.sel(1) map_replicate)
  then show ?thesis by (simp add: add_mset_commute)
qed

end
