(* ===== verification/Custody.thy ===== *)
theory Custody
  imports Shamir
begin

text \<open>
  \<open>internal/custody/artefacts.go\<close> and \<open>recombine.go\<close>: the parsers of the custody artefacts (labelled
  share, envelope and wrapping-key files and bare share bodies) and the recombination of an identity
  file. An error carries the values its message interpolates and nothing else, so that what a
  message can disclose is visible in the type. A Go map from labels to values is a partial map.
\<close>

section \<open>Artefacts\<close>

definition ShareFileMagic :: string where "ShareFileMagic = ''downpipe-shamir-share-v1''"
definition EnvelopeFileMagic :: string where "EnvelopeFileMagic = ''downpipe-wrapped-identity-v1''"
definition WrappingKeyFileMagic :: string where "WrappingKeyFileMagic = ''downpipe-wrapping-key-v1''"
definition GCMIVBytes :: nat where "GCMIVBytes = 12"
definition GCMTagBytes :: nat where "GCMTagBytes = 16"

datatype artefact_fault =
    B64Alphabet | B64Padding | B64Invalid
  | NotAFile string | DuplicateLabel string string | DuplicateUnrecognised string | MissingHeader string
  | MissingLine string | NotNonNegative string | OutOfRange string | EmptyInteger string
  | LineFault string artefact_fault
  | ChecksumLen nat | ShareLen nat | ParametersRange int int | IndexRange int | IndexMismatch int byte
  | ManyTokens | NoToken | RawShareLen nat | RawZeroIndex
  | IVLen nat | CiphertextShort nat | WrappingKeyLen nat
  | CombineFault shamir_error
  | EnvelopeRequired | SharesAndKey | CeremonyMismatch nat int int int int | ChecksumMismatch nat
  | IndexConflict byte | NoShares | BelowThreshold int nat

datatype custody_error =
    ArtefactError artefact_fault
  | ChecksumFails
  | DecryptFails
  | SharePanic

definition DecodeB64 :: "string \<Rightarrow> custody_error + bytes" where
  "DecodeB64 s =
     (if contains_any [CHR ''+'', CHR ''/'', CHR '' '', CHR 0x09] s then Inl (ArtefactError B64Alphabet)
      else
        rbind (case index_byte CHR ''='' s of
                 None \<Rightarrow> Inr s
               | Some i \<Rightarrow>
                   (let pad = drop i s
                    in if pad \<noteq> replicate (length pad) CHR ''='' \<or> length pad > 2 \<or> length s mod 4 \<noteq> 0
                       then Inl (ArtefactError B64Padding) else Inr (take i s)))
          (\<lambda>s. of_opt (ArtefactError B64Invalid) (b64_decode s)))"

definition artefactLabels :: "string \<Rightarrow> string list" where
  "artefactLabels magic =
     (if magic = EnvelopeFileMagic then [''iv'', ''ciphertext'', ''credential-id'']
      else if magic = WrappingKeyFileMagic then [''key'']
      else if magic = ShareFileMagic then [''index'', ''n'', ''threshold'', ''checksum'', ''share'']
      else [])"

definition knownLabel :: "string \<Rightarrow> string \<Rightarrow> bool" where
  "knownLabel magic label \<longleftrightarrow> label \<in> set (artefactLabels magic)"

fun labelled_lines ::
  "string \<Rightarrow> string list \<Rightarrow> bool \<Rightarrow> (string \<rightharpoonup> string) \<Rightarrow> custody_error + (string \<rightharpoonup> string)" where
  "labelled_lines magic [] sawMagic out =
     (if \<not> sawMagic then Inl (ArtefactError (MissingHeader magic)) else Inr out)"
| "labelled_lines magic (raw # r) sawMagic out =
     (let line = trim_right_set [CHR '' '', CHR 0x09, CHR 0x0D] raw
      in if TrimSpace line = [] \<or> prefix ''#'' line then labelled_lines magic r sawMagic out
         else if \<not> sawMagic then
           (if line \<noteq> magic then Inl (ArtefactError (NotAFile magic)) else labelled_lines magic r True out)
         else (case index_byte CHR '' '' line of
                 None \<Rightarrow> labelled_lines magic r sawMagic out
               | Some sp \<Rightarrow>
                   (let label = take sp line
                    in if out label \<noteq> None then
                         (if knownLabel magic label then Inl (ArtefactError (DuplicateLabel label magic))
                          else Inl (ArtefactError (DuplicateUnrecognised magic)))
                       else labelled_lines magic r sawMagic (out(label \<mapsto> TrimSpace (drop (sp + 1) line))))))"

definition parseLabelledLines :: "string \<Rightarrow> string \<Rightarrow> custody_error + (string \<rightharpoonup> string)" where
  "parseLabelledLines txt magic = labelled_lines magic (split_on CHR 0x0A txt) False Map.empty"

fun int_digits :: "string \<Rightarrow> int \<Rightarrow> string \<Rightarrow> custody_error + int" where
  "int_digits label v [] = Inr v"
| "int_digits label v (c # r) =
     (if c < CHR ''0'' \<or> c > CHR ''9'' then Inl (ArtefactError (NotNonNegative label))
      else (let v' = v * 10 + int (of_char c - of_char CHR ''0'')
            in if v' > 2 ^ 20 then Inl (ArtefactError (OutOfRange label)) else int_digits label v' r))"

definition intField :: "(string \<rightharpoonup> string) \<Rightarrow> string \<Rightarrow> custody_error + int" where
  "intField fields label =
     (case fields label of
        None \<Rightarrow> Inl (ArtefactError (MissingLine label))
      | Some raw \<Rightarrow> rbind (int_digits label 0 raw) (\<lambda>v.
          if raw = [] then Inl (ArtefactError (EmptyInteger label)) else Inr v))"

definition bytesField :: "(string \<rightharpoonup> string) \<Rightarrow> string \<Rightarrow> custody_error + bytes" where
  "bytesField fields label =
     (case fields label of
        None \<Rightarrow> Inl (ArtefactError (MissingLine label))
      | Some raw \<Rightarrow> map_err (\<lambda>e. case e of ArtefactError f \<Rightarrow> ArtefactError (LineFault label f) | e \<Rightarrow> e) (DecodeB64 raw))"

record ShareFile =
  sf_Index :: int
  sf_N :: int
  sf_Threshold :: int
  sf_Checksum :: bytes
  sf_Share :: bytes

definition ParseShareFile :: "string \<Rightarrow> custody_error + ShareFile" where
  "ParseShareFile txt =
     rbind (parseLabelledLines txt ShareFileMagic) (\<lambda>fields.
     rbind (intField fields ''index'') (\<lambda>idx.
     rbind (intField fields ''n'') (\<lambda>n.
     rbind (intField fields ''threshold'') (\<lambda>threshold.
     rbind (bytesField fields ''checksum'') (\<lambda>checksum.
     rbind (bytesField fields ''share'') (\<lambda>share.
       if length checksum \<noteq> ChecksumBytes then Inl (ArtefactError (ChecksumLen (length checksum)))
       else if length share \<noteq> ShareBytes then Inl (ArtefactError (ShareLen (length share)))
       else if threshold < 2 \<or> n < threshold \<or> n > 255 then Inl (ArtefactError (ParametersRange threshold n))
       else if idx < 1 \<or> idx > 255 then Inl (ArtefactError (IndexRange idx))
       else if uint (share ! 0) \<noteq> idx then Inl (ArtefactError (IndexMismatch idx (share ! 0)))
       else Inr \<lparr>sf_Index = idx, sf_N = n, sf_Threshold = threshold, sf_Checksum = checksum, sf_Share = share\<rparr>))))))"

fun raw_token :: "string list \<Rightarrow> string \<Rightarrow> custody_error + string" where
  "raw_token [] token = Inr token"
| "raw_token (raw # r) token =
     (let line = TrimSpace (trim_right_set [CHR 0x0D] raw)
      in if line = [] \<or> prefix ''#'' line then raw_token r token
         else if token \<noteq> [] then Inl (ArtefactError ManyTokens)
         else raw_token r line)"

definition ParseRawShare :: "string \<Rightarrow> custody_error + bytes" where
  "ParseRawShare txt =
     rbind (raw_token (split_on CHR 0x0A txt) []) (\<lambda>token.
       if token = [] then Inl (ArtefactError NoToken)
       else rbind (DecodeB64 token) (\<lambda>share.
         if length share \<noteq> ShareBytes then Inl (ArtefactError (RawShareLen (length share)))
         else if share ! 0 = 0 then Inl (ArtefactError RawZeroIndex)
         else Inr share))"

record EnvelopeFile =
  ef_IV :: bytes
  ef_Ciphertext :: bytes
  ef_CredentialID :: "bytes option"

definition ParseEnvelopeFile :: "string \<Rightarrow> custody_error + EnvelopeFile" where
  "ParseEnvelopeFile txt =
     rbind (parseLabelledLines txt EnvelopeFileMagic) (\<lambda>fields.
     rbind (bytesField fields ''iv'') (\<lambda>iv.
     rbind (bytesField fields ''ciphertext'') (\<lambda>ct.
       if length iv \<noteq> GCMIVBytes then Inl (ArtefactError (IVLen (length iv)))
       else if length ct < GCMTagBytes then Inl (ArtefactError (CiphertextShort (length ct)))
       else (case fields ''credential-id'' of
               None \<Rightarrow> Inr \<lparr>ef_IV = iv, ef_Ciphertext = ct, ef_CredentialID = None\<rparr>
             | Some cred \<Rightarrow> rbind (DecodeB64 cred) (\<lambda>b.
                 Inr \<lparr>ef_IV = iv, ef_Ciphertext = ct, ef_CredentialID = Some b\<rparr>)))))"

definition ParseWrappingKeyFile :: "string \<Rightarrow> custody_error + bytes" where
  "ParseWrappingKeyFile txt =
     rbind (parseLabelledLines txt WrappingKeyFileMagic) (\<lambda>fields.
     rbind (bytesField fields ''key'') (\<lambda>key.
       if length key \<noteq> SecretBytes then Inl (ArtefactError (WrappingKeyLen (length key))) else Inr key))"

definition OpenEnvelope :: "EnvelopeFile \<Rightarrow> bytes \<Rightarrow> custody_error + bytes" where
  "OpenEnvelope env wrappingKey =
     (if length wrappingKey \<noteq> SecretBytes then Inl (ArtefactError (WrappingKeyLen (length wrappingKey)))
      else of_opt DecryptFails (gcm_open wrappingKey (ef_IV env) (ef_Ciphertext env) []))"

section \<open>Recombination\<close>

text \<open>Optional inputs that Go passes as \<open>nil\<close> are options; a notice names the dropped share.\<close>

record Inputs =
  in_Labelled :: "ShareFile list"
  in_Raw :: "bytes list"
  in_WrappingKey :: "bytes option"
  in_Envelope :: "EnvelopeFile option"
  in_ThresholdHint :: int

datatype share_origin = LabelledFile | RawShare
datatype notice = DroppedDuplicate byte share_origin

fun check_ceremony :: "nat \<Rightarrow> int \<Rightarrow> int \<Rightarrow> bytes \<Rightarrow> ShareFile list \<Rightarrow> custody_error + unit" where
  "check_ceremony i threshold n checksum [] = Inr ()"
| "check_ceremony i threshold n checksum (sf # r) =
     (if sf_Threshold sf \<noteq> threshold \<or> sf_N sf \<noteq> n
      then Inl (ArtefactError (CeremonyMismatch (i + 1) (sf_Threshold sf) (sf_N sf) threshold n))
      else if sf_Checksum sf \<noteq> checksum then Inl (ArtefactError (ChecksumMismatch (i + 1)))
      else check_ceremony (i + 1) threshold n checksum r)"

text \<open>
  The closure \<open>add\<close> over \<open>byIndex\<close>, \<open>shares\<close> and \<open>notices\<close>, applied to a list of shares; an error
  keeps the notices collected so far.
\<close>

fun add_shares ::
  "(bytes \<times> share_origin) list \<Rightarrow> (byte \<rightharpoonup> bytes) \<Rightarrow> bytes list \<Rightarrow> notice list \<Rightarrow> (custody_error + bytes list) \<times> notice list" where
  "add_shares [] byIndex shares notices = (Inr shares, notices)"
| "add_shares ((share, origin) # r) byIndex shares notices =
     (if share = [] then (Inl SharePanic, notices)
      else (case byIndex (share ! 0) of
              Some prev \<Rightarrow>
                if prev = share then add_shares r byIndex shares (notices @ [DroppedDuplicate (share ! 0) origin])
                else (Inl (ArtefactError (IndexConflict (share ! 0))), notices)
            | None \<Rightarrow> add_shares r (byIndex(share ! 0 \<mapsto> share)) (shares @ [share]) notices))"

text \<open>The first loop of \<open>assembleShares\<close>: the threshold in force, when the labelled files agree.\<close>

definition ceremony_threshold :: "Inputs \<Rightarrow> custody_error + int" where
  "ceremony_threshold inp =
     (case in_Labelled inp of
        [] \<Rightarrow> Inr (in_ThresholdHint inp)
      | sf # r \<Rightarrow> rbind (check_ceremony 1 (sf_Threshold sf) (sf_N sf) (sf_Checksum sf) r) (\<lambda>_. Inr (sf_Threshold sf)))"

definition origin_shares :: "Inputs \<Rightarrow> (bytes \<times> share_origin) list" where
  "origin_shares inp =
     map (\<lambda>sf. (sf_Share sf, LabelledFile)) (in_Labelled inp) @ map (\<lambda>r. (r, RawShare)) (in_Raw inp)"

definition assembleShares :: "Inputs \<Rightarrow> (custody_error + bytes list) \<times> notice list" where
  "assembleShares inp =
     (case ceremony_threshold inp of
        Inl e \<Rightarrow> (Inl e, [])
      | Inr threshold \<Rightarrow>
          (case add_shares (origin_shares inp) Map.empty [] [] of
             (Inl e, notices) \<Rightarrow> (Inl e, notices)
           | (Inr shares, notices) \<Rightarrow>
               if shares = [] then (Inl (ArtefactError NoShares), notices)
               else if threshold > 0 \<and> int (length shares) < threshold
               then (Inl (ArtefactError (BelowThreshold threshold (length shares))), notices)
               else (Inr shares, notices)))"

definition labelledChecksum :: "ShareFile list \<Rightarrow> bytes option" where
  "labelledChecksum labelled = (case labelled of [] \<Rightarrow> None | sf # _ \<Rightarrow> Some (sf_Checksum sf))"

definition Recombine :: "Inputs \<Rightarrow> (custody_error + bytes) \<times> notice list" where
  "Recombine inp =
     (case in_Envelope inp of
        None \<Rightarrow> (Inl (ArtefactError EnvelopeRequired), [])
      | Some env \<Rightarrow>
          (case in_WrappingKey inp of
             Some key \<Rightarrow>
               if length (in_Labelled inp) + length (in_Raw inp) > 0
               then (Inl (ArtefactError SharesAndKey), [])
               else (OpenEnvelope env key, [])
           | None \<Rightarrow>
               (case assembleShares inp of
                  (Inl e, notices) \<Rightarrow> (Inl e, notices)
                | (Inr shares, notices) \<Rightarrow>
                    (case Combine shares of
                       Inl e \<Rightarrow> (Inl (ArtefactError (CombineFault e)), notices)
                     | Inr key \<Rightarrow>
                         (if (case labelledChecksum (in_Labelled inp) of
                                None \<Rightarrow> False
                              | Some checksum \<Rightarrow> \<not> VerifyChecksum key checksum)
                          then (Inl ChecksumFails, notices)
                          else (OpenEnvelope env key, notices))))))"

section \<open>Lemmas\<close>

text \<open>The strings a fault carries, and the constants of the program they may be.\<close>

fun fault_strings :: "artefact_fault \<Rightarrow> string list" where
  "fault_strings (NotAFile m) = [m]"
| "fault_strings (DuplicateLabel l m) = [l, m]"
| "fault_strings (DuplicateUnrecognised m) = [m]"
| "fault_strings (MissingHeader m) = [m]"
| "fault_strings (MissingLine l) = [l]"
| "fault_strings (NotNonNegative l) = [l]"
| "fault_strings (OutOfRange l) = [l]"
| "fault_strings (EmptyInteger l) = [l]"
| "fault_strings (LineFault l f) = l # fault_strings f"
| "fault_strings _ = []"

fun error_strings :: "custody_error \<Rightarrow> string list" where
  "error_strings (ArtefactError f) = fault_strings f"
| "error_strings _ = []"

definition artefact_constants :: "string list" where
  "artefact_constants =
     (let magics = [ShareFileMagic, EnvelopeFileMagic, WrappingKeyFileMagic]
      in magics @ concat (map artefactLabels magics))"

definition silent :: "custody_error \<Rightarrow> bool" where
  "silent e \<longleftrightarrow> set (error_strings e) \<subseteq> set artefact_constants"

lemma magics_constant [simp]:
  "ShareFileMagic \<in> set artefact_constants" "EnvelopeFileMagic \<in> set artefact_constants"
  "WrappingKeyFileMagic \<in> set artefact_constants"
  by (simp_all add: artefact_constants_def Let_def)

lemma labels_constant [simp]:
  "''index'' \<in> set artefact_constants" "''n'' \<in> set artefact_constants" "''threshold'' \<in> set artefact_constants"
  "''checksum'' \<in> set artefact_constants" "''share'' \<in> set artefact_constants" "''iv'' \<in> set artefact_constants"
  "''ciphertext'' \<in> set artefact_constants" "''key'' \<in> set artefact_constants"
  by (simp_all add: artefact_constants_def artefactLabels_def Let_def
      ShareFileMagic_def EnvelopeFileMagic_def WrappingKeyFileMagic_def)

lemma knownLabel_constant: "knownLabel magic l \<Longrightarrow> l \<in> set artefact_constants"
  by (auto simp: knownLabel_def artefactLabels_def artefact_constants_def Let_def split: if_splits)

lemma labelled_lines_silent:
  "labelled_lines magic ls saw out = Inl e \<Longrightarrow> magic \<in> set artefact_constants \<Longrightarrow> silent e"
  by (induction magic ls saw out rule: labelled_lines.induct)
    (auto simp: Let_def silent_def knownLabel_constant split: if_splits option.splits)

lemma DecodeB64_silent: "DecodeB64 s = Inl e \<Longrightarrow> \<exists>f. e = ArtefactError f \<and> fault_strings f = []"
  by (auto simp: DecodeB64_def Let_def rbind_eq_Inl_iff split: if_splits option.splits)

lemma bytesField_silent: "bytesField m l = Inl e \<Longrightarrow> l \<in> set artefact_constants \<Longrightarrow> silent e"
  by (auto simp: bytesField_def silent_def map_err_def dest!: DecodeB64_silent split: option.splits sum.splits)

lemma int_digits_silent: "int_digits l v cs = Inl e \<Longrightarrow> l \<in> set artefact_constants \<Longrightarrow> silent e"
  by (induction l v cs rule: int_digits.induct) (auto simp: silent_def Let_def split: if_splits)

lemma intField_silent: "intField m l = Inl e \<Longrightarrow> l \<in> set artefact_constants \<Longrightarrow> silent e"
  by (auto simp: intField_def rbind_eq_Inl_iff silent_def split: option.splits if_splits
      dest: int_digits_silent [unfolded silent_def, THEN subsetD])

lemma parse_silent: "parseLabelledLines txt magic = Inl e \<Longrightarrow> magic \<in> set artefact_constants \<Longrightarrow> silent e"
  by (auto simp: parseLabelledLines_def intro: labelled_lines_silent)

lemma silent_plain [simp]: "fault_strings f = [] \<Longrightarrow> silent (ArtefactError f)"
  by (simp add: silent_def)

lemma raw_token_silent: "raw_token ls tok = Inl e \<Longrightarrow> silent e"
  by (induction ls tok rule: raw_token.induct) (auto simp: Let_def split: if_splits)

lemmas silent_parts = parse_silent intField_silent bytesField_silent raw_token_silent

text \<open>The distinct shares of a list, in order of first occurrence.\<close>

definition indexed :: "(byte \<rightharpoonup> bytes) \<Rightarrow> bytes list \<Rightarrow> bool" where
  "indexed m shares \<longleftrightarrow> (\<forall>x s. m x = Some s \<longleftrightarrow> s \<in> set shares \<and> s ! 0 = x)"

lemma indexed_None: "indexed m shares \<Longrightarrow> m x = None \<Longrightarrow> s \<in> set shares \<Longrightarrow> s ! 0 \<noteq> x"
  unfolding indexed_def by (metis option.distinct(1))

lemma indexed_Some: "indexed m shares \<Longrightarrow> m x = Some s \<Longrightarrow> s \<in> set shares \<and> s ! 0 = x"
  unfolding indexed_def by blast

lemma indexed_add: "indexed m shares \<Longrightarrow> m (s ! 0) = None \<Longrightarrow> indexed (m(s ! 0 \<mapsto> s)) (shares @ [s])"
  using indexed_None [of m shares "s ! 0"] unfolding indexed_def by auto

lemma add_shares_ok:
  assumes "add_shares l byIndex shares notices = (Inr res, notices')"
    and "indexed byIndex shares" and "distinct (map (\<lambda>s. s ! 0) shares)"
  shows "set res = set shares \<union> fst ` set l \<and> distinct (map (\<lambda>s. s ! 0) res)"
  using assms
proof (induction l byIndex shares notices rule: add_shares.induct)
  case (2 share origin r byIndex shares notices)
  have ne: "share \<noteq> []" using "2.prems"(1) by (auto split: if_splits)
  show ?case
  proof (cases "byIndex (share ! 0)")
    case None
    have fresh: "\<forall>s \<in> set shares. s ! 0 \<noteq> share ! 0" using indexed_None [OF "2.prems"(2) None] by blast
    have a: "add_shares r (byIndex(share ! 0 \<mapsto> share)) (shares @ [share]) notices = (Inr res, notices')"
      using "2.prems"(1) None ne by simp
    have d: "distinct (map (\<lambda>s. s ! 0) (shares @ [share]))" using "2.prems"(3) fresh by auto
    from "2.IH"(1) [OF ne None a indexed_add [OF "2.prems"(2) None] d] show ?thesis by auto
  next
    case (Some prev)
    then have p: "prev = share" using "2.prems"(1) ne by (auto split: if_splits)
    have "add_shares r byIndex shares (notices @ [DroppedDuplicate (share ! 0) origin]) = (Inr res, notices')"
      using "2.prems"(1) Some p ne by simp
    from "2.IH"(2) [OF ne Some p this "2.prems"(2,3)] indexed_Some [OF "2.prems"(2) Some] p
    show ?thesis by auto
  qed
qed auto

lemma add_shares_consistent:
  assumes "\<forall>s \<in> fst ` set l \<union> set shares. s = f (s ! 0) \<and> s \<noteq> []" and "indexed byIndex shares"
  shows "\<exists>res notices'. add_shares l byIndex shares notices = (Inr res, notices')"
  using assms
proof (induction l byIndex shares notices rule: add_shares.induct)
  case (2 share origin r byIndex shares notices)
  have ne: "share \<noteq> []" "share = f (share ! 0)" using "2.prems"(1) by auto
  show ?case
  proof (cases "byIndex (share ! 0)")
    case None
    have "\<forall>s \<in> fst ` set r \<union> set (shares @ [share]). s = f (s ! 0) \<and> s \<noteq> []" using "2.prems"(1) ne by auto
    from "2.IH"(1) [OF ne(1) None this indexed_add [OF "2.prems"(2) None]] show ?thesis
      unfolding add_shares.simps(2) None option.case if_not_P [OF ne(1)] .
  next
    case (Some prev)
    then have "prev = f (prev ! 0)" "prev ! 0 = share ! 0"
      using indexed_Some [OF "2.prems"(2) Some] "2.prems"(1) by blast+
    then have p: "prev = share" using ne(2) by simp
    have "\<forall>s \<in> fst ` set r \<union> set shares. s = f (s ! 0) \<and> s \<noteq> []" using "2.prems"(1) by auto
    from "2.IH"(2) [OF ne(1) Some p this "2.prems"(2)] Some p ne show ?thesis by simp
  qed
qed auto

lemma check_ceremony_Inr:
  "check_ceremony i t n c sfs = Inr () \<longleftrightarrow>
     (\<forall>sf \<in> set sfs. sf_Threshold sf = t \<and> sf_N sf = n \<and> sf_Checksum sf = c)"
  by (induction i t n c sfs rule: check_ceremony.induct) auto

definition effective_threshold :: "Inputs \<Rightarrow> int" where
  "effective_threshold inp =
     (case in_Labelled inp of [] \<Rightarrow> in_ThresholdHint inp | sf # _ \<Rightarrow> sf_Threshold sf)"

definition same_ceremony :: "ShareFile list \<Rightarrow> bool" where
  "same_ceremony sfs \<longleftrightarrow> (\<forall>sf \<in> set sfs. \<forall>sf' \<in> set sfs.
     sf_Threshold sf = sf_Threshold sf' \<and> sf_N sf = sf_N sf' \<and> sf_Checksum sf = sf_Checksum sf')"

definition supplied_shares :: "Inputs \<Rightarrow> bytes set" where
  "supplied_shares inp = sf_Share ` set (in_Labelled inp) \<union> set (in_Raw inp)"

lemma assembleShares_ok:
  assumes "assembleShares inp = (Inr shares, notices)"
  shows "same_ceremony (in_Labelled inp) \<and> set shares = supplied_shares inp
    \<and> distinct (map (\<lambda>s. s ! 0) shares) \<and> effective_threshold inp \<le> int (length shares)"
proof -
  have fl: "fst ` set (origin_shares inp) = supplied_shares inp"
    by (simp add: origin_shares_def supplied_shares_def image_Un image_image)
  obtain t where t: "ceremony_threshold inp = Inr t" "add_shares (origin_shares inp) Map.empty [] [] = (Inr shares, notices)"
    and a: "\<not> (t > 0 \<and> int (length shares) < t)"
    using assms unfolding assembleShares_def by (auto split: sum.splits prod.splits if_splits)
  have "t = effective_threshold inp" "same_ceremony (in_Labelled inp)"
    using t(1) unfolding ceremony_threshold_def effective_threshold_def same_ceremony_def
    by (auto simp: check_ceremony_Inr split: list.splits)
  with add_shares_ok [OF t(2)] a fl show ?thesis by (auto simp: indexed_def)
qed

lemma Checksum_len: "length key = SecretBytes \<Longrightarrow> \<exists>c. Checksum key = Inr c \<and> length c = ChecksumBytes"
  by (simp add: Checksum_def ChecksumBytes_def)

lemma VerifyChecksum_iff: "VerifyChecksum key c \<longleftrightarrow> Checksum key = Inr c"
proof (cases "Checksum key")
  case (Inr got)
  then have "length key = SecretBytes" by (auto simp: Checksum_def split: if_splits)
  then have "length got = ChecksumBytes" using Checksum_len Inr by fastforce
  then show ?thesis using Inr by (auto simp: VerifyChecksum_def)
qed (simp add: VerifyChecksum_def)

lemma OpenEnvelope_Inr_iff:
  "OpenEnvelope env key = Inr pt \<longleftrightarrow>
     length key = SecretBytes \<and> ef_Ciphertext env = gcm_seal key (ef_IV env) pt []"
  using gcm.open_SomeD [of key "ef_IV env" "ef_Ciphertext env" "[]" pt] gcm.open_seal [of key "ef_IV env" pt "[]"]
  by (auto simp: OpenEnvelope_def)

section \<open>Properties\<close>

text \<open>
  C10. A ceremony's artefacts recover the identity file: take a wrapping key shared over GF(256) with
  threshold \<open>t\<close> (every byte by a polynomial of at most \<open>t\<close> coefficients), labelled files for the
  custodians \<open>xs\<close>, emailed bodies for the custodians \<open>ys\<close> and the envelope sealed under the key.
  If at least \<open>t\<close> (and two) different custodians take part, \<open>Recombine\<close> returns the plaintext,
  however often a custodian is supplied and in whatever mix of the two forms.
\<close>
theorem Recombine_recovers:
  assumes "length polys = SecretBytes" and "\<forall>q \<in> set polys. q \<noteq> [] \<and> length q \<le> t" and "2 \<le> t"
    and "0 \<notin> set (xs @ ys)" and "t \<le> card (set (xs @ ys))" and "hint \<le> int t"
    and "Checksum (map hd polys) = Inr c"
  shows "fst (Recombine \<lparr>in_Labelled = map (\<lambda>x. \<lparr>sf_Index = uint x, sf_N = n, sf_Threshold = int t,
                             sf_Checksum = c, sf_Share = shamir_share polys x\<rparr>) xs,
           in_Raw = map (shamir_share polys) ys, in_WrappingKey = None,
           in_Envelope = Some \<lparr>ef_IV = iv, ef_Ciphertext = gcm_seal (map hd polys) iv pt [], ef_CredentialID = cred\<rparr>,
           in_ThresholdHint = hint\<rparr>) = Inr pt"
proof -
  let ?sf = "\<lambda>x. \<lparr>sf_Index = uint x, sf_N = n, sf_Threshold = int t, sf_Checksum = c, sf_Share = shamir_share polys x\<rparr>"
  define env where "env = \<lparr>ef_IV = iv, ef_Ciphertext = gcm_seal (map hd polys) iv pt [], ef_CredentialID = cred\<rparr>"
  define inp where "inp = \<lparr>in_Labelled = map ?sf xs, in_Raw = map (shamir_share polys) ys,
      in_WrappingKey = None, in_Envelope = Some env, in_ThresholdHint = hint\<rparr>"
  define l where "l = origin_shares inp"
  have hd0: "shamir_share polys x ! 0 = x" for x by (simp add: shamir_share_def)
  have fl: "fst ` set l = shamir_share polys ` set (xs @ ys)"
    by (simp add: l_def origin_shares_def inp_def image_Un image_image)
  then have "\<forall>s \<in> fst ` set l \<union> set []. s = shamir_share polys (s ! 0) \<and> s \<noteq> []"
    by (auto simp: shamir_share_def)
  then obtain res notices where res: "add_shares l Map.empty [] [] = (Inr res, notices)"
    using add_shares_consistent [of l "[]" "shamir_share polys" Map.empty "[]"] by (auto simp: indexed_def)
  then have r: "set res = shamir_share polys ` set (xs @ ys)" "distinct (map (\<lambda>s. s ! 0) res)"
    using add_shares_ok [OF res] fl by (auto simp: indexed_def)
  let ?zs = "map (\<lambda>s. s ! 0) res"
  have zs: "set ?zs = set (xs @ ys)" using r(1) by (simp add: image_image hd0)
  have res_zs: "map (shamir_share polys) ?zs = res"
    using r(1) by (intro map_idI [THEN trans [OF map_map]]) (auto simp: hd0)
  have len: "t \<le> length res" using distinct_card [OF r(2)] zs assms(5) by simp
  obtain thr where thr: "ceremony_threshold inp = Inr thr" "thr \<le> int t"
    using assms(6) by (cases xs) (auto simp: ceremony_threshold_def inp_def check_ceremony_Inr)
  have "assembleShares inp = (Inr res, notices)"
    using res len assms(3) thr unfolding l_def by (auto simp: assembleShares_def)
  moreover have "Combine res = Inr (map hd polys)"
  proof -
    have "\<forall>q \<in> set polys. q \<noteq> [] \<and> length q \<le> length ?zs" using assms(2) len by force
    from Combine_shares [OF assms(1) this _ r(2)] zs assms(3,4) len show ?thesis unfolding res_zs by simp
  qed
  moreover have "labelledChecksum (in_Labelled inp) = None \<or> labelledChecksum (in_Labelled inp) = Some c"
    by (cases xs) (simp_all add: labelledChecksum_def inp_def)
  moreover have "OpenEnvelope env (map hd polys) = Inr pt"
    unfolding OpenEnvelope_Inr_iff using assms(1) by (simp add: env_def)
  ultimately have "fst (Recombine inp) = Inr pt"
    using assms(7) by (auto simp: Recombine_def inp_def VerifyChecksum_iff)
  then show ?thesis by (simp add: inp_def env_def)
qed

theorem Recombine_recovers_witness:
  "fst (Recombine \<lparr>in_Labelled = map (\<lambda>x. \<lparr>sf_Index = uint x, sf_N = 3, sf_Threshold = int 2,
       sf_Checksum = take 4 (sha256 (bytes_of checksumDomain @ replicate 32 7)),
       sf_Share = shamir_share (replicate 32 [7, 9]) x\<rparr>) [1, 1],
     in_Raw = map (shamir_share (replicate 32 [7, 9])) [3], in_WrappingKey = None,
     in_Envelope = Some \<lparr>ef_IV = replicate 12 0, ef_Ciphertext = gcm_seal (map hd (replicate 32 [7, 9])) (replicate 12 0) [1, 2, 3] [],
                         ef_CredentialID = None\<rparr>,
     in_ThresholdHint = 0\<rparr>) = Inr [1, 2, 3]"
  by (rule Recombine_recovers) (simp_all add: SecretBytes_def Checksum_def ChecksumBytes_def)

text \<open>
  C11. \<open>Recombine\<close> never returns anything but an authenticated plaintext, and never from a mixed or
  insufficient set: if it returns \<open>pt\<close> then the envelope is the AES-256-GCM sealing of \<open>pt\<close> under a
  32-byte key that is either the wrapping key supplied alone, or the value \<open>Combine\<close> gives for the
  distinct supplied shares (at least as many as the threshold in force, all labelled files of one
  ceremony) and, with a labelled file, matches its public checksum.
\<close>
theorem Recombine_authentic:
  assumes "fst (Recombine inp) = Inr pt"
  shows "\<exists>env key. in_Envelope inp = Some env \<and> length key = SecretBytes
    \<and> ef_Ciphertext env = gcm_seal key (ef_IV env) pt []
    \<and> (case in_WrappingKey inp of
         Some k \<Rightarrow> k = key \<and> in_Labelled inp = [] \<and> in_Raw inp = []
       | None \<Rightarrow> same_ceremony (in_Labelled inp)
           \<and> (\<forall>sf \<in> set (in_Labelled inp). Checksum key = Inr (sf_Checksum sf))
           \<and> (\<exists>shares. Combine shares = Inr key \<and> set shares = supplied_shares inp
                \<and> distinct (map (\<lambda>s. s ! 0) shares) \<and> effective_threshold inp \<le> int (length shares)))"
proof -
  obtain env where env: "in_Envelope inp = Some env"
    using assms by (auto simp: Recombine_def split: option.splits)
  show ?thesis
  proof (cases "in_WrappingKey inp")
    case (Some k)
    then have "OpenEnvelope env k = Inr pt" "in_Labelled inp = []" "in_Raw inp = []"
      using assms env by (auto simp: Recombine_def split: if_splits)
    then show ?thesis using env Some by (auto simp: OpenEnvelope_Inr_iff)
  next
    case None
    obtain shares notices where sh: "assembleShares inp = (Inr shares, notices)"
      using assms env None by (auto simp: Recombine_def split: prod.splits sum.splits)
    obtain key where key: "Combine shares = Inr key"
      using assms env None sh by (auto simp: Recombine_def split: sum.splits)
    have "OpenEnvelope env key = Inr pt"
      and ck: "case labelledChecksum (in_Labelled inp) of None \<Rightarrow> True | Some c \<Rightarrow> Checksum key = Inr c"
      using assms env None sh key by (auto simp: Recombine_def VerifyChecksum_iff split: if_splits option.splits)
    moreover have "\<forall>sf \<in> set (in_Labelled inp). Checksum key = Inr (sf_Checksum sf)"
    proof (cases "in_Labelled inp")
      case (Cons sf r)
      then have "Checksum key = Inr (sf_Checksum sf)" using ck by (simp add: labelledChecksum_def)
      moreover have "\<forall>sf' \<in> set (in_Labelled inp). sf_Checksum sf' = sf_Checksum sf"
        using assembleShares_ok [OF sh] Cons unfolding same_ceremony_def by (metis list.set_intros(1))
      ultimately show ?thesis by simp
    qed simp
    ultimately show ?thesis
      using env None key assembleShares_ok [OF sh] by (auto simp: OpenEnvelope_Inr_iff)
  qed
qed

theorem Recombine_authentic_witness:
  "\<exists>env key. Some \<lparr>ef_IV = replicate 12 0, ef_Ciphertext = gcm_seal (replicate 32 7) (replicate 12 0) [1] [], ef_CredentialID = None\<rparr> = Some env
     \<and> length key = SecretBytes \<and> ef_Ciphertext env = gcm_seal key (ef_IV env) [1] [] \<and> replicate 32 7 = key"
proof -
  let ?env = "\<lparr>ef_IV = replicate 12 0, ef_Ciphertext = gcm_seal (replicate 32 7) (replicate 12 0) [1] [], ef_CredentialID = None\<rparr>"
  let ?inp = "\<lparr>in_Labelled = [], in_Raw = [], in_WrappingKey = Some (replicate 32 7), in_Envelope = Some ?env, in_ThresholdHint = 0\<rparr>"
  have "OpenEnvelope ?env (replicate 32 7) = Inr [1]"
    unfolding OpenEnvelope_Inr_iff by (simp add: SecretBytes_def)
  then have "fst (Recombine ?inp) = Inr [1]" by (simp add: Recombine_def)
  from Recombine_authentic [OF this] show ?thesis by auto
qed

text \<open>
  A parse failure discloses nothing of the file: every string the error of one of the five
  artefact parsers carries is one of the program's own constants (a file magic or a label of the
  closed label set), whatever the file holds; the rest of the error is numbers.
\<close>
theorem parse_errors_disclose_nothing:
  "(ParseShareFile txt = Inl e \<or> ParseRawShare txt = Inl e \<or> ParseEnvelopeFile txt = Inl e
     \<or> ParseWrappingKeyFile txt = Inl e \<or> DecodeB64 txt = Inl e) \<longrightarrow>
   set (error_strings e) \<subseteq> set artefact_constants"
proof -
  have "ParseShareFile txt = Inl e \<Longrightarrow> silent e"
    unfolding ParseShareFile_def rbind_eq_Inl_iff
    by (elim disjE exE conjE; (erule silent_parts, simp)?; auto split: if_splits)
  moreover have "ParseEnvelopeFile txt = Inl e \<Longrightarrow> silent e"
    unfolding ParseEnvelopeFile_def rbind_eq_Inl_iff
    by (elim disjE exE conjE; (erule silent_parts, simp)?;
        auto simp: rbind_eq_Inl_iff dest!: DecodeB64_silent split: if_splits option.splits)
  moreover have "ParseWrappingKeyFile txt = Inl e \<Longrightarrow> silent e"
    unfolding ParseWrappingKeyFile_def rbind_eq_Inl_iff
    by (elim disjE exE conjE; (erule silent_parts, simp)?; auto split: if_splits)
  moreover have "ParseRawShare txt = Inl e \<Longrightarrow> silent e"
    by (auto simp: ParseRawShare_def rbind_eq_Inl_iff split: if_splits dest: raw_token_silent dest!: DecodeB64_silent)
  moreover have "DecodeB64 txt = Inl e \<Longrightarrow> silent e" by (auto dest!: DecodeB64_silent)
  ultimately show ?thesis unfolding silent_def by blast
qed

theorem parse_errors_disclose_nothing_witness:
  "ParseWrappingKeyFile ''secret'' = Inl (ArtefactError (NotAFile WrappingKeyFileMagic))
   \<and> set (error_strings (ArtefactError (NotAFile WrappingKeyFileMagic))) \<subseteq> set artefact_constants"
proof -
  have "ParseWrappingKeyFile ''secret'' = Inl (ArtefactError (NotAFile WrappingKeyFileMagic))"
    by code_simp
  then show ?thesis using parse_errors_disclose_nothing by blast
qed

text \<open>
  What the share parser accepts is within the format's bounds: \<open>2 \<le> threshold \<le> n \<le> 255\<close>, an index
  between 1 and 255 that is the first byte of the 33-byte share body, and a 4-byte checksum; and a
  raw share has 33 bytes and a non-zero index.
\<close>
theorem parsed_shares_well_formed:
  "(ParseShareFile txt = Inr sf \<longrightarrow>
      2 \<le> sf_Threshold sf \<and> sf_Threshold sf \<le> sf_N sf \<and> sf_N sf \<le> 255
      \<and> 1 \<le> sf_Index sf \<and> sf_Index sf \<le> 255 \<and> uint (sf_Share sf ! 0) = sf_Index sf
      \<and> length (sf_Share sf) = ShareBytes \<and> length (sf_Checksum sf) = ChecksumBytes)
   \<and> (ParseRawShare txt = Inr share \<longrightarrow> length share = ShareBytes \<and> share ! 0 \<noteq> 0)"
  by (auto simp: ParseShareFile_def ParseRawShare_def split: if_splits)

theorem parsed_shares_well_formed_witness:
  "ParseRawShare ''AQAAAAAAAAAAAAAAAAAAAAAAAAAAAAAAAAAAAAAAAAAA'' = Inr (1 # replicate 32 0)
   \<and> length (1 # replicate 32 (0 :: byte)) = ShareBytes \<and> (1 # replicate 32 (0 :: byte)) ! 0 \<noteq> 0"
proof -
  have "ParseRawShare ''AQAAAAAAAAAAAAAAAAAAAAAAAAAAAAAAAAAAAAAAAAAA'' = Inr (1 # replicate 32 0)"
    by code_simp
  then show ?thesis using parsed_shares_well_formed by blast
qed

end
