(* ===== verification/Utf8.thy ===== *)
theory Utf8
  imports GoStrings
begin

text \<open>
  What the code uses of Go's \<open>unicode/utf8\<close>, \<open>unicode/utf16\<close> and \<open>strings.EqualFold\<close>. A Go string is a
  list of bytes, here of characters with codes below 256; a rune is a natural number. Decoding follows
  \<open>utf8.DecodeRuneInString\<close>: an ill-formed sequence yields the replacement character and one byte.
\<close>

section \<open>Runes\<close>

definition RuneError :: nat where
  "RuneError = 0xFFFD"

definition code :: "char \<Rightarrow> nat" where
  "code c = of_char c"

definition cont_byte :: "nat \<Rightarrow> bool" where
  "cont_byte b \<longleftrightarrow> 0x80 \<le> b \<and> b \<le> 0xBF"

text \<open>The range of the second byte, given the first byte of a three- or four-byte sequence.\<close>

definition second_range :: "nat \<Rightarrow> nat \<times> nat" where
  "second_range b0 =
     (if b0 = 0xE0 then (0xA0, 0xBF) else if b0 = 0xED then (0x80, 0x9F)
      else if b0 = 0xF0 then (0x90, 0xBF) else if b0 = 0xF4 then (0x80, 0x8F) else (0x80, 0xBF))"

definition in_range :: "nat \<Rightarrow> nat \<times> nat \<Rightarrow> bool" where
  "in_range b r \<longleftrightarrow> fst r \<le> b \<and> b \<le> snd r"

definition decode_rune :: "string \<Rightarrow> nat \<times> nat" where
  "decode_rune s = (case s of
     [] \<Rightarrow> (RuneError, 0)
   | c0 # r \<Rightarrow>
       let b0 = code c0 in
       if b0 < 0x80 then (b0, 1)
       else if 0xC2 \<le> b0 \<and> b0 \<le> 0xDF then
         (case r of
            c1 # _ \<Rightarrow> if cont_byte (code c1) then ((b0 - 0xC0) * 64 + (code c1 - 0x80), 2) else (RuneError, 1)
          | [] \<Rightarrow> (RuneError, 1))
       else if 0xE0 \<le> b0 \<and> b0 \<le> 0xEF then
         (case r of
            c1 # c2 # _ \<Rightarrow>
              if in_range (code c1) (second_range b0) \<and> cont_byte (code c2)
              then ((b0 - 0xE0) * 4096 + (code c1 - 0x80) * 64 + (code c2 - 0x80), 3) else (RuneError, 1)
          | _ \<Rightarrow> (RuneError, 1))
       else if 0xF0 \<le> b0 \<and> b0 \<le> 0xF4 then
         (case r of
            c1 # c2 # c3 # _ \<Rightarrow>
              if in_range (code c1) (second_range b0) \<and> cont_byte (code c2) \<and> cont_byte (code c3)
              then ((b0 - 0xF0) * 262144 + (code c1 - 0x80) * 4096 + (code c2 - 0x80) * 64 + (code c3 - 0x80), 4)
              else (RuneError, 1)
          | _ \<Rightarrow> (RuneError, 1))
       else (RuneError, 1))"

definition encode_rune :: "nat \<Rightarrow> string" where
  "encode_rune r0 =
     (let r = (if r0 > 0x10FFFF \<or> (0xD800 \<le> r0 \<and> r0 \<le> 0xDFFF) then RuneError else r0)
      in if r < 0x80 then [char_of r]
         else if r < 0x800 then [char_of (0xC0 + r div 64), char_of (0x80 + r mod 64)]
         else if r < 0x10000 then
           [char_of (0xE0 + r div 4096), char_of (0x80 + r div 64 mod 64), char_of (0x80 + r mod 64)]
         else [char_of (0xF0 + r div 262144), char_of (0x80 + r div 4096 mod 64),
               char_of (0x80 + r div 64 mod 64), char_of (0x80 + r mod 64)])"

lemma code_lt [simp]: "code c < 256"
  unfolding code_def by (metis mod_less_divisor of_char_mod_256 zero_less_numeral)

lemma code_char_of [simp]: "code (char_of n) = n mod 256"
  by (simp add: code_def)

lemma char_of_code [simp]: "char_of (code c) = c"
  by (simp add: code_def)

lemma decode_rune_width:
  "s \<noteq> [] \<Longrightarrow> 1 \<le> snd (decode_rune s) \<and> snd (decode_rune s) \<le> length s"
  by (cases s) (auto simp: decode_rune_def Let_def split: list.splits)

text \<open>\<open>[]rune(s)\<close> and \<open>utf8.ValidString\<close>; a \<open>range\<close> over a string is a loop over the former.\<close>

function runes :: "string \<Rightarrow> nat list" where
  "runes s = (if s = [] then [] else fst (decode_rune s) # runes (drop (snd (decode_rune s)) s))"
  by auto
termination
  by (relation "measure length") (use decode_rune_width in \<open>auto simp: Suc_le_eq\<close>)

function ValidString :: "string \<Rightarrow> bool" where
  "ValidString s =
     (if s = [] then True
      else if decode_rune s = (RuneError, 1) then False
      else ValidString (drop (snd (decode_rune s)) s))"
  by auto
termination
  by (relation "measure length") (use decode_rune_width in \<open>auto simp: Suc_le_eq\<close>)

declare runes.simps [simp del] ValidString.simps [simp del]

lemma runes_Nil [simp]: "runes [] = []"
  by (simp add: runes.simps)

lemma ValidString_Nil [simp]: "ValidString []"
  by (simp add: ValidString.simps)

text \<open>\<open>strings.ToValidUTF8\<close> as \<open>encoding/json\<close> applies it: every ill-formed byte becomes U+FFFD.\<close>

definition to_valid :: "string \<Rightarrow> string" where
  "to_valid s = concat (map encode_rune (runes s))"

text \<open>\<open>utf16.Encode\<close>.\<close>

definition utf16_units :: "nat \<Rightarrow> nat list" where
  "utf16_units r =
     (if r < 0xD800 \<or> (0xE000 \<le> r \<and> r < 0x10000) then [r]
      else if 0x10000 \<le> r \<and> r \<le> 0x10FFFF
      then [0xD800 + (r - 0x10000) div 1024, 0xDC00 + (r - 0x10000) mod 1024]
      else [RuneError])"

definition utf16_Encode :: "nat list \<Rightarrow> nat list" where
  "utf16_Encode rs = concat (map utf16_units rs)"

text \<open>
  Simple case folding against an ASCII name: beside the ASCII letters, the Kelvin sign folds to
  \<open>k\<close> and the long s to \<open>s\<close>. Every field name the code compares with is ASCII.
\<close>

definition fold_rune :: "nat \<Rightarrow> nat" where
  "fold_rune r =
     (if 65 \<le> r \<and> r \<le> 90 then r + 32 else if r = 0x212A then 107 else if r = 0x17F then 115 else r)"

definition EqualFold :: "string \<Rightarrow> string \<Rightarrow> bool" where
  "EqualFold s t \<longleftrightarrow> map fold_rune (runes s) = map fold_rune (runes t)"

section \<open>Lemmas\<close>

lemma decode_ascii: "code c < 0x80 \<Longrightarrow> decode_rune (c # s) = (code c, 1)"
  by (simp add: decode_rune_def)

lemma runes_ascii: "code c < 0x80 \<Longrightarrow> runes (c # s) = code c # runes s"
  by (subst runes.simps) (simp add: decode_ascii)

lemma Valid_ascii [simp]: "code c < 0x80 \<Longrightarrow> ValidString (c # s) = ValidString s"
  by (subst ValidString.simps) (simp add: decode_ascii RuneError_def)

lemma div_mult_add_less: "x < n \<Longrightarrow> (a * n + x) div n = (a :: nat)"
  by simp

lemma mod_mult_add_less: "x < n \<Longrightarrow> (a * n + x) mod n = (x :: nat)"
  by simp

lemma digits3:
  assumes "x < 64" "y < (64 :: nat)"
  shows "(a * 4096 + x * 64 + y) div 4096 = a" "(a * 4096 + x * 64 + y) div 64 mod 64 = x"
    "(a * 4096 + x * 64 + y) mod 64 = y"
proof -
  have e: "a * 4096 + x * 64 + y = (a * 64 + x) * 64 + y" by simp
  have d: "(a * 4096 + x * 64 + y) div 64 = a * 64 + x" unfolding e by (rule div_mult_add_less [OF assms(2)])
  then show "(a * 4096 + x * 64 + y) div 64 mod 64 = x" by (simp only: d mod_mult_add_less [OF assms(1)])
  show "(a * 4096 + x * 64 + y) mod 64 = y" unfolding e by (rule mod_mult_add_less [OF assms(2)])
  have "(a * 4096 + x * 64 + y) div 4096 = (a * 4096 + x * 64 + y) div 64 div 64" by (simp add: div_mult2_eq [symmetric])
  then show "(a * 4096 + x * 64 + y) div 4096 = a" by (simp only: d div_mult_add_less [OF assms(1)])
qed

lemma digits4:
  assumes "x < 64" "y < 64" "z < (64 :: nat)"
  shows "(a * 262144 + x * 4096 + y * 64 + z) div 262144 = a" "(a * 262144 + x * 4096 + y * 64 + z) div 4096 mod 64 = x"
    "(a * 262144 + x * 4096 + y * 64 + z) div 64 mod 64 = y" "(a * 262144 + x * 4096 + y * 64 + z) mod 64 = z"
proof -
  have e: "a * 262144 + x * 4096 + y * 64 + z = (a * 64 + x) * 4096 + y * 64 + z" by simp
  note d = digits3 [OF assms(2,3), of "a * 64 + x", folded e]
  show "(a * 262144 + x * 4096 + y * 64 + z) div 4096 mod 64 = x" by (simp only: d(1) mod_mult_add_less [OF assms(1)])
  show "(a * 262144 + x * 4096 + y * 64 + z) div 64 mod 64 = y" by (rule d(2))
  show "(a * 262144 + x * 4096 + y * 64 + z) mod 64 = z" by (rule d(3))
  have "(a * 262144 + x * 4096 + y * 64 + z) div 262144 = (a * 262144 + x * 4096 + y * 64 + z) div 4096 div 64"
    by (simp add: div_mult2_eq [symmetric])
  then show "(a * 262144 + x * 4096 + y * 64 + z) div 262144 = a" by (simp only: d(1) div_mult_add_less [OF assms(1)])
qed

lemma encode_rune_cases:
  "0x80 \<le> n \<Longrightarrow> n < 0x800 \<Longrightarrow> encode_rune n = [char_of (0xC0 + n div 64), char_of (0x80 + n mod 64)]"
  "0x800 \<le> n \<Longrightarrow> n < 0x10000 \<Longrightarrow> \<not> (0xD800 \<le> n \<and> n \<le> 0xDFFF) \<Longrightarrow>
     encode_rune n = [char_of (0xE0 + n div 4096), char_of (0x80 + n div 64 mod 64), char_of (0x80 + n mod 64)]"
  "0x10000 \<le> n \<Longrightarrow> n \<le> 0x10FFFF \<Longrightarrow>
     encode_rune n = [char_of (0xF0 + n div 262144), char_of (0x80 + n div 4096 mod 64),
       char_of (0x80 + n div 64 mod 64), char_of (0x80 + n mod 64)]"
  by (auto simp: encode_rune_def)

lemma char_of_add_code: "k \<le> code c \<Longrightarrow> char_of (k + (code c - k)) = c"
  by simp

lemma encode_decode:
  assumes "s \<noteq> []" "decode_rune s \<noteq> (RuneError, 1)"
  shows "encode_rune (fst (decode_rune s)) = take (snd (decode_rune s)) s"
proof -
  obtain c0 r where s: "s = c0 # r" using assms(1) by (cases s) auto
  note d = assms(2) [unfolded s]
  consider (1) "code c0 < 0x80" | (2) "0xC2 \<le> code c0" "code c0 \<le> 0xDF" | (3) "0xE0 \<le> code c0" "code c0 \<le> 0xEF"
    | (4) "0xF0 \<le> code c0" "code c0 \<le> 0xF4"
    using d by (auto simp: decode_rune_def Let_def split: if_splits)
  then show ?thesis
  proof cases
    case 1
    then show ?thesis using s by (simp add: decode_ascii encode_rune_def)
  next
    case 2
    with d obtain c1 r1 where r: "r = c1 # r1" "cont_byte (code c1)"
      by (auto simp: decode_rune_def Let_def split: if_splits list.splits)
    let ?n = "(code c0 - 0xC0) * 64 + (code c1 - 0x80)"
    have b: "0x80 \<le> code c1" "code c1 \<le> 0xBF" using r by (auto simp: cont_byte_def)
    have n: "decode_rune s = (?n, 2)" using 2 s r by (simp add: decode_rune_def)
    have l: "code c1 - 0x80 < 64" using b by simp
    have g: "?n div 64 = code c0 - 0xC0" "?n mod 64 = code c1 - 0x80"
      by (rule div_mult_add_less [OF l], rule mod_mult_add_less [OF l])
    have b1: "0x80 \<le> ?n" "?n < 0x800" using b 2 by auto
    have "encode_rune ?n = [char_of (0xC0 + (code c0 - 0xC0)), char_of (0x80 + (code c1 - 0x80))]"
      unfolding encode_rune_cases(1) [OF b1] g by (rule refl)
    also have "\<dots> = [c0, c1]"
      using b 2 by (simp add: char_of_add_code del: add_diff_cancel_left add_diff_inverse_nat)
    finally show ?thesis using n s r(1) by simp
  next
    case 3
    with d obtain c1 c2 r1 where r: "r = c1 # c2 # r1" "in_range (code c1) (second_range (code c0))" "cont_byte (code c2)"
      by (auto simp: decode_rune_def Let_def split: if_splits list.splits)
    let ?n = "(code c0 - 0xE0) * 4096 + (code c1 - 0x80) * 64 + (code c2 - 0x80)"
    have b: "0x80 \<le> code c1" "code c1 \<le> 0xBF" "code c0 = 0xE0 \<longrightarrow> 0xA0 \<le> code c1" "code c0 = 0xED \<longrightarrow> code c1 \<le> 0x9F"
      "0x80 \<le> code c2" "code c2 \<le> 0xBF"
      using r by (auto simp: in_range_def second_range_def cont_byte_def split: if_splits)
    have n: "decode_rune s = (?n, 3)" using 3 s r by (simp add: decode_rune_def)
    have l: "code c1 - 0x80 < 64" "code c2 - 0x80 < 64" using b by simp_all
    note g = digits3 [OF l, of "code c0 - 0xE0"]
    have b1: "0x800 \<le> ?n" "?n < 0x10000" using b 3 by auto
    have sur: "\<not> (0xD800 \<le> ?n \<and> ?n \<le> 0xDFFF)"
    proof -
      have "code c0 < 0xED \<Longrightarrow> ?n < 0xD800" using b 3 by simp
      moreover have "code c0 = 0xED \<Longrightarrow> ?n < 0xD800" using b by simp
      moreover have "0xED < code c0 \<Longrightarrow> 0xDFFF < ?n" using b by simp
      ultimately show ?thesis by linarith
    qed
    have "encode_rune ?n = [char_of (0xE0 + (code c0 - 0xE0)), char_of (0x80 + (code c1 - 0x80)), char_of (0x80 + (code c2 - 0x80))]"
      unfolding encode_rune_cases(2) [OF b1 sur] g by (rule refl)
    also have "\<dots> = [c0, c1, c2]"
      using b 3 by (simp add: char_of_add_code del: add_diff_cancel_left add_diff_inverse_nat)
    finally show ?thesis using n s r(1) by simp
  next
    case 4
    with d obtain c1 c2 c3 r1 where r: "r = c1 # c2 # c3 # r1" "in_range (code c1) (second_range (code c0))"
      "cont_byte (code c2)" "cont_byte (code c3)"
      by (auto simp: decode_rune_def Let_def split: if_splits list.splits)
    let ?n = "(code c0 - 0xF0) * 262144 + (code c1 - 0x80) * 4096 + (code c2 - 0x80) * 64 + (code c3 - 0x80)"
    have b: "0x80 \<le> code c1" "code c1 \<le> 0xBF" "code c0 = 0xF0 \<longrightarrow> 0x90 \<le> code c1" "code c0 = 0xF4 \<longrightarrow> code c1 \<le> 0x8F"
      "0x80 \<le> code c2" "code c2 \<le> 0xBF" "0x80 \<le> code c3" "code c3 \<le> 0xBF"
      using r by (auto simp: in_range_def second_range_def cont_byte_def split: if_splits)
    have n: "decode_rune s = (?n, 4)" using 4 s r by (simp add: decode_rune_def)
    have l: "code c1 - 0x80 < 64" "code c2 - 0x80 < 64" "code c3 - 0x80 < 64" using b by simp_all
    note g = digits4 [OF l, of "code c0 - 0xF0"]
    have b1: "0x10000 \<le> ?n" "?n \<le> 0x10FFFF" using b 4 by auto
    have "encode_rune ?n = [char_of (0xF0 + (code c0 - 0xF0)), char_of (0x80 + (code c1 - 0x80)), char_of (0x80 + (code c2 - 0x80)), char_of (0x80 + (code c3 - 0x80))]"
      unfolding encode_rune_cases(3) [OF b1] g by (rule refl)
    also have "\<dots> = [c0, c1, c2, c3]"
      using b 4 by (simp add: char_of_add_code del: add_diff_cancel_left add_diff_inverse_nat)
    finally show ?thesis using n s r(1) by simp
  qed
qed

lemma to_valid_id: "ValidString s \<Longrightarrow> to_valid s = s"
proof (induction s rule: ValidString.induct)
  case (1 s)
  show ?case
  proof (cases "s = []")
    case False
    then have d: "decode_rune s \<noteq> (RuneError, 1)" and v: "ValidString (drop (snd (decode_rune s)) s)"
      using 1(2) by (auto simp: ValidString.simps [of s] split: if_splits)
    have "to_valid s = encode_rune (fst (decode_rune s)) @ to_valid (drop (snd (decode_rune s)) s)"
      using False by (simp add: to_valid_def runes.simps [of s])
    then show ?thesis using 1(1) [OF False d v] encode_decode [OF False d] by simp
  qed (simp add: to_valid_def)
qed

lemma EqualFold_refl [simp]: "EqualFold s s"
  by (simp add: EqualFold_def)

end
