(* ===== verification/Json.thy ===== *)
theory Json
  imports Utf8
begin

text \<open>
  What the code uses of Go's \<open>encoding/json\<close>. A text is cut into tokens and the tokens are read by a
  stack machine, the form of Go's own scanner: the nesting limit is the height of the stack. A value
  keeps the members of an object in the order of the text, with repeated names; \<open>decode_any\<close> is the
  value a Go \<open>map[string]any\<close> holds, where the last of them wins. Numbers are kept as their literal,
  as \<open>UseNumber\<close> does.
\<close>

datatype jval =
    JNull
  | JBool bool
  | JNumber string
  | JString string
  | JArray "jval list"
  | JObject "(string \<times> jval) list"

section \<open>Tokens\<close>

datatype token =
    TLBrace
  | TRBrace
  | TLBrack
  | TRBrack
  | TColon
  | TComma
  | TStr string
  | TScalar jval
  | TBad

definition is_digit :: "char \<Rightarrow> bool" where
  "is_digit c \<longleftrightarrow> 48 \<le> code c \<and> code c \<le> 57"

fun hex4 :: "string \<Rightarrow> (nat \<times> string) option" where
  "hex4 (a # b # c # d # r) =
     (case (hex_value a, hex_value b, hex_value c, hex_value d) of
        (Some w, Some x, Some y, Some z) \<Rightarrow> Some (((w * 16 + x) * 16 + y) * 16 + z, r)
      | _ \<Rightarrow> None)"
| "hex4 _ = None"

definition simple_escape :: "char \<Rightarrow> char option" where
  "simple_escape e =
     (if e = CHR 0x22 then Some e else if e = CHR 0x5C then Some e else if e = CHR ''/'' then Some e
      else if e = CHR ''b'' then Some (CHR 0x08) else if e = CHR ''f'' then Some (CHR 0x0C)
      else if e = CHR ''n'' then Some (CHR 0x0A) else if e = CHR ''r'' then Some (CHR 0x0D)
      else if e = CHR ''t'' then Some (CHR 0x09) else None)"

definition utf16_DecodeRune :: "nat \<Rightarrow> nat \<Rightarrow> nat" where
  "utf16_DecodeRune r1 r2 =
     (if 0xD800 \<le> r1 \<and> r1 < 0xDC00 \<and> 0xDC00 \<le> r2 \<and> r2 < 0xE000
      then (r1 - 0xD800) * 1024 + (r2 - 0xDC00) + 0x10000 else RuneError)"

text \<open>One character of a string literal, not the closing quote: its text and what follows.\<close>

definition lex_char :: "string \<Rightarrow> (string \<times> string) option" where
  "lex_char s = (case s of
     [] \<Rightarrow> None
   | c # r \<Rightarrow>
       if c = CHR 0x5C then
         (case r of
            [] \<Rightarrow> None
          | e # r1 \<Rightarrow>
              if e = CHR ''u'' then
                (case hex4 r1 of
                   None \<Rightarrow> None
                 | Some (u, r2) \<Rightarrow>
                     if 0xD800 \<le> u \<and> u < 0xE000 then
                       (case r2 of
                          b # v # r3 \<Rightarrow>
                            if b = CHR 0x5C \<and> v = CHR ''u'' then
                              (case hex4 r3 of
                                 Some (u2, r4) \<Rightarrow>
                                   if utf16_DecodeRune u u2 \<noteq> RuneError
                                   then Some (encode_rune (utf16_DecodeRune u u2), r4)
                                   else Some (encode_rune RuneError, r2)
                               | None \<Rightarrow> Some (encode_rune RuneError, r2))
                            else Some (encode_rune RuneError, r2)
                        | _ \<Rightarrow> Some (encode_rune RuneError, r2))
                     else Some (encode_rune u, r2))
              else map_option (\<lambda>ch. ([ch], r1)) (simple_escape e))
       else if code c < 0x20 then None
       else Some (encode_rune (fst (decode_rune s)), drop (snd (decode_rune s)) s))"

lemma hex4_shorter: "hex4 s = Some (n, r) \<Longrightarrow> length r < length s"
  by (cases s rule: hex4.cases) (auto split: option.splits)

lemma lex_char_shorter: "lex_char s = Some (t, r) \<Longrightarrow> length r < length s"
  using decode_rune_width [of s]
  by (auto simp: lex_char_def split: list.splits if_splits option.splits prod.splits dest!: hex4_shorter)

function lex_string :: "string \<Rightarrow> (string \<times> string) option" where
  "lex_string s =
     (if s = [] then None
      else if hd s = CHR 0x22 then Some ([], tl s)
      else (case lex_char s of
              None \<Rightarrow> None
            | Some (t, r) \<Rightarrow> map_option (\<lambda>(u, r'). (t @ u, r')) (lex_string r)))"
  by auto
termination
  by (relation "measure length") (auto dest: lex_char_shorter)

declare lex_string.simps [simp del]

lemma lex_string_start [simp]: "lex_string [] = None" "lex_string (CHR 0x22 # r) = Some ([], r)"
  by (simp_all add: lex_string.simps [of "[]"] lex_string.simps [of "CHR 0x22 # r"])

lemma lex_string_shorter: "lex_string s = Some (t, r) \<Longrightarrow> length r < length s"
proof (induction s arbitrary: t rule: lex_string.induct)
  case (1 s)
  show ?case
  proof (cases "s = [] \<or> hd s = CHR 0x22")
    case True
    then show ?thesis using 1(2) by (cases s) auto
  next
    case False
    then obtain t0 r0 u where c: "lex_char s = Some (t0, r0)" "lex_string r0 = Some (u, r)"
      using 1(2) by (auto simp: lex_string.simps [of s] split: option.splits)
    then show ?thesis using 1(1) [of "(t0, r0)" t0 r0 u] False lex_char_shorter [OF c(1)] by auto
  qed
qed

definition lex_digits :: "string \<Rightarrow> string \<times> string" where
  "lex_digits s = (takeWhile is_digit s, dropWhile is_digit s)"

definition lex_int :: "string \<Rightarrow> (string \<times> string) option" where
  "lex_int s = (case s of
     [] \<Rightarrow> None
   | c # r \<Rightarrow> if c = CHR ''0'' then Some ([c], r) else if is_digit c then Some (lex_digits s) else None)"

definition lex_frac :: "string \<Rightarrow> (string \<times> string) option" where
  "lex_frac s = (case s of
     c # r \<Rightarrow>
       if c = CHR ''.'' then
         (let (ds, r') = lex_digits r in if ds = [] then None else Some (c # ds, r'))
       else Some ([], s)
   | [] \<Rightarrow> Some ([], s))"

definition lex_exp :: "string \<Rightarrow> (string \<times> string) option" where
  "lex_exp s = (case s of
     c # r \<Rightarrow>
       if c = CHR ''e'' \<or> c = CHR ''E'' then
         (let (sg, r1) = (case r of
                            d # r' \<Rightarrow> if d = CHR ''+'' \<or> d = CHR ''-'' then ([d], r') else ([], r)
                          | [] \<Rightarrow> ([], r));
              (ds, r') = lex_digits r1
          in if ds = [] then None else Some (c # sg @ ds, r'))
       else Some ([], s)
   | [] \<Rightarrow> Some ([], s))"

definition lex_number :: "string \<Rightarrow> (string \<times> string) option" where
  "lex_number s =
     (let (sg, r0) = (case s of c # r \<Rightarrow> if c = CHR ''-'' then ([c], r) else ([], s) | [] \<Rightarrow> ([], s))
      in case lex_int r0 of
           None \<Rightarrow> None
         | Some (i, r1) \<Rightarrow>
             (case lex_frac r1 of
                None \<Rightarrow> None
              | Some (f, r2) \<Rightarrow> map_option (\<lambda>(e, r3). (sg @ i @ f @ e, r3)) (lex_exp r2)))"

lemma lex_digits_le: "lex_digits s = (ds, r) \<Longrightarrow> length r \<le> length s"
  by (auto simp: lex_digits_def length_dropWhile_le)

lemma lex_int_shorter: "lex_int s = Some (i, r) \<Longrightarrow> length r < length s"
  by (auto simp: lex_int_def lex_digits_def le_imp_less_Suc length_dropWhile_le split: list.splits if_splits)

lemma lex_frac_le: "lex_frac s = Some (i, r) \<Longrightarrow> length r \<le> length s"
  by (auto simp: lex_frac_def le_SucI dest!: lex_digits_le split: list.splits if_splits prod.splits)

lemma lex_exp_le: "lex_exp s = Some (i, r) \<Longrightarrow> length r \<le> length s"
  by (auto simp: lex_exp_def le_SucI dest!: lex_digits_le split: list.splits if_splits prod.splits)

lemma lex_number_shorter: "lex_number s = Some (i, r) \<Longrightarrow> length r < length s"
  by (fastforce simp: lex_number_def split: list.splits if_splits prod.splits option.splits
      dest: lex_int_shorter lex_frac_le lex_exp_le)

definition json_space :: "char \<Rightarrow> bool" where
  "json_space c \<longleftrightarrow> c = CHR '' '' \<or> c = CHR 0x09 \<or> c = CHR 0x0A \<or> c = CHR 0x0D"

function lex :: "string \<Rightarrow> token list" where
  "lex [] = []"
| "lex (c # r) =
     (if json_space c then lex r
      else if c = CHR ''{'' then TLBrace # lex r
      else if c = CHR ''}'' then TRBrace # lex r
      else if c = CHR ''['' then TLBrack # lex r
      else if c = CHR '']'' then TRBrack # lex r
      else if c = CHR '':'' then TColon # lex r
      else if c = CHR '','' then TComma # lex r
      else if c = CHR 0x22 then
        (case lex_string r of None \<Rightarrow> [TBad] | Some (s, r') \<Rightarrow> TStr s # lex r')
      else if take 3 r = ''rue'' \<and> c = CHR ''t'' then TScalar (JBool True) # lex (drop 3 r)
      else if take 4 r = ''alse'' \<and> c = CHR ''f'' then TScalar (JBool False) # lex (drop 4 r)
      else if take 3 r = ''ull'' \<and> c = CHR ''n'' then TScalar JNull # lex (drop 3 r)
      else (case lex_number (c # r) of None \<Rightarrow> [TBad] | Some (n, r') \<Rightarrow> TScalar (JNumber n) # lex r'))"
  by pat_completeness auto
termination
  by (relation "measure length") (auto simp: less_Suc_eq_le dest!: lex_string_shorter lex_number_shorter)

section \<open>Values\<close>

datatype mode = MVal | MArrFirst | MKeyFirst | MKey | MColon | MAfter

datatype frame = FArr "jval list" | FObj "(string \<times> jval) list" | FKey "(string \<times> jval) list" string

definition maxNestingDepth :: nat where
  "maxNestingDepth = 10000"

definition finish :: "jval \<Rightarrow> frame list \<Rightarrow> (jval + mode \<times> frame list) option" where
  "finish v st = (case st of
     [] \<Rightarrow> Some (Inl v)
   | FArr vs # r \<Rightarrow> Some (Inr (MAfter, FArr (vs @ [v]) # r))
   | FKey kvs k # r \<Rightarrow> Some (Inr (MAfter, FObj (kvs @ [(k, v)]) # r))
   | FObj kvs # r \<Rightarrow> None)"

definition open_frame :: "mode \<Rightarrow> frame \<Rightarrow> frame list \<Rightarrow> (jval + mode \<times> frame list) option" where
  "open_frame m f st = (if length st < maxNestingDepth then Some (Inr (m, f # st)) else None)"

definition value_step :: "frame list \<Rightarrow> token \<Rightarrow> (jval + mode \<times> frame list) option" where
  "value_step st t = (case t of
     TScalar v \<Rightarrow> finish v st
   | TStr s \<Rightarrow> finish (JString s) st
   | TLBrack \<Rightarrow> open_frame MArrFirst (FArr []) st
   | TLBrace \<Rightarrow> open_frame MKeyFirst (FObj []) st
   | _ \<Rightarrow> None)"

definition close_frame :: "frame list \<Rightarrow> token \<Rightarrow> (jval + mode \<times> frame list) option" where
  "close_frame st t = (case st of
     FArr vs # r \<Rightarrow> if t = TRBrack then finish (JArray vs) r else None
   | FObj kvs # r \<Rightarrow> if t = TRBrace then finish (JObject kvs) r else None
   | _ \<Rightarrow> None)"

definition key_step :: "frame list \<Rightarrow> token \<Rightarrow> (jval + mode \<times> frame list) option" where
  "key_step st t = (case st of
     FObj kvs # r \<Rightarrow> (case t of TStr k \<Rightarrow> Some (Inr (MColon, FKey kvs k # r)) | _ \<Rightarrow> None)
   | _ \<Rightarrow> None)"

definition step :: "mode \<Rightarrow> frame list \<Rightarrow> token \<Rightarrow> (jval + mode \<times> frame list) option" where
  "step m st t = (case m of
     MVal \<Rightarrow> value_step st t
   | MArrFirst \<Rightarrow> if t = TRBrack then close_frame st t else value_step st t
   | MKeyFirst \<Rightarrow> if t = TRBrace then close_frame st t else key_step st t
   | MKey \<Rightarrow> key_step st t
   | MColon \<Rightarrow> if t = TColon then Some (Inr (MVal, st)) else None
   | MAfter \<Rightarrow>
       if t = TComma then
         (case st of FArr vs # r \<Rightarrow> Some (Inr (MVal, st)) | FObj kvs # r \<Rightarrow> Some (Inr (MKey, st)) | _ \<Rightarrow> None)
       else close_frame st t)"

lemmas step_defs = step_def value_step_def close_frame_def key_step_def

fun parse :: "mode \<Rightarrow> frame list \<Rightarrow> token list \<Rightarrow> (jval \<times> token list) option" where
  "parse m st [] = None"
| "parse m st (t # ts) = (case step m st t of
     None \<Rightarrow> None
   | Some (Inl v) \<Rightarrow> Some (v, ts)
   | Some (Inr (m', st')) \<Rightarrow> parse m' st' ts)"

text \<open>
  \<open>json.Decoder.Decode\<close> reads the first value and leaves the rest; \<open>json.Unmarshal\<close> refuses a text with
  anything but white space after it.
\<close>

definition decode_first :: "string \<Rightarrow> jval option" where
  "decode_first s = map_option fst (parse MVal [] (lex s))"

definition parse_all :: "string \<Rightarrow> jval option" where
  "parse_all s = (case parse MVal [] (lex s) of Some (v, []) \<Rightarrow> Some v | _ \<Rightarrow> None)"

fun last_wins :: "(string \<times> 'a) list \<Rightarrow> (string \<times> 'a) list" where
  "last_wins [] = []"
| "last_wins (kv # r) = (if fst kv \<in> fst ` set r then last_wins r else kv # last_wins r)"

fun decode_any :: "jval \<Rightarrow> jval" where
  "decode_any (JArray vs) = JArray (map decode_any vs)"
| "decode_any (JObject kvs) = JObject (last_wins (map (\<lambda>kv. (fst kv, decode_any (snd kv))) kvs))"
| "decode_any v = v"

section \<open>Decoding into typed values\<close>

text \<open>
  A decoder stores a value over an existing one, as \<open>json.Unmarshal\<close> does; \<open>None\<close> is a value whose
  shape does not fit the type. A null leaves a plain field as it is.
\<close>

type_synonym 'a decoder = "jval \<Rightarrow> 'a \<Rightarrow> 'a option"

definition dec_string :: "string decoder" where
  "dec_string v x = (case v of JNull \<Rightarrow> Some x | JString s \<Rightarrow> Some s | _ \<Rightarrow> None)"

definition dec_bool :: "bool decoder" where
  "dec_bool v x = (case v of JNull \<Rightarrow> Some x | JBool b \<Rightarrow> Some b | _ \<Rightarrow> None)"

definition nat_of_digits :: "string \<Rightarrow> nat" where
  "nat_of_digits s = foldl (\<lambda>n c. n * 10 + (code c - 48)) 0 s"

text \<open>\<open>strconv.ParseInt(s, 10, 64)\<close> and \<open>strconv.Atoi\<close> on a 64-bit platform.\<close>

definition parse_int64 :: "string \<Rightarrow> int option" where
  "parse_int64 s =
     (let (neg, ds) = (case s of c # r \<Rightarrow> if c = CHR ''-'' then (True, r) else if c = CHR ''+'' then (False, r) else (False, s)
                       | [] \<Rightarrow> (False, s));
          n = int (nat_of_digits ds)
      in if ds = [] \<or> \<not> list_all is_digit ds then None
         else if neg then (if n \<le> 2 ^ 63 then Some (- n) else None)
         else (if n < 2 ^ 63 then Some n else None))"

definition dec_int :: "int decoder" where
  "dec_int v x = (case v of JNull \<Rightarrow> Some x | JNumber n \<Rightarrow> parse_int64 n | _ \<Rightarrow> None)"

definition dec_ptr :: "'a decoder \<Rightarrow> 'a \<Rightarrow> 'a option decoder" where
  "dec_ptr d zero v x = (case v of
     JNull \<Rightarrow> Some None
   | _ \<Rightarrow> map_option Some (d v (case x of None \<Rightarrow> zero | Some y \<Rightarrow> y)))"

text \<open>\<open>json.RawMessage\<close> keeps any value, null included.\<close>

definition dec_raw :: "jval option decoder" where
  "dec_raw v x = Some (Some v)"

fun dec_elems :: "'a decoder \<Rightarrow> 'a \<Rightarrow> jval list \<Rightarrow> 'a list \<Rightarrow> 'a list option" where
  "dec_elems d zero [] old = Some []"
| "dec_elems d zero (v # vs) old =
     (case d v (case old of [] \<Rightarrow> zero | x # _ \<Rightarrow> x) of
        None \<Rightarrow> None
      | Some x \<Rightarrow> map_option (Cons x) (dec_elems d zero vs (tl old)))"

definition dec_list :: "'a decoder \<Rightarrow> 'a \<Rightarrow> 'a list decoder" where
  "dec_list d zero v x = (case v of
     JNull \<Rightarrow> Some []
   | JArray vs \<Rightarrow> dec_elems d zero vs x
   | _ \<Rightarrow> None)"

text \<open>A Go array of two integers: surplus elements are dropped, missing ones are zero.\<close>

definition dec_pair :: "(int \<times> int) decoder" where
  "dec_pair v x = (case v of
     JNull \<Rightarrow> Some x
   | JArray [] \<Rightarrow> Some (0, 0)
   | JArray [a] \<Rightarrow> map_option (\<lambda>i. (i, 0)) (dec_int a (fst x))
   | JArray (a # b # _) \<Rightarrow>
       (case dec_int a (fst x) of None \<Rightarrow> None | Some i \<Rightarrow> map_option (\<lambda>j. (i, j)) (dec_int b (snd x)))
   | _ \<Rightarrow> None)"

text \<open>
  A struct: its fields by JSON name, in the order of the declaration. A member of the object goes to
  the field of exactly that name, else to the first field whose name equals it apart from case, else
  nowhere; members are stored in the order of the text.
\<close>

type_synonym 'r fields = "(string \<times> (jval \<Rightarrow> 'r \<Rightarrow> 'r option)) list"

definition find_field :: "'r fields \<Rightarrow> string \<Rightarrow> (jval \<Rightarrow> 'r \<Rightarrow> 'r option) option" where
  "find_field fs k = (case map_of fs k of
     Some d \<Rightarrow> Some d
   | None \<Rightarrow> map_option snd (find (\<lambda>f. EqualFold (fst f) k) fs))"

fun dec_members :: "'r fields \<Rightarrow> (string \<times> jval) list \<Rightarrow> 'r \<Rightarrow> 'r option" where
  "dec_members fs [] r = Some r"
| "dec_members fs ((k, v) # kvs) r =
     (case find_field fs k of
        None \<Rightarrow> dec_members fs kvs r
      | Some d \<Rightarrow> (case d v r of None \<Rightarrow> None | Some r' \<Rightarrow> dec_members fs kvs r'))"

definition dec_struct :: "'r fields \<Rightarrow> 'r decoder" where
  "dec_struct fs v r = (case v of
     JNull \<Rightarrow> Some r
   | JObject kvs \<Rightarrow> dec_members fs kvs r
   | _ \<Rightarrow> None)"

definition Unmarshal :: "'a decoder \<Rightarrow> 'a \<Rightarrow> string \<Rightarrow> 'a option" where
  "Unmarshal d zero s = (case parse_all s of None \<Rightarrow> None | Some v \<Rightarrow> d v zero)"

section \<open>Lemmas\<close>

text \<open>The tokens of a value, and that the machine reads them back.\<close>

fun tokens_of :: "jval \<Rightarrow> token list" where
  "tokens_of JNull = [TScalar JNull]"
| "tokens_of (JBool b) = [TScalar (JBool b)]"
| "tokens_of (JNumber n) = [TScalar (JNumber n)]"
| "tokens_of (JString s) = [TStr s]"
| "tokens_of (JArray []) = [TLBrack, TRBrack]"
| "tokens_of (JArray (v # vs)) =
     TLBrack # tokens_of v @ concat (map (\<lambda>w. TComma # tokens_of w) vs) @ [TRBrack]"
| "tokens_of (JObject []) = [TLBrace, TRBrace]"
| "tokens_of (JObject (kv # kvs)) =
     TLBrace # TStr (fst kv) # TColon # tokens_of (snd kv)
       @ concat (map (\<lambda>kv. TComma # TStr (fst kv) # TColon # tokens_of (snd kv)) kvs) @ [TRBrace]"

fun depth :: "jval \<Rightarrow> nat" where
  "depth (JArray vs) = Suc (fold max (map depth vs) 0)"
| "depth (JObject kvs) = Suc (fold max (map (\<lambda>kv. depth (snd kv)) kvs) 0)"
| "depth v = 0"

definition after :: "jval \<Rightarrow> frame list \<Rightarrow> token list \<Rightarrow> (jval \<times> token list) option" where
  "after v st ts = (case finish v st of
     None \<Rightarrow> None
   | Some (Inl w) \<Rightarrow> Some (w, ts)
   | Some (Inr (m, st')) \<Rightarrow> parse m st' ts)"

lemma fold_max_ge: "x \<in> set xs \<Longrightarrow> x \<le> fold max xs (m :: nat)" "m \<le> fold max xs m"
proof -
  have g: "m \<le> fold max xs m" for xs and m :: nat
  proof (induction xs arbitrary: m)
    case (Cons a xs)
    have "m \<le> max a m" by simp
    also have "\<dots> \<le> fold max xs (max a m)" by (rule Cons)
    finally show ?case by simp
  qed simp
  show "m \<le> fold max xs m" by (rule g)
  show "x \<in> set xs \<Longrightarrow> x \<le> fold max xs m"
  proof (induction xs arbitrary: m)
    case (Cons a xs)
    have "max a m \<le> fold max xs (max a m)" by (rule g)
    then show ?case using Cons by auto
  qed simp
qed

lemma parse_tokens_of:
  assumes "length st + depth v \<le> maxNestingDepth"
  shows "parse MVal st (tokens_of v @ ts) = after v st ts \<and> parse MArrFirst st (tokens_of v @ ts) = after v st ts"
  using assms
proof (induction v arbitrary: st ts rule: tokens_of.induct)
  case (6 v vs)
  have len: "length st < maxNestingDepth" using 6(3) by simp
  have d: "Suc (length st) + depth w \<le> maxNestingDepth" if "w \<in> set (v # vs)" for w
  proof -
    have "depth w \<le> fold max (map depth (v # vs)) 0" using that by (intro fold_max_ge(1)) auto
    then show ?thesis using 6(3) by simp
  qed
  have rest: "parse MAfter (FArr us # st) (concat (map (\<lambda>w. TComma # tokens_of w) ws) @ TRBrack # ts)
      = after (JArray (us @ ws)) st ts" if "set ws \<subseteq> set vs" for us ws
    using that
  proof (induction ws arbitrary: us)
    case (Cons w ws)
    have "parse MVal (FArr us # st) (tokens_of w @ concat (map (\<lambda>w. TComma # tokens_of w) ws) @ TRBrack # ts)
        = parse MAfter (FArr (us @ [w]) # st) (concat (map (\<lambda>w. TComma # tokens_of w) ws) @ TRBrack # ts)"
      using 6(2) [of w "FArr us # st"] d [of w] Cons.prems by (simp add: step_defs after_def finish_def)
    also have "\<dots> = after (JArray ((us @ [w]) @ ws)) st ts" using Cons by simp
    finally show ?case by (simp add: step_defs)
  qed (simp add: step_defs after_def)
  have "parse MArrFirst (FArr [] # st) (tokens_of v @ concat (map (\<lambda>w. TComma # tokens_of w) vs) @ TRBrack # ts)
      = parse MAfter (FArr [v] # st) (concat (map (\<lambda>w. TComma # tokens_of w) vs) @ TRBrack # ts)"
    using 6(1) [of "FArr [] # st"] d [of v] by (simp add: step_defs after_def finish_def)
  then have "parse MArrFirst (FArr [] # st) (tokens_of v @ concat (map (\<lambda>w. TComma # tokens_of w) vs) @ TRBrack # ts)
      = after (JArray (v # vs)) st ts" using rest [of vs "[v]"] by simp
  then show ?case using len by (simp add: step_defs open_frame_def)
next
  case (8 kv kvs)
  have len: "length st < maxNestingDepth" using 8(3) by simp
  have d: "Suc (length st) + depth (snd w) \<le> maxNestingDepth" if "w \<in> set (kv # kvs)" for w
  proof -
    have "depth (snd w) \<le> fold max (map (\<lambda>kv. depth (snd kv)) (kv # kvs)) 0" using that by (intro fold_max_ge(1)) auto
    then show ?thesis using 8(3) by simp
  qed
  let ?m = "\<lambda>ws. concat (map (\<lambda>kv. TComma # TStr (fst kv) # TColon # tokens_of (snd kv)) ws)"
  have rest: "parse MAfter (FObj us # st) (?m ws @ TRBrace # ts) = after (JObject (us @ ws)) st ts"
    if "set ws \<subseteq> set kvs" for us ws
    using that
  proof (induction ws arbitrary: us)
    case (Cons w ws)
    have "parse MVal (FKey us (fst w) # st) (tokens_of (snd w) @ ?m ws @ TRBrace # ts)
        = parse MAfter (FObj (us @ [w]) # st) (?m ws @ TRBrace # ts)"
      using 8(2) [of w "FKey us (fst w) # st"] d [of w] Cons.prems by (simp add: step_defs after_def finish_def)
    also have "\<dots> = after (JObject ((us @ [w]) @ ws)) st ts" using Cons by simp
    finally show ?case by (simp add: step_defs)
  qed (simp add: step_defs after_def)
  have "parse MVal (FKey [] (fst kv) # st) (tokens_of (snd kv) @ ?m kvs @ TRBrace # ts)
      = parse MAfter (FObj [kv] # st) (?m kvs @ TRBrace # ts)"
    using 8(1) [of "FKey [] (fst kv) # st"] d [of kv] by (simp add: step_defs after_def finish_def)
  then have "parse MVal (FKey [] (fst kv) # st) (tokens_of (snd kv) @ ?m kvs @ TRBrace # ts)
      = after (JObject (kv # kvs)) st ts" using rest [of kvs "[kv]"] by simp
  then show ?case using len by (simp add: step_defs open_frame_def)
qed (auto simp: step_defs after_def open_frame_def)

lemma parse_tokens_of_all:
  "depth v \<le> maxNestingDepth \<Longrightarrow> parse MVal [] (tokens_of v @ ts) = Some (v, ts)"
  using parse_tokens_of [of "[]" v ts] by (simp add: step_defs after_def finish_def)

lemma map_of_last_wins: "map_of (last_wins kvs) k = map_of (rev kvs) k"
proof (induction kvs)
  case (Cons kv kvs)
  show ?case
  proof (cases "map_of (rev kvs) k")
    case None
    then have "k \<notin> fst ` set kvs" by (simp add: map_of_eq_None_iff)
    then show ?thesis using Cons None by (cases kv) (auto simp: map_add_def)
  next
    case (Some v)
    then have "k \<in> fst ` set kvs" by (metis map_of_eq_None_iff option.distinct(1) set_rev)
    then show ?thesis using Cons Some by (cases kv) (auto simp: map_add_def)
  qed
qed simp

lemma set_last_wins: "fst ` set (last_wins kvs) = fst ` set kvs"
  by (induction kvs) (auto simp: image_iff)

lemma distinct_last_wins: "distinct (map fst (last_wins kvs))"
proof (induction kvs)
  case (Cons kv kvs)
  have "fst kv \<in> set (map fst (last_wins kvs)) \<longleftrightarrow> fst kv \<in> fst ` set kvs" by (metis set_last_wins set_map)
  then show ?case using Cons by auto
qed simp

lemma last_wins_distinct: "distinct (map fst kvs) \<Longrightarrow> last_wins kvs = kvs"
  by (induction kvs) (auto simp: image_iff)

end
