(* ===== verification/Manifest.thy ===== *)
theory Manifest
  imports Spec Json
begin

text \<open>
  \<open>internal/spec/manifest.go\<close>: the shapes of the archive's JSON documents. A Go struct is a record
  with the fields in the order of the declaration, a nilable pointer an option, and a
  \<open>json.RawMessage\<close> the JSON value it holds, if there is one (its white space is not kept).
\<close>

record Freshness =
  fr_PrevRunID :: "string option"
  fr_RunlogIndex :: int

record Window =
  wi_Start :: string
  wi_End :: string

record Source =
  so_Type :: string
  so_NamespaceID :: string
  so_Bucket :: string
  so_Label :: string
  so_Include :: "string list"
  so_Exclude :: "string list"

record Envelope =
  en_AEAD :: string
  en_KEM :: string
  en_Signature :: string
  en_KDF :: string
  en_ChunkSize :: int
  en_Codec :: string

record Recipient =
  rp_Fingerprint :: string
  rp_Role :: string
  rp_X25519 :: string
  rp_MLKEM :: string

record CapsuleWrap =
  cw_Fingerprint :: string
  cw_KEMCiphertext :: string
  cw_Sealed :: string

record ShardRef =
  sh_ID :: string
  sh_Object :: string
  sh_SHA384 :: string

record RootManifest =
  rm_FormatVersion :: string
  rm_RunID :: string
  rm_CreatedAt :: string
  rm_DownpipeID :: string
  rm_Envelope :: Envelope
  rm_Recipients :: "Recipient list"
  rm_MasterCapsule :: "CapsuleWrap list"
  rm_RecipientSetHash :: string
  rm_KeyCommitment :: string
  rm_BreakGlassPresent :: bool
  rm_Shards :: "ShardRef list"
  rm_ShardCount :: int
  rm_DeclaredRecordCount :: int
  rm_MerkleRoot :: string
  rm_Freshness :: Freshness
  rm_SigningKeyFingerprint :: string

record PreambleDownpipe =
  pd_Name :: string
  pd_Cadence :: string

record ShardPreamble =
  sp_Kind :: string
  sp_FormatVersion :: string
  sp_RunID :: string
  sp_ShardID :: string
  sp_ManifestCodec :: string
  sp_Downpipe :: PreambleDownpipe
  sp_Source :: Source
  sp_Window :: Window
  sp_Consistency :: string
  sp_RecordCountInShard :: int

record KVDescriptor =
  kv_Metadata :: "jval option"
  kv_Expiration :: int

record R2Descriptor =
  r2_HTTPMetadata :: "jval option"
  r2_CustomMetadata :: "jval option"

record SecretWorkerBinding =
  sb_Script :: string
  sb_Binding :: string

record SecretsDescriptor =
  sd_Store :: string
  sd_Scopes :: "string list"
  sd_Comment :: string
  sd_Workers :: "SecretWorkerBinding list"
  sd_Wiring :: string
  sd_BindingVar :: string

record D1Descriptor =
  d1_Format :: string

record Packed =
  pk_Offset :: int
  pk_Length :: int

record Segment =
  sg_Object :: string
  sg_ChunkRange :: "int \<times> int"
  sg_Packed :: "Packed option"

record ShardRecord =
  sr_Kind :: string
  sr_SourceType :: string
  sr_Namespace :: string
  sr_Bucket :: string
  sr_Database :: string
  sr_Account :: string
  sr_Name :: string
  sr_KeyNameHash :: string
  sr_RecordID :: string
  sr_PlaintextSize :: int
  sr_PlaintextSHA :: string
  sr_RecordHash :: string
  sr_Codec :: string
  sr_Segments :: "Segment list"
  sr_RecordSalt :: string
  sr_KV :: "KVDescriptor option"
  sr_R2 :: "R2Descriptor option"
  sr_Secrets :: "SecretsDescriptor option"
  sr_D1 :: "D1Descriptor option"
  sr_IncompleteMarker :: string

record RunlogEntry =
  re_Index :: int
  re_RunID :: string
  re_DownpipeID :: string
  re_Time :: string
  re_RecordCount :: int
  re_PrevRunID :: "string option"
  re_Status :: string

end
