(* ===== verification/GoErr.thy ===== *)
theory GoErr
  imports Capsule Json
begin

text \<open>
  \<open>internal/format/errors.go\<close> and the errors of the package. An error built by \<open>fmt.Errorf\<close> is its
  format with its arguments: a \<open>%w\<close> argument is part of the chain \<open>errors.As\<close> and \<open>errors.Is\<close> search, a
  \<open>%v\<close> argument is not. An error of a store carries what it answers when it is asked: whether it knows
  to be unreachable, whether it knows the object to be absent, and whether it is \<open>fs.ErrNotExist\<close>.
\<close>

section \<open>Exit codes\<close>

definition ExitVerified :: int where "ExitVerified = 0"
definition ExitUnverified :: int where "ExitUnverified = 2"
definition ExitIncomplete :: int where "ExitIncomplete = 3"
definition ExitPlaintext :: int where "ExitPlaintext = 4"
definition ExitStale :: int where "ExitStale = 5"
definition ExitUsage :: int where "ExitUsage = 6"
definition ExitPreflight :: int where "ExitPreflight = 7"
definition ExitIncompleteMarkers :: int where "ExitIncompleteMarkers = 8"
definition ExitCustody :: int where "ExitCustody = 9"
definition ExitUnwritten :: int where "ExitUnwritten = 10"
definition ExitUnreachable :: int where "ExitUnreachable = 11"
definition ExitUnrenderable :: int where "ExitUnrenderable = 12"
definition ExitDangling :: int where "ExitDangling = 13"
definition ExitPruneIncomplete :: int where "ExitPruneIncomplete = 14"

lemmas exit_defs = ExitVerified_def ExitUnverified_def ExitIncomplete_def ExitPlaintext_def ExitStale_def
  ExitUsage_def ExitPreflight_def ExitIncompleteMarkers_def ExitCustody_def ExitUnwritten_def
  ExitUnreachable_def ExitUnrenderable_def ExitDangling_def ExitPruneIncomplete_def

section \<open>Errors\<close>

record store_error =
  se_Text :: string
  se_Unreachable :: "bool option"
  se_ObjectAbsent :: "bool option"
  se_NotExist :: bool

datatype errno = ENOENT | EEXIST | ENOTEMPTY | ENOTDIR | EISDIR | ENOSPC | Errno int

datatype goerr =
    Errorf string "goarg list"
  | ExitError int goerr
  | Sentinel string
  | StoreErr store_error
  | UlidErr ulid_error
  | ContainerErr container_error
  | StreamErr stream_error
  | CryptoErr crypto_error
  | SegmentErr segment_error
  | JsonErr string
  | HexErr string
  | Base64Err string
  | CtxErr
  | SegmentReadError string goerr
  | PathError string string errno
and goarg = AStr string | AInt int | AWrap goerr | AVal goerr

fun chain :: "goerr \<Rightarrow> goerr list"
and chain_arg :: "goarg \<Rightarrow> goerr list" where
  "chain (Errorf f as) = Errorf f as # concat (map chain_arg as)"
| "chain (ExitError c e) = ExitError c e # chain e"
| "chain (SegmentReadError s e) = SegmentReadError s e # chain e"
| "chain e = [e]"
| "chain_arg (AWrap e) = chain e"
| "chain_arg a = []"

definition as_exit :: "goerr \<Rightarrow> int option" where
  "as_exit err = (case [c. ExitError c e \<leftarrow> chain err] of [] \<Rightarrow> None | c # _ \<Rightarrow> Some c)"

definition as_unreachable :: "goerr \<Rightarrow> bool option" where
  "as_unreachable err =
     (case [b. StoreErr se \<leftarrow> chain err, Some b \<leftarrow> [se_Unreachable se]] of [] \<Rightarrow> None | b # _ \<Rightarrow> Some b)"

definition as_absent :: "goerr \<Rightarrow> bool option" where
  "as_absent err =
     (case [b. StoreErr se \<leftarrow> chain err, Some b \<leftarrow> [se_ObjectAbsent se]] of [] \<Rightarrow> None | b # _ \<Rightarrow> Some b)"

definition is_not_exist :: "goerr \<Rightarrow> bool" where
  "is_not_exist err \<longleftrightarrow>
     list_ex (\<lambda>e. case e of StoreErr se \<Rightarrow> se_NotExist se | PathError _ _ n \<Rightarrow> n = ENOENT | _ \<Rightarrow> False) (chain err)"

definition is_exist :: "goerr \<Rightarrow> bool" where
  "is_exist err \<longleftrightarrow> list_ex (\<lambda>e. case e of PathError _ _ n \<Rightarrow> n = EEXIST \<or> n = ENOTEMPTY | _ \<Rightarrow> False) (chain err)"

definition as_segment_read :: "goerr \<Rightarrow> string option" where
  "as_segment_read err = (case [object. SegmentReadError object e \<leftarrow> chain err] of [] \<Rightarrow> None | object # _ \<Rightarrow> Some object)"

definition errors_Is :: "goerr \<Rightarrow> goerr \<Rightarrow> bool" where
  "errors_Is err target \<longleftrightarrow> List.member (chain err) target"

text \<open>\<open>coded\<close> and \<open>codedIfNot\<close> pass a nil error on; they are used on errors only.\<close>

definition coded :: "int \<Rightarrow> goerr \<Rightarrow> goerr" where
  "coded c err = ExitError c err"

definition codedIfNot :: "int \<Rightarrow> goerr \<Rightarrow> goerr" where
  "codedIfNot c err = (case as_exit err of Some _ \<Rightarrow> err | None \<Rightarrow> ExitError c err)"

definition exitCodeOf :: "goerr \<Rightarrow> int \<times> bool" where
  "exitCodeOf err = (case as_exit err of Some c \<Rightarrow> (c, True) | None \<Rightarrow> (0, False))"

definition codedGet :: "int \<Rightarrow> goerr \<Rightarrow> goerr" where
  "codedGet fallback err =
     (if as_unreachable err = Some True then ExitError ExitUnreachable err else ExitError fallback err)"

definition usagef :: "string \<Rightarrow> goarg list \<Rightarrow> goerr" where
  "usagef msg as = ExitError ExitUsage (Errorf msg as)"

section \<open>Encodings\<close>

definition B64Encode :: "bytes \<Rightarrow> string" where
  "B64Encode b = b64_encode b"

definition B64Decode :: "string \<Rightarrow> goerr + bytes" where
  "B64Decode s = of_opt (Base64Err s) (b64_decode s)"

definition SHA384Hex :: "bytes \<Rightarrow> string" where
  "SHA384Hex b = hex_encode (sha384 b)"

definition hex_DecodeString :: "string \<Rightarrow> goerr + bytes" where
  "hex_DecodeString s = of_opt (HexErr s) (hex_decode s)"

text \<open>Decimal text of an integer, \<open>%d\<close>.\<close>

fun dec_of_nat :: "nat \<Rightarrow> string" where
  "dec_of_nat n = (if n < 10 then [char_of (48 + n)] else dec_of_nat (n div 10) @ [char_of (48 + n mod 10)])"

declare dec_of_nat.simps [simp del]

definition dec_of_int :: "int \<Rightarrow> string" where
  "dec_of_int i = (if i < 0 then ''-'' @ dec_of_nat (nat (- i)) else dec_of_nat (nat i))"

section \<open>Lemmas\<close>

lemma as_exit_ExitError [simp]: "as_exit (ExitError c e) = Some c"
  by (simp add: as_exit_def)

lemma as_exit_coded [simp]: "as_exit (coded c e) = Some c"
  by (simp add: coded_def)

lemma as_exit_codedGet: "as_exit (codedGet c e) = Some (if as_unreachable e = Some True then ExitUnreachable else c)"
  by (simp add: codedGet_def)

lemma as_exit_codedIfNot: "as_exit (codedIfNot c e) = Some (case as_exit e of Some d \<Rightarrow> d | None \<Rightarrow> c)"
  by (simp add: codedIfNot_def split: option.splits)

lemma dec_of_nat_nonempty [simp]: "dec_of_nat n \<noteq> []"
  by (subst dec_of_nat.simps) simp

lemma dec_of_nat_digits: "list_all is_digit (dec_of_nat n)"
proof (induction n rule: dec_of_nat.induct)
  case (1 n)
  have "is_digit (char_of (48 + n mod 10))" "n < 10 \<Longrightarrow> is_digit (char_of (48 + n))"
    by (simp_all add: is_digit_def)
  then show ?case using 1 by (subst dec_of_nat.simps) simp
qed

lemma nat_of_digits_snoc: "nat_of_digits (s @ [c]) = nat_of_digits s * 10 + (code c - 48)"
  by (simp add: nat_of_digits_def)

lemma nat_of_dec_of_nat [simp]: "nat_of_digits (dec_of_nat n) = n"
proof (induction n rule: dec_of_nat.induct)
  case (1 n)
  show ?case
  proof (cases "n < 10")
    case True
    then show ?thesis by (simp add: dec_of_nat.simps [of n] nat_of_digits_def)
  next
    case False
    then show ?thesis using 1 by (subst dec_of_nat.simps) (simp add: nat_of_digits_snoc)
  qed
qed

lemma dec_of_nat_hd_zero: "hd (dec_of_nat n) = CHR ''0'' \<Longrightarrow> dec_of_nat n = [CHR ''0'']"
proof (induction n rule: dec_of_nat.induct)
  case (1 n)
  show ?case
  proof (cases "n < 10")
    case True
    then show ?thesis using 1(2) by (simp add: dec_of_nat.simps [of n])
  next
    case False
    then have "hd (dec_of_nat n) = hd (dec_of_nat (n div 10))" by (subst dec_of_nat.simps) simp
    then have z: "dec_of_nat (n div 10) = [CHR ''0'']" using 1 False by simp
    then have "n div 10 = nat_of_digits [CHR ''0'']" by (metis nat_of_dec_of_nat)
    then have "n div 10 = 0" by (simp add: nat_of_digits_def code_def)
    then show ?thesis using False by simp
  qed
qed

lemma parse_int64_dec: "parse_int64 (dec_of_nat n) = (if n < 2 ^ 63 then Some (int n) else None)"
proof -
  have d: "list_all is_digit (dec_of_nat n)" by (rule dec_of_nat_digits)
  obtain c r where cr: "dec_of_nat n = c # r" by (cases "dec_of_nat n") auto
  then have c: "c \<noteq> CHR ''-''" "c \<noteq> CHR ''+''" using d by (auto simp: is_digit_def code_def)
  have "int n < 2 ^ 63 \<longleftrightarrow> n < 2 ^ 63" by (metis of_nat_less_iff of_nat_numeral of_nat_power)
  moreover have "(case dec_of_nat n of c # r \<Rightarrow> if c = CHR ''-'' then (True, r)
      else if c = CHR ''+'' then (False, r) else (False, dec_of_nat n) | [] \<Rightarrow> (False, dec_of_nat n)) = (False, dec_of_nat n)"
    using c cr by simp
  ultimately show ?thesis using d by (simp add: parse_int64_def del: power_numeral)
qed

end
