(* ===== verification/CanonNum.thy ===== *)
theory CanonNum
  imports GoErr
begin

text \<open>
  \<open>internal/format/canonnum.go\<close>: the canonical form of the counts of a signed JSON object, checked on
  the text before it is decoded into a struct. A value is the one \<open>json.Decoder\<close> yields for
  \<open>map[string]any\<close>. Go visits the keys of a map in no fixed order; where several keys collide with a
  name, the model reports the first of the text.
\<close>

definition maxCanonicalInt :: int where
  "maxCanonicalInt = 2 ^ 53 - 1"

definition go_type :: "jval \<Rightarrow> string" where
  "go_type v = (case v of
     JNull \<Rightarrow> ''<nil>'' | JBool _ \<Rightarrow> ''bool'' | JNumber _ \<Rightarrow> ''json.Number'' | JString _ \<Rightarrow> ''string''
   | JArray _ \<Rightarrow> ''[]interface {}'' | JObject _ \<Rightarrow> ''map[string]interface {}'')"

definition cut_suffix :: "string \<Rightarrow> string \<Rightarrow> string \<times> bool" where
  "cut_suffix s suf =
     (if suffix suf s then (take (length s - length suf) s, True) else (s, False))"

definition caseCollidingKey :: "(string \<times> jval) list \<Rightarrow> string \<Rightarrow> string option" where
  "caseCollidingKey m want = find (\<lambda>k. k \<noteq> want \<and> EqualFold k want) (map fst m)"

definition checkCanonicalCount :: "string \<Rightarrow> jval \<Rightarrow> goerr + unit" where
  "checkCanonicalCount path v = (case v of
     JNumber s \<Rightarrow>
       if contains_any ''.eE'' s then Inl (Errorf ''field %q is not an integer: %s'' [AStr path, AStr s])
       else if prefix ''-'' s then Inl (Errorf ''field %q must be a non-negative integer: %s'' [AStr path, AStr s])
       else if length s > 1 \<and> hd s = CHR ''0'' then
         Inl (Errorf ''field %q has a leading zero and is not in canonical form: %s'' [AStr path, AStr s])
       else (case parse_int64 s of
               None \<Rightarrow> Inl (Errorf ''field %q is out of canonical range (>2^53-1): %s'' [AStr path, AStr s])
             | Some n \<Rightarrow>
                 if n > maxCanonicalInt
                 then Inl (Errorf ''field %q is out of canonical range [0, 2^53-1]: %d'' [AStr path, AInt n])
                 else Inr ())
   | _ \<Rightarrow> Inl (Errorf ''field %q must be a canonical integer, not %T'' [AStr path, AStr (go_type v)]))"

definition indices :: "'a list \<Rightarrow> (nat \<times> 'a) list" where
  "indices xs = zip [0..<length xs] xs"

text \<open>The sites a path reaches, in the order of the walk; \<open>out\<close> of the code is the result.\<close>

fun collectCounts :: "jval \<Rightarrow> string list \<Rightarrow> string \<Rightarrow> goerr + (string \<times> jval) list" where
  "collectCounts v [] pfx = Inr [(pfx, v)]"
| "collectCounts v (p # parts) pfx =
     (let (seg, each) = cut_suffix p ''[]'';
          (key, nullable) = cut_suffix seg ''?'';
          path = (if pfx \<noteq> '''' then pfx @ ''.'' @ key else key)
      in case v of
           JObject m \<Rightarrow>
             (case caseCollidingKey m key of
                Some found \<Rightarrow> Inl (Errorf ''field %q appears as %q, which differs only in case: canonical field names are exact''
                                     [AStr path, AStr found])
              | None \<Rightarrow>
                  (case map_of m key of
                     None \<Rightarrow> Inr []
                   | Some JNull \<Rightarrow>
                       if nullable then Inr []
                       else if parts = [] \<and> \<not> each
                       then Inl (Errorf ''field %q must be a canonical integer, not null'' [AStr path])
                       else if each then Inl (Errorf ''field %q must be an array, not null'' [AStr path])
                       else Inl (Errorf ''field %q must be an object, not null'' [AStr path])
                   | Some child \<Rightarrow>
                       if \<not> each then collectCounts child parts path
                       else (case child of
                               JArray arr \<Rightarrow>
                                 rbind (mapr (\<lambda>(i, el).
                                     let elPath = path @ ''['' @ dec_of_nat i @ '']''
                                     in if el = JNull \<and> parts \<noteq> []
                                        then Inl (Errorf ''field %q must be an object, not null'' [AStr elPath])
                                        else collectCounts el parts elPath) (indices arr))
                                   (\<lambda>sites. Inr (concat sites))
                             | _ \<Rightarrow> Inl (Errorf ''field %q must be an array, not %T'' [AStr path, AStr (go_type child)]))))
         | _ \<Rightarrow> Inr [])"

definition validate_path :: "jval \<Rightarrow> string \<Rightarrow> goerr + unit" where
  "validate_path generic p =
     rbind (map_err (coded ExitUsage) (collectCounts generic (split_on (CHR ''.'') p) '''')) (\<lambda>sites.
       loopr (\<lambda>_ site. map_err (coded ExitUsage) (checkCanonicalCount (fst site) (snd site))) () sites)"

definition validateCounts :: "bytes \<Rightarrow> string list \<Rightarrow> goerr + unit" where
  "validateCounts raw paths =
     (case decode_first (string_of raw) of
        None \<Rightarrow> Inl (coded ExitUsage (Errorf ''decode for numeric check: %w'' [AWrap (JsonErr ''decode'')]))
      | Some v \<Rightarrow> loopr (\<lambda>_ p. validate_path (decode_any v) p) () paths)"

section \<open>Lemmas\<close>

lemma validateCounts_exit: "validateCounts raw paths = Inl e \<Longrightarrow> as_exit e = Some ExitUsage"
proof -
  have p: "validate_path g p = Inl e \<Longrightarrow> as_exit e = Some ExitUsage" for g p e
  proof -
    have "loopr (\<lambda>_ site. map_err (coded ExitUsage) (checkCanonicalCount (fst site) (snd site))) () sites = Inl e
        \<Longrightarrow> as_exit e = Some ExitUsage" for sites
      by (induction sites) (auto simp: res_simps map_err_def split: sum.splits)
    then show "validate_path g p = Inl e \<Longrightarrow> as_exit e = Some ExitUsage"
      by (auto simp: validate_path_def res_simps map_err_def split: sum.splits)
  qed
  have "loopr (\<lambda>_ p. validate_path g p) () ps = Inl e \<Longrightarrow> as_exit e = Some ExitUsage" for g ps
    by (induction ps) (auto simp: res_simps dest: p)
  then show "validateCounts raw paths = Inl e \<Longrightarrow> as_exit e = Some ExitUsage"
    by (auto simp: validateCounts_def split: option.splits)
qed

lemma split_on_no_dot: "CHR ''.'' \<notin> set p \<Longrightarrow> split_on (CHR ''.'') p = [p]"
  by (rule split_on_single)

lemma checkCanonicalCount_Inr:
  assumes "checkCanonicalCount path v = Inr u"
  shows "\<exists>s n. v = JNumber s \<and> parse_int64 s = Some n \<and> 0 \<le> n \<and> n \<le> maxCanonicalInt"
proof -
  obtain s n where s: "v = JNumber s" "\<not> prefix ''-'' s" "parse_int64 s = Some n" "n \<le> maxCanonicalInt"
    using assms by (auto simp: checkCanonicalCount_def split: jval.splits if_splits option.splits)
  have "0 \<le> n" using s(2,3) by (cases s) (auto simp: parse_int64_def Let_def split: if_splits)
  then show ?thesis using s by blast
qed

lemma loopr_unit_Inr: "loopr (\<lambda>_ x. f x) () xs = Inr u \<Longrightarrow> x \<in> set xs \<Longrightarrow> f x = Inr ()"
  using loopr_unit_all [of f xs u] by simp

text \<open>A plain field name is one step, without the marks of a path.\<close>

definition plain_name :: "string \<Rightarrow> bool" where
  "plain_name p \<longleftrightarrow> p \<noteq> '''' \<and> CHR ''.'' \<notin> set p \<and> \<not> suffix ''[]'' p \<and> \<not> suffix ''?'' p"

lemma validate_path_plain:
  assumes "plain_name p" "validate_path (JObject m) p = Inr u"
  shows "caseCollidingKey m p = None"
    and "\<And>v. map_of m p = Some v \<Longrightarrow> \<exists>s n. v = JNumber s \<and> parse_int64 s = Some n \<and> 0 \<le> n \<and> n \<le> maxCanonicalInt"
proof -
  have sp: "split_on (CHR ''.'') p = [p]" and c1: "cut_suffix p ''[]'' = (p, False)" and c2: "cut_suffix p ''?'' = (p, False)"
    using assms(1) by (simp_all add: plain_name_def split_on_no_dot cut_suffix_def)
  obtain sites where sites: "collectCounts (JObject m) [p] '''' = Inr sites"
    and ok: "loopr (\<lambda>_ site. map_err (coded ExitUsage) (checkCanonicalCount (fst site) (snd site))) () sites = Inr ()"
    using assms(2) by (auto simp: validate_path_def sp simp del: collectCounts.simps)
  show "caseCollidingKey m p = None"
    using sites by (auto simp: c1 c2 Let_def split: option.splits)
  fix v
  assume v: "map_of m p = Some v"
  then have nn: "v \<noteq> JNull" and st: "sites = [(p, v)]"
    using sites by (auto simp: c1 c2 Let_def split: option.splits jval.splits)
  show "\<exists>s n. v = JNumber s \<and> parse_int64 s = Some n \<and> 0 \<le> n \<and> n \<le> maxCanonicalInt"
    using ok st by (auto dest!: checkCanonicalCount_Inr)
qed

end
