(* ===== verification/CanonJson.thy ===== *)
theory CanonJson
  imports CanonNum "HOL-Library.List_Lexorder"
begin

text \<open>
  \<open>internal/format/canonjson.go\<close>: the canonical JSON the archive signs. A Go value is modelled by the
  shape \<open>reflect\<close> sees: \<open>GStruct\<close> has its fields with their JSON name, whether they are exported and
  whether \<open>omitempty\<close> drops them; \<open>GRaw\<close> is a \<open>json.RawMessage\<close>. \<open>json.Marshal\<close> yields a text that the
  code decodes again at once; \<open>marshal\<close> is the value of that text.
\<close>

section \<open>Go values and their JSON\<close>

datatype goval =
    GNil
  | GBool bool
  | GInt int
  | GFloat string
  | GNumber string
  | GString string
  | GRaw jval
  | GPtr goval
  | GList "goval list"
  | GMap "(string \<times> goval) list"
  | GStruct "(string \<times> bool \<times> bool \<times> goval) list"

lemma mapr_cong [fundef_cong]:
  "xs = ys \<Longrightarrow> (\<And>x. x \<in> set ys \<Longrightarrow> f x = g x) \<Longrightarrow> mapr f xs = mapr g ys"
  by (induction ys arbitrary: xs) auto

fun rejectFloatKinds :: "goval \<Rightarrow> goerr + unit" where
  "rejectFloatKinds (GFloat f) = Inl (Errorf ''floating-point value %v is not allowed in a signed object'' [AStr f])"
| "rejectFloatKinds (GPtr v) = rejectFloatKinds v"
| "rejectFloatKinds (GMap m) = rbind (mapr (\<lambda>kv. rejectFloatKinds (snd kv)) m) (\<lambda>_. Inr ())"
| "rejectFloatKinds (GList vs) = rbind (mapr rejectFloatKinds vs) (\<lambda>_. Inr ())"
| "rejectFloatKinds (GStruct fs) =
     rbind (mapr (\<lambda>f. if \<not> fst (snd f) then Inr () else rejectFloatKinds (snd (snd (snd f)))) fs) (\<lambda>_. Inr ())"
| "rejectFloatKinds v = Inr ()"

text \<open>The empty values \<open>omitempty\<close> drops.\<close>

fun is_empty_value :: "goval \<Rightarrow> bool" where
  "is_empty_value GNil \<longleftrightarrow> True"
| "is_empty_value (GBool b) \<longleftrightarrow> \<not> b"
| "is_empty_value (GInt i) \<longleftrightarrow> i = 0"
| "is_empty_value (GString s) \<longleftrightarrow> s = ''''"
| "is_empty_value (GNumber s) \<longleftrightarrow> s = ''''"
| "is_empty_value (GList vs) \<longleftrightarrow> vs = []"
| "is_empty_value (GMap m) \<longleftrightarrow> m = []"
| "is_empty_value _ \<longleftrightarrow> False"

definition number_literal :: "string \<Rightarrow> bool" where
  "number_literal s \<longleftrightarrow> (case lex_number s of Some (_, []) \<Rightarrow> True | _ \<Rightarrow> False)"

fun marshal :: "goval \<Rightarrow> goerr + jval" where
  "marshal GNil = Inr JNull"
| "marshal (GBool b) = Inr (JBool b)"
| "marshal (GInt i) = Inr (JNumber (dec_of_int i))"
| "marshal (GFloat f) = Inr (JNumber f)"
| "marshal (GNumber s) =
     (if s = '''' then Inr (JNumber ''0'') else if number_literal s then Inr (JNumber s)
      else Inl (JsonErr ''invalid number literal''))"
| "marshal (GString s) = Inr (JString (to_valid s))"
| "marshal (GRaw v) = Inr v"
| "marshal (GPtr v) = marshal v"
| "marshal (GList vs) = rbind (mapr marshal vs) (\<lambda>js. Inr (JArray js))"
| "marshal (GMap m) =
     rbind (mapr (\<lambda>kv. rbind (marshal (snd kv)) (\<lambda>j. Inr (to_valid (fst kv), j))) m) (\<lambda>js. Inr (JObject js))"
| "marshal (GStruct fs) =
     rbind (mapr (\<lambda>f. if \<not> fst (snd f) \<or> fst (snd (snd f)) \<and> is_empty_value (snd (snd (snd f))) then Inr []
                     else rbind (marshal (snd (snd (snd f)))) (\<lambda>j. Inr [(fst f, j)])) fs)
       (\<lambda>js. Inr (JObject (concat js)))"

section \<open>Canonical text\<close>

definition checkCanonJSONInt :: "string \<Rightarrow> goerr + unit" where
  "checkCanonJSONInt s =
     (if contains_any ''.eE'' s then Inl (Errorf ''non-integer number %q is not allowed in a signed object'' [AStr s])
      else if prefix ''-'' s then Inl (Errorf ''number %q must be a non-negative integer in a signed object'' [AStr s])
      else if length s > 1 \<and> hd s = CHR ''0'' then
        Inl (Errorf ''number %q has a leading zero and is not in canonical form'' [AStr s])
      else (case parse_int64 s of
              None \<Rightarrow> Inl (Errorf ''number %q exceeds the canonical integer ceiling 2^53-1 and must be a decimal string'' [AStr s])
            | Some n \<Rightarrow>
                if n > maxCanonicalInt
                then Inl (Errorf ''number %d exceeds the canonical integer ceiling 2^53-1 and must be a decimal string'' [AInt n])
                else Inr ()))"

fun units_less :: "nat list \<Rightarrow> nat list \<Rightarrow> bool" where
  "units_less (x # xs) (y # ys) = (if x \<noteq> y then x < y else units_less xs ys)"
| "units_less xs ys = (length xs < length ys)"

definition lessUTF16 :: "string \<Rightarrow> string \<Rightarrow> bool" where
  "lessUTF16 a b = units_less (utf16_Encode (runes a)) (utf16_Encode (runes b))"

text \<open>The order the keys of an object are sorted by; \<open>lessUTF16\<close> is its strict part.\<close>

definition utf16_key :: "string \<Rightarrow> nat list" where
  "utf16_key s = utf16_Encode (runes s)"

definition write_rune :: "nat \<Rightarrow> string" where
  "write_rune r =
     (if r = 0x22 then [CHR 0x5C, CHR 0x22]
      else if r = 0x5C then [CHR 0x5C, CHR 0x5C]
      else if r = 0x0A then [CHR 0x5C, CHR ''n'']
      else if r = 0x0D then [CHR 0x5C, CHR ''r'']
      else if r = 0x09 then [CHR 0x5C, CHR ''t'']
      else if r = 0x08 then [CHR 0x5C, CHR ''b'']
      else if r = 0x0C then [CHR 0x5C, CHR ''f'']
      else if r < 0x20 then [CHR 0x5C, CHR ''u'', CHR ''0'', CHR ''0'', hex_digit (r div 16), hex_digit (r mod 16)]
      else encode_rune r)"

definition writeJSONString :: "string \<Rightarrow> string" where
  "writeJSONString s = [CHR 0x22] @ concat (map write_rune (runes s)) @ [CHR 0x22]"

definition canonArray :: "string list \<Rightarrow> string" where
  "canonArray els = ''['' @ join '','' els @ '']''"

definition canonObject :: "(string \<times> string) list \<Rightarrow> string" where
  "canonObject ms = ''{'' @ join '','' (map (\<lambda>m. writeJSONString (fst m) @ '':'' @ snd m) ms) @ ''}''"

lemma sort_key_cong [fundef_cong]: "f = g \<Longrightarrow> xs = ys \<Longrightarrow> sort_key f xs = sort_key g ys"
  by simp

text \<open>
  \<open>canonArray\<close> and \<open>canonObject\<close> put the texts of the elements together; the members are visited in the
  order of their keys and the first error ends the walk.
\<close>

fun canonValue :: "jval \<Rightarrow> goerr + string" where
  "canonValue JNull = Inr ''null''"
| "canonValue (JBool b) = Inr (if b then ''true'' else ''false'')"
| "canonValue (JNumber n) = rbind (checkCanonJSONInt n) (\<lambda>_. Inr n)"
| "canonValue (JString s) =
     (if \<not> ValidString s then Inl (Errorf ''string is not valid UTF-8; canonical JSON must not transcode it'' [])
      else Inr (writeJSONString s))"
| "canonValue (JArray vs) = rbind (mapr canonValue vs) (\<lambda>els. Inr (canonArray els))"
| "canonValue (JObject kvs) =
     rbind (mapr (\<lambda>kv. rbind (canonValue (snd kv)) (\<lambda>t. Inr (fst kv, t))) (sort_key (\<lambda>kv. utf16_key (fst kv)) kvs))
       (\<lambda>ms. Inr (canonObject ms))"

definition CanonicalJSON :: "goval \<Rightarrow> goerr + bytes" where
  "CanonicalJSON v =
     rbind (rejectFloatKinds v) (\<lambda>_.
     rbind (map_err (\<lambda>e. Errorf ''marshal: %w'' [AWrap e]) (marshal v)) (\<lambda>raw.
     rbind (canonValue (decode_any raw)) (\<lambda>out. Inr (bytes_of out))))"

lemma units_less_iff: "units_less xs ys \<longleftrightarrow> xs < ys"
proof (induction xs arbitrary: ys)
  case Nil
  then show ?case by (cases ys) simp_all
next
  case (Cons x xs)
  then show ?case by (cases ys) auto
qed

lemma lessUTF16_iff: "lessUTF16 a b \<longleftrightarrow> utf16_key a < utf16_key b"
  by (simp add: lessUTF16_def utf16_key_def units_less_iff)

section \<open>Reading the canonical text back\<close>

text \<open>The values \<open>json.Decoder\<close> and \<open>json.Marshal\<close> produce: well-formed text and number literals only.\<close>

fun wf_json :: "jval \<Rightarrow> bool" where
  "wf_json (JNumber n) \<longleftrightarrow> number_literal n"
| "wf_json (JString s) \<longleftrightarrow> ValidString s"
| "wf_json (JArray vs) \<longleftrightarrow> list_all wf_json vs"
| "wf_json (JObject kvs) \<longleftrightarrow> list_all (\<lambda>kv. ValidString (fst kv) \<and> wf_json (snd kv)) kvs"
| "wf_json v \<longleftrightarrow> True"

fun distinct_keys :: "jval \<Rightarrow> bool" where
  "distinct_keys (JArray vs) \<longleftrightarrow> list_all distinct_keys vs"
| "distinct_keys (JObject kvs) \<longleftrightarrow> distinct (map fst kvs) \<and> list_all (\<lambda>kv. distinct_keys (snd kv)) kvs"
| "distinct_keys v \<longleftrightarrow> True"

text \<open>The same value with the members of every object in the canonical order.\<close>

fun sorted_json :: "jval \<Rightarrow> jval" where
  "sorted_json (JArray vs) = JArray (map sorted_json vs)"
| "sorted_json (JObject kvs) =
     JObject (map (\<lambda>kv. (fst kv, sorted_json (snd kv))) (sort_key (\<lambda>kv. utf16_key (fst kv)) kvs))"
| "sorted_json v = v"

definition delim :: "string \<Rightarrow> bool" where
  "delim t \<longleftrightarrow> t = [] \<or> hd t = CHR '','' \<or> hd t = CHR '']'' \<or> hd t = CHR ''}''"

lemma decode_rune_append:
  assumes "s \<noteq> []" "decode_rune s \<noteq> (RuneError, 1)"
  shows "decode_rune (take (snd (decode_rune s)) s @ t) = decode_rune s"
proof -
  obtain c0 r where s: "s = c0 # r" using assms(1) by (cases s) auto
  have d: "decode_rune (c0 # r) \<noteq> (RuneError, 1)" using assms(2) s by simp
  show ?thesis unfolding s using d
    by (auto simp: decode_rune_def Let_def split: if_splits list.splits)
qed

lemma decode_rune_high:
  assumes "s \<noteq> []" "decode_rune s \<noteq> (RuneError, 1)" "\<not> code (hd s) < 0x80"
  shows "0x80 \<le> fst (decode_rune s)"
proof -
  obtain c0 r where s: "s = c0 # r" using assms(1) by (cases s) auto
  have "decode_rune (c0 # r) \<noteq> (RuneError, 1)" "\<not> code c0 < 0x80" using assms(2,3) s by simp_all
  then show ?thesis unfolding s
    by (auto simp: decode_rune_def Let_def in_range_def second_range_def split: if_splits list.splits)
qed

lemma lex_string_char:
  assumes "u \<noteq> []" "hd u \<noteq> CHR 0x22" "lex_char (u @ r) = Some (t, r)"
  shows "lex_string (u @ r) = map_option (\<lambda>(v, r'). (t @ v, r')) (lex_string r)"
  using assms by (subst lex_string.simps) simp

lemma hex_value_digit16: "n < 16 \<Longrightarrow> hex_value (hex_digit n) = Some n"
  by (rule hex_value_digit)

lemma code_eqD: "code c = code d \<Longrightarrow> c = d"
  by (metis char_of_code)

lemma code_chars: "code (CHR 0x22) = 0x22" "code (CHR 0x5C) = 0x5C" "code (CHR 0x0A) = 0x0A" "code (CHR 0x0D) = 0x0D"
  "code (CHR 0x09) = 0x09" "code (CHR 0x08) = 0x08" "code (CHR 0x0C) = 0x0C"
  by (simp_all add: code_def)

lemma write_rune_ascii:
  assumes "code c < 0x80"
  shows "write_rune (code c) \<noteq> [] \<and> hd (write_rune (code c)) \<noteq> CHR 0x22
    \<and> lex_char (write_rune (code c) @ r) = Some ([c], r)"
proof -
  consider "code c \<in> {0x22, 0x5C, 0x0A, 0x0D, 0x09, 0x08, 0x0C}"
    | "code c \<notin> {0x22, 0x5C, 0x0A, 0x0D, 0x09, 0x08, 0x0C}" "code c < 0x20"
    | "code c \<notin> {0x22, 0x5C, 0x0A, 0x0D, 0x09, 0x08, 0x0C}" "\<not> code c < 0x20"
    by blast
  then show ?thesis
  proof cases
    case 1
    then have "c \<in> {CHR 0x22, CHR 0x5C, CHR 0x0A, CHR 0x0D, CHR 0x09, CHR 0x08, CHR 0x0C}"
      using code_eqD [of c "CHR 0x22"] code_eqD [of c "CHR 0x5C"] code_eqD [of c "CHR 0x0A"] code_eqD [of c "CHR 0x0D"]
        code_eqD [of c "CHR 0x09"] code_eqD [of c "CHR 0x08"] code_eqD [of c "CHR 0x0C"]
      by (auto simp: code_chars)
    then show ?thesis by (auto simp: write_rune_def lex_char_def simple_escape_def code_chars)
  next
    case 2
    have h: "hex_value (CHR ''0'') = Some 0" by (simp add: hex_value_def)
    have "code c div 16 * 16 + code c mod 16 = code c" by simp
    then show ?thesis using 2
      by (auto simp: write_rune_def lex_char_def h hex_value_digit16 encode_rune_def)
  next
    case 3
    then have "c \<noteq> CHR 0x22" "c \<noteq> CHR 0x5C" by (auto simp: code_def)
    then show ?thesis using 3 assms
      by (simp add: write_rune_def encode_rune_def lex_char_def decode_ascii)
  qed
qed

lemma lex_string_body:
  "ValidString s \<Longrightarrow> lex_string (concat (map write_rune (runes s)) @ CHR 0x22 # t) = Some (s, t)"
proof (induction s rule: ValidString.induct)
  case (1 s)
  show ?case
  proof (cases "s = []")
    case False
    let ?w = "snd (decode_rune s)"
    have d: "decode_rune s \<noteq> (RuneError, 1)" and v: "ValidString (drop ?w s)"
      using 1(2) False by (auto simp: ValidString.simps [of s] split: if_splits)
    let ?rest = "concat (map write_rune (runes (drop ?w s))) @ CHR 0x22 # t"
    let ?u = "write_rune (fst (decode_rune s))"
    have rs: "concat (map write_rune (runes s)) @ CHR 0x22 # t = ?u @ ?rest"
      using False by (simp add: runes.simps [of s])
    have u: "?u \<noteq> [] \<and> hd ?u \<noteq> CHR 0x22 \<and> lex_char (?u @ ?rest) = Some (take ?w s, ?rest)"
    proof (cases "code (hd s) < 0x80")
      case True
      then obtain c r where "s = c # r" "code c < 0x80" using False by (cases s) auto
      then show ?thesis using write_rune_ascii [of c ?rest] by (simp add: decode_ascii)
    next
      case hi: False
      have w: "?u = take ?w s"
        using decode_rune_high [OF False d hi] encode_decode [OF False d] by (simp add: write_rune_def)
      obtain c r where s: "s = c # r" "\<not> code c < 0x80" using False hi by (cases s) auto
      have w1: "1 \<le> ?w" using decode_rune_width [OF False] by simp
      then obtain r' where tk: "take ?w s = c # r'" using s(1) by (cases ?w) auto
      have c: "c \<noteq> CHR 0x22" "c \<noteq> CHR 0x5C" using s(2) by (auto simp: code_def)
      have "decode_rune (take ?w s @ ?rest) = decode_rune s" by (rule decode_rune_append [OF False d])
      moreover have "length (take ?w s) = ?w" using decode_rune_width [OF False] by simp
      moreover from this have dr: "drop ?w (take ?w s @ ?rest) = ?rest" by simp
      ultimately have "lex_char (take ?w s @ ?rest) = Some (encode_rune (fst (decode_rune s)), ?rest)"
        using c s(2) dr [unfolded tk] unfolding tk by (simp add: lex_char_def)
      then show ?thesis using w tk c encode_decode [OF False d] by simp
    qed
    have "lex_string (?u @ ?rest) = map_option (\<lambda>(v, r'). (take ?w s @ v, r')) (lex_string ?rest)"
      using u by (intro lex_string_char) auto
    also have "lex_string ?rest = Some (drop ?w s, t)" by (rule 1(1) [OF False d v])
    finally show ?thesis unfolding rs by simp
  qed simp
qed

lemma canonical_digits:
  assumes "number_literal n" "checkCanonJSONInt n = Inr u"
  shows "n \<noteq> [] \<and> list_all is_digit n \<and> (hd n = CHR ''0'' \<longrightarrow> n = [CHR ''0''])"
proof -
  have ne: "n \<noteq> []" using assms(1) by (auto simp: number_literal_def lex_number_def lex_int_def)
  then obtain c r where n: "n = c # r" by (cases n) auto
  have m: "c \<noteq> CHR ''-''" and z: "\<not> (length n > 1 \<and> c = CHR ''0'')" and p: "parse_int64 n \<noteq> None"
    using assms(2) n by (auto simp: checkCanonJSONInt_def split: if_splits option.splits)
  have "c \<noteq> CHR ''+''"
    using assms(1) n by (auto simp: number_literal_def lex_number_def lex_int_def is_digit_def code_def split: option.splits if_splits)
  then have "list_all is_digit n" using p m n by (auto simp: parse_int64_def Let_def split: if_splits)
  then show ?thesis using z n by (cases r) auto
qed

lemma takeWhile_digits:
  assumes "list_all is_digit n" "t = [] \<or> \<not> is_digit (hd t)"
  shows "takeWhile is_digit (n @ t) = n" "dropWhile is_digit (n @ t) = t"
  using assms by (induction n) (cases t; auto)+

lemma lex_number_canonical:
  assumes "n \<noteq> []" "list_all is_digit n" "hd n = CHR ''0'' \<longrightarrow> n = [CHR ''0'']" "delim t"
  shows "lex_number (n @ t) = Some (n, t)"
proof -
  obtain c r where n: "n = c # r" using assms(1) by (cases n) auto
  have t: "t = [] \<or> \<not> is_digit (hd t)" "lex_frac t = Some ([], t)" "lex_exp t = Some ([], t)"
    using assms(4) by (cases t; auto simp: delim_def is_digit_def code_def lex_frac_def lex_exp_def)+
  have c: "is_digit c" "c \<noteq> CHR ''-''" using assms(2) n by (auto simp: is_digit_def code_def)
  have "lex_int (n @ t) = Some (n, t)"
    using c(1) assms(3) takeWhile_digits [OF assms(2) t(1)] n by (auto simp: lex_int_def lex_digits_def)
  then show ?thesis using c(2) t n by (simp add: lex_number_def)
qed

text \<open>What the writer emits for a value lexes to the tokens of the value, and leaves what follows.\<close>

definition reads_as :: "string \<Rightarrow> token list \<Rightarrow> bool" where
  "reads_as s ts \<longleftrightarrow> (\<forall>t. delim t \<longrightarrow> lex (s @ t) = ts @ lex t)"

lemma lex_number_token:
  assumes "n \<noteq> []" "list_all is_digit n" "hd n = CHR ''0'' \<longrightarrow> n = [CHR ''0'']"
  shows "reads_as n [TScalar (JNumber n)]"
  unfolding reads_as_def
proof (intro allI impI)
  fix t
  assume "delim t"
  obtain c r where n: "n = c # r" using assms(1) by (cases n) auto
  have d: "48 \<le> code c" "code c \<le> 57" using assms(2) n by (auto simp: is_digit_def)
  have ne: "c \<noteq> k" if "code k < 48 \<or> 57 < code k" for k
    using d that by auto
  have "lex_number (c # r @ t) = Some (n, t)" using lex_number_canonical [OF assms \<open>delim t\<close>] n by simp
  then show "lex (n @ t) = [TScalar (JNumber n)] @ lex t"
    using n ne by (simp add: json_space_def code_def)
qed

lemma lex_string_token:
  assumes "ValidString s"
  shows "lex (writeJSONString s @ t) = TStr s # lex t"
  using lex_string_body [OF assms, of t] by (simp add: writeJSONString_def json_space_def)

lemma reads_as_join:
  assumes "\<And>p. p \<in> set ps \<Longrightarrow> reads_as (fst p) (snd p)" "ps \<noteq> []" "delim t"
  shows "lex (join '','' (map fst ps) @ t) = snd (hd ps) @ concat (map (\<lambda>p. TComma # snd p) (tl ps)) @ lex t"
  using assms
proof (induction ps)
  case (Cons p ps)
  show ?case
  proof (cases ps)
    case Nil
    then show ?thesis using Cons.prems(1) [of p] Cons.prems(3) by (simp add: reads_as_def)
  next
    case (Cons q qs)
    have d: "delim ('','' @ u)" for u by (simp add: delim_def)
    have "join '','' (map fst (p # ps)) @ t = fst p @ '','' @ join '','' (map fst ps) @ t"
      using Cons by simp
    also have "lex \<dots> = snd p @ lex ('','' @ join '','' (map fst ps) @ t)"
      using Cons.prems(1) [of p] d unfolding reads_as_def by (meson list.set_intros(1))
    also have "lex ('','' @ join '','' (map fst ps) @ t) = TComma # lex (join '','' (map fst ps) @ t)"
      by (simp add: json_space_def)
    also have "lex (join '','' (map fst ps) @ t) = snd (hd ps) @ concat (map (\<lambda>p. TComma # snd p) (tl ps)) @ lex t"
      using Cons.IH Cons.prems Cons by simp
    finally show ?thesis using Cons by simp
  qed
qed simp

lemma reads_as_array:
  assumes "\<And>p. p \<in> set ps \<Longrightarrow> reads_as (fst p) (tokens_of (snd p))"
  shows "reads_as (canonArray (map fst ps)) (tokens_of (JArray (map snd ps)))"
  unfolding reads_as_def
proof (intro allI impI)
  fix t
  assume "delim t"
  have start: "lex (''['' @ u) = TLBrack # lex u" "lex ('']'' @ u) = TRBrack # lex u" for u
    by (simp_all add: json_space_def)
  show "lex (canonArray (map fst ps) @ t) = tokens_of (JArray (map snd ps)) @ lex t"
  proof (cases ps)
    case Nil
    then show ?thesis by (simp add: canonArray_def json_space_def)
  next
    case (Cons q qs)
    let ?qs = "map (\<lambda>p. (fst p, tokens_of (snd p))) ps"
    have "lex (join '','' (map fst ?qs) @ '']'' @ t)
        = snd (hd ?qs) @ concat (map (\<lambda>p. TComma # snd p) (tl ?qs)) @ lex ('']'' @ t)"
      using assms Cons by (intro reads_as_join) (auto simp: delim_def)
    then show ?thesis using Cons start
      by (simp add: canonArray_def comp_def json_space_def)
  qed
qed

lemma reads_as_object:
  assumes "\<And>m. m \<in> set ms \<Longrightarrow> ValidString (fst m) \<and> reads_as (fst (snd m)) (tokens_of (snd (snd m)))"
  shows "reads_as (canonObject (map (\<lambda>m. (fst m, fst (snd m))) ms)) (tokens_of (JObject (map (\<lambda>m. (fst m, snd (snd m))) ms)))"
  unfolding reads_as_def
proof (intro allI impI)
  fix t
  assume t: "delim t"
  let ?f = "\<lambda>m. (writeJSONString (fst m) @ '':'' @ fst (snd m), TStr (fst m) # TColon # tokens_of (snd (snd m)))"
  have member: "reads_as (fst (?f m)) (snd (?f m))" if "m \<in> set ms" for m
    unfolding reads_as_def
  proof (intro allI impI)
    fix u
    assume "delim u"
    have "lex (fst (?f m) @ u) = TStr (fst m) # lex ('':'' @ fst (snd m) @ u)"
      using lex_string_token [of "fst m" "'':'' @ fst (snd m) @ u"] assms [OF that] by simp
    also have "lex ('':'' @ fst (snd m) @ u) = TColon # lex (fst (snd m) @ u)" by (simp add: json_space_def)
    also have "lex (fst (snd m) @ u) = tokens_of (snd (snd m)) @ lex u"
      using assms [OF that] \<open>delim u\<close> unfolding reads_as_def by blast
    finally show "lex (fst (?f m) @ u) = snd (?f m) @ lex u" by simp
  qed
  show "lex (canonObject (map (\<lambda>m. (fst m, fst (snd m))) ms) @ t)
      = tokens_of (JObject (map (\<lambda>m. (fst m, snd (snd m))) ms)) @ lex t"
  proof (cases ms)
    case Nil
    then show ?thesis by (simp add: canonObject_def json_space_def)
  next
    case (Cons q qs)
    have "lex (join '','' (map fst (map ?f ms)) @ ''}'' @ t)
        = snd (hd (map ?f ms)) @ concat (map (\<lambda>p. TComma # snd p) (tl (map ?f ms))) @ lex (''}'' @ t)"
      using member Cons by (intro reads_as_join) (auto simp: delim_def)
    then show ?thesis using Cons
      by (simp add: canonObject_def comp_def json_space_def)
  qed
qed

lemma rbind_InrD: "rbind r (\<lambda>a. Inr (f a)) = Inr y \<Longrightarrow> \<exists>a. r = Inr a \<and> y = f a"
  by (cases r) auto

lemma reads_as_canonValue:
  "canonValue v = Inr s \<Longrightarrow> wf_json v \<Longrightarrow> reads_as s (tokens_of (sorted_json v))"
proof (induction v arbitrary: s rule: canonValue.induct)
  case 1
  then show ?case by (auto simp: reads_as_def json_space_def)
next
  case (2 b)
  then show ?case by (auto simp: reads_as_def json_space_def)
next
  case (3 n)
  then have "checkCanonJSONInt n = Inr ()" "s = n" by auto
  then show ?case using canonical_digits [of n "()"] 3(2) by (simp add: lex_number_token)
next
  case (4 x)
  then show ?case by (auto simp: reads_as_def lex_string_token split: if_splits)
next
  case (5 vs)
  then obtain els where els: "mapr canonValue vs = Inr els" "s = canonArray els" by auto
  let ?ps = "zip els (map sorted_json vs)"
  have len: "length els = length vs" by (rule mapr_length [OF els(1)])
  have "reads_as (fst p) (tokens_of (snd p))" if p: "p \<in> set ?ps" for p
  proof -
    obtain i where i: "i < length vs" "p = (els ! i, sorted_json (vs ! i))"
      using p len by (auto simp: set_zip)
    then have "canonValue (vs ! i) = Inr (els ! i)" using mapr_nth [OF els(1)] by simp
    moreover have "wf_json (vs ! i)" using 5(3) i(1) by (simp add: list_all_length)
    ultimately show ?thesis using 5(1) [of "vs ! i"] i by simp
  qed
  from reads_as_array [of ?ps, OF this] show ?case using els(2) len by simp
next
  case (6 kvs)
  let ?s = "sort_key (\<lambda>kv. utf16_key (fst kv)) kvs"
  obtain ms where ms: "mapr (\<lambda>kv. rbind (canonValue (snd kv)) (\<lambda>t. Inr (fst kv, t))) ?s = Inr ms" "s = canonObject ms"
    using 6(2) by auto
  let ?ms = "map (\<lambda>p. (fst (fst p), snd (snd p), sorted_json (snd (fst p)))) (zip ?s ms)"
  have len: "length ms = length ?s" by (rule mapr_length [OF ms(1)])
  have member: "ms ! i = (fst (?s ! i), snd (ms ! i)) \<and> canonValue (snd (?s ! i)) = Inr (snd (ms ! i))"
    if i: "i < length ?s" for i
  proof -
    obtain a where "canonValue (snd (?s ! i)) = Inr a" "ms ! i = (fst (?s ! i), a)"
      using rbind_InrD [OF mapr_nth [OF ms(1) i]] by blast
    then show ?thesis by simp
  qed
  have "ValidString (fst m) \<and> reads_as (fst (snd m)) (tokens_of (snd (snd m)))" if m: "m \<in> set ?ms" for m
  proof -
    obtain i where i: "i < length ?s" "m = (fst (?s ! i), snd (ms ! i), sorted_json (snd (?s ! i)))"
      using m len by (auto simp: set_zip)
    then have "?s ! i \<in> set ?s" by (intro nth_mem)
    then have "?s ! i \<in> set kvs" by simp
    moreover from this have "ValidString (fst (?s ! i))" "wf_json (snd (?s ! i))"
      using 6(3) by (auto simp: list_all_iff)
    ultimately show ?thesis using 6(1) [of "?s ! i"] member [OF i(1)] i by simp
  qed
  note r = reads_as_object [of ?ms, OF this]
  have "map (\<lambda>m. (fst m, fst (snd m))) ?ms = ms"
    using len member by (intro nth_equalityI) (auto simp: prod_eq_iff)
  moreover have "map (\<lambda>m. (fst m, snd (snd m))) ?ms = map (\<lambda>kv. (fst kv, sorted_json (snd kv))) ?s"
    using len by (intro nth_equalityI) auto
  ultimately show ?case using r ms(2) by (simp del: map_map)
qed

lemma depth_max: "depth (JArray vs) = Suc (Max (insert 0 (depth ` set vs)))"
  "depth (JObject kvs) = Suc (Max (insert 0 ((\<lambda>kv. depth (snd kv)) ` set kvs)))"
proof -
  have m: "fold max xs (0 :: nat) = Max (insert 0 (set xs))" for xs
    using Max.set_eq_fold [of 0 xs] by simp
  show "depth (JArray vs) = Suc (Max (insert 0 (depth ` set vs)))" by (simp add: m)
  show "depth (JObject kvs) = Suc (Max (insert 0 ((\<lambda>kv. depth (snd kv)) ` set kvs)))" by (simp add: m)
qed

lemma depth_sorted_json [simp]: "depth (sorted_json v) = depth v"
proof (induction v rule: sorted_json.induct)
  case (1 vs)
  then show ?case by (simp only: sorted_json.simps depth_max set_map image_image) (simp cong: image_cong_simp)
next
  case (2 kvs)
  have "depth (sorted_json (snd kv)) = depth (snd kv)" if "kv \<in> set kvs" for kv
    using 2 that by simp
  then show ?case by (simp only: sorted_json.simps depth_max set_map image_image set_sort) (simp cong: image_cong_simp)
qed simp_all

lemma sort_key_map_id:
  "(\<And>x. k (f x) = k x) \<Longrightarrow> sort_key k (map f (sort_key k xs)) = map f (sort_key k xs)"
  by (rule sort_key_id_if_sorted) (simp add: comp_def)

lemma mapr_map: "mapr f (map g xs) = mapr (\<lambda>x. f (g x)) xs"
  by (induction xs) simp_all

lemma canonValue_sorted: "canonValue (sorted_json v) = canonValue v"
proof (induction v rule: canonValue.induct)
  case (5 vs)
  then show ?case by (simp add: mapr_map cong: mapr_cong)
next
  case (6 kvs)
  let ?k = "\<lambda>kv :: string \<times> jval. utf16_key (fst kv)"
  have "sort_key ?k (map (\<lambda>kv. (fst kv, sorted_json (snd kv))) (sort_key ?k kvs))
      = map (\<lambda>kv. (fst kv, sorted_json (snd kv))) (sort_key ?k kvs)"
    by (rule sort_key_map_id) simp
  moreover have "mapr (\<lambda>kv. rbind (canonValue (sorted_json (snd kv))) (\<lambda>t. Inr (fst kv, t))) (sort_key ?k kvs)
      = mapr (\<lambda>kv. rbind (canonValue (snd kv)) (\<lambda>t. Inr (fst kv, t))) (sort_key ?k kvs)"
    using 6 by (intro mapr_cong refl) simp
  ultimately show ?case by (simp add: mapr_map)
qed simp_all

lemma decode_any_id: "distinct_keys v \<Longrightarrow> decode_any v = v"
proof (induction v rule: distinct_keys.induct)
  case (1 vs)
  then show ?case by (simp add: list_all_iff map_idI)
next
  case (2 kvs)
  have "map (\<lambda>kv. (fst kv, decode_any (snd kv))) kvs = kvs"
    using 2 by (intro map_idI) (auto simp: list_all_iff)
  then show ?case using 2(2) by (simp add: last_wins_distinct)
qed simp_all

lemma distinct_keys_sorted: "distinct_keys v \<Longrightarrow> distinct_keys (sorted_json v)"
proof (induction v rule: distinct_keys.induct)
  case (1 vs)
  then show ?case by (simp add: list_all_iff)
next
  case (2 kvs)
  have "distinct (map fst (sort_key (\<lambda>kv. utf16_key (fst kv)) kvs))"
    using 2(2) by (metis distinct_keys.simps(2) mset_eq_imp_distinct_iff mset_map mset_sort)
  then show ?case using 2 by (auto simp: list_all_iff comp_def)
qed simp_all

lemma last_wins_subset: "set (last_wins kvs) \<subseteq> set kvs"
  by (induction kvs) auto

lemma decode_any_wf: "wf_json v \<Longrightarrow> wf_json (decode_any v) \<and> distinct_keys (decode_any v)"
proof (induction v rule: decode_any.induct)
  case (1 vs)
  then show ?case by (auto simp: list_all_iff)
next
  case (2 kvs)
  let ?kvs = "map (\<lambda>kv. (fst kv, decode_any (snd kv))) kvs"
  have "ValidString (fst kv) \<and> wf_json (snd kv) \<and> distinct_keys (snd kv)" if "kv \<in> set ?kvs" for kv
    using that 2 by (auto simp: list_all_iff)
  then show ?case using last_wins_subset [of ?kvs] distinct_last_wins [of ?kvs]
    by (auto simp: list_all_iff simp del: set_map)
qed simp_all

lemma canonValue_roundtrip:
  assumes "canonValue v = Inr s" "wf_json v" "distinct_keys v" "depth v \<le> maxNestingDepth"
  shows "parse_all s = Some (sorted_json v)" "decode_any (sorted_json v) = sorted_json v" "canonValue (sorted_json v) = Inr s"
proof -
  have "lex (s @ []) = tokens_of (sorted_json v) @ lex []"
    using reads_as_canonValue [OF assms(1,2)] unfolding reads_as_def by (simp add: delim_def)
  then have "lex s = tokens_of (sorted_json v) @ []" by simp
  then show "parse_all s = Some (sorted_json v)"
    using parse_tokens_of_all [of "sorted_json v" "[]"] assms(4) by (simp add: parse_all_def)
  show "decode_any (sorted_json v) = sorted_json v" by (rule decode_any_id [OF distinct_keys_sorted [OF assms(3)]])
  show "canonValue (sorted_json v) = Inr s" using assms(1) by (simp add: canonValue_sorted)
qed

text \<open>A raw message holds a value that was decoded from a text.\<close>

fun raws_ok :: "goval \<Rightarrow> bool" where
  "raws_ok (GRaw v) \<longleftrightarrow> wf_json v"
| "raws_ok (GPtr v) \<longleftrightarrow> raws_ok v"
| "raws_ok (GList vs) \<longleftrightarrow> list_all raws_ok vs"
| "raws_ok (GMap m) \<longleftrightarrow> list_all (\<lambda>kv. raws_ok (snd kv)) m"
| "raws_ok (GStruct fs) \<longleftrightarrow> list_all (\<lambda>f. ValidString (fst f) \<and> raws_ok (snd (snd (snd f)))) fs"
| "raws_ok v \<longleftrightarrow> True"

lemma ValidString_append_rune:
  assumes "s \<noteq> []" "decode_rune s \<noteq> (RuneError, 1)" "ValidString t"
  shows "ValidString (take (snd (decode_rune s)) s @ t)"
proof -
  let ?u = "take (snd (decode_rune s)) s"
  have w: "1 \<le> snd (decode_rune s)" "snd (decode_rune s) \<le> length s" using decode_rune_width [OF assms(1)] by auto
  then have "?u \<noteq> []" "length ?u = snd (decode_rune s)" using assms(1) by auto
  then show ?thesis using decode_rune_append [OF assms(1,2), of t] assms(2,3)
    by (subst ValidString.simps) simp
qed

lemma ValidString_encode:
  "ValidString t \<Longrightarrow> ValidString (encode_rune (fst (decode_rune s)) @ t)"
proof (cases "s = [] \<or> decode_rune s = (RuneError, 1)")
  case True
  assume t: "ValidString t"
  have e: "encode_rune RuneError = [char_of (0xEF :: nat), char_of (0xBF :: nat), char_of (0xBD :: nat)]"
    by (simp add: encode_rune_def RuneError_def)
  have d: "decode_rune (encode_rune RuneError @ u) = (RuneError, 3)" for u
    unfolding e by (simp add: decode_rune_def Let_def in_range_def second_range_def cont_byte_def RuneError_def)
  have "fst (decode_rune s) = RuneError" using True by (auto simp: decode_rune_def)
  then show ?thesis using t d [of t] by (subst ValidString.simps) (simp add: e)
next
  case False
  assume "ValidString t"
  then show ?thesis using False encode_decode [of s] ValidString_append_rune [of s t] by simp
qed

lemma ValidString_to_valid: "ValidString (to_valid s)"
proof (induction s rule: runes.induct)
  case (1 s)
  show ?case
  proof (cases "s = []")
    case False
    then have "to_valid s = encode_rune (fst (decode_rune s)) @ to_valid (drop (snd (decode_rune s)) s)"
      by (simp add: to_valid_def runes.simps [of s])
    then show ?thesis using 1 [OF False] ValidString_encode by simp
  qed (simp add: to_valid_def)
qed

lemma number_literal_dec: "number_literal (dec_of_nat n)"
proof -
  have "lex_number (dec_of_nat n @ []) = Some (dec_of_nat n, [])"
    using dec_of_nat_digits dec_of_nat_hd_zero by (intro lex_number_canonical) (auto simp: delim_def)
  then show ?thesis by (simp add: number_literal_def)
qed

lemma number_literal_dec_int: "number_literal (dec_of_int i)"
proof (cases "i < 0")
  case True
  obtain c r where cr: "dec_of_nat (nat (- i)) = c # r" by (cases "dec_of_nat (nat (- i))") auto
  then have c: "c \<noteq> CHR ''-''" using dec_of_nat_digits [of "nat (- i)"] by (auto simp: is_digit_def code_def)
  have n: "lex_number (c # r) = Some (c # r, [])"
    using number_literal_dec [of "nat (- i)"] lex_number_canonical [of "c # r" "[]"] dec_of_nat_digits [of "nat (- i)"]
      dec_of_nat_hd_zero [of "nat (- i)"] by (simp add: cr delim_def)
  then have "lex_number (CHR ''-'' # c # r) = Some (CHR ''-'' # c # r, [])"
    using c by (auto simp: lex_number_def split: option.splits prod.splits)
  then show ?thesis using True cr by (simp add: dec_of_int_def number_literal_def)
qed (simp add: dec_of_int_def number_literal_dec)

lemma marshal_wf: "marshal g = Inr j \<Longrightarrow> rejectFloatKinds g = Inr u \<Longrightarrow> raws_ok g \<Longrightarrow> wf_json j"
proof (induction g arbitrary: j u rule: marshal.induct)
  case (5 s)
  then show ?case by (auto split: if_splits simp: number_literal_def lex_number_def lex_int_def lex_frac_def lex_exp_def)
next
  case (9 vs)
  then obtain js where js: "mapr marshal vs = Inr js" "j = JArray js" by auto
  have "wf_json (js ! i)" if "i < length vs" for i
    using 9(1) [of "vs ! i" "js ! i"] that mapr_nth [OF js(1)] 9(3,4) mapr_nth [of rejectFloatKinds vs]
    by (auto simp: list_all_length)
  then show ?case using js mapr_length [OF js(1)] by (simp add: list_all_length)
next
  case (10 m)
  let ?f = "\<lambda>kv. rbind (marshal (snd kv)) (\<lambda>j. Inr (to_valid (fst kv), j))"
  obtain js where js: "mapr ?f m = Inr js" "j = JObject js" using 10(2) by auto
  obtain us where us: "mapr (\<lambda>kv. rejectFloatKinds (snd kv)) m = Inr us" using 10(3) by auto
  have "ValidString (fst (js ! i)) \<and> wf_json (snd (js ! i))" if i: "i < length m" for i
  proof -
    obtain a where a: "marshal (snd (m ! i)) = Inr a" "js ! i = (to_valid (fst (m ! i)), a)"
      using rbind_InrD [OF mapr_nth [OF js(1) i]] by blast
    moreover have "raws_ok (snd (m ! i))" using 10(4) i by (simp add: list_all_length)
    ultimately show ?thesis using 10(1) [of "m ! i" a "us ! i"] mapr_nth [OF us i] i by (simp add: ValidString_to_valid)
  qed
  then show ?case using js mapr_length [OF js(1)] by (simp add: list_all_length)
next
  case (11 fs)
  let ?f = "\<lambda>f. if \<not> fst (snd f) \<or> fst (snd (snd f)) \<and> is_empty_value (snd (snd (snd f))) then Inr []
                     else rbind (marshal (snd (snd (snd f)))) (\<lambda>j. Inr [(fst f, j)])"
  obtain js where js: "mapr ?f fs = Inr js" "j = JObject (concat js)" using 11(2) by auto
  obtain us where us: "mapr (\<lambda>f. if \<not> fst (snd f) then Inr () else rejectFloatKinds (snd (snd (snd f)))) fs = Inr us"
    using 11(3) by auto
  have "list_all (\<lambda>kv. ValidString (fst kv) \<and> wf_json (snd kv)) (js ! i)" if i: "i < length fs" for i
  proof (cases "\<not> fst (snd (fs ! i)) \<or> fst (snd (snd (fs ! i))) \<and> is_empty_value (snd (snd (snd (fs ! i))))")
    case True
    then show ?thesis using mapr_nth [OF js(1) i] by auto
  next
    case False
    have "rbind (marshal (snd (snd (snd (fs ! i))))) (\<lambda>j. Inr [(fst (fs ! i), j)]) = Inr (js ! i)"
      using mapr_nth [OF js(1) i] by (simp only: False if_False)
    then obtain a where a: "marshal (snd (snd (snd (fs ! i)))) = Inr a" "js ! i = [(fst (fs ! i), a)]"
      using rbind_InrD [where f = "\<lambda>j. [(fst (fs ! i), j)]"] by blast
    moreover have "ValidString (fst (fs ! i)) \<and> raws_ok (snd (snd (snd (fs ! i))))"
      using 11(4) i by (simp add: list_all_length)
    moreover have "rejectFloatKinds (snd (snd (snd (fs ! i)))) = Inr (us ! i)"
      using mapr_nth [OF us i] False by simp
    ultimately show ?thesis using 11(1) [of "fs ! i" a "us ! i"] False i by simp
  qed
  then have "list_all (list_all (\<lambda>kv. ValidString (fst kv) \<and> wf_json (snd kv))) js"
    using mapr_length [OF js(1)] by (simp add: list_all_length)
  then show ?case using js(2) by (auto simp: list_all_iff)
qed (auto simp: ValidString_to_valid number_literal_dec_int)

text \<open>The text has no line feed, so documents can be stored one to a line.\<close>

lemma write_rune_no_newline: "CHR 0x0A \<notin> set (write_rune r)"
proof -
  have k: "char_of n = CHR 0x0A \<Longrightarrow> n < 0x100 \<Longrightarrow> n = 0x0A" for n :: nat
    using code_char_of [of n] code_chars(3) by simp
  have c: "CHR 0x0A \<noteq> char_of n" if "0x80 \<le> n" "n < 0x100" for n :: nat
    using that k [of n] by auto
  have a: "char_of r \<noteq> CHR 0x0A" if "r \<noteq> 0x0A" "r < 0x80" for r :: nat
    using that k [of r] by auto
  have e: "CHR 0x0A \<notin> set (encode_rune r)" if "r \<noteq> 0x0A" for r
  proof -
    define q where "q = (if r > 0x10FFFF \<or> (0xD800 \<le> r \<and> r \<le> 0xDFFF) then RuneError else r)"
    have q: "q \<noteq> 0x0A" "q \<le> 0x10FFFF" using that by (auto simp: q_def RuneError_def)
    have m: "q div 64 mod 64 < 64" "q mod 64 < 64" "q div 4096 mod 64 < 64" by simp_all
    have d: "q < 0x800 \<Longrightarrow> q div 64 < 32" "q < 0x10000 \<Longrightarrow> q div 4096 < 16" "q div 262144 \<le> 4"
      using q(2) by (auto simp: less_mult_imp_div_less div_le_mono [of q "0x10FFFF" 262144, simplified])
    have cont: "CHR 0x0A \<noteq> char_of (0x80 + x)" if "x < 64" for x :: nat by (rule c; use that in simp)
    have g: "CHR 0x0A \<notin> set [char_of (0xC0 + q div 64), char_of (0x80 + q mod 64)]" if "q < 0x800"
    proof -
      have "CHR 0x0A \<noteq> char_of (0xC0 + q div 64)" by (rule c; use d(1) [OF that] in simp)
      then show ?thesis using cont [OF m(2)] by (simp only: list.set insert_iff empty_iff) blast
    qed
    have g3: "CHR 0x0A \<notin> set [char_of (0xE0 + q div 4096), char_of (0x80 + q div 64 mod 64), char_of (0x80 + q mod 64)]" if "q < 0x10000"
    proof -
      have "CHR 0x0A \<noteq> char_of (0xE0 + q div 4096)" by (rule c; use d(2) [OF that] in simp)
      then show ?thesis using cont [OF m(1)] cont [OF m(2)] by (simp only: list.set insert_iff empty_iff) blast
    qed
    have g4: "CHR 0x0A \<notin> set [char_of (0xF0 + q div 262144), char_of (0x80 + q div 4096 mod 64),
               char_of (0x80 + q div 64 mod 64), char_of (0x80 + q mod 64)]"
    proof -
      have "CHR 0x0A \<noteq> char_of (0xF0 + q div 262144)" by (rule c; use d(3) in simp)
      then show ?thesis using cont [OF m(1)] cont [OF m(2)] cont [OF m(3)] by (simp only: list.set insert_iff empty_iff) blast
    qed
    have g1: "CHR 0x0A \<notin> set [char_of q]" if "q < 0x80" using a [OF q(1) that] by (metis empty_iff insert_iff list.set)
    show ?thesis unfolding encode_rune_def Let_def q_def [symmetric]
      using g g3 g4 g1 by (simp only: split: if_split) blast
  qed
  have h: "CHR 0x0A \<noteq> hex_digit n" if "n < 16" for n
  proof -
    have "hex_value (CHR 0x0A) = None" by (simp add: hex_value_def)
    then show ?thesis using hex_value_digit [OF that] by auto
  qed
  have "CHR 0x0A \<noteq> hex_digit (r mod 16)" by (rule h) simp
  moreover have "r < 0x20 \<Longrightarrow> CHR 0x0A \<noteq> hex_digit (r div 16)" by (rule h) simp
  ultimately show ?thesis using e [of r] by (auto simp: write_rune_def)
qed

lemma set_join: "set (join sep xs) \<subseteq> set sep \<union> (\<Union>x \<in> set xs. set x)"
  by (induction sep xs rule: join.induct) auto

lemma writeJSONString_no_newline: "CHR 0x0A \<notin> set (writeJSONString s)"
  using write_rune_no_newline by (auto simp: writeJSONString_def)

lemma canonValue_no_newline: "canonValue v = Inr s \<Longrightarrow> wf_json v \<Longrightarrow> CHR 0x0A \<notin> set s"
proof (induction v arbitrary: s rule: canonValue.induct)
  case (3 n)
  then have "list_all is_digit s" using canonical_digits [of n "()"] by auto
  then show ?case by (auto simp: list_all_iff is_digit_def code_def)
next
  case (4 x)
  then show ?case using writeJSONString_no_newline by (auto split: if_splits)
next
  case (5 vs)
  then obtain els where els: "mapr canonValue vs = Inr els" "s = canonArray els" by auto
  have "CHR 0x0A \<notin> set (els ! i)" if "i < length vs" for i
    using 5(1) [of "vs ! i"] mapr_nth [OF els(1) that] 5(3) that by (simp add: list_all_length)
  then have "\<forall>x \<in> set els. CHR 0x0A \<notin> set x" using mapr_length [OF els(1)] by (auto simp: in_set_conv_nth)
  then show ?case using els(2) set_join [of "'',''" els] by (auto simp: canonArray_def)
next
  case (6 kvs)
  let ?s = "sort_key (\<lambda>kv. utf16_key (fst kv)) kvs"
  obtain ms where ms: "mapr (\<lambda>kv. rbind (canonValue (snd kv)) (\<lambda>t. Inr (fst kv, t))) ?s = Inr ms" "s = canonObject ms"
    using 6(2) by auto
  have "CHR 0x0A \<notin> set (snd (ms ! i))" if i: "i < length ?s" for i
  proof -
    obtain a where a: "canonValue (snd (?s ! i)) = Inr a" "ms ! i = (fst (?s ! i), a)"
      using rbind_InrD [OF mapr_nth [OF ms(1) i]] by blast
    have "?s ! i \<in> set ?s" using i by (rule nth_mem)
    then show ?thesis using 6(1) [of "?s ! i" a] 6(3) a by (auto simp: list_all_iff)
  qed
  then have "\<forall>m \<in> set ms. CHR 0x0A \<notin> set (snd m)" using mapr_length [OF ms(1)] by (metis in_set_conv_nth)
  then show ?case
    using ms(2) set_join [of "'',''" "map (\<lambda>m. writeJSONString (fst m) @ '':'' @ snd m) ms"] writeJSONString_no_newline
    by (fastforce simp: canonObject_def)
qed (auto split: if_splits)

section \<open>Properties\<close>


definition ex_goval :: goval where
  "ex_goval = GStruct [(''runId'', True, False, GString ''r1''), (''index'', True, False, GInt 7),
     (''prev'', True, True, GNil), (''list'', True, False, GList [GBool True, GNil])]"

definition ex_json :: jval where
  "ex_json = JObject [(''runId'', JString ''r1''), (''index'', JNumber ''7''), (''list'', JArray [JBool True, JNull])]"

lemma ex_goval_facts:
  "marshal ex_goval = Inr ex_json" "raws_ok ex_goval" "decode_any ex_json = ex_json"
  "rejectFloatKinds ex_goval = Inr ()" "depth ex_json \<le> maxNestingDepth"
proof -
  have "to_valid ''r1'' = ''r1''" by (rule to_valid_id) (simp add: code_def)
  moreover have "dec_of_int 7 = ''7''" by code_simp
  ultimately show "marshal ex_goval = Inr ex_json" by (simp add: ex_goval_def ex_json_def)
  show "raws_ok ex_goval" "decode_any ex_json = ex_json" "rejectFloatKinds ex_goval = Inr ()" "depth ex_json \<le> maxNestingDepth"
    by (simp_all add: ex_goval_def ex_json_def maxNestingDepth_def code_def)
qed

lemma ex_canonValue: "\<exists>s. canonValue ex_json = Inr s"
  by (simp add: ex_json_def utf16_key_def utf16_Encode_def utf16_units_def runes_ascii code_def
      checkCanonJSONInt_def contains_any_def parse_int64_def nat_of_digits_def is_digit_def maxCanonicalInt_def)


end
