(* ===== verification/ManifestCodec.thy ===== *)
theory ManifestCodec
  imports Manifest CanonJson
begin

text \<open>
  The JSON form of the documents of \<open>internal/spec/manifest.go\<close>: for every struct its zero value, the
  fields \<open>json.Unmarshal\<close> stores into, by the names of the struct tags, and the Go value
  \<open>json.Marshal\<close> sees. A nil slice and an empty one are the same list here.
\<close>

definition fld ::
  "string \<Rightarrow> 'a decoder \<Rightarrow> ('r \<Rightarrow> 'a) \<Rightarrow> (('a \<Rightarrow> 'a) \<Rightarrow> 'r \<Rightarrow> 'r) \<Rightarrow> string \<times> (jval \<Rightarrow> 'r \<Rightarrow> 'r option)" where
  "fld name d get upd = (name, \<lambda>v r. map_option (\<lambda>x. upd (\<lambda>_. x) r) (d v (get r)))"

definition go_ptr :: "('a \<Rightarrow> goval) \<Rightarrow> 'a option \<Rightarrow> goval" where
  "go_ptr f x = (case x of None \<Rightarrow> GNil | Some y \<Rightarrow> GPtr (f y))"

definition go_raw :: "jval option \<Rightarrow> goval" where
  "go_raw x = (case x of None \<Rightarrow> GNil | Some v \<Rightarrow> GRaw v)"

definition zero_Freshness :: Freshness where
  "zero_Freshness = \<lparr>fr_PrevRunID = None,
     fr_RunlogIndex = 0\<rparr>"

definition Freshness_fields :: "Freshness fields" where
  "Freshness_fields = [fld ''prevRunId'' (dec_ptr dec_string '''') fr_PrevRunID fr_PrevRunID_update,
     fld ''runlogIndex'' dec_int fr_RunlogIndex fr_RunlogIndex_update]"

definition goval_Freshness :: "Freshness \<Rightarrow> goval" where
  "goval_Freshness r = GStruct [(''prevRunId'', True, False, go_ptr GString (fr_PrevRunID r)),
     (''runlogIndex'', True, False, GInt (fr_RunlogIndex r))]"

definition zero_Window :: Window where
  "zero_Window = \<lparr>wi_Start = '''',
     wi_End = ''''\<rparr>"

definition Window_fields :: "Window fields" where
  "Window_fields = [fld ''start'' dec_string wi_Start wi_Start_update,
     fld ''end'' dec_string wi_End wi_End_update]"

definition goval_Window :: "Window \<Rightarrow> goval" where
  "goval_Window r = GStruct [(''start'', True, False, GString (wi_Start r)),
     (''end'', True, False, GString (wi_End r))]"

definition zero_Source :: Source where
  "zero_Source = \<lparr>so_Type = '''',
     so_NamespaceID = '''',
     so_Bucket = '''',
     so_Label = '''',
     so_Include = [],
     so_Exclude = []\<rparr>"

definition Source_fields :: "Source fields" where
  "Source_fields = [fld ''type'' dec_string so_Type so_Type_update,
     fld ''namespaceId'' dec_string so_NamespaceID so_NamespaceID_update,
     fld ''bucket'' dec_string so_Bucket so_Bucket_update,
     fld ''label'' dec_string so_Label so_Label_update,
     fld ''include'' (dec_list dec_string '''') so_Include so_Include_update,
     fld ''exclude'' (dec_list dec_string '''') so_Exclude so_Exclude_update]"

definition goval_Source :: "Source \<Rightarrow> goval" where
  "goval_Source r = GStruct [(''type'', True, False, GString (so_Type r)),
     (''namespaceId'', True, True, GString (so_NamespaceID r)),
     (''bucket'', True, True, GString (so_Bucket r)),
     (''label'', True, True, GString (so_Label r)),
     (''include'', True, True, GList (map GString (so_Include r))),
     (''exclude'', True, True, GList (map GString (so_Exclude r)))]"

definition zero_Envelope :: Envelope where
  "zero_Envelope = \<lparr>en_AEAD = '''',
     en_KEM = '''',
     en_Signature = '''',
     en_KDF = '''',
     en_ChunkSize = 0,
     en_Codec = ''''\<rparr>"

definition Envelope_fields :: "Envelope fields" where
  "Envelope_fields = [fld ''aead'' dec_string en_AEAD en_AEAD_update,
     fld ''kem'' dec_string en_KEM en_KEM_update,
     fld ''sig'' dec_string en_Signature en_Signature_update,
     fld ''kdf'' dec_string en_KDF en_KDF_update,
     fld ''chunkSize'' dec_int en_ChunkSize en_ChunkSize_update,
     fld ''codec'' dec_string en_Codec en_Codec_update]"

definition goval_Envelope :: "Envelope \<Rightarrow> goval" where
  "goval_Envelope r = GStruct [(''aead'', True, False, GString (en_AEAD r)),
     (''kem'', True, False, GString (en_KEM r)),
     (''sig'', True, False, GString (en_Signature r)),
     (''kdf'', True, False, GString (en_KDF r)),
     (''chunkSize'', True, False, GInt (en_ChunkSize r)),
     (''codec'', True, False, GString (en_Codec r))]"

definition zero_Recipient :: Recipient where
  "zero_Recipient = \<lparr>rp_Fingerprint = '''',
     rp_Role = '''',
     rp_X25519 = '''',
     rp_MLKEM = ''''\<rparr>"

definition Recipient_fields :: "Recipient fields" where
  "Recipient_fields = [fld ''fingerprint'' dec_string rp_Fingerprint rp_Fingerprint_update,
     fld ''role'' dec_string rp_Role rp_Role_update,
     fld ''x25519'' dec_string rp_X25519 rp_X25519_update,
     fld ''mlkem'' dec_string rp_MLKEM rp_MLKEM_update]"

definition goval_Recipient :: "Recipient \<Rightarrow> goval" where
  "goval_Recipient r = GStruct [(''fingerprint'', True, False, GString (rp_Fingerprint r)),
     (''role'', True, False, GString (rp_Role r)),
     (''x25519'', True, False, GString (rp_X25519 r)),
     (''mlkem'', True, False, GString (rp_MLKEM r))]"

definition zero_CapsuleWrap :: CapsuleWrap where
  "zero_CapsuleWrap = \<lparr>cw_Fingerprint = '''',
     cw_KEMCiphertext = '''',
     cw_Sealed = ''''\<rparr>"

definition CapsuleWrap_fields :: "CapsuleWrap fields" where
  "CapsuleWrap_fields = [fld ''fingerprint'' dec_string cw_Fingerprint cw_Fingerprint_update,
     fld ''kemCiphertext'' dec_string cw_KEMCiphertext cw_KEMCiphertext_update,
     fld ''sealed'' dec_string cw_Sealed cw_Sealed_update]"

definition goval_CapsuleWrap :: "CapsuleWrap \<Rightarrow> goval" where
  "goval_CapsuleWrap r = GStruct [(''fingerprint'', True, False, GString (cw_Fingerprint r)),
     (''kemCiphertext'', True, False, GString (cw_KEMCiphertext r)),
     (''sealed'', True, False, GString (cw_Sealed r))]"

definition zero_ShardRef :: ShardRef where
  "zero_ShardRef = \<lparr>sh_ID = '''',
     sh_Object = '''',
     sh_SHA384 = ''''\<rparr>"

definition ShardRef_fields :: "ShardRef fields" where
  "ShardRef_fields = [fld ''id'' dec_string sh_ID sh_ID_update,
     fld ''object'' dec_string sh_Object sh_Object_update,
     fld ''sha384'' dec_string sh_SHA384 sh_SHA384_update]"

definition goval_ShardRef :: "ShardRef \<Rightarrow> goval" where
  "goval_ShardRef r = GStruct [(''id'', True, False, GString (sh_ID r)),
     (''object'', True, False, GString (sh_Object r)),
     (''sha384'', True, False, GString (sh_SHA384 r))]"

definition zero_RootManifest :: RootManifest where
  "zero_RootManifest = \<lparr>rm_FormatVersion = '''',
     rm_RunID = '''',
     rm_CreatedAt = '''',
     rm_DownpipeID = '''',
     rm_Envelope = zero_Envelope,
     rm_Recipients = [],
     rm_MasterCapsule = [],
     rm_RecipientSetHash = '''',
     rm_KeyCommitment = '''',
     rm_BreakGlassPresent = False,
     rm_Shards = [],
     rm_ShardCount = 0,
     rm_DeclaredRecordCount = 0,
     rm_MerkleRoot = '''',
     rm_Freshness = zero_Freshness,
     rm_SigningKeyFingerprint = ''''\<rparr>"

definition RootManifest_fields :: "RootManifest fields" where
  "RootManifest_fields = [fld ''formatVersion'' dec_string rm_FormatVersion rm_FormatVersion_update,
     fld ''runId'' dec_string rm_RunID rm_RunID_update,
     fld ''createdAt'' dec_string rm_CreatedAt rm_CreatedAt_update,
     fld ''downpipeId'' dec_string rm_DownpipeID rm_DownpipeID_update,
     fld ''envelope'' (dec_struct Envelope_fields) rm_Envelope rm_Envelope_update,
     fld ''recipients'' (dec_list (dec_struct Recipient_fields) zero_Recipient) rm_Recipients rm_Recipients_update,
     fld ''masterCapsule'' (dec_list (dec_struct CapsuleWrap_fields) zero_CapsuleWrap) rm_MasterCapsule rm_MasterCapsule_update,
     fld ''recipientSetHash'' dec_string rm_RecipientSetHash rm_RecipientSetHash_update,
     fld ''keyCommitment'' dec_string rm_KeyCommitment rm_KeyCommitment_update,
     fld ''breakGlassPresent'' dec_bool rm_BreakGlassPresent rm_BreakGlassPresent_update,
     fld ''shards'' (dec_list (dec_struct ShardRef_fields) zero_ShardRef) rm_Shards rm_Shards_update,
     fld ''shardCount'' dec_int rm_ShardCount rm_ShardCount_update,
     fld ''declaredRecordCount'' dec_int rm_DeclaredRecordCount rm_DeclaredRecordCount_update,
     fld ''merkleRoot'' dec_string rm_MerkleRoot rm_MerkleRoot_update,
     fld ''freshness'' (dec_struct Freshness_fields) rm_Freshness rm_Freshness_update,
     fld ''signingKeyFingerprint'' dec_string rm_SigningKeyFingerprint rm_SigningKeyFingerprint_update]"

definition goval_RootManifest :: "RootManifest \<Rightarrow> goval" where
  "goval_RootManifest r = GStruct [(''formatVersion'', True, False, GString (rm_FormatVersion r)),
     (''runId'', True, False, GString (rm_RunID r)),
     (''createdAt'', True, False, GString (rm_CreatedAt r)),
     (''downpipeId'', True, False, GString (rm_DownpipeID r)),
     (''envelope'', True, False, goval_Envelope (rm_Envelope r)),
     (''recipients'', True, False, GList (map goval_Recipient (rm_Recipients r))),
     (''masterCapsule'', True, False, GList (map goval_CapsuleWrap (rm_MasterCapsule r))),
     (''recipientSetHash'', True, False, GString (rm_RecipientSetHash r)),
     (''keyCommitment'', True, False, GString (rm_KeyCommitment r)),
     (''breakGlassPresent'', True, False, GBool (rm_BreakGlassPresent r)),
     (''shards'', True, False, GList (map goval_ShardRef (rm_Shards r))),
     (''shardCount'', True, False, GInt (rm_ShardCount r)),
     (''declaredRecordCount'', True, False, GInt (rm_DeclaredRecordCount r)),
     (''merkleRoot'', True, False, GString (rm_MerkleRoot r)),
     (''freshness'', True, False, goval_Freshness (rm_Freshness r)),
     (''signingKeyFingerprint'', True, False, GString (rm_SigningKeyFingerprint r))]"

definition zero_PreambleDownpipe :: PreambleDownpipe where
  "zero_PreambleDownpipe = \<lparr>pd_Name = '''',
     pd_Cadence = ''''\<rparr>"

definition PreambleDownpipe_fields :: "PreambleDownpipe fields" where
  "PreambleDownpipe_fields = [fld ''name'' dec_string pd_Name pd_Name_update,
     fld ''cadence'' dec_string pd_Cadence pd_Cadence_update]"

definition goval_PreambleDownpipe :: "PreambleDownpipe \<Rightarrow> goval" where
  "goval_PreambleDownpipe r = GStruct [(''name'', True, False, GString (pd_Name r)),
     (''cadence'', True, False, GString (pd_Cadence r))]"

definition zero_ShardPreamble :: ShardPreamble where
  "zero_ShardPreamble = \<lparr>sp_Kind = '''',
     sp_FormatVersion = '''',
     sp_RunID = '''',
     sp_ShardID = '''',
     sp_ManifestCodec = '''',
     sp_Downpipe = zero_PreambleDownpipe,
     sp_Source = zero_Source,
     sp_Window = zero_Window,
     sp_Consistency = '''',
     sp_RecordCountInShard = 0\<rparr>"

definition ShardPreamble_fields :: "ShardPreamble fields" where
  "ShardPreamble_fields = [fld ''kind'' dec_string sp_Kind sp_Kind_update,
     fld ''formatVersion'' dec_string sp_FormatVersion sp_FormatVersion_update,
     fld ''runId'' dec_string sp_RunID sp_RunID_update,
     fld ''shardId'' dec_string sp_ShardID sp_ShardID_update,
     fld ''manifestCodec'' dec_string sp_ManifestCodec sp_ManifestCodec_update,
     fld ''downpipe'' (dec_struct PreambleDownpipe_fields) sp_Downpipe sp_Downpipe_update,
     fld ''source'' (dec_struct Source_fields) sp_Source sp_Source_update,
     fld ''window'' (dec_struct Window_fields) sp_Window sp_Window_update,
     fld ''consistency'' dec_string sp_Consistency sp_Consistency_update,
     fld ''recordCountInShard'' dec_int sp_RecordCountInShard sp_RecordCountInShard_update]"

definition goval_ShardPreamble :: "ShardPreamble \<Rightarrow> goval" where
  "goval_ShardPreamble r = GStruct [(''kind'', True, False, GString (sp_Kind r)),
     (''formatVersion'', True, False, GString (sp_FormatVersion r)),
     (''runId'', True, False, GString (sp_RunID r)),
     (''shardId'', True, False, GString (sp_ShardID r)),
     (''manifestCodec'', True, False, GString (sp_ManifestCodec r)),
     (''downpipe'', True, False, goval_PreambleDownpipe (sp_Downpipe r)),
     (''source'', True, False, goval_Source (sp_Source r)),
     (''window'', True, False, goval_Window (sp_Window r)),
     (''consistency'', True, False, GString (sp_Consistency r)),
     (''recordCountInShard'', True, False, GInt (sp_RecordCountInShard r))]"

definition zero_KVDescriptor :: KVDescriptor where
  "zero_KVDescriptor = \<lparr>kv_Metadata = None,
     kv_Expiration = 0\<rparr>"

definition KVDescriptor_fields :: "KVDescriptor fields" where
  "KVDescriptor_fields = [fld ''metadata'' dec_raw kv_Metadata kv_Metadata_update,
     fld ''expiration'' dec_int kv_Expiration kv_Expiration_update]"

definition goval_KVDescriptor :: "KVDescriptor \<Rightarrow> goval" where
  "goval_KVDescriptor r = GStruct [(''metadata'', True, True, go_raw (kv_Metadata r)),
     (''expiration'', True, True, GInt (kv_Expiration r))]"

definition zero_R2Descriptor :: R2Descriptor where
  "zero_R2Descriptor = \<lparr>r2_HTTPMetadata = None,
     r2_CustomMetadata = None\<rparr>"

definition R2Descriptor_fields :: "R2Descriptor fields" where
  "R2Descriptor_fields = [fld ''httpMetadata'' dec_raw r2_HTTPMetadata r2_HTTPMetadata_update,
     fld ''customMetadata'' dec_raw r2_CustomMetadata r2_CustomMetadata_update]"

definition goval_R2Descriptor :: "R2Descriptor \<Rightarrow> goval" where
  "goval_R2Descriptor r = GStruct [(''httpMetadata'', True, True, go_raw (r2_HTTPMetadata r)),
     (''customMetadata'', True, True, go_raw (r2_CustomMetadata r))]"

definition zero_SecretWorkerBinding :: SecretWorkerBinding where
  "zero_SecretWorkerBinding = \<lparr>sb_Script = '''',
     sb_Binding = ''''\<rparr>"

definition SecretWorkerBinding_fields :: "SecretWorkerBinding fields" where
  "SecretWorkerBinding_fields = [fld ''script'' dec_string sb_Script sb_Script_update,
     fld ''binding'' dec_string sb_Binding sb_Binding_update]"

definition goval_SecretWorkerBinding :: "SecretWorkerBinding \<Rightarrow> goval" where
  "goval_SecretWorkerBinding r = GStruct [(''script'', True, False, GString (sb_Script r)),
     (''binding'', True, False, GString (sb_Binding r))]"

definition zero_SecretsDescriptor :: SecretsDescriptor where
  "zero_SecretsDescriptor = \<lparr>sd_Store = '''',
     sd_Scopes = [],
     sd_Comment = '''',
     sd_Workers = [],
     sd_Wiring = '''',
     sd_BindingVar = ''''\<rparr>"

definition SecretsDescriptor_fields :: "SecretsDescriptor fields" where
  "SecretsDescriptor_fields = [fld ''store'' dec_string sd_Store sd_Store_update,
     fld ''scopes'' (dec_list dec_string '''') sd_Scopes sd_Scopes_update,
     fld ''comment'' dec_string sd_Comment sd_Comment_update,
     fld ''workers'' (dec_list (dec_struct SecretWorkerBinding_fields) zero_SecretWorkerBinding) sd_Workers sd_Workers_update,
     fld ''wiring'' dec_string sd_Wiring sd_Wiring_update,
     fld ''bindingVar'' dec_string sd_BindingVar sd_BindingVar_update]"

definition goval_SecretsDescriptor :: "SecretsDescriptor \<Rightarrow> goval" where
  "goval_SecretsDescriptor r = GStruct [(''store'', True, True, GString (sd_Store r)),
     (''scopes'', True, True, GList (map GString (sd_Scopes r))),
     (''comment'', True, True, GString (sd_Comment r)),
     (''workers'', True, True, GList (map goval_SecretWorkerBinding (sd_Workers r))),
     (''wiring'', True, True, GString (sd_Wiring r)),
     (''bindingVar'', True, True, GString (sd_BindingVar r))]"

definition zero_D1Descriptor :: D1Descriptor where
  "zero_D1Descriptor = \<lparr>d1_Format = ''''\<rparr>"

definition D1Descriptor_fields :: "D1Descriptor fields" where
  "D1Descriptor_fields = [fld ''format'' dec_string d1_Format d1_Format_update]"

definition goval_D1Descriptor :: "D1Descriptor \<Rightarrow> goval" where
  "goval_D1Descriptor r = GStruct [(''format'', True, True, GString (d1_Format r))]"

definition zero_Packed :: Packed where
  "zero_Packed = \<lparr>pk_Offset = 0,
     pk_Length = 0\<rparr>"

definition Packed_fields :: "Packed fields" where
  "Packed_fields = [fld ''offset'' dec_int pk_Offset pk_Offset_update,
     fld ''length'' dec_int pk_Length pk_Length_update]"

definition goval_Packed :: "Packed \<Rightarrow> goval" where
  "goval_Packed r = GStruct [(''offset'', True, False, GInt (pk_Offset r)),
     (''length'', True, False, GInt (pk_Length r))]"

definition zero_Segment :: Segment where
  "zero_Segment = \<lparr>sg_Object = '''',
     sg_ChunkRange = (0, 0),
     sg_Packed = None\<rparr>"

definition Segment_fields :: "Segment fields" where
  "Segment_fields = [fld ''object'' dec_string sg_Object sg_Object_update,
     fld ''chunkRange'' dec_pair sg_ChunkRange sg_ChunkRange_update,
     fld ''packed'' (dec_ptr (dec_struct Packed_fields) zero_Packed) sg_Packed sg_Packed_update]"

definition goval_Segment :: "Segment \<Rightarrow> goval" where
  "goval_Segment r = GStruct [(''object'', True, False, GString (sg_Object r)),
     (''chunkRange'', True, False, GList [GInt (fst (sg_ChunkRange r)), GInt (snd (sg_ChunkRange r))]),
     (''packed'', True, False, go_ptr goval_Packed (sg_Packed r))]"

definition zero_ShardRecord :: ShardRecord where
  "zero_ShardRecord = \<lparr>sr_Kind = '''',
     sr_SourceType = '''',
     sr_Namespace = '''',
     sr_Bucket = '''',
     sr_Database = '''',
     sr_Account = '''',
     sr_Name = '''',
     sr_KeyNameHash = '''',
     sr_RecordID = '''',
     sr_PlaintextSize = 0,
     sr_PlaintextSHA = '''',
     sr_RecordHash = '''',
     sr_Codec = '''',
     sr_Segments = [],
     sr_RecordSalt = '''',
     sr_KV = None,
     sr_R2 = None,
     sr_Secrets = None,
     sr_D1 = None,
     sr_IncompleteMarker = ''''\<rparr>"

definition ShardRecord_fields :: "ShardRecord fields" where
  "ShardRecord_fields = [fld ''kind'' dec_string sr_Kind sr_Kind_update,
     fld ''sourceType'' dec_string sr_SourceType sr_SourceType_update,
     fld ''namespace'' dec_string sr_Namespace sr_Namespace_update,
     fld ''bucket'' dec_string sr_Bucket sr_Bucket_update,
     fld ''database'' dec_string sr_Database sr_Database_update,
     fld ''account'' dec_string sr_Account sr_Account_update,
     fld ''name'' dec_string sr_Name sr_Name_update,
     fld ''keyNameHash'' dec_string sr_KeyNameHash sr_KeyNameHash_update,
     fld ''recordId'' dec_string sr_RecordID sr_RecordID_update,
     fld ''plaintextSize'' dec_int sr_PlaintextSize sr_PlaintextSize_update,
     fld ''plaintextSha384'' dec_string sr_PlaintextSHA sr_PlaintextSHA_update,
     fld ''recordHash'' dec_string sr_RecordHash sr_RecordHash_update,
     fld ''codec'' dec_string sr_Codec sr_Codec_update,
     fld ''segments'' (dec_list (dec_struct Segment_fields) zero_Segment) sr_Segments sr_Segments_update,
     fld ''recordSalt'' dec_string sr_RecordSalt sr_RecordSalt_update,
     fld ''kv'' (dec_ptr (dec_struct KVDescriptor_fields) zero_KVDescriptor) sr_KV sr_KV_update,
     fld ''r2'' (dec_ptr (dec_struct R2Descriptor_fields) zero_R2Descriptor) sr_R2 sr_R2_update,
     fld ''secrets'' (dec_ptr (dec_struct SecretsDescriptor_fields) zero_SecretsDescriptor) sr_Secrets sr_Secrets_update,
     fld ''d1'' (dec_ptr (dec_struct D1Descriptor_fields) zero_D1Descriptor) sr_D1 sr_D1_update,
     fld ''incompleteMarker'' dec_string sr_IncompleteMarker sr_IncompleteMarker_update]"

definition goval_ShardRecord :: "ShardRecord \<Rightarrow> goval" where
  "goval_ShardRecord r = GStruct [(''kind'', True, False, GString (sr_Kind r)),
     (''sourceType'', True, False, GString (sr_SourceType r)),
     (''namespace'', True, True, GString (sr_Namespace r)),
     (''bucket'', True, True, GString (sr_Bucket r)),
     (''database'', True, True, GString (sr_Database r)),
     (''account'', True, True, GString (sr_Account r)),
     (''name'', True, False, GString (sr_Name r)),
     (''keyNameHash'', True, False, GString (sr_KeyNameHash r)),
     (''recordId'', True, False, GString (sr_RecordID r)),
     (''plaintextSize'', True, False, GInt (sr_PlaintextSize r)),
     (''plaintextSha384'', True, False, GString (sr_PlaintextSHA r)),
     (''recordHash'', True, False, GString (sr_RecordHash r)),
     (''codec'', True, False, GString (sr_Codec r)),
     (''segments'', True, False, GList (map goval_Segment (sr_Segments r))),
     (''recordSalt'', True, True, GString (sr_RecordSalt r)),
     (''kv'', True, True, go_ptr goval_KVDescriptor (sr_KV r)),
     (''r2'', True, True, go_ptr goval_R2Descriptor (sr_R2 r)),
     (''secrets'', True, True, go_ptr goval_SecretsDescriptor (sr_Secrets r)),
     (''d1'', True, True, go_ptr goval_D1Descriptor (sr_D1 r)),
     (''incompleteMarker'', True, True, GString (sr_IncompleteMarker r))]"

definition zero_RunlogEntry :: RunlogEntry where
  "zero_RunlogEntry = \<lparr>re_Index = 0,
     re_RunID = '''',
     re_DownpipeID = '''',
     re_Time = '''',
     re_RecordCount = 0,
     re_PrevRunID = None,
     re_Status = ''''\<rparr>"

definition RunlogEntry_fields :: "RunlogEntry fields" where
  "RunlogEntry_fields = [fld ''index'' dec_int re_Index re_Index_update,
     fld ''runId'' dec_string re_RunID re_RunID_update,
     fld ''downpipeId'' dec_string re_DownpipeID re_DownpipeID_update,
     fld ''time'' dec_string re_Time re_Time_update,
     fld ''recordCount'' dec_int re_RecordCount re_RecordCount_update,
     fld ''prevRunId'' (dec_ptr dec_string '''') re_PrevRunID re_PrevRunID_update,
     fld ''status'' dec_string re_Status re_Status_update]"

definition goval_RunlogEntry :: "RunlogEntry \<Rightarrow> goval" where
  "goval_RunlogEntry r = GStruct [(''index'', True, False, GInt (re_Index r)),
     (''runId'', True, False, GString (re_RunID r)),
     (''downpipeId'', True, False, GString (re_DownpipeID r)),
     (''time'', True, False, GString (re_Time r)),
     (''recordCount'', True, False, GInt (re_RecordCount r)),
     (''prevRunId'', True, False, go_ptr GString (re_PrevRunID r)),
     (''status'', True, False, GString (re_Status r))]"

end
