(* ===== verification/Runlog.thy ===== *)
theory Runlog
  imports ManifestCodec
begin

text \<open>
  \<open>internal/format/freshness.go\<close>: the signed run log and the anti-rollback check. The functions that
  return a result together with an error return both here; a reason is the error it is the text of.
\<close>

section \<open>Results and errors\<close>

record FreshnessResult =
  fs_IsLatestForDownpipe :: bool
  fs_MaxIndexForDownpipe :: int
  fs_RunlogMaxIndex :: int
  fs_RollbackWarning :: bool
  fs_Unchecked :: bool
  fs_RunlogUntrusted :: bool
  fs_Reason :: "goerr option"

definition zero_FreshnessResult :: FreshnessResult where
  "zero_FreshnessResult = \<lparr>fs_IsLatestForDownpipe = False, fs_MaxIndexForDownpipe = 0, fs_RunlogMaxIndex = 0,
     fs_RollbackWarning = False, fs_Unchecked = False, fs_RunlogUntrusted = False, fs_Reason = None\<rparr>"

definition uncheckedFreshness :: "goerr \<Rightarrow> FreshnessResult" where
  "uncheckedFreshness cause =
     zero_FreshnessResult\<lparr>fs_RollbackWarning := True, fs_Unchecked := True, fs_RunlogUntrusted := True,
       fs_Reason := Some cause\<rparr>"

definition ErrFreshnessUnchecked :: goerr where
  "ErrFreshnessUnchecked = Sentinel ''the anti-rollback/freshness check could not be run''"

definition ErrRunlogChainAnomaly :: goerr where
  "ErrRunlogChainAnomaly = Sentinel ''the runlog verified but contradicts itself''"

definition RunlogUntrustedError :: "goerr \<Rightarrow> bool" where
  "RunlogUntrustedError err \<longleftrightarrow> errors_Is err ErrFreshnessUnchecked \<or> errors_Is err ErrRunlogChainAnomaly"

definition staleUnchecked :: "goerr \<Rightarrow> goerr" where
  "staleUnchecked cause = coded ExitStale (Errorf ''%w: %w'' [AWrap ErrFreshnessUnchecked, AWrap cause])"

definition unchecked_result :: "goerr \<Rightarrow> FreshnessResult \<times> goerr option" where
  "unchecked_result cause = (uncheckedFreshness cause, Some (staleUnchecked cause))"

section \<open>The run log\<close>

definition MarshalRunlog :: "RunlogEntry list \<Rightarrow> goerr + bytes" where
  "MarshalRunlog entries =
     rbind (mapr (\<lambda>e.
       rbind (map_err (\<lambda>err. Errorf ''canonicalise runlog entry %d: %w'' [AInt (re_Index e), AWrap err])
                (CanonicalJSON (goval_RunlogEntry e)))
         (\<lambda>line. Inr (line @ [0x0A]))) entries)
       (\<lambda>ls. Inr (concat ls))"

fun split_bytes :: "byte \<Rightarrow> bytes \<Rightarrow> bytes list" where
  "split_bytes c [] = [[]]"
| "split_bytes c (x # xs) =
     (if x = c then [] # split_bytes c xs
      else (case split_bytes c xs of [] \<Rightarrow> [[x]] | w # ws \<Rightarrow> (x # w) # ws))"

definition parse_entry :: "bytes \<Rightarrow> goerr + RunlogEntry" where
  "parse_entry line =
     rbind (validateCounts line [''index'', ''recordCount'']) (\<lambda>_.
       of_opt (Errorf ''parse runlog entry: %w'' [AWrap (JsonErr ''runlog entry'')])
         (Unmarshal (dec_struct RunlogEntry_fields) zero_RunlogEntry (string_of line)))"

definition ParseRunlog :: "bytes \<Rightarrow> goerr + RunlogEntry list" where
  "ParseRunlog b = mapr parse_entry (filter (\<lambda>line. length line \<noteq> 0) (split_bytes 0x0A b))"

section \<open>The check\<close>

definition samePrev :: "string option \<Rightarrow> string option \<Rightarrow> bool" where
  "samePrev a b = (if a = None \<or> b = None then a = None \<and> b = None else the a = the b)"

text \<open>One step of the scan: the matched entry so far, and the two maxima.\<close>

definition scan_entry ::
  "string \<Rightarrow> string \<Rightarrow> RunlogEntry option \<times> int \<times> int \<Rightarrow> RunlogEntry \<Rightarrow> RunlogEntry option \<times> int \<times> int" where
  "scan_entry runID downpipe st e =
     (case st of (this, runlogMax, downpipeMax) \<Rightarrow>
        (if re_RunID e = runID then Some e else this,
         if re_Index e > runlogMax then re_Index e else runlogMax,
         if re_DownpipeID e = downpipe \<and> re_Index e > downpipeMax then re_Index e else downpipeMax))"

definition lookupRunEntry :: "RunlogEntry list \<Rightarrow> string \<Rightarrow> RootManifest \<Rightarrow> goerr + RunlogEntry \<times> int \<times> int" where
  "lookupRunEntry entries runID rootm =
     (case foldl (scan_entry runID (rm_DownpipeID rootm)) (None, 0, 0) entries of
        (None, _, _) \<Rightarrow> Inl (Errorf ''run %s is absent from the runlog'' [AStr runID])
      | (Some this, runlogMax, downpipeMax) \<Rightarrow>
          if re_DownpipeID this \<noteq> rm_DownpipeID rootm then
            Inl (Errorf ''run %s belongs to downpipe %s, not the signed root downpipe %s''
                   [AStr runID, AStr (re_DownpipeID this), AStr (rm_DownpipeID rootm)])
          else if re_Index this \<noteq> fr_RunlogIndex (rm_Freshness rootm) then
            Inl (Errorf ''runlog index %d disagrees with the signed root %d''
                   [AInt (re_Index this), AInt (fr_RunlogIndex (rm_Freshness rootm))])
          else if \<not> samePrev (re_PrevRunID this) (fr_PrevRunID (rm_Freshness rootm)) then
            Inl (Errorf ''runlog prevRunId disagrees with the signed root'' [])
          else Inr (this, runlogMax, downpipeMax))"

fun adjacent_dup :: "RunlogEntry list \<Rightarrow> goerr + unit" where
  "adjacent_dup (a # b # r) =
     (if re_Index b = re_Index a
      then Inl (Errorf ''runlog index %d appears twice (log corrupted or rewritten)'' [AInt (re_Index b)])
      else adjacent_dup (b # r))"
| "adjacent_dup _ = Inr ()"

fun chain_links :: "(string \<rightharpoonup> string) \<Rightarrow> RunlogEntry list \<Rightarrow> goerr + unit" where
  "chain_links tl_of [] = Inr ()"
| "chain_links tl_of (e # r) =
     (case tl_of (re_DownpipeID e) of
        Some lst \<Rightarrow>
          if re_PrevRunID e \<noteq> Some lst then
            Inl (Errorf ''runlog entry %s for downpipe %s does not chain to the prior retained entry %s (chain rewritten)''
                   [AStr (re_RunID e), AStr (re_DownpipeID e), AStr lst])
          else chain_links (tl_of(re_DownpipeID e \<mapsto> re_RunID e)) r
      | None \<Rightarrow> chain_links (tl_of(re_DownpipeID e \<mapsto> re_RunID e)) r)"

fun prev_refs :: "string set \<Rightarrow> (string \<rightharpoonup> string) \<Rightarrow> RunlogEntry list \<Rightarrow> goerr + unit" where
  "prev_refs ids prevSeen [] = Inr ()"
| "prev_refs ids prevSeen (e # r) =
     (case re_PrevRunID e of
        None \<Rightarrow> prev_refs ids prevSeen r
      | Some prev \<Rightarrow>
          if prev \<notin> ids then
            Inl (Errorf ''runlog entry %s has a dangling prevRunId %s that no entry carries (chain rewritten)''
                   [AStr (re_RunID e), AStr prev])
          else (case prevSeen prev of
                  Some first \<Rightarrow>
                    Inl (Errorf ''runlog entries %s and %s share prevRunId %s (forked chain)''
                           [AStr first, AStr (re_RunID e), AStr prev])
                | None \<Rightarrow> prev_refs ids (prevSeen(prev \<mapsto> re_RunID e)) r))"

definition detectChainAnomaly :: "RunlogEntry list \<Rightarrow> goerr + unit" where
  "detectChainAnomaly entries =
     (let sorted = sort_key re_Index entries
      in rbind (adjacent_dup sorted) (\<lambda>_.
         rbind (chain_links Map.empty sorted) (\<lambda>_.
           prev_refs (set (map re_RunID sorted)) Map.empty sorted)))"

definition CheckFreshness ::
  "pk_lib \<Rightarrow> bytes \<Rightarrow> bytes \<Rightarrow> string \<Rightarrow> RootManifest \<Rightarrow> HybridVerifier \<Rightarrow> int \<Rightarrow> FreshnessResult \<times> goerr option" where
  "CheckFreshness L runlogBytes sigText runID rootm signer minIndex =
     (case B64Decode (TrimSpace (string_of sigText)) of
        Inl err \<Rightarrow> unchecked_result (Errorf ''decode runlog signature: %w'' [AWrap err])
      | Inr sig \<Rightarrow>
      (case Verify L signer runlogBytes sig of
        Inl err \<Rightarrow> unchecked_result (Errorf ''verify runlog signature: %w'' [AWrap (CryptoErr err)])
      | Inr _ \<Rightarrow>
      (case ParseRunlog runlogBytes of
        Inl err \<Rightarrow> unchecked_result err
      | Inr entries \<Rightarrow>
         if length entries = 0 then unchecked_result (Errorf ''runlog is empty'' [])
         else (case lookupRunEntry entries runID rootm of
           Inl err \<Rightarrow> unchecked_result err
         | Inr (this, runlogMax, downpipeMax) \<Rightarrow>
             let result = zero_FreshnessResult\<lparr>
                   fs_IsLatestForDownpipe := (re_Index this = downpipeMax),
                   fs_MaxIndexForDownpipe := downpipeMax,
                   fs_RunlogMaxIndex := runlogMax\<rparr>
             in (case detectChainAnomaly entries of
                   Inl err \<Rightarrow>
                     (result\<lparr>fs_RollbackWarning := True, fs_RunlogUntrusted := True, fs_Reason := Some err\<rparr>,
                      Some (coded ExitStale (Errorf ''%w: %w'' [AWrap ErrRunlogChainAnomaly, AWrap err])))
                 | Inr _ \<Rightarrow>
                     if minIndex > 0 \<and> runlogMax < minIndex then
                       let err = Errorf ''runlog max index %d is below the pinned minimum %d (possible rollback)''
                                   [AInt runlogMax, AInt minIndex]
                       in (result\<lparr>fs_RollbackWarning := True, fs_Reason := Some err\<rparr>, Some (coded ExitStale err))
                     else if \<not> fs_IsLatestForDownpipe result then
                       let err = Errorf ''run %s is not the latest for its downpipe (index %d, latest %d)''
                                   [AStr runID, AInt (re_Index this), AInt downpipeMax]
                       in (result\<lparr>fs_RollbackWarning := True, fs_Reason := Some err\<rparr>, Some (coded ExitStale err))
                     else (result, None))))))"

section \<open>Lemmas on the chain\<close>

lemma adjacent_dup_ok:
  "sorted (map re_Index xs) \<Longrightarrow> adjacent_dup xs = Inr () \<longleftrightarrow> distinct (map re_Index xs)"
proof (induction xs rule: adjacent_dup.induct)
  case (1 a b r)
  then show ?case by (auto simp: less_le image_iff)
qed auto

definition prior :: "(string \<rightharpoonup> string) \<Rightarrow> RunlogEntry list \<Rightarrow> string \<Rightarrow> string option" where
  "prior tail before d =
     (case filter (\<lambda>e. re_DownpipeID e = d) before of [] \<Rightarrow> tail d | es \<Rightarrow> Some (re_RunID (last es)))"

lemma prior_Cons: "prior tail (e # before) = prior (tail(re_DownpipeID e \<mapsto> re_RunID e)) before"
  by (rule ext) (auto simp: prior_def split: list.splits)

lemma chain_links_ok:
  "chain_links tail xs = Inr () \<longleftrightarrow>
     (\<forall>before e rest l. xs = before @ e # rest \<longrightarrow> prior tail before (re_DownpipeID e) = Some l \<longrightarrow> re_PrevRunID e = Some l)"
proof (induction xs arbitrary: tail)
  case (Cons x xs)
  let ?t = "tail(re_DownpipeID x \<mapsto> re_RunID x)"
  have "chain_links tail (x # xs) = Inr () \<longleftrightarrow>
      (\<forall>l. tail (re_DownpipeID x) = Some l \<longrightarrow> re_PrevRunID x = Some l) \<and> chain_links ?t xs = Inr ()"
    by (auto split: option.splits)
  also have "\<dots> \<longleftrightarrow> (\<forall>before e rest l. x # xs = before @ e # rest \<longrightarrow> prior tail before (re_DownpipeID e) = Some l
      \<longrightarrow> re_PrevRunID e = Some l)" (is "?L \<longleftrightarrow> ?R")
  proof
    assume L: ?L
    show ?R
    proof (intro allI impI)
      fix before e rest l
      assume a: "x # xs = before @ e # rest" "prior tail before (re_DownpipeID e) = Some l"
      show "re_PrevRunID e = Some l"
      proof (cases before)
        case Nil
        then show ?thesis using a L by (simp add: prior_def)
      next
        case (Cons b bs)
        have "chain_links ?t xs = Inr ()" using L by blast
        note r = this [unfolded Cons.IH, rule_format]
        have "xs = bs @ e # rest" "prior ?t bs (re_DownpipeID e) = Some l" using a Cons by (auto simp: prior_Cons)
        then show ?thesis by (rule r)
      qed
    qed
  next
    assume R: ?R
    have "re_PrevRunID x = Some l" if "tail (re_DownpipeID x) = Some l" for l
      using R [rule_format, of "[]" x xs l] that by (simp add: prior_def)
    moreover have "chain_links ?t xs = Inr ()"
      unfolding Cons.IH
    proof (intro allI impI)
      fix before e rest l
      assume "xs = before @ e # rest" "prior ?t before (re_DownpipeID e) = Some l"
      then show "re_PrevRunID e = Some l" using R [rule_format, of "x # before" e rest l] by (simp add: prior_Cons)
    qed
    ultimately show ?L by blast
  qed
  finally show ?case .
qed simp

lemma prev_refs_ok:
  "prev_refs ids seen xs = Inr () \<longleftrightarrow>
     (\<forall>e \<in> set xs. \<forall>p. re_PrevRunID e = Some p \<longrightarrow> p \<in> ids \<and> seen p = None)
     \<and> distinct (List.map_filter re_PrevRunID xs)"
proof (induction xs arbitrary: seen)
  case (Cons e xs)
  show ?case
  proof (cases "re_PrevRunID e")
    case None
    then show ?thesis using Cons by (simp add: map_filter_simps)
  next
    case (Some p)
    have "p \<in> set (List.map_filter re_PrevRunID xs) \<longleftrightarrow> (\<exists>e' \<in> set xs. re_PrevRunID e' = Some p)"
      by (force simp: List.map_filter_def)
    moreover have "prev_refs ids seen (e # xs) = Inr () \<longleftrightarrow>
        p \<in> ids \<and> seen p = None \<and> prev_refs ids (seen(p \<mapsto> re_RunID e)) xs = Inr ()"
      using Some by (simp split: option.splits)
    moreover have "List.map_filter re_PrevRunID (e # xs) = p # List.map_filter re_PrevRunID xs"
      using Some by (simp add: map_filter_simps)
    moreover have "(\<forall>f \<in> set xs. \<forall>q. re_PrevRunID f = Some q \<longrightarrow> q \<in> ids \<and> (seen(p \<mapsto> re_RunID e)) q = None)
        \<longleftrightarrow> (\<forall>f \<in> set xs. \<forall>q. re_PrevRunID f = Some q \<longrightarrow> q \<in> ids \<and> seen q = None \<and> q \<noteq> p)"
      by (auto split: if_splits)
    ultimately show ?thesis using Some unfolding Cons.IH by auto
  qed
qed (simp add: map_filter_simps)

text \<open>
  The three rules of the signed run log: no index twice; the entry of a downpipe that follows another
  one names it as its predecessor; and every predecessor named is an entry of the log, named once.
\<close>

definition runlog_wf :: "RunlogEntry list \<Rightarrow> bool" where
  "runlog_wf entries \<longleftrightarrow>
     distinct (map re_Index entries)
     \<and> (\<forall>e \<in> set entries. \<forall>e' \<in> set entries. re_DownpipeID e' = re_DownpipeID e \<and> re_Index e' < re_Index e
          \<and> \<not> (\<exists>m \<in> set entries. re_DownpipeID m = re_DownpipeID e \<and> re_Index e' < re_Index m \<and> re_Index m < re_Index e)
          \<longrightarrow> re_PrevRunID e = Some (re_RunID e'))
     \<and> (\<forall>e \<in> set entries. \<forall>p. re_PrevRunID e = Some p \<longrightarrow> p \<in> re_RunID ` set entries)
     \<and> distinct (List.map_filter re_PrevRunID entries)"

lemma chain_links_sorted:
  assumes "sorted_wrt (\<lambda>a b. re_Index a < re_Index b) xs"
  shows "chain_links Map.empty xs = Inr () \<longleftrightarrow>
    (\<forall>e \<in> set xs. \<forall>e' \<in> set xs. re_DownpipeID e' = re_DownpipeID e \<and> re_Index e' < re_Index e
          \<and> \<not> (\<exists>m \<in> set xs. re_DownpipeID m = re_DownpipeID e \<and> re_Index e' < re_Index m \<and> re_Index m < re_Index e)
          \<longrightarrow> re_PrevRunID e = Some (re_RunID e'))"
    (is "_ \<longleftrightarrow> ?R")
proof
  have lst: "\<exists>e' \<in> set before. re_RunID e' = l \<and> re_DownpipeID e' = d
      \<and> (\<forall>m \<in> set before. re_DownpipeID m = d \<longrightarrow> m = e' \<or> re_Index m < re_Index e')"
    if "prior Map.empty before d = Some l" "sorted_wrt (\<lambda>a b. re_Index a < re_Index b) before" for before d l
  proof -
    let ?f = "filter (\<lambda>e. re_DownpipeID e = d) before"
    have ne: "?f \<noteq> []" and l: "l = re_RunID (last ?f)" using that(1) by (auto simp: prior_def split: list.splits)
    have "sorted_wrt (\<lambda>a b. re_Index a < re_Index b) ?f" using that(2) by (rule sorted_wrt_filter)
    then have "sorted_wrt (\<lambda>a b. re_Index a < re_Index b) (butlast ?f @ [last ?f])" using ne by simp
    then have "\<forall>m \<in> set (butlast ?f). re_Index m < re_Index (last ?f)" by (simp only: sorted_wrt_append) simp
    moreover have "set ?f = insert (last ?f) (set (butlast ?f))"
      using ne by (metis append_butlast_last_id list.simps(15) rotate1.simps(2) set_rotate1)
    ultimately have "\<forall>m \<in> set ?f. m = last ?f \<or> re_Index m < re_Index (last ?f)" by blast
    then show ?thesis using l last_in_set [OF ne] by (intro bexI [of _ "last ?f"]) auto
  qed
  { assume ok: "chain_links Map.empty xs = Inr ()"
    show ?R
    proof (intro ballI impI, elim conjE)
      fix e e'
      assume e: "e \<in> set xs" "e' \<in> set xs" "re_DownpipeID e' = re_DownpipeID e" "re_Index e' < re_Index e"
        and gap: "\<not> (\<exists>m \<in> set xs. re_DownpipeID m = re_DownpipeID e \<and> re_Index e' < re_Index m \<and> re_Index m < re_Index e)"
      obtain before rest where xs: "xs = before @ e # rest" using e(1) by (meson split_list)
      have srt: "sorted_wrt (\<lambda>a b. re_Index a < re_Index b) before" "\<forall>m \<in> set before. re_Index m < re_Index e"
        "\<forall>m \<in> set rest. re_Index e < re_Index m"
        using assms by (auto simp: xs sorted_wrt_append)
      have in_before: "e' \<in> set before" using e(2,4) srt(3) xs by auto
      then have "filter (\<lambda>x. re_DownpipeID x = re_DownpipeID e) before \<noteq> []"
        using e(3) by (auto simp: filter_empty_conv)
      then obtain l where l: "prior Map.empty before (re_DownpipeID e) = Some l"
        by (auto simp: prior_def neq_Nil_conv)
      then obtain p where p: "p \<in> set before" "re_RunID p = l" "re_DownpipeID p = re_DownpipeID e"
        "\<forall>m \<in> set before. re_DownpipeID m = re_DownpipeID e \<longrightarrow> m = p \<or> re_Index m < re_Index p"
        using lst srt(1) by blast
      have "p = e'" using p in_before e(3) gap srt(2) xs by (metis Un_iff set_append)
      then show "re_PrevRunID e = Some (re_RunID e')" using ok l p(2) xs by (auto simp: chain_links_ok)
    qed
  }
  assume R: ?R
  show "chain_links Map.empty xs = Inr ()"
    unfolding chain_links_ok
  proof (intro allI impI)
    fix before e rest l
    assume xs: "xs = before @ e # rest" and l: "prior Map.empty before (re_DownpipeID e) = Some l"
    have srt: "sorted_wrt (\<lambda>a b. re_Index a < re_Index b) before" "\<forall>m \<in> set before. re_Index m < re_Index e"
      "\<forall>m \<in> set rest. re_Index e < re_Index m"
      using assms by (auto simp: xs sorted_wrt_append)
    obtain p where p: "p \<in> set before" "re_RunID p = l" "re_DownpipeID p = re_DownpipeID e"
      "\<forall>m \<in> set before. re_DownpipeID m = re_DownpipeID e \<longrightarrow> m = p \<or> re_Index m < re_Index p"
      using lst [OF l srt(1)] by blast
    have "\<not> (\<exists>m \<in> set xs. re_DownpipeID m = re_DownpipeID e \<and> re_Index p < re_Index m \<and> re_Index m < re_Index e)"
    proof
      assume "\<exists>m \<in> set xs. re_DownpipeID m = re_DownpipeID e \<and> re_Index p < re_Index m \<and> re_Index m < re_Index e"
      then obtain m where m: "m \<in> set xs" "re_DownpipeID m = re_DownpipeID e" "re_Index p < re_Index m" "re_Index m < re_Index e"
        by blast
      then have "m \<in> set before" using srt(3) xs by auto
      then show False using p(4) m(2,3) by auto
    qed
    moreover have "e \<in> set xs" "p \<in> set xs" "re_Index p < re_Index e" using xs p(1) srt(2) by auto
    ultimately show "re_PrevRunID e = Some l" using R p(2,3) by blast
  qed
qed

lemma map_filter_mset: "mset (List.map_filter f xs) = image_mset the (filter_mset (\<lambda>y. y \<noteq> None) (image_mset f (mset xs)))"
  by (induction xs) (auto simp: map_filter_simps split: option.splits)

lemma detectChainAnomaly_ok: "detectChainAnomaly entries = Inr () \<longleftrightarrow> runlog_wf entries"
proof -
  let ?s = "sort_key re_Index entries"
  have d: "distinct (map re_Index ?s) \<longleftrightarrow> distinct (map re_Index entries)"
    by (metis mset_eq_imp_distinct_iff mset_map mset_sort)
  have mf: "distinct (List.map_filter re_PrevRunID ?s) \<longleftrightarrow> distinct (List.map_filter re_PrevRunID entries)"
    by (rule mset_eq_imp_distinct_iff) (simp add: map_filter_mset)
  have "detectChainAnomaly entries = Inr () \<longleftrightarrow> adjacent_dup ?s = Inr () \<and> chain_links Map.empty ?s = Inr ()
      \<and> prev_refs (set (map re_RunID ?s)) Map.empty ?s = Inr ()"
    by (auto simp: detectChainAnomaly_def Let_def)
  also have "\<dots> \<longleftrightarrow> runlog_wf entries"
  proof (cases "distinct (map re_Index entries)")
    case False
    then show ?thesis using adjacent_dup_ok [of ?s] d by (simp add: runlog_wf_def)
  next
    case True
    then have "sorted_wrt (\<lambda>a b. re_Index a < re_Index b) ?s"
      using sorted_distinct_strict [of re_Index ?s] d by simp
    from chain_links_sorted [OF this] show ?thesis
      using True adjacent_dup_ok [of ?s] d mf by (simp add: runlog_wf_def prev_refs_ok)
  qed
  finally show ?thesis .
qed

section \<open>Entries and their lines\<close>

definition entry_json :: "RunlogEntry \<Rightarrow> jval" where
  "entry_json e = JObject
     [(''downpipeId'', JString (re_DownpipeID e)), (''index'', JNumber (dec_of_int (re_Index e))),
      (''prevRunId'', case re_PrevRunID e of None \<Rightarrow> JNull | Some p \<Rightarrow> JString p),
      (''recordCount'', JNumber (dec_of_int (re_RecordCount e))), (''runId'', JString (re_RunID e)),
      (''status'', JString (re_Status e)), (''time'', JString (re_Time e))]"

definition entry_valid :: "RunlogEntry \<Rightarrow> bool" where
  "entry_valid e \<longleftrightarrow> ValidString (re_RunID e) \<and> ValidString (re_DownpipeID e) \<and> ValidString (re_Time e)
     \<and> ValidString (re_Status e) \<and> (case re_PrevRunID e of None \<Rightarrow> True | Some p \<Rightarrow> ValidString p)"

lemma utf16_key_ascii: "list_all (\<lambda>c. code c < 0x80) s \<Longrightarrow> utf16_key s = map code s"
  by (induction s) (auto simp: utf16_key_def utf16_Encode_def runes_ascii utf16_units_def)

lemma marshal_entry:
  assumes "entry_valid e"
  shows "\<exists>j. marshal (goval_RunlogEntry e) = Inr j \<and> sorted_json (decode_any j) = entry_json e
    \<and> wf_json j \<and> raws_ok (goval_RunlogEntry e) \<and> depth (decode_any j) \<le> maxNestingDepth"
proof -
  let ?p = "case re_PrevRunID e of None \<Rightarrow> JNull | Some p \<Rightarrow> JString p"
  let ?j = "JObject [(''index'', JNumber (dec_of_int (re_Index e))), (''runId'', JString (re_RunID e)),
      (''downpipeId'', JString (re_DownpipeID e)), (''time'', JString (re_Time e)),
      (''recordCount'', JNumber (dec_of_int (re_RecordCount e))), (''prevRunId'', ?p), (''status'', JString (re_Status e))]"
  have m: "marshal (goval_RunlogEntry e) = Inr ?j"
    using assms by (simp add: goval_RunlogEntry_def entry_valid_def to_valid_id go_ptr_def split: option.splits)
  have d: "decode_any ?j = ?j" by (simp split: option.splits)
  have k: "utf16_key ''index'' = map code ''index''" "utf16_key ''runId'' = map code ''runId''"
    "utf16_key ''downpipeId'' = map code ''downpipeId''" "utf16_key ''time'' = map code ''time''"
    "utf16_key ''recordCount'' = map code ''recordCount''" "utf16_key ''prevRunId'' = map code ''prevRunId''"
    "utf16_key ''status'' = map code ''status''"
    by (rule utf16_key_ascii, simp add: code_def)+
  have so: "sorted_json ?j = entry_json e"
    by (simp add: entry_json_def k code_def split: option.splits)
  have w: "wf_json ?j" using assms
    by (simp add: entry_valid_def number_literal_dec_int code_def split: option.splits)
  have "depth ?j \<le> maxNestingDepth" by (simp add: maxNestingDepth_def split: option.splits)
  moreover have "raws_ok (goval_RunlogEntry e)" by (simp add: goval_RunlogEntry_def go_ptr_def code_def split: option.splits)
  ultimately show ?thesis using m d so w by simp
qed

lemma canonical_int:
  assumes "checkCanonJSONInt (dec_of_int i) = Inr u"
  shows "0 \<le> i" "parse_int64 (dec_of_int i) = Some i" "checkCanonicalCount p (JNumber (dec_of_int i)) = Inr ()"
proof -
  show nn: "0 \<le> i" using assms by (auto simp: checkCanonJSONInt_def dec_of_int_def split: if_splits)
  obtain n where n: "parse_int64 (dec_of_int i) = Some n" "n \<le> maxCanonicalInt"
    using assms by (auto simp: checkCanonJSONInt_def split: if_splits option.splits)
  have "n = i"
    using n(1) nn parse_int64_dec [of "nat i"] by (auto simp: dec_of_int_def split: if_splits)
  then show "parse_int64 (dec_of_int i) = Some i" using n by simp
  show "checkCanonicalCount p (JNumber (dec_of_int i)) = Inr ()"
    using assms n by (auto simp: checkCanonJSONInt_def checkCanonicalCount_def split: if_splits option.splits)
qed

lemma parse_entry_json:
  assumes "canonValue (entry_json e) = Inr s"
  shows "validate_path (entry_json e) ''index'' = Inr ()" "validate_path (entry_json e) ''recordCount'' = Inr ()"
    "dec_struct RunlogEntry_fields (entry_json e) zero_RunlogEntry = Some e"
proof -
  have k: "utf16_key ''index'' = map code ''index''" "utf16_key ''runId'' = map code ''runId''"
    "utf16_key ''downpipeId'' = map code ''downpipeId''" "utf16_key ''time'' = map code ''time''"
    "utf16_key ''recordCount'' = map code ''recordCount''" "utf16_key ''prevRunId'' = map code ''prevRunId''"
    "utf16_key ''status'' = map code ''status''"
    by (rule utf16_key_ascii, simp add: code_def)+
  have i: "checkCanonJSONInt (dec_of_int (re_Index e)) = Inr ()" "checkCanonJSONInt (dec_of_int (re_RecordCount e)) = Inr ()"
    using assms by (auto simp: entry_json_def k code_def split: option.splits if_splits)
  note c = canonical_int [OF i(1)] canonical_int [OF i(2)]
  have r: "runes ''index'' = map code ''index''" "runes ''runId'' = map code ''runId''"
    "runes ''downpipeId'' = map code ''downpipeId''" "runes ''time'' = map code ''time''"
    "runes ''recordCount'' = map code ''recordCount''" "runes ''prevRunId'' = map code ''prevRunId''"
    "runes ''status'' = map code ''status''"
    by (simp_all add: runes_ascii code_def)
  show "validate_path (entry_json e) ''index'' = Inr ()" "validate_path (entry_json e) ''recordCount'' = Inr ()"
    using c by (simp_all add: validate_path_def entry_json_def cut_suffix_def suffix_def caseCollidingKey_def EqualFold_def r
        fold_rune_def code_def)
  show "dec_struct RunlogEntry_fields (entry_json e) zero_RunlogEntry = Some e"
    using c by (cases e) (simp add: dec_struct_def entry_json_def find_field_def RunlogEntry_fields_def fld_def dec_string_def
        dec_int_def dec_ptr_def zero_RunlogEntry_def split: option.splits)
qed

lemma split_bytes_line:
  "c \<notin> set l \<Longrightarrow> split_bytes c (l @ c # rest) = l # split_bytes c rest"
  by (induction l) auto

lemma parse_all_first: "parse_all s = Some v \<Longrightarrow> decode_first s = Some v"
  by (auto simp: parse_all_def decode_first_def split: option.splits list.splits prod.splits)

lemma entry_line:
  assumes "entry_valid e" "CanonicalJSON (goval_RunlogEntry e) = Inr line"
  shows "parse_entry line = Inr e" "0x0A \<notin> set line" "line \<noteq> []"
proof -
  obtain j where j: "marshal (goval_RunlogEntry e) = Inr j" "sorted_json (decode_any j) = entry_json e"
    "wf_json j" "raws_ok (goval_RunlogEntry e)" "depth (decode_any j) \<le> maxNestingDepth"
    using marshal_entry [OF assms(1)] by blast
  obtain s where s: "canonValue (decode_any j) = Inr s" "line = bytes_of s"
    using assms(2) j(1) by (auto simp: CanonicalJSON_def)
  have w: "wf_json (decode_any j)" "distinct_keys (decode_any j)" using decode_any_wf [OF j(3)] by auto
  note rt = canonValue_roundtrip [OF s(1) w j(5), unfolded j(2)]
  have "validateCounts line [''index'', ''recordCount''] = Inr ()"
    using parse_all_first [OF rt(1)] parse_entry_json(1,2) [OF rt(3)] s(2) rt(2) by (simp add: validateCounts_def)
  then show "parse_entry line = Inr e"
    using parse_entry_json(3) [OF rt(3)] rt(1) s(2) by (simp add: parse_entry_def Unmarshal_def)
  show "0x0A \<notin> set line"
  proof
    assume "0x0A \<in> set line"
    then have "char_of (unat (0x0A :: byte)) \<in> set (string_of line)"
      unfolding string_of_def set_map by (rule imageI)
    moreover have "char_of (unat (0x0A :: byte)) = CHR 0x0A" by (rule code_eqD) (simp add: code_chars)
    ultimately have "CHR 0x0A \<in> set s" unfolding s(2) by (simp only: string_of_bytes_of)
    then show False using canonValue_no_newline [OF s(1) w(1)] by simp
  qed
  have "s \<noteq> []" using rt(1) by (auto simp: parse_all_def)
  then show "line \<noteq> []" using s(2) by (metis length_0_conv length_bytes_of)
qed

lemma ParseRunlog_lines:
  "(\<And>e. e \<in> set es \<Longrightarrow> entry_valid e) \<Longrightarrow>
   mapr (\<lambda>e. rbind (map_err (f e) (CanonicalJSON (goval_RunlogEntry e))) (\<lambda>line. Inr (line @ [0x0A]))) es = Inr ls \<Longrightarrow>
   ParseRunlog (concat ls) = Inr es"
proof (induction es arbitrary: ls)
  case Nil
  then show ?case by (simp add: ParseRunlog_def)
next
  case (Cons e es)
  obtain line ls' where l: "CanonicalJSON (goval_RunlogEntry e) = Inr line" "ls = (line @ [0x0A]) # ls'"
    "mapr (\<lambda>e. rbind (map_err (f e) (CanonicalJSON (goval_RunlogEntry e))) (\<lambda>line. Inr (line @ [0x0A]))) es = Inr ls'"
    using Cons.prems(2) by auto
  have v: "entry_valid e" using Cons.prems(1) by simp
  note el = entry_line [OF v l(1)]
  have "ParseRunlog (concat ls') = Inr es" using Cons l(3) by simp
  then show ?case using el l(2) split_bytes_line [OF el(2)] by (simp add: ParseRunlog_def)
qed

lemma runlog_parse:
  assumes "\<forall>e \<in> set es. entry_valid e" "MarshalRunlog es = Inr b"
  shows "ParseRunlog b = Inr es"
proof -
  let ?f = "\<lambda>e err. Errorf ''canonicalise runlog entry %d: %w'' [AInt (re_Index e), AWrap err]"
  obtain ls where ls: "mapr (\<lambda>e. rbind (map_err (?f e) (CanonicalJSON (goval_RunlogEntry e))) (\<lambda>line. Inr (line @ [0x0A]))) es = Inr ls"
    "b = concat ls"
    using assms(2) by (auto simp: MarshalRunlog_def)
  show ?thesis unfolding ls(2) by (rule ParseRunlog_lines [OF _ ls(1)]) (use assms(1) in blast)
qed

lemma dec_members_int:
  assumes "map_of fs p = Some (\<lambda>v r. map_option (\<lambda>x. upd (\<lambda>_. x) r) (dec_int v (get r)))"
    and "\<And>x r. get (upd (\<lambda>_. x) r) = x"
    and "\<And>n d v r r'. (n, d) \<in> set fs \<Longrightarrow> n \<noteq> p \<Longrightarrow> d v r = Some r' \<Longrightarrow> get r' = get r"
    and "\<And>k. k \<in> fst ` set kvs \<Longrightarrow> k \<noteq> p \<Longrightarrow> \<not> EqualFold k p"
    and "dec_members fs kvs r = Some r'"
  shows "case map_of (rev kvs) p of None \<Rightarrow> get r' = get r | Some v \<Rightarrow> \<exists>x. dec_int v x = Some (get r')"
  using assms(4,5)
proof (induction kvs arbitrary: r)
  case (Cons kv kvs)
  obtain k v where kv: "kv = (k, v)" by (cases kv)
  have col: "\<And>k. k \<in> fst ` set kvs \<Longrightarrow> k \<noteq> p \<Longrightarrow> \<not> EqualFold k p" using Cons.prems(1) by auto
  have rv: "map_of (rev (kv # kvs)) p = (case map_of (rev kvs) p of None \<Rightarrow> if k = p then Some v else None | Some w \<Rightarrow> Some w)"
    by (simp add: kv map_add_def split: option.splits)
  show ?case
  proof (cases "k = p")
    case True
    then have "find_field fs k = Some (\<lambda>v r. map_option (\<lambda>x. upd (\<lambda>_. x) r) (dec_int v (get r)))"
      using assms(1) by (simp add: find_field_def)
    then obtain x where x: "dec_int v (get r) = Some x" "dec_members fs kvs (upd (\<lambda>_. x) r) = Some r'"
      using Cons.prems(2) kv by (auto split: option.splits)
    show ?thesis using Cons.IH [OF col x(2)] x(1) True assms(2) unfolding rv by (auto split: option.splits)
  next
    case False
    have "\<exists>r1. get r1 = get r \<and> dec_members fs kvs r1 = Some r'"
    proof (cases "find_field fs k")
      case None
      then show ?thesis using Cons.prems(2) kv by auto
    next
      case (Some d)
      then obtain r1 where r1: "d v r = Some r1" "dec_members fs kvs r1 = Some r'"
        using Cons.prems(2) kv by (auto split: option.splits)
      have "\<exists>n. (n, d) \<in> set fs \<and> n \<noteq> p"
      proof (cases "map_of fs k")
        case (Some d')
        then show ?thesis using \<open>find_field fs k = Some d\<close> False map_of_SomeD [of fs k d'] by (auto simp: find_field_def)
      next
        case None
        then obtain f where "find (\<lambda>f. EqualFold (fst f) k) fs = Some f" "d = snd f"
          using \<open>find_field fs k = Some d\<close> by (auto simp: find_field_def)
        then have "f \<in> set fs" "EqualFold (fst f) k" by (auto simp: find_Some_iff)
        moreover have "\<not> EqualFold k p" using Cons.prems(1) [of k] kv False by simp
        ultimately show ?thesis using \<open>d = snd f\<close> by (intro exI [of _ "fst f"]) (auto simp: EqualFold_def)
      qed
      then show ?thesis using assms(3) r1 by blast
    qed
    then show ?thesis using Cons.IH [OF col] False unfolding rv by (auto split: option.splits)
  qed
qed simp

lemma map_of_snd: "map_of (map (\<lambda>kv. (fst kv, f (snd kv))) xs) k = map_option f (map_of xs k)"
  by (induction xs) auto

text \<open>
  A count that is checked on the raw document and decoded into a field is canonical: the check and the
  decoder agree on which member the field takes, whatever duplicate or re-cased names the document has.
\<close>

lemma counted_field:
  assumes vc: "validateCounts b ps = Inr ()" "p \<in> set ps" and pn: "plain_name p"
    and um: "Unmarshal (dec_struct fs) z (string_of b) = Some e"
    and f: "map_of fs p = Some (\<lambda>v r. map_option (\<lambda>x. upd (\<lambda>_. x) r) (dec_int v (get r)))"
    and g: "\<And>x r. get (upd (\<lambda>_. x) r) = x"
    and o: "\<And>n d v r r'. (n, d) \<in> set fs \<Longrightarrow> n \<noteq> p \<Longrightarrow> d v r = Some r' \<Longrightarrow> get r' = get r"
    and z: "get z = 0"
  shows "0 \<le> get e \<and> get e \<le> maxCanonicalInt"
proof -
  obtain v where v: "parse_all (string_of b) = Some v" "dec_struct fs v z = Some e"
    using um by (auto simp: Unmarshal_def split: option.splits)
  have vp: "validate_path (decode_any v) p = Inr ()"
    using vc parse_all_first [OF v(1)] loopr_unit_Inr by (fastforce simp: validateCounts_def)
  show ?thesis
  proof (cases v)
    case JNull
    then show ?thesis using v(2) z by (auto simp: dec_struct_def maxCanonicalInt_def)
  next
    case (JObject kvs)
    let ?m = "last_wins (map (\<lambda>kv. (fst kv, decode_any (snd kv))) kvs)"
    have d: "decode_any v = JObject ?m" using JObject by simp
    note pl = validate_path_plain [OF pn vp [unfolded d]]
    have keys: "fst ` set ?m = fst ` set kvs" by (simp add: set_last_wins image_image)
    have col: "\<not> EqualFold k p" if "k \<in> fst ` set kvs" "k \<noteq> p" for k
      using pl(1) that keys by (force simp: caseCollidingKey_def find_None_iff)
    have mem: "dec_members fs kvs z = Some e" using v(2) JObject by (simp add: dec_struct_def)
    have mo: "map_of ?m p = map_option decode_any (map_of (rev kvs) p)"
      by (simp add: map_of_last_wins rev_map map_of_snd)
    show ?thesis
    proof (cases "map_of (rev kvs) p")
      case None
      then show ?thesis using dec_members_int [OF f g o col mem] z by (simp add: maxCanonicalInt_def)
    next
      case (Some w)
      then obtain s n where n: "decode_any w = JNumber s" "parse_int64 s = Some n" "0 \<le> n" "n \<le> maxCanonicalInt"
        using pl(2) [of "decode_any w"] mo by auto
      then have "w = JNumber s" by (cases w) auto
      then show ?thesis using dec_members_int [OF f g o col mem] Some n by (auto simp: dec_int_def)
    qed
  qed (use v(2) in \<open>auto simp: dec_struct_def\<close>)
qed

lemma entry_bounds:
  assumes "parse_entry line = Inr e"
  shows "0 \<le> re_Index e \<and> re_Index e \<le> maxCanonicalInt" "0 \<le> re_RecordCount e \<and> re_RecordCount e \<le> maxCanonicalInt"
proof -
  have vc: "validateCounts line [''index'', ''recordCount''] = Inr ()"
    and um: "Unmarshal (dec_struct RunlogEntry_fields) zero_RunlogEntry (string_of line) = Some e"
    using assms by (auto simp: parse_entry_def)
  show "0 \<le> re_Index e \<and> re_Index e \<le> maxCanonicalInt"
    by (rule counted_field [OF vc _ _ um, of "''index''" re_Index_update re_Index])
      (auto simp: RunlogEntry_fields_def fld_def zero_RunlogEntry_def plain_name_def suffix_def)
  show "0 \<le> re_RecordCount e \<and> re_RecordCount e \<le> maxCanonicalInt"
    by (rule counted_field [OF vc _ _ um, of "''recordCount''" re_RecordCount_update re_RecordCount])
      (auto simp: RunlogEntry_fields_def fld_def zero_RunlogEntry_def plain_name_def suffix_def)
qed

section \<open>Properties\<close>

text \<open>
  C34. The chain check accepts a run log, in whatever order its lines stand, exactly when it is well
  formed: no index occurs twice, the entry of a downpipe that follows another by index names it as its
  predecessor, and every predecessor named is an entry of the log and named by one entry only.
\<close>
theorem chain_check_spec:
  "detectChainAnomaly entries = Inr () \<longleftrightarrow>
     distinct (map re_Index entries)
     \<and> (\<forall>e \<in> set entries. \<forall>e' \<in> set entries. re_DownpipeID e' = re_DownpipeID e \<and> re_Index e' < re_Index e
          \<and> \<not> (\<exists>m \<in> set entries. re_DownpipeID m = re_DownpipeID e \<and> re_Index e' < re_Index m \<and> re_Index m < re_Index e)
          \<longrightarrow> re_PrevRunID e = Some (re_RunID e'))
     \<and> (\<forall>e \<in> set entries. \<forall>p. re_PrevRunID e = Some p \<longrightarrow> p \<in> re_RunID ` set entries)
     \<and> distinct (List.map_filter re_PrevRunID entries)"
  unfolding detectChainAnomaly_ok runlog_wf_def by (rule refl)

definition ex_run :: "int \<Rightarrow> string \<Rightarrow> string option \<Rightarrow> RunlogEntry" where
  "ex_run i rid prev = \<lparr>re_Index = i, re_RunID = rid, re_DownpipeID = ''dp'', re_Time = '''',
     re_RecordCount = 0, re_PrevRunID = prev, re_Status = ''active''\<rparr>"

definition ex_log :: "RunlogEntry list" where
  "ex_log = [ex_run 2 ''b'' (Some ''a''), ex_run 1 ''a'' None]"

theorem chain_check_spec_witness: "detectChainAnomaly ex_log = Inr ()"
  unfolding chain_check_spec by (auto simp: ex_log_def ex_run_def List.map_filter_def)

text \<open>
  Every entry the parser of the run log accepts has canonical counts: the index and the record
  count are between 0 and 2^53 - 1, whatever duplicate or re-cased member names the line carries.
\<close>
theorem ParseRunlog_bounds:
  assumes "ParseRunlog b = Inr es" "e \<in> set es"
  shows "0 \<le> re_Index e \<and> re_Index e \<le> 2 ^ 53 - 1 \<and> 0 \<le> re_RecordCount e \<and> re_RecordCount e \<le> 2 ^ 53 - 1"
proof -
  obtain i where "i < length es" "es ! i = e" using assms(2) by (auto simp: in_set_conv_nth)
  moreover from this obtain line where "parse_entry line = Inr e"
    using assms(1) mapr_nth mapr_length unfolding ParseRunlog_def by metis
  ultimately show ?thesis using entry_bounds [of line e] by (simp add: maxCanonicalInt_def)
qed

text \<open>
  The run log round trip: what the writer serialises, the reader parses back to the same entries.
\<close>
theorem runlog_round_trip:
  assumes "\<forall>e \<in> set es. entry_valid e" "MarshalRunlog es = Inr b"
  shows "ParseRunlog b = Inr es"
  using assms by (rule runlog_parse)

lemma checkCanonJSONInt_ok: "0 \<le> i \<Longrightarrow> i \<le> maxCanonicalInt \<Longrightarrow> checkCanonJSONInt (dec_of_int i) = Inr ()"
proof -
  assume i: "0 \<le> i" "i \<le> maxCanonicalInt"
  have ds: "list_all is_digit (dec_of_nat (nat i))" by (rule dec_of_nat_digits)
  obtain c r where cr: "dec_of_nat (nat i) = c # r" by (cases "dec_of_nat (nat i)") auto
  have "\<not> contains_any ''.eE'' (dec_of_nat (nat i))"
    using ds by (auto simp: contains_any_def list_all_iff is_digit_def code_def list_ex_iff)
  moreover have "\<not> prefix ''-'' (dec_of_nat (nat i))" using ds cr by (auto simp: is_digit_def code_def)
  moreover have "\<not> (length (dec_of_nat (nat i)) > 1 \<and> hd (dec_of_nat (nat i)) = CHR ''0'')"
    using dec_of_nat_hd_zero [of "nat i"] by auto
  moreover have "nat i < 2 ^ 63" using i(2) by (simp add: maxCanonicalInt_def)
  ultimately show ?thesis using i parse_int64_dec [of "nat i"] by (simp add: checkCanonJSONInt_def dec_of_int_def)
qed

lemma ex_log_valid: "\<forall>e \<in> set ex_log. entry_valid e"
  by (simp add: ex_log_def ex_run_def entry_valid_def code_def)

lemma ex_marshal: "\<exists>b. MarshalRunlog ex_log = Inr b"
proof -
  have k: "utf16_key ''index'' = map code ''index''" "utf16_key ''runId'' = map code ''runId''"
    "utf16_key ''downpipeId'' = map code ''downpipeId''" "utf16_key ''time'' = map code ''time''"
    "utf16_key ''recordCount'' = map code ''recordCount''" "utf16_key ''prevRunId'' = map code ''prevRunId''"
    "utf16_key ''status'' = map code ''status''"
    by (rule utf16_key_ascii, simp add: code_def)+
  have "\<exists>line. CanonicalJSON (goval_RunlogEntry e) = Inr line" if "e \<in> set ex_log" for e
  proof -
    have v: "entry_valid e" using that by (auto simp: ex_log_def ex_run_def entry_valid_def code_def)
    obtain j where j: "marshal (goval_RunlogEntry e) = Inr j" "sorted_json (decode_any j) = entry_json e"
      using marshal_entry [OF v] by blast
    have "\<exists>s. canonValue (entry_json e) = Inr s"
      using that checkCanonJSONInt_ok [of 1] checkCanonJSONInt_ok [of 2] checkCanonJSONInt_ok [of 0]
      by (auto simp: ex_log_def ex_run_def entry_json_def k code_def maxCanonicalInt_def)
    moreover have "rejectFloatKinds (goval_RunlogEntry e) = Inr ()"
      by (simp add: goval_RunlogEntry_def go_ptr_def split: option.splits)
    ultimately show ?thesis using j canonValue_sorted [of "decode_any j"] by (auto simp: CanonicalJSON_def)
  qed
  then obtain l1 l2 where "CanonicalJSON (goval_RunlogEntry (ex_run 2 ''b'' (Some ''a''))) = Inr l1"
    "CanonicalJSON (goval_RunlogEntry (ex_run 1 ''a'' None)) = Inr l2" unfolding ex_log_def by (meson list.set_intros)
  then show ?thesis by (simp add: MarshalRunlog_def ex_log_def)
qed

theorem ParseRunlog_bounds_witness:
  "\<exists>b es. ParseRunlog b = Inr es \<and> es \<noteq> [] \<and> list_all (\<lambda>e. 0 \<le> re_Index e \<and> re_Index e \<le> 2 ^ 53 - 1) es"
proof -
  obtain b where "MarshalRunlog ex_log = Inr b" using ex_marshal by blast
  then have b: "ParseRunlog b = Inr ex_log"
    using runlog_parse [OF ex_log_valid] by blast
  have "ex_log \<noteq> []" "list_all (\<lambda>e. 0 \<le> re_Index e \<and> re_Index e \<le> 2 ^ 53 - 1) ex_log"
    using ParseRunlog_bounds [OF b] by (auto simp: list_all_iff ex_log_def)
  then show ?thesis using b by blast
qed

theorem runlog_round_trip_witness: "\<exists>b. MarshalRunlog ex_log = Inr b \<and> ParseRunlog b = Inr ex_log"
proof -
  obtain b where "MarshalRunlog ex_log = Inr b" using ex_marshal by blast
  then show ?thesis using runlog_round_trip [OF ex_log_valid] by blast
qed

lemma scan_facts:
  "foldl (scan_entry runID d) (t0, m0, n0) es = (t, m, n) \<Longrightarrow>
     (case t of None \<Rightarrow> t0 = None | Some e \<Rightarrow> t0 = Some e \<or> e \<in> set es \<and> re_RunID e = runID)
     \<and> m0 \<le> m \<and> n0 \<le> n \<and> (\<forall>e \<in> set es. re_Index e \<le> m \<and> (re_DownpipeID e = d \<longrightarrow> re_Index e \<le> n))
     \<and> (m = m0 \<or> (\<exists>e \<in> set es. re_Index e = m))"
proof (induction es arbitrary: t0 m0 n0)
  case Nil
  then show ?case by (simp split: option.splits)
next
  case (Cons e es)
  let ?t1 = "if re_RunID e = runID then Some e else t0"
  let ?m1 = "if re_Index e > m0 then re_Index e else m0"
  let ?n1 = "if re_DownpipeID e = d \<and> re_Index e > n0 then re_Index e else n0"
  have s: "scan_entry runID d (t0, m0, n0) e = (?t1, ?m1, ?n1)" by (simp add: scan_entry_def)
  have "foldl (scan_entry runID d) (?t1, ?m1, ?n1) es = (t, m, n)"
    using Cons.prems unfolding foldl_Cons s .
  from Cons.IH [OF this] show ?case by (auto split: option.splits if_splits)
qed

lemma lookupRunEntry_Inr:
  assumes "lookupRunEntry entries runID rootm = Inr (this, runlogMax, downpipeMax)"
  shows "this \<in> set entries \<and> re_RunID this = runID \<and> re_DownpipeID this = rm_DownpipeID rootm
    \<and> re_Index this = fr_RunlogIndex (rm_Freshness rootm) \<and> re_PrevRunID this = fr_PrevRunID (rm_Freshness rootm)
    \<and> (\<forall>e \<in> set entries. re_Index e \<le> runlogMax \<and> (re_DownpipeID e = rm_DownpipeID rootm \<longrightarrow> re_Index e \<le> downpipeMax))
    \<and> (runlogMax = 0 \<or> (\<exists>e \<in> set entries. re_Index e = runlogMax))"
proof -
  obtain t m n where f: "foldl (scan_entry runID (rm_DownpipeID rootm)) (None, 0, 0) entries = (t, m, n)"
    by (metis prod_cases3)
  have e: "t = Some this" "m = runlogMax" "n = downpipeMax" "re_DownpipeID this = rm_DownpipeID rootm"
    "re_Index this = fr_RunlogIndex (rm_Freshness rootm)" "samePrev (re_PrevRunID this) (fr_PrevRunID (rm_Freshness rootm))"
    using assms by (auto simp: lookupRunEntry_def f split: option.splits if_splits)
  moreover have "re_PrevRunID this = fr_PrevRunID (rm_Freshness rootm)"
    using e(6) by (auto simp: samePrev_def split: if_splits)
  ultimately show ?thesis using scan_facts [OF f] by auto
qed

text \<open>
  C8. What a passed freshness check means: the run log verifies under the pinned signer, it is a well
  formed chain, it carries the run, bound to the signed root's downpipe, index and predecessor, no entry
  of that downpipe is newer, and when a minimum is pinned some entry reaches it.
\<close>
theorem CheckFreshness_passes:
  assumes "CheckFreshness L runlogBytes sigText runID rootm signer minIndex = (res, None)"
  shows "\<exists>sig entries this.
    B64Decode (TrimSpace (string_of sigText)) = Inr sig \<and> Verify L signer runlogBytes sig = Inr ()
    \<and> ParseRunlog runlogBytes = Inr entries \<and> detectChainAnomaly entries = Inr ()
    \<and> this \<in> set entries \<and> re_RunID this = runID \<and> re_DownpipeID this = rm_DownpipeID rootm
    \<and> re_Index this = fr_RunlogIndex (rm_Freshness rootm) \<and> re_PrevRunID this = fr_PrevRunID (rm_Freshness rootm)
    \<and> (\<forall>e \<in> set entries. re_DownpipeID e = rm_DownpipeID rootm \<longrightarrow> re_Index e \<le> re_Index this)
    \<and> (minIndex > 0 \<longrightarrow> (\<exists>e \<in> set entries. minIndex \<le> re_Index e))
    \<and> fs_IsLatestForDownpipe res \<and> \<not> fs_RollbackWarning res \<and> \<not> fs_RunlogUntrusted res"
proof -
  obtain sig where sig: "B64Decode (TrimSpace (string_of sigText)) = Inr sig"
    using assms by (auto simp: CheckFreshness_def unchecked_result_def split: sum.splits)
  have v: "Verify L signer runlogBytes sig = Inr ()"
    using assms by (auto simp: CheckFreshness_def unchecked_result_def sig split: sum.splits)
  obtain entries where en: "ParseRunlog runlogBytes = Inr entries" "entries \<noteq> []"
    using assms by (auto simp: CheckFreshness_def unchecked_result_def sig v split: sum.splits if_splits)
  obtain this m n where lk: "lookupRunEntry entries runID rootm = Inr (this, m, n)"
    using assms en by (auto simp: CheckFreshness_def unchecked_result_def sig v split: sum.splits)
  have ch: "detectChainAnomaly entries = Inr ()"
    using assms en by (auto simp: CheckFreshness_def unchecked_result_def sig v lk Let_def split: sum.splits)
  have fin: "re_Index this = n" "\<not> (minIndex > 0 \<and> m < minIndex)" "fs_IsLatestForDownpipe res"
    "\<not> fs_RollbackWarning res" "\<not> fs_RunlogUntrusted res"
    using assms en by (auto simp: CheckFreshness_def sig v lk ch Let_def zero_FreshnessResult_def split: if_splits)
  note l = lookupRunEntry_Inr [OF lk]
  have "minIndex > 0 \<longrightarrow> (\<exists>e \<in> set entries. minIndex \<le> re_Index e)"
    using l fin(2) by (metis dual_order.trans linorder_not_le order_refl)
  then show ?thesis using sig v en(1) ch l fin by blast
qed

lemma detectChainAnomaly_chain: "detectChainAnomaly es = Inl e \<Longrightarrow> \<exists>f as. e = Errorf f as \<and> chain e = [e]"
proof -
  have a: "adjacent_dup xs = Inl e \<Longrightarrow> \<exists>f as. e = Errorf f as \<and> chain e = [e]" for xs
    by (induction xs rule: adjacent_dup.induct) (auto split: if_splits)
  have b: "chain_links tl_of xs = Inl e \<Longrightarrow> \<exists>f as. e = Errorf f as \<and> chain e = [e]" for tl_of xs
    by (induction tl_of xs rule: chain_links.induct) (auto split: if_splits option.splits)
  have c: "prev_refs ids seen xs = Inl e \<Longrightarrow> \<exists>f as. e = Errorf f as \<and> chain e = [e]" for ids seen xs
    by (induction ids seen xs rule: prev_refs.induct) (auto split: if_splits option.splits)
  show "detectChainAnomaly es = Inl e \<Longrightarrow> \<exists>f as. e = Errorf f as \<and> chain e = [e]"
    using a b c by (auto simp: detectChainAnomaly_def Let_def rbind_def split: sum.splits)
qed

lemma freshness_failure:
  assumes "CheckFreshness L runlogBytes sigText runID rootm signer minIndex = (res, Some err)"
  shows "as_exit err = Some ExitStale \<and> fs_RollbackWarning res \<and> fs_Reason res \<noteq> None
    \<and> (fs_RunlogUntrusted res \<longleftrightarrow> RunlogUntrustedError err)
    \<and> (fs_Unchecked res \<longleftrightarrow> errors_Is err ErrFreshnessUnchecked)"
proof -
  have u: "as_exit err = Some ExitStale \<and> fs_RollbackWarning res \<and> fs_Reason res \<noteq> None
    \<and> (fs_RunlogUntrusted res \<longleftrightarrow> RunlogUntrustedError err)
    \<and> (fs_Unchecked res \<longleftrightarrow> errors_Is err ErrFreshnessUnchecked)" if "unchecked_result c = (res, Some err)" for c
    using that by (auto simp: unchecked_result_def uncheckedFreshness_def staleUnchecked_def coded_def errors_Is_def
        RunlogUntrustedError_def ErrFreshnessUnchecked_def ErrRunlogChainAnomaly_def)
  show ?thesis
  proof (cases "B64Decode (TrimSpace (string_of sigText))")
    case (Inl e)
    then show ?thesis using assms u by (auto simp: CheckFreshness_def)
  next
    case sig: (Inr sig)
    show ?thesis
    proof (cases "Verify L signer runlogBytes sig")
      case (Inl e)
      then show ?thesis using assms u sig by (auto simp: CheckFreshness_def)
    next
      case v: (Inr b)
      show ?thesis
      proof (cases "ParseRunlog runlogBytes")
        case (Inl e)
        then show ?thesis using assms u sig v by (auto simp: CheckFreshness_def)
      next
        case es: (Inr entries)
        show ?thesis
        proof (cases "entries = [] \<or> (\<exists>e. lookupRunEntry entries runID rootm = Inl e)")
          case True
          then have "\<exists>c. unchecked_result c = (res, Some err)"
            using assms sig v es by (auto simp: CheckFreshness_def split: if_splits)
          then show ?thesis using u by blast
        next
          case False
          then obtain this m n where lk: "lookupRunEntry entries runID rootm = Inr (this, m, n)" and ne: "entries \<noteq> []"
            by (metis prod_cases3 sum.exhaust)
          show ?thesis using assms ne detectChainAnomaly_chain [of entries]
            by (auto simp: CheckFreshness_def sig v es lk Let_def zero_FreshnessResult_def errors_Is_def coded_def
                RunlogUntrustedError_def ErrRunlogChainAnomaly_def ErrFreshnessUnchecked_def split: sum.splits if_splits)
        qed
      qed
    qed
  qed
qed

text \<open>
  C39. How a freshness check fails: every failure exits with the stale code and sets the rollback
  warning, a check that could not be run counts as a statement about the log itself, and the error and
  the result agree on whether the log is untrusted, so one rule decides the permission that is needed.
\<close>
theorem CheckFreshness_fails:
  assumes "CheckFreshness L runlogBytes sigText runID rootm signer minIndex = (res, Some err)"
  shows "as_exit err = Some ExitStale \<and> fs_RollbackWarning res \<and> fs_Reason res \<noteq> None
    \<and> (fs_RunlogUntrusted res \<longleftrightarrow> RunlogUntrustedError err)
    \<and> (fs_Unchecked res \<longleftrightarrow> errors_Is err ErrFreshnessUnchecked)"
  using assms by (rule freshness_failure)

lemma Verify_Sign: "sig_ok L \<Longrightarrow> Sign L rnd s msg = Inr sig \<Longrightarrow> Verify L (Verifier L s) msg sig = Inr ()"
  by (auto simp: sig_ok_def Sign_def Verify_def Verifier_def of_opt_def rbind_def Let_def split: option.splits sum.splits)

definition ex_root :: RootManifest where
  "ex_root = zero_RootManifest\<lparr>rm_RunID := ''b'', rm_DownpipeID := ''dp'',
     rm_Freshness := zero_Freshness\<lparr>fr_RunlogIndex := 2, fr_PrevRunID := Some ''a''\<rparr>\<rparr>"

theorem CheckFreshness_passes_witness:
  "\<exists>b sig. fst (CheckFreshness plain_lib b (bytes_of (B64Encode sig)) ''b'' ex_root (Verifier plain_lib \<lparr>sg_Ed = [], sg_MLDSA = []\<rparr>) 2)
      = zero_FreshnessResult\<lparr>fs_IsLatestForDownpipe := True, fs_MaxIndexForDownpipe := 2, fs_RunlogMaxIndex := 2\<rparr>
    \<and> (\<exists>entries. ParseRunlog b = Inr entries \<and> detectChainAnomaly entries = Inr ())"
proof -
  obtain b where "MarshalRunlog ex_log = Inr b" using ex_marshal by blast
  then have b: "ParseRunlog b = Inr ex_log" using runlog_parse [OF ex_log_valid] by blast
  let ?s = "\<lparr>sg_Ed = [], sg_MLDSA = []\<rparr>" and ?res = "zero_FreshnessResult\<lparr>fs_IsLatestForDownpipe := True, fs_MaxIndexForDownpipe := 2, fs_RunlogMaxIndex := 2\<rparr>"
  obtain sig where "Sign plain_lib [] ?s b = Inr sig" by (simp add: Sign_def plain_lib_def of_opt_def)
  then have v: "Verify plain_lib (Verifier plain_lib ?s) b sig = Inr ()" by (rule Verify_Sign [OF sig_ok_plain])
  have lk: "lookupRunEntry ex_log ''b'' ex_root = Inr (ex_run 2 ''b'' (Some ''a''), 2, 2)"
    by (simp add: lookupRunEntry_def ex_log_def ex_run_def scan_entry_def ex_root_def samePrev_def)
  have c: "CheckFreshness plain_lib b (bytes_of (B64Encode sig)) ''b'' ex_root (Verifier plain_lib ?s) 2 = (?res, None)"
    using b v lk chain_check_spec_witness
    by (simp add: CheckFreshness_def B64Encode_def B64Decode_def of_opt_def ex_log_def ex_run_def zero_FreshnessResult_def)
  have "\<exists>entries. ParseRunlog b = Inr entries \<and> detectChainAnomaly entries = Inr ()"
    using CheckFreshness_passes [OF c] by blast
  moreover have "fst (CheckFreshness plain_lib b (bytes_of (B64Encode sig)) ''b'' ex_root (Verifier plain_lib ?s) 2) = ?res"
    using c by simp
  ultimately show ?thesis by blast
qed

theorem CheckFreshness_fails_witness:
  "\<exists>res err. CheckFreshness plain_lib [] (bytes_of ''*'') ''b'' ex_root (Verifier plain_lib \<lparr>sg_Ed = [], sg_MLDSA = []\<rparr>) 0 = (res, Some err)
     \<and> as_exit err = Some ExitStale \<and> fs_RunlogUntrusted res"
proof -
  have "b64_decode (TrimSpace ''*'') = None"
    by (simp add: TrimSpace_graphic graphic_def b64_decode_def b64_value_def Let_def)
  then have c: "CheckFreshness plain_lib [] (bytes_of ''*'') ''b'' ex_root (Verifier plain_lib \<lparr>sg_Ed = [], sg_MLDSA = []\<rparr>) 0
      = unchecked_result (Errorf ''decode runlog signature: %w'' [AWrap (Base64Err ''*'')])"
    by (simp add: CheckFreshness_def B64Decode_def of_opt_def TrimSpace_graphic graphic_def)
  then obtain res err where r: "CheckFreshness plain_lib [] (bytes_of ''*'') ''b'' ex_root (Verifier plain_lib \<lparr>sg_Ed = [], sg_MLDSA = []\<rparr>) 0 = (res, Some err)"
    "fs_RunlogUntrusted res"
    by (simp add: unchecked_result_def uncheckedFreshness_def zero_FreshnessResult_def)
  then show ?thesis using CheckFreshness_fails [OF r(1)] by blast
qed

end
