(* ===== verification/Store.thy ===== *)
theory Store
  imports Runlog
begin

text \<open>
  \<open>internal/format/reader.go\<close> (the capabilities of a destination and the bounded reads),
  \<open>mutate.go\<close>, \<open>sign.go\<close>, \<open>bundle.go\<close>, \<open>signerpin.go\<close> and \<open>pruned.go\<close>. A destination is a record of its
  operations; an optional capability Go finds by a type assertion is an \<open>option\<close>. The operations are
  functions of their arguments: what a destination answers does not change while one command reads it.
\<close>

section \<open>Destinations\<close>

text \<open>
  What a walk sees of a caller context: the answer of \<open>Err\<close> when it is asked before the \<open>i\<close>-th shard.
\<close>

type_synonym goctx = "nat \<Rightarrow> goerr option"

definition Background :: goctx where
  "Background = (\<lambda>_. None)"

text \<open>
  A streamed read yields a size hint, the bytes the body delivers, the error that ends it, if any, and
  the error its \<open>Close\<close> reports, if any.
\<close>

record ObjectStore =
  st_Get :: "string \<Rightarrow> goerr + bytes"
  st_GetReader :: "(goctx \<Rightarrow> string \<Rightarrow> goerr + int \<times> bytes \<times> goerr option \<times> goerr option) option"
  st_GetContext :: "(goctx \<Rightarrow> string \<Rightarrow> goerr + bytes) option"
  st_GetLimit :: "(string \<Rightarrow> int \<Rightarrow> goerr + bytes) option"
  st_List :: "(string \<Rightarrow> goerr + string list) option"

definition storeGet :: "goctx \<Rightarrow> ObjectStore \<Rightarrow> string \<Rightarrow> goerr + bytes" where
  "storeGet ctx store key = (case st_GetContext store of Some g \<Rightarrow> g ctx key | None \<Rightarrow> st_Get store key)"

definition MaxRootManifestBytes :: int where "MaxRootManifestBytes = 256 * 2 ^ 20"
definition MaxRunlogBytes :: int where "MaxRunlogBytes = 256 * 2 ^ 20"
definition MaxSignatureBytes :: int where "MaxSignatureBytes = 64 * 2 ^ 10"

definition GetLimited :: "ObjectStore \<Rightarrow> string \<Rightarrow> int \<Rightarrow> goerr + bytes" where
  "GetLimited store key limit =
     (case st_GetLimit store of
        Some g \<Rightarrow> g key limit
      | None \<Rightarrow>
          rbind (st_Get store key) (\<lambda>b.
            if int (length b) > limit
            then Inl (Errorf ''read object %s: %d bytes exceeds the %d-byte limit''
                        [AStr key, AInt (int (length b)), AInt limit])
            else Inr b))"

definition runKey :: "string \<Rightarrow> string \<Rightarrow> string" where
  "runKey runID name = ''run/'' @ runID @ ''/'' @ name"

section \<open>The root manifest and its signature\<close>

definition MarshalRoot :: "RootManifest \<Rightarrow> goerr + bytes" where
  "MarshalRoot m = CanonicalJSON (goval_RootManifest m)"

definition SignRoot :: "pk_lib \<Rightarrow> bytes \<Rightarrow> RootManifest \<Rightarrow> HybridSigner \<Rightarrow> goerr + bytes \<times> bytes" where
  "SignRoot L rnd m signer =
     rbind (map_err (\<lambda>err. Errorf ''canonicalise root manifest: %w'' [AWrap err]) (CanonicalJSON (goval_RootManifest m)))
       (\<lambda>canonical.
     rbind (map_err (\<lambda>err. Errorf ''sign root manifest: %w'' [AWrap (CryptoErr err)]) (Sign L rnd signer canonical))
       (\<lambda>signature. Inr (canonical, signature)))"

definition VerifyRootBytes :: "pk_lib \<Rightarrow> bytes \<Rightarrow> bytes \<Rightarrow> HybridVerifier \<Rightarrow> goerr + unit" where
  "VerifyRootBytes L storedBytes signature verifier = map_err CryptoErr (Verify L verifier storedBytes signature)"

definition ParseRoot :: "bytes \<Rightarrow> goerr + RootManifest" where
  "ParseRoot storedBytes =
     rbind (validateCounts storedBytes [''declaredRecordCount'', ''shardCount'', ''freshness.runlogIndex'']) (\<lambda>_.
       of_opt (coded ExitUsage (Errorf ''parse root manifest: %w'' [AWrap (JsonErr ''root manifest'')]))
         (Unmarshal (dec_struct RootManifest_fields) zero_RootManifest (string_of storedBytes)))"

section \<open>The recovery bundle\<close>

definition BundlePrefix :: string where
  "BundlePrefix = ''_RECOVERY/'' @ Version @ ''/''"

text \<open>
  A write is answered with an error or not, and the answer may depend on the writes before it. The
  result carries the writes that were made, in order.
\<close>

type_synonym put_fun = "(string \<times> bytes) list \<Rightarrow> string \<Rightarrow> bytes \<Rightarrow> goerr option"

definition put_one :: "put_fun \<Rightarrow> string \<Rightarrow> goarg list \<Rightarrow> (string \<times> bytes) list \<Rightarrow> string \<Rightarrow> bytes
    \<Rightarrow> (string \<times> bytes) list \<times> goerr option" where
  "put_one put what args done key data =
     (case put done key data of
        Some err \<Rightarrow> (done, Some (Errorf what (args @ [AWrap err])))
      | None \<Rightarrow> (done @ [(key, data)], None))"

fun put_files :: "put_fun \<Rightarrow> (string \<times> bytes) list \<Rightarrow> string list \<Rightarrow> (string \<times> bytes) list \<Rightarrow> bytes
    \<Rightarrow> (string \<times> bytes) list \<times> (goerr + bytes)" where
  "put_files put files [] done sumb = (done, Inr sumb)"
| "put_files put files (n # ns) done sumb =
     (let data = the (map_of files n)
      in case put_one put ''write bundle file %s: %w'' [AStr n] done (BundlePrefix @ n) data of
           (done', Some err) \<Rightarrow> (done', Inl err)
         | (done', None) \<Rightarrow>
             put_files put files ns done' (sumb @ bytes_of (SHA384Hex data @ ''  '' @ n @ [CHR 0x0A])))"

text \<open>A map of file names to contents is an association list with distinct names.\<close>

definition WriteBundle :: "pk_lib \<Rightarrow> bytes \<Rightarrow> put_fun \<Rightarrow> (string \<times> bytes) list \<Rightarrow> HybridSigner
    \<Rightarrow> (string \<times> bytes) list \<times> goerr option" where
  "WriteBundle L rnd put files signer =
     (case put_files put files (sort (map fst files)) [] [] of
        (d1, Inl err) \<Rightarrow> (d1, Some err)
      | (d1, Inr sumb) \<Rightarrow>
     (case put_one put ''write SHA384SUMS: %w'' [] d1 (BundlePrefix @ ''SHA384SUMS'') sumb of
        (d2, Some err) \<Rightarrow> (d2, Some err)
      | (d2, None) \<Rightarrow>
     (case Sign L rnd signer sumb of
        Inl err \<Rightarrow> (d2, Some (Errorf ''sign SHA384SUMS: %w'' [AWrap (CryptoErr err)]))
      | Inr sig \<Rightarrow>
          put_one put ''write SHA384SUMS.sig: %w'' [] d2 (BundlePrefix @ ''SHA384SUMS.sig'') (bytes_of (B64Encode sig)))))"

definition cut_spaces :: "string \<Rightarrow> (string \<times> string) option" where
  "cut_spaces line = map_option (\<lambda>i. (take i line, drop (i + 2) line)) (str_index ''  '' line)"

definition verify_bundle_line :: "(string \<Rightarrow> goerr + bytes) \<Rightarrow> string \<Rightarrow> goerr + unit" where
  "verify_bundle_line get raw =
     (let line = trim_right_set [CHR 0x0D] raw
      in if line = '''' then Inr ()
         else (case cut_spaces line of
           None \<Rightarrow> Inl (Errorf ''malformed SHA384SUMS line: %q'' [AStr line])
         | Some (hash, name) \<Rightarrow>
             if name = '''' \<or> contains_any [CHR ''/'', CHR 0x5C] name \<or> str_index ''..'' name \<noteq> None
             then Inl (Errorf ''bundle file name not a flat relative name: %q'' [AStr name])
             else rbind (map_err (\<lambda>err. Errorf ''read bundle file %s: %w'' [AStr name, AWrap err]) (get (BundlePrefix @ name)))
               (\<lambda>data. if \<not> ConstantTimeEqual (bytes_of (SHA384Hex data)) (bytes_of hash)
                       then Inl (Errorf ''bundle file %s does not match its signed SHA-384'' [AStr name])
                       else Inr ())))"

definition VerifyBundle :: "pk_lib \<Rightarrow> (string \<Rightarrow> goerr + bytes) \<Rightarrow> HybridVerifier \<Rightarrow> goerr + unit" where
  "VerifyBundle L get verifier =
     rbind (map_err (\<lambda>err. Errorf ''read SHA384SUMS: %w'' [AWrap err]) (get (BundlePrefix @ ''SHA384SUMS''))) (\<lambda>sumb.
     rbind (map_err (\<lambda>err. Errorf ''read SHA384SUMS.sig: %w'' [AWrap err]) (get (BundlePrefix @ ''SHA384SUMS.sig''))) (\<lambda>sigText.
     rbind (map_err (\<lambda>err. Errorf ''decode SHA384SUMS.sig: %w'' [AWrap err]) (B64Decode (TrimSpace (string_of sigText)))) (\<lambda>sig.
     rbind (map_err (\<lambda>err. Errorf ''verify SHA384SUMS signature: %w'' [AWrap (CryptoErr err)]) (Verify L verifier sumb sig)) (\<lambda>_.
       loopr (\<lambda>_ line. verify_bundle_line get line) () (split_on (CHR 0x0A) (string_of sumb))))))"

section \<open>The bundled signer and its pin\<close>

definition BundleSignerName :: string where "BundleSignerName = ''signer.pub''"
definition SignerFingerprintPrefix :: string where "SignerFingerprintPrefix = ''edmldsa1:''"
definition SignerPublicLabel :: string where "SignerPublicLabel = ''downpipe-signer-public-v1''"
definition MaxBundledSignerBytes :: nat where "MaxBundledSignerBytes = 16 * 2 ^ 10"

definition SignerKeyFile :: "HybridVerifier \<Rightarrow> bytes" where
  "SignerKeyFile v = bytes_of (SignerPublicLabel @ '' '' @ b64_encode (MarshalVerifier v) @ [CHR 0x0A])"

text \<open>
  No rune outside ASCII has a lower case among the letters of the scheme tag or the hexadecimal digits,
  so the lower case of ASCII decides both comparisons.
\<close>

definition ParseSignerFingerprint :: "string \<Rightarrow> goerr + string" where
  "ParseSignerFingerprint s =
     (let v = TrimSpace s
      in if \<not> prefix SignerFingerprintPrefix (map ascii_lower v) then
           Inl (usagef ''--signer-fingerprint %q is not a signer fingerprint: it must start with %s, as the signer line on your recovery sheet does''
                  [AStr s, AStr SignerFingerprintPrefix])
         else (let digest = map ascii_lower (drop (length SignerFingerprintPrefix) v)
               in case hex_decode digest of
                    Some raw \<Rightarrow>
                      if length raw \<noteq> 48 then
                        Inl (usagef ''--signer-fingerprint %q is not a complete signer fingerprint: after %s it must be 96 hexadecimal characters. Copy the whole signer line from your recovery sheet''
                               [AStr s, AStr SignerFingerprintPrefix])
                      else Inr (SignerFingerprintPrefix @ digest)
                  | None \<Rightarrow>
                      Inl (usagef ''--signer-fingerprint %q is not a complete signer fingerprint: after %s it must be 96 hexadecimal characters. Copy the whole signer line from your recovery sheet''
                             [AStr s, AStr SignerFingerprintPrefix])))"

definition SameSignerFingerprint :: "string \<Rightarrow> string \<Rightarrow> bool" where
  "SameSignerFingerprint a b = ConstantTimeEqual (bytes_of a) (bytes_of b)"

definition bundledSignerRefused :: "string \<Rightarrow> goerr \<Rightarrow> goerr" where
  "bundledSignerRefused key why = ExitError ExitUnverified
     (Errorf ''refusing the signer public key in %s: %s. Either the bucket copy was altered, or the signer was rotated after your sheet was printed. The bucket keeps only the current signer's copy. Nothing was read with it. Pass --signer with the signer.pub file that matches your sheet. A later sheet's fingerprint helps only for runs sealed after that rotation''
        [AStr key, AVal why])"

definition bundledSignerAbsent :: "goerr \<Rightarrow> bool" where
  "bundledSignerAbsent err \<longleftrightarrow> is_not_exist err \<or> as_absent err = Some True"

text \<open>\<open>strings.Fields\<close>: the runs of bytes between white space.\<close>

function string_fields :: "string \<Rightarrow> string \<Rightarrow> string list" where
  "string_fields cur s =
     (case strip_one white_space s of
        Some t \<Rightarrow> (if cur = [] then string_fields [] t else cur # string_fields [] t)
      | None \<Rightarrow> (case s of [] \<Rightarrow> (if cur = [] then [] else [cur]) | c # r \<Rightarrow> string_fields (cur @ [c]) r))"
  by pat_completeness auto
termination
  by (relation "measure (\<lambda>(cur, s). length s)") (auto dest: strip_one_shorter)

declare string_fields.simps [simp del]

definition BundledSigner :: "pk_lib \<Rightarrow> ObjectStore \<Rightarrow> string \<Rightarrow> goerr + HybridVerifier" where
  "BundledSigner L store pin =
     (let key = BundlePrefix @ BundleSignerName
      in case st_Get store key of
           Inl err \<Rightarrow>
             if bundledSignerAbsent err then
               Inl (usagef ''the destination has no %s, so --signer-fingerprint has nothing to check. An engine writes this copy from engine 0.3.7, so a bucket that no such engine has written to has none. Pass --signer with signer.pub from your recovery kit'' [AStr key])
             else (let read = Errorf ''read the bundled signer public key %s: %w'' [AStr key, AWrap err]
                   in if as_unreachable err = Some True then Inl (ExitError ExitUnreachable read) else Inl read)
         | Inr raw \<Rightarrow>
             if length raw > MaxBundledSignerBytes then
               Inl (bundledSignerRefused key (Errorf ''it is %d bytes, larger than any signer public-key file'' [AInt (int (length raw))]))
             else (case string_fields [] (string_of raw) of
               [label, text] \<Rightarrow>
                 if label \<noteq> SignerPublicLabel then
                   Inl (bundledSignerRefused key (Errorf ''it is not a %s file'' [AStr SignerPublicLabel]))
                 else (case b64_decode text of
                   None \<Rightarrow> Inl (bundledSignerRefused key (Errorf ''it is not a %s file'' [AStr SignerPublicLabel]))
                 | Some payload \<Rightarrow>
                     (case ParseVerifier L payload of
                        Inl err \<Rightarrow> Inl (bundledSignerRefused key (Errorf ''it does not parse as a signer public key (%v)'' [AVal (CryptoErr err)]))
                      | Inr verifier \<Rightarrow>
                          (let got = SignerFingerprint verifier
                           in if \<not> SameSignerFingerprint got pin then
                                Inl (bundledSignerRefused key (Errorf ''its fingerprint is %s, and your recovery sheet pins %s'' [AStr got, AStr pin]))
                              else Inr verifier)))
             | _ \<Rightarrow> Inl (bundledSignerRefused key (Errorf ''it is not a %s file'' [AStr SignerPublicLabel]))))"

section \<open>Pruned runs\<close>

definition PrunedRunEntry :: "ObjectStore \<Rightarrow> string \<Rightarrow> RunlogEntry option" where
  "PrunedRunEntry store runID =
     (case st_List store of
        None \<Rightarrow> None
      | Some lister \<Rightarrow>
          (case lister (''run/'' @ runID @ ''/'') of
             Inr [] \<Rightarrow>
               (case GetLimited store ''_RECOVERY/RUNLOG'' MaxRunlogBytes of
                  Inl _ \<Rightarrow> None
                | Inr runlogBytes \<Rightarrow>
                    (case ParseRunlog runlogBytes of
                       Inl _ \<Rightarrow> None
                     | Inr entries \<Rightarrow> find (\<lambda>e. re_RunID e = runID) entries))
           | _ \<Rightarrow> None))"

definition prunedTreeDiagnosis :: "ObjectStore \<Rightarrow> string \<Rightarrow> goerr option" where
  "prunedTreeDiagnosis store runID =
     map_option (\<lambda>listed.
       let status = (if re_Status listed = '''' then ''active'' else re_Status listed)
       in coded ExitUnverified
            (Errorf ''run %s is listed in the RUNLOG (index %d, status %q) but its tree is entirely absent, so it cannot be opened. This is the expected state after `downpipe prune --apply` removed the run, and it is also what deleting the run would look like.''
               [AStr runID, AInt (re_Index listed), AStr status]))
       (PrunedRunEntry store runID)"

definition openRootManifest :: "ObjectStore \<Rightarrow> string \<Rightarrow> goerr + bytes" where
  "openRootManifest store runID =
     (case GetLimited store (runKey runID ''root.manifest.json'') MaxRootManifestBytes of
        Inr rootBytes \<Rightarrow> Inr rootBytes
      | Inl err \<Rightarrow>
          (case prunedTreeDiagnosis store runID of
             Some diag \<Rightarrow> Inl diag
           | None \<Rightarrow> Inl (codedGet ExitUnverified (Errorf ''read root manifest: %w'' [AWrap err]))))"

end
