(* ===== verification/RootCodec.thy ===== *)
theory RootCodec
  imports Store
begin

text \<open>
  The signed root manifest as text: what \<open>MarshalRoot\<close> writes, \<open>ParseRoot\<close> reads back as the same manifest, and it
  writes every manifest of well-formed text whose counts are in the canonical range.
\<close>

section \<open>The JSON of the parts\<close>

definition envelope_json :: "Envelope \<Rightarrow> jval" where
  "envelope_json e = JObject [(''aead'', JString (en_AEAD e)), (''chunkSize'', JNumber (dec_of_int (en_ChunkSize e))),
     (''codec'', JString (en_Codec e)), (''kdf'', JString (en_KDF e)), (''kem'', JString (en_KEM e)),
     (''sig'', JString (en_Signature e))]"

definition recipient_json :: "Recipient \<Rightarrow> jval" where
  "recipient_json r = JObject [(''fingerprint'', JString (rp_Fingerprint r)), (''mlkem'', JString (rp_MLKEM r)),
     (''role'', JString (rp_Role r)), (''x25519'', JString (rp_X25519 r))]"

definition wrap_json :: "CapsuleWrap \<Rightarrow> jval" where
  "wrap_json w = JObject [(''fingerprint'', JString (cw_Fingerprint w)), (''kemCiphertext'', JString (cw_KEMCiphertext w)),
     (''sealed'', JString (cw_Sealed w))]"

definition shardref_json :: "ShardRef \<Rightarrow> jval" where
  "shardref_json s = JObject [(''id'', JString (sh_ID s)), (''object'', JString (sh_Object s)), (''sha384'', JString (sh_SHA384 s))]"

definition freshness_json :: "Freshness \<Rightarrow> jval" where
  "freshness_json f = JObject [(''prevRunId'', case fr_PrevRunID f of None \<Rightarrow> JNull | Some p \<Rightarrow> JString p),
     (''runlogIndex'', JNumber (dec_of_int (fr_RunlogIndex f)))]"

definition root_json :: "RootManifest \<Rightarrow> jval" where
  "root_json m = JObject [(''breakGlassPresent'', JBool (rm_BreakGlassPresent m)), (''createdAt'', JString (rm_CreatedAt m)),
     (''declaredRecordCount'', JNumber (dec_of_int (rm_DeclaredRecordCount m))), (''downpipeId'', JString (rm_DownpipeID m)),
     (''envelope'', envelope_json (rm_Envelope m)), (''formatVersion'', JString (rm_FormatVersion m)),
     (''freshness'', freshness_json (rm_Freshness m)), (''keyCommitment'', JString (rm_KeyCommitment m)),
     (''masterCapsule'', JArray (map wrap_json (rm_MasterCapsule m))), (''merkleRoot'', JString (rm_MerkleRoot m)),
     (''recipientSetHash'', JString (rm_RecipientSetHash m)), (''recipients'', JArray (map recipient_json (rm_Recipients m))),
     (''runId'', JString (rm_RunID m)), (''shardCount'', JNumber (dec_of_int (rm_ShardCount m))),
     (''shards'', JArray (map shardref_json (rm_Shards m))), (''signingKeyFingerprint'', JString (rm_SigningKeyFingerprint m))]"

definition root_text :: "RootManifest \<Rightarrow> bool" where
  "root_text m \<longleftrightarrow> list_all ValidString [rm_FormatVersion m, rm_RunID m, rm_CreatedAt m, rm_DownpipeID m, rm_RecipientSetHash m,
       rm_KeyCommitment m, rm_MerkleRoot m, rm_SigningKeyFingerprint m]
   \<and> list_all ValidString [en_AEAD (rm_Envelope m), en_KEM (rm_Envelope m), en_Signature (rm_Envelope m), en_KDF (rm_Envelope m),
       en_Codec (rm_Envelope m)]
   \<and> list_all (\<lambda>r. list_all ValidString [rp_Fingerprint r, rp_Role r, rp_X25519 r, rp_MLKEM r]) (rm_Recipients m)
   \<and> list_all (\<lambda>w. list_all ValidString [cw_Fingerprint w, cw_KEMCiphertext w, cw_Sealed w]) (rm_MasterCapsule m)
   \<and> list_all (\<lambda>s. list_all ValidString [sh_ID s, sh_Object s, sh_SHA384 s]) (rm_Shards m)
   \<and> (case fr_PrevRunID (rm_Freshness m) of None \<Rightarrow> True | Some p \<Rightarrow> ValidString p)"

definition canonical_count :: "int \<Rightarrow> bool" where
  "canonical_count i \<longleftrightarrow> 0 \<le> i \<and> i \<le> maxCanonicalInt"

definition root_counts :: "RootManifest \<Rightarrow> bool" where
  "root_counts m \<longleftrightarrow> list_all canonical_count
     [rm_ShardCount m, rm_DeclaredRecordCount m, fr_RunlogIndex (rm_Freshness m), en_ChunkSize (rm_Envelope m)]"

section \<open>Keys\<close>

lemma root_key_units:
  "utf16_key ''breakGlassPresent'' = map code ''breakGlassPresent''"
  "utf16_key ''createdAt'' = map code ''createdAt''"
  "utf16_key ''declaredRecordCount'' = map code ''declaredRecordCount''"
  "utf16_key ''downpipeId'' = map code ''downpipeId''" "utf16_key ''envelope'' = map code ''envelope''"
  "utf16_key ''formatVersion'' = map code ''formatVersion''" "utf16_key ''freshness'' = map code ''freshness''"
  "utf16_key ''keyCommitment'' = map code ''keyCommitment''"
  "utf16_key ''masterCapsule'' = map code ''masterCapsule''" "utf16_key ''merkleRoot'' = map code ''merkleRoot''"
  "utf16_key ''recipientSetHash'' = map code ''recipientSetHash''"
  "utf16_key ''recipients'' = map code ''recipients''" "utf16_key ''runId'' = map code ''runId''"
  "utf16_key ''shardCount'' = map code ''shardCount''" "utf16_key ''shards'' = map code ''shards''"
  "utf16_key ''signingKeyFingerprint'' = map code ''signingKeyFingerprint''" "utf16_key ''aead'' = map code ''aead''"
  "utf16_key ''chunkSize'' = map code ''chunkSize''" "utf16_key ''codec'' = map code ''codec''"
  "utf16_key ''kdf'' = map code ''kdf''" "utf16_key ''kem'' = map code ''kem''" "utf16_key ''sig'' = map code ''sig''"
  "utf16_key ''fingerprint'' = map code ''fingerprint''" "utf16_key ''mlkem'' = map code ''mlkem''"
  "utf16_key ''role'' = map code ''role''" "utf16_key ''x25519'' = map code ''x25519''"
  "utf16_key ''kemCiphertext'' = map code ''kemCiphertext''" "utf16_key ''sealed'' = map code ''sealed''"
  "utf16_key ''id'' = map code ''id''" "utf16_key ''object'' = map code ''object''"
  "utf16_key ''sha384'' = map code ''sha384''" "utf16_key ''prevRunId'' = map code ''prevRunId''"
  "utf16_key ''runlogIndex'' = map code ''runlogIndex''"
  by (rule utf16_key_ascii, simp add: code_def)+

lemma root_key_runes:
  "runes ''breakGlassPresent'' = map code ''breakGlassPresent''" "runes ''createdAt'' = map code ''createdAt''"
  "runes ''declaredRecordCount'' = map code ''declaredRecordCount''" "runes ''downpipeId'' = map code ''downpipeId''"
  "runes ''envelope'' = map code ''envelope''" "runes ''formatVersion'' = map code ''formatVersion''"
  "runes ''freshness'' = map code ''freshness''" "runes ''keyCommitment'' = map code ''keyCommitment''"
  "runes ''masterCapsule'' = map code ''masterCapsule''" "runes ''merkleRoot'' = map code ''merkleRoot''"
  "runes ''recipientSetHash'' = map code ''recipientSetHash''" "runes ''recipients'' = map code ''recipients''"
  "runes ''runId'' = map code ''runId''" "runes ''shardCount'' = map code ''shardCount''"
  "runes ''shards'' = map code ''shards''" "runes ''signingKeyFingerprint'' = map code ''signingKeyFingerprint''"
  "runes ''aead'' = map code ''aead''" "runes ''chunkSize'' = map code ''chunkSize''"
  "runes ''codec'' = map code ''codec''" "runes ''kdf'' = map code ''kdf''" "runes ''kem'' = map code ''kem''"
  "runes ''sig'' = map code ''sig''" "runes ''fingerprint'' = map code ''fingerprint''"
  "runes ''mlkem'' = map code ''mlkem''" "runes ''role'' = map code ''role''" "runes ''x25519'' = map code ''x25519''"
  "runes ''kemCiphertext'' = map code ''kemCiphertext''" "runes ''sealed'' = map code ''sealed''"
  "runes ''id'' = map code ''id''" "runes ''object'' = map code ''object''" "runes ''sha384'' = map code ''sha384''"
  "runes ''prevRunId'' = map code ''prevRunId''" "runes ''runlogIndex'' = map code ''runlogIndex''"
  by (simp_all add: runes_ascii code_def)

section \<open>What is written can be read\<close>

text \<open>A Go value and the value of its canonical text.\<close>

definition writes :: "goval \<Rightarrow> jval \<Rightarrow> bool" where
  "writes g v \<longleftrightarrow> rejectFloatKinds g = Inr () \<and> (\<exists>j. marshal g = Inr j \<and> sorted_json (decode_any j) = v)"

fun writable :: "jval \<Rightarrow> bool" where
  "writable (JNumber n) \<longleftrightarrow> checkCanonJSONInt n = Inr ()"
| "writable (JString s) \<longleftrightarrow> ValidString s"
| "writable (JArray vs) \<longleftrightarrow> list_all writable vs"
| "writable (JObject kvs) \<longleftrightarrow> list_all (\<lambda>kv. writable (snd kv)) kvs"
| "writable v \<longleftrightarrow> True"

lemma mapr_total: "(\<And>x. x \<in> set xs \<Longrightarrow> \<exists>y. f x = Inr y) \<Longrightarrow> \<exists>ys. mapr f xs = Inr ys"
proof (induction xs)
  case (Cons x xs)
  obtain y where "f x = Inr y" using Cons.prems [of x] by auto
  moreover obtain ys where "mapr f xs = Inr ys" using Cons by auto
  ultimately show ?case by simp
qed simp

lemma canonValue_total: "writable v \<Longrightarrow> \<exists>s. canonValue v = Inr s"
proof (induction v rule: canonValue.induct)
  case (5 vs)
  then have "\<exists>els. mapr canonValue vs = Inr els" by (intro mapr_total) (auto simp: list_all_iff)
  then show ?case by auto
next
  case (6 kvs)
  have "\<exists>ms. mapr (\<lambda>kv. rbind (canonValue (snd kv)) (\<lambda>t. Inr (fst kv, t))) (sort_key (\<lambda>kv. utf16_key (fst kv)) kvs) = Inr ms"
  proof (rule mapr_total)
    fix kv assume "kv \<in> set (sort_key (\<lambda>kv. utf16_key (fst kv)) kvs)"
    then have "kv \<in> set kvs" by simp
    moreover have "writable (snd kv)" using \<open>kv \<in> set kvs\<close> 6(2) by (simp add: list_all_iff)
    ultimately obtain t where "canonValue (snd kv) = Inr t" using 6(1) [of kv] by auto
    then show "\<exists>y. rbind (canonValue (snd kv)) (\<lambda>t. Inr (fst kv, t)) = Inr y" by simp
  qed
  then show ?case by auto
qed auto

lemma canonical_reads:
  assumes "writes g v" "raws_ok g" "writable v" "depth v \<le> maxNestingDepth"
  shows "\<exists>b. CanonicalJSON g = Inr b \<and> parse_all (string_of b) = Some v \<and> decode_any v = v"
proof -
  obtain j where j: "marshal g = Inr j" "sorted_json (decode_any j) = v" "rejectFloatKinds g = Inr ()"
    using assms(1) by (auto simp: writes_def)
  obtain s where s: "canonValue v = Inr s" using canonValue_total [OF assms(3)] by blast
  then have s': "canonValue (decode_any j) = Inr s" using j(2) canonValue_sorted [of "decode_any j"] by simp
  have w: "wf_json (decode_any j)" "distinct_keys (decode_any j)" using decode_any_wf [OF marshal_wf [OF j(1,3) assms(2)]] by auto
  have "depth (decode_any j) \<le> maxNestingDepth" using assms(4) j(2) depth_sorted_json [of "decode_any j"] by simp
  from canonValue_roundtrip [OF s' w this] show ?thesis
    using j s' by (intro exI [of _ "bytes_of s"]) (simp add: CanonicalJSON_def)
qed

lemma writes_leaf:
  "ValidString s \<Longrightarrow> writes (GString s) (JString s)" "writes (GInt i) (JNumber (dec_of_int i))" "writes (GBool b) (JBool b)"
  "(case p of None \<Rightarrow> True | Some s \<Rightarrow> ValidString s)
    \<Longrightarrow> writes (go_ptr GString p) (case p of None \<Rightarrow> JNull | Some s \<Rightarrow> JString s)"
  by (auto simp: writes_def to_valid_id go_ptr_def split: option.splits)

lemma writes_list:
  assumes "\<And>x. x \<in> set xs \<Longrightarrow> writes (f x) (h x)"
  shows "writes (GList (map f xs)) (JArray (map h xs))"
proof -
  have "mapr rejectFloatKinds (map f xs) = Inr (map (\<lambda>_. ()) xs)
      \<and> (\<exists>js. mapr marshal (map f xs) = Inr js \<and> map (\<lambda>j. sorted_json (decode_any j)) js = map h xs)"
    using assms
  proof (induction xs)
    case (Cons x xs)
    obtain j where "marshal (f x) = Inr j" "sorted_json (decode_any j) = h x" "rejectFloatKinds (f x) = Inr ()"
      using Cons.prems [of x] by (auto simp: writes_def)
    moreover obtain js where "mapr marshal (map f xs) = Inr js" "map (\<lambda>j. sorted_json (decode_any j)) js = map h xs"
      "mapr rejectFloatKinds (map f xs) = Inr (map (\<lambda>_. ()) xs)"
      using Cons by auto
    ultimately show ?case by auto
  qed simp
  then show ?thesis by (auto simp: writes_def comp_def)
qed

lemma insort_key_map: "(\<And>x. k (f x) = k x) \<Longrightarrow> insort_key k (f x) (map f xs) = map f (insort_key k x xs)"
  by (induction xs) simp_all

lemma sort_key_map: "(\<And>x. k (f x) = k x) \<Longrightarrow> sort_key k (map f xs) = map f (sort_key k xs)"
  by (induction xs) (simp_all add: insort_key_map)

lemma writes_struct:
  assumes "list_all2 (\<lambda>f kv. fst f = fst kv \<and> fst (snd f) \<and> \<not> fst (snd (snd f)) \<and> writes (snd (snd (snd f))) (snd kv)) fs kvs"
    and "distinct (map fst kvs)"
  shows "writes (GStruct fs) (JObject (sort_key (\<lambda>kv. utf16_key (fst kv)) kvs))"
proof -
  let ?m = "\<lambda>f. if \<not> fst (snd f) \<or> fst (snd (snd f)) \<and> is_empty_value (snd (snd (snd f))) then Inr []
                     else rbind (marshal (snd (snd (snd f)))) (\<lambda>j. Inr [(fst f, j)])"
  let ?s = "\<lambda>kv. (fst kv, sorted_json (decode_any (snd kv)))"
  have "mapr (\<lambda>f. if \<not> fst (snd f) then Inr () else rejectFloatKinds (snd (snd (snd f)))) fs = Inr (map (\<lambda>_. ()) fs)
      \<and> (\<exists>js. mapr ?m fs = Inr (map (\<lambda>kj. [kj]) js) \<and> map ?s js = kvs)"
    using assms(1)
  proof (induction rule: list_all2_induct)
    case (Cons f fs kv kvs)
    then obtain j js where "marshal (snd (snd (snd f))) = Inr j" "sorted_json (decode_any j) = snd kv"
      "rejectFloatKinds (snd (snd (snd f))) = Inr ()"
      "mapr ?m fs = Inr (map (\<lambda>kj. [kj]) js)" "map ?s js = kvs" by (auto simp: writes_def)
    then show ?case using Cons by (auto intro!: exI [of _ "(fst f, j) # js"])
  qed simp
  then obtain js where js: "mapr ?m fs = Inr (map (\<lambda>kj. [kj]) js)" "map ?s js = kvs"
    and r: "mapr (\<lambda>f. if \<not> fst (snd f) then Inr () else rejectFloatKinds (snd (snd (snd f)))) fs = Inr (map (\<lambda>_. ()) fs)" by blast
  let ?d = "map (\<lambda>kv. (fst kv, decode_any (snd kv))) js"
  have "map fst ?d = map fst kvs" unfolding js(2) [symmetric] by (simp add: comp_def)
  then have d: "decode_any (JObject js) = JObject ?d" using last_wins_distinct [of ?d] assms(2) by simp
  have e: "map (\<lambda>kv. (fst kv, sorted_json (snd kv))) ?d = kvs" unfolding js(2) [symmetric] by simp
  have "sorted_json (JObject ?d) = JObject (sort_key (\<lambda>kv. utf16_key (fst kv)) kvs)"
    unfolding e [symmetric] by (simp only: sorted_json.simps jval.inject, rule sort_key_map [symmetric]) simp
  moreover have "marshal (GStruct fs) = Inr (JObject js)" using js(1) by (simp add: concat_map_singleton)
  moreover have "rejectFloatKinds (GStruct fs) = Inr ()" using r by simp
  ultimately show ?thesis unfolding writes_def using d by metis
qed

section \<open>How long a text is\<close>

fun json_size :: "jval \<Rightarrow> nat" where
  "json_size (JNumber n) = length n"
| "json_size (JString s) = 6 * length s + 2"
| "json_size (JArray vs) = sum_list (map (\<lambda>v. json_size v + 1) vs) + 2"
| "json_size (JObject kvs) = sum_list (map (\<lambda>kv. 6 * length (fst kv) + json_size (snd kv) + 4) kvs) + 2"
| "json_size _ = 5"

lemma length_write_rune: "length (write_rune r) \<le> 6"
  by (simp add: write_rune_def encode_rune_def Let_def)

lemma length_runes: "length (runes s) \<le> length s"
proof (induction s rule: runes.induct)
  case (1 s)
  show ?case
  proof (cases "s = []")
    case False
    then show ?thesis using 1 decode_rune_width [of s] by (subst runes.simps) auto
  qed simp
qed

lemma length_writeJSONString: "length (writeJSONString s) \<le> 6 * length s + 2"
proof -
  have "length (concat (map write_rune rs)) \<le> 6 * length rs" for rs
    by (induction rs) (use length_write_rune in \<open>auto simp: add_le_mono\<close>)
  then have "length (concat (map write_rune (runes s))) \<le> 6 * length (runes s)" .
  also have "\<dots> \<le> 6 * length s" using length_runes [of s] by simp
  finally show ?thesis by (simp add: writeJSONString_def)
qed

lemma length_join: "length (join '','' xs) \<le> sum_list (map (\<lambda>x. length x + 1) xs)"
  by (induction "'','' :: string" xs rule: join.induct) auto

lemma mapr_size:
  assumes "mapr f xs = Inr ys" "\<And>x y. x \<in> set xs \<Longrightarrow> f x = Inr y \<Longrightarrow> size_of y \<le> (bound x :: nat)"
  shows "sum_list (map size_of ys) \<le> sum_list (map bound xs)"
  using assms
proof (induction xs arbitrary: ys)
  case (Cons x xs)
  then obtain y ys' where y: "f x = Inr y" "mapr f xs = Inr ys'" "ys = y # ys'" by auto
  then have "size_of y \<le> bound x" "sum_list (map size_of ys') \<le> sum_list (map bound xs)" using Cons by auto
  then show ?case using y by simp
qed simp

lemma canonValue_size: "canonValue v = Inr s \<Longrightarrow> length s \<le> json_size v"
proof (induction v arbitrary: s rule: canonValue.induct)
  case (4 s)
  then show ?case using length_writeJSONString by (auto split: if_splits)
next
  case (5 vs)
  then obtain els where e: "mapr canonValue vs = Inr els" "s = canonArray els" by auto
  have "sum_list (map (\<lambda>x. length x + 1) els) \<le> sum_list (map (\<lambda>v. json_size v + 1) vs)"
    using e(1) by (rule mapr_size) (use 5(1) in simp)
  then show ?case using length_join [of els] e(2) by (simp add: canonArray_def)
next
  case (6 kvs)
  let ?s = "sort_key (\<lambda>kv. utf16_key (fst kv)) kvs" and ?b = "\<lambda>kv. 6 * length (fst kv) + json_size (snd kv) + 4"
  obtain ms where m: "mapr (\<lambda>kv. rbind (canonValue (snd kv)) (\<lambda>t. Inr (fst kv, t))) ?s = Inr ms" "s = canonObject ms" using 6(2) by auto
  let ?w = "\<lambda>m. writeJSONString (fst m) @ '':'' @ snd m"
  have "sum_list (map (\<lambda>m. length (?w m) + 1) ms) \<le> sum_list (map ?b ?s)"
    using m(1)
  proof (rule mapr_size)
    fix kv y assume kv: "kv \<in> set ?s" "rbind (canonValue (snd kv)) (\<lambda>t. Inr (fst kv, t)) = Inr y"
    then obtain t where t: "canonValue (snd kv) = Inr t" "y = (fst kv, t)" by auto
    have "length t \<le> json_size (snd kv)" using 6(1) [of kv t] kv(1) t(1) by simp
    then show "length (?w y) + 1 \<le> ?b kv" using t(2) length_writeJSONString [of "fst kv"] by simp
  qed
  also have "sum_list (map ?b ?s) = sum_list (map ?b kvs)"
    unfolding sum_mset_sum_list [symmetric] by simp
  finally show ?case using length_join [of "map ?w ms"] m(2) by (simp add: canonObject_def comp_def)
qed auto

lemma canonical_size:
  assumes "writes g v" "CanonicalJSON g = Inr b"
  shows "length b \<le> json_size v"
proof -
  obtain j s where j: "marshal g = Inr j" "canonValue (decode_any j) = Inr s" "b = bytes_of s"
    using assms(2) by (auto simp: CanonicalJSON_def)
  then have "canonValue v = Inr s" using assms(1) canonValue_sorted [of "decode_any j"] by (auto simp: writes_def)
  then show ?thesis using canonValue_size j(3) by simp
qed

section \<open>The parts are written and read\<close>

lemma writes_envelope:
  assumes "list_all ValidString [en_AEAD e, en_KEM e, en_Signature e, en_KDF e, en_Codec e]"
  shows "writes (goval_Envelope e) (envelope_json e)"
proof -
  let ?kvs = "[(''aead'', JString (en_AEAD e)), (''kem'', JString (en_KEM e)), (''sig'', JString (en_Signature e)),
     (''kdf'', JString (en_KDF e)), (''chunkSize'', JNumber (dec_of_int (en_ChunkSize e))), (''codec'', JString (en_Codec e))]"
  have "envelope_json e = JObject (sort_key (\<lambda>kv. utf16_key (fst kv)) ?kvs)"
    by (simp add: envelope_json_def root_key_units code_def)
  moreover have "writes (goval_Envelope e) (JObject (sort_key (\<lambda>kv. utf16_key (fst kv)) ?kvs))"
    unfolding goval_Envelope_def using assms by (intro writes_struct) (simp_all add: writes_leaf)
  ultimately show ?thesis by simp
qed

lemma writes_recipient:
  assumes "list_all ValidString [rp_Fingerprint r, rp_Role r, rp_X25519 r, rp_MLKEM r]"
  shows "writes (goval_Recipient r) (recipient_json r)"
proof -
  let ?kvs = "[(''fingerprint'', JString (rp_Fingerprint r)), (''role'', JString (rp_Role r)), (''x25519'', JString (rp_X25519 r)),
     (''mlkem'', JString (rp_MLKEM r))]"
  have "recipient_json r = JObject (sort_key (\<lambda>kv. utf16_key (fst kv)) ?kvs)"
    by (simp add: recipient_json_def root_key_units code_def)
  moreover have "writes (goval_Recipient r) (JObject (sort_key (\<lambda>kv. utf16_key (fst kv)) ?kvs))"
    unfolding goval_Recipient_def using assms by (intro writes_struct) (simp_all add: writes_leaf)
  ultimately show ?thesis by simp
qed

lemma writes_wrap:
  assumes "list_all ValidString [cw_Fingerprint w, cw_KEMCiphertext w, cw_Sealed w]"
  shows "writes (goval_CapsuleWrap w) (wrap_json w)"
proof -
  let ?kvs = "[(''fingerprint'', JString (cw_Fingerprint w)), (''kemCiphertext'', JString (cw_KEMCiphertext w)),
     (''sealed'', JString (cw_Sealed w))]"
  have "wrap_json w = JObject (sort_key (\<lambda>kv. utf16_key (fst kv)) ?kvs)"
    by (simp add: wrap_json_def root_key_units code_def)
  moreover have "writes (goval_CapsuleWrap w) (JObject (sort_key (\<lambda>kv. utf16_key (fst kv)) ?kvs))"
    unfolding goval_CapsuleWrap_def using assms by (intro writes_struct) (simp_all add: writes_leaf)
  ultimately show ?thesis by simp
qed

lemma writes_shardref:
  assumes "list_all ValidString [sh_ID s, sh_Object s, sh_SHA384 s]"
  shows "writes (goval_ShardRef s) (shardref_json s)"
proof -
  let ?kvs = "[(''id'', JString (sh_ID s)), (''object'', JString (sh_Object s)), (''sha384'', JString (sh_SHA384 s))]"
  have "shardref_json s = JObject (sort_key (\<lambda>kv. utf16_key (fst kv)) ?kvs)"
    by (simp add: shardref_json_def root_key_units code_def)
  moreover have "writes (goval_ShardRef s) (JObject (sort_key (\<lambda>kv. utf16_key (fst kv)) ?kvs))"
    unfolding goval_ShardRef_def using assms by (intro writes_struct) (simp_all add: writes_leaf)
  ultimately show ?thesis by simp
qed

lemma writes_freshness:
  assumes "case fr_PrevRunID f of None \<Rightarrow> True | Some p \<Rightarrow> ValidString p"
  shows "writes (goval_Freshness f) (freshness_json f)"
proof -
  let ?kvs = "[(''prevRunId'', case fr_PrevRunID f of None \<Rightarrow> JNull | Some p \<Rightarrow> JString p),
     (''runlogIndex'', JNumber (dec_of_int (fr_RunlogIndex f)))]"
  have "freshness_json f = JObject (sort_key (\<lambda>kv. utf16_key (fst kv)) ?kvs)"
    by (simp add: freshness_json_def root_key_units code_def)
  moreover have "writes (goval_Freshness f) (JObject (sort_key (\<lambda>kv. utf16_key (fst kv)) ?kvs))"
    unfolding goval_Freshness_def using assms by (intro writes_struct) (simp_all add: writes_leaf)
  ultimately show ?thesis by simp
qed

lemma writes_root:
  assumes "root_text m"
  shows "writes (goval_RootManifest m) (root_json m)"
proof -
  let ?kvs = "[(''formatVersion'', JString (rm_FormatVersion m)), (''runId'', JString (rm_RunID m)),
     (''createdAt'', JString (rm_CreatedAt m)), (''downpipeId'', JString (rm_DownpipeID m)),
     (''envelope'', envelope_json (rm_Envelope m)), (''recipients'', JArray (map recipient_json (rm_Recipients m))),
     (''masterCapsule'', JArray (map wrap_json (rm_MasterCapsule m))), (''recipientSetHash'', JString (rm_RecipientSetHash m)),
     (''keyCommitment'', JString (rm_KeyCommitment m)), (''breakGlassPresent'', JBool (rm_BreakGlassPresent m)),
     (''shards'', JArray (map shardref_json (rm_Shards m))), (''shardCount'', JNumber (dec_of_int (rm_ShardCount m))),
     (''declaredRecordCount'', JNumber (dec_of_int (rm_DeclaredRecordCount m))), (''merkleRoot'', JString (rm_MerkleRoot m)),
     (''freshness'', freshness_json (rm_Freshness m)), (''signingKeyFingerprint'', JString (rm_SigningKeyFingerprint m))]"
  have l: "writes (GList (map goval_Recipient (rm_Recipients m))) (JArray (map recipient_json (rm_Recipients m)))"
    "writes (GList (map goval_CapsuleWrap (rm_MasterCapsule m))) (JArray (map wrap_json (rm_MasterCapsule m)))"
    "writes (GList (map goval_ShardRef (rm_Shards m))) (JArray (map shardref_json (rm_Shards m)))"
    using assms by (auto intro!: writes_list writes_recipient writes_wrap writes_shardref simp: root_text_def list_all_iff)
  have p: "writes (goval_Envelope (rm_Envelope m)) (envelope_json (rm_Envelope m))"
    "writes (goval_Freshness (rm_Freshness m)) (freshness_json (rm_Freshness m))"
    using assms by (auto intro!: writes_envelope writes_freshness simp: root_text_def)
  have "root_json m = JObject (sort_key (\<lambda>kv. utf16_key (fst kv)) ?kvs)"
    by (simp add: root_json_def root_key_units code_def)
  moreover have "writes (goval_RootManifest m) (JObject (sort_key (\<lambda>kv. utf16_key (fst kv)) ?kvs))"
    unfolding goval_RootManifest_def using assms l p by (intro writes_struct) (simp_all add: writes_leaf root_text_def)
  ultimately show ?thesis by simp
qed

lemma depth_le: "list_all (\<lambda>v. depth v \<le> n) vs \<Longrightarrow> depth (JArray vs) \<le> Suc n"
  "list_all (\<lambda>kv. depth (snd kv) \<le> n) kvs \<Longrightarrow> depth (JObject kvs) \<le> Suc n"
  unfolding depth_max by (auto simp: list_all_iff intro!: Max.boundedI)

lemma root_json_depth: "depth (root_json m) \<le> Suc (Suc (Suc 0))"
proof -
  have "depth (wrap_json w) \<le> 1" "depth (recipient_json r) \<le> 1" "depth (shardref_json s) \<le> 1"
    "depth (envelope_json e) \<le> 1" "depth (freshness_json f) \<le> 1" for w r s e f
    by (simp_all add: wrap_json_def recipient_json_def shardref_json_def envelope_json_def freshness_json_def split: option.split)
  then have "depth (JArray (map wrap_json ws)) \<le> Suc 1" "depth (JArray (map recipient_json rs)) \<le> Suc 1"
    "depth (JArray (map shardref_json ss)) \<le> Suc 1" "depth (envelope_json e) \<le> Suc 1" "depth (freshness_json f) \<le> Suc 1" for ws rs ss e f
    by (auto intro!: depth_le simp del: depth.simps simp: list_all_iff intro: le_SucI)
  then show ?thesis unfolding root_json_def by (intro depth_le) (simp del: depth.simps add: depth.simps(3-))
qed

lemma writable_int: "canonical_count i \<Longrightarrow> checkCanonJSONInt (dec_of_int i) = Inr ()"
  by (simp add: canonical_count_def checkCanonJSONInt_ok)

lemma writable_root: "root_text m \<Longrightarrow> root_counts m \<Longrightarrow> writable (root_json m)"
  by (auto simp: root_json_def envelope_json_def freshness_json_def recipient_json_def wrap_json_def shardref_json_def
      root_text_def root_counts_def writable_int list_all_iff split: option.splits)

lemma raws_root: "raws_ok (goval_RootManifest m)"
  by (simp add: goval_RootManifest_def goval_Envelope_def goval_Freshness_def goval_Recipient_def goval_CapsuleWrap_def
      goval_ShardRef_def go_ptr_def list_all_iff code_def split: option.split)

section \<open>Reading back\<close>

lemma dec_elems_map: "(\<And>x. x \<in> set xs \<Longrightarrow> d (h x) zero = Some x) \<Longrightarrow> dec_list d zero (JArray (map h xs)) [] = Some xs"
proof -
  assume a: "\<And>x. x \<in> set xs \<Longrightarrow> d (h x) zero = Some x"
  then have "dec_elems d zero (map h xs) [] = Some xs" by (induction xs) auto
  then show ?thesis by (simp add: dec_list_def)
qed

lemmas dec_defs = dec_struct_def find_field_def fld_def dec_string_def dec_int_def dec_ptr_def dec_bool_def

lemma parse_count: "canonical_count i \<Longrightarrow> parse_int64 (dec_of_int i) = Some i"
  using canonical_int(2) [OF writable_int] .

lemma dec_parts:
  "dec_struct Recipient_fields (recipient_json r) zero_Recipient = Some r"
  "dec_struct CapsuleWrap_fields (wrap_json w) zero_CapsuleWrap = Some w"
  "dec_struct ShardRef_fields (shardref_json s) zero_ShardRef = Some s"
  "canonical_count (en_ChunkSize e) \<Longrightarrow> dec_struct Envelope_fields (envelope_json e) zero_Envelope = Some e"
  "canonical_count (fr_RunlogIndex f) \<Longrightarrow> dec_struct Freshness_fields (freshness_json f) zero_Freshness = Some f"
  by (cases r; cases w; cases s; cases e; cases f; simp add: recipient_json_def wrap_json_def shardref_json_def envelope_json_def
      freshness_json_def Recipient_fields_def CapsuleWrap_fields_def ShardRef_fields_def Envelope_fields_def Freshness_fields_def
      zero_Recipient_def zero_CapsuleWrap_def zero_ShardRef_def zero_Envelope_def zero_Freshness_def dec_defs parse_count
      split: option.split)+

lemma dec_root:
  assumes "root_counts m"
  shows "dec_struct RootManifest_fields (root_json m) zero_RootManifest = Some m"
proof -
  have l: "dec_list (dec_struct Recipient_fields) zero_Recipient (JArray (map recipient_json xs)) [] = Some xs"
    "dec_list (dec_struct CapsuleWrap_fields) zero_CapsuleWrap (JArray (map wrap_json ys)) [] = Some ys"
    "dec_list (dec_struct ShardRef_fields) zero_ShardRef (JArray (map shardref_json zs)) [] = Some zs" for xs ys zs
    by (rule dec_elems_map, rule dec_parts)+
  have p: "dec_struct Envelope_fields (envelope_json (rm_Envelope m)) zero_Envelope = Some (rm_Envelope m)"
    "dec_struct Freshness_fields (freshness_json (rm_Freshness m)) zero_Freshness = Some (rm_Freshness m)"
    using assms by (auto intro!: dec_parts(4,5) simp: root_counts_def)
  have c: "parse_int64 (dec_of_int (rm_ShardCount m)) = Some (rm_ShardCount m)"
    "parse_int64 (dec_of_int (rm_DeclaredRecordCount m)) = Some (rm_DeclaredRecordCount m)"
    using assms by (auto intro!: parse_count simp: root_counts_def)
  show ?thesis
    unfolding dec_struct_def [of RootManifest_fields] root_json_def
    by (simp add: RootManifest_fields_def find_field_def fld_def dec_string_def dec_int_def dec_bool_def
        zero_RootManifest_def l p c)
qed

lemma root_paths:
  assumes "root_counts m"
  shows "validate_path (root_json m) ''declaredRecordCount'' = Inr ()" "validate_path (root_json m) ''shardCount'' = Inr ()"
    "validate_path (root_json m) ''freshness.runlogIndex'' = Inr ()"
proof -
  have c: "checkCanonicalCount p (JNumber (dec_of_int (rm_ShardCount m))) = Inr ()"
    "checkCanonicalCount p (JNumber (dec_of_int (rm_DeclaredRecordCount m))) = Inr ()"
    "checkCanonicalCount p (JNumber (dec_of_int (fr_RunlogIndex (rm_Freshness m)))) = Inr ()" for p
    using assms by (auto intro!: canonical_int(3) writable_int simp: root_counts_def)
  have f: "map fold_rune (runes k) = map fold_rune (map code k)" if "runes k = map code k" for k using that by simp
  show "validate_path (root_json m) ''declaredRecordCount'' = Inr ()" "validate_path (root_json m) ''shardCount'' = Inr ()"
    using c by (simp_all add: validate_path_def root_json_def cut_suffix_def suffix_def caseCollidingKey_def EqualFold_def
        root_key_runes fold_rune_def code_def)
  show "validate_path (root_json m) ''freshness.runlogIndex'' = Inr ()"
    using c by (simp add: validate_path_def root_json_def freshness_json_def envelope_json_def cut_suffix_def suffix_def
        caseCollidingKey_def EqualFold_def root_key_runes fold_rune_def code_def)
qed

lemma root_written:
  assumes "root_text m" "root_counts m"
  shows "\<exists>b. MarshalRoot m = Inr b \<and> ParseRoot b = Inr m"
proof -
  have "depth (root_json m) \<le> maxNestingDepth" using root_json_depth [of m] by (simp add: maxNestingDepth_def)
  from canonical_reads [OF writes_root [OF assms(1)] raws_root writable_root [OF assms] this]
  obtain b where b: "CanonicalJSON (goval_RootManifest m) = Inr b" "parse_all (string_of b) = Some (root_json m)"
    "decode_any (root_json m) = root_json m" by blast
  have "validateCounts b [''declaredRecordCount'', ''shardCount'', ''freshness.runlogIndex''] = Inr ()"
    using parse_all_first [OF b(2)] b(3) root_paths [OF assms(2)] by (simp add: validateCounts_def)
  moreover have "Unmarshal (dec_struct RootManifest_fields) zero_RootManifest (string_of b) = Some m"
    using b(2) dec_root [OF assms(2)] by (simp add: Unmarshal_def)
  ultimately show ?thesis using b(1) by (simp add: MarshalRoot_def ParseRoot_def)
qed

lemma root_size: "root_text m \<Longrightarrow> MarshalRoot m = Inr b \<Longrightarrow> length b \<le> json_size (root_json m)"
  unfolding MarshalRoot_def by (rule canonical_size [OF writes_root])

definition sample_root :: RootManifest where
  "sample_root = zero_RootManifest\<lparr>rm_FormatVersion := ''1'', rm_RunID := ''01ARZ3NDEKTSV4RRFFQ69G5FAV'',
     rm_DownpipeID := ''pipe'', rm_Recipients := [\<lparr>rp_Fingerprint = ''f1'', rp_Role = ''operational'', rp_X25519 = ''x'', rp_MLKEM = ''m''\<rparr>],
     rm_Shards := [\<lparr>sh_ID = ''s0'', sh_Object = ''o'', sh_SHA384 = ''d''\<rparr>], rm_ShardCount := 1, rm_DeclaredRecordCount := 12,
     rm_Freshness := \<lparr>fr_PrevRunID = Some ''01ARZ3NDEKTSV4RRFFQ69G5FA0'', fr_RunlogIndex = 3\<rparr>\<rparr>"

text \<open>
  C33. The root manifest round trip: every manifest of well-formed text with its counts in the canonical range is
  written, and what is written is read back as the same manifest, recipients, wraps, shards and freshness included.
\<close>
theorem root_round_trip:
  assumes "root_text m" "root_counts m"
  shows "\<exists>b. MarshalRoot m = Inr b \<and> ParseRoot b = Inr m"
  by (rule root_written [OF assms])

lemma root_round_trip_witness: "\<exists>b. MarshalRoot sample_root = Inr b \<and> ParseRoot b = Inr sample_root"
proof (rule root_round_trip)
  show "root_text sample_root"
    by (simp add: root_text_def sample_root_def zero_RootManifest_def zero_Envelope_def code_def)
  show "root_counts sample_root"
    by (simp add: root_counts_def sample_root_def zero_RootManifest_def zero_Envelope_def canonical_count_def maxCanonicalInt_def)
qed

end
