(* ===== verification/Prune.thy ===== *)
theory Prune
  imports Manifest GoStrings
begin

text \<open>
  \<open>internal/prune\<close>: what an offline prune deletes. \<open>Partition\<close> splits the run log by the retention
  policy, \<open>Compute\<close> subtracts the live segments from the dead ones or abstains, and \<open>Apply\<close> carries
  the plan out. A Go map used as a set is the list of its keys. The destination answers each delete
  and each listing as a function of everything it has answered before, so no assumption is made on
  it; the history of the deletes attempted is part of what \<open>Apply\<close> returns here.
\<close>

section \<open>The retention policy\<close>

datatype prune_error =
    KeepTooSmall int
  | Abstain string string
  | CannotDelete
  | CannotList
  | ListRunTree string string

fun keep_newest :: "nat \<Rightarrow> nat \<Rightarrow> RunlogEntry list \<Rightarrow> string list \<Rightarrow> string list \<Rightarrow> string list \<times> string list" where
  "keep_newest n kept [] keep drp = (keep, drp)"
| "keep_newest n kept (e # r) keep drp =
     (if re_Status e = ''superseded'' then keep_newest n kept r keep (drp @ [re_RunID e])
      else if kept < n then keep_newest n (kept + 1) r (keep @ [re_RunID e]) drp
      else keep_newest n kept r keep (drp @ [re_RunID e]))"

definition newest_first :: "RunlogEntry list \<Rightarrow> RunlogEntry list" where
  "newest_first runs = sort_key (\<lambda>e. - re_Index e) runs"

text \<open>Go visits the groups of \<open>byDownpipe\<close> in no fixed order; the two results are sorted afterwards.\<close>

definition Partition :: "RunlogEntry list \<Rightarrow> int \<Rightarrow> prune_error + string list \<times> string list" where
  "Partition entries keepPerDownpipe =
     (if keepPerDownpipe < 1 then Inl (KeepTooSmall keepPerDownpipe)
      else (case foldl (\<lambda>(keep, drp) d. keep_newest (nat keepPerDownpipe) 0
                          (newest_first (filter (\<lambda>e. re_DownpipeID e = d) entries)) keep drp)
                   ([], []) (remdups (map re_DownpipeID entries)) of
              (keep, drp) \<Rightarrow> Inr (sort keep, sort drp)))"

section \<open>The plan\<close>

record RunRefs =
  rr_RunID :: string
  rr_Objects :: "string list"
  rr_Complete :: bool
  rr_Reason :: string

record Plan =
  pl_OrphanSegments :: "string list"
  pl_SupersededRuns :: "string list"
  pl_SkippedSuperseded :: "string list"
  pl_OrphansByRun :: "string \<rightharpoonup> string list"

fun live_objects :: "RunRefs list \<Rightarrow> string list \<Rightarrow> prune_error + string list" where
  "live_objects [] live = Inr live"
| "live_objects (r # rs) live =
     (if \<not> rr_Complete r then Inl (Abstain (rr_RunID r) (rr_Reason r))
      else live_objects rs (live @ rr_Objects r))"

definition Compute :: "RunRefs list \<Rightarrow> RunRefs list \<Rightarrow> prune_error + Plan" where
  "Compute retained superseded =
     rbind (live_objects (sort_key rr_RunID retained) []) (\<lambda>live.
       let sortedSuperseded = sort_key rr_RunID superseded;
           readable = filter rr_Complete sortedSuperseded;
           dead = remdups (concat (map rr_Objects readable))
       in Inr \<lparr>pl_OrphanSegments = sort (filter (\<lambda>obj. obj \<notin> set live) dead),
               pl_SupersededRuns = map rr_RunID readable,
               pl_SkippedSuperseded = map rr_RunID (filter (\<lambda>r. \<not> rr_Complete r) sortedSuperseded),
               pl_OrphansByRun = foldl (\<lambda>m r. m(rr_RunID r \<mapsto> sort (filter (\<lambda>obj. obj \<notin> set live) (rr_Objects r))))
                                   Map.empty readable\<rparr>)"

section \<open>Carrying it out\<close>

record Result =
  rs_SegmentsDeleted :: nat
  rs_RunObjectsDeleted :: nat
  rs_PlannedSegments :: nat
  rs_PlannedRunObjects :: nat
  rs_RunObjectsUnknown :: bool
  rs_Refused :: "string list"
  rs_RefusedLockNamed :: nat
  rs_Failed :: "string list"
  rs_HeldRunObjects :: nat

definition Incomplete :: "Result \<Rightarrow> bool" where
  "Incomplete r \<longleftrightarrow> length (rs_Refused r) > 0 \<or> length (rs_Failed r) > 0 \<or> rs_HeldRunObjects r > 0"

text \<open>
  What the error of a delete says of itself: the status of the first error of its chain that has
  one, whether the chain holds a permission denial, and the answer of the first error that knows
  whether a lock was named.
\<close>

record delete_error =
  de_DeleteStatus :: "int option"
  de_ErrPermission :: bool
  de_LockNamed :: "bool option"

definition classifyDelete :: "delete_error \<Rightarrow> bool \<times> bool" where
  "classifyDelete err =
     (let refused = (case de_DeleteStatus err of
                       Some s \<Rightarrow> s \<ge> 400 \<and> s < 500 \<and> s \<noteq> 408 \<and> s \<noteq> 429
                     | None \<Rightarrow> de_ErrPermission err);
          lockNamed = (case de_LockNamed err of Some b \<Rightarrow> refused \<and> b | None \<Rightarrow> False)
      in (refused, lockNamed))"

type_synonym history = "(string \<times> delete_error option) list"

record destination =
  ds_Delete :: "(history \<Rightarrow> string \<Rightarrow> delete_error option) option"
  ds_List :: "(history \<Rightarrow> string \<Rightarrow> string + string list) option"

definition RunTreePrefix :: "string \<Rightarrow> string" where
  "RunTreePrefix runID = ''run/'' @ runID @ ''/''"

text \<open>\<open>del\<close> returns whether the object went, the counts, and the history with this attempt.\<close>

definition del :: "destination \<Rightarrow> bool \<Rightarrow> string \<Rightarrow> Result \<times> history \<Rightarrow> bool \<times> Result \<times> history" where
  "del store dryRun key st =
     (case st of (res, h) \<Rightarrow>
        if dryRun then (False, res, h)
        else (case ds_Delete store of
                None \<Rightarrow> (False, res, h)
              | Some delete \<Rightarrow>
                  (case delete h key of
                     None \<Rightarrow> (True, res, h @ [(key, None)])
                   | Some err \<Rightarrow>
                       (case classifyDelete err of (refused, lockNamed) \<Rightarrow>
                          (False,
                           (if refused then
                              res\<lparr>rs_Refused := rs_Refused res @ [key],
                                  rs_RefusedLockNamed := rs_RefusedLockNamed res + (if lockNamed then 1 else 0)\<rparr>
                            else res\<lparr>rs_Failed := rs_Failed res @ [key]\<rparr>),
                           h @ [(key, Some err)])))))"

fun delete_segments ::
  "destination \<Rightarrow> bool \<Rightarrow> string list \<Rightarrow> string list \<Rightarrow> Result \<times> history \<Rightarrow> string list \<times> Result \<times> history" where
  "delete_segments store dryRun [] gone st = (gone, st)"
| "delete_segments store dryRun (seg # r) gone st =
     (case del store dryRun seg st of
        (True, res, h) \<Rightarrow>
          delete_segments store dryRun r (gone @ [seg]) (res\<lparr>rs_SegmentsDeleted := rs_SegmentsDeleted res + 1\<rparr>, h)
      | (False, res, h) \<Rightarrow> delete_segments store dryRun r gone (res, h))"

fun delete_tree_objects ::
  "destination \<Rightarrow> bool \<Rightarrow> string \<Rightarrow> bool \<Rightarrow> string list \<Rightarrow> Result \<times> history \<Rightarrow> Result \<times> history" where
  "delete_tree_objects store dryRun pfx held [] st = st"
| "delete_tree_objects store dryRun pfx held (k # r) (res, h) =
     (if \<not> prefix pfx k then delete_tree_objects store dryRun pfx held r (res, h)
      else (let res1 = res\<lparr>rs_PlannedRunObjects := rs_PlannedRunObjects res + 1\<rparr>
            in if held then
                 delete_tree_objects store dryRun pfx held r
                   (res1\<lparr>rs_HeldRunObjects := rs_HeldRunObjects res1 + 1\<rparr>, h)
               else (case del store dryRun k (res1, h) of
                       (True, res2, h2) \<Rightarrow>
                         delete_tree_objects store dryRun pfx held r
                           (res2\<lparr>rs_RunObjectsDeleted := rs_RunObjectsDeleted res2 + 1\<rparr>, h2)
                     | (False, res2, h2) \<Rightarrow> delete_tree_objects store dryRun pfx held r (res2, h2))))"

fun delete_trees ::
  "destination \<Rightarrow> bool \<Rightarrow> Plan \<Rightarrow> string list \<Rightarrow> string list \<Rightarrow> Result \<times> history \<Rightarrow> (prune_error + Result) \<times> history" where
  "delete_trees store dryRun plan gone [] (res, h) = (Inr res, h)"
| "delete_trees store dryRun plan gone (runID # r) (res, h) =
     (let orphans = (case pl_OrphansByRun plan runID of None \<Rightarrow> [] | Some l \<Rightarrow> l);
          held = (\<not> dryRun \<and> (\<exists>seg \<in> set orphans. seg \<notin> set gone));
          pfx = RunTreePrefix runID
      in case (case ds_List store of None \<Rightarrow> Inr [] | Some lst \<Rightarrow> lst h pfx) of
           Inl lerr \<Rightarrow> (Inl (ListRunTree runID lerr), h)
         | Inr keys \<Rightarrow> delete_trees store dryRun plan gone r (delete_tree_objects store dryRun pfx held keys (res, h)))"

definition zero_Result :: Result where
  "zero_Result = \<lparr>rs_SegmentsDeleted = 0, rs_RunObjectsDeleted = 0, rs_PlannedSegments = 0, rs_PlannedRunObjects = 0,
     rs_RunObjectsUnknown = False, rs_Refused = [], rs_RefusedLockNamed = 0, rs_Failed = [], rs_HeldRunObjects = 0\<rparr>"

definition Apply :: "destination \<Rightarrow> Plan \<Rightarrow> bool \<Rightarrow> (prune_error + Result) \<times> history" where
  "Apply store plan dryRun =
     (if ds_Delete store = None \<and> \<not> dryRun then (Inl CannotDelete, [])
      else if ds_List store = None \<and> \<not> dryRun then (Inl CannotList, [])
      else (let res0 = zero_Result\<lparr>rs_PlannedSegments := length (pl_OrphanSegments plan),
                                   rs_RunObjectsUnknown := dryRun \<and> ds_List store = None\<rparr>
            in case delete_segments store dryRun (pl_OrphanSegments plan) [] (res0, []) of
                 (gone, st) \<Rightarrow> delete_trees store dryRun plan gone (pl_SupersededRuns plan) st))"

section \<open>Lemmas\<close>

lemma live_objects_ok:
  "live_objects rs live =
     (if \<forall>r \<in> set rs. rr_Complete r then Inr (live @ concat (map rr_Objects rs))
      else (let r = hd (filter (\<lambda>r. \<not> rr_Complete r) rs) in Inl (Abstain (rr_RunID r) (rr_Reason r))))"
  by (induction rs arbitrary: live) (auto simp: Let_def)

lemma orphans_by_run:
  "foldl (\<lambda>m r. m(f r \<mapsto> g r)) m rs k =
     (case filter (\<lambda>r. f r = k) (rev rs) of [] \<Rightarrow> m k | r # _ \<Rightarrow> Some (g r))"
  by (induction rs arbitrary: m rule: rev_induct) (auto split: list.splits)

lemma hd_filter_least:
  "sorted (map f xs) \<Longrightarrow> \<exists>x \<in> set xs. P x \<Longrightarrow>
     hd (filter P xs) \<in> set xs \<and> P (hd (filter P xs)) \<and> (\<forall>x \<in> set xs. P x \<longrightarrow> f (hd (filter P xs)) \<le> f x)"
  by (induction xs) auto

text \<open>The attempts a pass has made, by how the result accounts for them.\<close>

definition accounted :: "Result \<Rightarrow> nat" where
  "accounted res = rs_SegmentsDeleted res + rs_RunObjectsDeleted res + length (rs_Refused res) + length (rs_Failed res)"

definition deletes_of :: "history \<Rightarrow> string list" where
  "deletes_of h = map fst (filter (\<lambda>(k, o'). o' = None) h)"

lemma deletes_of_append: "deletes_of (h1 @ h2) = deletes_of h1 @ deletes_of h2"
  by (simp add: deletes_of_def)

lemma del_attempt:
  assumes "ds_Delete store \<noteq> None"
  shows "\<exists>ok res' o'. del store False key (res, h) = (ok, res', h @ [(key, o')]) \<and> (ok \<longleftrightarrow> o' = None)
    \<and> rs_SegmentsDeleted res' = rs_SegmentsDeleted res \<and> rs_RunObjectsDeleted res' = rs_RunObjectsDeleted res
    \<and> rs_PlannedSegments res' = rs_PlannedSegments res \<and> rs_PlannedRunObjects res' = rs_PlannedRunObjects res
    \<and> rs_HeldRunObjects res' = rs_HeldRunObjects res
    \<and> length (rs_Refused res') + length (rs_Failed res') =
        length (rs_Refused res) + length (rs_Failed res) + (if ok then 0 else 1)"
proof -
  obtain delete where delete: "ds_Delete store = Some delete" using assms by blast
  show ?thesis
  proof (cases "delete h key")
    case None
    then show ?thesis using delete by (intro exI [of _ True] exI [of _ res] exI [of _ None]) (simp add: del_def)
  next
    case (Some err)
    obtain refused lockNamed where c: "classifyDelete err = (refused, lockNamed)" by fastforce
    let ?res' = "if refused then
        res\<lparr>rs_Refused := rs_Refused res @ [key],
            rs_RefusedLockNamed := rs_RefusedLockNamed res + (if lockNamed then 1 else 0)\<rparr>
      else res\<lparr>rs_Failed := rs_Failed res @ [key]\<rparr>"
    show ?thesis using delete Some c
      by (intro exI [of _ False] exI [of _ ?res'] exI [of _ "Some err"]) (simp add: del_def)
  qed
qed

lemma del_dry [simp]: "del store True key st = (False, st)"
  by (simp add: del_def split: prod.splits)

lemma delete_segments_run:
  assumes "ds_Delete store \<noteq> None" "delete_segments store False segs gone (res, h) = (gone', res', h')"
  shows "\<exists>hs. h' = h @ hs \<and> map fst hs = segs \<and> gone' = gone @ deletes_of hs
    \<and> accounted res' = accounted res + length segs
    \<and> rs_SegmentsDeleted res' = rs_SegmentsDeleted res + length (deletes_of hs)
    \<and> rs_RunObjectsDeleted res' = rs_RunObjectsDeleted res
    \<and> rs_PlannedSegments res' = rs_PlannedSegments res \<and> rs_PlannedRunObjects res' = rs_PlannedRunObjects res
    \<and> rs_HeldRunObjects res' = rs_HeldRunObjects res"
  using assms(2)
proof (induction segs arbitrary: gone res h)
  case (Cons seg r)
  obtain ok res1 o' where d: "del store False seg (res, h) = (ok, res1, h @ [(seg, o')])" "ok \<longleftrightarrow> o' = None"
    "rs_SegmentsDeleted res1 = rs_SegmentsDeleted res" "rs_RunObjectsDeleted res1 = rs_RunObjectsDeleted res"
    "rs_PlannedSegments res1 = rs_PlannedSegments res" "rs_PlannedRunObjects res1 = rs_PlannedRunObjects res"
    "rs_HeldRunObjects res1 = rs_HeldRunObjects res"
    "length (rs_Refused res1) + length (rs_Failed res1) =
       length (rs_Refused res) + length (rs_Failed res) + (if ok then 0 else 1)"
    using del_attempt [OF assms(1)] by blast
  let ?res2 = "if ok then res1\<lparr>rs_SegmentsDeleted := rs_SegmentsDeleted res1 + 1\<rparr> else res1"
  have "delete_segments store False r (if ok then gone @ [seg] else gone) (?res2, h @ [(seg, o')]) = (gone', res', h')"
    using Cons.prems d(1) by (cases ok) simp_all
  from Cons.IH [OF this] obtain hs where hs: "h' = (h @ [(seg, o')]) @ hs" "map fst hs = r"
    "gone' = (if ok then gone @ [seg] else gone) @ deletes_of hs" "accounted res' = accounted ?res2 + length r"
    "rs_SegmentsDeleted res' = rs_SegmentsDeleted ?res2 + length (deletes_of hs)"
    "rs_RunObjectsDeleted res' = rs_RunObjectsDeleted ?res2"
    "rs_PlannedSegments res' = rs_PlannedSegments ?res2" "rs_PlannedRunObjects res' = rs_PlannedRunObjects ?res2"
    "rs_HeldRunObjects res' = rs_HeldRunObjects ?res2"
    by blast
  then show ?case using d
    by (intro exI [of _ "(seg, o') # hs"]) (auto simp: deletes_of_def accounted_def)
qed (auto simp: deletes_of_def)

lemma delete_tree_objects_run:
  assumes "ds_Delete store \<noteq> None" "delete_tree_objects store False pfx held keys (res, h) = (res', h')"
  shows "\<exists>hs. h' = h @ hs \<and> (\<forall>k \<in> fst ` set hs. prefix pfx k \<and> \<not> held)
    \<and> accounted res' = accounted res + length hs
    \<and> rs_PlannedRunObjects res' + rs_HeldRunObjects res = rs_PlannedRunObjects res + length hs + rs_HeldRunObjects res'
    \<and> rs_SegmentsDeleted res' = rs_SegmentsDeleted res
    \<and> rs_RunObjectsDeleted res' = rs_RunObjectsDeleted res + length (deletes_of hs)
    \<and> rs_PlannedSegments res' = rs_PlannedSegments res"
  using assms(2)
proof (induction keys arbitrary: res h)
  case (Cons k r)
  show ?case
  proof (cases "prefix pfx k")
    case False
    then show ?thesis using Cons by simp
  next
    case pre: True
    let ?res1 = "res\<lparr>rs_PlannedRunObjects := rs_PlannedRunObjects res + 1\<rparr>"
    show ?thesis
    proof (cases held)
      case True
      let ?res2 = "?res1\<lparr>rs_HeldRunObjects := rs_HeldRunObjects ?res1 + 1\<rparr>"
      have "delete_tree_objects store False pfx held r (?res2, h) = (res', h')"
        using Cons.prems pre True by (simp add: Let_def)
      from Cons.IH [OF this] obtain hs where "h' = h @ hs" "\<forall>k \<in> fst ` set hs. prefix pfx k \<and> \<not> held"
        "accounted res' = accounted ?res2 + length hs"
        "rs_PlannedRunObjects res' + rs_HeldRunObjects ?res2 = rs_PlannedRunObjects ?res2 + length hs + rs_HeldRunObjects res'"
        "rs_SegmentsDeleted res' = rs_SegmentsDeleted ?res2"
        "rs_RunObjectsDeleted res' = rs_RunObjectsDeleted ?res2 + length (deletes_of hs)"
        "rs_PlannedSegments res' = rs_PlannedSegments ?res2"
        by blast
      then show ?thesis by (intro exI [of _ hs]) (auto simp: accounted_def)
    next
      case False
      obtain ok res1 o' where d: "del store False k (?res1, h) = (ok, res1, h @ [(k, o')])" "ok \<longleftrightarrow> o' = None"
        "rs_SegmentsDeleted res1 = rs_SegmentsDeleted ?res1" "rs_RunObjectsDeleted res1 = rs_RunObjectsDeleted ?res1"
        "rs_PlannedSegments res1 = rs_PlannedSegments ?res1" "rs_PlannedRunObjects res1 = rs_PlannedRunObjects ?res1"
        "rs_HeldRunObjects res1 = rs_HeldRunObjects ?res1"
        "length (rs_Refused res1) + length (rs_Failed res1) =
           length (rs_Refused ?res1) + length (rs_Failed ?res1) + (if ok then 0 else 1)"
        using del_attempt [OF assms(1)] by blast
      let ?res2 = "if ok then res1\<lparr>rs_RunObjectsDeleted := rs_RunObjectsDeleted res1 + 1\<rparr> else res1"
      have "delete_tree_objects store False pfx held r (?res2, h @ [(k, o')]) = (res', h')"
        using Cons.prems pre False d(1) by (cases ok) (simp_all add: Let_def)
      from Cons.IH [OF this] obtain hs where "h' = (h @ [(k, o')]) @ hs" "\<forall>k \<in> fst ` set hs. prefix pfx k \<and> \<not> held"
        "accounted res' = accounted ?res2 + length hs"
        "rs_PlannedRunObjects res' + rs_HeldRunObjects ?res2 = rs_PlannedRunObjects ?res2 + length hs + rs_HeldRunObjects res'"
        "rs_SegmentsDeleted res' = rs_SegmentsDeleted ?res2"
        "rs_RunObjectsDeleted res' = rs_RunObjectsDeleted ?res2 + length (deletes_of hs)"
        "rs_PlannedSegments res' = rs_PlannedSegments ?res2"
        by blast
      then show ?thesis using d pre False
        by (intro exI [of _ "(k, o') # hs"]) (auto simp: accounted_def deletes_of_def)
    qed
  qed
qed (auto simp: deletes_of_def)

definition run_orphans :: "Plan \<Rightarrow> string \<Rightarrow> string list" where
  "run_orphans plan runID = (case pl_OrphansByRun plan runID of None \<Rightarrow> [] | Some l \<Rightarrow> l)"

lemma delete_trees_run:
  assumes "ds_Delete store \<noteq> None" "delete_trees store False plan gone runs (res, h) = (out, h')"
  shows "\<exists>hs. h' = h @ hs
    \<and> (\<forall>k \<in> fst ` set hs. \<exists>runID \<in> set runs. prefix (RunTreePrefix runID) k \<and> set (run_orphans plan runID) \<subseteq> set gone)
    \<and> (\<forall>res'. out = Inr res' \<longrightarrow> accounted res' = accounted res + length hs
        \<and> rs_PlannedRunObjects res' + rs_HeldRunObjects res = rs_PlannedRunObjects res + length hs + rs_HeldRunObjects res'
        \<and> rs_SegmentsDeleted res' = rs_SegmentsDeleted res
        \<and> rs_RunObjectsDeleted res' = rs_RunObjectsDeleted res + length (deletes_of hs)
        \<and> rs_PlannedSegments res' = rs_PlannedSegments res)"
  using assms(2)
proof (induction runs arbitrary: res h)
  case Nil
  then show ?case by (auto simp: deletes_of_def)
next
  case (Cons runID r)
  let ?held = "\<exists>seg \<in> set (run_orphans plan runID). seg \<notin> set gone"
  let ?l = "case ds_List store of None \<Rightarrow> Inr [] | Some lst \<Rightarrow> lst h (RunTreePrefix runID)"
  show ?case
  proof (cases ?l)
    case (Inl e)
    then show ?thesis using Cons.prems by (intro exI [of _ "[]"]) (auto simp: Let_def)
  next
    case (Inr keys)
    obtain res1 h1 where t: "delete_tree_objects store False (RunTreePrefix runID) ?held keys (res, h) = (res1, h1)"
      by fastforce
    then have rest: "delete_trees store False plan gone r (res1, h1) = (out, h')"
      using Cons.prems Inr by (simp add: run_orphans_def)
    obtain hs1 where hs1: "h1 = h @ hs1" "\<forall>k \<in> fst ` set hs1. prefix (RunTreePrefix runID) k \<and> \<not> ?held"
      "accounted res1 = accounted res + length hs1"
      "rs_PlannedRunObjects res1 + rs_HeldRunObjects res = rs_PlannedRunObjects res + length hs1 + rs_HeldRunObjects res1"
      "rs_SegmentsDeleted res1 = rs_SegmentsDeleted res"
      "rs_RunObjectsDeleted res1 = rs_RunObjectsDeleted res + length (deletes_of hs1)"
      "rs_PlannedSegments res1 = rs_PlannedSegments res"
      using delete_tree_objects_run [OF assms(1) t] by blast
    obtain hs2 where hs2: "h' = h1 @ hs2"
      "\<forall>k \<in> fst ` set hs2. \<exists>runID \<in> set r. prefix (RunTreePrefix runID) k \<and> set (run_orphans plan runID) \<subseteq> set gone"
      "\<forall>res'. out = Inr res' \<longrightarrow> accounted res' = accounted res1 + length hs2
        \<and> rs_PlannedRunObjects res' + rs_HeldRunObjects res1 = rs_PlannedRunObjects res1 + length hs2 + rs_HeldRunObjects res'
        \<and> rs_SegmentsDeleted res' = rs_SegmentsDeleted res1
        \<and> rs_RunObjectsDeleted res' = rs_RunObjectsDeleted res1 + length (deletes_of hs2)
        \<and> rs_PlannedSegments res' = rs_PlannedSegments res1"
      using Cons.IH [OF rest] by blast
    have a: "\<forall>k \<in> fst ` set (hs1 @ hs2). \<exists>runID' \<in> set (runID # r). prefix (RunTreePrefix runID') k
        \<and> set (run_orphans plan runID') \<subseteq> set gone"
    proof
      fix k
      assume "k \<in> fst ` set (hs1 @ hs2)"
      then consider "k \<in> fst ` set hs1" | "k \<in> fst ` set hs2" by (auto simp: image_Un)
      then show "\<exists>runID' \<in> set (runID # r). prefix (RunTreePrefix runID') k
          \<and> set (run_orphans plan runID') \<subseteq> set gone"
      proof cases
        case 1
        then show ?thesis using hs1(2) by (intro bexI [of _ runID]) auto
      next
        case 2
        with hs2(2) obtain runID' where "runID' \<in> set r" "prefix (RunTreePrefix runID') k"
          "set (run_orphans plan runID') \<subseteq> set gone" by blast
        then show ?thesis by (intro bexI [of _ runID']) simp_all
      qed
    qed
    have b: "h' = h @ (hs1 @ hs2)" using hs1(1) hs2(1) by simp
    have c: "\<forall>res'. out = Inr res' \<longrightarrow> accounted res' = accounted res + length (hs1 @ hs2)
        \<and> rs_PlannedRunObjects res' + rs_HeldRunObjects res = rs_PlannedRunObjects res + length (hs1 @ hs2) + rs_HeldRunObjects res'
        \<and> rs_SegmentsDeleted res' = rs_SegmentsDeleted res
        \<and> rs_RunObjectsDeleted res' = rs_RunObjectsDeleted res + length (deletes_of (hs1 @ hs2))
        \<and> rs_PlannedSegments res' = rs_PlannedSegments res"
    proof (intro allI impI conjI)
      fix res'
      assume "out = Inr res'"
      note i = hs2(3) [rule_format, OF this]
      show "accounted res' = accounted res + length (hs1 @ hs2)" using i hs1(3) by simp
      show "rs_PlannedRunObjects res' + rs_HeldRunObjects res
          = rs_PlannedRunObjects res + length (hs1 @ hs2) + rs_HeldRunObjects res'"
        using i hs1(4) by simp
      show "rs_SegmentsDeleted res' = rs_SegmentsDeleted res" using i hs1(5) by simp
      show "rs_RunObjectsDeleted res' = rs_RunObjectsDeleted res + length (deletes_of (hs1 @ hs2))"
        using i hs1(6) by (simp add: deletes_of_append)
      show "rs_PlannedSegments res' = rs_PlannedSegments res" using i hs1(7) by simp
    qed
    show ?thesis by (rule exI [of _ "hs1 @ hs2"], intro conjI; fact)
  qed
qed

lemma delete_segments_dry [simp]: "delete_segments store True segs gone st = (gone, st)"
  by (induction segs arbitrary: st) (auto split: prod.splits)

lemma delete_tree_objects_dry: "snd (delete_tree_objects store True pfx held keys (res, h)) = h"
  by (induction keys arbitrary: res) (auto simp: Let_def)

lemma delete_trees_dry: "snd (delete_trees store True plan gone runs (res, h)) = h"
proof (induction runs arbitrary: res)
  case (Cons runID r)
  have "\<exists>res'. delete_tree_objects store True pfx held keys (res, h) = (res', h)" for pfx held keys
    using delete_tree_objects_dry [of store pfx held keys res h] by (metis prod.collapse)
  then show ?case using Cons by (auto simp: Let_def split: sum.splits) metis
qed simp

lemma Apply_run:
  assumes "Apply store plan False = (out, h)" "h \<noteq> [] \<or> (\<exists>res. out = Inr res)"
  shows "\<exists>hs ht. h = hs @ ht \<and> map fst hs = pl_OrphanSegments plan
    \<and> (\<forall>k \<in> fst ` set ht. \<exists>runID \<in> set (pl_SupersededRuns plan). prefix (RunTreePrefix runID) k
         \<and> set (run_orphans plan runID) \<subseteq> set (deletes_of hs))
    \<and> (\<forall>res. out = Inr res \<longrightarrow> accounted res = length h
         \<and> rs_PlannedSegments res = length hs \<and> rs_PlannedRunObjects res = length ht + rs_HeldRunObjects res
         \<and> rs_SegmentsDeleted res = length (deletes_of hs) \<and> rs_RunObjectsDeleted res = length (deletes_of ht))"
proof -
  let ?res0 = "zero_Result\<lparr>rs_PlannedSegments := length (pl_OrphanSegments plan), rs_RunObjectsUnknown := False\<rparr>"
  have del: "ds_Delete store \<noteq> None" "ds_List store \<noteq> None"
    using assms by (auto simp: Apply_def split: if_splits)
  obtain gone res1 h1 where seg: "delete_segments store False (pl_OrphanSegments plan) [] (?res0, []) = (gone, res1, h1)"
    by (metis prod.exhaust)
  have tr: "delete_trees store False plan gone (pl_SupersededRuns plan) (res1, h1) = (out, h)"
    using assms(1) del seg by (simp add: Apply_def)
  obtain hs where hs: "h1 = [] @ hs" "map fst hs = pl_OrphanSegments plan" "gone = [] @ deletes_of hs"
    "accounted res1 = accounted ?res0 + length (pl_OrphanSegments plan)"
    "rs_SegmentsDeleted res1 = rs_SegmentsDeleted ?res0 + length (deletes_of hs)"
    "rs_RunObjectsDeleted res1 = rs_RunObjectsDeleted ?res0"
    "rs_PlannedSegments res1 = rs_PlannedSegments ?res0" "rs_PlannedRunObjects res1 = rs_PlannedRunObjects ?res0"
    "rs_HeldRunObjects res1 = rs_HeldRunObjects ?res0"
    using delete_segments_run [OF del(1) seg] by blast
  have len: "length (pl_OrphanSegments plan) = length hs" using hs(2) by (metis length_map)
  obtain ht where ht: "h = h1 @ ht"
    "\<forall>k \<in> fst ` set ht. \<exists>runID \<in> set (pl_SupersededRuns plan). prefix (RunTreePrefix runID) k \<and> set (run_orphans plan runID) \<subseteq> set gone"
    "\<forall>res'. out = Inr res' \<longrightarrow> accounted res' = accounted res1 + length ht
        \<and> rs_PlannedRunObjects res' + rs_HeldRunObjects res1 = rs_PlannedRunObjects res1 + length ht + rs_HeldRunObjects res'
        \<and> rs_SegmentsDeleted res' = rs_SegmentsDeleted res1
        \<and> rs_RunObjectsDeleted res' = rs_RunObjectsDeleted res1 + length (deletes_of ht)
        \<and> rs_PlannedSegments res' = rs_PlannedSegments res1"
    using delete_trees_run [OF del(1) tr] by blast
  have "h = hs @ ht" using hs(1) ht(1) by simp
  moreover have "\<forall>k \<in> fst ` set ht. \<exists>runID \<in> set (pl_SupersededRuns plan). prefix (RunTreePrefix runID) k
         \<and> set (run_orphans plan runID) \<subseteq> set (deletes_of hs)"
    using ht(2) hs(3) by simp
  moreover have "\<forall>res. out = Inr res \<longrightarrow> accounted res = length h
         \<and> rs_PlannedSegments res = length hs \<and> rs_PlannedRunObjects res = length ht + rs_HeldRunObjects res
         \<and> rs_SegmentsDeleted res = length (deletes_of hs) \<and> rs_RunObjectsDeleted res = length (deletes_of ht)"
    using ht(1,3) hs len by (auto simp: zero_Result_def accounted_def)
  ultimately show ?thesis using hs(2) by (intro exI [of _ hs] exI [of _ ht] conjI)
qed

text \<open>Retention: the position of an entry among the active entries of its downpipe, newest first.\<close>

definition active_of :: "RunlogEntry list \<Rightarrow> string \<Rightarrow> RunlogEntry list" where
  "active_of entries d = filter (\<lambda>e. re_Status e \<noteq> ''superseded'') (newest_first (filter (\<lambda>e. re_DownpipeID e = d) entries))"

lemma keep_newest_eq:
  "\<exists>D. keep_newest n k runs keep drp =
     (keep @ map re_RunID (take (n - k) (filter (\<lambda>e. re_Status e \<noteq> ''superseded'') runs)), drp @ D)
     \<and> mset (map re_RunID (take (n - k) (filter (\<lambda>e. re_Status e \<noteq> ''superseded'') runs)) @ D) = mset (map re_RunID runs)"
proof (induction runs arbitrary: k keep drp)
  case (Cons e r)
  show ?case
  proof (cases "re_Status e = ''superseded''")
    case True
    obtain D where "keep_newest n k r keep (drp @ [re_RunID e]) =
        (keep @ map re_RunID (take (n - k) (filter (\<lambda>e. re_Status e \<noteq> ''superseded'') r)), (drp @ [re_RunID e]) @ D)"
      "mset (map re_RunID (take (n - k) (filter (\<lambda>e. re_Status e \<noteq> ''superseded'') r)) @ D) = mset (map re_RunID r)"
      using Cons.IH by blast
    then show ?thesis using True by (intro exI [of _ "re_RunID e # D"]) simp
  next
    case act: False
    show ?thesis
    proof (cases "k < n")
      case True
      then obtain m where m: "n - k = Suc m" "n - (k + 1) = m" by (metis Suc_diff_Suc add.commute plus_1_eq_Suc)
      obtain D where "keep_newest n (k + 1) r (keep @ [re_RunID e]) drp =
          ((keep @ [re_RunID e]) @ map re_RunID (take m (filter (\<lambda>e. re_Status e \<noteq> ''superseded'') r)), drp @ D)"
        "mset (map re_RunID (take m (filter (\<lambda>e. re_Status e \<noteq> ''superseded'') r)) @ D) = mset (map re_RunID r)"
        using Cons.IH [of "k + 1"] m(2) by metis
      then show ?thesis using True act m by (intro exI [of _ D]) simp
    next
      case False
      obtain D where "keep_newest n k r keep (drp @ [re_RunID e]) =
          (keep @ map re_RunID (take (n - k) (filter (\<lambda>e. re_Status e \<noteq> ''superseded'') r)), (drp @ [re_RunID e]) @ D)"
        "mset (map re_RunID (take (n - k) (filter (\<lambda>e. re_Status e \<noteq> ''superseded'') r)) @ D) = mset (map re_RunID r)"
        using Cons.IH by blast
      then show ?thesis using False act by (intro exI [of _ "re_RunID e # D"]) simp
    qed
  qed
qed simp

lemma partition_groups:
  "\<exists>D. foldl (\<lambda>(keep, drp) d. keep_newest n 0 (newest_first (filter (\<lambda>e. re_DownpipeID e = d) entries)) keep drp)
       (keep, drp) ds =
     (keep @ concat (map (\<lambda>d. map re_RunID (take n (active_of entries d))) ds), drp @ D)
   \<and> mset (concat (map (\<lambda>d. map re_RunID (take n (active_of entries d))) ds) @ D) =
     mset (concat (map (\<lambda>d. map re_RunID (filter (\<lambda>e. re_DownpipeID e = d) entries)) ds))"
proof (induction ds arbitrary: keep drp)
  case (Cons d ds)
  obtain D1 where D1: "keep_newest n 0 (newest_first (filter (\<lambda>e. re_DownpipeID e = d) entries)) keep drp =
      (keep @ map re_RunID (take n (active_of entries d)), drp @ D1)"
    "mset (map re_RunID (take n (active_of entries d)) @ D1) = mset (map re_RunID (filter (\<lambda>e. re_DownpipeID e = d) entries))"
    using keep_newest_eq [of n 0 "newest_first (filter (\<lambda>e. re_DownpipeID e = d) entries)" keep drp]
    by (auto simp: active_of_def newest_first_def)
  obtain D2 where D2: "foldl (\<lambda>(keep, drp) d. keep_newest n 0 (newest_first (filter (\<lambda>e. re_DownpipeID e = d) entries)) keep drp)
       (keep @ map re_RunID (take n (active_of entries d)), drp @ D1) ds =
     ((keep @ map re_RunID (take n (active_of entries d)))
        @ concat (map (\<lambda>d. map re_RunID (take n (active_of entries d))) ds), (drp @ D1) @ D2)"
   "mset (concat (map (\<lambda>d. map re_RunID (take n (active_of entries d))) ds) @ D2) =
     mset (concat (map (\<lambda>d. map re_RunID (filter (\<lambda>e. re_DownpipeID e = d) entries)) ds))"
    using Cons.IH by blast
  have "mset (map re_RunID (take n (active_of entries d)) @ concat (map (\<lambda>d. map re_RunID (take n (active_of entries d))) ds) @ D1 @ D2) =
      mset (map re_RunID (take n (active_of entries d)) @ D1) + mset (concat (map (\<lambda>d. map re_RunID (take n (active_of entries d))) ds) @ D2)"
    by simp
  then have "mset (concat (map (\<lambda>d. map re_RunID (take n (active_of entries d))) (d # ds)) @ D1 @ D2) =
      mset (concat (map (\<lambda>d. map re_RunID (filter (\<lambda>e. re_DownpipeID e = d) entries)) (d # ds)))"
    unfolding D1(2) D2(2) by simp
  then show ?case using D1(1) D2(1) by (intro exI [of _ "D1 @ D2"] conjI) simp_all
qed simp

lemma newest_first_props:
  "mset (newest_first xs) = mset xs" "sorted (map (\<lambda>e. - re_Index e) (newest_first xs))"
  by (simp_all add: newest_first_def)

lemma set_take_rank:
  fixes f :: "'a \<Rightarrow> int"
  assumes "sorted_wrt (\<lambda>x y. f x < f y) xs" "x \<in> set xs"
  shows "x \<in> set (take n xs) \<longleftrightarrow> length (filter (\<lambda>y. f y < f x) xs) < n"
  using assms
proof (induction xs arbitrary: n)
  case (Cons a xs)
  then have gt: "\<forall>y \<in> set xs. f a < f y" by simp
  show ?case
  proof (cases "x = a")
    case True
    then have "filter (\<lambda>y. f y < f x) (a # xs) = []" using gt by (auto simp: filter_empty_conv not_less)
    then show ?thesis using True by (cases n) auto
  next
    case False
    then have x: "x \<in> set xs" using Cons.prems by simp
    then show ?thesis using Cons.IH [of "n - 1"] Cons.prems gt False by (cases n) auto
  qed
qed simp

text \<open>Whether the policy keeps an entry: how many active entries of its downpipe are newer.\<close>

definition kept :: "RunlogEntry list \<Rightarrow> nat \<Rightarrow> RunlogEntry \<Rightarrow> bool" where
  "kept entries n e \<longleftrightarrow> re_Status e \<noteq> ''superseded''
     \<and> length (filter (\<lambda>e'. re_DownpipeID e' = re_DownpipeID e \<and> re_Status e' \<noteq> ''superseded''
                          \<and> re_Index e' > re_Index e) entries) < n"

lemma filter_newest:
  "length (filter P (newest_first xs)) = length (filter P xs)"
  using newest_first_props(1) [of xs] by (metis mset_filter size_mset)

lemma take_active:
  assumes "distinct (map re_Index entries)"
  shows "mset (take n (active_of entries d)) = mset (filter (\<lambda>e. re_DownpipeID e = d \<and> kept entries n e) entries)"
proof -
  let ?g = "filter (\<lambda>e. re_DownpipeID e = d) entries"
  let ?a = "active_of entries d"
  have dg: "distinct (map (\<lambda>e. - re_Index e) (newest_first ?g))"
  proof -
    have "distinct (map re_Index ?g)" using assms by (rule distinct_map_filter)
    then have "distinct (map (\<lambda>e. - re_Index e) ?g)" by (auto simp: distinct_map inj_on_def)
    then show ?thesis using newest_first_props(1) by (metis mset_eq_imp_distinct_iff mset_map)
  qed
  have strict: "sorted_wrt (\<lambda>x y. - re_Index x < - re_Index y) ?a"
    using sorted_distinct_strict [OF newest_first_props(2) dg] by (simp add: active_of_def sorted_wrt_filter)
  have mem: "set ?a = {e \<in> set entries. re_DownpipeID e = d \<and> re_Status e \<noteq> ''superseded''}"
    using mset_eq_setD [OF newest_first_props(1) [of ?g]] by (auto simp: active_of_def)
  have rank: "length (filter (\<lambda>y. - re_Index y < - re_Index x) ?a)
      = length (filter (\<lambda>e'. re_DownpipeID e' = d \<and> re_Status e' \<noteq> ''superseded'' \<and> re_Index e' > re_Index x) entries)" for x
    by (simp add: active_of_def filter_newest conj_commute conj_left_commute)
  have in_take: "x \<in> set (take n ?a) \<longleftrightarrow> x \<in> set entries \<and> re_DownpipeID x = d \<and> kept entries n x" for x
  proof (cases "x \<in> set ?a")
    case True
    then show ?thesis using set_take_rank [OF strict True, of n] mem rank [of x] by (auto simp: kept_def)
  next
    case False
    then show ?thesis using mem by (auto simp: kept_def dest: in_set_takeD)
  qed
  have "distinct ?a" using dg by (auto simp: active_of_def distinct_map)
  moreover have "distinct entries" using assms by (simp add: distinct_map)
  ultimately show ?thesis using in_take by (intro set_eq_iff_mset_eq_distinct [THEN iffD1]) auto
qed

lemma mset_by_group:
  "mset (concat (map (\<lambda>d. filter (\<lambda>e. g e = d) (filter P xs)) (remdups (map g ys)))) = mset (filter P xs)"
  if "set xs \<subseteq> set ys"
proof -
  have "set ds \<supseteq> g ` set xs \<Longrightarrow> distinct ds \<Longrightarrow>
      mset (concat (map (\<lambda>d. filter (\<lambda>e. g e = d) xs) ds)) = mset xs" for ds xs
  proof (induction ds arbitrary: xs)
    case (Cons d ds)
    let ?rest = "filter (\<lambda>e. g e \<noteq> d) xs"
    have m: "map (\<lambda>d'. filter (\<lambda>e. g e = d') ?rest) ds = map (\<lambda>d'. filter (\<lambda>e. g e = d') xs) ds"
      using Cons.prems(2) by (intro map_cong refl) (auto intro!: filter_cong)
    moreover have "mset (concat (map (\<lambda>d'. filter (\<lambda>e. g e = d') ?rest) ds)) = mset ?rest"
      using Cons.prems by (intro Cons.IH) auto
    ultimately have "mset (concat (map (\<lambda>d'. filter (\<lambda>e. g e = d') xs) ds)) = mset ?rest"
      by (simp only: m)
    then show ?case by (simp add: multiset_partition [of "mset xs" "\<lambda>e. g e = d", symmetric])
  qed simp
  from this [of "filter P xs" "remdups (map g ys)"] that show ?thesis by auto
qed


section \<open>What a prune may delete\<close>

text \<open>
  The retention policy: with distinct run-log indices, a run is kept exactly when its entry is not
  superseded and fewer than the policy's number of active entries of the same downpipe have a larger
  index; every other run is dropped, and both lists are sorted. The time field plays no part.
\<close>
theorem Partition_spec:
  assumes "1 \<le> n" "distinct (map re_Index entries)"
  shows "Partition entries n =
    Inr (sort (map re_RunID (filter (kept entries (nat n)) entries)),
         sort (map re_RunID (filter (\<lambda>e. \<not> kept entries (nat n) e) entries)))"
proof -
  let ?ds = "remdups (map re_DownpipeID entries)"
  obtain D where D: "foldl (\<lambda>(keep, drp) d. keep_newest (nat n) 0
        (newest_first (filter (\<lambda>e. re_DownpipeID e = d) entries)) keep drp) ([], []) ?ds =
      (concat (map (\<lambda>d. map re_RunID (take (nat n) (active_of entries d))) ?ds), D)"
    and all: "mset (concat (map (\<lambda>d. map re_RunID (take (nat n) (active_of entries d))) ?ds) @ D) =
      mset (concat (map (\<lambda>d. map re_RunID (filter (\<lambda>e. re_DownpipeID e = d) entries)) ?ds))"
    using partition_groups [of "nat n" entries "[]" "[]" ?ds] by auto
  have keep: "mset (concat (map (\<lambda>d. map re_RunID (take (nat n) (active_of entries d))) ?ds))
      = mset (map re_RunID (filter (kept entries (nat n)) entries))"
  proof -
    have "mset (concat (map (\<lambda>d. map re_RunID (take (nat n) (active_of entries d))) ds))
        = mset (map re_RunID (concat (map (\<lambda>d. filter (\<lambda>e. re_DownpipeID e = d) (filter (kept entries (nat n)) entries)) ds)))" for ds
      by (induction ds) (simp_all add: take_active [OF assms(2)] conj_commute)
    then show ?thesis using mset_by_group [of entries entries re_DownpipeID "kept entries (nat n)"] by simp
  qed
  have "mset (concat (map (\<lambda>d. map re_RunID (filter (\<lambda>e. re_DownpipeID e = d) entries)) ?ds)) = mset (map re_RunID entries)"
  proof -
    have "mset (concat (map (\<lambda>d. map re_RunID (filter (\<lambda>e. re_DownpipeID e = d) entries)) ds))
        = image_mset re_RunID (mset (concat (map (\<lambda>d. filter (\<lambda>e. re_DownpipeID e = d) entries) ds)))" for ds
      by (induction ds) simp_all
    then show ?thesis using mset_by_group [of entries entries re_DownpipeID "\<lambda>_. True"] by simp
  qed
  with all keep have "image_mset re_RunID (mset (filter (kept entries (nat n)) entries)) + mset D
      = image_mset re_RunID (mset entries)" by simp
  also have "mset entries = mset (filter (kept entries (nat n)) entries) + mset (filter (\<lambda>e. \<not> kept entries (nat n) e) entries)"
    by (simp add: multiset_partition [symmetric])
  finally have drop: "mset D = mset (map re_RunID (filter (\<lambda>e. \<not> kept entries (nat n) e) entries))"
    by (simp only: image_mset_union mset_map add_left_cancel)
  have eq: "sort xs = sort ys" if "mset xs = mset ys" for xs ys :: "string list"
    using that by (intro properties_for_sort) simp_all
  show ?thesis using assms(1) by (simp add: Partition_def D eq [OF keep] eq [OF drop])
qed

lemma Compute_Inr:
  assumes "Compute retained superseded = Inr plan"
  shows "\<forall>r \<in> set retained. rr_Complete r"
    and "set (pl_OrphanSegments plan) =
      (\<Union>r \<in> {r \<in> set superseded. rr_Complete r}. set (rr_Objects r)) - (\<Union>r \<in> set retained. set (rr_Objects r))"
    and "set (pl_SupersededRuns plan) = rr_RunID ` {r \<in> set superseded. rr_Complete r}"
    and "sorted (pl_OrphanSegments plan)" "distinct (pl_OrphanSegments plan)"
    and "pl_SkippedSuperseded plan = sort (map rr_RunID (filter (\<lambda>r. \<not> rr_Complete r) superseded))"
    and "rid \<in> set (pl_SupersededRuns plan) \<Longrightarrow> \<exists>r \<in> set superseded. rr_Complete r \<and> rr_RunID r = rid
      \<and> set (run_orphans plan rid) = set (rr_Objects r) - (\<Union>r \<in> set retained. set (rr_Objects r))"
proof -
  let ?live = "concat (map rr_Objects (sort_key rr_RunID retained))"
  have lv: "set ?live = (\<Union>r \<in> set retained. set (rr_Objects r))" by simp
  have c: "\<forall>r \<in> set retained. rr_Complete r"
    using assms by (auto simp: Compute_def live_objects_ok Let_def split: if_splits)
  show "\<forall>r \<in> set retained. rr_Complete r" by (rule c)
  let ?readable = "filter rr_Complete (sort_key rr_RunID superseded)"
  have plan: "plan = \<lparr>pl_OrphanSegments = sort (filter (\<lambda>obj. obj \<notin> set ?live) (remdups (concat (map rr_Objects ?readable)))),
               pl_SupersededRuns = map rr_RunID ?readable,
               pl_SkippedSuperseded = map rr_RunID (filter (\<lambda>r. \<not> rr_Complete r) (sort_key rr_RunID superseded)),
               pl_OrphansByRun = foldl (\<lambda>m r. m(rr_RunID r \<mapsto> sort (filter (\<lambda>obj. obj \<notin> set ?live) (rr_Objects r))))
                                   Map.empty ?readable\<rparr>"
    using assms c by (simp add: Compute_def live_objects_ok Let_def)
  show "set (pl_OrphanSegments plan) =
      (\<Union>r \<in> {r \<in> set superseded. rr_Complete r}. set (rr_Objects r)) - (\<Union>r \<in> set retained. set (rr_Objects r))"
    unfolding plan using lv by auto
  show "set (pl_SupersededRuns plan) = rr_RunID ` {r \<in> set superseded. rr_Complete r}"
    unfolding plan by auto
  show "sorted (pl_OrphanSegments plan)" "distinct (pl_OrphanSegments plan)"
    unfolding plan by simp_all
  show "pl_SkippedSuperseded plan = sort (map rr_RunID (filter (\<lambda>r. \<not> rr_Complete r) superseded))"
    unfolding plan by (auto intro!: properties_for_sort [symmetric] sorted_filter)
  assume "rid \<in> set (pl_SupersededRuns plan)"
  then have ne: "filter (\<lambda>r. rr_RunID r = rid) (rev ?readable) \<noteq> []"
    unfolding plan by (auto simp: filter_empty_conv)
  then obtain r rest where r: "filter (\<lambda>r. rr_RunID r = rid) (rev ?readable) = r # rest"
    by (cases "filter (\<lambda>r. rr_RunID r = rid) (rev ?readable)") simp_all
  then have "r \<in> set (filter (\<lambda>r. rr_RunID r = rid) (rev ?readable))" by simp
  moreover have "run_orphans plan rid = sort (filter (\<lambda>obj. obj \<notin> set ?live) (rr_Objects r))"
    unfolding plan run_orphans_def
    by (simp only: Plan.simps orphans_by_run [where f = rr_RunID and g = "\<lambda>r. sort (filter (\<lambda>obj. obj \<notin> set ?live) (rr_Objects r))"]
        r list.case option.case)
  ultimately show "\<exists>r \<in> set superseded. rr_Complete r \<and> rr_RunID r = rid
      \<and> set (run_orphans plan rid) = set (rr_Objects r) - (\<Union>r \<in> set retained. set (rr_Objects r))"
    by (intro bexI [of _ r]) auto
qed

definition ex_entry :: "int \<Rightarrow> string \<Rightarrow> string \<Rightarrow> RunlogEntry" where
  "ex_entry i rid status = \<lparr>re_Index = i, re_RunID = rid, re_DownpipeID = ''dp'', re_Time = '''',
     re_RecordCount = 0, re_PrevRunID = None, re_Status = status\<rparr>"

theorem Partition_spec_witness:
  "Partition [ex_entry 1 ''a'' '''', ex_entry 3 ''c'' ''superseded'', ex_entry 2 ''b'' ''''] 1 = Inr ([''b''], [''a'', ''c''])"
  using Partition_spec [of 1 "[ex_entry 1 ''a'' '''', ex_entry 3 ''c'' ''superseded'', ex_entry 2 ''b'' '''']"]
  by (simp add: ex_entry_def kept_def)

text \<open>
  Abstention: a plan is computed exactly when every retained run was enumerated completely.
  Otherwise the error names the retained run with the least identifier that was not, and carries its
  reason, whatever the order of the caller's list and whatever the state of the superseded runs.
\<close>
theorem Compute_abstains:
  assumes "distinct (map rr_RunID retained)"
  shows "if \<forall>r \<in> set retained. rr_Complete r then \<exists>plan. Compute retained superseded = Inr plan
    else \<exists>r \<in> set retained. \<not> rr_Complete r
      \<and> Compute retained superseded = Inl (Abstain (rr_RunID r) (rr_Reason r))
      \<and> (\<forall>r' \<in> set retained. \<not> rr_Complete r' \<longrightarrow> rr_RunID r \<le> rr_RunID r')"
proof (cases "\<forall>r \<in> set retained. rr_Complete r")
  case True
  then show ?thesis by (simp add: Compute_def live_objects_ok Let_def)
next
  case False
  let ?r = "hd (filter (\<lambda>r. \<not> rr_Complete r) (sort_key rr_RunID retained))"
  have "?r \<in> set (sort_key rr_RunID retained) \<and> \<not> rr_Complete ?r
      \<and> (\<forall>x \<in> set (sort_key rr_RunID retained). \<not> rr_Complete x \<longrightarrow> rr_RunID ?r \<le> rr_RunID x)"
    using False by (intro hd_filter_least) auto
  moreover have "Compute retained superseded = Inl (Abstain (rr_RunID ?r) (rr_Reason ?r))"
    using False by (simp add: Compute_def live_objects_ok Let_def)
  ultimately show ?thesis using False by (auto intro!: bexI [of _ ?r])
qed

definition ex_retained :: "RunRefs list" where
  "ex_retained = [\<lparr>rr_RunID = ''c'', rr_Objects = [''s1''], rr_Complete = True, rr_Reason = ''''\<rparr>]"

definition ex_superseded :: "RunRefs list" where
  "ex_superseded = [\<lparr>rr_RunID = ''b'', rr_Objects = [''s1'', ''s2''], rr_Complete = True, rr_Reason = ''''\<rparr>,
     \<lparr>rr_RunID = ''a'', rr_Objects = [], rr_Complete = False, rr_Reason = ''wrong key''\<rparr>]"

definition ex_store :: destination where
  "ex_store = \<lparr>ds_Delete = Some (\<lambda>h k. None), ds_List = Some (\<lambda>h p. Inr [p @ ''root'', ''run/x/root''])\<rparr>"

definition ex_plan :: Plan where
  "ex_plan = \<lparr>pl_OrphanSegments = [''s2''], pl_SupersededRuns = [''b''], pl_SkippedSuperseded = [''a''],
     pl_OrphansByRun = [''b'' \<mapsto> [''s2'']]\<rparr>"

definition ex_result :: Result where
  "ex_result = zero_Result\<lparr>rs_SegmentsDeleted := 1, rs_RunObjectsDeleted := 1, rs_PlannedSegments := 1, rs_PlannedRunObjects := 1\<rparr>"

lemma ex_Compute: "Compute ex_retained ex_superseded = Inr ex_plan"
  by (simp add: Compute_def ex_retained_def ex_superseded_def ex_plan_def Let_def)

lemma ex_Apply: "Apply ex_store ex_plan False = (Inr ex_result, [(''s2'', None), (''run/b/root'', None)])"
  by (simp add: Apply_def ex_store_def ex_plan_def Let_def zero_Result_def del_def RunTreePrefix_def ex_result_def)

theorem Compute_abstains_witness:
  "\<exists>r \<in> set (ex_superseded @ ex_retained). \<not> rr_Complete r
     \<and> Compute (ex_superseded @ ex_retained) [] = Inl (Abstain (rr_RunID r) (rr_Reason r))"
  using Compute_abstains [of "ex_superseded @ ex_retained" "[]"]
  by (simp add: ex_superseded_def ex_retained_def)

lemma kept_live:
  assumes "Compute retained superseded = Inr plan" "Apply store plan dryRun = (out, h)" "(k, o') \<in> set h"
  shows "\<not> dryRun \<and> (\<exists>r \<in> set superseded. rr_Complete r \<and>
      (k \<in> set (rr_Objects r) \<and> (\<forall>r' \<in> set retained. rr_Complete r' \<and> k \<notin> set (rr_Objects r'))
       \<or> prefix (RunTreePrefix (rr_RunID r)) k
         \<and> (\<forall>seg \<in> set (rr_Objects r). (\<exists>r' \<in> set retained. seg \<in> set (rr_Objects r')) \<or> (seg, None) \<in> set h)))"
proof (cases dryRun)
  case True
  have "h = []"
  proof -
    have "snd (delete_trees store True plan gone (pl_SupersededRuns plan) (res, [])) = []" for gone res
      by (rule delete_trees_dry)
    then show ?thesis using assms(2) True by (auto simp: Apply_def Let_def dest: arg_cong [where f = snd])
  qed
  then show ?thesis using assms(3) by simp
next
  case False
  have "h \<noteq> []" using assms(3) by auto
  then obtain hs ht where h: "h = hs @ ht" "map fst hs = pl_OrphanSegments plan"
    and tree: "\<forall>k \<in> fst ` set ht. \<exists>runID \<in> set (pl_SupersededRuns plan). prefix (RunTreePrefix runID) k
         \<and> set (run_orphans plan runID) \<subseteq> set (deletes_of hs)"
  proof -
    have "Apply store plan False = (out, h)" using assms(2) False by simp
    from Apply_run [OF this] \<open>h \<noteq> []\<close> that show ?thesis by metis
  qed
  note c = Compute_Inr [OF assms(1)]
  consider "(k, o') \<in> set hs" | "(k, o') \<in> set ht" using assms(3) h(1) by auto
  then show ?thesis
  proof cases
    case 1
    then have "k \<in> set (pl_OrphanSegments plan)" using h(2) by (metis fst_conv image_eqI set_map)
    then show ?thesis using c(1,2) False by auto
  next
    case 2
    then have "k \<in> fst ` set ht" by force
    then obtain runID where run: "runID \<in> set (pl_SupersededRuns plan)" "prefix (RunTreePrefix runID) k"
      "set (run_orphans plan runID) \<subseteq> set (deletes_of hs)" using tree by blast
    obtain r where r: "r \<in> set superseded" "rr_Complete r" "rr_RunID r = runID"
      "set (run_orphans plan runID) = set (rr_Objects r) - (\<Union>r \<in> set retained. set (rr_Objects r))"
      using c(7) [OF run(1)] by blast
    have "(seg, None) \<in> set h" if "seg \<in> set (deletes_of hs)" for seg
      using that h(1) by (auto simp: deletes_of_def)
    moreover have "seg \<in> set (run_orphans plan runID)"
      if "seg \<in> set (rr_Objects r)" "\<not> (\<exists>r' \<in> set retained. seg \<in> set (rr_Objects r'))" for seg
      using that r(4) by auto
    ultimately have "\<forall>seg \<in> set (rr_Objects r). (\<exists>r' \<in> set retained. seg \<in> set (rr_Objects r')) \<or> (seg, None) \<in> set h"
      using run(3) by blast
    then show ?thesis using run(2) r(1,2,3) False by blast
  qed
qed



lemma Apply_totals:
  assumes "Apply store plan False = (Inr res, h)"
  shows "rs_PlannedSegments res + rs_PlannedRunObjects res
      = rs_SegmentsDeleted res + rs_RunObjectsDeleted res + length (rs_Refused res) + length (rs_Failed res) + rs_HeldRunObjects res"
    and "rs_SegmentsDeleted res + rs_RunObjectsDeleted res = length (deletes_of h)"
    and "\<not> Incomplete res \<longleftrightarrow> map fst h = deletes_of h \<and> rs_HeldRunObjects res = 0"
proof -
  obtain hs ht where "h = hs @ ht" and acc: "accounted res = length h" "rs_PlannedSegments res = length hs"
    "rs_PlannedRunObjects res = length ht + rs_HeldRunObjects res"
    "rs_SegmentsDeleted res = length (deletes_of hs)" "rs_RunObjectsDeleted res = length (deletes_of ht)"
    using Apply_run [OF assms] by auto
  then show "rs_PlannedSegments res + rs_PlannedRunObjects res
      = rs_SegmentsDeleted res + rs_RunObjectsDeleted res + length (rs_Refused res) + length (rs_Failed res) + rs_HeldRunObjects res"
    by (simp add: accounted_def)
  show del: "rs_SegmentsDeleted res + rs_RunObjectsDeleted res = length (deletes_of h)"
    using acc \<open>h = hs @ ht\<close> by (simp add: deletes_of_append)
  have "map fst h = deletes_of h \<longleftrightarrow> length (deletes_of h) = length h"
  proof -
    have "length (deletes_of h) = length h \<Longrightarrow> filter (\<lambda>(k, o'). o' = None) h = h"
      by (metis deletes_of_def filter_id_conv length_filter_less length_map nat_neq_iff)
    then show ?thesis by (metis deletes_of_def length_map)
  qed
  then show "\<not> Incomplete res \<longleftrightarrow> map fst h = deletes_of h \<and> rs_HeldRunObjects res = 0"
    using acc(1) del by (auto simp: Incomplete_def accounted_def)
qed

text \<open>
  The accounting of an applied pass: when it returns a result, the planned objects are exactly the
  ones deleted, refused, failed or held, the attempts recorded are exactly the first three, and the
  pass is complete only if every attempt removed its object and none was held.
\<close>
theorem Apply_accounts:
  assumes "Apply store plan False = (Inr res, h)"
  shows "rs_PlannedSegments res + rs_PlannedRunObjects res
      = rs_SegmentsDeleted res + rs_RunObjectsDeleted res + length (rs_Refused res) + length (rs_Failed res) + rs_HeldRunObjects res
    \<and> rs_SegmentsDeleted res + rs_RunObjectsDeleted res = length (deletes_of h)
    \<and> (\<not> Incomplete res \<longleftrightarrow> map fst h = deletes_of h \<and> rs_HeldRunObjects res = 0)"
  using Apply_totals [OF assms] by blast

theorem Apply_accounts_witness: "\<not> Incomplete ex_result"
  using Apply_accounts [OF ex_Apply] by (simp add: deletes_of_def ex_result_def zero_Result_def)

end
