(* ===== verification/PruneReceipt.thy ===== *)
theory PruneReceipt
  imports Prune
begin

text \<open>
  \<open>internal/prune/receipt.go\<close>: the operator's record of a prune pass. The intent is written before the
  first delete and the outcome after the last one, each time atomically. Writing is the sequence of
  file operations of the code over the visible contents of the directory; every operation may fail,
  a failing write may leave any part of the bytes behind, and the states in between are kept, since a
  pass that is stopped leaves one of them.
\<close>

section \<open>The record\<close>

definition StatusStarted :: string where
  "StatusStarted = ''started''"

definition StatusCompleted :: string where
  "StatusCompleted = ''completed''"

definition ReceiptVersion :: int where
  "ReceiptVersion = 2"

definition refusedSample :: nat where
  "refusedSample = 100"

record PruneReceipt =
  pr_Version :: int
  pr_Status :: string
  pr_Mode :: string
  pr_Destination :: string
  pr_StartedAt :: string
  pr_CompletedAt :: string
  pr_KeepPerDownpipe :: int
  pr_RunsKept :: int
  pr_SupersededRuns :: "string list"
  pr_PlannedSegments :: nat
  pr_PlannedRunObjects :: nat
  pr_RunObjectsUnknown :: bool
  pr_SegmentsDeleted :: nat
  pr_RunObjectsDeleted :: nat
  pr_RefusedCount :: nat
  pr_RefusedSample :: "string list"
  pr_RefusedLockNamedCount :: nat
  pr_FailedCount :: nat
  pr_FailedSample :: "string list"
  pr_HeldRunObjects :: nat

text \<open>The time is passed as its RFC 3339 text.\<close>

definition NewReceipt :: "string \<Rightarrow> string \<Rightarrow> int \<Rightarrow> int \<Rightarrow> Plan \<Rightarrow> string \<Rightarrow> PruneReceipt" where
  "NewReceipt dest mode keepPerDownpipe runsKept plan now =
     \<lparr>pr_Version = ReceiptVersion, pr_Status = StatusStarted, pr_Mode = mode, pr_Destination = dest,
      pr_StartedAt = now, pr_CompletedAt = '''', pr_KeepPerDownpipe = keepPerDownpipe, pr_RunsKept = runsKept,
      pr_SupersededRuns = pl_SupersededRuns plan, pr_PlannedSegments = length (pl_OrphanSegments plan),
      pr_PlannedRunObjects = 0, pr_RunObjectsUnknown = True, pr_SegmentsDeleted = 0, pr_RunObjectsDeleted = 0,
      pr_RefusedCount = 0, pr_RefusedSample = [], pr_RefusedLockNamedCount = 0, pr_FailedCount = 0,
      pr_FailedSample = [], pr_HeldRunObjects = 0\<rparr>"

definition boundedSample :: "string list \<Rightarrow> string list" where
  "boundedSample keys =
     (let n = length keys
      in if n = 0 then []
         else let n = (if n > refusedSample then refusedSample else n) in take n keys)"

definition receipt_complete :: "PruneReceipt \<Rightarrow> Result \<Rightarrow> string \<Rightarrow> PruneReceipt" where
  "receipt_complete r res now = r\<lparr>
     pr_Status := StatusCompleted,
     pr_CompletedAt := now,
     pr_PlannedSegments := rs_PlannedSegments res,
     pr_PlannedRunObjects := rs_PlannedRunObjects res,
     pr_RunObjectsUnknown := rs_RunObjectsUnknown res,
     pr_SegmentsDeleted := rs_SegmentsDeleted res,
     pr_RunObjectsDeleted := rs_RunObjectsDeleted res,
     pr_RefusedCount := length (rs_Refused res),
     pr_RefusedSample := boundedSample (rs_Refused res),
     pr_RefusedLockNamedCount := rs_RefusedLockNamed res,
     pr_FailedCount := length (rs_Failed res),
     pr_FailedSample := boundedSample (rs_Failed res),
     pr_HeldRunObjects := rs_HeldRunObjects res\<rparr>"

definition Interrupted :: "PruneReceipt \<Rightarrow> bool" where
  "Interrupted r \<longleftrightarrow> pr_Status r = StatusStarted"

section \<open>Writing it\<close>

datatype receipt_error =
    CreateTempFile string string
  | EncodeReceipt string
  | WriteReceipt string
  | FlushReceipt string
  | CloseReceipt string
  | PlaceReceipt string string
  | OpenReceiptDir string string
  | FlushReceiptDir string string
  | ReadReceiptFile string
  | ParseReceipt string string
  | ReceiptVersionUnknown string int

text \<open>
  How the operations on the file system end: \<open>None\<close> is success. A write that fails has written the
  given number of bytes.
\<close>

record os_outcome =
  oo_create :: "string option"
  oo_write :: "(nat \<times> string) option"
  oo_sync :: "string option"
  oo_close :: "string option"
  oo_rename :: "string option"
  oo_opendir :: "string option"
  oo_syncdir :: "string option"

type_synonym directory = "string \<rightharpoonup> bytes"

text \<open>
  The states a reader of the directory can see, oldest first. \<open>body\<close> is the encoded receipt or the
  encoder's error; \<open>tmpName\<close> the name \<open>os.CreateTemp\<close> picked; the deferred removal of the temporary
  file runs on every path after its creation.
\<close>

definition receipt_write ::
  "os_outcome \<Rightarrow> string \<Rightarrow> string \<Rightarrow> string \<Rightarrow> string + bytes \<Rightarrow> directory \<Rightarrow> receipt_error option \<times> directory list" where
  "receipt_write os dir tmpName path body fs =
     (case oo_create os of
        Some e \<Rightarrow> (Some (CreateTempFile dir e), [fs])
      | None \<Rightarrow>
        let fs1 = fs(tmpName \<mapsto> []) in
        case body of
          Inl e \<Rightarrow> (Some (EncodeReceipt e), [fs, fs1, fs1(tmpName := None)])
        | Inr b0 \<Rightarrow>
          let b = b0 @ [0x0A] in
          case oo_write os of
            Some (n, e) \<Rightarrow>
              let fs2 = fs1(tmpName \<mapsto> take n b)
              in (Some (WriteReceipt e), [fs, fs1, fs2, fs2(tmpName := None)])
          | None \<Rightarrow>
            let fs2 = fs1(tmpName \<mapsto> b) in
            case oo_sync os of
              Some e \<Rightarrow> (Some (FlushReceipt e), [fs, fs1, fs2, fs2(tmpName := None)])
            | None \<Rightarrow>
              (case oo_close os of
                 Some e \<Rightarrow> (Some (CloseReceipt e), [fs, fs1, fs2, fs2(tmpName := None)])
               | None \<Rightarrow>
                 (case oo_rename os of
                    Some e \<Rightarrow> (Some (PlaceReceipt path e), [fs, fs1, fs2, fs2(tmpName := None)])
                  | None \<Rightarrow>
                    let fs3 = (fs2(tmpName := None))(path \<mapsto> b);
                        fs4 = fs3(tmpName := None)
                    in (case oo_opendir os of
                          Some e \<Rightarrow> (Some (OpenReceiptDir dir e), [fs, fs1, fs2, fs3, fs4])
                        | None \<Rightarrow>
                          (case oo_syncdir os of
                             Some e \<Rightarrow> (Some (FlushReceiptDir dir e), [fs, fs1, fs2, fs3, fs4])
                           | None \<Rightarrow> (None, [fs, fs1, fs2, fs3, fs4]))))))"

text \<open>\<open>decode\<close> is the JSON decoding of a receipt.\<close>

definition ReadReceipt :: "(bytes \<Rightarrow> string + PruneReceipt) \<Rightarrow> string \<Rightarrow> string + bytes \<Rightarrow> receipt_error + PruneReceipt" where
  "ReadReceipt decode path file =
     rbind (map_err ReadReceiptFile file) (\<lambda>body.
     rbind (map_err (ParseReceipt path) (decode body)) (\<lambda>r.
       if pr_Version r \<noteq> 1 \<and> pr_Version r \<noteq> ReceiptVersion
       then Inl (ReceiptVersionUnknown path (pr_Version r)) else Inr r))"

section \<open>Properties\<close>

lemma boundedSample_eq: "boundedSample keys = take refusedSample keys"
  by (auto simp: boundedSample_def Let_def)

text \<open>
  The two phases of the receipt of an applied pass: the record written first is marked as not
  finished, does not claim to have measured the run trees and already carries the number of segments
  the finished one reports; the finished one is marked so, and its counts are those of the attempts the
  pass made on the destination, the samples being bounded.
\<close>
theorem receipt_two_phases:
  assumes "Apply store plan False = (Inr res, h)"
    and "r = NewReceipt dest mode n runsKept plan started"
    and "c = receipt_complete r res finished"
  shows "Interrupted r \<and> \<not> Interrupted c \<and> pr_RunObjectsUnknown r
    \<and> pr_PlannedSegments c = pr_PlannedSegments r \<and> pr_SupersededRuns c = pl_SupersededRuns plan
    \<and> pr_SegmentsDeleted c + pr_RunObjectsDeleted c = length (deletes_of h)
    \<and> pr_RefusedCount c + pr_FailedCount c = length h - length (deletes_of h)
    \<and> pr_PlannedSegments c + pr_PlannedRunObjects c = length h + pr_HeldRunObjects c
    \<and> length (pr_RefusedSample c) \<le> 100 \<and> length (pr_FailedSample c) \<le> 100"
proof -
  have st: "StatusStarted \<noteq> StatusCompleted" by (simp add: StatusStarted_def StatusCompleted_def)
  obtain hs ht where a: "h = hs @ ht" "map fst hs = pl_OrphanSegments plan" "accounted res = length h"
    "rs_PlannedSegments res = length hs" "rs_PlannedRunObjects res = length ht + rs_HeldRunObjects res"
    "rs_SegmentsDeleted res = length (deletes_of hs)" "rs_RunObjectsDeleted res = length (deletes_of ht)"
    using Apply_run [OF assms(1)] by auto
  have "length (pl_OrphanSegments plan) = length hs" by (metis a(2) length_map)
  with a show ?thesis using st
    by (auto simp: assms(2,3) NewReceipt_def receipt_complete_def Interrupted_def deletes_of_append
        accounted_def boundedSample_eq refusedSample_def)
qed

theorem receipt_two_phases_witness:
  "Interrupted (NewReceipt ''d'' ''apply'' 1 1 ex_plan ''t'')
   \<and> \<not> Interrupted (receipt_complete (NewReceipt ''d'' ''apply'' 1 1 ex_plan ''t'') ex_result ''u'')"
  using receipt_two_phases [OF ex_Apply refl refl, of "''d''" "''apply''" 1 1 "''t''" "''u''"] by blast

text \<open>
  Writing a receipt is atomic: in every state a reader can see, the receipt's path holds either what
  it held before or the complete new record, never a part of it, whichever operation fails; no other
  file of the directory changes and no temporary file is left; and a write that reports success has
  put the new record in place.
\<close>
theorem receipt_write_atomic:
  assumes "tmpName \<notin> dom fs" "tmpName \<noteq> path" "receipt_write os dir tmpName path (Inr b) fs = (err, states)"
  shows "states \<noteq> [] \<and> hd states = fs
    \<and> (\<forall>s \<in> set states. s path = fs path \<or> s path = Some (b @ [0x0A]))
    \<and> (\<forall>s \<in> set states. \<forall>f. f \<noteq> path \<longrightarrow> f \<noteq> tmpName \<longrightarrow> s f = fs f)
    \<and> (last states) tmpName = None
    \<and> (err = None \<longrightarrow> (last states) path = Some (b @ [0x0A]))"
  using assms
  by (auto simp: receipt_write_def Let_def split: option.splits prod.splits)

definition ex_disk_full :: os_outcome where
  "ex_disk_full = \<lparr>oo_create = None, oo_write = Some (3, ''disk full''), oo_sync = None, oo_close = None,
      oo_rename = None, oo_opendir = None, oo_syncdir = None\<rparr>"

theorem receipt_write_atomic_witness:
  "list_all (\<lambda>s. s ''r'' = Some [9] \<or> s ''r'' = Some [1, 2, 3, 4, 0x0A])
     (snd (receipt_write ex_disk_full ''d'' ''t'' ''r'' (Inr [1, 2, 3, 4]) [''r'' \<mapsto> [9]]))"
  using receipt_write_atomic [where fs = "[''r'' \<mapsto> [9]]" and tmpName = "''t''" and path = "''r''" and os = ex_disk_full
      and dir = "''d''" and b = "[1, 2, 3, 4]", OF _ _ prod.collapse [symmetric]]
  by (auto simp: list_all_iff)

end
