(* ===== verification/Verify.thy ===== *)
theory Verify
  imports Store Merkle
begin

text \<open>
  \<open>internal/format/record.go\<close>, \<open>shard.go\<close> and \<open>verify.go\<close>: the record hash, the sealed shard manifest,
  and the gates every reader applies to a root and its shards.
\<close>

section \<open>Records\<close>

definition recordIDDigits :: nat where "recordIDDigits = 15"

definition ValidateRecordID :: "string \<Rightarrow> goerr + unit" where
  "ValidateRecordID rid =
     (if length rid \<noteq> recordIDDigits + 1 then
        Inl (Errorf ''recordId %q must be %d ASCII bytes (r plus %d digits), got %d''
               [AStr rid, AInt (int recordIDDigits + 1), AInt (int recordIDDigits), AInt (int (length rid))])
      else if hd rid \<noteq> CHR ''r'' then Inl (Errorf ''recordId %q must begin with the letter r'' [AStr rid])
      else if \<not> list_all is_digit (tl rid) then
        Inl (Errorf ''recordId %q must be r followed by %d decimal digits'' [AStr rid, AInt (int recordIDDigits)])
      else Inr ())"

definition record_message :: "string \<Rightarrow> bytes \<Rightarrow> bytes \<Rightarrow> 64 word \<Rightarrow> bytes" where
  "record_message rid psha knh n =
     bytes_of (Version @ '' record-hash'') @ bytes_of rid @ psha @ knh @ put_uint64 n"

definition RecordHashOf :: "ShardRecord \<Rightarrow> goerr + bytes" where
  "RecordHashOf r =
     rbind (map_err (\<lambda>err. Errorf ''record %s plaintextSha384: %w'' [AStr (sr_RecordID r), AWrap err])
              (hex_DecodeString (sr_PlaintextSHA r))) (\<lambda>psha.
     rbind (map_err (\<lambda>err. Errorf ''record %s keyNameHash: %w'' [AStr (sr_RecordID r), AWrap err])
              (hex_DecodeString (sr_KeyNameHash r))) (\<lambda>knh.
       Inr (sha384 (record_message (sr_RecordID r) psha knh (word_of_int (sr_PlaintextSize r))))))"

section \<open>Sealed shard manifests\<close>

definition toKey :: "bytes \<Rightarrow> bytes" where
  "toKey b = first32 b"

definition recordCountPaths :: "string list" where
  "recordCountPaths = [''plaintextSize'', ''segments[].packed?.offset'', ''segments[].packed?.length'',
     ''segments[].chunkRange[]'']"

definition SealShard :: "ShardPreamble \<Rightarrow> ShardRecord list \<Rightarrow> bytes \<Rightarrow> bytes \<Rightarrow> goerr + bytes \<times> string" where
  "SealShard preamble records wrapKey nonce =
     (let preamble = preamble\<lparr>sp_Kind := ''preamble'', sp_RecordCountInShard := int (length records)\<rparr>
      in rbind (map_err (\<lambda>err. Errorf ''canonicalise shard preamble: %w'' [AWrap err])
                  (CanonicalJSON (goval_ShardPreamble preamble))) (\<lambda>pre.
         rbind (mapr (\<lambda>r. map_err (\<lambda>err. Errorf ''canonicalise record %s: %w'' [AStr (sr_RecordID r), AWrap err])
                  (CanonicalJSON (goval_ShardRecord (r\<lparr>sr_Kind := ''record''\<rparr>)))) records) (\<lambda>ls.
         rbind (map_err (\<lambda>err. Errorf ''seal shard: %w'' [AWrap (StreamErr err)])
                  (SealStream (toKey wrapKey) (pre @ [0x0A] @ concat (map (\<lambda>l. l @ [0x0A]) ls)) nonce)) (\<lambda>body.
           let sealed = FrameContainer MagicDpe body in Inr (sealed, SHA384Hex sealed)))))"

definition parse_shard_record :: "bytes \<Rightarrow> goerr + ShardRecord" where
  "parse_shard_record line =
     rbind (validateCounts line recordCountPaths) (\<lambda>_.
     rbind (of_opt (Errorf ''parse shard record: %w'' [AWrap (JsonErr ''shard record'')])
              (Unmarshal (dec_struct ShardRecord_fields) zero_ShardRecord (string_of line))) (\<lambda>r.
       if sr_Kind r \<noteq> ''record'' then Inl (Errorf ''shard line is not a record (kind %q)'' [AStr (sr_Kind r)])
       else Inr r))"

definition parse_shard_preamble :: "bytes \<Rightarrow> goerr + ShardPreamble" where
  "parse_shard_preamble line =
     rbind (validateCounts line [''recordCountInShard'']) (\<lambda>_.
     rbind (of_opt (Errorf ''parse shard preamble: %w'' [AWrap (JsonErr ''shard preamble'')])
              (Unmarshal (dec_struct ShardPreamble_fields) zero_ShardPreamble (string_of line))) (\<lambda>p.
       if sp_Kind p \<noteq> ''preamble'' then Inl (Errorf ''first shard line is not a preamble (kind %q)'' [AStr (sp_Kind p)])
       else Inr p))"

definition OpenShard :: "bytes \<Rightarrow> bytes \<Rightarrow> goerr + ShardPreamble \<times> ShardRecord list" where
  "OpenShard sealed wrapKey =
     rbind (map_err (\<lambda>err. Errorf ''open shard: %w'' [AWrap (ContainerErr err)]) (UnframeContainer MagicDpe sealed)) (\<lambda>body.
     rbind (map_err (\<lambda>err. Errorf ''open shard: %w'' [AWrap (StreamErr err)]) (OpenStream (toKey wrapKey) body)) (\<lambda>plain.
       case filter (\<lambda>l. length l > 0) (split_bytes 0x0A plain) of
         [] \<Rightarrow> Inl (Errorf ''shard manifest is empty'' [])
       | l0 # ls \<Rightarrow>
           rbind (parse_shard_preamble l0) (\<lambda>preamble.
           rbind (mapr parse_shard_record ls) (\<lambda>records.
             if sp_RecordCountInShard preamble \<noteq> int (length records) then
               Inl (Errorf ''shard declares %d records but carries %d''
                      [AInt (sp_RecordCountInShard preamble), AInt (int (length records))])
             else Inr (preamble, records)))))"

section \<open>Freshness\<close>

definition checkFreshness ::
  "pk_lib \<Rightarrow> ObjectStore \<Rightarrow> string \<Rightarrow> RootManifest \<Rightarrow> HybridVerifier \<Rightarrow> int \<Rightarrow> FreshnessResult \<times> goerr option" where
  "checkFreshness L store runID rootm signer minIndex =
     (case GetLimited store ''_RECOVERY/RUNLOG'' MaxRunlogBytes of
        Inl err \<Rightarrow>
          (let cause = Errorf ''read runlog: %w'' [AWrap err]
           in (uncheckedFreshness cause,
               Some (codedGet ExitStale (Errorf ''%w: %w'' [AWrap ErrFreshnessUnchecked, AWrap cause]))))
      | Inr runlogBytes \<Rightarrow>
     (case GetLimited store ''_RECOVERY/RUNLOG.sig'' MaxSignatureBytes of
        Inl err \<Rightarrow>
          (let cause = Errorf ''read runlog signature: %w'' [AWrap err]
           in (uncheckedFreshness cause,
               Some (codedGet ExitStale (Errorf ''%w: %w'' [AWrap ErrFreshnessUnchecked, AWrap cause]))))
      | Inr sigText \<Rightarrow> CheckFreshness L runlogBytes sigText runID rootm signer minIndex))"

section \<open>The master key and the recipients\<close>

definition identityIsBreakGlass :: "pk_lib \<Rightarrow> RootManifest \<Rightarrow> HybridKEMPrivate \<Rightarrow> bool" where
  "identityIsBreakGlass L rootm recipient =
     (let idFP = RecipientFingerprint (PublicOf L recipient)
      in list_ex (\<lambda>rc. rp_Role rc = ''break-glass'' \<and> rp_Fingerprint rc = idFP) (rm_Recipients rootm))"

definition wantedRecipients :: "RootManifest \<Rightarrow> RecipientDesc list" where
  "wantedRecipients rootm = map (\<lambda>rc. \<lparr>rd_Role = rp_Role rc, rd_Fingerprint = rp_Fingerprint rc\<rparr>) (rm_Recipients rootm)"

definition decode_wrap :: "CapsuleWrap \<Rightarrow> goerr + WrappedKey" where
  "decode_wrap w =
     rbind (map_err (\<lambda>err. Errorf ''decode capsule ciphertext: %w'' [AWrap err]) (B64Decode (cw_KEMCiphertext w))) (\<lambda>ct.
     rbind (map_err (\<lambda>err. Errorf ''decode capsule wrap: %w'' [AWrap err]) (B64Decode (cw_Sealed w))) (\<lambda>sealed.
       Inr \<lparr>wk_Fingerprint = cw_Fingerprint w, wk_KEMCiphertext = ct, wk_Sealed = sealed\<rparr>))"

definition unwrapMaster :: "pk_lib \<Rightarrow> RootManifest \<Rightarrow> HybridKEMPrivate \<Rightarrow> goerr + bytes" where
  "unwrapMaster L rootm recipient =
     rbind (map_err (\<lambda>err. Errorf ''decode key commitment: %w'' [AWrap err]) (hex_DecodeString (rm_KeyCommitment rootm))) (\<lambda>capsuleAAD.
     rbind (mapr decode_wrap (rm_MasterCapsule rootm)) (\<lambda>wraps.
       map_err (\<lambda>err. Errorf ''unwrap master capsule: %w'' [AWrap (CryptoErr err)])
         (OpenCapsule L wraps recipient capsuleAAD (wantedRecipients rootm))))"

definition checkKeyCommitment :: "RootManifest \<Rightarrow> bytes \<Rightarrow> bytes \<Rightarrow> goerr + unit" where
  "checkKeyCommitment rootm master runIDBytes =
     rbind (map_err (\<lambda>err. Errorf ''key commitment: %w'' [AWrap err]) (hex_DecodeString (rm_KeyCommitment rootm))) (\<lambda>want.
       if \<not> ConstantTimeEqual (KeyCommitment master runIDBytes) want
       then Inl (Errorf ''key commitment does not match the run master'' [])
       else Inr ())"

text \<open>A map from strings to counts is a multiset: its keys are the elements, \<open>len\<close> is how many there are.\<close>

definition validate_recipient :: "pk_lib \<Rightarrow> HybridKEMPublic list \<times> string multiset \<times> nat \<Rightarrow> Recipient
    \<Rightarrow> goerr + HybridKEMPublic list \<times> string multiset \<times> nat" where
  "validate_recipient L st rc =
     (case st of (pubs, recipientFP, breakGlass) \<Rightarrow>
        rbind (map_err (\<lambda>err. Errorf ''recipient x25519: %w'' [AWrap err]) (B64Decode (rp_X25519 rc))) (\<lambda>x.
        rbind (map_err (\<lambda>err. Errorf ''recipient mlkem: %w'' [AWrap err]) (B64Decode (rp_MLKEM rc))) (\<lambda>m.
        rbind (map_err CryptoErr (NewHybridPublic L x m)) (\<lambda>pub.
          if RecipientFingerprint pub \<noteq> rp_Fingerprint rc
          then Inl (Errorf ''recipient fingerprint does not match its public key'' [])
          else Inr (pubs @ [pub], add_mset (rp_Fingerprint rc) recipientFP,
                    if rp_Role rc = ''break-glass'' then Suc breakGlass else breakGlass)))))"

definition validateRecipients :: "pk_lib \<Rightarrow> RootManifest \<Rightarrow> goerr + HybridKEMPublic list \<times> string multiset" where
  "validateRecipients L rootm =
     rbind (loopr (validate_recipient L) ([], {#}, 0) (rm_Recipients rootm)) (\<lambda>(pubs, recipientFP, breakGlass).
       if breakGlass \<noteq> 1
       then Inl (Errorf ''expected exactly one break-glass recipient, found %d'' [AInt (int breakGlass)])
       else Inr (pubs, recipientFP))"

definition verifyWrapCoverage :: "RootManifest \<Rightarrow> HybridKEMPublic list \<Rightarrow> string multiset \<Rightarrow> goerr + unit" where
  "verifyWrapCoverage rootm pubs recipientFP =
     rbind (loopr (\<lambda>wrapFP w.
              if cw_Fingerprint w \<notin># recipientFP
              then Inl (Errorf ''master-capsule wrap addresses an unlisted recipient'' [])
              else Inr (add_mset (cw_Fingerprint w) wrapFP)) {#} (rm_MasterCapsule rootm)) (\<lambda>wrapFP.
       if card (set_mset wrapFP) \<noteq> card (set_mset recipientFP)
       then Inl (Errorf ''master-capsule wraps do not cover the recipient set'' [])
       else rbind (map_err (\<lambda>err. Errorf ''recipient-set hash: %w'' [AWrap err]) (hex_DecodeString (rm_RecipientSetHash rootm))) (\<lambda>want.
         if \<not> ConstantTimeEqual (RecipientSetHash pubs) want
         then Inl (Errorf ''recipient-set hash does not match the listed recipients'' [])
         else Inr ()))"

definition checkRecipientSet :: "pk_lib \<Rightarrow> RootManifest \<Rightarrow> goerr + unit" where
  "checkRecipientSet L rootm =
     (if \<not> rm_BreakGlassPresent rootm
      then Inl (Errorf ''manifest does not declare a break-glass recipient present'' [])
      else rbind (validateRecipients L rootm) (\<lambda>(pubs, recipientFP). verifyWrapCoverage rootm pubs recipientFP))"

section \<open>The envelope and the record structure\<close>

definition knownCodecName :: "string \<Rightarrow> bool" where
  "knownCodecName name \<longleftrightarrow> name = CodecNameNone \<or> name = CodecNameGzip"

definition checkEnvelope :: "RootManifest \<Rightarrow> goerr + unit" where
  "checkEnvelope rootm =
     (let env = rm_Envelope rootm
      in rbind (loopr (\<lambda>_ (name, got, want).
                 if got \<noteq> want
                 then Inl (coded ExitUsage (Errorf ''envelope %s %q is not the downpipe/0.1.0 value %q (section 5.2)''
                             [AStr name, AStr got, AStr want]))
                 else Inr ()) ()
               [(''aead'', en_AEAD env, EnvelopeAEAD), (''kem'', en_KEM env, EnvelopeKEM),
                (''sig'', en_Signature env, EnvelopeSig), (''kdf'', en_KDF env, EnvelopeKDF)]) (\<lambda>_.
         if en_ChunkSize env \<noteq> int ChunkSize
         then Inl (coded ExitUsage (Errorf ''envelope chunkSize %d is not the downpipe/0.1.0 value %d (section 5.2)''
                     [AInt (en_ChunkSize env), AInt (int ChunkSize)]))
         else if \<not> knownCodecName (en_Codec env)
         then Inl (coded ExitUsage (Errorf ''envelope codec %q is outside the closed downpipe/0.1.0 set {none, gzip} (section 5.2)''
                     [AStr (en_Codec env)]))
         else Inr ()))"

definition checkRecordStructural :: "RootManifest \<Rightarrow> ShardRecord \<Rightarrow> goerr + unit" where
  "checkRecordStructural rootm r =
     (if \<not> IsKnownSourceType (sr_SourceType r) then
        Inl (coded ExitUsage (Errorf ''record %s has sourceType %q, which is outside the supported downpipe/0.1.0 set (section 12.1); a reader refuses an unknown source type''
               [AStr (sr_RecordID r), AStr (sr_SourceType r)]))
      else if sr_Codec r \<noteq> en_Codec (rm_Envelope rootm) then
        Inl (coded ExitUsage (Errorf ''record %s codec %q differs from the envelope codec %q''
               [AStr (sr_RecordID r), AStr (sr_Codec r), AStr (en_Codec (rm_Envelope rootm))]))
      else if \<not> knownCodecName (sr_Codec r) then
        Inl (coded ExitUsage (Errorf ''record %s codec %q is outside the closed downpipe/0.1.0 set {none, gzip} (section 7.5)''
               [AStr (sr_RecordID r), AStr (sr_Codec r)]))
      else if sr_SourceType r = SourceSecrets \<and> sr_Codec r \<noteq> CodecNameNone then
        Inl (coded ExitUsage (Errorf ''secrets record %s must not be compressed (section 5.2, 12.4)'' [AStr (sr_RecordID r)]))
      else Inr ())"

section \<open>Shards\<close>

definition openOneShardSized ::
  "goctx \<Rightarrow> ObjectStore \<Rightarrow> RootManifest \<Rightarrow> bytes \<Rightarrow> bytes \<Rightarrow> ShardRef
     \<Rightarrow> goerr + ShardPreamble \<times> ShardRecord list \<times> nat" where
  "openOneShardSized ctx store rootm mk runIDBytes sh =
     rbind (map_err (\<lambda>err. codedGet ExitIncomplete (Errorf ''read shard %s: %w'' [AStr (sh_ID sh), AWrap err]))
              (storeGet ctx store (sh_Object sh))) (\<lambda>shardBytes.
     if \<not> ConstantTimeEqual (bytes_of (SHA384Hex shardBytes)) (bytes_of (sh_SHA384 sh))
     then Inl (Errorf ''shard %s hash does not match the signed root'' [AStr (sh_ID sh)])
     else rbind (OpenShard shardBytes (DeriveManifestWrapKey mk runIDBytes (sh_ID sh))) (\<lambda>(preamble, recs).
       if sp_RunID preamble \<noteq> rm_RunID rootm \<or> sp_ShardID preamble \<noteq> sh_ID sh
            \<or> sp_FormatVersion preamble \<noteq> rm_FormatVersion rootm
       then Inl (Errorf ''shard %s preamble does not match the signed run'' [AStr (sh_ID sh)])
       else if sp_ManifestCodec preamble \<noteq> CodecNameNone then
         (if sp_ManifestCodec preamble = CodecNameGzip
          then Inl (coded ExitUsage (Errorf ''shard %s manifestCodec gzip is not implemented by this reader'' [AStr (sh_ID sh)]))
          else Inl (coded ExitUsage (Errorf ''shard %s manifestCodec %q is outside the closed downpipe/0.1.0 set {none, gzip}''
                      [AStr (sh_ID sh), AStr (sp_ManifestCodec preamble)])))
       else Inr (preamble, recs, length shardBytes)))"

definition openOneShard ::
  "goctx \<Rightarrow> ObjectStore \<Rightarrow> RootManifest \<Rightarrow> bytes \<Rightarrow> bytes \<Rightarrow> ShardRef \<Rightarrow> goerr + ShardPreamble \<times> ShardRecord list" where
  "openOneShard ctx store rootm mk runIDBytes sh =
     rbind (openOneShardSized ctx store rootm mk runIDBytes sh) (\<lambda>(preamble, recs, _). Inr (preamble, recs))"

definition openShards ::
  "ObjectStore \<Rightarrow> RootManifest \<Rightarrow> bytes \<Rightarrow> bytes \<Rightarrow> goerr + ShardPreamble list \<times> ShardRecord list" where
  "openShards store rootm master runIDBytes =
     (let mk = DeriveMK master runIDBytes
      in rbind (mapr (openOneShard Background store rootm mk runIDBytes) (rm_Shards rootm)) (\<lambda>opened.
         let preambles = map fst opened; records = concat (map snd opened)
         in rbind (loopr (\<lambda>_ r. checkRecordStructural rootm r) () records) (\<lambda>_.
              Inr (preambles, records))))"

definition check_record_hash :: "ShardRecord \<Rightarrow> goerr + bytes" where
  "check_record_hash r =
     rbind (map_err (coded ExitUnverified) (RecordHashOf r)) (\<lambda>rh.
     rbind (map_err (\<lambda>err. coded ExitUnverified (Errorf ''record %s recordHash: %w'' [AStr (sr_RecordID r), AWrap err]))
              (hex_DecodeString (sr_RecordHash r))) (\<lambda>stated.
       if \<not> ConstantTimeEqual rh stated
       then Inl (coded ExitUnverified (Errorf ''record %s hash does not match its fields'' [AStr (sr_RecordID r)]))
       else Inr rh))"

definition checkCompleteness :: "RootManifest \<Rightarrow> ShardRecord list \<Rightarrow> goerr + unit" where
  "checkCompleteness rootm records =
     (if rm_ShardCount rootm \<noteq> int (length (rm_Shards rootm)) then
        Inl (coded ExitUnverified (Errorf ''shardCount %d does not match the %d listed shards''
               [AInt (rm_ShardCount rootm), AInt (int (length (rm_Shards rootm)))]))
      else if int (length records) \<noteq> rm_DeclaredRecordCount rootm then
        Inl (coded ExitIncomplete (Errorf ''recovered %d records, the root declares %d''
               [AInt (int (length records)), AInt (rm_DeclaredRecordCount rootm)]))
      else rbind (mapr check_record_hash records) (\<lambda>leaves.
        rbind (map_err (\<lambda>err. coded ExitUnverified (Errorf ''merkle root: %w'' [AWrap err])) (hex_DecodeString (rm_MerkleRoot rootm))) (\<lambda>want.
          if \<not> ConstantTimeEqual (MerkleRoot leaves) want
          then Inl (coded ExitUnverified (Errorf ''merkle root does not match the recovered records'' []))
          else Inr ())))"

section \<open>The format version\<close>

definition ImplementedFormatVersions :: "string list" where
  "ImplementedFormatVersions = [''0.1'']"

definition readerSupportSummary :: string where
  "readerSupportSummary = join '', '' (map (\<lambda>unit. ''downpipe/'' @ unit @ ''.x'') ImplementedFormatVersions)"

definition isCanonicalVersionNumber :: "string \<Rightarrow> bool" where
  "isCanonicalVersionNumber s \<longleftrightarrow>
     s \<noteq> '''' \<and> list_all is_digit s \<and> (length s = 1 \<or> hd s \<noteq> CHR ''0'')"

definition allCanonicalVersionNumbers :: "string list \<Rightarrow> bool" where
  "allCanonicalVersionNumbers parts = list_all isCanonicalVersionNumber parts"

definition checkFormatVersion :: "string \<Rightarrow> goerr + unit" where
  "checkFormatVersion v =
     (if \<not> prefix ''downpipe/'' v
      then Inl (coded ExitUsage (Errorf ''formatVersion %q is not a downpipe version label'' [AStr v]))
      else (let parts = splitn (CHR ''.'') 3 (drop (length ''downpipe/'') v)
            in if length parts \<noteq> 3 \<or> \<not> allCanonicalVersionNumbers parts
               then Inl (coded ExitUsage (Errorf ''formatVersion %q is not a downpipe version label at all: after %q it must read MAJOR.MINOR.PATCH, with all three components present and each one a canonical decimal number, and this one does not. No downpipe reader implements it, because it does not name a version. Treat this root manifest as damaged or hand-edited, and check the archive's other copies before anything else''
                           [AStr v, AStr ''downpipe/'']))
               else (let unit = parts ! 0 @ ''.'' @ parts ! 1
                     in if unit \<in> set ImplementedFormatVersions then Inr ()
                        else Inl (coded ExitUsage (Errorf ''formatVersion %q: this reader implements %s and does not implement %s, so it will not read this archive. Nothing is wrong with the bytes and nothing has been lost, and nothing was written. Get a downpipe reader that implements %s: each release's CHANGELOG.md entry names the format versions that release reads (https://github.com/downpipes-io/downpipe). Do NOT re-run with --allow-unverified or any other override; no override reads a format this build does not implement''
                                [AStr v, AStr readerSupportSummary, AStr unit, AStr unit])))))"

definition ImplementsFormatVersion :: "string \<Rightarrow> bool" where
  "ImplementsFormatVersion v \<longleftrightarrow> checkFormatVersion v = Inr ()"

definition ReaderFormatSupport :: string where
  "ReaderFormatSupport = readerSupportSummary"

end
