(* ===== verification/Reader.thy ===== *)
theory Reader
  imports Verify
begin

text \<open>
  \<open>internal/format/reader.go\<close> and \<open>stream.go\<close>: opening a run, all records at once (\<open>Open\<close>) or in bounded
  memory (\<open>StreamOpen\<close>), and the walk over the shards. A callback that changes the caller's state is a
  function from that state to the new state and the error it returns. The walk with a prefetch window is
  given here by what its consumer does with the fetched shards; the goroutines are in \<open>Prefetch\<close>.
\<close>

section \<open>Options and outcome\<close>

record Options =
  op_MinRunlogIndex :: int
  op_AllowStale :: bool
  op_AllowUnverifiedRunlog :: bool
  op_AllowUnverified :: bool
  op_CheckRecoveryBundle :: bool
  op_FetchConcurrency :: int
  op_MaxMemoryBytes :: int

definition acknowledges :: "Options \<Rightarrow> FreshnessResult \<Rightarrow> bool" where
  "acknowledges opts fresh =
     (if op_AllowUnverified opts \<or> op_AllowUnverifiedRunlog opts then True
      else if fs_RunlogUntrusted fresh then False
      else op_AllowStale opts)"

record Outcome =
  oc_SignatureResult :: string
  oc_Completeness :: string
  oc_BreakGlassVerified :: bool
  oc_RecoveryBundleVerified :: bool
  oc_Mode :: string
  oc_Code :: int

definition Verified :: "Outcome \<Rightarrow> bool" where
  "Verified oc \<longleftrightarrow> oc_Code oc = 0"

definition initial_outcome :: "Options \<Rightarrow> Outcome" where
  "initial_outcome opts = \<lparr>oc_SignatureResult = ''valid'', oc_Completeness = ''complete'', oc_BreakGlassVerified = False,
     oc_RecoveryBundleVerified = False, oc_Mode = (if op_AllowUnverified opts then ''allow-unverified'' else ''verified''),
     oc_Code = 0\<rparr>"

section \<open>Gates\<close>

definition hint_fields :: "string fields" where
  "hint_fields = [fld ''signingKeyFingerprint'' dec_string (\<lambda>m. m) (\<lambda>f. f)]"

definition signerMismatchHint :: "bytes \<Rightarrow> HybridVerifier \<Rightarrow> string" where
  "signerMismatchHint rootBytes signer =
     (case Unmarshal (dec_struct hint_fields) '''' (string_of rootBytes) of
        None \<Rightarrow> ''''
      | Some fp \<Rightarrow>
          if fp = '''' then ''''
          else (let current = SignerFingerprint signer
                in if fp = current then ''''
                   else '' (the archive is signed by '' @ fp @ '', not the pinned --signer '' @ current
                        @ ''. This is a refusal to trust the archive, not a transient error: do not retry with a signer key you cannot independently verify. If your recovery sheet or rotation record confirms ''
                        @ fp @ '' as a prior signer, re-run with that signer's public key via --signer; otherwise stop and treat this archive as untrusted)''))"

definition signature_result :: "pk_lib \<Rightarrow> bytes \<Rightarrow> bytes \<Rightarrow> HybridVerifier \<Rightarrow> string" where
  "signature_result L rootBytes sigText signer =
     (case B64Decode (TrimSpace (string_of sigText)) of
        Inl _ \<Rightarrow> ''invalid''
      | Inr sig \<Rightarrow>
          if length sig \<le> ed25519_SignatureSize then ''invalid''
          else if VerifyRootBytes L rootBytes sig signer \<noteq> Inr () then ''wrong-signer''
          else ''valid'')"

definition verifyRootSignatureGate ::
  "pk_lib \<Rightarrow> ObjectStore \<Rightarrow> string \<Rightarrow> bytes \<Rightarrow> HybridVerifier \<Rightarrow> Options \<Rightarrow> Outcome \<Rightarrow> goerr + Outcome" where
  "verifyRootSignatureGate L store runID rootBytes signer opts oc =
     (case GetLimited store (runKey runID ''root.manifest.json.sig'') MaxSignatureBytes of
        Inl sigErr \<Rightarrow>
          if \<not> op_AllowUnverified opts
          then Inl (codedGet ExitUnverified (Errorf ''read root signature: %w'' [AWrap sigErr]))
          else Inr (oc\<lparr>oc_SignatureResult := ''absent'', oc_Completeness := ''UNVERIFIED'', oc_Code := ExitUnverified\<rparr>)
      | Inr sigText \<Rightarrow>
          let res = signature_result L rootBytes sigText signer
          in if res = ''valid'' then Inr oc
             else if \<not> op_AllowUnverified opts then
               (let hint = (if res = ''wrong-signer'' then signerMismatchHint rootBytes signer else '''')
                in Inl (coded ExitUnverified (Errorf ''verify root signature: %s%s'' [AStr res, AStr hint])))
             else Inr (oc\<lparr>oc_SignatureResult := res, oc_Completeness := ''UNVERIFIED'', oc_Code := ExitUnverified\<rparr>))"

definition verifyRecoveryBundleGate ::
  "pk_lib \<Rightarrow> ObjectStore \<Rightarrow> HybridVerifier \<Rightarrow> Options \<Rightarrow> Outcome \<Rightarrow> goerr + Outcome" where
  "verifyRecoveryBundleGate L store signer opts oc =
     (if \<not> op_CheckRecoveryBundle opts then Inr oc
      else (case VerifyBundle L (st_Get store) signer of
        Inl err \<Rightarrow>
          if \<not> op_AllowUnverified opts
          then Inl (codedGet ExitUnverified (Errorf ''recovery bundle: %w'' [AWrap err]))
          else Inr (oc\<lparr>oc_RecoveryBundleVerified := False, oc_Completeness := ''UNVERIFIED'',
                       oc_Code := (if oc_Code oc = 0 then ExitUnverified else oc_Code oc)\<rparr>)
      | Inr _ \<Rightarrow> Inr (oc\<lparr>oc_RecoveryBundleVerified := True\<rparr>)))"

section \<open>Open\<close>

record Reader =
  rr_store :: ObjectStore
  rr_ctx :: "goctx option"
  rr_runIDBytes :: bytes
  rr_master :: bytes
  rr_root :: RootManifest
  rr_records :: "ShardRecord list"
  rr_preambles :: "ShardPreamble list"
  rr_freshness :: FreshnessResult
  rr_outcome :: Outcome

definition reader_context :: "('a) Reader_scheme \<Rightarrow> goctx" where
  "reader_context r = (case rr_ctx r of None \<Rightarrow> Background | Some ctx \<Rightarrow> ctx)"

definition reader_close :: "('a) Reader_scheme \<Rightarrow> ('a) Reader_scheme" where
  "reader_close r = r\<lparr>rr_master := replicate (length (rr_master r)) 0\<rparr>"

definition RecordCount :: "('a) Reader_scheme \<Rightarrow> int" where
  "RecordCount r = int (length (rr_records r))"

definition Open ::
  "pk_lib \<Rightarrow> ObjectStore \<Rightarrow> string \<Rightarrow> HybridKEMPrivate \<Rightarrow> HybridVerifier \<Rightarrow> Options \<Rightarrow> goerr + Reader" where
  "Open L store runID recipient signer opts =
     rbind (map_err (\<lambda>err. coded ExitUsage (Errorf ''runId: %w'' [AWrap (UlidErr err)])) (DecodeULID runID)) (\<lambda>runIDBytes.
     rbind (openRootManifest store runID) (\<lambda>rootBytes.
     rbind (verifyRootSignatureGate L store runID rootBytes signer opts (initial_outcome opts)) (\<lambda>oc.
     rbind (ParseRoot rootBytes) (\<lambda>rootm.
     rbind (checkFormatVersion (rm_FormatVersion rootm)) (\<lambda>_.
     rbind (checkEnvelope rootm) (\<lambda>_.
     if rm_RunID rootm \<noteq> runID
     then Inl (coded ExitUnverified (Errorf ''manifest runId %q does not match the requested run %q'' [AStr (rm_RunID rootm), AStr runID]))
     else
     rbind (map_err (coded ExitUnverified) (unwrapMaster L rootm recipient)) (\<lambda>master.
     rbind (map_err (coded ExitUnverified) (checkKeyCommitment rootm master runIDBytes)) (\<lambda>_.
     rbind (map_err (coded ExitUnverified) (checkRecipientSet L rootm)) (\<lambda>_.
     let oc = oc\<lparr>oc_BreakGlassVerified := identityIsBreakGlass L rootm recipient\<rparr> in
     rbind (map_err (codedIfNot ExitUnverified) (openShards store rootm master runIDBytes)) (\<lambda>(preambles, records).
     rbind (checkCompleteness rootm records) (\<lambda>_.
     case checkFreshness L store runID rootm signer (op_MinRunlogIndex opts) of (fresh, ferr) \<Rightarrow>
     rbind (case ferr of
              None \<Rightarrow> Inr oc
            | Some err \<Rightarrow> if \<not> acknowledges opts fresh then Inl err else Inr (oc\<lparr>oc_Completeness := ''UNVERIFIED''\<rparr>)) (\<lambda>oc.
     rbind (verifyRecoveryBundleGate L store signer opts oc) (\<lambda>oc.
       Inr \<lparr>rr_store = store, rr_ctx = None, rr_runIDBytes = runIDBytes, rr_master = master, rr_root = rootm,
            rr_records = records, rr_preambles = preambles, rr_freshness = fresh, rr_outcome = oc\<rparr>)))))))))))))"

section \<open>The walk over the shards\<close>

record StreamReader = Reader +
  sr_signer :: HybridVerifier
  sr_opts :: Options
  sr_recordCount :: int

type_synonym 's callback = "'s \<Rightarrow> ShardRecord \<Rightarrow> 's \<times> goerr option"

fun deliver :: "'s callback \<Rightarrow> 's \<Rightarrow> ShardRecord list \<Rightarrow> 's \<times> goerr option" where
  "deliver f s [] = (s, None)"
| "deliver f s (r # rs) = (case f s r of (s', Some err) \<Rightarrow> (s', Some err) | (s', None) \<Rightarrow> deliver f s' rs)"

fun walk_sequential ::
  "goctx \<Rightarrow> (ShardRef \<Rightarrow> goerr + ShardPreamble \<times> ShardRecord list) \<Rightarrow> 's callback \<Rightarrow> 's \<Rightarrow> nat \<Rightarrow> ShardRef list
     \<Rightarrow> 's \<times> goerr option" where
  "walk_sequential ctx fetch f s i [] = (s, None)"
| "walk_sequential ctx fetch f s i (sh # shs) =
     (case ctx i of
        Some err \<Rightarrow> (s, Some err)
      | None \<Rightarrow>
          (case fetch sh of
             Inl err \<Rightarrow> (s, Some err)
           | Inr (_, recs) \<Rightarrow>
               (case deliver f s recs of
                  (s', Some err) \<Rightarrow> (s', Some err)
                | (s', None) \<Rightarrow> walk_sequential ctx fetch f s' (Suc i) shs)))"

text \<open>The consumer of the prefetched shards: it takes the results in launch order.\<close>

fun consume_results :: "'s callback \<Rightarrow> 's \<Rightarrow> (goerr + ShardPreamble \<times> ShardRecord list \<times> nat) list \<Rightarrow> 's \<times> goerr option" where
  "consume_results f s [] = (s, None)"
| "consume_results f s (res # rest) =
     (case res of
        Inl err \<Rightarrow> (s, Some err)
      | Inr (_, recs, _) \<Rightarrow>
          (case deliver f s recs of
             (s', Some err) \<Rightarrow> (s', Some err)
           | (s', None) \<Rightarrow> consume_results f s' rest))"

definition walkShards :: "StreamReader \<Rightarrow> 's callback \<Rightarrow> 's \<Rightarrow> 's \<times> goerr option" where
  "walkShards sr f s =
     (let mk = DeriveMK (rr_master sr) (rr_runIDBytes sr); ctx = reader_context sr; shards = rm_Shards (rr_root sr)
      in if op_FetchConcurrency (sr_opts sr) > 1
         then consume_results f s (map (openOneShardSized ctx (rr_store sr) (rr_root sr) mk (rr_runIDBytes sr)) shards)
         else walk_sequential ctx (openOneShard ctx (rr_store sr) (rr_root sr) mk (rr_runIDBytes sr)) f s 0 shards)"

definition check_record :: "RootManifest \<Rightarrow> ShardRecord \<Rightarrow> goerr + bytes" where
  "check_record rootm r = rbind (checkRecordStructural rootm r) (\<lambda>_. check_record_hash r)"

definition verify_callback :: "RootManifest \<Rightarrow> (merkle_accumulator \<times> int) callback" where
  "verify_callback rootm st r =
     (case check_record rootm r of
        Inl err \<Rightarrow> (st, Some err)
      | Inr rh \<Rightarrow> ((merkle_push (fst st) rh, snd st + 1), None))"

definition verifyRecordsAndRoot :: "StreamReader \<Rightarrow> goerr + int" where
  "verifyRecordsAndRoot sr =
     (let rootm = rr_root sr
      in if rm_ShardCount rootm \<noteq> int (length (rm_Shards rootm)) then
           Inl (coded ExitUnverified (Errorf ''shardCount %d does not match the %d listed shards''
                  [AInt (rm_ShardCount rootm), AInt (int (length (rm_Shards rootm)))]))
         else (case walkShards sr (verify_callback rootm) (merkle_empty, 0) of
           (_, Some walkErr) \<Rightarrow> Inl (codedIfNot ExitUnverified walkErr)
         | ((acc, cnt), None) \<Rightarrow>
             if cnt \<noteq> rm_DeclaredRecordCount rootm then
               Inl (coded ExitIncomplete (Errorf ''recovered %d records, the root declares %d''
                      [AInt cnt, AInt (rm_DeclaredRecordCount rootm)]))
             else rbind (map_err (\<lambda>err. coded ExitUnverified (Errorf ''merkle root: %w'' [AWrap err]))
                           (hex_DecodeString (rm_MerkleRoot rootm))) (\<lambda>want.
               if \<not> ConstantTimeEqual (merkle_acc_root acc) want
               then Inl (coded ExitUnverified (Errorf ''merkle root does not match the recovered records'' []))
               else Inr cnt)))"

definition StreamOpenContext ::
  "pk_lib \<Rightarrow> goctx \<Rightarrow> ObjectStore \<Rightarrow> string \<Rightarrow> HybridKEMPrivate \<Rightarrow> HybridVerifier \<Rightarrow> Options \<Rightarrow> goerr + StreamReader" where
  "StreamOpenContext L ctx store runID recipient signer opts =
     rbind (map_err (\<lambda>err. coded ExitUsage (Errorf ''runId: %w'' [AWrap (UlidErr err)])) (DecodeULID runID)) (\<lambda>runIDBytes.
     rbind (openRootManifest store runID) (\<lambda>rootBytes.
     rbind (verifyRootSignatureGate L store runID rootBytes signer opts (initial_outcome opts)) (\<lambda>oc.
     rbind (ParseRoot rootBytes) (\<lambda>rootm.
     rbind (checkFormatVersion (rm_FormatVersion rootm)) (\<lambda>_.
     rbind (checkEnvelope rootm) (\<lambda>_.
     if rm_RunID rootm \<noteq> runID
     then Inl (coded ExitUnverified (Errorf ''manifest runId %q does not match the requested run %q'' [AStr (rm_RunID rootm), AStr runID]))
     else
     rbind (map_err (coded ExitUnverified) (unwrapMaster L rootm recipient)) (\<lambda>master.
     rbind (map_err (coded ExitUnverified) (checkKeyCommitment rootm master runIDBytes)) (\<lambda>_.
     rbind (map_err (coded ExitUnverified) (checkRecipientSet L rootm)) (\<lambda>_.
     let oc = oc\<lparr>oc_BreakGlassVerified := identityIsBreakGlass L rootm recipient\<rparr>;
         sr = \<lparr>rr_store = store, rr_ctx = Some ctx, rr_runIDBytes = runIDBytes, rr_master = master, rr_root = rootm,
               rr_records = [], rr_preambles = [], rr_freshness = zero_FreshnessResult, rr_outcome = oc,
               sr_signer = signer, sr_opts = opts, sr_recordCount = 0\<rparr> in
     rbind (verifyRecordsAndRoot sr) (\<lambda>cnt.
     case checkFreshness L store runID rootm signer (op_MinRunlogIndex opts) of (fresh, ferr) \<Rightarrow>
     rbind (case ferr of
              None \<Rightarrow> Inr oc
            | Some err \<Rightarrow> if \<not> acknowledges opts fresh then Inl err else Inr (oc\<lparr>oc_Completeness := ''UNVERIFIED''\<rparr>)) (\<lambda>oc.
     rbind (verifyRecoveryBundleGate L store signer opts oc) (\<lambda>oc.
       Inr (sr\<lparr>rr_freshness := fresh, rr_outcome := oc, sr_recordCount := cnt\<rparr>)))))))))))))"

definition StreamOpen ::
  "pk_lib \<Rightarrow> ObjectStore \<Rightarrow> string \<Rightarrow> HybridKEMPrivate \<Rightarrow> HybridVerifier \<Rightarrow> Options \<Rightarrow> goerr + StreamReader" where
  "StreamOpen L store runID recipient signer opts = StreamOpenContext L Background store runID recipient signer opts"

definition each_callback :: "RootManifest \<Rightarrow> 's callback \<Rightarrow> 's callback" where
  "each_callback rootm fn s r = (case check_record rootm r of Inl err \<Rightarrow> (s, Some err) | Inr _ \<Rightarrow> fn s r)"

definition EachRecord :: "StreamReader \<Rightarrow> 's callback \<Rightarrow> 's \<Rightarrow> 's \<times> goerr option" where
  "EachRecord sr fn s = walkShards sr (each_callback (rr_root sr) fn) s"

end
