(* ===== verification/Prefetch.thy ===== *)
theory Prefetch
  imports Reader
begin

text \<open>
  \<open>StreamReader.walkShardsConcurrent\<close> of \<open>internal/format/stream.go\<close> as a step relation. The launcher, one
  fetch goroutine per shard and the consumer take steps in any order; a step is one operation on what they
  share: the window semaphore, the order channel, the byte count under its mutex, the cancelled context.
  An interrupt cancels the caller's context from outside, without waking anyone.
\<close>

section \<open>The pipeline\<close>

type_synonym shard_result = "goerr + ShardPreamble \<times> ShardRecord list \<times> nat"

text \<open>
  What is fixed: the result of fetching each shard while the context lives, the size of the window, the
  byte budget and the callback.
\<close>

record 's pipeline =
  pi_results :: "shard_result list"
  pi_window :: nat
  pi_maxMem :: int
  pi_callback :: "'s callback"

abbreviation total :: "'s pipeline \<Rightarrow> nat" where
  "total P \<equiv> length (pi_results P)"

text \<open>The program counters. \<open>LDone n\<close> carries how many futures the launcher has pushed.\<close>

datatype launcher_pc =
    LBudget nat | LParked nat | LCheck nat | LWindow nat | LOrder nat | LSpawn nat | LDone nat

datatype consumer_pc =
    CWait nat | CRecv nat nat | CDeliver nat "ShardRecord list" nat | CRelease nat nat | CSem nat
  | CStop | CJoin | CReturn

datatype fetch_pc = FNone | FRun | FGot shard_result | FSent shard_result | FTaken shard_result

record 's pstate =
  ps_launcher :: launcher_pc
  ps_consumer :: consumer_pc
  ps_fetch :: "nat \<Rightarrow> fetch_pc"
  ps_order :: "nat list"
  ps_sem :: nat
  ps_buffered :: int
  ps_cancelled :: bool
  ps_state :: 's
  ps_err :: "goerr option"

definition result_size :: "shard_result \<Rightarrow> int" where
  "result_size res = (case res of Inl _ \<Rightarrow> 0 | Inr (_, _, n) \<Rightarrow> int n)"

text \<open>\<open>cond.Broadcast\<close>: a launcher parked on the byte budget looks at it again.\<close>

definition broadcast :: "launcher_pc \<Rightarrow> launcher_pc" where
  "broadcast l = (case l of LParked i \<Rightarrow> LBudget i | _ \<Rightarrow> l)"

definition over_budget :: "'s pipeline \<Rightarrow> 's pstate \<Rightarrow> bool" where
  "over_budget P s \<longleftrightarrow> pi_maxMem P > 0 \<and> ps_buffered s \<ge> pi_maxMem P \<and> \<not> ps_cancelled s"

definition prefetch_init :: "'s pipeline \<Rightarrow> 's \<Rightarrow> 's pstate" where
  "prefetch_init P st =
     \<lparr>ps_launcher = (if total P = 0 then LDone 0 else LBudget 0),
      ps_consumer = (if total P = 0 then CReturn else CWait 0),
      ps_fetch = (\<lambda>_. FNone), ps_order = [], ps_sem = 0, ps_buffered = 0, ps_cancelled = False,
      ps_state = st, ps_err = None\<rparr>"

section \<open>Steps\<close>

inductive launcher_step :: "'s pipeline \<Rightarrow> 's pstate \<Rightarrow> 's pstate \<Rightarrow> bool" for P where
  park: "ps_launcher s = LBudget i \<Longrightarrow> over_budget P s \<Longrightarrow> launcher_step P s (s\<lparr>ps_launcher := LParked i\<rparr>)"
| budget: "ps_launcher s = LBudget i \<Longrightarrow> \<not> over_budget P s \<Longrightarrow> launcher_step P s (s\<lparr>ps_launcher := LCheck i\<rparr>)"
| check_stop: "ps_launcher s = LCheck i \<Longrightarrow> ps_cancelled s \<Longrightarrow> launcher_step P s (s\<lparr>ps_launcher := LDone i\<rparr>)"
| check: "ps_launcher s = LCheck i \<Longrightarrow> \<not> ps_cancelled s \<Longrightarrow> launcher_step P s (s\<lparr>ps_launcher := LWindow i\<rparr>)"
| window: "ps_launcher s = LWindow i \<Longrightarrow> ps_sem s < pi_window P \<Longrightarrow>
    launcher_step P s (s\<lparr>ps_launcher := LOrder i, ps_sem := ps_sem s + 1\<rparr>)"
| window_stop: "ps_launcher s = LWindow i \<Longrightarrow> ps_cancelled s \<Longrightarrow> launcher_step P s (s\<lparr>ps_launcher := LDone i\<rparr>)"
| order: "ps_launcher s = LOrder i \<Longrightarrow> length (ps_order s) < pi_window P \<Longrightarrow>
    launcher_step P s (s\<lparr>ps_launcher := LSpawn i, ps_order := ps_order s @ [i]\<rparr>)"
| order_stop: "ps_launcher s = LOrder i \<Longrightarrow> ps_cancelled s \<Longrightarrow> launcher_step P s (s\<lparr>ps_launcher := LDone i\<rparr>)"
| spawn: "ps_launcher s = LSpawn i \<Longrightarrow>
    launcher_step P s (s\<lparr>ps_launcher := (if i + 1 < total P then LBudget (i + 1) else LDone (i + 1)),
                         ps_fetch := (ps_fetch s)(i := FRun)\<rparr>)"

text \<open>A fetch under a cancelled context may also fail, with any error, if the destination observes it.\<close>

inductive fetch_step :: "'s pipeline \<Rightarrow> 's pstate \<Rightarrow> 's pstate \<Rightarrow> bool" for P where
  fetched: "ps_fetch s k = FRun \<Longrightarrow> k < total P \<Longrightarrow> res = pi_results P ! k \<or> ps_cancelled s \<and> isl res \<Longrightarrow>
    fetch_step P s (s\<lparr>ps_fetch := (ps_fetch s)(k := FGot res), ps_buffered := ps_buffered s + result_size res\<rparr>)"
| send: "ps_fetch s k = FGot res \<Longrightarrow> fetch_step P s (s\<lparr>ps_fetch := (ps_fetch s)(k := FSent res)\<rparr>)"

inductive consumer_step :: "'s pipeline \<Rightarrow> 's pstate \<Rightarrow> 's pstate \<Rightarrow> bool" for P where
  future: "ps_consumer s = CWait i \<Longrightarrow> ps_order s = j # rest \<Longrightarrow>
    consumer_step P s (s\<lparr>ps_consumer := CRecv i j, ps_order := rest\<rparr>)"
| recv_err: "ps_consumer s = CRecv i j \<Longrightarrow> ps_fetch s j = FSent (Inl err) \<Longrightarrow>
    consumer_step P s (s\<lparr>ps_consumer := CStop, ps_fetch := (ps_fetch s)(j := FTaken (Inl err)), ps_err := Some err\<rparr>)"
| recv: "ps_consumer s = CRecv i j \<Longrightarrow> ps_fetch s j = FSent (Inr (pre, recs, n)) \<Longrightarrow>
    consumer_step P s (s\<lparr>ps_consumer := CDeliver i recs n, ps_fetch := (ps_fetch s)(j := FTaken (Inr (pre, recs, n)))\<rparr>)"
| deliver_err: "ps_consumer s = CDeliver i recs n \<Longrightarrow> deliver (pi_callback P) (ps_state s) recs = (st, Some err) \<Longrightarrow>
    consumer_step P s (s\<lparr>ps_consumer := CStop, ps_state := st, ps_err := Some err\<rparr>)"
| deliver: "ps_consumer s = CDeliver i recs n \<Longrightarrow> deliver (pi_callback P) (ps_state s) recs = (st, None) \<Longrightarrow>
    consumer_step P s (s\<lparr>ps_consumer := CRelease i n, ps_state := st\<rparr>)"
| release: "ps_consumer s = CRelease i n \<Longrightarrow>
    consumer_step P s (s\<lparr>ps_consumer := CSem i, ps_buffered := ps_buffered s - int n, ps_launcher := broadcast (ps_launcher s)\<rparr>)"
| sem: "ps_consumer s = CSem i \<Longrightarrow> ps_sem s > 0 \<Longrightarrow>
    consumer_step P s (s\<lparr>ps_consumer := (if i + 1 < total P then CWait (i + 1) else CStop), ps_sem := ps_sem s - 1\<rparr>)"
| stop: "ps_consumer s = CStop \<Longrightarrow>
    consumer_step P s (s\<lparr>ps_consumer := CJoin, ps_cancelled := True, ps_launcher := broadcast (ps_launcher s)\<rparr>)"
| join: "ps_consumer s = CJoin \<Longrightarrow> ps_launcher s = LDone m \<Longrightarrow>
    (\<And>k. k < total P \<Longrightarrow> ps_fetch s k \<noteq> FRun \<and> (\<forall>res. ps_fetch s k \<noteq> FGot res)) \<Longrightarrow>
    consumer_step P s (s\<lparr>ps_consumer := CReturn\<rparr>)"

inductive pstep :: "'s pipeline \<Rightarrow> 's pstate \<Rightarrow> 's pstate \<Rightarrow> bool" for P where
  "launcher_step P s t \<Longrightarrow> pstep P s t"
| "fetch_step P s t \<Longrightarrow> pstep P s t"
| "consumer_step P s t \<Longrightarrow> pstep P s t"

definition interrupt :: "'s pstate \<Rightarrow> 's pstate" where
  "interrupt s = s\<lparr>ps_cancelled := True\<rparr>"

text \<open>The states the goroutines reach by themselves, and those they reach with interrupts in between.\<close>

inductive preachable :: "'s pipeline \<Rightarrow> 's \<Rightarrow> 's pstate \<Rightarrow> bool" for P st where
  start: "preachable P st (prefetch_init P st)"
| step: "preachable P st s \<Longrightarrow> pstep P s t \<Longrightarrow> preachable P st t"

inductive ireachable :: "'s pipeline \<Rightarrow> 's \<Rightarrow> 's pstate \<Rightarrow> bool" for P st where
  start: "ireachable P st (prefetch_init P st)"
| step: "ireachable P st s \<Longrightarrow> pstep P s t \<Longrightarrow> ireachable P st t"
| interrupted: "ireachable P st s \<Longrightarrow> ireachable P st (interrupt s)"

text \<open>The pipeline of a reader.\<close>

definition reader_pipeline :: "StreamReader \<Rightarrow> 's callback \<Rightarrow> 's pipeline" where
  "reader_pipeline sr f =
     (let mk = DeriveMK (rr_master sr) (rr_runIDBytes sr); shards = rm_Shards (rr_root sr)
      in \<lparr>pi_results = map (openOneShardSized (reader_context sr) (rr_store sr) (rr_root sr) mk (rr_runIDBytes sr)) shards,
          pi_window = min (nat (op_FetchConcurrency (sr_opts sr))) (length shards),
          pi_maxMem = op_MaxMemoryBytes (sr_opts sr), pi_callback = f\<rparr>)"

end
