(* ===== verification/ReaderFacts.thy ===== *)
theory ReaderFacts
  imports Reader
begin

text \<open>
  What holds of the readers of \<open>Reader\<close>: the walk with a prefetch window delivers what the sequential walk
  delivers, the streaming reader and the load-all reader accept the same runs and agree on them, and what
  an accepted run guarantees.
\<close>

section \<open>The counts of the root\<close>

lemma declared_bounds:
  assumes "ParseRoot b = Inr m"
  shows "0 \<le> rm_DeclaredRecordCount m \<and> rm_DeclaredRecordCount m \<le> maxCanonicalInt"
proof -
  have vc: "validateCounts b [''declaredRecordCount'', ''shardCount'', ''freshness.runlogIndex''] = Inr ()"
    and um: "Unmarshal (dec_struct RootManifest_fields) zero_RootManifest (string_of b) = Some m"
    using assms by (auto simp: ParseRoot_def)
  show ?thesis
    by (rule counted_field [OF vc _ _ um, of "''declaredRecordCount''" rm_DeclaredRecordCount_update rm_DeclaredRecordCount])
      (auto simp: RootManifest_fields_def fld_def zero_RootManifest_def plain_name_def suffix_def)
qed

lemma shardCount_bounds:
  assumes "ParseRoot b = Inr m"
  shows "0 \<le> rm_ShardCount m \<and> rm_ShardCount m \<le> maxCanonicalInt"
proof -
  have vc: "validateCounts b [''declaredRecordCount'', ''shardCount'', ''freshness.runlogIndex''] = Inr ()"
    and um: "Unmarshal (dec_struct RootManifest_fields) zero_RootManifest (string_of b) = Some m"
    using assms by (auto simp: ParseRoot_def)
  show ?thesis
    by (rule counted_field [OF vc _ _ um, of "''shardCount''" rm_ShardCount_update rm_ShardCount])
      (auto simp: RootManifest_fields_def fld_def zero_RootManifest_def plain_name_def suffix_def)
qed

section \<open>The walk\<close>

lemma deliver_append:
  "deliver f s (xs @ ys) = (case deliver f s xs of (s', Some e) \<Rightarrow> (s', Some e) | (s', None) \<Rightarrow> deliver f s' ys)"
  by (induction xs arbitrary: s) (auto split: prod.splits option.splits)

lemma consume_eq_sequential:
  assumes "\<And>j. ctx j = None"
  shows "consume_results f s (map g shs) = walk_sequential ctx (\<lambda>sh. rbind (g sh) (\<lambda>(p, rs, _). Inr (p, rs))) f s i shs"
proof (induction shs arbitrary: s i)
  case (Cons sh shs)
  then show ?case by (cases "g sh") (auto simp: assms split: prod.splits option.splits)
qed simp

lemma walk_Inr:
  assumes "\<And>j. ctx j = None" "mapr fetch shs = Inr opened"
  shows "walk_sequential ctx fetch f s i shs = deliver f s (concat (map snd opened))"
  using assms(2)
proof (induction shs arbitrary: s i opened)
  case (Cons sh shs)
  then obtain p rs rest where "fetch sh = Inr (p, rs)" "mapr fetch shs = Inr rest" "opened = (p, rs) # rest" by auto
  then show ?case using Cons.IH assms(1) by (auto simp: deliver_append split: prod.splits option.splits)
qed simp

lemma walk_None:
  assumes "\<And>j. ctx j = None" "walk_sequential ctx fetch f s i shs = (s', None)"
  shows "\<exists>opened. mapr fetch shs = Inr opened"
  using assms(2)
proof (induction shs arbitrary: s i)
  case (Cons sh shs)
  then show ?case using assms(1) by (cases "fetch sh") (auto split: prod.splits option.splits)
qed simp

definition fetch_of :: "('a) Reader_scheme \<Rightarrow> ShardRef \<Rightarrow> goerr + ShardPreamble \<times> ShardRecord list" where
  "fetch_of sr = openOneShard (reader_context sr) (rr_store sr) (rr_root sr)
     (DeriveMK (rr_master sr) (rr_runIDBytes sr)) (rr_runIDBytes sr)"

lemma walkShards_eq:
  assumes "\<And>j. reader_context sr j = None"
  shows "walkShards sr f s = walk_sequential (reader_context sr) (fetch_of sr) f s 0 (rm_Shards (rr_root sr))"
proof -
  have "(\<lambda>sh. rbind (openOneShardSized (reader_context sr) (rr_store sr) (rr_root sr)
      (DeriveMK (rr_master sr) (rr_runIDBytes sr)) (rr_runIDBytes sr) sh) (\<lambda>(p, rs, _). Inr (p, rs))) = fetch_of sr"
    by (rule ext) (simp add: fetch_of_def openOneShard_def)
  then show ?thesis
    unfolding walkShards_def Let_def using consume_eq_sequential [of "reader_context sr" f s _ _ 0, OF assms] by (simp add: fetch_of_def)
qed

lemma deliver_verify:
  "deliver (verify_callback rootm) (a, c) rs = (st, None) \<longleftrightarrow>
     (\<exists>leaves. mapr (check_record rootm) rs = Inr leaves \<and> st = (foldl merkle_push a leaves, c + int (length leaves)))"
proof (induction rs arbitrary: a c)
  case (Cons r rs)
  show ?case
  proof (cases "check_record rootm r")
    case (Inr rh)
    then show ?thesis using Cons [of "merkle_push a rh" "c + 1"] by (fastforce simp: verify_callback_def)
  qed (simp add: verify_callback_def)
qed auto

lemma check_records:
  "mapr (check_record rootm) rs = Inr leaves \<longleftrightarrow>
     loopr (\<lambda>_ r. checkRecordStructural rootm r) () rs = Inr () \<and> mapr check_record_hash rs = Inr leaves"
  by (induction rs arbitrary: leaves) (auto simp: check_record_def)

lemma openShards_Inr:
  "openShards store rootm master rid = Inr (pre, recs) \<longleftrightarrow>
     (\<exists>opened. mapr (openOneShard Background store rootm (DeriveMK master rid) rid) (rm_Shards rootm) = Inr opened
        \<and> pre = map fst opened \<and> recs = concat (map snd opened)
        \<and> loopr (\<lambda>_ r. checkRecordStructural rootm r) () recs = Inr ())"
  by (auto simp: openShards_def Let_def)

lemma verifyRecordsAndRoot_Inr:
  assumes ctx: "reader_context sr = Background" and decl: "rm_DeclaredRecordCount (rr_root sr) \<le> maxCanonicalInt"
  shows "verifyRecordsAndRoot sr = Inr n \<longleftrightarrow>
    (\<exists>pre recs. openShards (rr_store sr) (rr_root sr) (rr_master sr) (rr_runIDBytes sr) = Inr (pre, recs)
       \<and> checkCompleteness (rr_root sr) recs = Inr () \<and> n = int (length recs))"
    (is "?L \<longleftrightarrow> ?R")
proof -
  let ?r = "rr_root sr" and ?cb = "verify_callback (rr_root sr)"
  have nc: "reader_context sr j = None" for j by (simp add: ctx Background_def)
  have small: "length leaves < 2 ^ 64" if "int (length leaves) = rm_DeclaredRecordCount ?r" for leaves :: "bytes list"
    using that decl by (simp add: maxCanonicalInt_def)
  note w = walkShards_eq [of sr, OF nc]
  have fe: "fetch_of sr = openOneShard Background (rr_store sr) ?r (DeriveMK (rr_master sr) (rr_runIDBytes sr)) (rr_runIDBytes sr)"
    by (simp add: fetch_of_def ctx)
  show ?thesis
  proof
    assume L: ?L
    let ?w = "walkShards sr ?cb (merkle_empty, 0)"
    obtain acc cnt werr where wk: "walkShards sr ?cb (merkle_empty, 0) = ((acc, cnt), werr)"
      by (rule that [of "fst (fst ?w)" "snd (fst ?w)" "snd ?w"]) simp
    have sc: "rm_ShardCount ?r = int (length (rm_Shards ?r))"
      using L by (simp add: verifyRecordsAndRoot_def Let_def split: if_splits)
    have "werr = None"
      using L wk sc by (cases werr) (simp_all add: verifyRecordsAndRoot_def)
    then have wk': "?w = ((acc, cnt), None)" using wk by simp
    have cd: "cnt = rm_DeclaredRecordCount ?r"
      using L wk' sc by (simp add: verifyRecordsAndRoot_def Let_def split: if_splits)
    obtain want where want: "hex_DecodeString (rm_MerkleRoot ?r) = Inr want"
      using L wk' sc cd by (cases "hex_DecodeString (rm_MerkleRoot ?r)") (simp_all add: verifyRecordsAndRoot_def Let_def)
    have eq: "merkle_acc_root acc = want" "n = cnt"
      using L wk' sc cd want by (simp_all add: verifyRecordsAndRoot_def Let_def split: if_splits)
    note l = sc wk' cd want eq
    obtain opened where op: "mapr (fetch_of sr) (rm_Shards ?r) = Inr opened"
      using walk_None [OF nc wk' [unfolded w]] by blast
    have "deliver ?cb (merkle_empty, 0) (concat (map snd opened)) = ((acc, cnt), None)"
      using wk' by (simp add: w walk_Inr [OF nc op])
    then obtain leaves where lv: "mapr (check_record ?r) (concat (map snd opened)) = Inr leaves"
      "acc = foldl merkle_push merkle_empty leaves" "cnt = int (length leaves)"
      by (auto simp: deliver_verify)
    have "MerkleRoot leaves = want" using l(3,5) lv(2,3) merkle.root_fold [OF small, of leaves] by simp
    then show ?R using op l lv fe mapr_length [OF lv(1)] by (auto simp: openShards_Inr checkCompleteness_def check_records)
  next
    assume ?R
    then obtain opened recs leaves want where r: "mapr (fetch_of sr) (rm_Shards ?r) = Inr opened" "recs = concat (map snd opened)"
      "loopr (\<lambda>_ r. checkRecordStructural ?r r) () recs = Inr ()" "mapr check_record_hash recs = Inr leaves"
      "rm_ShardCount ?r = int (length (rm_Shards ?r))" "int (length recs) = rm_DeclaredRecordCount ?r"
      "hex_DecodeString (rm_MerkleRoot ?r) = Inr want" "MerkleRoot leaves = want" "n = int (length recs)"
      by (auto simp: openShards_Inr checkCompleteness_def fe split: if_splits)
    have lv: "mapr (check_record ?r) recs = Inr leaves" using r(3,4) by (simp add: check_records)
    have len: "length leaves = length recs" using mapr_length [OF lv] .
    then have "merkle_acc_root (foldl merkle_push merkle_empty leaves) = want"
      using small [of leaves] r(6,8) merkle.root_fold [of leaves] by simp
    moreover have "walkShards sr ?cb (merkle_empty, 0) = ((foldl merkle_push merkle_empty leaves, int (length leaves)), None)"
      using lv by (simp add: w walk_Inr [OF nc r(1)] r(2) [symmetric] deliver_verify)
    ultimately show ?L using r len by (simp add: verifyRecordsAndRoot_def)
  qed
qed

section \<open>The two readers\<close>

text \<open>The gates both readers pass first, with what they leave: the run id, the root, the master and the outcome.\<close>

definition open_gates ::
  "pk_lib \<Rightarrow> ObjectStore \<Rightarrow> string \<Rightarrow> HybridKEMPrivate \<Rightarrow> HybridVerifier \<Rightarrow> Options
     \<Rightarrow> goerr + bytes \<times> RootManifest \<times> bytes \<times> Outcome" where
  "open_gates L store runID recipient signer opts =
     rbind (map_err (\<lambda>err. coded ExitUsage (Errorf ''runId: %w'' [AWrap (UlidErr err)])) (DecodeULID runID)) (\<lambda>runIDBytes.
     rbind (openRootManifest store runID) (\<lambda>rootBytes.
     rbind (verifyRootSignatureGate L store runID rootBytes signer opts (initial_outcome opts)) (\<lambda>oc.
     rbind (ParseRoot rootBytes) (\<lambda>rootm.
     rbind (checkFormatVersion (rm_FormatVersion rootm)) (\<lambda>_.
     rbind (checkEnvelope rootm) (\<lambda>_.
     if rm_RunID rootm \<noteq> runID
     then Inl (coded ExitUnverified (Errorf ''manifest runId %q does not match the requested run %q'' [AStr (rm_RunID rootm), AStr runID]))
     else
     rbind (map_err (coded ExitUnverified) (unwrapMaster L rootm recipient)) (\<lambda>master.
     rbind (map_err (coded ExitUnverified) (checkKeyCommitment rootm master runIDBytes)) (\<lambda>_.
     rbind (map_err (coded ExitUnverified) (checkRecipientSet L rootm)) (\<lambda>_.
       Inr (runIDBytes, rootm, master, oc\<lparr>oc_BreakGlassVerified := identityIsBreakGlass L rootm recipient\<rparr>))))))))))"

definition open_tail ::
  "pk_lib \<Rightarrow> ObjectStore \<Rightarrow> string \<Rightarrow> RootManifest \<Rightarrow> HybridVerifier \<Rightarrow> Options \<Rightarrow> Outcome \<Rightarrow> goerr + FreshnessResult \<times> Outcome" where
  "open_tail L store runID rootm signer opts oc =
     (case checkFreshness L store runID rootm signer (op_MinRunlogIndex opts) of (fresh, ferr) \<Rightarrow>
      rbind (case ferr of
               None \<Rightarrow> Inr oc
             | Some err \<Rightarrow> if \<not> acknowledges opts fresh then Inl err else Inr (oc\<lparr>oc_Completeness := ''UNVERIFIED''\<rparr>)) (\<lambda>oc.
      rbind (verifyRecoveryBundleGate L store signer opts oc) (\<lambda>oc. Inr (fresh, oc))))"

lemma rbind_if: "rbind (if b then x else y) f = (if b then rbind x f else rbind y f)"
  by simp

lemma Open_factored:
  "Open L store runID recipient signer opts =
     rbind (open_gates L store runID recipient signer opts) (\<lambda>(runIDBytes, rootm, master, oc).
     rbind (map_err (codedIfNot ExitUnverified) (openShards store rootm master runIDBytes)) (\<lambda>(preambles, records).
     rbind (checkCompleteness rootm records) (\<lambda>_.
     rbind (open_tail L store runID rootm signer opts oc) (\<lambda>(fresh, oc).
       Inr \<lparr>rr_store = store, rr_ctx = None, rr_runIDBytes = runIDBytes, rr_master = master, rr_root = rootm,
            rr_records = records, rr_preambles = preambles, rr_freshness = fresh, rr_outcome = oc\<rparr>))))"
  unfolding Open_def open_gates_def open_tail_def Let_def rbind_assoc rbind_if
  by (simp add: rbind_assoc case_prod_unfold cong: if_cong option.case_cong)

lemma StreamOpen_factored:
  "StreamOpenContext L ctx store runID recipient signer opts =
     rbind (open_gates L store runID recipient signer opts) (\<lambda>(runIDBytes, rootm, master, oc).
     let sr = \<lparr>rr_store = store, rr_ctx = Some ctx, rr_runIDBytes = runIDBytes, rr_master = master, rr_root = rootm,
               rr_records = [], rr_preambles = [], rr_freshness = zero_FreshnessResult, rr_outcome = oc,
               sr_signer = signer, sr_opts = opts, sr_recordCount = 0\<rparr> in
     rbind (verifyRecordsAndRoot sr) (\<lambda>cnt.
     rbind (open_tail L store runID rootm signer opts oc) (\<lambda>(fresh, oc).
       Inr (sr\<lparr>rr_freshness := fresh, rr_outcome := oc, sr_recordCount := cnt\<rparr>))))"
  unfolding StreamOpenContext_def open_gates_def open_tail_def Let_def rbind_assoc rbind_if
  by (simp add: rbind_assoc case_prod_unfold cong: if_cong option.case_cong)

definition streaming :: "Reader \<Rightarrow> HybridVerifier \<Rightarrow> Options \<Rightarrow> StreamReader" where
  "streaming r signer opts =
     \<lparr>rr_store = rr_store r, rr_ctx = Some Background, rr_runIDBytes = rr_runIDBytes r, rr_master = rr_master r,
      rr_root = rr_root r, rr_records = [], rr_preambles = [], rr_freshness = rr_freshness r, rr_outcome = rr_outcome r,
      sr_signer = signer, sr_opts = opts, sr_recordCount = RecordCount r\<rparr>"

lemma open_gates_declared:
  assumes "open_gates L store runID recipient signer opts = Inr (rid, m, master, oc)"
  shows "rm_DeclaredRecordCount m \<le> maxCanonicalInt"
proof -
  obtain b where "ParseRoot b = Inr m"
    using assms unfolding open_gates_def by (auto split: if_splits)
  then show ?thesis using declared_bounds by blast
qed

lemma Open_iff_StreamOpen_lemma:
  "(Open L store runID recipient signer opts = Inr r \<longrightarrow>
      StreamOpen L store runID recipient signer opts = Inr (streaming r signer opts))
   \<and> (StreamOpen L store runID recipient signer opts = Inr sr \<longrightarrow>
      (\<exists>r. Open L store runID recipient signer opts = Inr r \<and> sr = streaming r signer opts))"
proof (cases "open_gates L store runID recipient signer opts")
  case (Inl e)
  then show ?thesis by (simp add: Open_factored StreamOpen_def StreamOpen_factored)
next
  case (Inr q)
  then obtain rid m master oc where g: "open_gates L store runID recipient signer opts = Inr (rid, m, master, oc)"
    by (cases q) auto
  let ?sr = "\<lparr>rr_store = store, rr_ctx = Some Background, rr_runIDBytes = rid, rr_master = master, rr_root = m,
               rr_records = [], rr_preambles = [], rr_freshness = zero_FreshnessResult, rr_outcome = oc,
               sr_signer = signer, sr_opts = opts, sr_recordCount = 0\<rparr>"
  have v: "verifyRecordsAndRoot ?sr = Inr n \<longleftrightarrow>
    (\<exists>pre recs. openShards store m master rid = Inr (pre, recs) \<and> checkCompleteness m recs = Inr () \<and> n = int (length recs))" for n
    using verifyRecordsAndRoot_Inr [of ?sr n] open_gates_declared [OF g] by (simp add: reader_context_def)
  show ?thesis
    by (auto simp: Open_factored StreamOpen_def StreamOpen_factored g v streaming_def RecordCount_def)
qed

section \<open>Properties\<close>

text \<open>
  C7. The two readers agree: whatever the store holds and whatever the options and the prefetch window,
  the load-all reader opens a run exactly when the streaming reader does, and then the streaming reader
  carries the same root, master, freshness and outcome, and counts the records the other holds.
\<close>
theorem Open_iff_StreamOpen:
  "StreamOpen L store runID recipient signer opts = Inr sr \<longleftrightarrow>
     (\<exists>r. Open L store runID recipient signer opts = Inr r \<and> sr = streaming r signer opts)"
  using Open_iff_StreamOpen_lemma by metis

end
