(* ===== verification/PrefetchFacts.thy ===== *)
theory PrefetchFacts
  imports Prefetch ReaderFacts
begin

text \<open>
  What holds of the prefetcher of \<open>Prefetch\<close>: the window and the byte count are bounded in every state,
  the callback sees the shards in their listed order, the goroutines never deadlock while nobody interrupts
  them, every run ends, and an interrupt at the wrong moment leaves the consumer waiting for ever.
\<close>

inductive_cases launcher_stepE: "launcher_step P s t"
inductive_cases fetch_stepE: "fetch_step P s t"
inductive_cases consumer_stepE: "consumer_step P s t"
inductive_cases pstepE: "pstep P s t"

section \<open>What the program counters mean\<close>

fun lindex :: "launcher_pc \<Rightarrow> nat" where
  "lindex (LBudget i) = i" | "lindex (LParked i) = i" | "lindex (LCheck i) = i" | "lindex (LWindow i) = i"
| "lindex (LOrder i) = i" | "lindex (LSpawn i) = i" | "lindex (LDone n) = n"

fun launcher_done :: "launcher_pc \<Rightarrow> bool" where
  "launcher_done (LDone n) = True" | "launcher_done _ = False"

fun pushed :: "launcher_pc \<Rightarrow> nat" where
  "pushed (LSpawn i) = Suc i" | "pushed l = lindex l"

text \<open>A window slot the launcher has taken and no fetch uses yet.\<close>

fun reserved :: "launcher_pc \<Rightarrow> int" where
  "reserved (LOrder i) = 1" | "reserved (LSpawn i) = 1" | "reserved _ = 0"

text \<open>A slot whose future is not in the channel yet.\<close>

fun unpushed :: "launcher_pc \<Rightarrow> int" where
  "unpushed (LOrder i) = 1" | "unpushed _ = 0"

text \<open>A slot of a shard the consumer has taken and not given back.\<close>

fun consuming :: "consumer_pc \<Rightarrow> int" where
  "consuming (CDeliver i r n) = 1" | "consuming (CRelease i n) = 1" | "consuming (CSem i) = 1" | "consuming _ = 0"

fun holding :: "consumer_pc \<Rightarrow> int" where
  "holding (CRecv i j) = 1" | "holding c = consuming c"

fun stopped :: "consumer_pc \<Rightarrow> bool" where
  "stopped CStop = True" | "stopped CJoin = True" | "stopped CReturn = True" | "stopped _ = False"

fun active :: "fetch_pc \<Rightarrow> int" where
  "active FRun = 1" | "active (FGot r) = 1" | "active (FSent r) = 1" | "active _ = 0"

fun weight :: "fetch_pc \<Rightarrow> int" where
  "weight (FGot r) = result_size r" | "weight (FSent r) = result_size r" | "weight _ = 0"

fun consuming_size :: "consumer_pc \<Rightarrow> int" where
  "consuming_size (CDeliver i r n) = int n" | "consuming_size (CRelease i n) = int n" | "consuming_size _ = 0"

text \<open>How many of the first \<open>n\<close> fetches are in flight or buffered, and the bytes of the fetched ones.\<close>

definition in_flight :: "nat \<Rightarrow> (nat \<Rightarrow> fetch_pc) \<Rightarrow> int" where
  "in_flight n f = (\<Sum>k<n. active (f k))"

definition fetched_bytes :: "nat \<Rightarrow> (nat \<Rightarrow> fetch_pc) \<Rightarrow> int" where
  "fetched_bytes n f = (\<Sum>k<n. weight (f k))"

lemma result_size_nonneg [simp]: "0 \<le> result_size r"
  by (simp add: result_size_def split: sum.splits)

lemma result_size_simps [simp]: "result_size (Inl e) = 0" "result_size (Inr (p, r, n)) = int n"
  by (simp_all add: result_size_def)

lemma active_nonneg [simp]: "0 \<le> active f"
  by (cases f) simp_all

lemma weight_nonneg [simp]: "0 \<le> weight f"
  by (cases f) simp_all

lemma sum_fun_upd:
  fixes g :: "'b \<Rightarrow> int" and n :: nat
  assumes "j < n"
  shows "(\<Sum>k<n. g ((f(j := x)) k)) = (\<Sum>k<n. g (f k)) - g (f j) + g x"
proof -
  have "(\<Sum>k<n. g ((f(j := x)) k)) = g x + (\<Sum>k \<in> {..<n} - {j}. g ((f(j := x)) k))"
    using assms by (subst sum.remove [of _ j]) auto
  also have "(\<Sum>k \<in> {..<n} - {j}. g ((f(j := x)) k)) = (\<Sum>k \<in> {..<n} - {j}. g (f k))"
    by (rule sum.cong) auto
  also have "\<dots> = (\<Sum>k<n. g (f k)) - g (f j)"
    using assms sum.remove [of "{..<n}" j "\<lambda>k. g (f k)"] by simp
  finally show ?thesis by simp
qed

lemma in_flight_upd: "j < n \<Longrightarrow> in_flight n (f(j := x)) = in_flight n f - active (f j) + active x"
  unfolding in_flight_def by (rule sum_fun_upd)

lemma fetched_bytes_upd: "j < n \<Longrightarrow> fetched_bytes n (f(j := x)) = fetched_bytes n f - weight (f j) + weight x"
  unfolding fetched_bytes_def by (rule sum_fun_upd)

section \<open>The window\<close>

text \<open>What every state satisfies, interrupted or not.\<close>

definition window_inv :: "'s pipeline \<Rightarrow> 's pstate \<Rightarrow> bool" where
  "window_inv P s \<longleftrightarrow>
     lindex (ps_launcher s) + (if launcher_done (ps_launcher s) then 0 else 1) \<le> total P
   \<and> (\<forall>k \<ge> lindex (ps_launcher s). ps_fetch s k = FNone)
   \<and> in_flight (total P) (ps_fetch s) + reserved (ps_launcher s) + consuming (ps_consumer s) \<le> int (ps_sem s)
   \<and> int (length (ps_order s)) + unpushed (ps_launcher s) + holding (ps_consumer s) \<le> int (ps_sem s)
   \<and> ps_sem s \<le> pi_window P
   \<and> (stopped (ps_consumer s) \<or> ps_buffered s = fetched_bytes (total P) (ps_fetch s) + consuming_size (ps_consumer s))
   \<and> (\<forall>i. ps_launcher s = LParked i \<longrightarrow> pi_maxMem P > 0 \<and> pi_maxMem P \<le> ps_buffered s)
   \<and> (ps_consumer s = CJoin \<or> ps_consumer s = CReturn \<longrightarrow> (\<forall>i. ps_launcher s \<noteq> LParked i))
   \<and> (ps_consumer s = CJoin \<or> ps_consumer s = CReturn \<and> 0 < total P \<longrightarrow> ps_cancelled s)"

lemma window_inv_init: "window_inv P (prefetch_init P st)"
  by (auto simp: window_inv_def prefetch_init_def in_flight_def fetched_bytes_def Suc_le_eq)

lemma window_inv_interrupt: "window_inv P s \<Longrightarrow> window_inv P (interrupt s)"
  by (simp add: window_inv_def interrupt_def)

lemma window_inv_launcher:
  assumes "launcher_step P s t" "window_inv P s"
  shows "window_inv P t"
  using assms(1)
proof (cases rule: launcher_step.cases)
  case (spawn i)
  have i: "i < total P" "ps_fetch s i = FNone" using assms(2) spawn by (auto simp: window_inv_def)
  then show ?thesis using assms(2) spawn
    by (auto simp: window_inv_def in_flight_upd fetched_bytes_upd)
qed (use assms(2) in \<open>auto simp: window_inv_def over_budget_def\<close>)

lemma window_inv_dom:
  assumes "window_inv P s" "ps_fetch s k \<noteq> FNone"
  shows "k < lindex (ps_launcher s)" "k < total P"
proof -
  have "\<forall>k \<ge> lindex (ps_launcher s). ps_fetch s k = FNone"
    and le: "lindex (ps_launcher s) + (if launcher_done (ps_launcher s) then 0 else 1) \<le> total P"
    using assms(1) unfolding window_inv_def by blast+
  then show l: "k < lindex (ps_launcher s)" using assms(2) not_le by blast
  show "k < total P" using l le by (simp split: if_splits)
qed

lemma window_inv_fetch:
  assumes "fetch_step P s t" "window_inv P s"
  shows "window_inv P t"
  using assms(1)
proof (cases rule: fetch_step.cases)
  case (fetched k res)
  have "k < total P" "k < lindex (ps_launcher s)"
    using window_inv_dom [OF assms(2), of k] fetched(2) by simp_all
  then show ?thesis using assms(2) fetched(2)
    unfolding window_inv_def fetched(1)
    by (simp add: in_flight_upd fetched_bytes_upd) (auto intro: add_increasing2)
next
  case (send k res)
  have "k < total P" "k < lindex (ps_launcher s)"
    using window_inv_dom [OF assms(2), of k] send(2) by simp_all
  then show ?thesis using assms(2) send(2)
    unfolding window_inv_def send(1) by (simp add: in_flight_upd fetched_bytes_upd)
qed

lemma window_inv_consumer:
  assumes "consumer_step P s t" "window_inv P s"
  shows "window_inv P t"
proof -
  have dom: "k < total P \<and> k < lindex (ps_launcher s)" if "ps_fetch s k \<noteq> FNone" for k
    using window_inv_dom [OF assms(2) that] by simp
  have br: "lindex (broadcast l) = lindex l" "launcher_done (broadcast l) = launcher_done l"
    "reserved (broadcast l) = reserved l" "unpushed (broadcast l) = unpushed l" "broadcast l \<noteq> LParked i" for l i
    by (cases l; simp add: broadcast_def)+
  show ?thesis using assms(1)
  proof (cases rule: consumer_step.cases)
    case (recv_err i j err)
    then show ?thesis using assms(2) dom [of j] recv_err(2,3)
      unfolding window_inv_def recv_err(1) by (simp add: in_flight_upd fetched_bytes_upd) auto
  next
    case (recv i j pre recs n)
    then show ?thesis using assms(2) dom [of j] recv(2,3)
      unfolding window_inv_def recv(1) by (simp add: in_flight_upd fetched_bytes_upd) auto
  qed (use assms(2) in \<open>auto simp: window_inv_def br\<close>)
qed

lemma window_inv_step: "pstep P s t \<Longrightarrow> window_inv P s \<Longrightarrow> window_inv P t"
  by (auto elim!: pstepE intro: window_inv_launcher window_inv_fetch window_inv_consumer)

lemma window_inv_reachable: "ireachable P st s \<Longrightarrow> window_inv P s"
  by (induction rule: ireachable.induct) (auto intro: window_inv_init window_inv_step window_inv_interrupt)

lemma preachable_ireachable: "preachable P st s \<Longrightarrow> ireachable P st s"
  by (induction rule: preachable.induct) (auto intro: ireachable.intros)

section \<open>The order of delivery\<close>

text \<open>How many shards the consumer has received from the order channel, taken, and given back in full.\<close>

fun received :: "consumer_pc \<Rightarrow> nat" where
  "received (CWait i) = i" | "received (CRecv i j) = Suc i" | "received (CDeliver i r n) = Suc i"
| "received (CRelease i n) = Suc i" | "received (CSem i) = Suc i" | "received _ = 0"

fun taken :: "consumer_pc \<Rightarrow> nat" where
  "taken (CRecv i j) = i" | "taken c = received c"

fun delivered :: "consumer_pc \<Rightarrow> nat" where
  "delivered (CRelease i n) = Suc i" | "delivered (CSem i) = Suc i" | "delivered (CDeliver i r n) = i"
| "delivered c = taken c"

fun acquired :: "launcher_pc \<Rightarrow> nat" where
  "acquired (LOrder i) = Suc i" | "acquired l = pushed l"

text \<open>The slots given back: one per shard the consumer is done with.\<close>

fun delivered_slots :: "consumer_pc \<Rightarrow> nat" where
  "delivered_slots (CRecv i j) = i" | "delivered_slots (CDeliver i r n) = i" | "delivered_slots (CRelease i n) = i"
| "delivered_slots (CSem i) = i" | "delivered_slots (CWait i) = i" | "delivered_slots _ = 0"

definition consumer_ok :: "'s pipeline \<Rightarrow> consumer_pc \<Rightarrow> bool" where
  "consumer_ok P c = (case c of
     CWait i \<Rightarrow> i < total P
   | CRecv i j \<Rightarrow> i < total P \<and> j = i
   | CDeliver i recs n \<Rightarrow> i < total P \<and> (\<exists>pre. pi_results P ! i = Inr (pre, recs, n))
   | CRelease i n \<Rightarrow> i < total P
   | CSem i \<Rightarrow> i < total P
   | _ \<Rightarrow> True)"

text \<open>What holds while nobody interrupts.\<close>

definition order_inv :: "'s pipeline \<Rightarrow> 's \<Rightarrow> 's pstate \<Rightarrow> bool" where
  "order_inv P st s \<longleftrightarrow>
     (if stopped (ps_consumer s)
      then (ps_state s, ps_err s) = consume_results (pi_callback P) st (pi_results P)
      else \<not> ps_cancelled s \<and> ps_err s = None
        \<and> consumer_ok P (ps_consumer s)
        \<and> received (ps_consumer s) \<le> pushed (ps_launcher s)
        \<and> ps_order s = [received (ps_consumer s)..<pushed (ps_launcher s)]
        \<and> (launcher_done (ps_launcher s) \<longrightarrow> lindex (ps_launcher s) = total P)
        \<and> ps_sem s + delivered_slots (ps_consumer s) = acquired (ps_launcher s)
        \<and> (\<forall>k < lindex (ps_launcher s). ps_fetch s k \<noteq> FNone)
        \<and> (\<forall>k res. taken (ps_consumer s) \<le> k \<longrightarrow> ps_fetch s k \<noteq> FTaken res)
        \<and> (\<forall>k res. ps_fetch s k = FGot res \<or> ps_fetch s k = FSent res \<longrightarrow> res = pi_results P ! k)
        \<and> consume_results (pi_callback P) st (take (delivered (ps_consumer s)) (pi_results P)) = (ps_state s, None))"

lemma consume_append:
  "consume_results f s (xs @ ys) =
     (case consume_results f s xs of (s', Some e) \<Rightarrow> (s', Some e) | (s', None) \<Rightarrow> consume_results f s' ys)"
  by (induction f s xs rule: consume_results.induct) (auto split: sum.splits prod.splits option.splits)

lemma consume_take_Suc:
  assumes "consume_results f s (take i rs) = (s1, None)" "i < length rs" "rs ! i = Inr (pre, recs, n)"
  shows "consume_results f s (take (Suc i) rs) = deliver f s1 recs"
  using assms by (auto simp: take_Suc_conv_app_nth consume_append split: prod.splits option.splits)

lemma consume_stops:
  assumes "consume_results f s (take i rs) = (s1, Some e)"
  shows "consume_results f s rs = (s1, Some e)"
proof -
  have "consume_results f s (take i rs @ drop i rs) = (s1, Some e)" unfolding consume_append assms by simp
  then show ?thesis by simp
qed

lemma order_inv_init: "order_inv P st (prefetch_init P st)"
  by (auto simp: order_inv_def prefetch_init_def consumer_ok_def)

lemma order_inv_launcher:
  assumes "launcher_step P s t" "order_inv P st s" "window_inv P s"
  shows "order_inv P st t"
  using assms(1)
proof (cases rule: launcher_step.cases)
  case (spawn i)
  then have "i < total P" using assms(3) by (simp add: window_inv_def)
  then show ?thesis using assms(2) spawn by (auto simp: order_inv_def less_Suc_eq)
qed (use assms(2) in \<open>auto simp: order_inv_def split: if_splits\<close>)

lemma order_inv_fetch:
  assumes "fetch_step P s t" "order_inv P st s"
  shows "order_inv P st t"
  using assms(1)
proof (cases rule: fetch_step.cases)
  case (fetched k res)
  then show ?thesis using assms(2) by (auto simp: order_inv_def split: if_splits)
next
  case (send k res)
  then show ?thesis using assms(2) by (auto simp: order_inv_def split: if_splits)
qed

lemma broadcast_simps [simp]:
  "lindex (broadcast l) = lindex l" "launcher_done (broadcast l) = launcher_done l" "pushed (broadcast l) = pushed l"
  "acquired (broadcast l) = acquired l" "broadcast l \<noteq> LParked i"
  by (cases l; simp add: broadcast_def)+

lemma order_inv_consumer:
  assumes "consumer_step P s t" "order_inv P st s"
  shows "order_inv P st t"
proof -
  have run: "ps_fetch s k = FSent res \<Longrightarrow> res = pi_results P ! k" if "\<not> stopped (ps_consumer s)" for k res
    using assms(2) that by (auto simp: order_inv_def)
  show ?thesis using assms(1)
  proof (cases rule: consumer_step.cases)
    case (future i j rest)
    have eq: "j # rest = [i..<pushed (ps_launcher s)]" using assms(2) future by (simp add: order_inv_def)
    then have i: "i < pushed (ps_launcher s)" by (cases "i < pushed (ps_launcher s)") simp_all
    then have "j = i" "rest = [Suc i..<pushed (ps_launcher s)]" using eq by (simp_all add: upt_conv_Cons)
    then show ?thesis using assms(2) future i by (auto simp: order_inv_def consumer_ok_def)
  next
    case (recv_err i j err)
    have ji: "j = i" "i < total P" "consume_results (pi_callback P) st (take i (pi_results P)) = (ps_state s, None)"
      using assms(2) recv_err by (auto simp: order_inv_def consumer_ok_def)
    moreover have "pi_results P ! i = Inl err" using run [of j "Inl err"] recv_err ji by simp
    ultimately have "consume_results (pi_callback P) st (take (Suc i) (pi_results P)) = (ps_state s, Some err)"
      by (simp add: take_Suc_conv_app_nth consume_append)
    then show ?thesis using recv_err consume_stops by (fastforce simp: order_inv_def)
  next
    case (recv i j pre recs n)
    have "j = i" using assms(2) recv by (simp add: order_inv_def consumer_ok_def)
    moreover have "pi_results P ! j = Inr (pre, recs, n)" using run [of j "Inr (pre, recs, n)"] recv by simp
    ultimately show ?thesis using assms(2) recv by (auto simp: order_inv_def consumer_ok_def)
  next
    case (deliver_err i recs n st' err)
    obtain pre where d: "i < total P" "pi_results P ! i = Inr (pre, recs, n)"
      "consume_results (pi_callback P) st (take i (pi_results P)) = (ps_state s, None)"
      using assms(2) deliver_err by (auto simp: order_inv_def consumer_ok_def)
    then have "consume_results (pi_callback P) st (take (Suc i) (pi_results P)) = (st', Some err)"
      using consume_take_Suc [OF d(3,1,2)] deliver_err by simp
    then show ?thesis using deliver_err consume_stops by (fastforce simp: order_inv_def)
  next
    case (deliver i recs n st')
    obtain pre where d: "i < total P" "pi_results P ! i = Inr (pre, recs, n)"
      "consume_results (pi_callback P) st (take i (pi_results P)) = (ps_state s, None)"
      using assms(2) deliver by (auto simp: order_inv_def consumer_ok_def)
    then have "consume_results (pi_callback P) st (take (Suc i) (pi_results P)) = (st', None)"
      using consume_take_Suc [OF d(3,1,2)] deliver by simp
    then show ?thesis using assms(2) deliver by (auto simp: order_inv_def consumer_ok_def)
  next
    case (release i n)
    then show ?thesis using assms(2) by (auto simp: order_inv_def consumer_ok_def)
  next
    case (sem i)
    then show ?thesis using assms(2) by (auto simp: order_inv_def consumer_ok_def)
  next
    case stop
    then show ?thesis using assms(2) by (auto simp: order_inv_def)
  next
    case (join m)
    then show ?thesis using assms(2) by (auto simp: order_inv_def)
  qed
qed

lemma order_inv_reachable: "preachable P st s \<Longrightarrow> order_inv P st s"
proof (induction rule: preachable.induct)
  case (step s t)
  have w: "window_inv P s" using step.hyps(1) by (intro window_inv_reachable [OF preachable_ireachable])
  show ?case using step.hyps(2)
  proof (cases rule: pstep.cases)
    case 1
    then show ?thesis using step.IH w by (rule order_inv_launcher)
  next
    case 2
    then show ?thesis using step.IH by (rule order_inv_fetch)
  next
    case 3
    then show ?thesis using step.IH by (rule order_inv_consumer)
  qed
qed (rule order_inv_init)

section \<open>Progress\<close>

lemma launcher_moves:
  assumes "\<not> launcher_done (ps_launcher s)" "\<forall>i. ps_launcher s \<noteq> LParked i"
    and "ps_cancelled s \<or> ps_sem s < pi_window P \<or> (\<forall>i. ps_launcher s \<noteq> LWindow i)"
    and "length (ps_order s) < pi_window P \<or> ps_cancelled s \<or> (\<forall>i. ps_launcher s \<noteq> LOrder i)"
  shows "\<exists>t. launcher_step P s t"
proof (cases "ps_launcher s")
  case (LBudget i)
  then show ?thesis using launcher_step.park launcher_step.budget by blast
next
  case (LCheck i)
  then show ?thesis using launcher_step.check launcher_step.check_stop by blast
next
  case (LWindow i)
  then show ?thesis using assms(3) launcher_step.window launcher_step.window_stop by blast
next
  case (LOrder i)
  then show ?thesis using assms(4) launcher_step.order launcher_step.order_stop by blast
next
  case (LSpawn i)
  then show ?thesis using launcher_step.spawn by blast
qed (use assms(1,2) in auto)

lemma fetch_moves:
  assumes "window_inv P s" "ps_fetch s k = FRun \<or> (\<exists>res. ps_fetch s k = FGot res)"
  shows "\<exists>t. fetch_step P s t"
proof -
  have "k < total P" using window_inv_dom [OF assms(1), of k] assms(2) by auto
  then show ?thesis using assms(2) fetch_step.fetched fetch_step.send by blast
qed

lemma order_not_full:
  assumes "window_inv P s" "ps_launcher s = LOrder i"
  shows "length (ps_order s) < pi_window P"
proof -
  have "int (length (ps_order s)) + unpushed (ps_launcher s) + holding (ps_consumer s) \<le> int (ps_sem s)" "ps_sem s \<le> pi_window P"
    using assms(1) unfolding window_inv_def by blast+
  moreover have "0 \<le> holding (ps_consumer s)" by (cases "ps_consumer s") simp_all
  ultimately show ?thesis using assms(2) by simp
qed

lemma empty_pipeline_parks_not:
  assumes w: "window_inv P s" and o: "order_inv P st s" and c: "ps_consumer s = CWait i" and l: "ps_launcher s = LParked i"
  shows False
proof -
  have b: "ps_buffered s = fetched_bytes (total P) (ps_fetch s)" "0 < pi_maxMem P" "pi_maxMem P \<le> ps_buffered s"
    using w c l by (simp_all add: window_inv_def)
  have "weight (ps_fetch s k) = 0" for k
  proof (cases "k < i")
    case True
    have "in_flight (total P) (ps_fetch s) + reserved (ps_launcher s) + consuming (ps_consumer s) \<le> int (ps_sem s)"
      using w unfolding window_inv_def by blast
    moreover have "ps_sem s + delivered_slots (ps_consumer s) = acquired (ps_launcher s)"
      using o c by (simp add: order_inv_def)
    ultimately have "in_flight (total P) (ps_fetch s) \<le> 0" using c l by simp
    then have "(\<Sum>k<total P. active (ps_fetch s k)) = 0" unfolding in_flight_def
      by (simp add: order.antisym sum_nonneg)
    then have "\<forall>k<total P. active (ps_fetch s k) = 0" by (simp add: sum_nonneg_eq_0_iff)
    then show ?thesis using window_inv_dom [OF w, of k] by (cases "ps_fetch s k") auto
  next
    case False
    then have "ps_fetch s k = FNone" using w l by (simp add: window_inv_def)
    then show ?thesis by simp
  qed
  then have "ps_buffered s = 0" using b(1) by (simp add: fetched_bytes_def)
  then show False using b by simp
qed

lemma progress:
  assumes w: "window_inv P s" and o: "order_inv P st s" and n: "0 < pi_window P" and nr: "ps_consumer s \<noteq> CReturn"
  shows "\<exists>t. pstep P s t"
proof (cases "ps_consumer s")
  case (CWait i)
  show ?thesis
  proof (cases "ps_order s")
    case Nil
    have run: "ps_order s = [i..<pushed (ps_launcher s)]" "i \<le> pushed (ps_launcher s)" "i < total P"
      "ps_sem s + i = acquired (ps_launcher s)" "launcher_done (ps_launcher s) \<longrightarrow> lindex (ps_launcher s) = total P"
      using o CWait by (auto simp: order_inv_def consumer_ok_def)
    then have "[i..<pushed (ps_launcher s)] = []" using Nil by simp
    then have p: "pushed (ps_launcher s) = i" using run(2) by (auto simp: upt_eq_Nil_conv)
    have "\<not> launcher_done (ps_launcher s)" using run p by (cases "ps_launcher s") auto
    moreover have "\<forall>j. ps_launcher s \<noteq> LParked j" using empty_pipeline_parks_not [OF w o CWait] p by auto
    moreover have "ps_sem s < pi_window P \<or> (\<forall>j. ps_launcher s \<noteq> LWindow j)" using run p n by auto
    ultimately show ?thesis using launcher_moves [of s P] order_not_full [OF w] pstep.intros(1) by blast
  next
    case (Cons j rest)
    then show ?thesis using CWait consumer_step.future pstep.intros(3) by blast
  qed
next
  case (CRecv i j)
  have run: "j = i" "Suc i \<le> pushed (ps_launcher s)" "\<forall>k < lindex (ps_launcher s). ps_fetch s k \<noteq> FNone"
    "\<forall>res. ps_fetch s i \<noteq> FTaken res"
    using o CRecv by (auto simp: order_inv_def consumer_ok_def)
  show ?thesis
  proof (cases "ps_fetch s i")
    case FNone
    then have "\<not> i < lindex (ps_launcher s)" using run(3) by blast
    then have "ps_launcher s = LSpawn i" using run(2) by (cases "ps_launcher s") auto
    then show ?thesis using launcher_step.spawn pstep.intros(1) by blast
  next
    case (FSent res)
    then show ?thesis using CRecv run(1) consumer_step.recv consumer_step.recv_err pstep.intros(3)
      by (cases res) (auto, blast+)
  next
    case (FTaken res)
    then show ?thesis using run(4) by blast
  qed (use fetch_moves [OF w, of i] pstep.intros(2) in blast)+
next
  case (CDeliver i recs m)
  obtain st' e where d: "deliver (pi_callback P) (ps_state s) recs = (st', e)" by (rule prod.exhaust)
  show ?thesis
    using consumer_step.deliver [OF CDeliver] consumer_step.deliver_err [OF CDeliver] d pstep.intros(3) by (cases e) blast+
next
  case (CRelease i m)
  then show ?thesis using consumer_step.release pstep.intros(3) by blast
next
  case (CSem i)
  have "0 < ps_sem s"
  proof -
    have "int (length (ps_order s)) + unpushed (ps_launcher s) + holding (ps_consumer s) \<le> int (ps_sem s)"
      using w unfolding window_inv_def by blast
    moreover have "0 \<le> unpushed (ps_launcher s)" by (cases "ps_launcher s") simp_all
    ultimately show ?thesis using CSem by simp
  qed
  then show ?thesis using CSem consumer_step.sem pstep.intros(3) by blast
next
  case CStop
  then show ?thesis using consumer_step.stop pstep.intros(3) by blast
next
  case CJoin
  have c: "ps_cancelled s" "\<forall>i. ps_launcher s \<noteq> LParked i" using w CJoin by (simp_all add: window_inv_def)
  show ?thesis
  proof (cases "launcher_done (ps_launcher s)")
    case False
    then show ?thesis using launcher_moves [of s P] c pstep.intros(1) by blast
  next
    case True
    then obtain m where m: "ps_launcher s = LDone m" by (cases "ps_launcher s") auto
    show ?thesis
    proof (cases "\<exists>k. ps_fetch s k = FRun \<or> (\<exists>res. ps_fetch s k = FGot res)")
      case True
      then show ?thesis using fetch_moves [OF w] pstep.intros(2) by blast
    next
      case False
      then show ?thesis using consumer_step.join [OF CJoin m] pstep.intros(3) by blast
    qed
  qed
qed (use nr in simp)

section \<open>Termination\<close>

fun launcher_rank :: "nat \<Rightarrow> launcher_pc \<Rightarrow> nat" where
  "launcher_rank T (LBudget i) = 6 * (T - i) + 5" | "launcher_rank T (LParked i) = 6 * (T - i) + 4"
| "launcher_rank T (LCheck i) = 6 * (T - i) + 3" | "launcher_rank T (LWindow i) = 6 * (T - i) + 2"
| "launcher_rank T (LOrder i) = 6 * (T - i) + 1" | "launcher_rank T (LSpawn i) = 6 * (T - i)"
| "launcher_rank T (LDone n) = 0"

fun consumer_rank :: "nat \<Rightarrow> consumer_pc \<Rightarrow> nat" where
  "consumer_rank T (CWait i) = 6 * (T - i) + 8" | "consumer_rank T (CRecv i j) = 6 * (T - i) + 7"
| "consumer_rank T (CDeliver i r n) = 6 * (T - i) + 6" | "consumer_rank T (CRelease i n) = 6 * (T - i) + 5"
| "consumer_rank T (CSem i) = 6 * (T - i) + 4" | "consumer_rank T CStop = 2" | "consumer_rank T CJoin = 1"
| "consumer_rank T CReturn = 0"

fun fetch_rank :: "fetch_pc \<Rightarrow> nat" where
  "fetch_rank FNone = 3" | "fetch_rank FRun = 2" | "fetch_rank (FGot r) = 1" | "fetch_rank _ = 0"

definition steps_left :: "'s pipeline \<Rightarrow> 's pstate \<Rightarrow> nat" where
  "steps_left P s = 2 * consumer_rank (total P) (ps_consumer s) + launcher_rank (total P) (ps_launcher s)
     + (\<Sum>k<total P. fetch_rank (ps_fetch s k))"

lemma sum_rank_upd:
  "j < n \<Longrightarrow> fetch_rank x < fetch_rank (f j) \<Longrightarrow> (\<Sum>k<n. fetch_rank ((f(j := x)) k)) < (\<Sum>k<(n::nat). fetch_rank (f k))"
  by (rule sum_strict_mono_ex1) auto

lemma sum_rank_le:
  "fetch_rank x \<le> fetch_rank (f j) \<Longrightarrow> (\<Sum>k<n. fetch_rank ((f(j := x)) k)) \<le> (\<Sum>k<(n::nat). fetch_rank (f k))"
  by (rule sum_mono) auto

lemma broadcast_rank: "launcher_rank T (broadcast l) \<le> launcher_rank T l + 1"
  by (cases l) (simp_all add: broadcast_def)

lemma steps_left_decreases:
  assumes "pstep P s t" "window_inv P s"
  shows "steps_left P t < steps_left P s"
  using assms(1)
proof (cases rule: pstep.cases)
  case 1
  then show ?thesis
  proof (cases rule: launcher_step.cases)
    case (spawn i)
    have i: "i < total P" using assms(2) spawn by (simp add: window_inv_def)
    moreover have "total P - i = Suc (total P - Suc i)" using i by simp
    moreover have "ps_fetch s i = FNone" using assms(2) spawn by (simp add: window_inv_def)
    ultimately show ?thesis
      using spawn sum_rank_upd [of i "total P" FRun "ps_fetch s"] by (simp add: steps_left_def del: fun_upd_apply)
  qed (simp_all add: steps_left_def)
next
  case 2
  then show ?thesis
  proof (cases rule: fetch_step.cases)
    case (fetched k res)
    then show ?thesis using sum_rank_upd [of k "total P" "FGot res" "ps_fetch s"]
      by (simp add: steps_left_def del: fun_upd_apply)
  next
    case (send k res)
    then show ?thesis using sum_rank_upd [of k "total P" "FSent res" "ps_fetch s"] window_inv_dom(2) [OF assms(2), of k]
      by (simp add: steps_left_def del: fun_upd_apply)
  qed
next
  case 3
  then show ?thesis
  proof (cases rule: consumer_step.cases)
    case (recv_err i j err)
    then show ?thesis using sum_rank_le [of "FTaken (Inl err)" "ps_fetch s" j "total P"]
      by (simp add: steps_left_def del: fun_upd_apply)
  next
    case (recv i j pre recs n)
    then show ?thesis using sum_rank_le [of "FTaken (Inr (pre, recs, n))" "ps_fetch s" j "total P"]
      by (simp add: steps_left_def del: fun_upd_apply)
  next
    case (release i n)
    then show ?thesis using broadcast_rank [of "total P" "ps_launcher s"] by (simp add: steps_left_def)
  next
    case (sem i)
    have "total P - i = Suc (total P - Suc i)" if "Suc i < total P" using that by simp
    then show ?thesis using sem by (auto simp: steps_left_def)
  next
    case stop
    then show ?thesis using broadcast_rank [of "total P" "ps_launcher s"] by (simp add: steps_left_def)
  qed (simp_all add: steps_left_def)
qed

lemma prefetch_wf: "wf {(t, s). ireachable P st s \<and> pstep P s t}"
  by (rule wf_subset [OF wf_measure [of "steps_left P"]]) (auto dest: steps_left_decreases window_inv_reachable)

lemma stuck_returned:
  assumes "preachable P st s" "0 < pi_window P \<or> total P = 0" "\<nexists>t. pstep P s t"
  shows "ps_consumer s = CReturn"
proof (cases "total P = 0")
  case True
  have "s = prefetch_init P st"
    using assms(1)
  proof (induction rule: preachable.induct)
    case (step s t)
    then have "pstep P (prefetch_init P st) t" by simp
    then show ?case using True
      by (auto simp: prefetch_init_def elim!: pstepE launcher_stepE fetch_stepE consumer_stepE)
  qed simp
  then show ?thesis using True by (simp add: prefetch_init_def)
next
  case False
  then show ?thesis
    using assms(2,3) progress [OF window_inv_reachable [OF preachable_ireachable [OF assms(1)]] order_inv_reachable [OF assms(1)]]
    by auto
qed

lemma prefetch_returns:
  assumes "0 < pi_window P \<or> total P = 0"
  shows "\<exists>s. preachable P st s \<and> ps_consumer s = CReturn"
proof -
  have "preachable P st s \<Longrightarrow> \<exists>t. preachable P st t \<and> ps_consumer t = CReturn" for s
  proof (induction "steps_left P s" arbitrary: s rule: less_induct)
    case less
    show ?case
    proof (cases "\<exists>t. pstep P s t")
      case True
      then obtain t where t: "pstep P s t" by blast
      then have "steps_left P t < steps_left P s"
        by (rule steps_left_decreases [OF _ window_inv_reachable [OF preachable_ireachable [OF less.prems]]])
      then show ?thesis using less.hyps preachable.step [OF less.prems t] by blast
    next
      case False
      then show ?thesis using stuck_returned [OF less.prems assms] less.prems by blast
    qed
  qed
  from this [OF preachable.start] show ?thesis .
qed

lemma returned_result:
  assumes "preachable P st s" "ps_consumer s = CReturn"
  shows "(ps_state s, ps_err s) = consume_results (pi_callback P) st (pi_results P)"
  using order_inv_reachable [OF assms(1)] assms(2) by (simp add: order_inv_def)

section \<open>Sizes\<close>

definition sizes_ok :: "nat \<Rightarrow> 's pstate \<Rightarrow> bool" where
  "sizes_ok m s \<longleftrightarrow> (\<forall>k. weight (ps_fetch s k) \<le> int m * active (ps_fetch s k)) \<and> consuming_size (ps_consumer s) \<le> int m"

lemma sizes_step:
  assumes "pstep P s t" "window_inv P s" "sizes_ok m s" "\<And>r. r \<in> set (pi_results P) \<Longrightarrow> result_size r \<le> int m"
  shows "sizes_ok m t"
  using assms(1)
proof (cases rule: pstep.cases)
  case 1
  then show ?thesis by (cases rule: launcher_step.cases) (use assms(3) in \<open>auto simp: sizes_ok_def\<close>)
next
  case 2
  then show ?thesis
  proof (cases rule: fetch_step.cases)
    case (fetched k res)
    have "result_size res \<le> int m" using fetched assms(4) by (cases res) auto
    then show ?thesis using assms(3) fetched by (auto simp: sizes_ok_def)
  next
    case (send k res)
    have "weight (ps_fetch s k) \<le> int m * active (ps_fetch s k)" using assms(3) by (simp add: sizes_ok_def)
    then show ?thesis using assms(3) send by (auto simp: sizes_ok_def)
  qed
next
  case 3
  then show ?thesis
  proof (cases rule: consumer_step.cases)
    case (recv i j pre recs n)
    have "weight (ps_fetch s j) \<le> int m * active (ps_fetch s j)" using assms(3) by (simp add: sizes_ok_def)
    then show ?thesis using assms(3) recv by (auto simp: sizes_ok_def)
  qed (use assms(3) in \<open>auto simp: sizes_ok_def\<close>)
qed

lemma sizes_reachable:
  assumes "ireachable P st s" "\<And>r. r \<in> set (pi_results P) \<Longrightarrow> result_size r \<le> int m"
  shows "sizes_ok m s"
  using assms(1)
proof (induction rule: ireachable.induct)
  case start
  show ?case by (simp add: sizes_ok_def prefetch_init_def)
next
  case (step s t)
  show ?case by (rule sizes_step [OF step.hyps(2) window_inv_reachable [OF step.hyps(1)] step.IH assms(2)])
next
  case (interrupted s)
  then show ?case by (simp add: sizes_ok_def interrupt_def)
qed

section \<open>Properties\<close>

text \<open>
  C19. The prefetcher refines the sequential walk: under every interleaving of the launcher, the fetches
  and the consumer, and for every window and byte budget, a walk that returns has called the callback as
  the strictly sequential loop does and returns its error.
\<close>
theorem prefetch_refines_sequential:
  assumes "op_FetchConcurrency (sr_opts sr) > 1" "reader_context sr = Background"
    and "preachable (reader_pipeline sr f) st s" "ps_consumer s = CReturn"
  shows "(ps_state s, ps_err s) = walk_sequential Background
      (openOneShard Background (rr_store sr) (rr_root sr) (DeriveMK (rr_master sr) (rr_runIDBytes sr)) (rr_runIDBytes sr))
      f st 0 (rm_Shards (rr_root sr))
    \<and> walkShards sr f st = (ps_state s, ps_err s)"
proof -
  have nc: "reader_context sr j = None" for j by (simp add: assms(2) Background_def)
  have "(ps_state s, ps_err s) = walkShards sr f st"
    using returned_result [OF assms(3,4)] assms(1) by (simp add: reader_pipeline_def walkShards_def Let_def)
  then show ?thesis using walkShards_eq [of sr f st, OF nc] by (simp add: fetch_of_def assms(2))
qed

text \<open>
  The memory bound of the prefetcher, in every state, interrupted or not: the shards in flight or
  buffered and the one being consumed are at most the window, the order channel never fills, and while
  the walk runs the byte count is exactly the size of the fetched shards that are not consumed, so it is
  never negative and never above the window times the size of the largest shard.
\<close>
theorem prefetch_window:
  assumes "ireachable P st s" "\<And>r. r \<in> set (pi_results P) \<Longrightarrow> result_size r \<le> int m"
  shows "in_flight (total P) (ps_fetch s) + consuming (ps_consumer s) \<le> int (pi_window P)
    \<and> length (ps_order s) \<le> pi_window P
    \<and> (stopped (ps_consumer s)
         \<or> ps_buffered s = fetched_bytes (total P) (ps_fetch s) + consuming_size (ps_consumer s)
           \<and> 0 \<le> ps_buffered s \<and> ps_buffered s \<le> int (pi_window P * m))"
proof -
  note w = window_inv_reachable [OF assms(1)]
  have nn: "0 \<le> unpushed (ps_launcher s)" "0 \<le> reserved (ps_launcher s)" by (cases "ps_launcher s"; simp)+
  have nn': "0 \<le> holding (ps_consumer s)" by (cases "ps_consumer s") simp_all
  have a: "in_flight (total P) (ps_fetch s) + consuming (ps_consumer s) \<le> int (pi_window P)"
    "length (ps_order s) \<le> pi_window P"
    using w nn nn' by (simp_all add: window_inv_def)
  note sz = sizes_reachable [OF assms]
  have "fetched_bytes (total P) (ps_fetch s) \<le> (\<Sum>k<total P. int m * active (ps_fetch s k))"
    unfolding fetched_bytes_def by (rule sum_mono) (use sz in \<open>auto simp: sizes_ok_def\<close>)
  then have f: "fetched_bytes (total P) (ps_fetch s) \<le> int m * in_flight (total P) (ps_fetch s)"
    by (simp add: in_flight_def sum_distrib_left)
  have c: "consuming_size (ps_consumer s) \<le> int m * consuming (ps_consumer s)" "0 \<le> consuming_size (ps_consumer s)"
    using sz by (cases "ps_consumer s"; simp add: sizes_ok_def)+
  have "0 \<le> fetched_bytes (total P) (ps_fetch s)" unfolding fetched_bytes_def by (rule sum_nonneg) simp
  moreover have "int m * (in_flight (total P) (ps_fetch s) + consuming (ps_consumer s)) \<le> int m * int (pi_window P)"
    using a(1) by (rule mult_left_mono) simp
  moreover have "stopped (ps_consumer s) \<or> ps_buffered s = fetched_bytes (total P) (ps_fetch s) + consuming_size (ps_consumer s)"
    using w unfolding window_inv_def by blast
  ultimately show ?thesis using a f c by (auto simp: distrib_left mult.commute)
qed

text \<open>
  C38. The prefetcher never runs on for ever: with interrupts or without, no infinite sequence of steps of
  its goroutines starts in a state it can reach.
\<close>
theorem prefetch_terminates:
  "wf {(t, s). ireachable P st s \<and> pstep P s t}"
  by (rule prefetch_wf)

text \<open>
  C37. Without an interrupt the prefetcher never deadlocks, neither on the window nor on the order channel
  nor parked on the byte budget: in every state its goroutines reach, some goroutine can move or the walk
  has returned.
\<close>
theorem prefetch_deadlock_free:
  assumes "preachable P st s" "0 < pi_window P"
  shows "ps_consumer s = CReturn \<or> (\<exists>t. pstep P s t)"
  using stuck_returned [OF assms(1)] assms(2) by blast

section \<open>An interrupted pipeline\<close>

definition hang_result :: shard_result where
  "hang_result = Inr (zero_ShardPreamble, [], 1)"

definition hang_pipeline :: "nat pipeline" where
  "hang_pipeline = \<lparr>pi_results = [hang_result, hang_result], pi_window = 1, pi_maxMem = 0, pi_callback = (\<lambda>s r. (s + 1, None))\<rparr>"

definition hang_state ::
  "launcher_pc \<Rightarrow> consumer_pc \<Rightarrow> fetch_pc \<Rightarrow> nat list \<Rightarrow> nat \<Rightarrow> int \<Rightarrow> bool \<Rightarrow> nat pstate" where
  "hang_state l c f q m b x =
     \<lparr>ps_launcher = l, ps_consumer = c, ps_fetch = (\<lambda>_. FNone)(0 := f), ps_order = q, ps_sem = m,
      ps_buffered = b, ps_cancelled = x, ps_state = 0, ps_err = None\<rparr>"

lemmas hang_simps = hang_state_def hang_pipeline_def hang_result_def over_budget_def broadcast_def

lemma hang_reachable: "ireachable hang_pipeline 0 (hang_state (LDone 1) (CWait 1) (FTaken hang_result) [] 0 0 True)"
proof -
  let ?r = "ireachable hang_pipeline 0" and ?R = hang_result
  note L = ireachable.step [OF _ pstep.intros(1)] and F = ireachable.step [OF _ pstep.intros(2)]
    and C = ireachable.step [OF _ pstep.intros(3)]
  have "?r (hang_state (LBudget 0) (CWait 0) FNone [] 0 0 False)"
    using ireachable.start [of hang_pipeline 0] by (simp add: prefetch_init_def hang_simps fun_upd_idem)
  then have "?r (hang_state (LCheck 0) (CWait 0) FNone [] 0 0 False)"
    by (rule L) (use launcher_step.budget [of "hang_state (LBudget 0) (CWait 0) FNone [] 0 0 False" 0 hang_pipeline] in \<open>simp add: hang_simps\<close>)
  then have "?r (hang_state (LWindow 0) (CWait 0) FNone [] 0 0 False)"
    by (rule L) (use launcher_step.check [of "hang_state (LCheck 0) (CWait 0) FNone [] 0 0 False" 0 hang_pipeline] in \<open>simp add: hang_simps\<close>)
  then have "?r (hang_state (LOrder 0) (CWait 0) FNone [] 1 0 False)"
    by (rule L) (use launcher_step.window [of "hang_state (LWindow 0) (CWait 0) FNone [] 0 0 False" 0 hang_pipeline] in \<open>simp add: hang_simps\<close>)
  then have "?r (hang_state (LSpawn 0) (CWait 0) FNone [0] 1 0 False)"
    by (rule L) (use launcher_step.order [of "hang_state (LOrder 0) (CWait 0) FNone [] 1 0 False" 0 hang_pipeline] in \<open>simp add: hang_simps\<close>)
  then have "?r (hang_state (LBudget 1) (CWait 0) FRun [0] 1 0 False)"
    by (rule L) (use launcher_step.spawn [of "hang_state (LSpawn 0) (CWait 0) FNone [0] 1 0 False" 0 hang_pipeline] in \<open>simp add: hang_simps\<close>)
  then have "?r (hang_state (LCheck 1) (CWait 0) FRun [0] 1 0 False)"
    by (rule L) (use launcher_step.budget [of "hang_state (LBudget 1) (CWait 0) FRun [0] 1 0 False" 1 hang_pipeline] in \<open>simp add: hang_simps\<close>)
  then have "?r (hang_state (LWindow 1) (CWait 0) FRun [0] 1 0 False)"
    by (rule L) (use launcher_step.check [of "hang_state (LCheck 1) (CWait 0) FRun [0] 1 0 False" 1 hang_pipeline] in \<open>simp add: hang_simps\<close>)
  then have "?r (hang_state (LWindow 1) (CWait 0) (FGot ?R) [0] 1 1 False)"
    by (rule F) (use fetch_step.fetched [of "hang_state (LWindow 1) (CWait 0) FRun [0] 1 0 False" 0 hang_pipeline hang_result] in \<open>simp add: hang_simps\<close>)
  then have "?r (hang_state (LWindow 1) (CWait 0) (FSent ?R) [0] 1 1 False)"
    by (rule F) (use fetch_step.send [of "hang_state (LWindow 1) (CWait 0) (FGot ?R) [0] 1 1 False" 0 hang_result hang_pipeline] in \<open>simp add: hang_simps\<close>)
  then have "?r (interrupt (hang_state (LWindow 1) (CWait 0) (FSent ?R) [0] 1 1 False))"
    by (rule ireachable.interrupted)
  then have "?r (hang_state (LWindow 1) (CWait 0) (FSent ?R) [0] 1 1 True)"
    by (simp add: interrupt_def hang_state_def)
  then have "?r (hang_state (LDone 1) (CWait 0) (FSent ?R) [0] 1 1 True)"
    by (rule L) (use launcher_step.window_stop [of "hang_state (LWindow 1) (CWait 0) (FSent ?R) [0] 1 1 True" 1 hang_pipeline] in \<open>simp add: hang_simps\<close>)
  then have "?r (hang_state (LDone 1) (CRecv 0 0) (FSent ?R) [] 1 1 True)"
    by (rule C) (use consumer_step.future [of "hang_state (LDone 1) (CWait 0) (FSent ?R) [0] 1 1 True" 0 0 "[]" hang_pipeline] in \<open>simp add: hang_simps\<close>)
  then have "?r (hang_state (LDone 1) (CDeliver 0 [] 1) (FTaken ?R) [] 1 1 True)"
    by (rule C) (use consumer_step.recv [of "hang_state (LDone 1) (CRecv 0 0) (FSent ?R) [] 1 1 True" 0 0 zero_ShardPreamble "[]" 1 hang_pipeline] in \<open>simp add: hang_simps\<close>)
  then have "?r (hang_state (LDone 1) (CRelease 0 1) (FTaken ?R) [] 1 1 True)"
    by (rule C) (use consumer_step.deliver [of "hang_state (LDone 1) (CDeliver 0 [] 1) (FTaken ?R) [] 1 1 True" 0 "[]" 1 hang_pipeline 0] in \<open>simp add: hang_simps\<close>)
  then have "?r (hang_state (LDone 1) (CSem 0) (FTaken ?R) [] 1 0 True)"
    by (rule C) (use consumer_step.release [of "hang_state (LDone 1) (CRelease 0 1) (FTaken ?R) [] 1 1 True" 0 1 hang_pipeline] in \<open>simp add: hang_simps\<close>)
  then show ?thesis
    by (rule C) (use consumer_step.sem [of "hang_state (LDone 1) (CSem 0) (FTaken ?R) [] 1 0 True" 0 hang_pipeline] in \<open>simp add: hang_simps\<close>)
qed

lemma hang_stuck: "\<not> pstep hang_pipeline (hang_state (LDone 1) (CWait 1) (FTaken hang_result) [] 0 0 True) t"
  by (auto simp: hang_state_def elim!: pstepE launcher_stepE fetch_stepE consumer_stepE split: if_splits)

text \<open>
  An interrupt can hang the prefetcher: with a window of one and two shards that can both be fetched, a
  cancellation that arrives while the launcher waits for the window leaves, once the first shard is consumed,
  a state in which no goroutine can move and the walk has not returned. The consumer waits for a future
  the launcher, which has gone, will never push.
\<close>
theorem interrupt_hangs_prefetch:
  "\<exists>(P :: nat pipeline) s. total P = 2 \<and> \<not> list_ex isl (pi_results P) \<and> pi_window P = 1
     \<and> ireachable P 0 s \<and> ps_consumer s = CWait 1 \<and> ps_err s = None \<and> \<not> (\<exists>t. pstep P s t)"
  using hang_reachable hang_stuck
  by (intro exI [of _ hang_pipeline] exI [of _ "hang_state (LDone 1) (CWait 1) (FTaken hang_result) [] 0 0 True"])
    (simp add: hang_simps)

theorem prefetch_window_witness:
  "in_flight 2 ((\<lambda>_. FNone)(0 := FTaken hang_result)) + consuming (CWait 1) \<le> 1"
proof -
  have "\<And>r. r \<in> set (pi_results hang_pipeline) \<Longrightarrow> result_size r \<le> int 1" by (simp add: hang_pipeline_def hang_result_def)
  from prefetch_window [OF hang_reachable this] show ?thesis
    by (simp add: hang_state_def hang_pipeline_def numeral_2_eq_2)
qed

theorem prefetch_deadlock_free_witness:
  "\<exists>t. pstep hang_pipeline (prefetch_init hang_pipeline 0) t"
  using prefetch_deadlock_free [OF preachable.start [of hang_pipeline 0]]
  by (simp add: hang_pipeline_def prefetch_init_def)

definition ex_options :: Options where
  "ex_options = \<lparr>op_MinRunlogIndex = 0, op_AllowStale = False, op_AllowUnverifiedRunlog = False, op_AllowUnverified = False,
     op_CheckRecoveryBundle = False, op_FetchConcurrency = 2, op_MaxMemoryBytes = 0\<rparr>"

definition ex_stream :: StreamReader where
  "ex_stream = \<lparr>rr_store = \<lparr>st_Get = (\<lambda>key. Inl (Sentinel ''gone'')), st_GetReader = None, st_GetContext = None,
       st_GetLimit = None, st_List = None\<rparr>,
     rr_ctx = None, rr_runIDBytes = [], rr_master = [],
     rr_root = zero_RootManifest\<lparr>rm_Shards := [\<lparr>sh_ID = ''s0'', sh_Object = ''o0'', sh_SHA384 = ''''\<rparr>,
                                            \<lparr>sh_ID = ''s1'', sh_Object = ''o1'', sh_SHA384 = ''''\<rparr>]\<rparr>,
     rr_records = [], rr_preambles = [], rr_freshness = zero_FreshnessResult, rr_outcome = initial_outcome ex_options,
     sr_signer = \<lparr>vf_Ed = [], vf_MLDSA = []\<rparr>, sr_opts = ex_options, sr_recordCount = 0\<rparr>"

theorem prefetch_refines_sequential_witness:
  "\<exists>s. preachable (reader_pipeline ex_stream (\<lambda>n r. (n + 1, None))) (0 :: nat) s \<and> ps_consumer s = CReturn \<and> ps_state s = 0
     \<and> ps_err s = Some (codedGet ExitIncomplete (Errorf ''read shard %s: %w'' [AStr ''s0'', AWrap (Sentinel ''gone'')]))"
proof -
  let ?f = "\<lambda>(n :: nat) (r :: ShardRecord). (n + 1, None :: goerr option)"
  have w: "0 < pi_window (reader_pipeline ex_stream ?f)"
    by (simp add: reader_pipeline_def ex_stream_def ex_options_def Let_def)
  obtain s where s: "preachable (reader_pipeline ex_stream ?f) 0 s" "ps_consumer s = CReturn"
    using prefetch_returns [of "reader_pipeline ex_stream ?f" 0] w by blast
  have c: "op_FetchConcurrency (sr_opts ex_stream) > 1" "reader_context ex_stream = Background"
    by (simp_all add: ex_stream_def ex_options_def reader_context_def)
  have "(ps_state s, ps_err s) = (0, Some (codedGet ExitIncomplete (Errorf ''read shard %s: %w'' [AStr ''s0'', AWrap (Sentinel ''gone'')])))"
    using prefetch_refines_sequential [OF c s] by (simp add: ex_stream_def openOneShard_def openOneShardSized_def storeGet_def Background_def)
  then show ?thesis using s by blast
qed

end
