(* ===== verification/D1Transcode.thy ===== *)
theory D1Transcode
  imports ManifestCodec
begin

text \<open>
  \<open>internal/restore/d1transcode.go\<close>: a D1 dump, a JSON document, as the SQL an operator replays. A cell of
  a row is the JSON value its raw message holds. The single-statement scanner runs over the rest of the
  statement and carries the index it has reached. Then what the SQL it writes means to a lexer of SQLite's
  literals, identifiers and comments.
\<close>

section \<open>Formats\<close>

definition d1FormatFull :: string where "d1FormatFull = ''downpipe-d1-json/1''"
definition d1FormatHeader :: string where "d1FormatHeader = ''downpipe-d1-header/1''"
definition d1FormatRows :: string where "d1FormatRows = ''downpipe-d1-rows/1''"
definition d1FormatSchema :: string where "d1FormatSchema = ''downpipe-d1-schema/1''"
definition d1FormatFamily :: string where "d1FormatFamily = ''downpipe-d1-''"

definition d1KnownFormat :: "string \<Rightarrow> bool" where
  "d1KnownFormat label \<longleftrightarrow> label \<in> set [d1FormatFull, d1FormatHeader, d1FormatRows, d1FormatSchema]"

definition d1UnrenderableLabel :: "string \<Rightarrow> string" where
  "d1UnrenderableLabel label =
     (let label = TrimSpace label
      in if label = '''' \<or> \<not> prefix d1FormatFamily label \<or> d1KnownFormat label then '''' else label)"

definition d1DescriptorUnrenderable :: "ShardRecord \<Rightarrow> string" where
  "d1DescriptorUnrenderable rec = (case sr_D1 rec of None \<Rightarrow> '''' | Some d \<Rightarrow> d1UnrenderableLabel (d1_Format d))"

definition d1_head_fields :: "string fields" where
  "d1_head_fields = [fld ''format'' dec_string (\<lambda>m. m) (\<lambda>f. f)]"

definition d1BodyFormat :: "bytes \<Rightarrow> string" where
  "d1BodyFormat value =
     (let trimmed = TrimSpace (string_of value)
      in if trimmed = '''' \<or> hd trimmed \<noteq> CHR ''{'' then ''''
         else (case Unmarshal (dec_struct d1_head_fields) '''' trimmed of None \<Rightarrow> '''' | Some f \<Rightarrow> f))"

definition d1RecordUnrenderable :: "ShardRecord \<Rightarrow> bytes \<Rightarrow> string" where
  "d1RecordUnrenderable rec value =
     (let label = d1DescriptorUnrenderable rec
      in if label \<noteq> '''' then label else d1UnrenderableLabel (d1BodyFormat value))"

definition d1InsertBatch :: nat where "d1InsertBatch = 256"

section \<open>Patterns\<close>

definition re_space :: "char \<Rightarrow> bool" where
  "re_space c \<longleftrightarrow> c \<in> set [CHR 0x09, CHR 0x0A, CHR 0x0C, CHR 0x0D, CHR '' '']"

definition isIdentByte :: "char \<Rightarrow> bool" where
  "isIdentByte b \<longleftrightarrow> b = CHR ''_'' \<or> (code (CHR ''a'') \<le> code b \<and> code b \<le> code (CHR ''z''))
     \<or> (code (CHR ''A'') \<le> code b \<and> code b \<le> code (CHR ''Z'')) \<or> (code (CHR ''0'') \<le> code b \<and> code b \<le> code (CHR ''9''))"

text \<open>A word without regard to case, and one that ends at a word boundary.\<close>

definition match_word :: "string \<Rightarrow> string \<Rightarrow> string option" where
  "match_word w s = (if map ascii_upper (take (length w) s) = w then Some (drop (length w) s) else None)"

definition ends_word :: "string option \<Rightarrow> bool" where
  "ends_word r = (case r of None \<Rightarrow> False | Some [] \<Rightarrow> True | Some (c # _) \<Rightarrow> \<not> isIdentByte c)"

definition match_create :: "string \<Rightarrow> string option" where
  "match_create s =
     (case match_word ''CREATE'' (dropWhile re_space s) of
        Some (c # r) \<Rightarrow> if re_space c then Some (dropWhile re_space r) else None
      | _ \<Rightarrow> None)"

definition d1CreateTableRe :: "string \<Rightarrow> bool" where
  "d1CreateTableRe s = (case match_create s of None \<Rightarrow> False | Some r \<Rightarrow> ends_word (match_word ''TABLE'' r))"

definition d1CreateSchemaRe :: "string \<Rightarrow> bool" where
  "d1CreateSchemaRe s =
     (case match_create s of None \<Rightarrow> False
      | Some r \<Rightarrow> list_ex (\<lambda>w. ends_word (match_word w r)) [''INDEX'', ''TRIGGER'', ''VIEW''])"

definition d1CreateTriggerRe :: "string \<Rightarrow> bool" where
  "d1CreateTriggerRe s = (case match_create s of None \<Rightarrow> False | Some r \<Rightarrow> ends_word (match_word ''TRIGGER'' r))"

definition d1IntRe :: "string \<Rightarrow> bool" where
  "d1IntRe s = (let ds = (case s of c # r \<Rightarrow> if c = CHR ''-'' then r else s | [] \<Rightarrow> s) in ds \<noteq> [] \<and> list_all is_digit ds)"

definition d1NumRe :: "string \<Rightarrow> bool" where
  "d1NumRe s = (case lex_number s of Some (_, []) \<Rightarrow> True | _ \<Rightarrow> False)"

section \<open>One statement only\<close>

definition isSpaceByte :: "char \<Rightarrow> bool" where
  "isSpaceByte b \<longleftrightarrow> b \<in> set [CHR '' '', CHR 0x09, CHR 0x0A, CHR 0x0D, CHR 0x0C, CHR 0x0B]"

text \<open>What follows the closing delimiter, a doubled one being part of the text.\<close>

fun close_quote :: "char \<Rightarrow> string \<Rightarrow> string option" where
  "close_quote c [] = None"
| "close_quote c (x # s) =
     (if x = c then (case s of y # s' \<Rightarrow> if y = c then close_quote c s' else Some s | [] \<Rightarrow> Some [])
      else close_quote c s)"

text \<open>What follows the first occurrence of a text.\<close>

fun skip_past :: "string \<Rightarrow> string \<Rightarrow> string option" where
  "skip_past p [] = None"
| "skip_past p (x # s) = (if prefix p (x # s) then Some (drop (length p) (x # s)) else skip_past p s)"

lemma close_quote_shorter: "close_quote c s = Some r \<Longrightarrow> length r < length s"
  by (induction c s rule: close_quote.induct) (auto split: if_splits list.splits)

lemma skip_past_le: "skip_past p s = Some r \<Longrightarrow> length r \<le> length s"
  by (induction p s rule: skip_past.induct) (auto split: if_splits)

function d1TriggerActionFollows :: "string \<Rightarrow> bool" where
  "d1TriggerActionFollows [] = False"
| "d1TriggerActionFollows (c # s) =
     (if isSpaceByte c then d1TriggerActionFollows s
      else if c = CHR ''-'' \<and> prefix ''-'' s then
        (case skip_past [CHR 0x0A] s of None \<Rightarrow> False | Some r \<Rightarrow> d1TriggerActionFollows r)
      else if c = CHR ''/'' \<and> prefix ''*'' s then
        (case skip_past ''*/'' (tl s) of None \<Rightarrow> False | Some r \<Rightarrow> d1TriggerActionFollows r)
      else map ascii_upper (takeWhile isIdentByte (c # s))
             \<in> set [''INSERT'', ''UPDATE'', ''DELETE'', ''SELECT'', ''WITH'', ''REPLACE''])"
  by pat_completeness auto
termination
  by (relation "measure length") (auto dest!: skip_past_le)

declare d1TriggerActionFollows.simps [simp del]

text \<open>
  The scan over the rest of the statement: what follows the terminating semicolon, if there is one, and
  whether the body of a trigger is open.
\<close>

function d1_scan :: "bool \<Rightarrow> nat \<Rightarrow> bool \<Rightarrow> bool \<Rightarrow> string \<Rightarrow> goerr + string option \<times> bool" where
  "d1_scan allow i trig aft [] = Inr (None, trig)"
| "d1_scan allow i trig aft (c # s) =
     (if isSpaceByte c then d1_scan allow (i + 1) trig aft s
      else if c = CHR 0x27 \<or> c = CHR 0x22 \<or> c = CHR 0x60 then
        (case close_quote c s of
           None \<Rightarrow> Inl (Errorf ''statement has an unterminated %c...%c literal starting at byte %d'' [AStr [c], AStr [c], AInt (int i)])
         | Some r \<Rightarrow> d1_scan allow (i + 1 + (length s - length r)) trig False r)
      else if c = CHR ''['' then
        (case skip_past '']'' s of
           None \<Rightarrow> Inl (Errorf ''statement has an unterminated [...] identifier'' [])
         | Some r \<Rightarrow> d1_scan allow (i + 1 + (length s - length r)) trig False r)
      else if c = CHR ''-'' \<and> prefix ''-'' s then
        (case skip_past [CHR 0x0A] s of
           None \<Rightarrow> Inl (Errorf ''statement has an unterminated -- comment (no trailing newline)'' [])
         | Some r \<Rightarrow> d1_scan allow (i + 1 + (length s - length r)) trig aft r)
      else if c = CHR ''/'' \<and> prefix ''*'' s then
        (case skip_past ''*/'' (tl s) of
           None \<Rightarrow> Inl (Errorf ''statement has an unterminated /* */ comment'' [])
         | Some r \<Rightarrow> d1_scan allow (i + 1 + (length s - length r)) trig aft r)
      else if c = CHR '';'' then
        (if allow \<and> trig then d1_scan allow (i + 1) trig True s else Inr (Some s, trig))
      else if allow \<and> isIdentByte c then
        (let w = takeWhile isIdentByte (c # s); r = dropWhile isIdentByte s; kw = map ascii_upper w;
             trig' = (if kw = ''BEGIN'' then trig \<or> d1TriggerActionFollows r
                      else if kw = ''END'' then trig \<and> \<not> aft else trig)
         in d1_scan allow (i + length w) trig' False r)
      else d1_scan allow (i + 1) trig False s)"
  by pat_completeness auto
termination
  by (relation "measure (\<lambda>(allow, i, trig, aft, s). length s)")
     (auto dest!: skip_past_le close_quote_shorter simp: le_imp_less_Suc length_dropWhile_le)

declare d1_scan.simps [simp del]

definition d1RequireSingleStatement :: "string \<Rightarrow> bool \<Rightarrow> goerr + unit" where
  "d1RequireSingleStatement stmt allowTriggerBody =
     rbind (d1_scan allowTriggerBody 0 False False stmt) (\<lambda>(term, triggerOpen).
       if allowTriggerBody \<and> triggerOpen
       then Inl (Errorf ''statement's CREATE TRIGGER body never reaches a closing END'' [])
       else (let rest = (case term of None \<Rightarrow> '''' | Some r \<Rightarrow> r)
             in if TrimSpace rest \<noteq> ''''
                then Inl (Errorf ''statement carries content after its terminating ';' (more than one statement)'' [])
                else Inr ()))"

section \<open>Literals and rows\<close>

definition double_char :: "char \<Rightarrow> string \<Rightarrow> string" where
  "double_char q s = concat (map (\<lambda>c. if c = q then [q, q] else [c]) s)"

definition quoteIdent :: "string \<Rightarrow> string" where
  "quoteIdent name = [CHR 0x22] @ double_char (CHR 0x22) name @ [CHR 0x22]"

definition d1TaggedLiteral :: "(string \<times> jval) list \<Rightarrow> goerr + string" where
  "d1TaggedLiteral kvs =
     (let obj = last_wins kvs
      in if length obj \<noteq> 1 then Inl (Errorf ''tagged cell must carry exactly one of $blob or $int'' [])
         else (case map_of obj ''$blob'' of
           Some raw \<Rightarrow>
             rbind (of_opt (Errorf ''$blob cell is not a string: %w'' [AWrap (JsonErr ''string'')]) (dec_string raw '''')) (\<lambda>s.
             rbind (of_opt (Errorf ''$blob cell is not valid base64url: %w'' [AWrap (Base64Err s)]) (b64_decode (trim_right_set ''='' s)))
               (\<lambda>b. Inr (''x'' @ [CHR 0x27] @ hex_encode b @ [CHR 0x27])))
         | None \<Rightarrow>
             (case map_of obj ''$int'' of
                Some raw \<Rightarrow>
                  rbind (of_opt (Errorf ''$int cell is not a string: %w'' [AWrap (JsonErr ''string'')]) (dec_string raw '''')) (\<lambda>s.
                    if \<not> d1IntRe s then Inl (Errorf ''$int cell %q is not a decimal integer'' [AStr s]) else Inr s)
              | None \<Rightarrow> Inl (Errorf ''tagged cell carries an unknown tag'' []))))"

definition d1Literal :: "jval \<Rightarrow> goerr + string" where
  "d1Literal raw =
     (case raw of
        JNull \<Rightarrow> Inr ''NULL''
      | JString s \<Rightarrow> Inr ([CHR 0x27] @ double_char (CHR 0x27) s @ [CHR 0x27])
      | JObject kvs \<Rightarrow> d1TaggedLiteral kvs
      | JArray _ \<Rightarrow> Inl (Errorf ''array cell is not a valid D1 value'' [])
      | JBool _ \<Rightarrow> Inl (Errorf ''boolean cell is not a valid D1 value'' [])
      | JNumber num \<Rightarrow> if \<not> d1NumRe num then Inl (Errorf ''malformed numeric cell %q'' [AStr num]) else Inr num)"

fun row_literals :: "string \<Rightarrow> nat \<Rightarrow> nat \<Rightarrow> jval list \<Rightarrow> goerr + string list" where
  "row_literals table i j [] = Inr []"
| "row_literals table i j (cell # cells) =
     rbind (map_err (\<lambda>err. Errorf ''d1 rows for %q row %d column %d: %w'' [AStr table, AInt (int i), AInt (int j), AWrap err])
              (d1Literal cell)) (\<lambda>lit.
     rbind (row_literals table i (Suc j) cells) (\<lambda>lits. Inr (lit # lits)))"

definition newline :: string where "newline = [CHR 0x0A]"

fun batch_rows :: "string \<Rightarrow> string list \<Rightarrow> nat \<Rightarrow> jval list list \<Rightarrow> goerr + string" where
  "batch_rows table columns i [] = Inr ''''"
| "batch_rows table columns i (row # rows) =
     (if length row \<noteq> length columns then
        Inl (Errorf ''d1 rows for %q: row %d has %d cells, want %d''
               [AStr table, AInt (int i), AInt (int (length row)), AInt (int (length columns))])
      else rbind (row_literals table i 0 row) (\<lambda>lits.
           rbind (batch_rows table columns (Suc i) rows) (\<lambda>rest.
             Inr (''('' @ join '', '' lits @ '')'' @ (if rows = [] then '';'' else '','') @ newline @ rest))))"

function insert_batches :: "string \<Rightarrow> string list \<Rightarrow> string \<Rightarrow> nat \<Rightarrow> jval list list \<Rightarrow> goerr + string" where
  "insert_batches table columns hdr start rows =
     (if rows = [] then Inr ''''
      else rbind (batch_rows table columns start (take d1InsertBatch rows)) (\<lambda>b.
           rbind (insert_batches table columns hdr (start + d1InsertBatch) (drop d1InsertBatch rows)) (\<lambda>rest.
             Inr (hdr @ b @ rest))))"
  by pat_completeness auto
termination
  by (relation "measure (\<lambda>(table, columns, hdr, start, rows). length rows)") (auto simp: d1InsertBatch_def)

declare insert_batches.simps [simp del]

definition insert_head :: "string \<Rightarrow> string list \<Rightarrow> string" where
  "insert_head table columns =
     ''INSERT INTO '' @ quoteIdent table @ '' ('' @ join '', '' (map quoteIdent columns) @ '') VALUES'' @ newline"

definition writeInserts :: "string \<Rightarrow> string list \<Rightarrow> jval list list \<Rightarrow> goerr + string" where
  "writeInserts table columns rows =
     (if table = '''' then Inl (Errorf ''d1 rows record has no table name'' [])
      else if rows = [] then Inr ''''
      else if columns = [] then Inl (Errorf ''d1 rows for %q has no columns'' [AStr table])
      else rbind (insert_batches table columns (insert_head table columns) 0 rows) (\<lambda>body.
        Inr (''BEGIN TRANSACTION;'' @ newline @ body @ ''COMMIT;'' @ newline)))"

section \<open>The four bodies\<close>

record d1TableDDL =
  dt_Name :: string
  dt_SQL :: string
  dt_Columns :: "string list"
  dt_Rows :: "jval list list"

definition dec_cell :: "jval decoder" where
  "dec_cell v x = Some v"

definition zero_table :: d1TableDDL where
  "zero_table = \<lparr>dt_Name = '''', dt_SQL = '''', dt_Columns = [], dt_Rows = []\<rparr>"

definition ddl_fields :: "d1TableDDL fields" where
  "ddl_fields = [fld ''name'' dec_string dt_Name dt_Name_update, fld ''sql'' dec_string dt_SQL dt_SQL_update,
     fld ''columns'' (dec_list dec_string '''') dt_Columns dt_Columns_update]"

definition table_fields :: "d1TableDDL fields" where
  "table_fields = ddl_fields @ [fld ''rows'' (dec_list (dec_list dec_cell JNull) []) dt_Rows dt_Rows_update]"

definition header_fields :: "d1TableDDL list fields" where
  "header_fields = [fld ''tables'' (dec_list (dec_struct ddl_fields) zero_table) (\<lambda>m. m) (\<lambda>f. f)]"

definition schema_fields :: "string list fields" where
  "schema_fields = [fld ''schema'' (dec_list dec_string '''') (\<lambda>m. m) (\<lambda>f. f)]"

definition rows_fields :: "d1TableDDL fields" where
  "rows_fields = [fld ''table'' dec_string dt_Name dt_Name_update,
     fld ''columns'' (dec_list dec_string '''') dt_Columns dt_Columns_update,
     fld ''rows'' (dec_list (dec_list dec_cell JNull) []) dt_Rows dt_Rows_update]"

definition full_fields :: "(d1TableDDL list \<times> string list) fields" where
  "full_fields = [fld ''tables'' (dec_list (dec_struct table_fields) zero_table) fst apfst,
     fld ''schema'' (dec_list dec_string '''') snd apsnd]"

definition writeCreateTable :: "string \<Rightarrow> string \<Rightarrow> goerr + string" where
  "writeCreateTable name createSQL =
     (if name = '''' then Inl (Errorf ''d1 table entry has no name'' [])
      else if \<not> d1CreateTableRe createSQL
      then Inl (Errorf ''d1 table %q sql is not a CREATE TABLE statement'' [AStr name])
      else rbind (map_err (\<lambda>err. Errorf ''d1 table %q sql: %w'' [AStr name, AWrap err])
                   (d1RequireSingleStatement createSQL False)) (\<lambda>_.
        Inr (createSQL @ '';'' @ newline)))"

definition write_schema :: "string \<Rightarrow> string \<Rightarrow> goerr + string" where
  "write_schema what stmt =
     (if \<not> d1CreateSchemaRe stmt
      then Inl (Errorf (what @ '' entry is not a CREATE INDEX/TRIGGER/VIEW statement'') [])
      else rbind (map_err (\<lambda>err. Errorf (what @ '' entry: %w'') [AWrap err])
                   (d1RequireSingleStatement stmt (d1CreateTriggerRe stmt))) (\<lambda>_.
        Inr (stmt @ '';'' @ newline)))"

definition transcodeD1Header :: "string \<Rightarrow> goerr + string" where
  "transcodeD1Header b =
     rbind (of_opt (Errorf ''d1 header record: %w'' [AWrap (JsonErr ''header'')])
              (Unmarshal (dec_struct header_fields) [] b)) (\<lambda>tables.
     rbind (mapr (\<lambda>t. writeCreateTable (dt_Name t) (dt_SQL t)) tables) (\<lambda>parts. Inr (concat parts)))"

definition transcodeD1Schema :: "string \<Rightarrow> goerr + string" where
  "transcodeD1Schema b =
     rbind (of_opt (Errorf ''d1 schema record: %w'' [AWrap (JsonErr ''schema'')])
              (Unmarshal (dec_struct schema_fields) [] b)) (\<lambda>stmts.
     rbind (mapr (write_schema ''d1 schema'') stmts) (\<lambda>parts. Inr (concat parts)))"

definition transcodeD1Rows :: "string \<Rightarrow> goerr + string" where
  "transcodeD1Rows b =
     rbind (of_opt (Errorf ''d1 rows record: %w'' [AWrap (JsonErr ''rows'')])
              (Unmarshal (dec_struct rows_fields) zero_table b)) (\<lambda>r.
       writeInserts (dt_Name r) (dt_Columns r) (dt_Rows r))"

definition transcodeD1Full :: "string \<Rightarrow> goerr + string" where
  "transcodeD1Full b =
     rbind (of_opt (Errorf ''d1 full record: %w'' [AWrap (JsonErr ''full'')])
              (Unmarshal (dec_struct full_fields) ([], []) b)) (\<lambda>(tables, schema).
     rbind (mapr (\<lambda>t. writeCreateTable (dt_Name t) (dt_SQL t)) tables) (\<lambda>ddl.
     rbind (mapr (\<lambda>t. writeInserts (dt_Name t) (dt_Columns t) (dt_Rows t)) tables) (\<lambda>ins.
     rbind (mapr (write_schema ''d1 full schema'') schema) (\<lambda>tailp.
       Inr (concat ddl @ concat ins @ concat tailp)))))"

definition transcodeD1 :: "bytes \<Rightarrow> goerr + bytes option" where
  "transcodeD1 value =
     (let trimmed = TrimSpace (string_of value)
      in if trimmed = '''' \<or> hd trimmed \<noteq> CHR ''{'' then Inr None
         else (case Unmarshal (dec_struct d1_head_fields) '''' trimmed of
           None \<Rightarrow> Inr None
         | Some f \<Rightarrow>
             if f = d1FormatHeader then rbind (transcodeD1Header trimmed) (\<lambda>s. Inr (Some (bytes_of s)))
             else if f = d1FormatRows then rbind (transcodeD1Rows trimmed) (\<lambda>s. Inr (Some (bytes_of s)))
             else if f = d1FormatSchema then rbind (transcodeD1Schema trimmed) (\<lambda>s. Inr (Some (bytes_of s)))
             else if f = d1FormatFull then rbind (transcodeD1Full trimmed) (\<lambda>s. Inr (Some (bytes_of s)))
             else Inr None))"

definition maybeTranscodeD1 :: "bytes \<Rightarrow> goerr + bytes" where
  "maybeTranscodeD1 value =
     rbind (transcodeD1 value) (\<lambda>r. Inr (case r of Some sql \<Rightarrow> sql | None \<Rightarrow> value))"

end
