(* ===== verification/D1Facts.thy ===== *)
theory D1Facts
  imports D1Transcode
begin

text \<open>
  What SQLite reads in the text \<open>D1Transcode\<close> writes. The reference is an automaton over single characters
  that knows the spans in which SQLite does not see a semicolon: the three kinds of quotes with their
  doubled delimiter, brackets, and the two kinds of comments. A statement ends at a semicolon outside them.
\<close>

section \<open>A lexer of SQLite's spans\<close>

datatype sqlst = SPlain | SQuote char | SQuoteEnd char | SBracket | SDash | SLine | SSlash | SBlock | SStar

definition sql_plain :: "char \<Rightarrow> sqlst" where
  "sql_plain c =
     (if c = CHR 0x27 \<or> c = CHR 0x22 \<or> c = CHR 0x60 then SQuote c else if c = CHR ''['' then SBracket
      else if c = CHR ''-'' then SDash else if c = CHR ''/'' then SSlash else SPlain)"

fun sql_step :: "sqlst \<Rightarrow> char \<Rightarrow> sqlst" where
  "sql_step SPlain c = sql_plain c"
| "sql_step (SQuote q) c = (if c = q then SQuoteEnd q else SQuote q)"
| "sql_step (SQuoteEnd q) c = (if c = q then SQuote q else sql_plain c)"
| "sql_step SBracket c = (if c = CHR '']'' then SPlain else SBracket)"
| "sql_step SDash c = (if c = CHR ''-'' then SLine else sql_plain c)"
| "sql_step SLine c = (if c = CHR 0x0A then SPlain else SLine)"
| "sql_step SSlash c = (if c = CHR ''*'' then SBlock else sql_plain c)"
| "sql_step SBlock c = (if c = CHR ''*'' then SStar else SBlock)"
| "sql_step SStar c = (if c = CHR ''/'' then SPlain else if c = CHR ''*'' then SStar else SBlock)"

fun outside :: "sqlst \<Rightarrow> bool" where
  "outside SPlain \<longleftrightarrow> True"
| "outside (SQuoteEnd q) \<longleftrightarrow> True"
| "outside SDash \<longleftrightarrow> True"
| "outside SSlash \<longleftrightarrow> True"
| "outside _ \<longleftrightarrow> False"

definition sql_run :: "sqlst \<Rightarrow> string \<Rightarrow> sqlst" where
  "sql_run st s = foldl sql_step st s"

text \<open>The statements of a script, the text after the last semicolon included.\<close>

fun sql_statements :: "sqlst \<Rightarrow> string \<Rightarrow> string \<Rightarrow> string list" where
  "sql_statements st cur [] = [cur]"
| "sql_statements st cur (c # s) =
     (if outside st \<and> c = CHR '';'' then cur # sql_statements SPlain [] s
      else sql_statements (sql_step st c) (cur @ [c]) s)"

definition statements :: "string \<Rightarrow> string list" where
  "statements script = filter (\<lambda>s. TrimSpace s \<noteq> '''') (sql_statements SPlain '''' script)"

text \<open>A text with no terminating semicolon.\<close>

fun quiet :: "sqlst \<Rightarrow> string \<Rightarrow> bool" where
  "quiet st [] \<longleftrightarrow> True"
| "quiet st (c # s) \<longleftrightarrow> \<not> (outside st \<and> c = CHR '';'') \<and> quiet (sql_step st c) s"

lemma sql_run_simps [simp]: "sql_run st [] = st" "sql_run st (c # s) = sql_run (sql_step st c) s"
  by (simp_all add: sql_run_def)

lemma sql_run_append [simp]: "sql_run st (a @ b) = sql_run (sql_run st a) b"
  by (simp add: sql_run_def)

lemma quiet_append [simp]: "quiet st (a @ b) \<longleftrightarrow> quiet st a \<and> quiet (sql_run st a) b"
  by (induction a arbitrary: st) auto

lemma statements_quiet: "quiet st a \<Longrightarrow> sql_statements st cur (a @ b) = sql_statements (sql_run st a) (cur @ a) b"
  by (induction a arbitrary: st cur) auto

lemma statements_terminated:
  "quiet st a \<Longrightarrow> outside (sql_run st a) \<Longrightarrow>
     sql_statements st cur (a @ CHR '';'' # b) = (cur @ a) # sql_statements SPlain '''' b"
  by (simp add: statements_quiet)

section \<open>The scanner\<close>

text \<open>The lexer is outside every span, and what follows does not extend the token it has just left.\<close>

definition ready :: "sqlst \<Rightarrow> string \<Rightarrow> bool" where
  "ready st s \<longleftrightarrow> outside st \<and> (case s of [] \<Rightarrow> True | c # _ \<Rightarrow> sql_step st c = sql_plain c)"

lemma ready_plain [simp]: "ready SPlain s"
  by (auto simp: ready_def split: list.splits)

lemma close_quote_run:
  assumes "close_quote q s = Some r" "q \<noteq> CHR '';''"
  shows "\<exists>pre. s = pre @ r \<and> sql_run (SQuote q) pre = SQuoteEnd q \<and> quiet (SQuote q) pre \<and> (r = [] \<or> hd r \<noteq> q)"
  using assms
proof (induction q s rule: close_quote.induct)
  case (2 q x s)
  show ?case
  proof (cases "x = q")
    case False
    then obtain pre where p: "s = pre @ r" "sql_run (SQuote q) pre = SQuoteEnd q" "quiet (SQuote q) pre" "r = [] \<or> hd r \<noteq> q"
      using 2(2,3,4) by auto
    then show ?thesis using False by (intro exI [of _ "x # pre"]) auto
  next
    case True
    show ?thesis
    proof (cases s)
      case Nil
      then show ?thesis using 2(3) True by (intro exI [of _ "[x]"]) auto
    next
      case (Cons y s')
      show ?thesis
      proof (cases "y = q")
        case True
        note yq = True
        then obtain pre where p: "s' = pre @ r" "sql_run (SQuote q) pre = SQuoteEnd q" "quiet (SQuote q) pre" "r = [] \<or> hd r \<noteq> q"
          using 2(1) [OF \<open>x = q\<close> Cons yq] 2(3,4) \<open>x = q\<close> Cons by auto
        then show ?thesis using yq \<open>x = q\<close> Cons 2(4) by (intro exI [of _ "x # y # pre"]) auto
      next
        case False
        then show ?thesis using 2(3) True Cons by (intro exI [of _ "[x]"]) auto
      qed
    qed
  qed
qed simp

lemma skip_char_run:
  assumes "skip_past [e] s = Some r" "\<not> outside st" "\<And>c. sql_step st c = (if c = e then SPlain else st)"
  shows "\<exists>pre. s = pre @ r \<and> sql_run st pre = SPlain \<and> quiet st pre"
  using assms(1)
proof (induction "[e]" s rule: skip_past.induct)
  case (2 x s)
  show ?case
  proof (cases "x = e")
    case True
    then show ?thesis using 2(2) assms by (intro exI [of _ "[x]"]) simp
  next
    case False
    then obtain pre where "s = pre @ r" "sql_run st pre = SPlain" "quiet st pre" using 2 by auto
    then show ?thesis using False assms by (intro exI [of _ "x # pre"]) simp
  qed
qed simp

lemma skip_block_run:
  assumes "skip_past ''*/'' s = Some r"
  shows "\<exists>pre. s = pre @ r \<and> sql_run SBlock pre = SPlain \<and> quiet SBlock pre"
  using assms
proof (induction "''*/''" s rule: skip_past.induct)
  case (2 x s)
  show ?case
  proof (cases "prefix ''*/'' (x # s)")
    case True
    then show ?thesis using 2(2) by (intro exI [of _ "''*/''"]) (auto simp: prefix_def)
  next
    case False
    then obtain pre where p: "s = pre @ r" "sql_run SBlock pre = SPlain" "quiet SBlock pre" using 2 by auto
    then obtain y pre' where pre: "pre = y # pre'" by (cases pre) auto
    show ?thesis
    proof (cases "x = CHR ''*''")
      case True
      then have "y \<noteq> CHR ''/''" using False p pre by (auto simp: prefix_def)
      then show ?thesis using p pre True by (intro exI [of _ "x # pre"]) (auto split: if_splits)
    next
      case False
      then show ?thesis using p by (intro exI [of _ "x # pre"]) simp
    qed
  qed
qed simp

lemma ident_plain: "isIdentByte c \<Longrightarrow> sql_plain c = SPlain \<and> c \<noteq> CHR '';''"
proof -
  have "list_all (\<lambda>d. \<not> isIdentByte d) [CHR 0x27, CHR 0x22, CHR 0x60, CHR ''['', CHR ''-'', CHR ''/'', CHR '';'']"
    by (simp add: isIdentByte_def code_def)
  then show "isIdentByte c \<Longrightarrow> sql_plain c = SPlain \<and> c \<noteq> CHR '';''"
    unfolding sql_plain_def by (auto simp: list_all_iff simp del: of_char_of)
qed

lemma list_all_takeWhile: "list_all P (takeWhile P xs)"
  by (induction xs) auto

lemma plain_run: "list_all (\<lambda>c. sql_plain c = SPlain \<and> c \<noteq> CHR '';'') s \<Longrightarrow> sql_run SPlain s = SPlain \<and> quiet SPlain s"
  by (induction s) auto

lemma ident_run: "list_all isIdentByte w \<Longrightarrow> sql_run SPlain w = SPlain \<and> quiet SPlain w"
  by (rule plain_run) (auto simp: list_all_iff dest: ident_plain)

text \<open>What a scan from a lexer outside every span has established of the text up to the semicolon it stopped at.\<close>

definition scanned :: "bool \<Rightarrow> sqlst \<Rightarrow> string \<Rightarrow> string option \<Rightarrow> bool" where
  "scanned allow st s term \<longleftrightarrow> (case term of
     None \<Rightarrow> outside (sql_run st s) \<and> (\<not> allow \<longrightarrow> quiet st s)
   | Some rest \<Rightarrow> \<exists>pre. s = pre @ CHR '';'' # rest \<and> outside (sql_run st pre) \<and> (\<not> allow \<longrightarrow> quiet st pre))"

lemma scanned_glue:
  assumes "scanned allow (sql_run st p) r term" "\<not> allow \<longrightarrow> quiet st p"
  shows "scanned allow st (p @ r) term"
proof (cases "term")
  case (Some rest)
  then obtain pre where "r = pre @ CHR '';'' # rest" "outside (sql_run (sql_run st p) pre)"
    "\<not> allow \<longrightarrow> quiet (sql_run st p) pre" using assms by (auto simp: scanned_def)
  then show ?thesis using assms Some by (auto simp: scanned_def intro!: exI [of _ "p @ pre"])
qed (use assms in \<open>auto simp: scanned_def\<close>)

lemma scanned_Cons:
  assumes "scanned allow (sql_step st c) r term" "\<not> allow \<longrightarrow> \<not> (outside st \<and> c = CHR '';'')"
  shows "scanned allow st (c # r) term"
proof -
  have "scanned allow st ([c] @ r) term" by (rule scanned_glue) (use assms in simp_all)
  then show ?thesis by simp
qed

lemma ready_step: "ready st (c # s) \<Longrightarrow> sql_step st c = sql_plain c"
  by (simp add: ready_def)

lemma space_plain: "isSpaceByte c \<Longrightarrow> sql_plain c = SPlain \<and> c \<noteq> CHR '';''"
  by (auto simp: isSpaceByte_def sql_plain_def)

lemma d1_scan_run:
  "d1_scan allow i trig aft s = Inr (term, trig') \<Longrightarrow> ready st s \<Longrightarrow> scanned allow st s term"
proof (induction allow i trig aft s arbitrary: st rule: d1_scan.induct)
  case (1 allow i trig aft)
  then show ?case by (auto simp: d1_scan.simps scanned_def ready_def)
next
  case (2 allow i trig aft c s)
  note IH = 2(1-8) and sc = 2(9) [unfolded d1_scan.simps(2)] and step = ready_step [OF 2(10)]
  consider (space) "isSpaceByte c"
    | (quote) "\<not> isSpaceByte c" "c = CHR 0x27 \<or> c = CHR 0x22 \<or> c = CHR 0x60"
    | (bracket) "\<not> isSpaceByte c" "\<not> (c = CHR 0x27 \<or> c = CHR 0x22 \<or> c = CHR 0x60)" "c = CHR ''[''"
    | (line) "\<not> isSpaceByte c" "c = CHR ''-''" "prefix ''-'' s"
    | (block) "\<not> isSpaceByte c" "c = CHR ''/''" "prefix ''*'' s"
    | (semi) "\<not> isSpaceByte c" "c = CHR '';''"
    | (ident) "\<not> isSpaceByte c" "\<not> (c = CHR 0x27 \<or> c = CHR 0x22 \<or> c = CHR 0x60)" "c \<noteq> CHR ''[''"
        "\<not> (c = CHR ''-'' \<and> prefix ''-'' s)" "\<not> (c = CHR ''/'' \<and> prefix ''*'' s)" "c \<noteq> CHR '';''" "allow \<and> isIdentByte c"
    | (other) "\<not> isSpaceByte c" "\<not> (c = CHR 0x27 \<or> c = CHR 0x22 \<or> c = CHR 0x60)" "c \<noteq> CHR ''[''"
        "\<not> (c = CHR ''-'' \<and> prefix ''-'' s)" "\<not> (c = CHR ''/'' \<and> prefix ''*'' s)" "c \<noteq> CHR '';''" "\<not> (allow \<and> isIdentByte c)"
    by blast
  then show ?case
  proof cases
    case space
    have "scanned allow SPlain s term" using IH(1) [OF space, of SPlain] sc space by simp
    then show ?thesis using step space_plain [OF space] by (intro scanned_Cons) auto
  next
    case quote
    then obtain r where r: "close_quote c s = Some r" "d1_scan allow (i + 1 + (length s - length r)) trig False r = Inr (term, trig')"
      using sc by (auto split: option.splits)
    obtain pre where p: "s = pre @ r" "sql_run (SQuote c) pre = SQuoteEnd c" "quiet (SQuote c) pre" "r = [] \<or> hd r \<noteq> c"
      using close_quote_run [OF r(1)] quote(2) by blast
    have "ready (SQuoteEnd c) r" using p(4) by (cases r) (auto simp: ready_def)
    then have "scanned allow (SQuoteEnd c) r term" using IH(2) [OF quote r] by simp
    then show ?thesis using step quote p by (intro scanned_Cons) (auto simp: sql_plain_def intro!: scanned_glue)
  next
    case bracket
    then obtain r where r: "skip_past '']'' s = Some r" "d1_scan allow (i + 1 + (length s - length r)) trig False r = Inr (term, trig')"
      using sc by (auto split: option.splits)
    obtain pre where p: "s = pre @ r" "sql_run SBracket pre = SPlain" "quiet SBracket pre"
      using skip_char_run [OF r(1), of SBracket] by auto
    have "scanned allow SPlain r term" using IH(3) [OF bracket r, of SPlain] by simp
    then show ?thesis using step bracket p by (intro scanned_Cons) (auto simp: sql_plain_def intro!: scanned_glue)
  next
    case line
    then obtain r where r: "skip_past [CHR 0x0A] s = Some r" "d1_scan allow (i + 1 + (length s - length r)) trig aft r = Inr (term, trig')"
      using sc by (auto split: option.splits)
    obtain s1 where s1: "s = CHR ''-'' # s1" using line by (auto simp: prefix_def)
    then obtain pre where p: "s1 = pre @ r" "sql_run SLine pre = SPlain" "quiet SLine pre"
      using r(1) skip_char_run [of "CHR 0x0A" s1 r SLine] by auto
    have "scanned allow SPlain r term" using IH(4) [OF line(1) _ _ _ r, of SPlain] line by simp
    then show ?thesis using step line s1 p by (auto simp: sql_plain_def intro!: scanned_Cons scanned_glue)
  next
    case block
    then obtain r where r: "skip_past ''*/'' (tl s) = Some r" "d1_scan allow (i + 1 + (length s - length r)) trig aft r = Inr (term, trig')"
      using sc by (auto split: option.splits)
    obtain s1 where s1: "s = CHR ''*'' # s1" using block by (auto simp: prefix_def)
    then obtain pre where p: "s1 = pre @ r" "sql_run SBlock pre = SPlain" "quiet SBlock pre"
      using r(1) skip_block_run [of s1 r] by auto
    have "scanned allow SPlain r term" using IH(5) [OF block(1) _ _ _ _ r, of SPlain] block by simp
    then show ?thesis using step block s1 p by (auto simp: sql_plain_def intro!: scanned_Cons scanned_glue)
  next
    case semi
    show ?thesis
    proof (cases "allow \<and> trig")
      case True
      have "scanned allow SPlain s term" using IH(6) [OF semi(1) _ _ _ _ _ True, of SPlain] sc semi True by simp
      then show ?thesis using step semi True by (intro scanned_Cons) (auto simp: sql_plain_def)
    next
      case False
      then have "term = Some s" using sc semi by (auto split: if_splits)
      then show ?thesis using 2(10) semi by (auto simp: scanned_def ready_def intro!: exI [of _ "[]"])
    qed
  next
    case ident
    let ?w = "takeWhile isIdentByte (c # s)" and ?r = "dropWhile isIdentByte s"
    have cs: "c # s = ?w @ ?r" using ident by simp
    have w: "?w = c # takeWhile isIdentByte s" using ident by simp
    have run: "sql_run st ?w = SPlain" 
      using step ident ident_plain [of c] ident_run [OF list_all_takeWhile, of s] unfolding w by simp
    have "scanned allow SPlain ?r term"
      by (rule IH(7) [OF ident refl refl refl refl
            sc [unfolded Let_def if_not_P [OF ident(1)] if_not_P [OF ident(2)] if_not_P [OF ident(3)]
              if_not_P [OF ident(4)] if_not_P [OF ident(5)] if_not_P [OF ident(6)] if_P [OF ident(7)]]]) simp
    then have "scanned allow st (?w @ ?r) term" using run ident by (intro scanned_glue) simp_all
    then show ?thesis by (simp only: cs [symmetric])
  next
    case other
    have "ready (sql_plain c) s" using other by (cases s) (auto simp: ready_def sql_plain_def)
    then have "scanned allow (sql_plain c) s term" using IH(8) [OF other, of "sql_plain c"] sc other by simp
    then show ?thesis using step other by (intro scanned_Cons) auto
  qed
qed

section \<open>White space\<close>

definition white_byte :: "char \<Rightarrow> bool" where
  "white_byte c \<longleftrightarrow> c \<in> set (concat white_space)"

lemma white_bytes: "list_all (\<lambda>c. sql_plain c = SPlain \<and> c \<noteq> CHR '';'' \<and> ascii_upper c \<noteq> CHR ''C'') (concat white_space)"
  by code_simp

lemma trim_left_split: "\<exists>p. s = p @ trim_left ps s \<and> set p \<subseteq> set (concat ps)"
proof (induction ps s rule: trim_left.induct)
  case (1 ps s)
  show ?case
  proof (cases "strip_one ps s")
    case None
    then show ?thesis by (simp add: trim_left.simps [of ps s])
  next
    case (Some t)
    then obtain w where w: "w \<in> set ps" "s = w @ t"
      by (auto simp: strip_one_def find_Some_iff prefix_def dest: nth_mem)
    obtain p where p: "t = p @ trim_left ps t" "set p \<subseteq> set (concat ps)" using 1 [OF Some] by blast
    have "trim_left ps s = trim_left ps t" using Some by (subst trim_left.simps) simp
    then have "s = (w @ p) @ trim_left ps s" using w(2) p(1) by simp
    moreover have "set (w @ p) \<subseteq> set (concat ps)" using w(1) p(2) by auto
    ultimately show ?thesis by blast
  qed
qed

lemma TrimSpace_blank: "TrimSpace s = '''' \<Longrightarrow> list_all white_byte s"
proof -
  assume b: "TrimSpace s = ''''"
  let ?t = "trim_left white_space s"
  obtain p where p: "s = p @ ?t" "set p \<subseteq> set (concat white_space)" using trim_left_split by blast
  obtain r where r: "rev ?t = r @ trim_left (map rev white_space) (rev ?t)" "set r \<subseteq> set (concat (map rev white_space))"
    using trim_left_split by blast
  have "rev ?t = r" using r(1) b by (simp add: TrimSpace_def)
  then have "set (rev ?t) \<subseteq> set (concat (map rev white_space))" using r(2) by simp
  then have "set ?t \<subseteq> set (concat white_space)" by (auto simp: set_concat)
  then have "set (p @ ?t) \<subseteq> set (concat white_space)" using p(2) by simp
  then have "set s \<subseteq> set (concat white_space)" using p(1) by metis
  then show ?thesis by (auto simp: list_all_iff white_byte_def simp del: set_concat)
qed

lemma blank_run:
  assumes "TrimSpace s = ''''"
  shows "sql_run SPlain s = SPlain \<and> quiet SPlain s"
  using plain_run [of s] TrimSpace_blank [OF assms] white_bytes unfolding white_byte_def list_all_iff by blast

section \<open>One statement for each entry\<close>

text \<open>The shape of an accepted entry: its statement, then possibly a semicolon and white space.\<close>

lemma single_statement:
  assumes "d1RequireSingleStatement e allow = Inr ()"
  obtains pre rest where "e = pre \<and> rest = None \<or> (\<exists>r. e = pre @ CHR '';'' # r \<and> rest = Some r \<and> TrimSpace r = '''')"
    "outside (sql_run SPlain pre)" "\<not> allow \<Longrightarrow> quiet SPlain pre"
proof -
  obtain "term" trig where s: "d1_scan allow 0 False False e = Inr (term, trig)" "term = None \<or> TrimSpace (the term) = ''''"
    using assms by (auto simp: d1RequireSingleStatement_def Let_def split: if_splits option.splits)
  have "scanned allow SPlain e term" by (rule d1_scan_run [OF s(1) ready_plain])
  then show ?thesis using s(2) that by (cases "term") (auto simp: scanned_def)
qed

lemma entry_closed:
  assumes "d1RequireSingleStatement e allow = Inr ()"
  shows "sql_run SPlain (e @ '';'' @ newline) = SPlain"
proof -
  obtain pre rest where e: "e = pre \<and> rest = None \<or> (\<exists>r. e = pre @ CHR '';'' # r \<and> rest = Some r \<and> TrimSpace r = '''')"
    "outside (sql_run SPlain pre)" by (rule single_statement [OF assms])
  have o: "outside st \<Longrightarrow> sql_step st (CHR '';'') = SPlain" if "\<And>q. st = SQuoteEnd q \<Longrightarrow> q \<noteq> CHR '';''" for st
    using that by (cases st) (auto simp: sql_plain_def)
  have q: "sql_run st s \<noteq> SQuoteEnd (CHR '';'')" if "st \<noteq> SQuoteEnd (CHR '';'')" "st \<noteq> SQuote (CHR '';'')" for st s
  proof -
    have "sql_run st s \<noteq> SQuoteEnd (CHR '';'') \<and> sql_run st s \<noteq> SQuote (CHR '';'')"
      using that
    proof (induction s arbitrary: st)
      case (Cons c s)
      show ?case unfolding sql_run_simps
        by (rule Cons.IH; use Cons.prems in \<open>cases st; auto simp: sql_plain_def split: if_splits\<close>)
    qed simp
    then show ?thesis ..
  qed
  have "sql_step (sql_run SPlain pre) (CHR '';'') = SPlain" using o e(2) q [of SPlain pre] by auto
  then show ?thesis using e(1) blank_run by (auto simp: newline_def sql_plain_def)
qed

definition visible :: "string list \<Rightarrow> string list" where
  "visible ss = filter (\<lambda>s. TrimSpace s \<noteq> '''') ss"

lemma visible_simps [simp]:
  "visible [] = []" "visible (s # ss) = (if TrimSpace s = '''' then visible ss else s # visible ss)"
  by (simp_all add: visible_def)

lemma TrimSpace_newline [simp]: "TrimSpace newline = ''''" "TrimSpace '''' = ''''"
  by (simp_all add: newline_def TrimSpace_def trim_left.simps strip_one_def white_space_def)

lemma match_wordD: "match_word w s = Some r \<Longrightarrow> map ascii_upper (take (length w) s) = w"
  by (simp add: match_word_def split: if_splits)

lemma match_word_cut:
  assumes "match_word w (x @ CHR '';'' # r) = Some t" "CHR '';'' \<notin> set w"
  shows "\<exists>t'. match_word w x = Some t' \<and> t = t' @ CHR '';'' # r"
proof -
  have "\<not> length x < length w"
  proof
    assume "length x < length w"
    then have "take (length w) (x @ CHR '';'' # r) = x @ CHR '';'' # take (length w - Suc (length x)) r"
      by (simp add: take_Cons')
    then have "ascii_upper (CHR '';'') \<in> set w" using assms(1) 
      by (metis (no_types, lifting) in_set_conv_decomp list.set_map map_append list.simps(9) match_word_def option.distinct(1))
    then show False using assms(2) by (simp add: ascii_upper_def)
  qed
  then show ?thesis using assms by (auto simp: match_word_def split: if_splits)
qed

lemma match_create_cut:
  assumes "match_create (x @ CHR '';'' # r) = Some t"
  shows "\<exists>t'. match_create x = Some t' \<and> t = t' @ CHR '';'' # r"
proof -
  obtain c u where m: "match_word ''CREATE'' (dropWhile re_space (x @ CHR '';'' # r)) = Some (c # u)" "re_space c"
    "t = dropWhile re_space u"
    using assms by (auto simp: match_create_def split: option.splits list.splits if_splits)
  have ns: "\<not> re_space (CHR '';'')" by (simp add: re_space_def)
  have "\<not> list_all re_space x"
  proof
    assume "list_all re_space x"
    then have "dropWhile re_space (x @ CHR '';'' # r) = CHR '';'' # r" using ns by (simp add: list_all_iff)
    then show False using m(1) by (simp add: match_word_def ascii_upper_def split: if_splits)
  qed
  then have d: "dropWhile re_space (x @ CHR '';'' # r) = dropWhile re_space x @ CHR '';'' # r"
    by (auto simp: list_all_iff dropWhile_append)
  obtain t' where t': "match_word ''CREATE'' (dropWhile re_space x) = Some t'" "c # u = t' @ CHR '';'' # r"
    using match_word_cut [OF m(1) [unfolded d]] by auto
  then obtain u' where u: "t' = c # u'" "u = u' @ CHR '';'' # r" using m(2) ns by (cases t') auto
  have "dropWhile re_space u = dropWhile re_space u' @ CHR '';'' # r"
    using ns by (auto simp: u dropWhile_append dropWhile_eq_Nil_conv)
  then show ?thesis using t'(1) u m by (simp add: match_create_def)
qed

lemma ends_word_cut: "ends_word (Some (t @ CHR '';'' # r)) \<Longrightarrow> ends_word (Some t)"
  by (cases t) (auto simp: ends_word_def)

lemma create_table_cut: "d1CreateTableRe (x @ CHR '';'' # r) \<Longrightarrow> d1CreateTableRe x"
proof -
  assume "d1CreateTableRe (x @ CHR '';'' # r)"
  then obtain t u where t: "match_create (x @ CHR '';'' # r) = Some t" "match_word ''TABLE'' t = Some u" "ends_word (Some u)"
    by (auto simp: d1CreateTableRe_def split: option.splits) (auto simp: ends_word_def split: option.splits)
  obtain t' where t': "match_create x = Some t'" "t = t' @ CHR '';'' # r" using match_create_cut [OF t(1)] by blast
  obtain u' where "match_word ''TABLE'' t' = Some u'" "u = u' @ CHR '';'' # r"
    using match_word_cut [of "''TABLE''" t' r u] t(2) t'(2) by auto
  then show ?thesis using t(3) t'(1) ends_word_cut by (simp add: d1CreateTableRe_def)
qed

lemma create_table_visible: "d1CreateTableRe s \<Longrightarrow> TrimSpace s \<noteq> ''''"
proof
  assume c: "d1CreateTableRe s" and b: "TrimSpace s = ''''"
  let ?d = "dropWhile re_space s"
  obtain r where "match_word ''CREATE'' ?d = Some r"
    using c by (cases "match_word ''CREATE'' ?d") (simp_all add: d1CreateTableRe_def match_create_def)
  then have "map ascii_upper (take (length ''CREATE'') ?d) = ''CREATE''" by (rule match_wordD)
  then have "\<exists>c \<in> set ?d. ascii_upper c = CHR ''C''" by (cases ?d) auto
  then obtain a where "a \<in> set s" "ascii_upper a = CHR ''C''" using set_dropWhileD by metis
  then show False using TrimSpace_blank [OF b] white_bytes unfolding list_all_iff white_byte_def by blast
qed

lemma create_table_spaces: "list_all re_space p \<Longrightarrow> d1CreateTableRe (p @ s) = d1CreateTableRe s"
  by (simp add: d1CreateTableRe_def match_create_def list_all_iff)

lemma create_table_statements:
  assumes "writeCreateTable n e = Inr out" "list_all re_space cur"
  shows "\<exists>s. d1CreateTableRe s \<and>
     visible (sql_statements SPlain cur (out @ t)) = s # visible (sql_statements SPlain newline t)"
proof -
  have a: "d1CreateTableRe e" "d1RequireSingleStatement e False = Inr ()" "out = e @ '';'' @ newline"
    using assms(1) by (auto simp: writeCreateTable_def split: if_splits)
  obtain pre rest where e: "e = pre \<and> rest = None \<or> (\<exists>r. e = pre @ CHR '';'' # r \<and> rest = Some r \<and> TrimSpace r = '''')"
    "outside (sql_run SPlain pre)" "quiet SPlain pre" using single_statement [OF a(2)] by metis
  have nl: "sql_statements SPlain '''' (newline @ t) = sql_statements SPlain newline t"
    by (simp add: newline_def sql_plain_def)
  have pre: "d1CreateTableRe (cur @ pre)"
    using e(1) a(1) create_table_cut create_table_spaces [OF assms(2)] by auto
  have "visible (sql_statements SPlain cur (out @ t)) = (cur @ pre) # visible (sql_statements SPlain newline t)"
  proof (cases rest)
    case None
    then have "out @ t = pre @ CHR '';'' # newline @ t" using a(3) e(1) by simp
    then show ?thesis using statements_terminated [OF e(3,2)] nl create_table_visible [OF pre] by simp
  next
    case (Some r)
    then have o: "out @ t = pre @ CHR '';'' # r @ CHR '';'' # newline @ t" and b: "TrimSpace r = ''''" using a(3) e(1) by auto
    have "sql_statements SPlain '''' (r @ CHR '';'' # newline @ t) = r # sql_statements SPlain newline t"
      using statements_terminated [of SPlain r "''''" "newline @ t"] blank_run [OF b] nl by simp
    then show ?thesis using o statements_terminated [OF e(3,2)] create_table_visible [OF pre] b by simp
  qed
  then show ?thesis using pre by blast
qed

lemma tables_statements:
  assumes "mapr (\<lambda>t. writeCreateTable (dt_Name t) (dt_SQL t)) tables = Inr parts" "list_all re_space cur" "TrimSpace cur = ''''"
  shows "length (visible (sql_statements SPlain cur (concat parts))) = length tables
     \<and> list_all d1CreateTableRe (visible (sql_statements SPlain cur (concat parts)))"
  using assms
proof (induction tables arbitrary: cur parts)
  case (Cons t ts)
  then obtain out outs where o: "writeCreateTable (dt_Name t) (dt_SQL t) = Inr out"
    "mapr (\<lambda>t. writeCreateTable (dt_Name t) (dt_SQL t)) ts = Inr outs" "parts = out # outs" by auto
  have nl: "list_all re_space newline" by (simp add: newline_def re_space_def)
  show ?case using create_table_statements [OF o(1) Cons.prems(2), of "concat outs"] Cons.IH [OF o(2) nl] o(3) by auto
qed simp

section \<open>Rows\<close>

text \<open>A text that shows no semicolon, read from outside every span, and leaves the lexer at the end of a token.\<close>

definition token_text :: "string \<Rightarrow> bool" where
  "token_text s \<longleftrightarrow> quiet SPlain s \<and> (sql_run SPlain s = SPlain \<or> sql_run SPlain s = SQuoteEnd (CHR 0x27)
     \<or> sql_run SPlain s = SQuoteEnd (CHR 0x22))"

lemma token_then:
  assumes "token_text s" "sql_plain c = SPlain" "c \<noteq> CHR '';''"
  shows "quiet SPlain (s @ [c])" "sql_run SPlain (s @ [c]) = SPlain"
  using assms by (auto simp: token_text_def sql_plain_def split: if_splits)

lemma token_text_plain: "list_all (\<lambda>c. sql_plain c = SPlain \<and> c \<noteq> CHR '';'') s \<Longrightarrow> token_text s"
  using plain_run [of s] by (simp add: token_text_def)

lemma token_text_join: "list_all token_text xs \<Longrightarrow> token_text (join '', '' xs)"
proof (induction xs rule: induct_list012)
  case 1
  then show ?case by (simp add: token_text_def)
next
  case (3 x y zs)
  have j: "join '', '' (x # y # zs) = (x @ ['','' ! 0]) @ '' '' @ join '', '' (y # zs)" by simp
  have c: "sql_plain ('','' ! 0) = SPlain" "'','' ! 0 \<noteq> CHR '';''" by (simp_all add: sql_plain_def)
  have t: "token_text x" "token_text (join '', '' (y # zs))" using 3 by simp_all
  note x = token_then [OF t(1) c]
  have sp: "sql_plain (CHR '' '') = SPlain" by (simp add: sql_plain_def)
  show ?case using t(2) x sp unfolding j token_text_def by (simp del: join.simps)
qed simp

lemma double_char_run: "sql_run (SQuote q) (double_char q s) = SQuote q \<and> (q \<noteq> CHR '';'' \<longrightarrow> quiet (SQuote q) (double_char q s))"
  by (induction s) (auto simp: double_char_def)

lemma quoted_run: "q = CHR 0x27 \<or> q = CHR 0x22 \<Longrightarrow>
  quiet SPlain ([q] @ double_char q s @ [q]) \<and> sql_run SPlain ([q] @ double_char q s @ [q]) = SQuoteEnd q"
  using double_char_run [of q s] by (auto simp: sql_plain_def)

lemma quoteIdent_token: "token_text (quoteIdent name)"
  using quoted_run [of "CHR 0x22" name] unfolding token_text_def quoteIdent_def by blast

lemma digit_plain: "is_digit c \<Longrightarrow> sql_plain c = SPlain \<and> c \<noteq> CHR '';'' \<and> c \<noteq> CHR ''-'' \<and> c \<noteq> CHR ''*''"
proof -
  have "list_all (\<lambda>d. \<not> is_digit d) [CHR 0x27, CHR 0x22, CHR 0x60, CHR ''['', CHR ''-'', CHR ''/'', CHR '';'', CHR ''*'']"
    by (simp add: is_digit_def code_def)
  then show "is_digit c \<Longrightarrow> sql_plain c = SPlain \<and> c \<noteq> CHR '';'' \<and> c \<noteq> CHR ''-'' \<and> c \<noteq> CHR ''*''"
    unfolding sql_plain_def by (auto simp: list_all_iff simp del: of_char_of)
qed

lemma digits_run:
  assumes "list_all is_digit ds" "ds \<noteq> []" "st = SPlain \<or> st = SDash"
  shows "sql_run st ds = SPlain \<and> quiet st ds"
proof -
  obtain d r where d: "ds = d # r" using assms(2) by (cases ds) auto
  have "sql_run SPlain r = SPlain \<and> quiet SPlain r"
    using assms(1) d by (intro plain_run) (auto simp: list_all_iff dest: digit_plain)
  then show ?thesis using assms(1,3) d digit_plain [of d] by auto
qed

lemma lex_int_run:
  assumes "lex_int s = Some (i, r)" "st = SPlain \<or> st = SDash"
  shows "s = i @ r \<and> sql_run st i = SPlain \<and> quiet st i"
proof -
  have "s = i @ r \<and> list_all is_digit i \<and> i \<noteq> []"
    using assms(1) by (auto simp: lex_int_def lex_digits_def list_all_takeWhile is_digit_def code_def split: list.splits if_splits)
  then show ?thesis using digits_run assms(2) by blast
qed

lemma lex_frac_run:
  assumes "lex_frac s = Some (f, r)"
  shows "s = f @ r \<and> sql_run SPlain f = SPlain \<and> quiet SPlain f"
proof -
  have "s = f @ r \<and> (f = [] \<or> (\<exists>ds. f = CHR ''.'' # ds \<and> ds \<noteq> [] \<and> list_all is_digit ds))"
    using assms by (auto simp: lex_frac_def lex_digits_def list_all_takeWhile Let_def split: list.splits if_splits)
  then show ?thesis using digits_run by (auto simp: sql_plain_def)
qed

lemma lex_exp_run:
  assumes "lex_exp s = Some (e, r)"
  shows "s = e @ r \<and> sql_run SPlain e = SPlain \<and> quiet SPlain e"
proof -
  have none: ?thesis if "e = []" "s = r" using that by simp
  show ?thesis
  proof (cases s)
    case (Cons c t)
    show ?thesis
    proof (cases "c = CHR ''e'' \<or> c = CHR ''E''")
      case True
      define p where "p = (case t of d # r' \<Rightarrow> if d = CHR ''+'' \<or> d = CHR ''-'' then ([d], r') else ([], t)
          | [] \<Rightarrow> ([], t))"
      obtain sg r1 where p: "p = (sg, r1)" by (cases p)
      then have sg: "t = sg @ r1" "sg = [] \<or> sg = ''+'' \<or> sg = ''-''"
        by (auto simp: p_def split: list.splits if_splits)
      let ?ds = "takeWhile is_digit r1"
      have d: "?ds \<noteq> []" "e = c # sg @ ?ds" "r = dropWhile is_digit r1"
        using assms p Cons True unfolding p_def by (auto simp: lex_exp_def lex_digits_def Let_def split: if_splits)
      have c: "sql_plain c = SPlain" "c \<noteq> CHR '';''" using True by (auto simp: sql_plain_def)
      have "sql_run SPlain sg = SPlain \<or> sql_run SPlain sg = SDash" "quiet SPlain sg"
        using sg(2) by (elim disjE; simp add: sql_plain_def)+
      then have cs: "sql_run SPlain (c # sg) = SPlain \<or> sql_run SPlain (c # sg) = SDash" "quiet SPlain (c # sg)"
        using c by simp_all
      have e: "e = (c # sg) @ ?ds" "s = e @ r" using d sg(1) Cons by simp_all
      have "sql_run SPlain e = SPlain \<and> quiet SPlain e"
        using digits_run [OF list_all_takeWhile d(1) cs(1)] cs(2)
        unfolding e(1) sql_run_append quiet_append by blast
      then show ?thesis using e(2) by blast
    next
      case False
      then show ?thesis using assms Cons none by (auto simp: lex_exp_def)
    qed
  qed (use assms none in \<open>auto simp: lex_exp_def\<close>)
qed

lemma number_token:
  assumes "d1NumRe num"
  shows "token_text num"
proof -
  obtain n r where nr: "lex_number num = Some (n, r)" using assms by (auto simp: d1NumRe_def split: option.splits)
  then have n: "lex_number num = Some (n, [])" using assms by (cases r) (simp_all add: d1NumRe_def)
  define p where "p = (case num of c # r \<Rightarrow> if c = CHR ''-'' then ([c], r) else ([], num) | [] \<Rightarrow> ([], num))"
  obtain sg r0 where p: "p = (sg, r0)" by (cases p)
  then have s: "num = sg @ r0" "sg = [] \<or> sg = ''-''" by (auto simp: p_def split: list.splits if_splits)
  obtain i r1 f r2 e where l: "lex_int r0 = Some (i, r1)" "lex_frac r1 = Some (f, r2)" "lex_exp r2 = Some (e, [])"
    using n p unfolding lex_number_def p_def [symmetric] by (auto split: option.splits)
  have st: "quiet SPlain sg" "sql_run SPlain sg = SPlain \<or> sql_run SPlain sg = SDash" using s(2) by (auto simp: sql_plain_def)
  show ?thesis
    using st s(1) lex_int_run [OF l(1) st(2)] lex_frac_run [OF l(2)] lex_exp_run [OF l(3)] by (auto simp: token_text_def)
qed

lemma int_token: "d1IntRe s \<Longrightarrow> token_text s"
proof -
  assume i: "d1IntRe s"
  define ds where "ds = (case s of c # r \<Rightarrow> if c = CHR ''-'' then r else s | [] \<Rightarrow> s)"
  have s: "ds \<noteq> []" "list_all is_digit ds" using i by (simp_all add: d1IntRe_def ds_def Let_def)
  have "s = ds \<or> s = CHR ''-'' # ds" by (auto simp: ds_def split: list.splits)
  then show ?thesis
  proof
    assume "s = ds"
    then show ?thesis using digits_run [OF s(2,1), of SPlain] by (simp add: token_text_def)
  next
    assume "s = CHR ''-'' # ds"
    then show ?thesis using digits_run [OF s(2,1), of SDash] by (simp add: token_text_def sql_plain_def)
  qed
qed

lemma hex_plain: "list_all (\<lambda>c. sql_plain c = SPlain \<and> c \<noteq> CHR '';'' \<and> c \<noteq> CHR 0x27) (hex_encode b)"
proof -
  have "list_all (\<lambda>n. sql_plain (hex_digit n) = SPlain \<and> hex_digit n \<noteq> CHR '';'' \<and> hex_digit n \<noteq> CHR 0x27) [0..<16]"
    by code_simp
  then have "n < 16 \<Longrightarrow> sql_plain (hex_digit n) = SPlain \<and> hex_digit n \<noteq> CHR '';'' \<and> hex_digit n \<noteq> CHR 0x27" for n
    by (simp add: list_all_iff)
  moreover have "unat w div 16 < 16" for w :: byte using unat_byte_lt [of w] by (simp add: less_mult_imp_div_less)
  ultimately show ?thesis by (auto simp: hex_encode_def list_all_iff)
qed

lemma quote_free: "list_all (\<lambda>c. c \<noteq> q) s \<Longrightarrow> double_char q s = s"
  by (induction s) (auto simp: double_char_def)

lemma blob_token: "token_text (''x'' @ [CHR 0x27] @ hex_encode b @ [CHR 0x27])"
proof -
  have "list_all (\<lambda>c. c \<noteq> CHR 0x27) (hex_encode b)" using hex_plain [of b] by (simp add: list_all_iff)
  then have d: "double_char (CHR 0x27) (hex_encode b) = hex_encode b" by (rule quote_free)
  show ?thesis using quoted_run [of "CHR 0x27" "hex_encode b"] unfolding d token_text_def by (simp add: sql_plain_def)
qed

lemma literal_token: "d1Literal cell = Inr lit \<Longrightarrow> token_text lit"
proof (cases cell)
  case JNull
  moreover have "token_text ''NULL''" by (rule token_text_plain) (simp add: sql_plain_def)
  ultimately show "d1Literal cell = Inr lit \<Longrightarrow> ?thesis" by (auto simp: d1Literal_def)
next
  case (JNumber x3)
  then show "d1Literal cell = Inr lit \<Longrightarrow> ?thesis" using number_token by (auto simp: d1Literal_def split: if_splits)
next
  case (JString x4)
  then show "d1Literal cell = Inr lit \<Longrightarrow> ?thesis"
    using quoted_run [of "CHR 0x27" x4] by (auto simp: d1Literal_def token_text_def)
next
  case (JObject kvs)
  then show "d1Literal cell = Inr lit \<Longrightarrow> ?thesis"
    using int_token blob_token
    by (auto simp: d1Literal_def d1TaggedLiteral_def Let_def split: if_splits option.splits)
qed (simp_all add: d1Literal_def)

lemma row_tokens: "row_literals table i j cells = Inr lits \<Longrightarrow> list_all token_text lits"
  by (induction table i j cells arbitrary: lits rule: row_literals.induct) (auto dest: literal_token)

lemma batch_text:
  assumes "batch_rows table columns i rows = Inr b" "rows \<noteq> []"
  shows "\<exists>q. b = q @ CHR '';'' # newline \<and> quiet SPlain q \<and> sql_run SPlain q = SPlain"
  using assms
proof (induction table columns i rows arbitrary: b rule: batch_rows.induct)
  case (2 table columns i row rows)
  then obtain lits rest where r: "row_literals table i 0 row = Inr lits" "batch_rows table columns (Suc i) rows = Inr rest"
    "b = ''('' @ join '', '' lits @ '')'' @ (if rows = [] then '';'' else '','') @ newline @ rest" "length row = length columns"
    by (auto split: if_splits)
  have t: "token_text (join '', '' lits)" by (intro token_text_join row_tokens [OF r(1)])
  have p: "sql_plain (CHR ''('') = SPlain" "sql_plain (CHR '')'') = SPlain" "sql_plain (CHR '','') = SPlain"
    "sql_plain (CHR 0x0A) = SPlain" by (simp_all add: sql_plain_def)
  have j: "quiet SPlain (''('' @ join '', '' lits @ '')'')" "sql_run SPlain (''('' @ join '', '' lits @ '')'') = SPlain"
    using token_then [OF t p(2)] p(1) by (simp_all del: quiet_append)
  show ?case
  proof (cases "rows = []")
    case True
    then show ?thesis using r j by (intro exI [of _ "''('' @ join '', '' lits @ '')''"]) auto
  next
    case False
    obtain q where q: "rest = q @ CHR '';'' # newline" "quiet SPlain q" "sql_run SPlain q = SPlain"
      using 2(1) r False by auto
    then show ?thesis using r(3) False j p
      by (intro exI [of _ "''('' @ join '', '' lits @ '')'' @ '','' @ newline @ q"]) (simp add: newline_def)
  qed
qed simp

lemma insert_head_text: "quiet SPlain (insert_head table columns) \<and> sql_run SPlain (insert_head table columns) = SPlain"
proof -
  have c: "token_text (join '', '' (map quoteIdent columns))"
    by (rule token_text_join) (simp add: list_all_iff quoteIdent_token)
  have p: "quiet SPlain ''INSERT INTO '' \<and> sql_run SPlain ''INSERT INTO '' = SPlain"
      "quiet SPlain ('' VALUES'' @ newline) \<and> sql_run SPlain ('' VALUES'' @ newline) = SPlain"
      "quiet SPlain ''('' \<and> sql_run SPlain ''('' = SPlain"
    by (simp_all add: newline_def sql_plain_def)
  have "insert_head table columns = ''INSERT INTO '' @ (quoteIdent table @ '' '') @ ''('' @ (join '', '' (map quoteIdent columns) @ '')'') @ ('' VALUES'' @ newline)"
    by (simp add: insert_head_def)
  then show ?thesis
    using p token_then [OF quoteIdent_token, of "CHR '' ''" table] token_then [OF c, of "CHR '')''"]
    by (simp add: sql_plain_def)
qed

lemma statements_newline: "sql_statements SPlain '''' (newline @ t) = sql_statements SPlain newline t"
  by (simp add: newline_def sql_plain_def)

lemma batch_count: "0 < n \<Longrightarrow> Suc ((n - 256 + 255) div 256) = (n + 255) div (256 :: nat)"
proof (cases "256 \<le> n")
  case True
  then have "n + 255 = (n - 256 + 255) + 256" by simp
  then show ?thesis by (metis Suc_eq_plus1 div_add_self2 zero_neq_numeral)
next
  case False
  assume "0 < n"
  then have "(n + 255) div 256 = 1" using False by (intro div_nat_eqI) simp_all
  then show ?thesis using False by simp
qed

lemma insert_statements:
  assumes "insert_batches table columns (insert_head table columns) start rows = Inr body"
  shows "\<exists>inserts. sql_statements SPlain newline (body @ t) = inserts @ sql_statements SPlain newline t
     \<and> length inserts = (length rows + 255) div 256
     \<and> list_all (\<lambda>s. prefix (newline @ insert_head table columns) s) inserts"
  using assms
proof (induction table columns "insert_head table columns" start rows arbitrary: body rule: insert_batches.induct)
  case (1 table columns start rows)
  show ?case
  proof (cases "rows = []")
    case True
    then have "body = ''''" using 1(2) by (simp add: insert_batches.simps)
    then show ?thesis using True by simp
  next
    case False
    then obtain b rest where b: "batch_rows table columns start (take d1InsertBatch rows) = Inr b"
      "insert_batches table columns (insert_head table columns) (start + d1InsertBatch) (drop d1InsertBatch rows) = Inr rest"
      "body = insert_head table columns @ b @ rest"
      using 1(2) by (auto simp: insert_batches.simps [of table columns _ start rows])
    have ne: "take d1InsertBatch rows \<noteq> []" using False by (simp add: d1InsertBatch_def)
    obtain q where q: "b = q @ CHR '';'' # newline" "quiet SPlain q" "sql_run SPlain q = SPlain"
      using batch_text [OF b(1) ne] by blast
    obtain inserts where i: "sql_statements SPlain newline (rest @ t) = inserts @ sql_statements SPlain newline t"
      "length inserts = (length (drop d1InsertBatch rows) + 255) div 256"
      "list_all (\<lambda>s. prefix (newline @ insert_head table columns) s) inserts"
      using 1(1) [OF False b(2)] by blast
    let ?s = "insert_head table columns @ q"
    have "sql_statements SPlain newline (?s @ CHR '';'' # newline @ rest @ t)
        = (newline @ ?s) # sql_statements SPlain '''' (newline @ rest @ t)"
      by (rule statements_terminated) (use q insert_head_text in auto)
    then have st: "sql_statements SPlain newline (body @ t) = (newline @ ?s) # inserts @ sql_statements SPlain newline t"
      using i(1) b(3) q(1) by (simp add: statements_newline)
    have "0 < length rows" using False by simp
    then have "Suc (length inserts) = (length rows + 255) div 256"
      using i(2) batch_count [of "length rows"] by (simp add: d1InsertBatch_def)
    then show ?thesis using st i(3) by (intro exI [of _ "(newline @ ?s) # inserts"]) simp
  qed
qed

section \<open>Every text the transcoder writes is closed\<close>

lemma semi_plain: "sql_plain (CHR '';'') = SPlain" "sql_plain (CHR 0x0A) = SPlain"
  by (simp_all add: sql_plain_def)

lemma create_closed: "writeCreateTable n e = Inr out \<Longrightarrow> sql_run SPlain out = SPlain"
  using entry_closed by (auto simp: writeCreateTable_def split: if_splits)

lemma schema_closed: "write_schema what e = Inr out \<Longrightarrow> sql_run SPlain out = SPlain"
  using entry_closed by (auto simp: write_schema_def split: if_splits)

lemma batches_closed:
  assumes "insert_batches table columns (insert_head table columns) start rows = Inr body"
  shows "sql_run SPlain body = SPlain"
  using assms
proof (induction table columns "insert_head table columns" start rows arbitrary: body rule: insert_batches.induct)
  case (1 table columns start rows)
  show ?case
  proof (cases "rows = []")
    case True
    then show ?thesis using 1(2) by (simp add: insert_batches.simps)
  next
    case False
    then obtain b rest where b: "batch_rows table columns start (take d1InsertBatch rows) = Inr b"
      "insert_batches table columns (insert_head table columns) (start + d1InsertBatch) (drop d1InsertBatch rows) = Inr rest"
      "body = insert_head table columns @ b @ rest"
      using 1(2) by (auto simp: insert_batches.simps [of table columns _ start rows])
    have ne: "take d1InsertBatch rows \<noteq> []" using False by (simp add: d1InsertBatch_def)
    show ?thesis using batch_text [OF b(1) ne] insert_head_text 1(1) [OF False b(2)] semi_plain b(3)
      by (auto simp: newline_def)
  qed
qed

lemma inserts_closed: "writeInserts table columns rows = Inr sql \<Longrightarrow> sql_run SPlain sql = SPlain"
  using batches_closed by (auto simp: writeInserts_def newline_def semi_plain sql_plain_def split: if_splits)

lemma parts_closed:
  assumes "mapr f xs = Inr parts" "\<And>x out. f x = Inr out \<Longrightarrow> sql_run SPlain out = SPlain"
  shows "sql_run SPlain (concat parts) = SPlain"
  using assms(1) by (induction xs arbitrary: parts) (auto dest: assms(2))

lemma transcode_closed_lemma:
  assumes "transcodeD1 value = Inr (Some sql)"
  shows "sql_run SPlain (string_of sql) = SPlain"
proof -
  let ?b = "TrimSpace (string_of value)"
  obtain s where s: "sql = bytes_of s"
    "transcodeD1Header ?b = Inr s \<or> transcodeD1Rows ?b = Inr s \<or> transcodeD1Schema ?b = Inr s \<or> transcodeD1Full ?b = Inr s"
    using assms by (auto simp: transcodeD1_def Let_def split: if_splits option.splits)
  have ddl: "sql_run SPlain (concat parts) = SPlain" if "mapr (\<lambda>t. writeCreateTable (dt_Name t) (dt_SQL t)) ts = Inr parts" for ts parts
    by (rule parts_closed [OF that]) (rule create_closed)
  have ins: "sql_run SPlain (concat parts) = SPlain" if "mapr (\<lambda>t. writeInserts (dt_Name t) (dt_Columns t) (dt_Rows t)) ts = Inr parts" for ts parts
    by (rule parts_closed [OF that]) (rule inserts_closed)
  have sch: "sql_run SPlain (concat parts) = SPlain" if "mapr (write_schema w) ts = Inr parts" for w ts parts
    by (rule parts_closed [OF that]) (rule schema_closed)
  have "sql_run SPlain s = SPlain"
    using s(2)
  proof (elim disjE)
    assume "transcodeD1Header ?b = Inr s"
    then show ?thesis using ddl by (auto simp: transcodeD1Header_def)
  next
    assume "transcodeD1Rows ?b = Inr s"
    then show ?thesis using inserts_closed by (auto simp: transcodeD1Rows_def)
  next
    assume "transcodeD1Schema ?b = Inr s"
    then show ?thesis using sch by (auto simp: transcodeD1Schema_def)
  next
    assume "transcodeD1Full ?b = Inr s"
    then show ?thesis
      unfolding transcodeD1Full_def by (auto simp: ddl ins sch split: prod.splits)
  qed
  then show ?thesis using s(1) by simp
qed

section \<open>An example\<close>

definition ex_header :: string where
  "ex_header = ''{'' @ writeJSONString ''format'' @ '':'' @ writeJSONString d1FormatHeader @ '','' @
     writeJSONString ''tables'' @ '':[{'' @ writeJSONString ''name'' @ '':'' @ writeJSONString ''t'' @ '','' @
     writeJSONString ''sql'' @ '':'' @ writeJSONString ''CREATE TABLE t(x);'' @ ''}]}''"

definition ex_header_value :: jval where
  "ex_header_value = JObject [(''format'', JString d1FormatHeader),
     (''tables'', JArray [JObject [(''name'', JString ''t''), (''sql'', JString ''CREATE TABLE t(x);'')]])]"

lemma ex_header_tokens: "lex ex_header = tokens_of ex_header_value"
proof -
  have v: "ValidString ''format''" "ValidString d1FormatHeader" "ValidString ''tables''" "ValidString ''name''" "ValidString ''t''"
    "ValidString ''sql''" "ValidString ''CREATE TABLE t(x);''"
    by (simp_all add: code_def d1FormatHeader_def)
  show ?thesis
    by (simp add: ex_header_def ex_header_value_def lex_string_token [OF v(1)] lex_string_token [OF v(2)] lex_string_token [OF v(3)]
        lex_string_token [OF v(4)] lex_string_token [OF v(5)] lex_string_token [OF v(6)] lex_string_token [OF v(7)] json_space_def)
qed

lemma ex_header_parse: "parse_all ex_header = Some ex_header_value"
  unfolding parse_all_def ex_header_tokens ex_header_value_def by (simp add: step_defs finish_def open_frame_def maxNestingDepth_def)

lemma ex_header_out: "transcodeD1Header ex_header = Inr (''CREATE TABLE t(x);;'' @ newline)"
proof -
  have "dec_struct header_fields ex_header_value [] = Some [\<lparr>dt_Name = ''t'', dt_SQL = ''CREATE TABLE t(x);'', dt_Columns = [], dt_Rows = []\<rparr>]"
    by code_simp
  moreover have "writeCreateTable ''t'' ''CREATE TABLE t(x);'' = Inr (''CREATE TABLE t(x);;'' @ newline)" by code_simp
  ultimately show ?thesis by (simp add: transcodeD1Header_def Unmarshal_def ex_header_parse)
qed

lemma TrimSpace_ends:
  assumes "s \<noteq> []" "graphic (hd s)" "graphic (last s)"
  shows "TrimSpace s = s"
proof -
  have "trim_left white_space s = s"
    using strip_one_graphic [OF white_space_graphic(1), of s] assms by (subst trim_left.simps) auto
  moreover have "trim_left (map rev white_space) (rev s) = rev s"
    using strip_one_graphic [OF white_space_graphic(2), of "rev s"] assms by (subst trim_left.simps) (auto simp: hd_rev)
  ultimately show ?thesis by (simp add: TrimSpace_def)
qed

lemma ex_header_transcode: "transcodeD1 (bytes_of ex_header) = Inr (Some (bytes_of (''CREATE TABLE t(x);;'' @ newline)))"
proof -
  have t: "TrimSpace ex_header = ex_header" by (rule TrimSpace_ends) (simp_all add: ex_header_def graphic_def)
  have h: "hd ex_header = CHR ''{''" "ex_header \<noteq> []" by (simp_all add: ex_header_def)
  have f: "dec_struct d1_head_fields ex_header_value [] = Some d1FormatHeader" by code_simp
  show ?thesis by (simp add: transcodeD1_def t h f Unmarshal_def ex_header_parse ex_header_out)
qed

section \<open>Properties\<close>

text \<open>
  C31. Whatever a dump of one of the four forms holds, the SQL written for it closes every quote, bracket
  and comment it opens: no entry can reach into the text written after it, nor the file into the next one.
\<close>
theorem transcode_closed:
  assumes "transcodeD1 value = Inr (Some sql)"
  shows "sql_run SPlain (string_of sql) = SPlain"
  by (rule transcode_closed_lemma [OF assms])

theorem transcode_closed_witness:
  "\<exists>sql. transcodeD1 (bytes_of ex_header) = Inr (Some sql) \<and> sql_run SPlain (string_of sql) = SPlain"
proof -
  show ?thesis using transcode_closed [OF ex_header_transcode] ex_header_transcode by blast
qed

text \<open>
  The text written for a header record holds one statement for each of its tables, and every one of
  them is a CREATE TABLE: a table definition cannot carry a second statement into the file, alone or
  together with its neighbours.
\<close>
theorem header_statements:
  assumes "transcodeD1Header b = Inr sql"
  shows "\<exists>tables. Unmarshal (dec_struct header_fields) [] b = Some tables
     \<and> length (statements sql) = length tables \<and> list_all d1CreateTableRe (statements sql)"
proof -
  obtain tables parts where t: "Unmarshal (dec_struct header_fields) [] b = Some tables"
    "mapr (\<lambda>t. writeCreateTable (dt_Name t) (dt_SQL t)) tables = Inr parts" "sql = concat parts"
    using assms by (auto simp: transcodeD1Header_def)
  then show ?thesis
    using tables_statements [OF t(2), of "''''"] by (auto simp: statements_def visible_def)
qed

theorem header_statements_witness:
  "\<exists>sql. transcodeD1Header ex_header = Inr sql \<and> length (statements sql) = 1 \<and> list_all d1CreateTableRe (statements sql)"
proof -
  have "map_option length (dec_struct header_fields ex_header_value []) = Some 1" by code_simp
  then show ?thesis using header_statements [OF ex_header_out] ex_header_out by (auto simp: Unmarshal_def ex_header_parse)
qed

text \<open>
  C30. The data of a table cannot add, remove or end a statement. Whatever names, columns and cells the
  dump carries, SQLite sees in the text written for its rows exactly one BEGIN, one INSERT into that
  table and those columns for every 256 rows, and one COMMIT.
\<close>
theorem rows_statements:
  assumes "writeInserts table columns rows = Inr sql" "rows \<noteq> []"
  shows "\<exists>inserts. statements sql = ''BEGIN TRANSACTION'' # inserts @ [newline @ ''COMMIT'']
     \<and> length inserts = (length rows + 255) div 256
     \<and> list_all (\<lambda>s. prefix (newline @ insert_head table columns) s) inserts"
proof -
  obtain body where b: "insert_batches table columns (insert_head table columns) 0 rows = Inr body"
    "sql = ''BEGIN TRANSACTION'' @ CHR '';'' # newline @ body @ ''COMMIT'' @ CHR '';'' # newline"
    using assms by (auto simp: writeInserts_def split: if_splits)
  obtain inserts where i: "sql_statements SPlain newline (body @ ''COMMIT'' @ CHR '';'' # newline)
       = inserts @ sql_statements SPlain newline (''COMMIT'' @ CHR '';'' # newline)"
    "length inserts = (length rows + 255) div 256" "list_all (\<lambda>s. prefix (newline @ insert_head table columns) s) inserts"
    using insert_statements [OF b(1)] by blast
  have c: "sql_statements SPlain newline (''COMMIT'' @ CHR '';'' # newline) = [newline @ ''COMMIT'', newline]"
    by (simp add: newline_def sql_plain_def)
  have "sql_statements SPlain '''' sql
      = ''BEGIN TRANSACTION'' # sql_statements SPlain '''' (newline @ body @ ''COMMIT'' @ CHR '';'' # newline)"
    unfolding b(2) using statements_terminated [of SPlain "''BEGIN TRANSACTION''" "''''"] by (simp add: sql_plain_def)
  then have s: "sql_statements SPlain '''' sql = ''BEGIN TRANSACTION'' # inserts @ [newline @ ''COMMIT'', newline]"
    using i(1) c by (simp only: statements_newline)
  have v: "TrimSpace s \<noteq> ''''" if "c \<in> set s" "\<not> white_byte c" for s c
    using that TrimSpace_blank [of s] by (auto simp: list_all_iff)
  have w: "\<not> white_byte (CHR ''I'')" "\<not> white_byte (CHR ''B'')" "\<not> white_byte (CHR ''C'')"
    by code_simp+
  have "TrimSpace s \<noteq> ''''" if "s \<in> set inserts" for s
  proof (rule v [OF _ w(1)])
    show "CHR ''I'' \<in> set s" using that i(3) by (auto simp: list_all_iff prefix_def insert_head_def)
  qed
  then have "filter (\<lambda>s. TrimSpace s \<noteq> '''') inserts = inserts" by (simp add: filter_id_conv)
  then have "statements sql = ''BEGIN TRANSACTION'' # inserts @ [newline @ ''COMMIT'']"
    using v [OF _ w(2), of "''BEGIN TRANSACTION''"] v [OF _ w(3), of "newline @ ''COMMIT''"] by (simp add: statements_def s)
  then show ?thesis using i by blast
qed

theorem rows_statements_witness:
  "\<exists>inserts. statements (projr (writeInserts ''t'' [''a'', ''b''] [[JString [CHR 0x27, CHR '';'', CHR '')''], JNull]]))
     = ''BEGIN TRANSACTION'' # inserts @ [newline @ ''COMMIT''] \<and> length inserts = 1"
proof -
  have w: "writeInserts ''t'' [''a'', ''b''] [[JString [CHR 0x27, CHR '';'', CHR '')''], JNull]]
      = Inr (projr (writeInserts ''t'' [''a'', ''b''] [[JString [CHR 0x27, CHR '';'', CHR '')''], JNull]]))"
    by (simp add: writeInserts_def insert_batches.simps d1InsertBatch_def d1Literal_def)
  show ?thesis using rows_statements [OF w] by auto
qed

end
