(* ===== verification/RecordRestore.thy ===== *)
theory RecordRestore
  imports Reader
begin

text \<open>
  \<open>internal/format/restore.go\<close>: a record's value reassembled from its segments, whole
  (\<open>RestoreRecord\<close>) or streamed to a writer (\<open>RestoreRecordTo\<close>). A writer is a function from its state and
  the bytes it is given to its new state and the error it returns; a source reader is the bytes it still
  delivers with the error that ends them, if it is not the end of file. The gzip decoder of the standard
  library is a parameter: it refuses a header, or delivers bytes that end cleanly or with an error.
\<close>

section \<open>Reading and writing streams\<close>

type_synonym 'w writer = "'w \<Rightarrow> bytes \<Rightarrow> 'w \<times> goerr option"
type_synonym source = "bytes \<times> goerr option"
type_synonym gzip_decoder = "bytes \<Rightarrow> goerr + source"

text \<open>\<open>readChunk\<close> of \<open>internal/crypto/stream.go\<close>: a full buffer, or what is left before the end of file.\<close>

definition readChunk :: "nat \<Rightarrow> source \<Rightarrow> goerr + bytes \<times> source" where
  "readChunk n src =
     (case src of (b, e) \<Rightarrow>
        if n \<le> length b then Inr (take n b, (drop n b, e))
        else (case e of None \<Rightarrow> Inr (b, ([], None)) | Some err \<Rightarrow> Inl err))"

text \<open>
  \<open>OpenStreamTo\<close> with a source that may fail and a destination that may refuse; \<open>StreamCipher\<close> has it for a
  source and a destination that do not.
\<close>

function open_io_loop ::
  "bytes \<Rightarrow> bytes \<Rightarrow> nat \<Rightarrow> bytes \<Rightarrow> source \<Rightarrow> 64 word \<Rightarrow> 'w writer \<Rightarrow> 'w \<Rightarrow> 'w \<times> goerr option" where
  "open_io_loop aead aad maxChunks cur src counter dst st =
     (case readChunk streamMaxChunk src of
        Inl err \<Rightarrow> (st, Some (Errorf ''read chunk %d: %w'' [AInt (uint (counter + 1)), AWrap err]))
      | Inr (next, src') \<Rightarrow>
          (let final = (next = [])
           in if maxChunks > 0 \<and> unat counter \<ge> maxChunks then (st, Some (StreamErr (ChunkLimit maxChunks)))
              else (case gcm_open aead (chunkNonce counter final) cur aad of
                None \<Rightarrow> (st, Some (StreamErr (ChunkAuth counter)))
              | Some p \<Rightarrow>
                  (case dst st p of
                     (st', Some err) \<Rightarrow> (st', Some (Errorf ''write chunk %d: %w'' [AInt (uint counter), AWrap err]))
                   | (st', None) \<Rightarrow>
                       if final then (st', None)
                       else (case advanceChunk counter of
                         Inl e \<Rightarrow> (st', Some (StreamErr e))
                       | Inr c \<Rightarrow>
                           if length next < TagSize then (st', Some (StreamErr (ChunkShort c (length next))))
                           else open_io_loop aead aad maxChunks next src' c dst st')))))"
  by pat_completeness auto
termination
  by (relation "measure (\<lambda>(aead, aad, maxChunks, cur, src, counter, dst, st). length (fst src))")
     (auto simp: readChunk_def streamMaxChunk_def TagSize_def split: if_splits option.splits)

declare open_io_loop.simps [simp del]

definition OpenStreamIO ::
  "bytes \<Rightarrow> source \<Rightarrow> bytes \<Rightarrow> nat \<Rightarrow> 'w writer \<Rightarrow> 'w \<Rightarrow> 'w \<times> goerr option" where
  "OpenStreamIO fileKey src aad maxChunks dst st =
     (if length (fst src) < StreamNonceSize
      then (st, Some (Errorf ''read payload nonce: %w''
              [AWrap (case snd src of None \<Rightarrow> StreamErr (NonceRead (length (fst src))) | Some err \<Rightarrow> err)]))
      else (case streamAEAD fileKey (take StreamNonceSize (fst src)) of
        Inl e \<Rightarrow> (st, Some (StreamErr e))
      | Inr aead \<Rightarrow>
          (case readChunk streamMaxChunk (drop StreamNonceSize (fst src), snd src) of
             Inl err \<Rightarrow> (st, Some (Errorf ''read first chunk: %w'' [AWrap err]))
           | Inr (cur, src') \<Rightarrow>
               if length cur < TagSize then (st, Some (StreamErr (FirstShort (length cur))))
               else open_io_loop aead aad maxChunks cur src' 0 dst st)))"

definition unframe_source :: "bytes \<Rightarrow> source \<Rightarrow> goerr + source" where
  "unframe_source magic src =
     (case src of (b, e) \<Rightarrow>
        if length b < ContainerHeaderSize \<and> e \<noteq> None then Inl (the e)
        else rbind (map_err ContainerErr (UnframeContainerReader magic b)) (\<lambda>body. Inr (body, e)))"

text \<open>\<open>io.MultiWriter(dst, h)\<close>: the running hash is the bytes it has been fed.\<close>

definition teed :: "'w writer \<Rightarrow> ('w \<times> bytes) writer" where
  "teed dst st p =
     (case dst (fst st) p of (w, Some err) \<Rightarrow> ((w, snd st), Some err) | (w, None) \<Rightarrow> ((w, snd st @ p), None))"

text \<open>\<open>countingWriter\<close>; the count is read only after every write has succeeded.\<close>

definition counting :: "'w writer \<Rightarrow> ('w \<times> int) writer" where
  "counting dst st p =
     (case dst (fst st) p of (w, Some err) \<Rightarrow> ((w, snd st), Some err) | (w, None) \<Rightarrow> ((w, snd st + int (length p)), None))"

section \<open>Segments\<close>

definition recordSaltLen :: nat where "recordSaltLen = 16"
definition maxSegmentChunks :: int where "maxSegmentChunks = 16384"
definition maxDecompressedBytes :: int where "maxDecompressedBytes = maxSegmentChunks * int ChunkSize"

definition segmentReadErr :: "string \<Rightarrow> goerr \<Rightarrow> goerr" where
  "segmentReadErr object err = SegmentReadError object err"

definition segIDFromObject :: "string \<Rightarrow> goerr + bytes" where
  "segIDFromObject object =
     (let base = last_segment (CHR ''/'') object
      in case hex_decode (trim_suffix ''.seg'' base) of
           Some raw \<Rightarrow> if length raw \<noteq> 48 then Inl (Errorf ''invalid segment object %q'' [AStr object]) else Inr raw
         | None \<Rightarrow> Inl (Errorf ''invalid segment object %q'' [AStr object]))"

definition segmentChunkBound :: "string \<Rightarrow> int \<times> int \<Rightarrow> goerr + int" where
  "segmentChunkBound recordID chunkRange =
     (let first = fst chunkRange; last' = snd chunkRange
      in if first \<noteq> 0 then
           Inl (Errorf ''record %s segment chunkRange firstChunk must be 0, got %d'' [AStr recordID, AInt first])
         else if last' < 1 then
           Inl (Errorf ''record %s segment chunkRange lastChunkExclusive must be at least 1, got %d'' [AStr recordID, AInt last'])
         else if last' > maxSegmentChunks then
           Inl (Errorf ''record %s segment chunkRange lastChunkExclusive %d exceeds the %d-chunk segment ceiling''
                  [AStr recordID, AInt last', AInt maxSegmentChunks])
         else Inr last')"

definition segmentStreamChunks :: "int \<Rightarrow> int" where
  "segmentStreamChunks n =
     (let chunks = n div int ChunkSize
      in if n mod int ChunkSize \<noteq> 0 \<or> n = 0 then chunks + 1 else chunks)"

text \<open>A panic of the key derivation is the error \<open>SegPanic\<close>.\<close>

definition deriveFileKey :: "('a) Reader_scheme \<Rightarrow> ShardRecord \<Rightarrow> bytes \<Rightarrow> goerr + bytes" where
  "deriveFileKey r rec segID =
     (if sr_SourceType rec = SourceSecrets then
        rbind (map_err (\<lambda>verr. Errorf ''record %s: %w'' [AStr (sr_RecordID rec), AWrap verr])
                 (ValidateRecordID (sr_RecordID rec))) (\<lambda>_.
        rbind (map_err (\<lambda>derr. Errorf ''record %s salt: %w'' [AStr (sr_RecordID rec), AWrap derr])
                 (B64Decode (sr_RecordSalt rec))) (\<lambda>salt.
          if length salt \<noteq> recordSaltLen then
            Inl (Errorf ''record %s: recordSalt must be %d bytes, got %d''
                   [AStr (sr_RecordID rec), AInt (int recordSaltLen), AInt (int (length salt))])
          else of_opt (SegmentErr SegPanic)
                 (DeriveSecretsFileKey (rr_master r) segID (bytes_of (sr_RecordID rec)) salt (rr_runIDBytes r))))
      else
        (let codecID = (if sr_Codec rec = CodecNameGzip then CodecGzip else CodecNone)
         in of_opt (SegmentErr SegPanic) (DeriveNonSecretFileKey (rr_master r) segID codecID)))"

definition wrong_chunk_count :: "ShardRecord \<Rightarrow> Segment \<Rightarrow> int \<Rightarrow> int \<Rightarrow> goerr" where
  "wrong_chunk_count rec seg got maxChunks =
     Errorf ''record %s segment %s terminates after %d chunks but chunkRange declares %d''
       [AStr (sr_RecordID rec), AStr (sg_Object seg), AInt got, AInt maxChunks]"

definition openSegment :: "('a) Reader_scheme \<Rightarrow> ShardRecord \<Rightarrow> Segment \<Rightarrow> bytes \<Rightarrow> bytes \<Rightarrow> goerr + bytes" where
  "openSegment r rec seg segID sealed =
     rbind (segmentChunkBound (sr_RecordID rec) (sg_ChunkRange seg)) (\<lambda>maxChunks.
     rbind (deriveFileKey r rec segID) (\<lambda>fileKey.
     rbind (map_err (\<lambda>err. Errorf ''open segment %s: %w'' [AStr (SegIDHex segID), AWrap (ContainerErr err)])
              (UnframeContainer MagicSeg sealed)) (\<lambda>body.
     case OpenStreamTo fileKey body [] (nat maxChunks) of
       (_, Some oerr) \<Rightarrow> Inl (Errorf ''open segment %s: %w'' [AStr (SegIDHex segID), AWrap (StreamErr oerr)])
     | (plain, None) \<Rightarrow>
         (let got = segmentStreamChunks (int (length plain))
          in if got \<noteq> maxChunks then Inl (wrong_chunk_count rec seg got maxChunks) else Inr plain))))"

text \<open>An operation that changes the writer returns its state with the error; \<open>or_fail\<close> is an early return.\<close>

definition or_fail :: "'w \<Rightarrow> goerr + 'a \<Rightarrow> ('a \<Rightarrow> 'w \<times> goerr option) \<Rightarrow> 'w \<times> goerr option" where
  "or_fail st res k = (case res of Inl err \<Rightarrow> (st, Some err) | Inr x \<Rightarrow> k x)"

definition decryptSegmentTo ::
  "'w writer \<Rightarrow> 'w \<Rightarrow> ShardRecord \<Rightarrow> Segment \<Rightarrow> bytes \<Rightarrow> bytes \<Rightarrow> source \<Rightarrow> int \<Rightarrow> 'w \<times> goerr option" where
  "decryptSegmentTo dst st rec seg segID fileKey body maxChunks =
     (case OpenStreamIO fileKey body [] (nat maxChunks) (counting dst) (st, 0) of
        ((st', _), Some oerr) \<Rightarrow> (st', Some (Errorf ''open segment %s: %w'' [AStr (SegIDHex segID), AWrap oerr]))
      | ((st', n), None) \<Rightarrow>
          (let got = segmentStreamChunks n
           in (st', if got \<noteq> maxChunks then Some (wrong_chunk_count rec seg got maxChunks) else None)))"

definition openSegmentTo ::
  "('a) Reader_scheme \<Rightarrow> 'w writer \<Rightarrow> 'w \<Rightarrow> ShardRecord \<Rightarrow> Segment \<Rightarrow> bytes \<Rightarrow> bytes \<Rightarrow> 'w \<times> goerr option" where
  "openSegmentTo r dst st rec seg segID sealed =
     or_fail st (segmentChunkBound (sr_RecordID rec) (sg_ChunkRange seg)) (\<lambda>maxChunks.
     or_fail st (deriveFileKey r rec segID) (\<lambda>fileKey.
     or_fail st (map_err (\<lambda>err. Errorf ''open segment %s: %w'' [AStr (SegIDHex segID), AWrap (ContainerErr err)])
              (UnframeContainer MagicSeg sealed)) (\<lambda>body.
       decryptSegmentTo dst st rec seg segID fileKey (body, None) maxChunks)))"

definition openSegmentStream ::
  "('a) Reader_scheme \<Rightarrow> 'w writer \<Rightarrow> 'w \<Rightarrow> ShardRecord \<Rightarrow> Segment \<Rightarrow> bytes \<Rightarrow> source \<Rightarrow> 'w \<times> goerr option" where
  "openSegmentStream r dst st rec seg segID src =
     or_fail st (segmentChunkBound (sr_RecordID rec) (sg_ChunkRange seg)) (\<lambda>maxChunks.
     or_fail st (deriveFileKey r rec segID) (\<lambda>fileKey.
     or_fail st (map_err (\<lambda>err. Errorf ''open segment %s: %w'' [AStr (SegIDHex segID), AWrap err])
              (unframe_source MagicSeg src)) (\<lambda>body.
       decryptSegmentTo dst st rec seg segID fileKey body maxChunks)))"

section \<open>Records\<close>

definition gunzip :: "gzip_decoder \<Rightarrow> bytes \<Rightarrow> int \<Rightarrow> goerr + bytes" where
  "gunzip gz b maxLen =
     (if maxLen > maxDecompressedBytes then
        Inl (Errorf ''declared plaintext size %d exceeds the %d byte decompression ceiling''
               [AInt maxLen, AInt maxDecompressedBytes])
      else rbind (gz b) (\<lambda>(out, e).
        if nat (maxLen + 1) \<le> length out then
          Inl (Errorf ''decompressed output exceeds the declared %d bytes'' [AInt maxLen])
        else (case e of Some err \<Rightarrow> Inl err | None \<Rightarrow> Inr out)))"

fun restore_segments ::
  "('a) Reader_scheme \<Rightarrow> ShardRecord \<Rightarrow> int \<Rightarrow> bytes \<Rightarrow> Segment list \<Rightarrow> goerr + bytes" where
  "restore_segments r rec ceil buf [] = Inr buf"
| "restore_segments r rec ceil buf (seg # segs) =
     rbind (segIDFromObject (sg_Object seg)) (\<lambda>segID.
     rbind (map_err (\<lambda>err. codedGet ExitUnverified (segmentReadErr (sg_Object seg) err))
              (st_Get (rr_store r) (sg_Object seg))) (\<lambda>sealed.
     rbind (map_err (coded ExitUnverified) (openSegment r rec seg segID sealed)) (\<lambda>plain.
       if int (length (buf @ plain)) > ceil then
         Inl (coded ExitUnverified (Errorf ''record %s reassembled value exceeds the %d byte aggregate reassembly ceiling''
                [AStr (sr_RecordID rec), AInt ceil]))
       else restore_segments r rec ceil (buf @ plain) segs)))"

text \<open>The packed slice; elsewhere a packed segment is refused.\<close>

definition packed_slice :: "ShardRecord \<Rightarrow> bytes \<Rightarrow> goerr + bytes" where
  "packed_slice rec value =
     (let segs = sr_Segments rec
      in if length segs = 1 \<and> sg_Packed (hd segs) \<noteq> None then
           (let p = the (sg_Packed (hd segs)); n = int (length value)
            in if pk_Offset p < 0 \<or> pk_Length p < 0 \<or> pk_Offset p > n \<or> pk_Length p > n - pk_Offset p then
                 Inl (coded ExitUnverified (Errorf ''record %s packed slice (offset %d, length %d) is out of range for %d bytes''
                        [AStr (sr_RecordID rec), AInt (pk_Offset p), AInt (pk_Length p), AInt n]))
               else Inr (take (nat (pk_Length p)) (drop (nat (pk_Offset p)) value)))
         else if list_ex (\<lambda>seg. sg_Packed seg \<noteq> None) segs then
           Inl (Errorf ''record %s mixes a packed slice with a multi-segment chain'' [AStr (sr_RecordID rec)])
         else Inr value)"

definition hash_check_failed :: "ShardRecord \<Rightarrow> goerr" where
  "hash_check_failed rec =
     coded ExitPlaintext (Errorf ''record %s failed its plaintext hash check'' [AStr (sr_RecordID rec)])"

definition restoreRecord :: "gzip_decoder \<Rightarrow> ('a) Reader_scheme \<Rightarrow> ShardRecord \<Rightarrow> int \<Rightarrow> goerr + bytes" where
  "restoreRecord gz r rec ceil =
     rbind (restore_segments r rec ceil [] (sr_Segments rec)) (\<lambda>value.
     rbind (packed_slice rec value) (\<lambda>value.
     rbind (if sr_Codec rec = CodecNameGzip
            then map_err (\<lambda>err. Errorf ''record %s gunzip: %w'' [AStr (sr_RecordID rec), AWrap err])
                   (gunzip gz value (sr_PlaintextSize rec))
            else Inr value) (\<lambda>value.
       if \<not> ConstantTimeEqual (bytes_of (SHA384Hex value)) (bytes_of (sr_PlaintextSHA rec))
       then Inl (hash_check_failed rec)
       else Inr value)))"

definition RestoreRecord :: "gzip_decoder \<Rightarrow> ('a) Reader_scheme \<Rightarrow> ShardRecord \<Rightarrow> goerr + bytes" where
  "RestoreRecord gz r rec = restoreRecord gz r rec maxDecompressedBytes"

definition IsStreamable :: "ShardRecord \<Rightarrow> bool" where
  "IsStreamable rec =
     (if sr_Codec rec = CodecNameGzip then False
      else \<not> list_ex (\<lambda>seg. sg_Packed seg \<noteq> None) (sr_Segments rec))"

definition openSegmentReader ::
  "(goctx \<Rightarrow> string \<Rightarrow> goerr + int \<times> bytes \<times> goerr option \<times> goerr option) \<Rightarrow> goctx \<Rightarrow> string
     \<Rightarrow> goerr + source \<times> goerr option" where
  "openSegmentReader rs ctx object =
     rbind (map_err (\<lambda>err. codedGet ExitUnverified (segmentReadErr object err)) (rs ctx object))
       (\<lambda>(_, b, e, cerr). Inr ((b, e), cerr))"

fun restore_segments_to ::
  "('a) Reader_scheme \<Rightarrow> ShardRecord \<Rightarrow> 'w writer \<Rightarrow> 'w \<Rightarrow> Segment list \<Rightarrow> 'w \<times> goerr option" where
  "restore_segments_to r rec dst st [] = (st, None)"
| "restore_segments_to r rec dst st (seg # segs) =
     or_fail st (segIDFromObject (sg_Object seg)) (\<lambda>segID.
       case st_GetReader (rr_store r) of
         Some rs \<Rightarrow>
           or_fail st (openSegmentReader rs (reader_context r) (sg_Object seg)) (\<lambda>(src, cerr).
           (case openSegmentStream r dst st rec seg segID src of
              (st', Some serr) \<Rightarrow> (st', Some (coded ExitUnverified serr))
            | (st', None) \<Rightarrow>
                (case cerr of
                   Some err \<Rightarrow> (st', Some (Errorf ''read segment %s: %w'' [AStr (sg_Object seg), AWrap err]))
                 | None \<Rightarrow> restore_segments_to r rec dst st' segs)))
       | None \<Rightarrow>
           or_fail st (map_err (\<lambda>err. codedGet ExitUnverified (segmentReadErr (sg_Object seg) err))
              (st_Get (rr_store r) (sg_Object seg))) (\<lambda>sealed.
           (case openSegmentTo r dst st rec seg segID sealed of
              (st', Some err) \<Rightarrow> (st', Some (coded ExitUnverified err))
            | (st', None) \<Rightarrow> restore_segments_to r rec dst st' segs)))"

definition RestoreRecordTo ::
  "('a) Reader_scheme \<Rightarrow> ShardRecord \<Rightarrow> 'w writer \<Rightarrow> 'w \<Rightarrow> 'w \<times> goerr option" where
  "RestoreRecordTo r rec dst st =
     (if \<not> IsStreamable rec then
        (st, Some (Errorf ''record %s is not streamable (gzip or packed); use RestoreRecord'' [AStr (sr_RecordID rec)]))
      else (case restore_segments_to r rec (teed dst) (st, []) (sr_Segments rec) of
        ((st', _), Some err) \<Rightarrow> (st', Some err)
      | ((st', h), None) \<Rightarrow>
          (st', if \<not> ConstantTimeEqual (bytes_of (hex_encode (sha384 h))) (bytes_of (sr_PlaintextSHA rec))
                then Some (hash_check_failed rec) else None)))"

end
