(* ===== verification/Targets.thy ===== *)
theory Targets
  imports RecordRestore "HOL-Library.AList"
begin

text \<open>
  \<open>internal/restore/target*.go\<close>: the destinations of a restore. A target is a record of its operations over a
  state, an optional capability an option. \<open>EnvTarget\<close> writes dotenv lines, \<open>DirTarget\<close> files under a base
  directory, \<open>DiscardTarget\<close> nothing but a digest. The file system is a finite map from paths to
  directories and files with a list of the faults the coming operations meet; a fault of a write says how
  many bytes it got through before it failed. Links are not part of it: every path goes through \<open>os.Root\<close>.
\<close>

section \<open>The interface\<close>

text \<open>
  \<open>WriteStream\<close> says how much of the source it took before it returned: all of it, to its end, or only
  the given number of bytes.
\<close>

record 't Target =
  tg_Kind :: string
  tg_Key :: "'t \<Rightarrow> string \<Rightarrow> 't \<times> (goerr + string)"
  tg_Existing :: "'t \<Rightarrow> 't \<times> (goerr + string set)"
  tg_Write :: "'t \<Rightarrow> string \<Rightarrow> bytes \<Rightarrow> 't \<times> goerr option"
  tg_Close :: "'t \<Rightarrow> 't \<times> goerr option"
  tg_WriteStream :: "('t \<Rightarrow> string \<Rightarrow> source \<Rightarrow> int \<Rightarrow> 't \<times> goerr option \<times> nat option) option"
  tg_Metadata :: "((string \<Rightarrow> string) \<times> ('t \<Rightarrow> string \<Rightarrow> bytes \<Rightarrow> 't \<times> goerr option)) option"

section \<open>The environment\<close>

record EnvTarget =
  ev_w :: bytes
  ev_existing :: "string set"
  ev_faults :: "(goerr \<times> nat) option list"

definition env_letter :: "char \<Rightarrow> bool" where
  "env_letter c \<longleftrightarrow> (code (CHR ''A'') \<le> code c \<and> code c \<le> code (CHR ''Z''))
     \<or> (code (CHR ''a'') \<le> code c \<and> code c \<le> code (CHR ''z'')) \<or> c = CHR ''_''"

definition validEnvName :: "string \<Rightarrow> bool" where
  "validEnvName name \<longleftrightarrow>
     (case name of [] \<Rightarrow> False | c # r \<Rightarrow> env_letter c \<and> list_all (\<lambda>d. env_letter d \<or> is_digit d) r)"

definition NewEnvTarget :: "string list \<Rightarrow> (goerr \<times> nat) option list \<Rightarrow> EnvTarget" where
  "NewEnvTarget existingNames faults = \<lparr>ev_w = [], ev_existing = set existingNames, ev_faults = faults\<rparr>"

definition env_bad_name :: "string \<Rightarrow> goerr" where
  "env_bad_name name = Errorf ''record name %q is not a valid environment-variable name for an env target'' [AStr name]"

definition EnvTarget_Key :: "EnvTarget \<Rightarrow> string \<Rightarrow> EnvTarget \<times> (goerr + string)" where
  "EnvTarget_Key e name = (e, if \<not> validEnvName name then Inl (env_bad_name name) else Inr name)"

definition EnvTarget_Existing :: "EnvTarget \<Rightarrow> EnvTarget \<times> (goerr + string set)" where
  "EnvTarget_Existing e = (e, Inr (ev_existing e))"

text \<open>\<open>strings.ReplaceAll(s, "'", `'\''`)\<close>.\<close>

definition escape_quotes :: "string \<Rightarrow> string" where
  "escape_quotes s = concat (map (\<lambda>c. if c = CHR 0x27 then [CHR 0x27, CHR 0x5C, CHR 0x27, CHR 0x27] else [c]) s)"

definition env_line :: "string \<Rightarrow> bytes \<Rightarrow> string" where
  "env_line key value = key @ [CHR ''='', CHR 0x27] @ escape_quotes (string_of value) @ [CHR 0x27, CHR 0x0A]"

definition EnvTarget_Write :: "EnvTarget \<Rightarrow> string \<Rightarrow> bytes \<Rightarrow> EnvTarget \<times> goerr option" where
  "EnvTarget_Write e key value =
     (if \<not> validEnvName key then (e, Some (env_bad_name key))
      else if key \<in> ev_existing e then
        (e, Some (Errorf ''environment variable %s is already set; refusing to redefine it'' [AStr key]))
      else if contains_any [CHR 0x00, CHR 0x0D, CHR 0x0A] (string_of value) then
        (e, Some (Errorf ''value for %s contains a NUL byte or a line break and cannot go to a dotenv target'' [AStr key]))
      else (let line = bytes_of (env_line key value)
            in case ev_faults e of
                 Some (err, n) # fs \<Rightarrow>
                   (e\<lparr>ev_w := ev_w e @ take n line, ev_faults := fs\<rparr>,
                    Some (Errorf ''write env line for %s: %w'' [AStr key, AWrap err]))
               | fs \<Rightarrow> (e\<lparr>ev_w := ev_w e @ line, ev_existing := insert key (ev_existing e), ev_faults := tl fs\<rparr>, None)))"

definition EnvTarget_Close :: "EnvTarget \<Rightarrow> EnvTarget \<times> goerr option" where
  "EnvTarget_Close e = (e, None)"

definition env_target :: "EnvTarget Target" where
  "env_target = \<lparr>tg_Kind = ''env'', tg_Key = EnvTarget_Key, tg_Existing = EnvTarget_Existing, tg_Write = EnvTarget_Write,
     tg_Close = EnvTarget_Close, tg_WriteStream = None, tg_Metadata = None\<rparr>"

section \<open>The discarding target\<close>

record DiscardTarget =
  ds_digest :: bytes
  ds_records :: int
  ds_bytes :: int
  ds_keySeq :: nat
  ds_keyOf :: "(string \<times> string) list"

definition NewDiscardTarget :: DiscardTarget where
  "NewDiscardTarget = \<lparr>ds_digest = [], ds_records = 0, ds_bytes = 0, ds_keySeq = 0, ds_keyOf = []\<rparr>"

definition DiscardTarget_Key :: "DiscardTarget \<Rightarrow> string \<Rightarrow> DiscardTarget \<times> (goerr + string)" where
  "DiscardTarget_Key d name =
     (case map_of (ds_keyOf d) name of
        Some k \<Rightarrow> (d, Inr k)
      | None \<Rightarrow>
          (let k = dec_of_nat (ds_keySeq d)
           in (d\<lparr>ds_keySeq := Suc (ds_keySeq d), ds_keyOf := (name, k) # ds_keyOf d\<rparr>, Inr k)))"

definition DiscardTarget_Existing :: "DiscardTarget \<Rightarrow> DiscardTarget \<times> (goerr + string set)" where
  "DiscardTarget_Existing d = (d, Inr {})"

definition fold_leaf :: "string \<Rightarrow> bytes \<Rightarrow> bytes" where
  "fold_leaf key valueHash =
     put_uint64 (of_nat (length (bytes_of key))) @ bytes_of key @ put_uint64 (of_nat (length valueHash)) @ valueHash"

definition DiscardTarget_fold :: "DiscardTarget \<Rightarrow> string \<Rightarrow> bytes \<Rightarrow> DiscardTarget" where
  "DiscardTarget_fold d key valueHash = d\<lparr>ds_digest := ds_digest d @ fold_leaf key valueHash\<rparr>"

definition DiscardTarget_Write :: "DiscardTarget \<Rightarrow> string \<Rightarrow> bytes \<Rightarrow> DiscardTarget \<times> goerr option" where
  "DiscardTarget_Write d key value =
     (let d = DiscardTarget_fold d key (sha384 value)
      in (d\<lparr>ds_records := ds_records d + 1, ds_bytes := ds_bytes d + int (length value)\<rparr>, None))"

definition DiscardTarget_WriteStream ::
  "DiscardTarget \<Rightarrow> string \<Rightarrow> source \<Rightarrow> int \<Rightarrow> DiscardTarget \<times> goerr option \<times> nat option" where
  "DiscardTarget_WriteStream d key src n =
     (case src of
        (b, Some err) \<Rightarrow> (d, Some err, None)
      | (b, None) \<Rightarrow>
          (let d = DiscardTarget_fold d key (sha384 b)
           in (d\<lparr>ds_records := ds_records d + 1, ds_bytes := ds_bytes d + int (length b)\<rparr>, None, None)))"

definition DiscardTarget_Close :: "DiscardTarget \<Rightarrow> DiscardTarget \<times> goerr option" where
  "DiscardTarget_Close d = (d, None)"

definition Digest :: "DiscardTarget \<Rightarrow> string" where
  "Digest d = hex_encode (sha384 (ds_digest d))"

definition discard_target :: "DiscardTarget Target" where
  "discard_target = \<lparr>tg_Kind = ''discard'', tg_Key = DiscardTarget_Key, tg_Existing = DiscardTarget_Existing,
     tg_Write = DiscardTarget_Write, tg_Close = DiscardTarget_Close, tg_WriteStream = Some DiscardTarget_WriteStream,
     tg_Metadata = None\<rparr>"

section \<open>The file system\<close>

datatype node = FDir | FFile bytes

type_synonym path = "string list"

text \<open>A fault: the error, the bytes a write got through and the bytes a copy had read by then.\<close>

type_synonym fault = "errno \<times> nat \<times> nat"

text \<open>The empty path is the base directory.\<close>

record filesys =
  fs_nodes :: "(path \<times> node) list"
  fs_faults :: "fault option list"

definition fs_look :: "filesys \<Rightarrow> path \<Rightarrow> node option" where
  "fs_look fs p = map_of (fs_nodes fs) p"

definition fs_put :: "path \<Rightarrow> node \<Rightarrow> filesys \<Rightarrow> filesys" where
  "fs_put p n fs = fs\<lparr>fs_nodes := AList.update p n (fs_nodes fs)\<rparr>"

definition fs_del :: "path \<Rightarrow> filesys \<Rightarrow> filesys" where
  "fs_del p fs = fs\<lparr>fs_nodes := AList.delete p (fs_nodes fs)\<rparr>"

text \<open>The fault the next operation meets; after the last of the list there is none.\<close>

definition next_fault :: "filesys \<Rightarrow> fault option \<times> filesys" where
  "next_fault fs = (case fs_faults fs of [] \<Rightarrow> (None, fs) | f # r \<Rightarrow> (f, fs\<lparr>fs_faults := r\<rparr>))"

fun os_MkdirAll :: "filesys \<Rightarrow> path \<Rightarrow> path \<Rightarrow> filesys \<times> errno option" where
  "os_MkdirAll fs pre [] = (fs, None)"
| "os_MkdirAll fs pre (d # ds) =
     (case fs_look fs (pre @ [d]) of
        Some FDir \<Rightarrow> os_MkdirAll fs (pre @ [d]) ds
      | Some (FFile _) \<Rightarrow> (fs, Some EEXIST)
      | None \<Rightarrow>
          (case next_fault fs of
             (Some (e, _), fs) \<Rightarrow> (fs, Some e)
           | (None, fs) \<Rightarrow> os_MkdirAll (fs_put (pre @ [d]) FDir fs) (pre @ [d]) ds))"

definition os_OpenExcl :: "filesys \<Rightarrow> path \<Rightarrow> filesys \<times> errno option" where
  "os_OpenExcl fs p =
     (case next_fault fs of
        (Some (e, _), fs) \<Rightarrow> (fs, Some e)
      | (None, fs) \<Rightarrow>
          if fs_look fs p \<noteq> None then (fs, Some EEXIST)
          else if fs_look fs (butlast p) \<noteq> Some FDir then (fs, Some ENOENT)
          else (fs_put p (FFile []) fs, None))"

text \<open>Writing to the new, empty file; how much of the data was asked for before the failure comes last.\<close>

definition os_Write :: "filesys \<Rightarrow> path \<Rightarrow> bytes \<Rightarrow> filesys \<times> (errno \<times> nat) option" where
  "os_Write fs p b =
     (case next_fault fs of
        (Some (e, n, m), fs) \<Rightarrow> (fs_put p (FFile (take n b)) fs, Some (e, max n m))
      | (None, fs) \<Rightarrow> (fs_put p (FFile b) fs, None))"

definition os_Close :: "filesys \<Rightarrow> filesys \<times> errno option" where
  "os_Close fs = (case next_fault fs of (Some (e, _), fs) \<Rightarrow> (fs, Some e) | (None, fs) \<Rightarrow> (fs, None))"

definition os_Remove :: "filesys \<Rightarrow> path \<Rightarrow> filesys" where
  "os_Remove fs p = (case next_fault fs of (Some _, fs) \<Rightarrow> fs | (None, fs) \<Rightarrow> fs_del p fs)"

definition os_Rename :: "filesys \<Rightarrow> path \<Rightarrow> path \<Rightarrow> filesys \<times> errno option" where
  "os_Rename fs a b =
     (case next_fault fs of
        (Some (e, _), fs) \<Rightarrow> (fs, Some e)
      | (None, fs) \<Rightarrow>
          (case fs_look fs a of None \<Rightarrow> (fs, Some ENOENT) | Some n \<Rightarrow> (fs_del a (fs_put b n fs), None)))"

section \<open>The directory target\<close>

text \<open>
  The temporary names come from the process and the clock: \<open>dir_tmp k i\<close> is the \<open>i\<close>-th name tried by the
  \<open>k\<close>-th call.
\<close>

record DirTarget =
  dir_base :: string
  dir_fs :: filesys
  dir_tmp :: "nat \<Rightarrow> nat \<Rightarrow> string"
  dir_calls :: nat

definition NewDirTarget :: "string \<Rightarrow> filesys \<Rightarrow> (nat \<Rightarrow> nat \<Rightarrow> string) \<Rightarrow> DirTarget" where
  "NewDirTarget baseDir fs tmp = \<lparr>dir_base = baseDir, dir_fs = fs, dir_tmp = tmp, dir_calls = 0\<rparr>"

definition windowsReservedNames :: "string list" where
  "windowsReservedNames =
     [''CON'', ''PRN'', ''AUX'', ''NUL'',
      ''COM1'', ''COM2'', ''COM3'', ''COM4'', ''COM5'', ''COM6'', ''COM7'', ''COM8'', ''COM9'',
      ''COM'' @ [CHR 0xC2, CHR 0xB9], ''COM'' @ [CHR 0xC2, CHR 0xB2], ''COM'' @ [CHR 0xC2, CHR 0xB3],
      ''LPT1'', ''LPT2'', ''LPT3'', ''LPT4'', ''LPT5'', ''LPT6'', ''LPT7'', ''LPT8'', ''LPT9'',
      ''LPT'' @ [CHR 0xC2, CHR 0xB9], ''LPT'' @ [CHR 0xC2, CHR 0xB2], ''LPT'' @ [CHR 0xC2, CHR 0xB3],
      ''CONIN$'', ''CONOUT$'']"

text \<open>
  \<open>strings.ToUpper\<close> as far as the reserved names can tell: the letters of ASCII, and the two runes outside
  it whose upper case is one of them, the dotless i and the long s.
\<close>

fun reserved_upper :: "string \<Rightarrow> string" where
  "reserved_upper [] = []"
| "reserved_upper [c] = [ascii_upper c]"
| "reserved_upper (c # d # s) =
     (if c = CHR 0xC4 \<and> d = CHR 0xB1 then CHR ''I'' # reserved_upper s
      else if c = CHR 0xC5 \<and> d = CHR 0xBF then CHR ''S'' # reserved_upper s
      else ascii_upper c # reserved_upper (d # s))"

definition reserved_base :: "string \<Rightarrow> string" where
  "reserved_base part = trim_right_set [CHR '' ''] (takeWhile (\<lambda>c. c \<noteq> CHR ''.'' \<and> c \<noteq> CHR '':'') part)"

definition firstReservedWindowsElement :: "string \<Rightarrow> string option" where
  "firstReservedWindowsElement key =
     find (\<lambda>part. reserved_upper (reserved_base part) \<in> set windowsReservedNames) (split_on (CHR ''/'') key)"

text \<open>\<open>strings.FieldsFunc\<close> on the two separators: the non-empty pieces between them.\<close>

fun path_fields :: "string \<Rightarrow> string \<Rightarrow> string list" where
  "path_fields cur [] = (if cur = [] then [] else [cur])"
| "path_fields cur (c # s) =
     (if c = CHR ''/'' \<or> c = CHR 0x5C then (if cur = [] then path_fields [] s else cur # path_fields [] s)
      else path_fields (cur @ [c]) s)"

text \<open>\<open>filepath.Join\<close> of elements that are neither empty nor dots and hold no separator puts slashes between them.\<close>

definition safeKey :: "string \<Rightarrow> string" where
  "safeKey name =
     (let clean = filter (\<lambda>p. \<not> (p = '''' \<or> p = ''.'' \<or> p = ''..'')) (path_fields '''' name)
      in if clean = [] then ''_'' else join ''/'' clean)"

definition DirTarget_Key :: "DirTarget \<Rightarrow> string \<Rightarrow> DirTarget \<times> (goerr + string)" where
  "DirTarget_Key d name =
     (d, let key = safeKey name
         in case firstReservedWindowsElement key of
              Some elem \<Rightarrow> Inl (Errorf ''record name %q contains the Windows reserved device name %q'' [AStr name, AStr elem])
            | None \<Rightarrow> Inr key)"

definition os_err :: "string \<Rightarrow> string \<Rightarrow> errno \<Rightarrow> goerr" where
  "os_err op p e = PathError op p e"

definition DirTarget_Existing :: "DirTarget \<Rightarrow> DirTarget \<times> (goerr + string set)" where
  "DirTarget_Existing d =
     (case next_fault (dir_fs d) of
        (Some (e, _), fs) \<Rightarrow>
          (d\<lparr>dir_fs := fs\<rparr>, if e = ENOENT then Inr {} else Inl (Errorf ''inspect output directory: %w'' [AWrap (os_err ''stat'' (dir_base d) e)]))
      | (None, fs) \<Rightarrow>
          (case fs_look fs [] of
             None \<Rightarrow> (d\<lparr>dir_fs := fs\<rparr>, Inr {})
           | Some (FFile _) \<Rightarrow> (d\<lparr>dir_fs := fs\<rparr>, Inl (Errorf ''output path %s is not a directory'' [AStr (dir_base d)]))
           | Some FDir \<Rightarrow>
               (case next_fault fs of
                  (Some (e, _), fs) \<Rightarrow>
                    (d\<lparr>dir_fs := fs\<rparr>, Inl (Errorf ''enumerate output directory: %w'' [AWrap (os_err ''readdir'' (dir_base d) e)]))
                | (None, fs) \<Rightarrow>
                    (d\<lparr>dir_fs := fs\<rparr>,
                     Inr (set (map (join ''/'') (filter (\<lambda>p. case fs_look fs p of Some (FFile _) \<Rightarrow> True | _ \<Rightarrow> False) (map fst (fs_nodes fs)))))))))"

definition openRoot :: "filesys \<Rightarrow> filesys \<times> errno option" where
  "openRoot fs =
     (case fs_look fs [] of
        Some (FFile _) \<Rightarrow> (fs, Some ENOTDIR)
      | n \<Rightarrow>
          (case next_fault fs of
             (Some (e, _), fs) \<Rightarrow> (fs, Some e)
           | (None, fs) \<Rightarrow> (if n = None then fs_put [] FDir fs else fs, None)))"

definition mkdirAllIn :: "filesys \<Rightarrow> path \<Rightarrow> filesys \<times> errno option" where
  "mkdirAllIn fs dir =
     (case os_MkdirAll fs [] dir of
        (fs, Some e) \<Rightarrow> (fs, Some (if e = EEXIST \<or> e = ENOTEMPTY then ENOTDIR else e))
      | (fs, None) \<Rightarrow> (fs, None))"

definition path_of :: "string \<Rightarrow> path" where
  "path_of key = split_on (CHR ''/'') key"

text \<open>What both writes do first: open the root, make the directories and create the file.\<close>

definition create_at :: "filesys \<Rightarrow> string \<Rightarrow> filesys \<times> goerr option" where
  "create_at fs key =
     (let p = path_of key
      in case openRoot fs of
           (fs, Some e) \<Rightarrow> (fs, Some (Errorf ''create directory for %s: %w'' [AStr key, AWrap (os_err ''mkdir'' key e)]))
         | (fs, None) \<Rightarrow>
         (case mkdirAllIn fs (butlast p) of
           (fs, Some e) \<Rightarrow> (fs, Some (Errorf ''create directory for %s: %w'' [AStr key, AWrap (os_err ''mkdir'' key e)]))
         | (fs, None) \<Rightarrow>
         (case os_OpenExcl fs p of
           (fs, Some e) \<Rightarrow> (fs, Some (Errorf ''write %s (it may already exist): %w'' [AStr key, AWrap (os_err ''openat'' key e)]))
         | (fs, None) \<Rightarrow> (fs, None))))"

definition write_failed :: "string \<Rightarrow> errno \<Rightarrow> goerr" where
  "write_failed key e = Errorf ''write %s: %w'' [AStr key, AWrap (os_err ''write'' key e)]"

definition write_file :: "filesys \<Rightarrow> string \<Rightarrow> bytes \<Rightarrow> filesys \<times> goerr option" where
  "write_file fs key value =
     (case create_at fs key of
        (fs, Some err) \<Rightarrow> (fs, Some err)
      | (fs, None) \<Rightarrow>
      (case os_Write fs (path_of key) value of
        (fs, Some (e, _)) \<Rightarrow> (os_Remove (fst (os_Close fs)) (path_of key), Some (write_failed key e))
      | (fs, None) \<Rightarrow>
      (case os_Close fs of
        (fs, Some e) \<Rightarrow> (os_Remove fs (path_of key), Some (write_failed key e))
      | (fs, None) \<Rightarrow> (fs, None))))"

definition DirTarget_Write :: "DirTarget \<Rightarrow> string \<Rightarrow> bytes \<Rightarrow> DirTarget \<times> goerr option" where
  "DirTarget_Write d key value = (case write_file (dir_fs d) key value of (fs, e) \<Rightarrow> (d\<lparr>dir_fs := fs\<rparr>, e))"

fun create_temp :: "filesys \<Rightarrow> path \<Rightarrow> (nat \<Rightarrow> string) \<Rightarrow> nat \<Rightarrow> nat \<Rightarrow> filesys \<times> (goerr + path)" where
  "create_temp fs dir tmp i 0 = (fs, Inl (Errorf ''create a temp file in %s: too many name collisions'' [AStr (join ''/'' dir)]))"
| "create_temp fs dir tmp i (Suc n) =
     (case os_OpenExcl fs (dir @ [tmp i]) of
        (fs, None) \<Rightarrow> (fs, Inr (dir @ [tmp i]))
      | (fs, Some e) \<Rightarrow>
          if e = EEXIST \<or> e = ENOTEMPTY then create_temp fs dir tmp (Suc i) n
          else (fs, Inl (os_err ''openat'' (tmp i) e)))"

definition createTempIn :: "filesys \<Rightarrow> path \<Rightarrow> (nat \<Rightarrow> string) \<Rightarrow> filesys \<times> (goerr + path)" where
  "createTempIn fs dir tmp = create_temp fs dir tmp 0 100"

text \<open>
  The copy writes what the source delivers to the temporary file; an error of the source ends it after the
  bytes before it, a fault of the write after the bytes it had read.
\<close>

definition stream_file :: "filesys \<Rightarrow> (nat \<Rightarrow> string) \<Rightarrow> string \<Rightarrow> source \<Rightarrow> filesys \<times> goerr option \<times> nat option" where
  "stream_file fs tmp key src =
     (let p = path_of key
      in case create_at fs key of
           (fs, Some err) \<Rightarrow> (fs, Some err, Some 0)
         | (fs, None) \<Rightarrow>
         (case createTempIn (fst (os_Close fs)) (butlast p) tmp of
           (fs, Inl err) \<Rightarrow> (os_Remove fs p, Some (Errorf ''write %s: %w'' [AStr key, AWrap err]), Some 0)
         | (fs, Inr tmpPath) \<Rightarrow>
         (case os_Write fs tmpPath (fst src) of
           (fs, Some (e, n)) \<Rightarrow> (os_Remove (os_Remove (fst (os_Close fs)) tmpPath) p, Some (write_failed key e), Some n)
         | (fs, None) \<Rightarrow>
         (case snd src of
           Some err \<Rightarrow>
             (os_Remove (os_Remove (fst (os_Close fs)) tmpPath) p, Some (Errorf ''write %s: %w'' [AStr key, AWrap err]), None)
         | None \<Rightarrow>
         (case os_Close fs of
           (fs, Some e) \<Rightarrow> (os_Remove (os_Remove fs tmpPath) p, Some (write_failed key e), None)
         | (fs, None) \<Rightarrow>
         (case os_Rename fs tmpPath p of
           (fs, Some e) \<Rightarrow> (os_Remove (os_Remove fs tmpPath) p, Some (write_failed key e), None)
         | (fs, None) \<Rightarrow> (fs, None, None)))))))"

definition DirTarget_WriteStream ::
  "DirTarget \<Rightarrow> string \<Rightarrow> source \<Rightarrow> int \<Rightarrow> DirTarget \<times> goerr option \<times> nat option" where
  "DirTarget_WriteStream d key src n =
     (case stream_file (dir_fs d) (dir_tmp d (dir_calls d)) key src of
        (fs, e, took) \<Rightarrow> (d\<lparr>dir_fs := fs, dir_calls := Suc (dir_calls d)\<rparr>, e, took))"

definition MetadataSidecarSuffix :: string where "MetadataSidecarSuffix = ''.downpipe-meta.json''"

definition MetadataKey :: "string \<Rightarrow> string" where
  "MetadataKey key = key @ MetadataSidecarSuffix"

definition WriteMetadata :: "DirTarget \<Rightarrow> string \<Rightarrow> bytes \<Rightarrow> DirTarget \<times> goerr option" where
  "WriteMetadata d key doc = DirTarget_Write d (MetadataKey key) doc"

definition DirTarget_Close :: "DirTarget \<Rightarrow> DirTarget \<times> goerr option" where
  "DirTarget_Close d = (d, None)"

definition dir_target :: "DirTarget Target" where
  "dir_target = \<lparr>tg_Kind = ''file'', tg_Key = DirTarget_Key, tg_Existing = DirTarget_Existing, tg_Write = DirTarget_Write,
     tg_Close = DirTarget_Close, tg_WriteStream = Some DirTarget_WriteStream, tg_Metadata = Some (MetadataKey, WriteMetadata)\<rparr>"

end
