(* ===== verification/Guidance.thy ===== *)
theory Guidance
  imports D1Transcode
begin

text \<open>
  \<open>internal/restore/guidance.go\<close>: the texts an operator reads about records that are not restored by a blind
  write, and the destination key of a D1 record.
\<close>

definition cfConfigIdentityName :: string where "cfConfigIdentityName = ''_cf-config-identity''"
definition cfConfigCoverageName :: string where "cfConfigCoverageName = ''_cf-config-coverage''"

definition GuidanceFor :: "ShardRecord \<Rightarrow> string" where
  "GuidanceFor rec =
     (let t = sr_SourceType rec; name = sr_Name rec
      in if t = SourceWorkers then
           (if suffix ''/settings'' name then
              ''Workers script settings: re-create the bindings and secrets from the verified settings snapshot (secret values were never captured; the checklist lists their names and types to re-provision).''
            else if suffix ''/versions'' name then
              ''Workers version inventory: informational only; re-deploy from the script content record.''
            else
              ''Workers script code: re-deploy the script from the verified content snapshot (wrangler deploy or the Workers API), then apply its settings record. The offline tool never blind-redeploys a Worker.'')
         else if t = SourceCFConfig then
           (if name = cfConfigIdentityName then
              ''Cloudflare configuration backup identity: informational only. It records which account and zone this backup is for. It is not a surface, so there is nothing to replay.''
            else if name = cfConfigCoverageName then
              ''Cloudflare configuration coverage: informational only. It names each surface this backup has no record for, and why: not used, not on the plan, no zone selected, or not selected. It is not a surface, so there is nothing to replay.''
            else
              ''Cloudflare configuration surface: replay it from the verified snapshot through the Cloudflare API, or re-apply an idempotent surface in the console with an edit-scoped token. The offline tool never blindly re-applies a configuration surface.'')
         else if t = SourceStream then
           ''Cloudflare Stream: re-upload the video binaries, then replay each video's verified metadata (name, requireSignedURLs, allowed origins, user meta) through the Stream API. When File contents was on for the downpipe, the backup holds the files the run captured: each video's MP4 (<uid>/video.mp4) and its caption tracks (<uid>/captions/<lang>.vtt). A file the run could not capture, for example a video whose download was not enabled or not ready, is an incompleteness marker, and an applied restore lists each marker. When File contents was off, the backup holds only the metadata. For a file that the backup does not hold, upload the video from your source of truth. The offline tool never re-uploads a video from a backup.''
         else if t = SourceImages then
           ''Cloudflare Images: re-upload the image binaries, then replay the verified per-image metadata and the account-level variant definitions through the Images API. When File contents was on for the downpipe, the backup holds the files the run captured: each image's bytes (<id>/blob). A file the run could not capture, for example an image larger than the size limit, is an incompleteness marker, and an applied restore lists each marker. When File contents was off, the backup holds only the metadata. For a file that the backup does not hold, upload the image from your source of truth. The offline tool never re-uploads an image from a backup.''
         else if t = SourceArtifacts then
           ''Cloudflare Artifact Registry: re-create each repository from its verified metadata, then re-push its contents through the registry's git smart-HTTP endpoint. When File contents was on for the downpipe, the backup holds the git objects the run captured, for the full history: the log (<ns>/<repo>/log), each commit and tree, and each file blob (<ns>/<repo>/blob/<hash>). Contents the run could not capture, for example a namespace whose repository list it could not read, are an incompleteness marker, and an applied restore lists each marker. When File contents was off, the backup holds only the metadata. For contents that the backup does not hold, push them from your source of truth. The offline tool never re-pushes to a registry from a backup.''
         else '''')"

definition D1ReplayGuidance :: string where
  "D1ReplayGuidance = ''D1 database dump: apply the verified .sql file(s) to a NEW database in name order, then load it into D1. For one database: sqlite3 restored.sqlite < <db>/00-header.sql (then each <db>/10-rows/* and <db>/20-schema.sql, or the single <db>.sql for a legacy whole-dump), then wrangler d1 execute <DB_NAME> --file=<file>.sql or import the built restored.sqlite. The offline tool never blind-applies a dump over a live database; apply to a fresh one and cut over deliberately.''"

definition d1OutputKey :: "string \<Rightarrow> string \<Rightarrow> string" where
  "d1OutputKey key unrenderable =
     (if unrenderable \<noteq> '''' then key else if suffix ''.sql'' key then key else key @ ''.sql'')"

definition D1UnrenderableGuidance :: "int \<Rightarrow> bool \<Rightarrow> string" where
  "D1UnrenderableGuidance n apply' =
     (let written = (if apply' then ''were written unchanged'' else ''will be written unchanged'')
      in dec_of_int n @ '' D1 record(s) carry a body format this release cannot render. Their verified bytes '' @ written @
         '' and are NOT SQL, so the sqlite3 and wrangler steps above do not apply to them and a database with such a record cannot be rebuilt in full from this restore. Each one is named below with the format label it carries; use a downpipe release that reads that label. Nothing here is corrupt, and the files are worth keeping exactly as written.'')"

end
