(* ===== verification/Restore.thy ===== *)
theory Restore
  imports Targets Guidance
begin

text \<open>
  \<open>internal/restore/restore.go\<close> and \<open>metadata.go\<close>: planning and applying a restore. The text of an error is kept
  as the error (\<open>AVal\<close>), a fixed text as a string (\<open>AStr\<close>). The lists of a result are sorted by name with
  a stable sort; \<open>sort.Slice\<close> leaves the order of records that share a name open.
\<close>

section \<open>Interfaces\<close>

text \<open>
  A reader: its records, the reassembly of one, and, where it streams, whether a record is streamable and
  what it writes to a writer that takes everything, or no more than a given number of bytes.
\<close>

record recordReader =
  rd_Records :: "ShardRecord list"
  rd_RestoreRecord :: "ShardRecord \<Rightarrow> goerr + bytes"
  rd_Streaming :: "((ShardRecord \<Rightarrow> bool) \<times> (ShardRecord \<Rightarrow> nat option \<Rightarrow> bytes \<times> goerr option)) option"

definition errStreamTeardown :: goerr where
  "errStreamTeardown = Sentinel ''restore: stream bridge torn down after target returned early''"

text \<open>
  The write end of the pipe. A reader that takes only \<open>n\<close> bytes then closes its end: a write that would
  go beyond them fails, and so does one of no bytes at all once it has closed.
\<close>

definition pipe_writer :: "nat option \<Rightarrow> bytes writer" where
  "pipe_writer budget st p =
     (case budget of
        None \<Rightarrow> (st @ p, None)
      | Some n \<Rightarrow>
          if length st + length p \<le> n \<and> (p \<noteq> [] \<or> length st < n) then (st @ p, None)
          else (take n (st @ p), Some errStreamTeardown))"

text \<open>An opened run as a reader that streams.\<close>

definition format_reader :: "gzip_decoder \<Rightarrow> ('a) Reader_scheme \<Rightarrow> recordReader" where
  "format_reader gz r = \<lparr>rd_Records = rr_records r, rd_RestoreRecord = RestoreRecord gz r,
     rd_Streaming = Some (IsStreamable, \<lambda>rec budget. RestoreRecordTo r rec (pipe_writer budget) [])\<rparr>"

section \<open>Plan and result\<close>

definition streamThreshold :: int where "streamThreshold = 8 * 2 ^ 20"

datatype ConflictKind = ConflictExisting | ConflictCollision | ConflictUnrepresentable

record PlannedWrite =
  pw_Name :: string
  pw_Key :: string
  pw_Bytes :: int

record Conflict =
  cf_Name :: string
  cf_Key :: string
  cf_Kind :: ConflictKind
  cf_Detail :: goarg

record Reprovision =
  rv_Name :: string
  rv_Key :: string
  rv_SourceType :: string
  rv_Guidance :: string

record D1Unrenderable =
  du_Name :: string
  du_Key :: string
  du_Format :: string

record RestorePlan =
  pl_Kind :: string
  pl_Writes :: "PlannedWrite list"
  pl_Conflicts :: "Conflict list"
  pl_Reprovision :: "Reprovision list"
  pl_HasD1File :: bool
  pl_D1Unrenderable :: "D1Unrenderable list"
  pl_WriteCount :: int
  pl_TotalRecords :: int
  pl_TotalBytes :: int

definition new_plan :: "string \<Rightarrow> RestorePlan" where
  "new_plan kind = \<lparr>pl_Kind = kind, pl_Writes = [], pl_Conflicts = [], pl_Reprovision = [], pl_HasD1File = False,
     pl_D1Unrenderable = [], pl_WriteCount = 0, pl_TotalRecords = 0, pl_TotalBytes = 0\<rparr>"

definition HasConflicts :: "RestorePlan \<Rightarrow> bool" where
  "HasConflicts p \<longleftrightarrow> pl_Conflicts p \<noteq> []"

record RecordFailure =
  rf_Name :: string
  rf_Key :: string
  rf_Reason :: goarg
  rf_Err :: "goerr option"

record RecordReprovision =
  rp2_Name :: string
  rp2_Key :: string
  rp2_SourceType :: string
  rp2_Guidance :: string
  rp2_Reason :: goarg

record RecordMarker =
  mk_Name :: string
  mk_Key :: string
  mk_Kind :: string

record RecordUnrenderable =
  ru_Name :: string
  ru_Key :: string
  ru_Format :: string

record RecordMetadataUnapplied =
  mu_Name :: string
  mu_Key :: string
  mu_SourceType :: string
  mu_Fields :: "string list"
  mu_Reason :: goarg

record RestoreResult =
  rs_Kind :: string
  rs_Restored :: int
  rs_BytesRestored :: int
  rs_Failed :: "RecordFailure list"
  rs_ConflictKinds :: "ConflictKind \<Rightarrow> int option"
  rs_Reprovisioned :: "RecordReprovision list"
  rs_SkippedConflicts :: int
  rs_DryRun :: bool
  rs_IntegrityExit :: int
  rs_IncompleteMarkers :: int
  rs_Markers :: "RecordMarker list"
  rs_Unrenderable :: "RecordUnrenderable list"
  rs_MetadataSidecars :: int
  rs_MetadataUnapplied :: "RecordMetadataUnapplied list"

definition new_result :: "string \<Rightarrow> RestoreResult" where
  "new_result kind = \<lparr>rs_Kind = kind, rs_Restored = 0, rs_BytesRestored = 0, rs_Failed = [], rs_ConflictKinds = (\<lambda>_. None),
     rs_Reprovisioned = [], rs_SkippedConflicts = 0, rs_DryRun = False, rs_IntegrityExit = 0, rs_IncompleteMarkers = 0,
     rs_Markers = [], rs_Unrenderable = [], rs_MetadataSidecars = 0, rs_MetadataUnapplied = []\<rparr>"

definition OK :: "RestoreResult \<Rightarrow> bool" where
  "OK res \<longleftrightarrow> rs_Failed res = []"

section \<open>Metadata\<close>

definition metadataFields :: "ShardRecord \<Rightarrow> string list" where
  "metadataFields rec =
     (case sr_KV rec of
        None \<Rightarrow> []
      | Some kv \<Rightarrow> (if kv_Metadata kv \<noteq> None then [''kv.metadata''] else []) @ (if kv_Expiration kv \<noteq> 0 then [''kv.expiration''] else []))
     @ (case sr_R2 rec of
        None \<Rightarrow> []
      | Some r2 \<Rightarrow> (if r2_HTTPMetadata r2 \<noteq> None then [''r2.httpMetadata''] else [])
                    @ (if r2_CustomMetadata r2 \<noteq> None then [''r2.customMetadata''] else []))"

definition MetadataSidecarFormat :: string where
  "MetadataSidecarFormat = ''downpipe-restore-metadata/1''"

definition metadataSidecar :: "ShardRecord \<Rightarrow> goval" where
  "metadataSidecar rec = GStruct
     [(''format'', True, False, GString MetadataSidecarFormat), (''sourceType'', True, False, GString (sr_SourceType rec)),
      (''namespace'', True, True, GString (sr_Namespace rec)), (''bucket'', True, True, GString (sr_Bucket rec)),
      (''name'', True, False, GString (sr_Name rec)), (''plaintextSha384'', True, False, GString (sr_PlaintextSHA rec)),
      (''kv'', True, True, go_ptr goval_KVDescriptor (sr_KV rec)), (''r2'', True, True, go_ptr goval_R2Descriptor (sr_R2 rec))]"

text \<open>The text of \<open>json.Encoder\<close> with HTML escaping off: compact, members in the order of the struct.\<close>

definition encode_json_rune :: "nat \<Rightarrow> string" where
  "encode_json_rune r =
     (if r = 0x2028 then CHR 0x5C # ''u2028'' else if r = 0x2029 then CHR 0x5C # ''u2029'' else write_rune r)"

definition encode_json_string :: "string \<Rightarrow> string" where
  "encode_json_string s = [CHR 0x22] @ concat (map encode_json_rune (runes s)) @ [CHR 0x22]"

fun encode_json :: "jval \<Rightarrow> string" where
  "encode_json JNull = ''null''"
| "encode_json (JBool b) = (if b then ''true'' else ''false'')"
| "encode_json (JNumber n) = n"
| "encode_json (JString s) = encode_json_string s"
| "encode_json (JArray vs) = ''['' @ join '','' (map encode_json vs) @ '']''"
| "encode_json (JObject kvs) = ''{'' @ join '','' (map (\<lambda>kv. encode_json_string (fst kv) @ '':'' @ encode_json (snd kv)) kvs) @ ''}''"

definition encodeMetadataSidecar :: "ShardRecord \<Rightarrow> goerr + bytes" where
  "encodeMetadataSidecar rec =
     rbind (map_err (\<lambda>err. Errorf ''encode metadata for %s: %w'' [AStr (sr_RecordID rec), AWrap err]) (marshal (metadataSidecar rec)))
       (\<lambda>j. Inr (bytes_of (encode_json j @ newline)))"

definition claimMetadataKey :: "'t Target \<Rightarrow> ShardRecord \<Rightarrow> string \<Rightarrow> string set \<Rightarrow> string set \<Rightarrow> string set" where
  "claimMetadataKey T rec key existing claimed =
     (case tg_Metadata T of
        None \<Rightarrow> claimed
      | Some (mkey, _) \<Rightarrow>
          if metadataFields rec = [] then claimed
          else (let mk = mkey key
                in if mk \<in> existing then claimed else if mk \<in> claimed then claimed else insert mk claimed))"

definition noteMetadataUnapplied :: "RestoreResult \<Rightarrow> ShardRecord \<Rightarrow> string \<Rightarrow> string list \<Rightarrow> goarg \<Rightarrow> RestoreResult" where
  "noteMetadataUnapplied res rec key flds reason =
     res\<lparr>rs_MetadataUnapplied := rs_MetadataUnapplied res @
       [\<lparr>mu_Name = sr_Name rec, mu_Key = key, mu_SourceType = sr_SourceType rec, mu_Fields = flds, mu_Reason = reason\<rparr>]\<rparr>"

definition applyMetadata :: "'t Target \<Rightarrow> 't \<times> RestoreResult \<Rightarrow> ShardRecord \<Rightarrow> string \<Rightarrow> 't \<times> RestoreResult" where
  "applyMetadata T st rec key =
     (case st of (t, res) \<Rightarrow>
        let flds = metadataFields rec
        in if flds = [] \<or> tg_Kind T = ''discard'' then (t, res)
           else (case tg_Metadata T of
             None \<Rightarrow>
               (t, noteMetadataUnapplied res rec key flds
                     (AStr (''the '' @ tg_Kind T @ '' target has no place to keep metadata; restore with --sink file to keep it in a sidecar'')))
           | Some (_, write_meta) \<Rightarrow>
               (case encodeMetadataSidecar rec of
                  Inl err \<Rightarrow> (t, noteMetadataUnapplied res rec key flds (AVal err))
                | Inr doc \<Rightarrow>
                    (case write_meta t key doc of
                       (t, Some err) \<Rightarrow> (t, noteMetadataUnapplied res rec key flds (AVal err))
                     | (t, None) \<Rightarrow> (t, res\<lparr>rs_MetadataSidecars := rs_MetadataSidecars res + 1\<rparr>)))))"

section \<open>Planning\<close>

definition classifyRecord ::
  "'t Target \<Rightarrow> 't \<Rightarrow> ShardRecord \<Rightarrow> string set \<Rightarrow> string set \<Rightarrow> 't \<times> (Conflict + string)" where
  "classifyRecord T t rec existing claimed =
     (if ReprovisionSourceType (sr_SourceType rec) \<and> tg_Kind T = ''env'' then
        (t, Inl \<lparr>cf_Name = sr_Name rec, cf_Key = '''', cf_Kind = ConflictUnrepresentable,
               cf_Detail = AStr (GuidanceFor rec @ '' It cannot be written to an env target; use the file sink and re-provision from the bytes.'')\<rparr>)
      else (case tg_Key T t (sr_Name rec) of
        (t, Inl kerr) \<Rightarrow>
          (t, Inl \<lparr>cf_Name = sr_Name rec, cf_Key = '''', cf_Kind = ConflictUnrepresentable, cf_Detail = AVal kerr\<rparr>)
      | (t, Inr key) \<Rightarrow>
          (let key = (if sr_SourceType rec = SourceD1 \<and> tg_Kind T = ''file''
                      then d1OutputKey key (d1DescriptorUnrenderable rec) else key)
           in (t, if key \<in> existing then
                    Inl \<lparr>cf_Name = sr_Name rec, cf_Key = key, cf_Kind = ConflictExisting,
                         cf_Detail = AStr ''the destination key already exists in the target''\<rparr>
                  else if key \<in> claimed then
                    Inl \<lparr>cf_Name = sr_Name rec, cf_Key = key, cf_Kind = ConflictCollision,
                         cf_Detail = AStr ''another record in this run maps to the same destination key''\<rparr>
                  else Inr key))))"

definition annotateD1 :: "RestorePlan \<Rightarrow> 't Target \<Rightarrow> ShardRecord \<Rightarrow> string \<Rightarrow> RestorePlan" where
  "annotateD1 plan T rec key =
     (if sr_SourceType rec \<noteq> SourceD1 \<or> tg_Kind T \<noteq> ''file'' then plan
      else (let label = d1DescriptorUnrenderable rec
            in if label \<noteq> ''''
               then plan\<lparr>pl_D1Unrenderable := pl_D1Unrenderable plan @ [\<lparr>du_Name = sr_Name rec, du_Key = key, du_Format = label\<rparr>]\<rparr>
               else plan\<lparr>pl_HasD1File := True\<rparr>))"

definition annotateReprovision :: "RestorePlan \<Rightarrow> ShardRecord \<Rightarrow> string \<Rightarrow> RestorePlan" where
  "annotateReprovision plan rec key =
     (if \<not> ReprovisionSourceType (sr_SourceType rec) then plan
      else plan\<lparr>pl_Reprovision := pl_Reprovision plan @
             [\<lparr>rv_Name = sr_Name rec, rv_Key = key, rv_SourceType = sr_SourceType rec, rv_Guidance = GuidanceFor rec\<rparr>]\<rparr>)"

fun plan_records :: "'t Target \<Rightarrow> string set \<Rightarrow> 't \<Rightarrow> string set \<Rightarrow> RestorePlan \<Rightarrow> ShardRecord list \<Rightarrow> 't \<times> RestorePlan" where
  "plan_records T existing t claimed plan [] = (t, plan)"
| "plan_records T existing t claimed plan (rec # recs) =
     (let plan = plan\<lparr>pl_TotalRecords := pl_TotalRecords plan + 1\<rparr>
      in case classifyRecord T t rec existing claimed of
           (t, Inl conflict) \<Rightarrow>
             plan_records T existing t claimed (plan\<lparr>pl_Conflicts := pl_Conflicts plan @ [conflict]\<rparr>) recs
         | (t, Inr key) \<Rightarrow>
             (let claimed = claimMetadataKey T rec key existing (insert key claimed);
                  plan = plan\<lparr>pl_Writes := pl_Writes plan @ [\<lparr>pw_Name = sr_Name rec, pw_Key = key, pw_Bytes = sr_PlaintextSize rec\<rparr>],
                              pl_WriteCount := pl_WriteCount plan + 1, pl_TotalBytes := pl_TotalBytes plan + sr_PlaintextSize rec\<rparr>
              in plan_records T existing t claimed (annotateReprovision (annotateD1 plan T rec key) rec key) recs))"

definition MakePlan :: "recordReader \<Rightarrow> 't Target \<Rightarrow> 't \<Rightarrow> 't \<times> (goerr + RestorePlan)" where
  "MakePlan r T t =
     (case tg_Existing T t of
        (t, Inl err) \<Rightarrow> (t, Inl (Errorf ''enumerate target state: %w'' [AWrap err]))
      | (t, Inr existing) \<Rightarrow>
          (case plan_records T existing t {} (new_plan (tg_Kind T)) (rd_Records r) of (t, plan) \<Rightarrow> (t, Inr plan)))"

section \<open>Markers and failures\<close>

definition markerSentinelKeys :: "string list" where
  "markerSentinelKeys = [''_unavailable'', ''_skipped'', ''_pending'', ''_truncated'', ''_refused'']"

definition markerPrefixLen :: nat where "markerPrefixLen = 512"

text \<open>The first two tokens of a \<open>json.Decoder\<close>: an opening brace, then a key.\<close>

definition markerKindFromValue :: "bytes \<Rightarrow> string" where
  "markerKindFromValue value =
     (case dropWhile json_space (string_of value) of
        c # s \<Rightarrow>
          if c \<noteq> CHR ''{'' then ''''
          else (case dropWhile json_space s of
            q # r \<Rightarrow>
              if q \<noteq> CHR 0x22 then ''''
              else (case lex_string r of
                Some (key, _) \<Rightarrow> if key \<in> set markerSentinelKeys then key else ''''
              | None \<Rightarrow> '''')
          | [] \<Rightarrow> '''')
      | [] \<Rightarrow> '''')"

definition markerKind :: "ShardRecord \<Rightarrow> bytes \<Rightarrow> string" where
  "markerKind rec value =
     (let stamped = TrimSpace (sr_IncompleteMarker rec)
      in if stamped \<noteq> '''' then stamped else markerKindFromValue value)"

definition noteMarker :: "RestoreResult \<Rightarrow> ShardRecord \<Rightarrow> string \<Rightarrow> bytes \<Rightarrow> RestoreResult" where
  "noteMarker res rec key value =
     (let kind = markerKind rec value
      in if kind = '''' then res
         else res\<lparr>rs_IncompleteMarkers := rs_IncompleteMarkers res + 1,
                  rs_Markers := rs_Markers res @ [\<lparr>mk_Name = sr_Name rec, mk_Key = key, mk_Kind = kind\<rparr>]\<rparr>)"

definition noteUnrenderable :: "RestoreResult \<Rightarrow> ShardRecord \<Rightarrow> string \<Rightarrow> bytes \<Rightarrow> RestoreResult" where
  "noteUnrenderable res rec key value =
     (let label = d1RecordUnrenderable rec value
      in if label = '''' then res
         else res\<lparr>rs_Unrenderable := rs_Unrenderable res @ [\<lparr>ru_Name = sr_Name rec, ru_Key = key, ru_Format = label\<rparr>]\<rparr>)"

definition recordExitCode :: "goerr \<Rightarrow> int" where
  "recordExitCode err = (case as_exit err of Some c \<Rightarrow> c | None \<Rightarrow> 0)"

definition recordFailure :: "RestoreResult \<Rightarrow> string \<Rightarrow> string \<Rightarrow> goerr \<Rightarrow> RestoreResult" where
  "recordFailure res name key err =
     (let res = res\<lparr>rs_Failed := rs_Failed res @ [\<lparr>rf_Name = name, rf_Key = key, rf_Reason = AVal err, rf_Err = Some err\<rparr>]\<rparr>;
          code = recordExitCode err
      in if code > rs_IntegrityExit res then res\<lparr>rs_IntegrityExit := code\<rparr> else res)"

definition recordReprovision :: "RestoreResult \<Rightarrow> ShardRecord \<Rightarrow> string \<Rightarrow> goerr \<Rightarrow> RestoreResult" where
  "recordReprovision res rec key err =
     res\<lparr>rs_Reprovisioned := rs_Reprovisioned res @
       [\<lparr>rp2_Name = sr_Name rec, rp2_Key = key, rp2_SourceType = sr_SourceType rec, rp2_Guidance = GuidanceFor rec, rp2_Reason = AVal err\<rparr>]\<rparr>"

definition recordConflicts :: "RestoreResult \<Rightarrow> RestorePlan \<Rightarrow> RestoreResult" where
  "recordConflicts res plan =
     (let res = res\<lparr>rs_SkippedConflicts := int (length (pl_Conflicts plan))\<rparr>
      in if pl_Conflicts plan = [] then res\<lparr>rs_ConflictKinds := \<lambda>_. None\<rparr>
         else res\<lparr>rs_ConflictKinds := foldl (\<lambda>kinds c. kinds(cf_Kind c \<mapsto>
                (case kinds (cf_Kind c) of None \<Rightarrow> 0 | Some n \<Rightarrow> n) + 1)) (\<lambda>_. None) (pl_Conflicts plan)\<rparr>)"

section \<open>What went missing\<close>

definition AnyAbsentObject :: "RestoreResult \<Rightarrow> bool" where
  "AnyAbsentObject res \<longleftrightarrow> list_ex (\<lambda>f. case rf_Err f of None \<Rightarrow> False | Some e \<Rightarrow> is_not_exist e) (rs_Failed res)"

definition absentSegment :: "goerr option \<Rightarrow> string option" where
  "absentSegment err = (case err of None \<Rightarrow> None | Some e \<Rightarrow> if \<not> is_not_exist e then None else as_segment_read e)"

definition DanglingSegments :: "RestoreResult \<Rightarrow> int" where
  "DanglingSegments res = int (card (set [object. Some object \<leftarrow> map (\<lambda>f. absentSegment (rf_Err f)) (rs_Failed res)]))"

definition DanglingOnly :: "RestoreResult \<Rightarrow> bool" where
  "DanglingOnly res \<longleftrightarrow> rs_Failed res \<noteq> [] \<and> list_all (\<lambda>f. absentSegment (rf_Err f) \<noteq> None) (rs_Failed res)"

section \<open>Applying\<close>

definition applyStream ::
  "(ShardRecord \<Rightarrow> nat option \<Rightarrow> bytes \<times> goerr option)
    \<Rightarrow> ('t \<Rightarrow> string \<Rightarrow> source \<Rightarrow> int \<Rightarrow> 't \<times> goerr option \<times> nat option)
    \<Rightarrow> 't \<Rightarrow> ShardRecord \<Rightarrow> string \<Rightarrow> 't \<times> (goerr + int \<times> bytes)" where
  "applyStream restoreTo writeStream t rec key =
     (case writeStream t key (restoreTo rec None) (sr_PlaintextSize rec) of
        (t, werr, stop) \<Rightarrow>
          (let taken = (case stop of None \<Rightarrow> fst (restoreTo rec None) | Some n \<Rightarrow> take n (fst (restoreTo rec None)))
           in (t, case snd (restoreTo rec stop) of
                Some rerr \<Rightarrow>
                  if \<not> errors_Is rerr errStreamTeardown then Inl rerr
                  else (case werr of Some e \<Rightarrow> Inl e | None \<Rightarrow> Inr (int (length taken), take markerPrefixLen taken))
              | None \<Rightarrow> (case werr of Some e \<Rightarrow> Inl e | None \<Rightarrow> Inr (int (length taken), take markerPrefixLen taken)))))"

definition restored :: "RestoreResult \<Rightarrow> int \<Rightarrow> RestoreResult" where
  "restored res n = res\<lparr>rs_Restored := rs_Restored res + 1, rs_BytesRestored := rs_BytesRestored res + n\<rparr>"

text \<open>The three paths of a write: a D1 record to a file, a large streamable record, any other record.\<close>

definition write_d1 :: "recordReader \<Rightarrow> 't Target \<Rightarrow> ShardRecord \<Rightarrow> string \<Rightarrow> 't \<times> RestoreResult \<Rightarrow> 't \<times> RestoreResult" where
  "write_d1 r T rec key st =
     (case st of (t, res) \<Rightarrow>
      case rd_RestoreRecord r rec of
        Inl rerr \<Rightarrow> (t, recordFailure res (sr_Name rec) key rerr)
      | Inr value \<Rightarrow>
          (case maybeTranscodeD1 value of
             Inl terr \<Rightarrow> (t, recordFailure res (sr_Name rec) key terr)
           | Inr out \<Rightarrow>
               (case tg_Write T t key out of
                  (t, Some werr) \<Rightarrow> (t, recordFailure res (sr_Name rec) key werr)
                | (t, None) \<Rightarrow>
                    applyMetadata T
                      (t, noteUnrenderable (noteMarker (restored res (int (length value))) rec key value) rec key value) rec key)))"

definition write_streamed ::
  "(ShardRecord \<Rightarrow> nat option \<Rightarrow> bytes \<times> goerr option)
    \<Rightarrow> ('t \<Rightarrow> string \<Rightarrow> source \<Rightarrow> int \<Rightarrow> 't \<times> goerr option \<times> nat option)
    \<Rightarrow> 't Target \<Rightarrow> ShardRecord \<Rightarrow> string \<Rightarrow> 't \<times> RestoreResult \<Rightarrow> 't \<times> RestoreResult" where
  "write_streamed restoreTo writeStream T rec key st =
     (case st of (t, res) \<Rightarrow>
      case applyStream restoreTo writeStream t rec key of
        (t, Inl serr) \<Rightarrow> (t, recordFailure res (sr_Name rec) key serr)
      | (t, Inr (n, pre)) \<Rightarrow> applyMetadata T (t, noteMarker (restored res n) rec key pre) rec key)"

definition write_buffered :: "recordReader \<Rightarrow> 't Target \<Rightarrow> ShardRecord \<Rightarrow> string \<Rightarrow> 't \<times> RestoreResult \<Rightarrow> 't \<times> RestoreResult" where
  "write_buffered r T rec key st =
     (case st of (t, res) \<Rightarrow>
      case rd_RestoreRecord r rec of
        Inl rerr \<Rightarrow> (t, recordFailure res (sr_Name rec) key rerr)
      | Inr value \<Rightarrow>
          (case tg_Write T t key value of
             (t, Some werr) \<Rightarrow>
               (t, if ReprovisionSourceType (sr_SourceType rec) then recordReprovision res rec key werr
                   else recordFailure res (sr_Name rec) key werr)
           | (t, None) \<Rightarrow> applyMetadata T (t, noteMarker (restored res (int (length value))) rec key value) rec key))"

definition writeOneRecord :: "recordReader \<Rightarrow> 't Target \<Rightarrow> ShardRecord \<Rightarrow> string \<Rightarrow> 't \<times> RestoreResult \<Rightarrow> 't \<times> RestoreResult" where
  "writeOneRecord r T rec key st =
     (if sr_SourceType rec = SourceD1 \<and> tg_Kind T = ''file'' then write_d1 r T rec key st
      else (case (rd_Streaming r, tg_WriteStream T) of
        (Some (isStreamable, restoreTo), Some writeStream) \<Rightarrow>
          if sr_PlaintextSize rec \<ge> streamThreshold \<and> isStreamable rec \<and> \<not> ReprovisionSourceType (sr_SourceType rec)
          then write_streamed restoreTo writeStream T rec key st
          else write_buffered r T rec key st
      | _ \<Rightarrow> write_buffered r T rec key st))"

definition record_disappeared :: "PlannedWrite \<Rightarrow> RecordFailure" where
  "record_disappeared w = \<lparr>rf_Name = pw_Name w, rf_Key = pw_Key w,
     rf_Reason = AStr ''record disappeared between plan and apply'', rf_Err = None\<rparr>"

definition applyRecords ::
  "RestorePlan \<Rightarrow> (string \<Rightarrow> ShardRecord option) \<Rightarrow> recordReader \<Rightarrow> 't Target \<Rightarrow> 't \<times> RestoreResult \<Rightarrow> 't \<times> RestoreResult" where
  "applyRecords plan byName r T st =
     foldl (\<lambda>st w. case byName (pw_Name w) of
              None \<Rightarrow> (fst st, (snd st)\<lparr>rs_Failed := rs_Failed (snd st) @ [record_disappeared w]\<rparr>)
            | Some rec \<Rightarrow> writeOneRecord r T rec (pw_Key w) st) st (pl_Writes plan)"

definition sort_result :: "RestoreResult \<Rightarrow> RestoreResult" where
  "sort_result res = res\<lparr>rs_Failed := sort_key rf_Name (rs_Failed res), rs_Reprovisioned := sort_key rp2_Name (rs_Reprovisioned res),
     rs_Markers := sort_key mk_Name (rs_Markers res), rs_Unrenderable := sort_key ru_Name (rs_Unrenderable res),
     rs_MetadataUnapplied := sort_key mu_Name (rs_MetadataUnapplied res)\<rparr>"

definition index_by_name :: "ShardRecord list \<Rightarrow> string \<Rightarrow> ShardRecord option" where
  "index_by_name recs = foldl (\<lambda>m rec. m(sr_Name rec \<mapsto> rec)) (\<lambda>_. None) recs"

definition close_failed :: "goerr \<Rightarrow> goerr" where
  "close_failed err = Errorf ''close target: %w'' [AWrap err]"

text \<open>The plan and the result, if there is a plan, and the error.\<close>

definition RestoreApply :: "recordReader \<Rightarrow> 't Target \<Rightarrow> 't \<Rightarrow> bool \<Rightarrow> 't \<times> (RestorePlan \<times> RestoreResult) option \<times> goerr option" where
  "RestoreApply r T t confirm =
     (case MakePlan r T t of
        (t, Inl err) \<Rightarrow> (t, None, Some err)
      | (t, Inr plan) \<Rightarrow>
          (let res = recordConflicts (new_result (pl_Kind plan)) plan
           in if \<not> confirm then (t, Some (plan, res\<lparr>rs_DryRun := True\<rparr>), None)
              else (case applyRecords plan (index_by_name (rd_Records r)) r T (t, res) of
                (t, res) \<Rightarrow>
                  (case tg_Close T t of
                     (t, cerr) \<Rightarrow> (t, Some (plan, sort_result res), map_option close_failed cerr)))))"

text \<open>
  The callback of the streaming apply, over the target, the claimed keys, the plan and the result; it
  never fails.
\<close>

record 't apply_state =
  as_target :: 't
  as_claimed :: "string set"
  as_plan :: RestorePlan
  as_res :: RestoreResult

definition stream_record ::
  "recordReader \<Rightarrow> 't Target \<Rightarrow> string set \<Rightarrow> bool \<Rightarrow> 't apply_state \<Rightarrow> ShardRecord \<Rightarrow> 't apply_state" where
  "stream_record r T existing confirm s rec =
     (let plan = (as_plan s)\<lparr>pl_TotalRecords := pl_TotalRecords (as_plan s) + 1\<rparr>
      in case classifyRecord T (as_target s) rec existing (as_claimed s) of
           (t, Inl conflict) \<Rightarrow>
             s\<lparr>as_target := t, as_plan := plan\<lparr>pl_Conflicts := pl_Conflicts plan @ [conflict]\<rparr>\<rparr>
         | (t, Inr key) \<Rightarrow>
             (let claimed = claimMetadataKey T rec key existing (insert key (as_claimed s));
                  plan = plan\<lparr>pl_WriteCount := pl_WriteCount plan + 1, pl_TotalBytes := pl_TotalBytes plan + sr_PlaintextSize rec\<rparr>;
                  plan = annotateReprovision (annotateD1 plan T rec key) rec key;
                  (t, res) = (if confirm then writeOneRecord r T rec key (t, as_res s) else (t, as_res s))
              in \<lparr>as_target = t, as_claimed = claimed, as_plan = plan, as_res = res\<rparr>))"

text \<open>
  The source is the function that hands the records to a callback: \<open>EachRecord\<close> of an opened stream, or
  any other.
\<close>

definition ApplyStreaming ::
  "('t apply_state callback \<Rightarrow> 't apply_state \<Rightarrow> 't apply_state \<times> goerr option) \<Rightarrow> recordReader \<Rightarrow> 't Target \<Rightarrow> 't \<Rightarrow> bool
     \<Rightarrow> 't \<times> (RestorePlan \<times> RestoreResult) option \<times> goerr option" where
  "ApplyStreaming each r T t confirm =
     (case tg_Existing T t of
        (t, Inl err) \<Rightarrow> (t, None, Some (Errorf ''enumerate target state: %w'' [AWrap err]))
      | (t, Inr existing) \<Rightarrow>
          (case each (\<lambda>s rec. (stream_record r T existing confirm s rec, None))
                  \<lparr>as_target = t, as_claimed = {}, as_plan = new_plan (tg_Kind T), as_res = new_result (tg_Kind T)\<rparr> of
             (s, iterErr) \<Rightarrow>
               (let res = recordConflicts (as_res s) (as_plan s)
                in if \<not> confirm then (as_target s, Some (as_plan s, res\<lparr>rs_DryRun := True\<rparr>), iterErr)
                   else (case tg_Close T (as_target s) of
                     (t, cerr) \<Rightarrow>
                       (t, Some (as_plan s, sort_result res),
                        case iterErr of Some e \<Rightarrow> Some e | None \<Rightarrow> map_option close_failed cerr)))))"

end
