(* ===== verification/TargetFacts.thy ===== *)
theory TargetFacts
  imports Targets
begin

text \<open>
  What the targets of \<open>Targets\<close> guarantee: a restored path stays inside the base directory, a dotenv file
  reads back as the variables that were written, a write to a directory never changes what was there and
  leaves all of the value or nothing, and the restore digest fixes the records it was taken over.
\<close>

section \<open>Paths\<close>

lemma path_fields_clean:
  "list_all (\<lambda>p. CHR ''/'' \<notin> set p \<and> CHR 0x5C \<notin> set p \<and> p \<noteq> []) (path_fields cur s)"
  if "CHR ''/'' \<notin> set cur \<and> CHR 0x5C \<notin> set cur"
  using that by (induction cur s rule: path_fields.induct) auto

lemma split_join:
  "xs \<noteq> [] \<Longrightarrow> list_all (\<lambda>x. c \<notin> set x) xs \<Longrightarrow> split_on c (join [c] xs) = xs"
  by (induction xs rule: induct_list012) (auto simp: split_on_single split_on_append)

definition safe_element :: "string \<Rightarrow> bool" where
  "safe_element p \<longleftrightarrow> p \<noteq> '''' \<and> p \<noteq> ''.'' \<and> p \<noteq> ''..'' \<and> CHR ''/'' \<notin> set p \<and> CHR 0x5C \<notin> set p"

lemma safeKey_elements: "list_all safe_element (path_of (safeKey name))"
proof -
  let ?c = "filter (\<lambda>p. \<not> (p = '''' \<or> p = ''.'' \<or> p = ''..'')) (path_fields '''' name)"
  have c: "list_all safe_element ?c"
    using path_fields_clean [of "''''" name] by (auto simp: list_all_iff safe_element_def)
  show ?thesis
  proof (cases "?c = []")
    case True
    then show ?thesis by (simp add: safeKey_def path_of_def Let_def safe_element_def)
  next
    case False
    have "split_on (CHR ''/'') (join [CHR ''/''] ?c) = ?c"
      using c by (intro split_join [OF False]) (auto simp: list_all_iff safe_element_def)
    then show ?thesis using c False by (simp add: safeKey_def path_of_def Let_def)
  qed
qed

section \<open>The environment\<close>

text \<open>A reader of dotenv lines as a POSIX shell reads them: a name, an equals sign, and a word of quoted pieces.\<close>

fun shell_word :: "bool \<Rightarrow> string \<Rightarrow> (string \<times> string) option" where
  "shell_word q [] = None"
| "shell_word True (c # s) =
     (if c = CHR 0x27 then shell_word False s else map_option (\<lambda>(w, r). (c # w, r)) (shell_word True s))"
| "shell_word False (c # s) =
     (if c = CHR 0x27 then shell_word True s
      else if c = CHR 0x5C then (case s of [] \<Rightarrow> None | d # s' \<Rightarrow> map_option (\<lambda>(w, r). (d # w, r)) (shell_word False s'))
      else if c = CHR 0x0A then Some ([], s)
      else map_option (\<lambda>(w, r). (c # w, r)) (shell_word False s))"

lemma shell_word_shorter: "shell_word q s = Some (w, r) \<Longrightarrow> length r < length s"
  by (induction q s arbitrary: w r rule: shell_word.induct) (fastforce split: if_splits list.splits)+

function shell_lines :: "string \<Rightarrow> (string \<times> string) list option" where
  "shell_lines s =
     (if s = [] then Some []
      else (let name = takeWhile (\<lambda>c. c \<noteq> CHR ''='') s; r = dropWhile (\<lambda>c. c \<noteq> CHR ''='') s
            in if \<not> validEnvName name \<or> r = [] then None
               else (case shell_word False (tl r) of
                 None \<Rightarrow> None
               | Some (w, rest) \<Rightarrow> map_option (Cons (name, w)) (shell_lines rest))))"
  by pat_completeness auto
termination
proof (relation "measure length")
  fix s name r x w rest
  assume a: "s \<noteq> []" "r = dropWhile (\<lambda>c. c \<noteq> CHR ''='') s" "\<not> (\<not> validEnvName name \<or> r = [])"
    "shell_word False (tl r) = Some x" "(w, rest) = x"
  have "length rest < length (tl r)" using shell_word_shorter [of False "tl r" w rest] a by simp
  also have "\<dots> \<le> length s" using a(2) length_dropWhile_le [of _ s] by (simp add: le_diff_conv le_SucI)
  finally show "(rest, s) \<in> measure length" by simp
qed simp

declare shell_lines.simps [simp del]

lemma shell_quoted:
  "shell_word True (escape_quotes s @ [CHR 0x27] @ t) = map_option (\<lambda>(w, r). (s @ w, r)) (shell_word False t)"
proof (induction s)
  case Nil
  then show ?case by (cases "shell_word False t") (auto simp: escape_quotes_def)
next
  case (Cons c s)
  have e: "escape_quotes (c # s) = (if c = CHR 0x27 then [CHR 0x27, CHR 0x5C, CHR 0x27, CHR 0x27] else [c]) @ escape_quotes s"
    by (simp add: escape_quotes_def)
  show ?case using Cons by (cases "shell_word False t") (auto simp: e split: prod.splits)
qed

lemma env_name_no_equals:
  assumes "validEnvName name"
  shows "name \<noteq> [] \<and> list_all (\<lambda>c. c \<noteq> CHR ''='') name"
proof -
  have "\<not> env_letter (CHR ''='')" "\<not> is_digit (CHR ''='')" by (simp_all add: env_letter_def is_digit_def code_def)
  then show ?thesis using assms by (auto simp: validEnvName_def list_all_iff split: list.splits)
qed

lemma shell_line:
  assumes "validEnvName key"
  shows "shell_lines (env_line key value @ t) = map_option (Cons (key, string_of value)) (shell_lines t)"
proof -
  let ?s = "env_line key value @ t"
  have k: "key \<noteq> []" "list_all (\<lambda>c. c \<noteq> CHR ''='') key" using env_name_no_equals [OF assms] by auto
  have s: "?s = key @ CHR ''='' # CHR 0x27 # (escape_quotes (string_of value) @ [CHR 0x27] @ CHR 0x0A # t)"
    by (simp add: env_line_def)
  have w: "takeWhile (\<lambda>c. c \<noteq> CHR ''='') ?s = key" "dropWhile (\<lambda>c. c \<noteq> CHR ''='') ?s =
      CHR ''='' # CHR 0x27 # (escape_quotes (string_of value) @ [CHR 0x27] @ CHR 0x0A # t)"
    unfolding s using k(2) by (auto simp: list_all_iff takeWhile_append dropWhile_append)
  have "shell_word False (CHR 0x27 # (escape_quotes (string_of value) @ [CHR 0x27] @ CHR 0x0A # t)) = Some (string_of value, t)"
    unfolding shell_word.simps(3) using shell_quoted [of "string_of value" "CHR 0x0A # t"] by simp
  then show ?thesis using assms k(1) w by (subst shell_lines.simps) (simp add: Let_def s)
qed

lemma string_of_append: "string_of (a @ b) = string_of a @ string_of b"
  by (simp add: string_of_def)

text \<open>A session: the writes in order, and what each of them answered.\<close>

fun env_session :: "EnvTarget \<Rightarrow> (string \<times> bytes) list \<Rightarrow> EnvTarget \<times> goerr option list" where
  "env_session e [] = (e, [])"
| "env_session e ((key, value) # ws) =
     (case EnvTarget_Write e key value of
        (e', err) \<Rightarrow> (case env_session e' ws of (e'', errs) \<Rightarrow> (e'', err # errs)))"

definition accepted :: "(string \<times> bytes) list \<Rightarrow> goerr option list \<Rightarrow> (string \<times> string) list" where
  "accepted ws errs = map (\<lambda>((key, value), _). (key, string_of value)) (filter (\<lambda>(_, err). err = None) (zip ws errs))"

lemma env_write_accepts:
  assumes "EnvTarget_Write e key value = (e', None)"
  shows "validEnvName key \<and> key \<notin> ev_existing e \<and> ev_w e' = ev_w e @ bytes_of (env_line key value)
     \<and> ev_existing e' = insert key (ev_existing e)"
  using assms by (auto simp: EnvTarget_Write_def Let_def split: if_splits list.splits option.splits)

lemma env_write_refuses:
  assumes "EnvTarget_Write e key value = (e', Some err)" "list_all (\<lambda>f. f = None) (ev_faults e)"
  shows "e' = e"
  using assms by (auto simp: EnvTarget_Write_def Let_def split: if_splits list.splits option.splits)

lemma env_write_faults:
  "list_all (\<lambda>f. f = None) (ev_faults e) \<Longrightarrow> list_all (\<lambda>f. f = None) (ev_faults (fst (EnvTarget_Write e key value)))"
  by (auto simp: EnvTarget_Write_def Let_def split: list.splits option.splits)

lemma env_session_reads:
  assumes "list_all (\<lambda>f. f = None) (ev_faults e)" "env_session e ws = (e', errs)"
  shows "\<exists>out. string_of (ev_w e') = string_of (ev_w e) @ out \<and> length errs = length ws
     \<and> (\<forall>t. shell_lines (out @ t) = map_option (\<lambda>l. accepted ws errs @ l) (shell_lines t))
     \<and> distinct (map fst (accepted ws errs)) \<and> set (map fst (accepted ws errs)) \<inter> ev_existing e = {}"
  using assms
proof (induction e ws arbitrary: e' errs rule: env_session.induct)
  case (1 e)
  then show ?case by (auto simp: accepted_def map_option.id [unfolded id_def] option.map_ident)
next
  case (2 e key val ws)
  obtain e1 err where w: "EnvTarget_Write e key val = (e1, err)" by (cases "EnvTarget_Write e key val")
  obtain errs' where s: "env_session e1 ws = (e', errs')" "errs = err # errs'"
    using 2(3) w by (auto split: prod.splits)
  have f: "list_all (\<lambda>f. f = None) (ev_faults e1)" using env_write_faults [OF 2(2), of key val] w by simp
  obtain out where o: "string_of (ev_w e') = string_of (ev_w e1) @ out" "length errs' = length ws"
    "\<forall>t. shell_lines (out @ t) = map_option (\<lambda>l. accepted ws errs' @ l) (shell_lines t)"
    "distinct (map fst (accepted ws errs'))" "set (map fst (accepted ws errs')) \<inter> ev_existing e1 = {}"
    using 2(1) [OF w [symmetric] f s(1)] by blast
  show ?case
  proof (cases err)
    case (Some x)
    then have "e1 = e" using env_write_refuses w 2(2) by simp
    then show ?thesis using o s(2) Some by (auto simp: accepted_def)
  next
    case None
    note a = env_write_accepts [OF w [unfolded None]]
    have acc: "accepted ((key, val) # ws) errs = (key, string_of val) # accepted ws errs'"
      using s(2) None by (simp add: accepted_def)
    have sw: "string_of (ev_w e') = string_of (ev_w e) @ env_line key val @ out"
      using o(1) a by (simp add: string_of_append)
    have "shell_lines ((env_line key val @ out) @ t) = map_option (\<lambda>l. accepted ((key, val) # ws) errs @ l) (shell_lines t)" for t
      using o(3) shell_line [of key val "out @ t"] a by (cases "shell_lines t") (auto simp: acc)
    then show ?thesis using o(2,4,5) sw a unfolding acc
      by (intro exI [of _ "env_line key val @ out"]) (auto simp: s(2) acc [unfolded s(2)])
  qed
qed



text \<open>The variables that should be there: the first of each name that is valid, new and on one line.\<close>

fun env_expected :: "string set \<Rightarrow> (string \<times> bytes) list \<Rightarrow> (string \<times> string) list" where
  "env_expected seen [] = []"
| "env_expected seen ((key, value) # ws) =
     (if validEnvName key \<and> key \<notin> seen \<and> \<not> contains_any [CHR 0x00, CHR 0x0D, CHR 0x0A] (string_of value)
      then (key, string_of value) # env_expected (insert key seen) ws else env_expected seen ws)"

lemma env_session_accepts:
  "ev_faults e = [] \<Longrightarrow> env_session e ws = (e', errs) \<Longrightarrow> accepted ws errs = env_expected (ev_existing e) ws"
proof (induction e ws arbitrary: e' errs rule: env_session.induct)
  case (1 e)
  then show ?case by (auto simp: accepted_def)
next
  case (2 e key val ws)
  obtain e1 err where w: "EnvTarget_Write e key val = (e1, err)" by (cases "EnvTarget_Write e key val")
  obtain errs' where s: "env_session e1 ws = (e', errs')" "errs = err # errs'"
    using 2(3) w by (auto split: prod.splits)
  have f: "ev_faults e1 = []" using w 2(2) by (auto simp: EnvTarget_Write_def Let_def split: if_splits)
  have "accepted ws errs' = env_expected (ev_existing e1) ws" by (rule 2(1) [OF w [symmetric] f s(1)])
  then show ?case using w 2(2) s(2)
    by (auto simp: EnvTarget_Write_def Let_def accepted_def split: if_splits)
qed

section \<open>The file system\<close>

text \<open>How many faults are still to come, and what is at a path when it is a file.\<close>

definition faults :: "filesys \<Rightarrow> nat" where
  "faults fs = length (filter (\<lambda>f. f \<noteq> None) (fs_faults fs))"

definition file_at :: "filesys \<Rightarrow> path \<Rightarrow> bytes option" where
  "file_at fs p = (case fs_look fs p of Some (FFile b) \<Rightarrow> Some b | _ \<Rightarrow> None)"

lemma look_put [simp]: "fs_look (fs_put p n fs) = (fs_look fs)(p \<mapsto> n)"
  by (rule ext) (simp add: fs_look_def fs_put_def update_conv)

lemma look_del [simp]: "fs_look (fs_del p fs) = (fs_look fs)(p := None)"
  by (rule ext) (simp add: fs_look_def fs_del_def delete_conv)

lemma faults_put [simp]: "faults (fs_put p n fs) = faults fs" and faults_del [simp]: "faults (fs_del p fs) = faults fs"
  by (simp_all add: faults_def fs_put_def fs_del_def)

lemma next_fault_cases:
  assumes "next_fault fs = (f, fs')"
  shows "fs_look fs' = fs_look fs \<and> faults fs = (if f = None then 0 else 1) + faults fs'"
  using assms by (auto simp: next_fault_def faults_def fs_look_def split: list.splits)

text \<open>Nothing is lost or changed; what is new are directories.\<close>

definition grown :: "nat \<Rightarrow> filesys \<Rightarrow> filesys \<Rightarrow> bool" where
  "grown k fs fs' \<longleftrightarrow>
     (\<forall>q. fs_look fs' q = fs_look fs q \<or> (fs_look fs q = None \<and> fs_look fs' q = Some FDir \<and> length q < k)) \<and> faults fs' \<le> faults fs"

lemma grown_refl [simp]: "grown k fs fs"
  by (simp add: grown_def)

lemma grownD: "grown k fs fs' \<Longrightarrow> fs_look fs' q = fs_look fs q \<or> (fs_look fs q = None \<and> fs_look fs' q = Some FDir \<and> length q < k)"
  by (simp add: grown_def)

lemma grown_trans: "grown k a b \<Longrightarrow> grown k b c \<Longrightarrow> grown k a c"
  unfolding grown_def by (metis (no_types) order_trans)

lemma grown_same: "fs_look fs' = fs_look fs \<Longrightarrow> faults fs' \<le> faults fs \<Longrightarrow> grown k fs fs'"
  by (simp add: grown_def)

lemma grown_put: "length p < k \<Longrightarrow> fs_look fs p = None \<Longrightarrow> grown k fs (fs_put p FDir fs)"
  by (simp add: grown_def)

lemma grown_file_at: "grown k fs fs' \<Longrightarrow> file_at fs' = file_at fs"
  by (rule ext, drule_tac q = x in grownD) (auto simp: file_at_def)

lemma grown_look: "grown k fs fs' \<Longrightarrow> fs_look fs p = Some n \<Longrightarrow> fs_look fs' p = Some n"
  using grownD [of k fs fs' p] by auto

lemma MkdirAll_grown: "os_MkdirAll fs pre ds = (fs', e) \<Longrightarrow> length pre + length ds < k \<Longrightarrow> grown k fs fs'"
proof (induction fs pre ds arbitrary: fs' e rule: os_MkdirAll.induct)
  case (1 fs pre)
  then show ?case by simp
next
  case (2 fs pre d ds)
  obtain f fs1 where n: "next_fault fs = (f, fs1)" by (cases "next_fault fs")
  note l = next_fault_cases [OF n]
  show ?case
  proof (cases "fs_look fs (pre @ [d])")
    case (Some x)
    then show ?thesis using 2 by (cases x) auto
  next
    case None
    show ?thesis
    proof (cases f)
      case (Some x)
      then show ?thesis using 2(2,3) None n l by (cases x) (auto intro: grown_same)
    next
      case f: None
      have "grown k (fs_put (pre @ [d]) FDir fs1) fs'"
        using 2 None n f by simp
      moreover have "grown k fs1 (fs_put (pre @ [d]) FDir fs1)" using None l 2(4) by (intro grown_put) simp_all
      ultimately show ?thesis using l by (metis grown_same grown_trans le_add2)
    qed
  qed
qed

lemma os_Write_effect:
  assumes "os_Write fs p b = (fs', r)"
  shows "\<exists>c. fs_look fs' = (fs_look fs)(p \<mapsto> FFile c) \<and> (r = None \<longrightarrow> c = b)
     \<and> faults fs = (if r = None then 0 else 1) + faults fs'"
  using assms next_fault_cases [of fs "fst (next_fault fs)" "snd (next_fault fs)"]
  by (auto simp: os_Write_def split: prod.splits option.splits)

lemma os_Close_effect:
  assumes "os_Close fs = (fs', e)"
  shows "fs_look fs' = fs_look fs \<and> faults fs = (if e = None then 0 else 1) + faults fs'"
  using assms next_fault_cases [of fs "fst (next_fault fs)" "snd (next_fault fs)"]
  by (auto simp: os_Close_def split: prod.splits option.splits)

lemma os_Remove_effect:
  "(fs_look (os_Remove fs p) = (fs_look fs)(p := None) \<or> (fs_look (os_Remove fs p) = fs_look fs \<and> faults fs \<noteq> 0))
     \<and> faults (os_Remove fs p) \<le> faults fs"
  using next_fault_cases [of fs "fst (next_fault fs)" "snd (next_fault fs)"]
  by (auto simp: os_Remove_def split: prod.splits option.splits)

lemma os_OpenExcl_effect:
  assumes "os_OpenExcl fs p = (fs', e)"
  shows "case e of
      None \<Rightarrow> fs_look fs p = None \<and> fs_look fs (butlast p) = Some FDir \<and> fs_look fs' = (fs_look fs)(p \<mapsto> FFile [])
        \<and> faults fs' = faults fs
    | Some err \<Rightarrow> fs_look fs' = fs_look fs \<and> faults fs' \<le> faults fs
        \<and> ((fs_look fs p = None \<or> err \<noteq> EEXIST) \<and> fs_look fs (butlast p) = Some FDir \<longrightarrow> faults fs' < faults fs)"
  using assms next_fault_cases [of fs "fst (next_fault fs)" "snd (next_fault fs)"]
  by (auto simp: os_OpenExcl_def split: prod.splits option.splits if_splits)

lemma os_Rename_effect:
  assumes "os_Rename fs a b = (fs', e)" "fs_look fs a = Some n"
  shows "case e of
      None \<Rightarrow> fs_look fs' = (fs_look fs)(b \<mapsto> n, a := None) \<and> faults fs' = faults fs
    | Some err \<Rightarrow> fs_look fs' = fs_look fs \<and> faults fs' < faults fs"
  using assms next_fault_cases [of fs "fst (next_fault fs)" "snd (next_fault fs)"]
  by (auto simp: os_Rename_def split: prod.splits option.splits)

lemma create_temp_effect:
  "create_temp fs dir tmp i n = (fs', r) \<Longrightarrow>
     (case r of
        Inr q \<Rightarrow> fs_look fs q = None \<and> fs_look fs' = (fs_look fs)(q \<mapsto> FFile [])
      | Inl err \<Rightarrow> fs_look fs' = fs_look fs
          \<and> (fs_look fs dir = Some FDir \<and> (\<exists>j\<in>{i..<i + n}. fs_look fs (dir @ [tmp j]) = None) \<longrightarrow> faults fs' < faults fs))
     \<and> faults fs' \<le> faults fs"
proof (induction fs dir tmp i n rule: create_temp.induct)
  case (1 fs dir tmp i)
  then show ?case by auto
next
  case (2 fs dir tmp i n)
  obtain fs1 e where o: "os_OpenExcl fs (dir @ [tmp i]) = (fs1, e)" by (cases "os_OpenExcl fs (dir @ [tmp i])")
  note x = os_OpenExcl_effect [OF o]
  show ?case
  proof (cases e)
    case None
    then show ?thesis using 2(2) o x by auto
  next
    case (Some err)
    show ?thesis
    proof (cases "err = EEXIST \<or> err = ENOTEMPTY")
      case True
      then have c: "create_temp fs1 dir tmp (Suc i) n = (fs', r)" using 2(2) o Some by simp
      have m: "(\<exists>j\<in>{i..<i + Suc n}. fs_look fs (dir @ [tmp j]) = None) \<longleftrightarrow>
          fs_look fs (dir @ [tmp i]) = None \<or> (\<exists>j\<in>{Suc i..<Suc i + n}. fs_look fs (dir @ [tmp j]) = None)"
      proof -
        have "{i..<i + Suc n} = insert i {Suc i..<Suc i + n}" by auto
        then show ?thesis by simp
      qed
      show ?thesis
        using 2(1) [OF o [symmetric] Some True c] x Some unfolding m by (auto split: sum.splits)
    next
      case False
      then have r: "fs' = fs1" "r = Inl (os_err ''openat'' (tmp i) err)" using 2(2) o Some by auto
      then show ?thesis using x Some False by auto
    qed
  qed
qed

lemma create_temp_place: "create_temp fs dir tmp i n = (fs', Inr q) \<Longrightarrow> q \<noteq> [] \<and> butlast q = dir"
  by (induction fs dir tmp i n rule: create_temp.induct) (auto split: prod.splits option.splits if_splits)

lemma openRoot_grown: "0 < k \<Longrightarrow> openRoot fs = (fs', e) \<Longrightarrow> grown k fs fs'"
  using next_fault_cases [of fs "fst (next_fault fs)" "snd (next_fault fs)"]
  by (auto simp: openRoot_def grown_def split: prod.splits option.splits node.splits if_splits)

lemma mkdirAllIn_grown: "mkdirAllIn fs dir = (fs', e) \<Longrightarrow> length dir < k \<Longrightarrow> grown k fs fs'"
  using MkdirAll_grown [of fs "[]" dir _ _ k] by (auto simp: mkdirAllIn_def split: prod.splits option.splits)

lemma path_of_nonempty [simp]: "path_of key \<noteq> []" "butlast (path_of key) \<noteq> path_of key"
proof -
  show p: "path_of key \<noteq> []" by (simp add: path_of_def)
  show "butlast (path_of key) \<noteq> path_of key" using p by (metis append_butlast_last_id not_Cons_self2 self_append_conv)
qed

lemma create_at_effect:
  assumes "create_at fs key = (fs', e)"
  shows "\<exists>m. grown (length (path_of key)) fs m \<and> (case e of
      None \<Rightarrow> fs_look m (path_of key) = None \<and> fs_look m (butlast (path_of key)) = Some FDir
        \<and> fs_look fs' = (fs_look m)(path_of key \<mapsto> FFile []) \<and> faults fs' \<le> faults m
    | Some err \<Rightarrow> fs_look fs' = fs_look m \<and> faults fs' \<le> faults m)"
proof -
  obtain f1 e1 where 1: "openRoot fs = (f1, e1)" by (cases "openRoot fs")
  obtain f2 e2 where 2: "mkdirAllIn f1 (butlast (path_of key)) = (f2, e2)"
    by (cases "mkdirAllIn f1 (butlast (path_of key))")
  obtain f3 e3 where 3: "os_OpenExcl f2 (path_of key) = (f3, e3)" by (cases "os_OpenExcl f2 (path_of key)")
  have g1: "grown (length (path_of key)) fs f1" by (rule openRoot_grown [OF _ 1]) simp
  have g2: "grown (length (path_of key)) fs f2" by (rule grown_trans [OF g1 mkdirAllIn_grown [OF 2]]) simp
  have r: "(fs', e = None) = (case e1 of Some _ \<Rightarrow> (f1, False) | None \<Rightarrow> (case e2 of Some _ \<Rightarrow> (f2, False) | None \<Rightarrow> (f3, e3 = None)))"
    using assms 1 2 3 by (auto simp: create_at_def Let_def split: option.splits)
  show ?thesis
  proof (cases "e1 = None \<and> e2 = None")
    case True
    then show ?thesis using r os_OpenExcl_effect [OF 3] g2 by (intro exI [of _ f2]) (auto split: option.splits)
  next
    case False
    then have "fs' = f1 \<or> fs' = f2" "e \<noteq> None" using r by (auto split: option.splits)
    then show ?thesis using g1 g2 by auto
  qed
qed

text \<open>
  What a write left behind: the value where nothing was, or nothing; or, only when two things failed,
  something in a place where nothing was.
\<close>

definition settled :: "filesys \<Rightarrow> string \<Rightarrow> bytes option \<Rightarrow> nat \<Rightarrow> filesys \<Rightarrow> bool" where
  "settled fs key val failures fs' \<longleftrightarrow> faults fs' \<le> faults fs \<and> (\<exists>m. grown (length (path_of key)) fs m \<and> (case val of
       Some v \<Rightarrow> fs_look m (path_of key) = None \<and> fs_look fs' = (fs_look m)(path_of key \<mapsto> FFile v)
     | None \<Rightarrow> fs_look fs' = fs_look m
         \<or> (2 \<le> failures \<and> faults fs \<noteq> 0 \<and> (\<forall>q. fs_look m q = None \<or> fs_look fs' q = fs_look m q))))"

lemma settled_keeps:
  assumes "settled fs key val n fs'" "fs_look fs q = Some x"
  shows "fs_look fs' q = Some x"
proof -
  obtain m where m: "grown (length (path_of key)) fs m" "case val of
       Some v \<Rightarrow> fs_look m (path_of key) = None \<and> fs_look fs' = (fs_look m)(path_of key \<mapsto> FFile v)
     | None \<Rightarrow> fs_look fs' = fs_look m \<or> (2 \<le> n \<and> faults fs \<noteq> 0 \<and> (\<forall>q. fs_look m q = None \<or> fs_look fs' q = fs_look m q))"
    using assms(1) unfolding settled_def by blast
  show ?thesis using grown_look [OF m(1) assms(2)] m(2) by (cases val) (auto dest: spec [of _ q])
qed

lemma settled_files:
  assumes "settled fs key val n fs'" "n \<le> 1 \<or> faults fs = 0 \<or> val \<noteq> None"
  shows "file_at fs' = (case val of Some v \<Rightarrow> (file_at fs)(path_of key \<mapsto> v) | None \<Rightarrow> file_at fs)"
    and "val \<noteq> None \<Longrightarrow> file_at fs (path_of key) = None"
proof -
  obtain m where m: "grown (length (path_of key)) fs m" "case val of
       Some v \<Rightarrow> fs_look m (path_of key) = None \<and> fs_look fs' = (fs_look m)(path_of key \<mapsto> FFile v)
     | None \<Rightarrow> fs_look fs' = fs_look m" using assms unfolding settled_def by (fastforce split: option.splits)
  have f: "file_at m = file_at fs" by (rule grown_file_at [OF m(1)])
  show "file_at fs' = (case val of Some v \<Rightarrow> (file_at fs)(path_of key \<mapsto> v) | None \<Rightarrow> file_at fs)"
    using m(2) by (auto simp: f [symmetric] file_at_def fun_eq_iff split: option.splits)
  show "val \<noteq> None \<Longrightarrow> file_at fs (path_of key) = None"
    using m(2) by (auto simp: f [symmetric] file_at_def)
qed

lemma write_file_settled:
  assumes "write_file fs key v = (fs', e)"
  shows "settled fs key (if e = None then Some v else None) (faults fs) fs'"
proof -
  obtain f1 e1 where 1: "create_at fs key = (f1, e1)" by (cases "create_at fs key")
  obtain f2 e2 where 2: "os_Write f1 (path_of key) v = (f2, e2)" by (cases "os_Write f1 (path_of key) v")
  obtain f3 e3 where 3: "os_Close f2 = (f3, e3)" by (cases "os_Close f2")
  obtain m where m: "grown (length (path_of key)) fs m" "case e1 of
      None \<Rightarrow> fs_look m (path_of key) = None \<and> fs_look m (butlast (path_of key)) = Some FDir
        \<and> fs_look f1 = (fs_look m)(path_of key \<mapsto> FFile []) \<and> faults f1 \<le> faults m
    | Some err \<Rightarrow> fs_look f1 = fs_look m \<and> faults f1 \<le> faults m" using create_at_effect [OF 1] by blast
  obtain c where w: "fs_look f2 = (fs_look f1)(path_of key \<mapsto> FFile c)" "e2 = None \<longrightarrow> c = v"
    "faults f1 = (if e2 = None then 0 else 1) + faults f2" using os_Write_effect [OF 2] by blast
  note cl = os_Close_effect [OF 3]
  note rm = os_Remove_effect [of f3 "path_of key"]
  show ?thesis
  proof (cases e1)
    case (Some err)
    then have "fs' = f1" "e \<noteq> None" using assms 1 by (auto simp: write_file_def)
    then show ?thesis using m Some by (auto simp: settled_def grown_def)
  next
    case None
    have r: "(fs', e = None) = (if e2 = None \<and> e3 = None then (f3, True) else (os_Remove f3 (path_of key), False))"
      using assms 1 2 3 None by (auto simp: write_file_def split: option.splits prod.splits)
    show ?thesis
    proof (cases "e2 = None \<and> e3 = None")
      case True
      then show ?thesis using r m w cl None by (auto simp: settled_def grown_def)
    next
      case False
      then have f: "faults f3 < faults f1" using w cl by (auto split: if_splits)
      have mf: "faults f1 \<le> faults fs" using m None by (auto simp: grown_def)
      have "fs_look (os_Remove f3 (path_of key)) = fs_look m
         \<or> (2 \<le> faults fs \<and> faults fs \<noteq> 0 \<and> (\<forall>q. fs_look m q = None \<or> fs_look (os_Remove f3 (path_of key)) q = fs_look m q))"
        using rm w cl m(2) None f mf by (auto simp: fun_upd_idem split: if_splits)
      moreover have "faults (os_Remove f3 (path_of key)) \<le> faults fs" using rm f mf by simp
      ultimately show ?thesis using r False m(1) by (auto simp: settled_def)
    qed
  qed
qed

lemma cleanup_effect:
  assumes "fs_look g = (fs_look m)(p \<mapsto> a, q \<mapsto> b)" "fs_look m p = None" "fs_look m q = None" "p \<noteq> q"
  shows "fs_look (os_Remove (os_Remove g q) p) = fs_look m
     \<or> (faults g \<noteq> 0 \<and> (\<forall>r. fs_look m r = None \<or> fs_look (os_Remove (os_Remove g q) p) r = fs_look m r))"
  using os_Remove_effect [of g q] os_Remove_effect [of "os_Remove g q" p] assms
  by (auto simp: fun_upd_idem fun_upd_twist split: if_splits)

text \<open>What goes wrong in a streamed write: the faults, an error of the source, and every temporary name taken.\<close>

definition failures :: "filesys \<Rightarrow> (nat \<Rightarrow> string) \<Rightarrow> string \<Rightarrow> source \<Rightarrow> nat" where
  "failures fs tmp key src = faults fs + (if snd src = None then 0 else 1)
     + (if list_ex (\<lambda>i. fs_look fs (butlast (path_of key) @ [tmp i]) = None \<and> butlast (path_of key) @ [tmp i] \<noteq> path_of key)
          [0..<100] then 0 else 1)"

lemma stream_file_settled:
  assumes "stream_file fs tmp key src = (fs', e, took)"
  shows "settled fs key (if e = None then Some (fst src) else None) (failures fs tmp key src) fs'
     \<and> (e = None \<longrightarrow> snd src = None)"
proof -
  let ?p = "path_of key"
  obtain f1 e1 where 1: "create_at fs key = (f1, e1)" by (cases "create_at fs key")
  obtain f2 e2 where 2: "os_Close f1 = (f2, e2)" by (cases "os_Close f1")
  obtain f3 r where 3: "createTempIn f2 (butlast ?p) tmp = (f3, r)" by (cases "createTempIn f2 (butlast ?p) tmp")
  obtain m where m: "grown (length ?p) fs m" "case e1 of
      None \<Rightarrow> fs_look m ?p = None \<and> fs_look m (butlast ?p) = Some FDir
        \<and> fs_look f1 = (fs_look m)(?p \<mapsto> FFile []) \<and> faults f1 \<le> faults m
    | Some err \<Rightarrow> fs_look f1 = fs_look m \<and> faults f1 \<le> faults m" using create_at_effect [OF 1] by blast
  note cl = os_Close_effect [OF 2]
  show ?thesis
  proof (cases e1)
    case (Some err)
    then have "fs' = f1" "e \<noteq> None" using assms 1 by (auto simp: stream_file_def Let_def)
    then show ?thesis using m Some by (auto simp: settled_def grown_def)
  next
    case e1: None
    have mf: "faults f2 \<le> faults fs" "fs_look f2 = (fs_look m)(?p \<mapsto> FFile [])" "fs_look m ?p = None"
      "fs_look f2 (butlast ?p) = Some FDir"
      using m e1 cl by (auto simp: grown_def)
    note ct = create_temp_effect [OF 3 [unfolded createTempIn_def]]
    show ?thesis
    proof (cases r)
      case (Inl err)
      have "fs' = os_Remove f3 ?p" "e \<noteq> None" using assms 1 2 3 e1 Inl by (auto simp: stream_file_def Let_def)
      moreover have "faults f3 < failures fs tmp key src"
      proof (cases "\<exists>i<100. fs_look fs (butlast ?p @ [tmp i]) = None \<and> butlast ?p @ [tmp i] \<noteq> ?p")
        case True
        then obtain i where i: "i < 100" "fs_look fs (butlast ?p @ [tmp i]) = None" "butlast ?p @ [tmp i] \<noteq> ?p" by blast
        then have "fs_look m (butlast ?p @ [tmp i]) = None" using grownD [OF m(1), of "butlast ?p @ [tmp i]"] by simp
        then have "faults f3 < faults f2" using ct Inl mf i by auto
        then show ?thesis using mf(1) by (simp add: failures_def)
      next
        case False
        then have "faults fs < failures fs tmp key src" by (auto simp: failures_def list_ex_iff)
        then show ?thesis using ct mf(1) by simp
      qed
      ultimately show ?thesis
        using os_Remove_effect [of f3 ?p] ct Inl mf m(1)
        by (auto simp: settled_def fun_upd_idem intro!: exI [of _ m] split: if_splits)
    next
      case (Inr q)
      have q: "fs_look m q = None" "q \<noteq> ?p" "fs_look f3 = (fs_look m)(?p \<mapsto> FFile [], q \<mapsto> FFile [])" "faults f3 \<le> faults f2"
        using ct Inr mf by (auto split: if_splits)
      obtain f4 r4 where 4: "os_Write f3 q (fst src) = (f4, r4)" by (cases "os_Write f3 q (fst src)")
      obtain f5 e5 where 5: "os_Close f4 = (f5, e5)" by (cases "os_Close f4")
      obtain f6 e6 where 6: "os_Rename f5 q ?p = (f6, e6)" by (cases "os_Rename f5 q ?p")
      obtain c where w: "fs_look f4 = (fs_look m)(?p \<mapsto> FFile [], q \<mapsto> FFile c)" "r4 = None \<longrightarrow> c = fst src"
        "faults f3 = (if r4 = None then 0 else 1) + faults f4" using os_Write_effect [OF 4] q by auto
      have c5: "fs_look f5 = (fs_look m)(?p \<mapsto> FFile [], q \<mapsto> FFile c)" "faults f4 = (if e5 = None then 0 else 1) + faults f5"
        using os_Close_effect [OF 5] w by auto
      have c6: "case e6 of
          None \<Rightarrow> fs_look f6 = (fs_look m)(?p \<mapsto> FFile c) \<and> faults f6 = faults f5
        | Some err \<Rightarrow> fs_look f6 = fs_look f5 \<and> faults f6 < faults f5"
        using os_Rename_effect [OF 6, of "FFile c"] c5 q by (auto simp: fun_upd_idem fun_upd_twist split: option.splits)
      have r: "(fs', e = None) =
          (if r4 = None \<and> snd src = None \<and> e5 = None then
             (if e6 = None then (f6, True) else (os_Remove (os_Remove f6 q) ?p, False))
           else (os_Remove (os_Remove f5 q) ?p, False))"
        using assms(1) 1 2 3 4 5 6 e1 Inr by (auto simp: stream_file_def Let_def split: option.splits prod.splits)
      show ?thesis
      proof (cases "r4 = None \<and> snd src = None \<and> e5 = None \<and> e6 = None")
        case True
        then show ?thesis using r c5 c6 w q mf m(1) by (auto simp: settled_def)
      next
        case False
        define g where "g = (if r4 = None \<and> snd src = None \<and> e5 = None then f6 else f5)"
        have "fs' = os_Remove (os_Remove g q) ?p" "e \<noteq> None" using r False by (auto simp: g_def split: if_splits)
        moreover have "fs_look g = (fs_look m)(?p \<mapsto> FFile [], q \<mapsto> FFile c)"
          using c5 c6 False by (auto simp: g_def split: option.splits)
        moreover
        have "faults g + 1 \<le> faults fs + (if snd src = None then 0 else 1)"
          using c5 c6 w q mf False by (auto simp: g_def split: option.splits if_splits)
        then have "faults g + 1 \<le> failures fs tmp key src" by (simp add: failures_def)
        moreover have "faults g \<le> faults fs" using c5 c6 w q mf by (auto simp: g_def split: option.splits if_splits)
        moreover have "faults (os_Remove (os_Remove g q) ?p) \<le> faults g"
          using os_Remove_effect [of g q] os_Remove_effect [of "os_Remove g q" ?p] by simp
        ultimately show ?thesis using cleanup_effect [of g m ?p "FFile []" q "FFile c"] mf(3) q(1,2) m(1)
          by (auto simp: settled_def intro!: exI [of _ m])
      qed
    qed
  qed
qed

section \<open>The file system stays a tree\<close>

text \<open>Whatever is in a directory that is there: only the base directory has no parent.\<close>

definition tree :: "(path \<Rightarrow> node option) \<Rightarrow> bool" where
  "tree L \<longleftrightarrow> (\<forall>p. p \<noteq> [] \<longrightarrow> L p \<noteq> None \<longrightarrow> L (butlast p) = Some FDir)"

lemma tree_dir: "tree L \<Longrightarrow> L p = None \<Longrightarrow> p = [] \<or> L (butlast p) = Some FDir \<Longrightarrow> tree (L(p \<mapsto> FDir))"
  by (auto simp: tree_def)

lemma tree_file: "tree L \<Longrightarrow> L p \<noteq> Some FDir \<Longrightarrow> L (butlast p) = Some FDir \<Longrightarrow> tree (L(p \<mapsto> FFile b))"
  unfolding tree_def by (metis fun_upd_apply option.distinct(1))

lemma tree_remove: "tree L \<Longrightarrow> L p \<noteq> Some FDir \<Longrightarrow> tree (L(p := None))"
  unfolding tree_def by (metis fun_upd_apply)

lemma MkdirAll_tree:
  "os_MkdirAll fs pre ds = (fs', e) \<Longrightarrow> tree (fs_look fs) \<Longrightarrow> fs_look fs pre = Some FDir \<Longrightarrow> tree (fs_look fs')"
proof (induction fs pre ds arbitrary: fs' e rule: os_MkdirAll.induct)
  case (1 fs pre)
  then show ?case by simp
next
  case (2 fs pre d ds)
  obtain f fs1 where n: "next_fault fs = (f, fs1)" by (cases "next_fault fs")
  note l = next_fault_cases [OF n]
  show ?case
  proof (cases "fs_look fs (pre @ [d])")
    case (Some x)
    then show ?thesis using 2 by (cases x) auto
  next
    case None
    have "tree (fs_look (fs_put (pre @ [d]) FDir fs1))"
      using tree_dir [OF 2(4) None] 2(5) l by simp
    then show ?thesis using 2 None n l by (cases f) (auto simp: fun_upd_def)
  qed
qed

lemma create_at_tree:
  assumes "create_at fs key = (fs', e)" "tree (fs_look fs)"
  shows "tree (fs_look fs')"
proof -
  obtain f1 e1 where 1: "openRoot fs = (f1, e1)" by (cases "openRoot fs")
  obtain f2 e2 where 2: "mkdirAllIn f1 (butlast (path_of key)) = (f2, e2)"
    by (cases "mkdirAllIn f1 (butlast (path_of key))")
  obtain f3 e3 where 3: "os_OpenExcl f2 (path_of key) = (f3, e3)" by (cases "os_OpenExcl f2 (path_of key)")
  have t1: "tree (fs_look f1) \<and> (e1 = None \<longrightarrow> fs_look f1 [] = Some FDir)"
    using 1 assms(2) next_fault_cases [of fs "fst (next_fault fs)" "snd (next_fault fs)"] tree_dir [of "fs_look fs" "[]"]
    by (auto simp: openRoot_def split: prod.splits option.splits node.splits if_splits)
  have t2: "e1 = None \<Longrightarrow> tree (fs_look f2)"
    using 2 t1 MkdirAll_tree [of f1 "[]"] by (auto simp: mkdirAllIn_def split: prod.splits option.splits)
  have t3: "tree (fs_look f2) \<Longrightarrow> tree (fs_look f3)"
    using os_OpenExcl_effect [OF 3] tree_file [of "fs_look f2" "path_of key" "[]"] by (auto split: option.splits)
  show ?thesis using assms(1) 1 2 3 t1 t2 t3 by (auto simp: create_at_def Let_def split: option.splits)
qed

text \<open>The steps after the file is there: it and a temporary file beside it are written, removed and renamed.\<close>

lemma os_Write_tree:
  assumes "os_Write fs p b = (fs', r)" "tree (fs_look fs)" "fs_look fs p = Some (FFile c)" "p \<noteq> []"
  shows "tree (fs_look fs') \<and> (\<exists>c'. fs_look fs' = (fs_look fs)(p \<mapsto> FFile c'))"
proof -
  have "fs_look fs (butlast p) = Some FDir" using assms(2-) by (auto simp: tree_def)
  then show ?thesis using os_Write_effect [OF assms(1)] tree_file [of "fs_look fs" p] assms(2,3) by auto
qed

lemma os_Remove_tree:
  assumes "tree (fs_look fs)" "fs_look fs p \<noteq> Some FDir"
  shows "tree (fs_look (os_Remove fs p)) \<and> (\<forall>q. fs_look fs q \<noteq> Some FDir \<longrightarrow> fs_look (os_Remove fs p) q \<noteq> Some FDir)"
  using os_Remove_effect [of fs p] tree_remove [OF assms] assms(1) by (auto split: if_splits)

lemma write_file_tree:
  assumes "write_file fs key v = (fs', e)" "tree (fs_look fs)"
  shows "tree (fs_look fs')"
proof -
  obtain f1 e1 where 1: "create_at fs key = (f1, e1)" by (cases "create_at fs key")
  obtain f2 e2 where 2: "os_Write f1 (path_of key) v = (f2, e2)" by (cases "os_Write f1 (path_of key) v")
  obtain f3 e3 where 3: "os_Close f2 = (f3, e3)" by (cases "os_Close f2")
  have t: "tree (fs_look f1)" by (rule create_at_tree [OF 1 assms(2)])
  show ?thesis
  proof (cases e1)
    case (Some err)
    then show ?thesis using assms(1) 1 t by (auto simp: write_file_def)
  next
    case None
    have "fs_look f1 (path_of key) = Some (FFile [])" using create_at_effect [OF 1] None by auto
    then have t3: "tree (fs_look f3)" "fs_look f3 (path_of key) \<noteq> Some FDir"
      using os_Write_tree [OF 2 t] os_Close_effect [OF 3] by auto
    show ?thesis using assms(1) 1 2 3 None t3 os_Remove_tree [OF t3]
      by (auto simp: write_file_def split: option.splits prod.splits)
  qed
qed

lemma stream_file_tree:
  assumes "stream_file fs tmp key src = (fs', e, took)" "tree (fs_look fs)"
  shows "tree (fs_look fs')"
proof -
  let ?p = "path_of key"
  obtain f1 e1 where 1: "create_at fs key = (f1, e1)" by (cases "create_at fs key")
  obtain f2 e2 where 2: "os_Close f1 = (f2, e2)" by (cases "os_Close f1")
  obtain f3 r where 3: "createTempIn f2 (butlast ?p) tmp = (f3, r)" by (cases "createTempIn f2 (butlast ?p) tmp")
  have t: "tree (fs_look f1)" by (rule create_at_tree [OF 1 assms(2)])
  note ct = create_temp_effect [OF 3 [unfolded createTempIn_def]]
  show ?thesis
  proof (cases e1)
    case (Some err)
    then show ?thesis using assms(1) 1 t by (auto simp: stream_file_def Let_def)
  next
    case None
    have p: "fs_look f2 ?p = Some (FFile [])" "tree (fs_look f2)" using create_at_effect [OF 1] None os_Close_effect [OF 2] t by auto
    show ?thesis
    proof (cases r)
      case (Inl err)
      have "fs_look f3 = fs_look f2" using ct Inl by auto
      then show ?thesis using assms(1) 1 2 3 None Inl p os_Remove_tree [of f3 ?p] by (auto simp: stream_file_def Let_def)
    next
      case (Inr q)
      have q: "fs_look f2 q = None" "fs_look f3 = (fs_look f2)(q \<mapsto> FFile [])" "q \<noteq> []" "butlast q = butlast ?p"
        using ct Inr create_temp_place [OF 3 [unfolded createTempIn_def Inr]] by auto
      have d: "fs_look f2 (butlast ?p) = Some FDir" using p path_of_nonempty(1) by (auto simp: tree_def)
      then have t3: "tree (fs_look f3)" using tree_file [OF p(2)] q by auto
      obtain f4 r4 where 4: "os_Write f3 q (fst src) = (f4, r4)" by (cases "os_Write f3 q (fst src)")
      obtain f5 e5 where 5: "os_Close f4 = (f5, e5)" by (cases "os_Close f4")
      obtain f6 e6 where 6: "os_Rename f5 q ?p = (f6, e6)" by (cases "os_Rename f5 q ?p")
      obtain c where t5: "tree (fs_look f5)" "fs_look f5 = (fs_look f3)(q \<mapsto> FFile c)"
        using os_Write_tree [OF 4 t3 _ q(3)] q os_Close_effect [OF 5] by auto
      have f5: "fs_look f5 q = Some (FFile c)" "fs_look f5 ?p \<noteq> Some FDir" "fs_look f5 (butlast ?p) = Some FDir"
        using t5(2) q p d by (auto split: if_splits)
      have t6: "tree (fs_look f6)" "e6 \<noteq> None \<Longrightarrow> fs_look f6 = fs_look f5"
      proof -
        have "tree ((fs_look f5)(?p \<mapsto> FFile c))" using tree_file [OF t5(1) f5(2,3)] .
        then have "tree ((fs_look f5)(?p \<mapsto> FFile c, q := None))" by (rule tree_remove) (use f5 in auto)
        then show "tree (fs_look f6)" "e6 \<noteq> None \<Longrightarrow> fs_look f6 = fs_look f5"
          using os_Rename_effect [OF 6 f5(1)] t5(1) by (auto split: option.splits)
      qed
      have rm: "tree (fs_look (os_Remove (os_Remove g q) ?p))" if "fs_look g = fs_look f5" for g
        using that t5(1) f5 os_Remove_tree [of g q] os_Remove_tree [of "os_Remove g q" ?p] by auto
      show ?thesis using assms(1) 1 2 3 4 5 6 None Inr t6 rm [OF refl] rm [of f6]
        by (auto simp: stream_file_def Let_def split: option.splits prod.splits)
    qed
  qed
qed

section \<open>The restore digest\<close>

definition discard_session :: "(string \<times> bytes) list \<Rightarrow> DiscardTarget" where
  "discard_session ws = foldl (\<lambda>d (key, value). fst (DiscardTarget_Write d key value)) NewDiscardTarget ws"

lemma discard_session_digest:
  "ds_digest (foldl (\<lambda>d (key, value). fst (DiscardTarget_Write d key value)) d ws)
     = ds_digest d @ concat (map (\<lambda>(key, value). fold_leaf key (sha384 value)) ws)"
  by (induction ws arbitrary: d) (auto simp: DiscardTarget_Write_def DiscardTarget_fold_def Let_def)

lemma of_nat_length_inject:
  "length a < 2 ^ 64 \<Longrightarrow> length b < 2 ^ 64 \<Longrightarrow> (of_nat (length a) :: 64 word) = of_nat (length b) \<Longrightarrow> length a = length b"
  by (simp add: word_of_nat_eq_iff take_bit_nat_eq_self)

lemma fold_leaf_inject:
  assumes "fold_leaf k h @ r = fold_leaf k' h' @ r'" "length k < 2 ^ 64" "length k' < 2 ^ 64" "length h = 48" "length h' = 48"
  shows "k = k' \<and> h = h' \<and> r = r'"
proof -
  have "put_uint64 (of_nat (length k)) = put_uint64 (of_nat (length k'))"
    "bytes_of k @ put_uint64 (of_nat (length h)) @ h @ r = bytes_of k' @ put_uint64 (of_nat (length h')) @ h' @ r'"
    using assms(1) by (auto simp: fold_leaf_def)
  then show ?thesis using of_nat_length_inject [of k k'] assms(2-) by auto
qed

lemma fold_leaves_inject:
  assumes "concat (map (\<lambda>(key, value). fold_leaf key (sha384 value)) xs) = concat (map (\<lambda>(key, value). fold_leaf key (sha384 value)) ys)"
    and "list_all (\<lambda>(key, _). length key < 2 ^ 64) (xs @ ys)"
  shows "map (\<lambda>(key, value). (key, sha384 value)) xs = map (\<lambda>(key, value). (key, sha384 value)) ys"
  using assms
proof (induction xs arbitrary: ys)
  case Nil
  then show ?case by (cases ys) (auto simp: fold_leaf_def dest!: arg_cong [where f = length])
next
  case (Cons x xs)
  show ?case
  proof (cases ys)
    case Nil
    then show ?thesis using Cons.prems by (auto simp: fold_leaf_def dest!: arg_cong [where f = length] split: prod.splits)
  next
    case (Cons y ys')
    obtain k v k' v' where xy: "x = (k, v)" "y = (k', v')" by fastforce
    have "k = k' \<and> sha384 v = sha384 v' \<and> concat (map (\<lambda>(key, value). fold_leaf key (sha384 value)) xs)
        = concat (map (\<lambda>(key, value). fold_leaf key (sha384 value)) ys')"
      using Cons.prems by (intro fold_leaf_inject) (auto simp: Cons xy)
    then show ?thesis using Cons.IH [of ys'] Cons.prems by (auto simp: Cons xy)
  qed
qed

section \<open>The properties\<close>

text \<open>
  The digest of a discarding restore is taken over a text that fixes what was restored: two sequences
  of writes that fold the same text wrote the same keys in the same order, with values of the same
  SHA-384, whatever bytes the keys hold.
\<close>
theorem restore_digest_framing:
  assumes "ds_digest (discard_session xs) = ds_digest (discard_session ys)"
    and "list_all (\<lambda>(key, _). length key < 2 ^ 64) (xs @ ys)"
  shows "map (\<lambda>(key, value). (key, sha384 value)) xs = map (\<lambda>(key, value). (key, sha384 value)) ys"
  using fold_leaves_inject [OF _ assms(2)] assms(1)
  by (simp add: discard_session_def discard_session_digest NewDiscardTarget_def)

theorem restore_digest_framing_witness:
  "map (\<lambda>(key, value). (key, sha384 value)) [(''a'', [1])] = map (\<lambda>(key, value). (key, sha384 value)) [(''a'', [1 + 0])]"
  by (rule restore_digest_framing) simp_all

text \<open>
  No record name gets out of the base directory: a key that \<open>DirTarget.Key\<close> answers is a relative path whose
  elements are neither empty nor dots and hold no separator, and none of them is a reserved device name.
\<close>
theorem restored_paths_inside:
  "case snd (DirTarget_Key d name) of
     Inl err \<Rightarrow> True
   | Inr key \<Rightarrow> list_all safe_element (path_of key) \<and> firstReservedWindowsElement key = None"
  using safeKey_elements by (auto simp: DirTarget_Key_def Let_def split: option.splits)

text \<open>
  A dotenv file reads back, in a POSIX shell, as exactly the variables that were written: of every
  sequence of writes the first of each name that is valid, that was not set before and whose value has
  no NUL and no line break, with its value byte for byte whatever quotes it holds; and no name twice.
\<close>
theorem dotenv_round_trip:
  "case env_session (NewEnvTarget names []) ws of
     (e, errs) \<Rightarrow> shell_lines (string_of (ev_w e)) = Some (env_expected (set names) ws)
       \<and> distinct (map fst (env_expected (set names) ws))
       \<and> set (map fst (env_expected (set names) ws)) \<inter> set names = {}"
proof -
  obtain e errs where s: "env_session (NewEnvTarget names []) ws = (e, errs)"
    by (cases "env_session (NewEnvTarget names []) ws")
  have a: "accepted ws errs = env_expected (set names) ws"
    using env_session_accepts [OF _ s] by (simp add: NewEnvTarget_def)
  obtain out where o: "string_of (ev_w e) = out"
    "\<forall>t. shell_lines (out @ t) = map_option (\<lambda>l. accepted ws errs @ l) (shell_lines t)"
    "distinct (map fst (accepted ws errs))" "set (map fst (accepted ws errs)) \<inter> set names = {}"
    using env_session_reads [OF _ s] by (auto simp: NewEnvTarget_def string_of_def)
  have "shell_lines out = Some (accepted ws errs)"
    using o(2) [rule_format, of "[]"] by (simp add: shell_lines.simps [of "[]"])
  then show ?thesis using s a o by simp
qed

text \<open>
  A write to a directory target never changes a file or a directory that is there, whatever the file
  system answers: every path keeps its node through a whole-value write and through a streamed one.
\<close>
lemma dir_target_never_clobbers:
  "fs_look (dir_fs d) \<subseteq>\<^sub>m fs_look (dir_fs (fst (DirTarget_Write d key value)))
     \<and> fs_look (dir_fs d) \<subseteq>\<^sub>m fs_look (dir_fs (fst (DirTarget_WriteStream d key src n)))"
proof -
  obtain f1 e1 where 1: "write_file (dir_fs d) key value = (f1, e1)" by (cases "write_file (dir_fs d) key value")
  obtain f2 e2 k where 2: "stream_file (dir_fs d) (dir_tmp d (dir_calls d)) key src = (f2, e2, k)"
    by (cases "stream_file (dir_fs d) (dir_tmp d (dir_calls d)) key src")
  have "fs_look (dir_fs d) \<subseteq>\<^sub>m fs_look f1" "fs_look (dir_fs d) \<subseteq>\<^sub>m fs_look f2"
    using settled_keeps [OF write_file_settled [OF 1]] settled_keeps [OF conjunct1 [OF stream_file_settled [OF 2]]]
    by (auto simp: map_le_def)
  then show ?thesis by (simp add: DirTarget_Write_def DirTarget_WriteStream_def 1 2)
qed

text \<open>
  C35. A streamed write is all or nothing when at most one thing goes wrong, or no system call fails: be it a system call, the source
  or the choice of a temporary name: the files of the directory are those of before with the whole value at
  a key where no file was, and no error is answered; or they are those of before, and an error is answered.
  No part of a value, and no temporary file, stays.
\<close>
theorem streamed_write_all_or_nothing:
  assumes "failures (dir_fs d) (dir_tmp d (dir_calls d)) key src \<le> 1 \<or> faults (dir_fs d) = 0"
    and "DirTarget_WriteStream d key src n = (d', err, took)"
  shows "if err = None
    then snd src = None \<and> file_at (dir_fs d) (path_of key) = None
      \<and> file_at (dir_fs d') = (file_at (dir_fs d))(path_of key \<mapsto> fst src)
    else file_at (dir_fs d') = file_at (dir_fs d)"
proof -
  obtain f e k where s: "stream_file (dir_fs d) (dir_tmp d (dir_calls d)) key src = (f, e, k)"
    by (cases "stream_file (dir_fs d) (dir_tmp d (dir_calls d)) key src")
  have d': "dir_fs d' = f" "err = e" using assms(2) s by (auto simp: DirTarget_WriteStream_def)
  note x = stream_file_settled [OF s]
  show ?thesis using settled_files [OF conjunct1 [OF x]] x assms(1) unfolding d' by auto
qed

definition ex_dir :: DirTarget where
  "ex_dir = NewDirTarget ''out'' \<lparr>fs_nodes = [([], FDir), ([''a'', ''x''], FFile [7])], fs_faults = [None, None, None, None, None, Some (ENOSPC, 1, 3)]\<rparr>
     (\<lambda>k i. ''t'' @ dec_of_nat i)"

theorem streamed_write_all_or_nothing_witness:
  "\<exists>d' err took. DirTarget_WriteStream ex_dir ''b/k'' ([1, 2, 3], None) 3 = (d', Some err, took)
     \<and> file_at (dir_fs d') = file_at (dir_fs ex_dir)"
proof -
  have f: "failures (dir_fs ex_dir) (dir_tmp ex_dir (dir_calls ex_dir)) ''b/k'' ([1, 2, 3], None) \<le> 1" by code_simp
  have "\<not> Option.is_none (fst (snd (DirTarget_WriteStream ex_dir ''b/k'' ([1, 2, 3], None) 3)))" by code_simp
  then obtain d' err took where w: "DirTarget_WriteStream ex_dir ''b/k'' ([1, 2, 3], None) 3 = (d', Some err, took)"
    by (cases "DirTarget_WriteStream ex_dir ''b/k'' ([1, 2, 3], None) 3") (auto simp: Option.is_none_def)
  show ?thesis using streamed_write_all_or_nothing [OF disjI1 [OF f] w] w by auto
qed

end
