(* ===== verification/RecordFacts.thy ===== *)
theory RecordFacts
  imports RecordRestore
begin

text \<open>
  What holds of the reassembly of a record: the value that is written as it is opened has the hash the
  record signs, and it is the value that is returned whole.
\<close>

section \<open>Writers\<close>

text \<open>A property of the state that every write of a writer keeps is kept by everything that writes to it.\<close>

lemma open_io_loop_keeps:
  "(\<And>st p. P st \<Longrightarrow> P (fst (dst st p))) \<Longrightarrow> P st \<Longrightarrow> P (fst (open_io_loop aead aad maxChunks cur src counter dst st))"
proof (induction aead aad maxChunks cur src counter dst st rule: open_io_loop.induct)
  case (1 aead aad maxChunks cur src counter dst st)
  show ?case
  proof (cases "readChunk streamMaxChunk src")
    case (Inl err)
    then show ?thesis using 1(3) by (simp add: open_io_loop.simps)
  next
    case (Inr x)
    obtain nxt src' where n: "readChunk streamMaxChunk src = Inr (nxt, src')" using Inr by (cases x) auto
    show ?thesis
    proof (cases "gcm_open aead (chunkNonce counter (nxt = [])) cur aad")
      case None
      then show ?thesis using 1(3) n by (subst open_io_loop.simps) (simp add: Let_def)
    next
      case (Some q)
      obtain st1 e where w: "dst st q = (st1, e)" by (cases "dst st q")
      have p: "P st1" using 1(2) [OF 1(3), of q] w by simp
      show ?thesis using 1(1) [OF n refl refl] 1(2,3) n Some w p
        by (subst open_io_loop.simps) (auto simp: Let_def split: option.split sum.split)
    qed
  qed
qed

lemma writer_keeps:
  assumes "\<And>st p. P st \<Longrightarrow> P (fst (dst st p))" "P st"
  shows "P (fst (OpenStreamIO fileKey src aad maxChunks dst st))"
  using assms open_io_loop_keeps [of P dst st]
  by (auto simp: OpenStreamIO_def split: sum.split)

lemma decrypt_keeps:
  assumes "\<And>st p. P st \<Longrightarrow> P (fst (dst st p))" "P st"
  shows "P (fst (decryptSegmentTo dst st rec seg segID fileKey body maxChunks))"
proof -
  have "P (fst (fst (OpenStreamIO fileKey body [] (nat maxChunks) (counting dst) (st, 0))))"
  proof (rule writer_keeps [of "\<lambda>s. P (fst s)"])
    show "P (fst (fst (counting dst st p)))" if "P (fst st)" for st p
      using assms(1) [OF that, of p] by (auto simp: counting_def split: prod.split option.split)
  qed (simp add: assms(2))
  then show ?thesis by (auto simp: decryptSegmentTo_def Let_def split: prod.split option.split)
qed

lemma segments_keep:
  assumes "\<And>st p. P st \<Longrightarrow> P (fst (dst st p))"
  shows "P st \<Longrightarrow> P (fst (restore_segments_to r rec dst st segs))"
proof (induction segs arbitrary: st)
  case (Cons seg segs)
  have 1: "P (fst (openSegmentStream r dst st rec seg segID src))" "P (fst (openSegmentTo r dst st rec seg segID b))" for segID src b
    using decrypt_keeps [OF assms Cons.prems]
    by (auto simp: openSegmentStream_def openSegmentTo_def or_fail_def Cons.prems split: sum.split)
  have 2: "P st'" if "openSegmentStream r dst st rec seg segID src = (st', e)" for segID src st' e using 1(1) [of segID src] that by simp
  have 3: "P st'" if "openSegmentTo r dst st rec seg segID b = (st', e)" for segID b st' e using 1(2) [of segID b] that by simp
  show ?case using Cons.prems Cons.IH
    by (auto simp: or_fail_def dest: 2 3 split: sum.split option.split prod.split)
qed simp


definition append_writer :: "bytes writer" where
  "append_writer st p = (st @ p, None)"

lemma streamed_value_hash:
  assumes "RestoreRecordTo r rec append_writer [] = (v, None)"
  shows "SHA384Hex v = sr_PlaintextSHA rec"
proof -
  obtain w h e where s: "restore_segments_to r rec (teed append_writer) ([], []) (sr_Segments rec) = ((w, h), e)"
    by (metis prod.exhaust)
  have "fst (fst ((w, h), e)) = snd (fst ((w, h), e))" unfolding s [symmetric]
    by (rule segments_keep [of "\<lambda>st. fst st = snd st"]) (auto simp: teed_def append_writer_def)
  then show ?thesis using assms s
    by (auto simp: RestoreRecordTo_def SHA384Hex_def ConstantTimeEqual_def split: option.splits if_splits)
qed

section \<open>A streamed record is the record\<close>

text \<open>The writer of a streamed record: what is written, what is hashed and the count of a segment grow together.\<close>

abbreviation collector :: "(bytes \<times> bytes) writer" where
  "collector \<equiv> teed append_writer"

lemma collector [simp]: "collector (w, h) p = ((w @ p, h @ p), None)"
  by (simp add: teed_def append_writer_def)

lemma counting_collector [simp]: "counting collector ((w, h), n) p = (((w @ p, h @ p), n + int (length p)), None)"
  by (simp add: counting_def)

lemma readChunk_all: "readChunk n (b, None) = Inr (take n b, (drop n b, None))"
  by (simp add: readChunk_def)

lemma open_io_loop_collects:
  "open_to_loop k a m cur src c d = (d', e) \<Longrightarrow>
   \<exists>q e'. d' = d @ q \<and> open_io_loop k a m cur (src, None) c (counting collector) ((w, h), n)
       = (((w @ q, h @ q), n + int (length q)), e') \<and> (e' = None \<longleftrightarrow> e = None)"
proof (induction k a m cur src c d arbitrary: w h n rule: open_to_loop.induct)
  case (1 k a m cur src c d)
  let ?next = "take streamMaxChunk src" and ?r = "drop streamMaxChunk src"
  show ?case
  proof (cases "m > 0 \<and> unat c \<ge> m")
    case True
    then show ?thesis using 1(2)
      by (subst open_io_loop.simps) (auto simp: readChunk_all open_to_loop.simps [of k a m cur src])
  next
    case lim: False
    show ?thesis
    proof (cases "gcm_open k (chunkNonce c (?next = [])) cur a")
      case None
      then show ?thesis using 1(2) lim
        by (subst open_io_loop.simps) (auto simp: readChunk_all open_to_loop.simps [of k a m cur src] Let_def)
    next
      case (Some p)
      show ?thesis
      proof (cases "?next = [] \<or> (\<exists>e. advanceChunk c = Inl e) \<or> length ?next < TagSize")
        case True
        then show ?thesis using 1(2) lim Some
          by (subst open_io_loop.simps)
            (auto simp: readChunk_all open_to_loop.simps [of k a m cur src] Let_def split: sum.splits if_splits)
      next
        case False
        then obtain c' where c': "advanceChunk c = Inr c'" by (cases "advanceChunk c") auto
        have o: "open_to_loop k a m ?next ?r c' (d @ p) = (d', e)"
          using 1(2) lim Some False c' by (simp add: open_to_loop.simps [of k a m cur src] Let_def)
        have s: "open_io_loop k a m cur (src, None) c (counting collector) ((w, h), n)
            = open_io_loop k a m ?next (?r, None) c' (counting collector) ((w @ p, h @ p), n + int (length p))"
          using lim Some False c' by (subst open_io_loop.simps) (auto simp: readChunk_all Let_def)
        from 1(1) [OF refl refl refl lim Some _ c' _ o] False
        obtain q e' where "d' = (d @ p) @ q" "open_io_loop k a m ?next (?r, None) c' (counting collector) ((w @ p, h @ p), n + int (length p))
            = ((((w @ p) @ q, (h @ p) @ q), n + int (length p) + int (length q)), e')" "e' = None \<longleftrightarrow> e = None" by blast
        then show ?thesis unfolding s by (intro exI [of _ "p @ q"] exI [of _ e']) simp
      qed
    qed
  qed
qed

lemma OpenStreamIO_collects:
  "\<exists>e'. OpenStreamIO fk (b, None) a m (counting collector) ((w, h), 0)
       = (((w @ fst (OpenStreamTo fk b a m), h @ fst (OpenStreamTo fk b a m)), int (length (fst (OpenStreamTo fk b a m)))), e')
     \<and> (e' = None \<longleftrightarrow> snd (OpenStreamTo fk b a m) = None)"
proof -
  let ?body = "drop StreamNonceSize b"
  show ?thesis
  proof (cases "length b < StreamNonceSize \<or> (\<exists>e. streamAEAD fk (take StreamNonceSize b) = Inl e) \<or> length (take streamMaxChunk ?body) < TagSize")
    case True
    then show ?thesis by (auto simp: OpenStreamIO_def OpenStreamTo_def readChunk_all Let_def split: sum.split)
  next
    case False
    then obtain k where k: "streamAEAD fk (take StreamNonceSize b) = Inr k" by (cases "streamAEAD fk (take StreamNonceSize b)") auto
    obtain d e where o: "open_to_loop k a m (take streamMaxChunk ?body) (drop streamMaxChunk ?body) 0 [] = (d, e)"
      by (cases "open_to_loop k a m (take streamMaxChunk ?body) (drop streamMaxChunk ?body) 0 []")
    show ?thesis using open_io_loop_collects [OF o, of w h 0] False k o
      by (auto simp: OpenStreamIO_def OpenStreamTo_def readChunk_all Let_def)
  qed
qed

lemma decrypt_collects:
  assumes "OpenStreamTo fk b [] (nat n) = (q, x)"
  shows "\<exists>e. decryptSegmentTo collector (w, h) rec seg segID fk (b, None) n = ((w @ q, h @ q), e)
     \<and> (e = None \<longleftrightarrow> x = None \<and> segmentStreamChunks (int (length q)) = n)"
proof -
  obtain e' where "OpenStreamIO fk (b, None) [] (nat n) (counting collector) ((w, h), 0) = (((w @ q, h @ q), int (length q)), e')"
    "e' = None \<longleftrightarrow> x = None"
    using OpenStreamIO_collects [of fk b "[]" "nat n" w h] assms by auto
  then show ?thesis by (auto simp: decryptSegmentTo_def Let_def split: option.split)
qed

lemma or_fail_simps [simp]: "or_fail st (Inr x) f = f x" "or_fail st (Inl e) f = (st, Some e)"
  by (simp_all add: or_fail_def)

lemma openSegmentTo_collects:
  "\<exists>q e. openSegmentTo r collector (w, h) rec seg segID sealed = ((w @ q, h @ q), e)
     \<and> (case openSegment r rec seg segID sealed of Inr plain \<Rightarrow> plain = q \<and> e = None | Inl _ \<Rightarrow> e \<noteq> None)"
proof (cases "(\<exists>e. segmentChunkBound (sr_RecordID rec) (sg_ChunkRange seg) = Inl e) \<or> (\<exists>e. deriveFileKey r rec segID = Inl e)
    \<or> (\<exists>e. UnframeContainer MagicSeg sealed = Inl e)")
  case True
  then show ?thesis
    by (cases "segmentChunkBound (sr_RecordID rec) (sg_ChunkRange seg)"; cases "deriveFileKey r rec segID")
      (auto simp: openSegmentTo_def openSegment_def intro!: exI [of _ "[]"])
next
  case False
  then obtain n fk b where g: "segmentChunkBound (sr_RecordID rec) (sg_ChunkRange seg) = Inr n" "deriveFileKey r rec segID = Inr fk"
    "UnframeContainer MagicSeg sealed = Inr b"
    by (cases "segmentChunkBound (sr_RecordID rec) (sg_ChunkRange seg)"; cases "deriveFileKey r rec segID";
        cases "UnframeContainer MagicSeg sealed") auto
  obtain q x where o: "OpenStreamTo fk b [] (nat n) = (q, x)" by (cases "OpenStreamTo fk b [] (nat n)")
  show ?thesis using decrypt_collects [OF o, of w h rec seg segID] g o
    by (cases x) (auto simp: openSegmentTo_def openSegment_def Let_def)
qed

lemma openSegmentStream_eq:
  "fst (openSegmentStream r dst st rec seg segID (b, None)) = fst (openSegmentTo r dst st rec seg segID b)
     \<and> (snd (openSegmentStream r dst st rec seg segID (b, None)) = None \<longleftrightarrow> snd (openSegmentTo r dst st rec seg segID b) = None)"
  by (cases "segmentChunkBound (sr_RecordID rec) (sg_ChunkRange seg)"; cases "deriveFileKey r rec segID"; cases "UnframeContainer MagicSeg b")
    (auto simp: openSegmentStream_def openSegmentTo_def unframe_source_def UnframeContainerReader_eq)

text \<open>A store whose streamed reads deliver what its plain reads return.\<close>

definition streams_like :: "ObjectStore \<Rightarrow> goctx \<Rightarrow> string \<Rightarrow> bool" where
  "streams_like store ctx object \<longleftrightarrow> (case st_GetReader store of
     None \<Rightarrow> True
   | Some rs \<Rightarrow> (case st_Get store object of
       Inr b \<Rightarrow> (case rs ctx object of Inr (_, b', None, None) \<Rightarrow> b' = b | _ \<Rightarrow> False)
     | Inl _ \<Rightarrow> (case rs ctx object of Inl _ \<Rightarrow> True | Inr _ \<Rightarrow> False)))"

definition segment_value :: "('a) Reader_scheme \<Rightarrow> ShardRecord \<Rightarrow> Segment \<Rightarrow> bytes \<Rightarrow> bool" where
  "segment_value r rec seg q \<longleftrightarrow> (\<exists>segID sealed. segIDFromObject (sg_Object seg) = Inr segID
     \<and> st_Get (rr_store r) (sg_Object seg) = Inr sealed \<and> openSegment r rec seg segID sealed = Inr q)"

lemma segment_to_collects:
  assumes "streams_like (rr_store r) (reader_context r) (sg_Object seg)"
  shows "segment_value r rec seg q \<Longrightarrow>
      restore_segments_to r rec collector (w, h) (seg # segs) = restore_segments_to r rec collector (w @ q, h @ q) segs"
    and "\<nexists>q. segment_value r rec seg q \<Longrightarrow> snd (restore_segments_to r rec collector (w, h) (seg # segs)) \<noteq> None"
proof -
  have g: "case segIDFromObject (sg_Object seg) of
      Inl e \<Rightarrow> snd (restore_segments_to r rec collector (w, h) (seg # segs)) \<noteq> None
    | Inr segID \<Rightarrow> (case st_Get (rr_store r) (sg_Object seg) of
        Inl e \<Rightarrow> snd (restore_segments_to r rec collector (w, h) (seg # segs)) \<noteq> None
      | Inr sealed \<Rightarrow> (case openSegment r rec seg segID sealed of
          Inl e \<Rightarrow> snd (restore_segments_to r rec collector (w, h) (seg # segs)) \<noteq> None
        | Inr q \<Rightarrow> restore_segments_to r rec collector (w, h) (seg # segs) = restore_segments_to r rec collector (w @ q, h @ q) segs))"
  proof (cases "segIDFromObject (sg_Object seg)")
    case id: (Inr segID)
    show ?thesis
    proof (cases "st_Get (rr_store r) (sg_Object seg)")
      case (Inl e)
      then show ?thesis using assms id by (auto simp: streams_like_def openSegmentReader_def split: option.splits sum.splits)
    next
      case (Inr sealed)
      obtain q e where to: "openSegmentTo r collector (w, h) rec seg segID sealed = ((w @ q, h @ q), e)"
        "case openSegment r rec seg segID sealed of Inr plain \<Rightarrow> plain = q \<and> e = None | Inl _ \<Rightarrow> e \<noteq> None"
        using openSegmentTo_collects [of r w h rec seg segID sealed] by blast
      obtain e' where st: "openSegmentStream r collector (w, h) rec seg segID (sealed, None) = ((w @ q, h @ q), e')" "e' = None \<longleftrightarrow> e = None"
        using openSegmentStream_eq [of r collector "(w, h)" rec seg segID sealed] to(1)
        by (cases "openSegmentStream r collector (w, h) rec seg segID (sealed, None)") auto
      show ?thesis
      proof (cases "st_GetReader (rr_store r)")
        case None
        then show ?thesis using id Inr to by (cases e; cases "openSegment r rec seg segID sealed") auto
      next
        case (Some rs)
        obtain n where "rs (reader_context r) (sg_Object seg) = Inr (n, sealed, None, None)"
          using assms Some Inr by (auto simp: streams_like_def split: sum.splits prod.splits option.splits)
        then show ?thesis using id Inr Some to st
          by (cases e; cases e'; cases "openSegment r rec seg segID sealed") (auto simp: openSegmentReader_def)
      qed
    qed
  qed simp
  show "segment_value r rec seg q \<Longrightarrow>
      restore_segments_to r rec collector (w, h) (seg # segs) = restore_segments_to r rec collector (w @ q, h @ q) segs"
    using g by (auto simp: segment_value_def simp del: restore_segments_to.simps)
  show "\<nexists>q. segment_value r rec seg q \<Longrightarrow> snd (restore_segments_to r rec collector (w, h) (seg # segs)) \<noteq> None"
    using g by (auto simp: segment_value_def simp del: restore_segments_to.simps split: sum.splits)
qed

lemma segments_to_extend: "\<exists>q. fst (fst (restore_segments_to r rec collector (w, h) segs)) = w @ q"
  by (rule segments_keep [of "\<lambda>st. \<exists>q. fst st = w @ q"]) auto

lemma segments_agree:
  assumes "list_all (\<lambda>seg. streams_like (rr_store r) (reader_context r) (sg_Object seg)) segs" "int (length w) \<le> ceil"
  shows "(\<exists>h'. restore_segments_to r rec collector (w, h) segs = ((v, h'), None)) \<and> int (length v) \<le> ceil
     \<longleftrightarrow> restore_segments r rec ceil w segs = Inr v"
  using assms
proof (induction segs arbitrary: w h)
  case (Cons seg segs)
  have sl: "streams_like (rr_store r) (reader_context r) (sg_Object seg)" using Cons.prems by simp
  have r: "restore_segments r rec ceil w (seg # segs) = Inr v \<longleftrightarrow>
      (\<exists>q. segment_value r rec seg q \<and> int (length (w @ q)) \<le> ceil \<and> restore_segments r rec ceil (w @ q) segs = Inr v)"
    by (cases "segIDFromObject (sg_Object seg)"; cases "st_Get (rr_store r) (sg_Object seg)")
      (auto simp: segment_value_def rbind_def split: sum.splits)
  show ?case
  proof (cases "\<exists>q. segment_value r rec seg q")
    case False
    then show ?thesis unfolding r using segment_to_collects(2) [OF sl, of rec w h segs] by (metis snd_conv)
  next
    case True
    then obtain q where q: "segment_value r rec seg q" by blast
    have u: "segment_value r rec seg q' \<longleftrightarrow> q' = q" for q' using q by (auto simp: segment_value_def)
    have e: "restore_segments_to r rec collector (w, h) (seg # segs) = ((v, h'), None) \<Longrightarrow> length (w @ q) \<le> length v" for h'
    proof -
      assume "restore_segments_to r rec collector (w, h) (seg # segs) = ((v, h'), None)"
      then have "fst (fst (restore_segments_to r rec collector (w @ q, h @ q) segs)) = v"
        unfolding segment_to_collects(1) [OF sl q] by simp
      then show ?thesis using segments_to_extend [of r rec "w @ q" "h @ q" segs] by (metis length_append le_add1)
    qed
    show ?thesis unfolding r u segment_to_collects(1) [OF sl q]
      using Cons.IH [of "w @ q" "h @ q"] Cons.prems e unfolding segment_to_collects(1) [OF sl q] by fastforce
  qed
qed auto

lemma streamable_simps:
  assumes "IsStreamable rec"
  shows "sr_Codec rec \<noteq> CodecNameGzip" "packed_slice rec v = Inr v"
proof -
  show "sr_Codec rec \<noteq> CodecNameGzip" using assms by (auto simp: IsStreamable_def)
  have "\<not> list_ex (\<lambda>seg. sg_Packed seg \<noteq> None) (sr_Segments rec)" using assms by (auto simp: IsStreamable_def split: if_splits)
  then show "packed_slice rec v = Inr v"
    by (cases "sr_Segments rec") (auto simp: packed_slice_def Let_def)
qed

text \<open>A sealed segment of a record that is neither packed nor compressed.\<close>

lemma segment_chunks: "segmentStreamChunks (int n) = int (streamChunks n)"
proof -
  have z: "int n mod int 65536 = int (n mod 65536)" "int n div int 65536 = int (n div 65536)"
    using zmod_int [of n 65536] zdiv_int [of n 65536] by simp_all
  show ?thesis unfolding segmentStreamChunks_def streamChunks_def ChunkSize_def streamChunkSize_def Let_def z of_nat_eq_0_iff
    by (simp only: of_nat_add of_nat_1 if_distrib [of int])
qed

lemma chunk_arith: "65536 * q + m \<le> 1073741824 \<Longrightarrow> q \<le> 16384 \<and> (0 < m \<longrightarrow> q < 16384)" for q m :: nat
  by (intro conjI impI; rule ccontr) linarith+

lemma hex_no_slash: "CHR ''/'' \<notin> set (hex_encode b)"
proof -
  have "hex_value (CHR ''/'') = None" by code_simp
  then have "CHR ''/'' \<noteq> hex_digit n" if "n < 16" for n using hex_value_digit [OF that] by auto
  moreover have "unat w div 16 < 16" "unat w mod 16 < 16" for w :: byte
    using unsigned_less [of w] by simp_all
  ultimately show ?thesis by (auto simp: hex_encode_def)
qed

lemma segID_of_object: "length segID = 48 \<Longrightarrow> segIDFromObject (ns @ CHR ''/'' # SegIDHex segID @ ''.seg'') = Inr segID"
proof -
  have "last_segment (CHR ''/'') (ns @ CHR ''/'' # SegIDHex segID @ ''.seg'') = SegIDHex segID @ ''.seg''"
    using hex_no_slash [of segID] by (simp add: last_segment_def SegIDHex_def takeWhile_append)
  then show "length segID = 48 \<Longrightarrow> ?thesis"
    by (simp add: segIDFromObject_def trim_suffix_def SegIDHex_def suffix_def Let_def)
qed

lemma sealed_segment_opens:
  assumes "deriveFileKey r rec segID = Inr fk" "SealStream fk plaintext nonce = Inr body" "length nonce = StreamNonceSize"
    and "int (length plaintext) \<le> maxDecompressedBytes"
    and "sg_ChunkRange seg = (0, segmentStreamChunks (int (length plaintext)))"
  shows "openSegment r rec seg segID (FrameContainer MagicSeg body) = Inr plaintext"
proof -
  have small: "length plaintext \<le> 2 ^ 80"
    using assms(4) by (simp add: maxDecompressedBytes_def maxSegmentChunks_def ChunkSize_def)
  have n: "1 \<le> streamChunks (length plaintext)" "int (streamChunks (length plaintext)) \<le> maxSegmentChunks"
  proof -
    define l where "l = length plaintext"
    have "l \<le> 1073741824" using assms(4) by (simp add: l_def maxDecompressedBytes_def maxSegmentChunks_def ChunkSize_def)
    moreover have "l = 65536 * (l div 65536) + l mod 65536" by simp
    ultimately have "1 \<le> (if l mod 65536 \<noteq> 0 \<or> l = 0 then l div 65536 + 1 else l div 65536)
        \<and> (if l mod 65536 \<noteq> 0 \<or> l = 0 then l div 65536 + 1 else l div 65536) \<le> 16384"
      using chunk_arith [of "l div 65536" "l mod 65536"] by auto
    then show "1 \<le> streamChunks (length plaintext)" "int (streamChunks (length plaintext)) \<le> maxSegmentChunks"
      unfolding l_def [symmetric] streamChunks_def streamChunkSize_def maxSegmentChunks_def ChunkSize_def Let_def
      by (auto split: if_splits)
  qed
  have "body = payload_of fk nonce [] (split_max SC plaintext)"
    using SealStream_payload [of nonce plaintext fk] assms(2,3) small by simp
  then have o: "OpenStreamTo fk body [] (streamChunks (length plaintext)) = (plaintext, None)"
    unfolding OpenStreamTo_None_iff using assms(3) well_chunked_split [OF small]
    by (intro exI [of _ nonce] exI [of _ "split_max SC plaintext"]) (simp add: under_limit_def streamChunks_length)
  show ?thesis
    using assms(1,5) n o by (simp add: openSegment_def segmentChunkBound_def segment_chunks Let_def)
qed

section \<open>The properties\<close>

text \<open>
  C40. A record restores the same in either way: if it is neither compressed nor packed, and the store streams
  what it reads, then writing it out as it is opened succeeds with a value of at most the reassembly
  ceiling exactly when reassembling it whole does, with that value.
\<close>
theorem streamed_restore_is_the_whole_restore:
  assumes "IsStreamable rec"
    and "list_all (\<lambda>seg. streams_like (rr_store r) (reader_context r) (sg_Object seg)) (sr_Segments rec)"
  shows "RestoreRecordTo r rec append_writer [] = (v, None) \<and> int (length v) \<le> maxDecompressedBytes
     \<longleftrightarrow> RestoreRecord gz r rec = Inr v"
proof -
  let ?to = "restore_segments_to r rec collector ([], []) (sr_Segments rec)"
  obtain w h e where t: "?to = ((w, h), e)" by (metis prod.exhaust)
  have "fst (fst ?to) = snd (fst ?to)" by (rule segments_keep [of "\<lambda>st. fst st = snd st"]) auto
  then have h: "h = w" using t by simp
  have "(\<exists>h'. ?to = ((v, h'), None)) \<and> int (length v) \<le> maxDecompressedBytes
      \<longleftrightarrow> restore_segments r rec maxDecompressedBytes [] (sr_Segments rec) = Inr v"
    by (rule segments_agree [OF assms(2)]) (simp add: maxDecompressedBytes_def maxSegmentChunks_def)
  then have s: "w = v \<and> e = None \<and> int (length v) \<le> maxDecompressedBytes
      \<longleftrightarrow> restore_segments r rec maxDecompressedBytes [] (sr_Segments rec) = Inr v" unfolding t by auto
  show ?thesis
  proof (cases "restore_segments r rec maxDecompressedBytes [] (sr_Segments rec)")
    case (Inl err)
    then show ?thesis using s t h assms(1)
      by (auto simp: RestoreRecordTo_def RestoreRecord_def restoreRecord_def split: option.splits)
  next
    case (Inr x)
    then show ?thesis using s t h assms(1) streamable_simps [OF assms(1)]
      by (auto simp: RestoreRecordTo_def RestoreRecord_def restoreRecord_def SHA384Hex_def split: option.splits if_splits)
  qed
qed

text \<open>
  C23. What was backed up is restored: the segment that \<open>SealNonSecretSegment\<close> makes of a value, stored under its
  own address, is reassembled from its record to exactly the value, of any length up to the ceiling of a
  segment.
\<close>
theorem sealed_record_restores:
  assumes "SealNonSecretSegment (rr_master r) downpipeID AddrSingleNonSecret CodecNone plaintext nonce = Inr (segID, sealed)"
    and "length nonce = StreamNonceSize" and "int (length plaintext) \<le> maxDecompressedBytes"
    and "sr_SourceType rec \<noteq> SourceSecrets" and "sr_Codec rec \<noteq> CodecNameGzip" and "sr_PlaintextSHA rec = SHA384Hex plaintext"
    and "sr_Segments rec = [\<lparr>sg_Object = ns @ CHR ''/'' # SegIDHex segID @ ''.seg'',
           sg_ChunkRange = (0, segmentStreamChunks (int (length plaintext))), sg_Packed = None\<rparr>]"
    and "st_Get (rr_store r) (ns @ CHR ''/'' # SegIDHex segID @ ''.seg'') = Inr sealed"
  shows "RestoreRecord gz r rec = Inr plaintext"
proof -
  obtain fk body where k: "DeriveNonSecretFileKey (rr_master r) segID CodecNone = Some fk" "SealStream fk plaintext nonce = Inr body"
    "sealed = FrameContainer MagicSeg body" "segID = SegID (DeriveCAK (rr_master r) downpipeID) AddrSingleNonSecret [] plaintext"
    using assms(1) by (auto simp: SealNonSecretSegment_def Let_def split: if_splits)
  have "deriveFileKey r rec segID = Inr fk" using k(1) assms(4,5) by (simp add: deriveFileKey_def Let_def)
  then have "openSegment r rec \<lparr>sg_Object = ns @ CHR ''/'' # SegIDHex segID @ ''.seg'',
      sg_ChunkRange = (0, segmentStreamChunks (int (length plaintext))), sg_Packed = None\<rparr> segID sealed = Inr plaintext"
    unfolding k(3) by (rule sealed_segment_opens [OF _ k(2) assms(2,3)]) simp
  moreover have "length segID = 48" unfolding k(4) by simp
  ultimately show ?thesis
    using assms(3-) segID_of_object [of segID ns]
    by (simp add: RestoreRecord_def restoreRecord_def packed_slice_def Let_def)
qed

text \<open>An opened run with one object, and a record of that object.\<close>

definition ex_opened :: "string \<Rightarrow> bytes \<Rightarrow> Reader" where
  "ex_opened object sealed = \<lparr>rr_store = \<lparr>st_Get = (\<lambda>key. if key = object then Inr sealed else Inl (Sentinel ''absent'')),
       st_GetReader = Some (\<lambda>ctx key. if key = object then Inr (0, sealed, None, None) else Inl (Sentinel ''absent'')),
       st_GetContext = None, st_GetLimit = None, st_List = None\<rparr>,
     rr_ctx = None, rr_runIDBytes = [], rr_master = [1], rr_root = zero_RootManifest, rr_records = [], rr_preambles = [],
     rr_freshness = zero_FreshnessResult,
     rr_outcome = initial_outcome \<lparr>op_MinRunlogIndex = 0, op_AllowStale = False, op_AllowUnverifiedRunlog = False,
       op_AllowUnverified = False, op_CheckRecoveryBundle = False, op_FetchConcurrency = 1, op_MaxMemoryBytes = 0\<rparr>\<rparr>"

definition ex_stored :: "string \<Rightarrow> bytes \<Rightarrow> ShardRecord" where
  "ex_stored object value = zero_ShardRecord\<lparr>sr_SourceType := SourceKV, sr_PlaintextSHA := SHA384Hex value,
     sr_Segments := [\<lparr>sg_Object = object, sg_ChunkRange = (0, segmentStreamChunks (int (length value))), sg_Packed = None\<rparr>]\<rparr>"

theorem sealed_record_restores_witness:
  "\<exists>segID sealed. SealNonSecretSegment [1] ''d'' AddrSingleNonSecret CodecNone [5, 6] (replicate 16 0) = Inr (segID, sealed)
     \<and> RestoreRecord (\<lambda>_. Inl (Sentinel ''no gzip'')) (ex_opened (''s/'' @ SegIDHex segID @ ''.seg'') sealed)
         (ex_stored (''s/'' @ SegIDHex segID @ ''.seg'') [5, 6]) = Inr [5, 6]"
proof -
  obtain k where k: "DeriveNonSecretFileKey [1] (SegID (DeriveCAK [1] ''d'') AddrSingleNonSecret [] [5, 6]) CodecNone = Some k"
    using DeriveNonSecretFileKey_defined by force
  obtain pl where "SealStream k [5, 6] (replicate 16 0) = Inr pl"
    using stream_opens_sealed [of "replicate 16 0" "[5, 6]" k] by auto
  then obtain segID sealed where s: "SealNonSecretSegment [1] ''d'' AddrSingleNonSecret CodecNone [5, 6] (replicate 16 0) = Inr (segID, sealed)"
    using k by (auto simp: SealNonSecretSegment_def Let_def)
  have n: "SourceKV \<noteq> SourceSecrets" "'''' \<noteq> CodecNameGzip" by (simp_all add: SourceKV_def SourceSecrets_def CodecNameGzip_def)
  have "RestoreRecord (\<lambda>_. Inl (Sentinel ''no gzip'')) (ex_opened (''s/'' @ SegIDHex segID @ ''.seg'') sealed)
         (ex_stored (''s/'' @ SegIDHex segID @ ''.seg'') [5, 6]) = Inr [5, 6]"
    by (rule sealed_record_restores [of _ "''d''" _ "replicate 16 0" segID sealed _ "''s''"])
      (use s n in \<open>simp_all add: ex_opened_def ex_stored_def zero_ShardRecord_def maxDecompressedBytes_def maxSegmentChunks_def ChunkSize_def\<close>)
  then show ?thesis using s by blast
qed

theorem streamed_restore_is_the_whole_restore_witness:
  "RestoreRecordTo (ex_opened ''s/k.seg'' [1, 2]) (ex_stored ''s/k.seg'' [5, 6]) append_writer [] = ([5, 6], None) \<and> int (length [5, 6 :: byte]) \<le> maxDecompressedBytes
     \<longleftrightarrow> RestoreRecord (\<lambda>_. Inl (Sentinel ''no gzip'')) (ex_opened ''s/k.seg'' [1, 2]) (ex_stored ''s/k.seg'' [5, 6]) = Inr [5, 6]"
  by (rule streamed_restore_is_the_whole_restore)
    (simp_all add: ex_opened_def ex_stored_def zero_ShardRecord_def IsStreamable_def streams_like_def CodecNameGzip_def)

end
