(* ===== verification/RestoreFacts.thy ===== *)
theory RestoreFacts
  imports Restore TargetFacts RecordFacts
begin

text \<open>
  What a restore guarantees: how the records reach it, what it counts, that a dry run plans what the run
  then does, and what is in the target afterwards. The laws a target must obey for that are the locales
  \<open>planning_target\<close> and \<open>recording_target\<close>, which each of the targets of \<open>Targets\<close> is shown to satisfy.
\<close>

section \<open>The records a walk hands over\<close>

text \<open>A walk over a list of records that ends with an error of its own.\<close>

definition walk_of :: "ShardRecord list \<Rightarrow> goerr option \<Rightarrow> 's callback \<Rightarrow> 's \<Rightarrow> 's \<times> goerr option" where
  "walk_of recs err f s = (case deliver f s recs of (s', None) \<Rightarrow> (s', err) | (s', Some e) \<Rightarrow> (s', Some e))"

definition delivered :: "StreamReader \<Rightarrow> ShardRecord list \<times> goerr option" where
  "delivered sr = EachRecord sr (\<lambda>l r. (l @ [r], None)) []"

abbreviation steady :: "('s \<Rightarrow> ShardRecord \<Rightarrow> 's) \<Rightarrow> 's callback" where
  "steady g \<equiv> \<lambda>s r. (g s r, None)"

lemma deliver_steady: "deliver (steady g) s recs = (foldl g s recs, None)"
  by (induction recs arbitrary: s) auto

lemma walk_of_steady: "walk_of recs err (steady g) s = (foldl g s recs, err)"
  by (simp add: walk_of_def deliver_steady)

lemma deliver_collects:
  "deliver (each_callback m (steady (\<lambda>l r. l @ [r]))) l rs = (l', e) \<Longrightarrow>
     \<exists>new. l' = l @ new \<and> deliver (each_callback m (steady g)) s rs = (foldl g s new, e)"
proof (induction rs arbitrary: l s)
  case (Cons r rs)
  show ?case
  proof (cases "check_record m r")
    case (Inl err)
    then show ?thesis using Cons.prems by (auto simp: each_callback_def)
  next
    case (Inr h)
    have "deliver (each_callback m (steady (\<lambda>l r. l @ [r]))) (l @ [r]) rs = (l', e)"
      using Cons.prems Inr by (simp add: each_callback_def [of _ _ _ r])
    then obtain n where "l' = (l @ [r]) @ n" "deliver (each_callback m (steady g)) (g s r) rs = (foldl g (g s r) n, e)"
      using Cons.IH by blast
    then show ?thesis using Inr by (intro exI [of _ "r # n"]) (simp add: each_callback_def [of _ _ _ r])
  qed
qed (simp add: each_callback_def)

lemma walk_collects:
  "walk_sequential ctx fetch (each_callback m (steady (\<lambda>l r. l @ [r]))) l i shs = (l', e) \<Longrightarrow>
     \<exists>new. l' = l @ new \<and> walk_sequential ctx fetch (each_callback m (steady g)) s i shs = (foldl g s new, e)"
proof (induction shs arbitrary: l s i)
  case (Cons sh shs)
  show ?case
  proof (cases "ctx i \<noteq> None \<or> (\<exists>err. fetch sh = Inl err)")
    case True
    then show ?thesis using Cons.prems by (auto split: option.split_asm option.split)
  next
    case False
    then obtain p recs where f: "ctx i = None" "fetch sh = Inr (p, recs)" by (cases "fetch sh") auto
    obtain l1 e1 where d: "deliver (each_callback m (steady (\<lambda>l r. l @ [r]))) l recs = (l1, e1)"
      by (cases "deliver (each_callback m (steady (\<lambda>l r. l @ [r]))) l recs")
    obtain n1 where n: "l1 = l @ n1" "deliver (each_callback m (steady g)) s recs = (foldl g s n1, e1)"
      using deliver_collects [OF d, where g = g and s = s] by blast
    show ?thesis
    proof (cases e1)
      case None
      then have "walk_sequential ctx fetch (each_callback m (steady (\<lambda>l r. l @ [r]))) l1 (Suc i) shs = (l', e)"
        using Cons.prems f d by simp
      from Cons.IH [OF this, of "foldl g s n1"] obtain n2 where "l' = l1 @ n2"
        "walk_sequential ctx fetch (each_callback m (steady g)) (foldl g s n1) (Suc i) shs = (foldl g (foldl g s n1) n2, e)"
        by blast
      then show ?thesis using f n None by (intro exI [of _ "n1 @ n2"]) simp
    next
      case (Some err)
      then show ?thesis using Cons.prems f d n by auto
    qed
  qed
qed simp

lemma consume_collects:
  "consume_results (each_callback m (steady (\<lambda>l r. l @ [r]))) l ress = (l', e) \<Longrightarrow>
     \<exists>new. l' = l @ new \<and> consume_results (each_callback m (steady g)) s ress = (foldl g s new, e)"
proof (induction ress arbitrary: l s)
  case (Cons res ress)
  show ?case
  proof (cases res)
    case (Inl err)
    then show ?thesis using Cons.prems by auto
  next
    case (Inr x)
    then obtain p recs k where f: "res = Inr (p, recs, k)" by (cases x) auto
    obtain l1 e1 where d: "deliver (each_callback m (steady (\<lambda>l r. l @ [r]))) l recs = (l1, e1)"
      by (cases "deliver (each_callback m (steady (\<lambda>l r. l @ [r]))) l recs")
    obtain n1 where n: "l1 = l @ n1" "deliver (each_callback m (steady g)) s recs = (foldl g s n1, e1)"
      using deliver_collects [OF d, where g = g and s = s] by blast
    show ?thesis
    proof (cases e1)
      case None
      then have "consume_results (each_callback m (steady (\<lambda>l r. l @ [r]))) l1 ress = (l', e)"
        using Cons.prems f d by simp
      from Cons.IH [OF this, of "foldl g s n1"] obtain n2 where "l' = l1 @ n2"
        "consume_results (each_callback m (steady g)) (foldl g s n1) ress = (foldl g (foldl g s n1) n2, e)"
        by blast
      then show ?thesis using f n None by (intro exI [of _ "n1 @ n2"]) simp
    next
      case (Some err)
      then show ?thesis using Cons.prems f d n by auto
    qed
  qed
qed simp

lemma EachRecord_delivers:
  "EachRecord sr (steady g) s = (foldl g s (fst (delivered sr)), snd (delivered sr))"
proof (cases "delivered sr")
  case (Pair l e)
  have p: "EachRecord sr (steady (\<lambda>l r. l @ [r])) [] = (l, e)" using Pair by (simp add: delivered_def)
  have "\<exists>new. l = [] @ new \<and> EachRecord sr (steady g) s = (foldl g s new, e)"
  proof (cases "op_FetchConcurrency (sr_opts sr) > 1")
    case True
    show ?thesis using p unfolding EachRecord_def walkShards_def Let_def if_P [OF True] by (rule consume_collects)
  next
    case False
    show ?thesis using p unfolding EachRecord_def walkShards_def Let_def if_not_P [OF False] by (rule walk_collects)
  qed
  then show ?thesis using Pair by simp
qed

lemma ApplyStreaming_each:
  "ApplyStreaming (EachRecord sr) r T t confirm = ApplyStreaming (walk_of (fst (delivered sr)) (snd (delivered sr))) r T t confirm"
  unfolding ApplyStreaming_def EachRecord_delivers walk_of_steady by (rule refl)

section \<open>What a run counts\<close>

definition start_state :: "'t Target \<Rightarrow> 't \<Rightarrow> 't apply_state" where
  "start_state T t = \<lparr>as_target = t, as_claimed = {}, as_plan = new_plan (tg_Kind T), as_res = new_result (tg_Kind T)\<rparr>"

lemma ApplyStreaming_walk:
  "ApplyStreaming (walk_of recs err) r T t confirm =
     (case tg_Existing T t of
        (t, Inl e) \<Rightarrow> (t, None, Some (Errorf ''enumerate target state: %w'' [AWrap e]))
      | (t, Inr existing) \<Rightarrow>
          (let s = foldl (stream_record r T existing confirm) (start_state T t) recs;
               res = recordConflicts (as_res s) (as_plan s)
           in if \<not> confirm then (as_target s, Some (as_plan s, res\<lparr>rs_DryRun := True\<rparr>), err)
              else (case tg_Close T (as_target s) of
                (t, cerr) \<Rightarrow> (t, Some (as_plan s, sort_result res), case err of Some e \<Rightarrow> Some e | None \<Rightarrow> map_option close_failed cerr))))"
  unfolding ApplyStreaming_def walk_of_steady start_state_def by (simp add: Let_def split: prod.split sum.split)

text \<open>The records a result speaks for, and the bounds on what it says of the restored ones.\<close>

definition tally :: "RestoreResult \<Rightarrow> int" where
  "tally res = rs_Restored res + int (length (rs_Failed res)) + int (length (rs_Reprovisioned res))"

definition consistent :: "RestoreResult \<Rightarrow> bool" where
  "consistent res \<longleftrightarrow> rs_IncompleteMarkers res = int (length (rs_Markers res)) \<and> rs_IncompleteMarkers res \<le> rs_Restored res
     \<and> int (length (rs_Unrenderable res)) \<le> rs_Restored res
     \<and> rs_MetadataSidecars res + int (length (rs_MetadataUnapplied res)) \<le> rs_Restored res \<and> 0 \<le> rs_MetadataSidecars res"

lemma tally_simps [simp]:
  "tally (res\<lparr>rs_SkippedConflicts := n\<rparr>) = tally res" "tally (res\<lparr>rs_ConflictKinds := f\<rparr>) = tally res"
  "tally (res\<lparr>rs_DryRun := b\<rparr>) = tally res" "tally (restored res n) = tally res + 1"
  "tally (recordFailure res name key err) = tally res + 1" "tally (recordReprovision res rec key err) = tally res + 1"
  "tally (noteMarker res rec key v) = tally res" "tally (noteUnrenderable res rec key v) = tally res"
  "tally (recordConflicts res plan) = tally res" "tally (sort_result res) = tally res"
  by (simp_all add: tally_def restored_def recordFailure_def recordReprovision_def noteMarker_def noteUnrenderable_def
      recordConflicts_def sort_result_def Let_def)

lemma tally_metadata [simp]: "tally (snd (applyMetadata T (t, res) rec key)) = tally res"
  by (auto simp: applyMetadata_def noteMetadataUnapplied_def tally_def Let_def split: option.splits sum.splits prod.splits)

lemma writeOneRecord_tally: "tally (snd (writeOneRecord r T rec key (t, res))) = tally res + 1"
proof -
  have 1: "tally (snd (write_d1 r T rec key (t, res))) = tally res + 1"
    by (auto simp: write_d1_def split: sum.split prod.split option.split)
  have 2: "tally (snd (write_streamed f ws T rec key (t, res))) = tally res + 1" for f ws
    by (auto simp: write_streamed_def split: sum.split prod.split option.split)
  have 3: "tally (snd (write_buffered r T rec key (t, res))) = tally res + 1"
    by (auto simp: write_buffered_def split: sum.split prod.split option.split)
  show ?thesis using 1 2 3 by (auto simp: writeOneRecord_def split: option.split prod.split)
qed

lemma applyMetadata_consistent:
  assumes "rs_IncompleteMarkers res = int (length (rs_Markers res))" "rs_IncompleteMarkers res \<le> rs_Restored res"
    "int (length (rs_Unrenderable res)) \<le> rs_Restored res" "0 \<le> rs_MetadataSidecars res"
    "rs_MetadataSidecars res + int (length (rs_MetadataUnapplied res)) < rs_Restored res"
  shows "consistent (snd (applyMetadata T (t, res) rec key))"
  using assms
  by (auto simp: applyMetadata_def noteMetadataUnapplied_def consistent_def Let_def split: option.splits sum.splits prod.splits)

lemma writeOneRecord_consistent: "consistent res \<Longrightarrow> consistent (snd (writeOneRecord r T rec key (t, res)))"
proof -
  assume c: "consistent res"
  have f: "consistent (recordFailure res name k err)" "consistent (recordReprovision res rec k err)" for name k err
    using c by (auto simp: consistent_def recordFailure_def recordReprovision_def Let_def)
  have m: "consistent (snd (applyMetadata T (t', noteMarker (restored res n) rec k v) rec key))" for t' n k v
    by (rule applyMetadata_consistent) (use c in \<open>auto simp: consistent_def noteMarker_def restored_def Let_def\<close>)
  have u: "consistent (snd (applyMetadata T (t', noteUnrenderable (noteMarker (restored res n) rec k v) rec k v) rec key))" for t' n k v
    by (rule applyMetadata_consistent)
      (use c in \<open>auto simp: consistent_def noteMarker_def noteUnrenderable_def restored_def Let_def\<close>)
  have 1: "consistent (snd (write_d1 r T rec key (t, res)))"
    using f u by (auto simp: write_d1_def split: sum.split prod.split option.split)
  have 2: "consistent (snd (write_streamed g ws T rec key (t, res)))" for g ws
    using f m by (auto simp: write_streamed_def split: sum.split prod.split option.split)
  have 3: "consistent (snd (write_buffered r T rec key (t, res)))"
    using f m by (auto simp: write_buffered_def split: sum.split prod.split option.split)
  show ?thesis using 1 2 3 by (auto simp: writeOneRecord_def split: option.split prod.split)
qed

lemma recordConflicts_keeps [simp]:
  "rs_SkippedConflicts (recordConflicts res plan) = int (length (pl_Conflicts plan))"
  "consistent (recordConflicts res plan) = consistent res" "consistent (sort_result res) = consistent res"
  "consistent (res\<lparr>rs_DryRun := b\<rparr>) = consistent res" "rs_SkippedConflicts (sort_result res) = rs_SkippedConflicts res"
  by (simp_all add: recordConflicts_def consistent_def sort_result_def Let_def)

lemma annotate_keeps [simp]:
  "pl_WriteCount (annotateReprovision p rec key) = pl_WriteCount p" "pl_WriteCount (annotateD1 p T rec key) = pl_WriteCount p"
  "pl_TotalRecords (annotateReprovision p rec key) = pl_TotalRecords p" "pl_TotalRecords (annotateD1 p T rec key) = pl_TotalRecords p"
  "pl_Conflicts (annotateReprovision p rec key) = pl_Conflicts p" "pl_Conflicts (annotateD1 p T rec key) = pl_Conflicts p"
  by (simp_all add: annotateReprovision_def annotateD1_def Let_def)

text \<open>The sums that hold at every step of a run.\<close>

definition balanced :: "bool \<Rightarrow> 't apply_state \<Rightarrow> bool" where
  "balanced confirm s \<longleftrightarrow>
     pl_WriteCount (as_plan s) + int (length (pl_Conflicts (as_plan s))) = pl_TotalRecords (as_plan s)
     \<and> tally (as_res s) = (if confirm then pl_WriteCount (as_plan s) else 0) \<and> consistent (as_res s)"

lemma stream_record_balanced:
  assumes "balanced confirm s"
  shows "balanced confirm (stream_record r T existing confirm s rec)
     \<and> pl_TotalRecords (as_plan (stream_record r T existing confirm s rec)) = pl_TotalRecords (as_plan s) + 1"
  using assms writeOneRecord_tally [of r T rec _ _ "as_res s"] writeOneRecord_consistent [of "as_res s" r T rec]
  by (auto simp: balanced_def stream_record_def Let_def split: prod.splits sum.splits) (metis snd_conv)+

lemma run_balanced:
  "balanced confirm s \<Longrightarrow>
     balanced confirm (foldl (stream_record r T existing confirm) s recs)
     \<and> pl_TotalRecords (as_plan (foldl (stream_record r T existing confirm) s recs)) = pl_TotalRecords (as_plan s) + int (length recs)"
  by (induction recs arbitrary: s) (use stream_record_balanced in fastforce)+

lemma start_balanced [simp]: "balanced confirm (start_state T t)" "pl_TotalRecords (as_plan (start_state T t)) = 0"
  by (simp_all add: balanced_def start_state_def new_plan_def new_result_def tally_def consistent_def)

text \<open>
  C20. Every record is accounted for, once. Whatever the target and the reader do, each record the walk handed
  over is either a conflict or a planned write; a confirmed run ends with each planned write restored,
  failed or left to be reprovisioned, a dry run with none; and the counts of markers, bodies that cannot
  be rendered and metadata are counts of restored records.
\<close>
theorem restore_accounts_for_every_record:
  "case ApplyStreaming (EachRecord sr) r T t confirm of
     (t', None, err) \<Rightarrow> err \<noteq> None
   | (t', Some (plan, res), err) \<Rightarrow>
       pl_TotalRecords plan = int (length (fst (delivered sr)))
       \<and> pl_WriteCount plan + int (length (pl_Conflicts plan)) = pl_TotalRecords plan
       \<and> rs_SkippedConflicts res = int (length (pl_Conflicts plan))
       \<and> rs_Restored res + int (length (rs_Failed res)) + int (length (rs_Reprovisioned res))
           = (if confirm then pl_WriteCount plan else 0)
       \<and> consistent res"
proof -
  note b = run_balanced [OF start_balanced(1), of confirm r T _ T _ "fst (delivered sr)"]
  show ?thesis
    unfolding ApplyStreaming_each ApplyStreaming_walk tally_def [symmetric]
    using b by (auto simp: balanced_def Let_def split: prod.splits sum.splits)
qed

section \<open>A dry run plans what the run does\<close>

text \<open>
  The law: what \<open>Key\<close> answers depends on a part of the target that no write touches. \<open>V\<close> is that part.
\<close>

locale planning_target =
  fixes T :: "'t Target" and V :: "'t \<Rightarrow> 'v"
  assumes key_view: "V t = V t' \<Longrightarrow> snd (tg_Key T t name) = snd (tg_Key T t' name) \<and> V (fst (tg_Key T t name)) = V (fst (tg_Key T t' name))"
    and write_view: "V (fst (tg_Write T t key value)) = V t"
    and stream_view: "tg_WriteStream T = Some ws \<Longrightarrow> V (fst (ws t key src n)) = V t"
    and metadata_view: "tg_Metadata T = Some (mkey, wm) \<Longrightarrow> V (fst (wm t key doc)) = V t"
begin

lemma applyMetadata_view: "V (fst (applyMetadata T (t, res) rec key)) = V t"
  using metadata_view by (auto simp: applyMetadata_def Let_def split: option.splits sum.splits prod.splits) (metis fst_conv)+

lemma writeOneRecord_view: "V (fst (writeOneRecord r T rec key (t, res))) = V t"
proof -
  have w: "tg_Write T t key v = (t', e) \<Longrightarrow> V t' = V t" for v t' e using write_view [of t key v] by simp
  have 1: "V (fst (write_d1 r T rec key (t, res))) = V t"
    by (auto simp: write_d1_def applyMetadata_view dest: w split: sum.split prod.split option.split)
  have 2: "V (fst (write_buffered r T rec key (t, res))) = V t"
    by (auto simp: write_buffered_def applyMetadata_view dest: w split: sum.split prod.split option.split)
  have 3: "V (fst (write_streamed g ws T rec key (t, res))) = V t" if "tg_WriteStream T = Some ws" for g ws
  proof -
    have s: "ws t key src n = (t', x) \<Longrightarrow> V t' = V t" for src n t' x using stream_view [OF that, of t key src n] by simp
    then have a: "applyStream g ws t rec key = (t', y) \<Longrightarrow> V t' = V t" for t' y
      by (auto simp: applyStream_def Let_def split: prod.splits)
    show ?thesis by (auto simp: write_streamed_def applyMetadata_view dest: a split: sum.split prod.split)
  qed
  show ?thesis using 1 2 3 by (auto simp: writeOneRecord_def split: option.split prod.split)
qed

lemma classify_view:
  "V t = V t' \<Longrightarrow> snd (classifyRecord T t rec existing claimed) = snd (classifyRecord T t' rec existing claimed)
     \<and> V (fst (classifyRecord T t rec existing claimed)) = V (fst (classifyRecord T t' rec existing claimed))"
  using key_view [of t t' "sr_Name rec"]
  by (cases "tg_Key T t (sr_Name rec)"; cases "tg_Key T t' (sr_Name rec)") (auto simp: classifyRecord_def Let_def split: sum.split)

lemma stream_record_view:
  assumes "V (as_target s) = V (as_target s')" "as_plan s = as_plan s'" "as_claimed s = as_claimed s'"
  shows "V (as_target (stream_record r T existing c s rec)) = V (as_target (stream_record r T existing c' s' rec))
     \<and> as_plan (stream_record r T existing c s rec) = as_plan (stream_record r T existing c' s' rec)
     \<and> as_claimed (stream_record r T existing c s rec) = as_claimed (stream_record r T existing c' s' rec)"
proof -
  obtain t a where c: "classifyRecord T (as_target s) rec existing (as_claimed s) = (t, a)"
    by (cases "classifyRecord T (as_target s) rec existing (as_claimed s)")
  obtain t' where c': "classifyRecord T (as_target s') rec existing (as_claimed s') = (t', a)" "V t' = V t"
    using classify_view [OF assms(1), of rec existing "as_claimed s"] c assms(3)
    by (cases "classifyRecord T (as_target s') rec existing (as_claimed s')") auto
  have w: "writeOneRecord r T rec key (t1, res) = (t2, res') \<Longrightarrow> V t2 = V t1" for key t1 res t2 res'
    using writeOneRecord_view [of r rec key t1 res] by simp
  show ?thesis using c c' assms(2,3) by (cases a) (auto simp: stream_record_def Let_def dest!: w split: prod.splits)
qed

lemma run_view:
  assumes "V (as_target s) = V (as_target s')" "as_plan s = as_plan s'" "as_claimed s = as_claimed s'"
  shows "as_plan (foldl (stream_record r T existing c) s recs) = as_plan (foldl (stream_record r T existing c') s' recs)"
  using assms
proof (induction recs arbitrary: s s')
  case (Cons rec recs)
  show ?case using stream_record_view [OF Cons.prems, of r existing c rec c'] Cons.IH by simp
qed simp

lemma dry_run_plans:
  "map_option fst (fst (snd (ApplyStreaming (EachRecord sr) r T t False)))
     = map_option fst (fst (snd (ApplyStreaming (EachRecord sr) r T t True)))"
  unfolding ApplyStreaming_each ApplyStreaming_walk
  using run_view [OF refl refl refl, of r _ False _ "fst (delivered sr)" True] by (simp add: Let_def split: prod.split sum.split)

end


interpretation env_plans: planning_target env_target "\<lambda>_. ()"
  by unfold_locales (simp_all add: env_target_def EnvTarget_Key_def)

interpretation dir_plans: planning_target dir_target "\<lambda>_. ()"
  by unfold_locales (simp_all add: dir_target_def DirTarget_Key_def)

interpretation discard_plans: planning_target discard_target "\<lambda>d. (ds_keySeq d, ds_keyOf d)"
  by unfold_locales
    (auto simp: discard_target_def DiscardTarget_Key_def DiscardTarget_Write_def DiscardTarget_WriteStream_def
      DiscardTarget_fold_def Let_def split: option.splits prod.splits)

text \<open>
  C29. A dry run tells the truth. For each of the targets the run that writes nothing answers, or fails to
  answer, exactly the plan of the run that writes: the same conflicts, notes and counts, although the
  second changes the target while it plans.
\<close>
theorem dry_run_plans_the_run:
  "map_option fst (fst (snd (ApplyStreaming (EachRecord sr) r dir_target d False)))
       = map_option fst (fst (snd (ApplyStreaming (EachRecord sr) r dir_target d True)))
   \<and> map_option fst (fst (snd (ApplyStreaming (EachRecord sr) r env_target e False)))
       = map_option fst (fst (snd (ApplyStreaming (EachRecord sr) r env_target e True)))
   \<and> map_option fst (fst (snd (ApplyStreaming (EachRecord sr) r discard_target t False)))
       = map_option fst (fst (snd (ApplyStreaming (EachRecord sr) r discard_target t True)))"
  by (intro conjI dir_plans.dry_run_plans env_plans.dry_run_plans discard_plans.dry_run_plans)

section \<open>What is written\<close>

text \<open>The value a record is written with, and the metadata file that may follow it.\<close>

definition written_value :: "recordReader \<Rightarrow> 't Target \<Rightarrow> ShardRecord \<Rightarrow> goerr + bytes" where
  "written_value r T rec =
     (if sr_SourceType rec = SourceD1 \<and> tg_Kind T = ''file'' then rbind (rd_RestoreRecord r rec) maybeTranscodeD1
      else (case (rd_Streaming r, tg_WriteStream T) of
        (Some (isStreamable, restoreTo), Some _) \<Rightarrow>
          if sr_PlaintextSize rec \<ge> streamThreshold \<and> isStreamable rec \<and> \<not> ReprovisionSourceType (sr_SourceType rec)
          then (case restoreTo rec None of (v, None) \<Rightarrow> Inr v | (_, Some err) \<Rightarrow> Inl err) else rd_RestoreRecord r rec
      | _ \<Rightarrow> rd_RestoreRecord r rec))"

definition sidecar :: "'t Target \<Rightarrow> ShardRecord \<Rightarrow> string \<Rightarrow> (string \<times> bytes) list" where
  "sidecar T rec key =
     (if metadataFields rec = [] then []
      else (case (tg_Metadata T, encodeMetadataSidecar rec) of
        (Some (mkey, _), Inr doc) \<Rightarrow> [(mkey key, doc)]
      | _ \<Rightarrow> []))"

definition writes_of :: "recordReader \<Rightarrow> 't Target \<Rightarrow> ShardRecord \<Rightarrow> string \<Rightarrow> (string \<times> bytes) list \<Rightarrow> bool" where
  "writes_of r T rec key w \<longleftrightarrow> w = [] \<or> (case written_value r T rec of
     Inl err \<Rightarrow> False
   | Inr v \<Rightarrow> w = [(key, v)] \<or> (sidecar T rec key \<noteq> [] \<and> w = (key, v) # sidecar T rec key))"

text \<open>
  The law: \<open>L t l\<close> says that \<open>l\<close> is what was written to \<open>t\<close> so far; a write that answers no error adds itself
  to it, and nothing else does.
\<close>

locale recording_target =
  fixes T :: "'t Target" and L :: "'t \<Rightarrow> (string \<times> bytes) list \<Rightarrow> bool"
  assumes key_log: "L t l \<Longrightarrow> L (fst (tg_Key T t name)) l"
    and existing_log: "L t l \<Longrightarrow> L (fst (tg_Existing T t)) l"
    and close_log: "L t l \<Longrightarrow> L (fst (tg_Close T t)) l"
    and write_log: "L t l \<Longrightarrow> tg_Write T t key v = (t', e) \<Longrightarrow> L t' (if e = None then l @ [(key, v)] else l)"
    and stream_log: "L t l \<Longrightarrow> tg_WriteStream T = Some ws \<Longrightarrow> ws t key src n = (t', e, took)
      \<Longrightarrow> L t' (if e = None then l @ [(key, fst src)] else l) \<and> (e = None \<longrightarrow> snd src = None \<and> took = None)"
    and metadata_log: "L t l \<Longrightarrow> tg_Metadata T = Some (mkey, wm) \<Longrightarrow> wm t key doc = (t', e)
      \<Longrightarrow> L t' (if e = None then l @ [(mkey key, doc)] else l)"
begin

lemma applyMetadata_log:
  assumes "L t l" "applyMetadata T (t, res) rec key = (t', res')"
  shows "\<exists>w. L t' (l @ w) \<and> (w = [] \<or> (w = sidecar T rec key \<and> w \<noteq> []))
     \<and> rs_Restored res' = rs_Restored res \<and> rs_MetadataSidecars res' = rs_MetadataSidecars res + int (length w)"
proof (cases "metadataFields rec = [] \<or> tg_Kind T = ''discard''")
  case True
  then show ?thesis using assms by (auto simp: applyMetadata_def Let_def intro!: exI [of _ "[]"])
next
  case f: False
  show ?thesis
  proof (cases "tg_Metadata T")
    case None
    then show ?thesis using assms f by (auto simp: applyMetadata_def noteMetadataUnapplied_def Let_def intro!: exI [of _ "[]"])
  next
    case (Some m)
    obtain mkey wm where m: "tg_Metadata T = Some (mkey, wm)" using Some by (cases m) auto
    show ?thesis
    proof (cases "encodeMetadataSidecar rec")
      case (Inl err)
      then show ?thesis using assms f m
        by (auto simp: applyMetadata_def noteMetadataUnapplied_def Let_def intro!: exI [of _ "[]"])
    next
      case (Inr doc)
      obtain t1 e where w: "wm t key doc = (t1, e)" by (cases "wm t key doc")
      note k = metadata_log [OF assms(1) m w]
      show ?thesis
      proof (cases e)
        case None
        have "sidecar T rec key = [(mkey key, doc)]" using f m Inr by (simp add: sidecar_def)
        then show ?thesis using assms(2) f m Inr w k None
          by (auto simp: applyMetadata_def Let_def intro!: exI [of _ "[(mkey key, doc)]"])
      next
        case (Some err)
        then show ?thesis using assms(2) f m Inr w k
          by (auto simp: applyMetadata_def noteMetadataUnapplied_def Let_def intro!: exI [of _ "[]"])
      qed
    qed
  qed
qed

lemma applyStream_log:
  assumes "L t l" "tg_WriteStream T = Some ws" "applyStream restoreTo ws t rec key = (t', x)"
  shows "case x of
      Inl err \<Rightarrow> L t' l
    | Inr (n, pre) \<Rightarrow> (\<exists>v. restoreTo rec None = (v, None) \<and> L t' (l @ [(key, v)]))"
proof -
  obtain e took where w: "ws t key (restoreTo rec None) (sr_PlaintextSize rec) = (t', e, took)"
    using assms(3) by (auto simp: applyStream_def Let_def split: prod.splits)
  note k = stream_log [OF assms(1,2) w]
  show ?thesis
  proof (cases e)
    case None
    obtain v where v: "restoreTo rec None = (v, None)" using k None by (cases "restoreTo rec None") auto
    then have "x = Inr (int (length v), take markerPrefixLen v)" using assms(3) w k None by (simp add: applyStream_def Let_def)
    then show ?thesis using k None v by auto
  next
    case (Some err)
    then have "\<exists>err. x = Inl err" using assms(3) w by (auto simp: applyStream_def Let_def split: option.splits if_splits)
    then show ?thesis using k Some by auto
  qed
qed

end

context recording_target
begin

text \<open>What one record does: it is restored and written, with or without its metadata, or neither.\<close>

definition logged :: "recordReader \<Rightarrow> ShardRecord \<Rightarrow> string \<Rightarrow> (string \<times> bytes) list \<Rightarrow> RestoreResult \<Rightarrow> 't \<times> RestoreResult \<Rightarrow> bool" where
  "logged r rec key l res st \<longleftrightarrow> (\<exists>w. L (fst st) (l @ w) \<and> writes_of r T rec key w
     \<and> rs_Restored (snd st) = rs_Restored res + (if w = [] then 0 else 1)
     \<and> rs_MetadataSidecars (snd st) = rs_MetadataSidecars res + (if w = [] then 0 else int (length w) - 1))"

lemma logged_nothing: "L t l \<Longrightarrow> logged r rec key l res (t, recordFailure res name k err)"
  "L t l \<Longrightarrow> logged r rec key l res (t, recordReprovision res rec k err)"
  by (auto simp: logged_def writes_of_def recordFailure_def recordReprovision_def Let_def intro!: exI [of _ "[]"])

lemma logged_value:
  assumes "L t (l @ [(key, v)])" "written_value r T rec = Inr v"
    and "rs_Restored res' = rs_Restored res + 1" "rs_MetadataSidecars res' = rs_MetadataSidecars res"
  shows "logged r rec key l res (applyMetadata T (t, res') rec key)"
proof -
  obtain t1 res1 where m: "applyMetadata T (t, res') rec key = (t1, res1)" by (cases "applyMetadata T (t, res') rec key")
  obtain w where w: "L t1 ((l @ [(key, v)]) @ w)" "w = [] \<or> (w = sidecar T rec key \<and> w \<noteq> [])"
    "rs_Restored res1 = rs_Restored res'" "rs_MetadataSidecars res1 = rs_MetadataSidecars res' + int (length w)"
    using applyMetadata_log [OF assms(1) m] by blast
  then show ?thesis using assms(2-) m by (auto simp: logged_def writes_of_def intro!: exI [of _ "(key, v) # w"])
qed

lemma notes_keep [simp]:
  "rs_Restored (noteMarker res rec key v) = rs_Restored res" "rs_MetadataSidecars (noteMarker res rec key v) = rs_MetadataSidecars res"
  "rs_Restored (noteUnrenderable res rec key v) = rs_Restored res"
  "rs_MetadataSidecars (noteUnrenderable res rec key v) = rs_MetadataSidecars res"
  "rs_Restored (restored res n) = rs_Restored res + 1" "rs_MetadataSidecars (restored res n) = rs_MetadataSidecars res"
  by (simp_all add: noteMarker_def noteUnrenderable_def restored_def Let_def)

lemma write_d1_logged:
  assumes "L t l" "sr_SourceType rec = SourceD1" "tg_Kind T = ''file''"
  shows "logged r rec key l res (write_d1 r T rec key (t, res))"
proof (cases "written_value r T rec")
  case (Inl err)
  then show ?thesis using assms logged_nothing(1)
    by (auto simp: write_d1_def written_value_def rbind_def split: sum.splits)
next
  case (Inr v)
  obtain t1 e where w: "tg_Write T t key v = (t1, e)" by (cases "tg_Write T t key v")
  note k = write_log [OF assms(1) w]
  obtain x where x: "rd_RestoreRecord r rec = Inr x" "maybeTranscodeD1 x = Inr v"
    using Inr assms(2,3) by (auto simp: written_value_def rbind_def split: sum.splits)
  show ?thesis using w k x Inr logged_nothing(1) [of t1 l]
    by (cases e) (auto simp: write_d1_def intro!: logged_value)
qed

lemma write_buffered_logged:
  assumes "L t l" "written_value r T rec = rd_RestoreRecord r rec"
  shows "logged r rec key l res (write_buffered r T rec key (t, res))"
proof (cases "rd_RestoreRecord r rec")
  case (Inl err)
  then show ?thesis using assms logged_nothing(1) by (simp add: write_buffered_def)
next
  case (Inr v)
  obtain t1 e where w: "tg_Write T t key v = (t1, e)" by (cases "tg_Write T t key v")
  note k = write_log [OF assms(1) w]
  show ?thesis using w k Inr assms(2) logged_nothing [of t1 l]
    by (cases e) (auto simp: write_buffered_def intro!: logged_value)
qed

lemma write_streamed_logged:
  assumes "L t l" "tg_WriteStream T = Some ws"
    and "written_value r T rec = (case restoreTo rec None of (v, None) \<Rightarrow> Inr v | (_, Some err) \<Rightarrow> Inl err)"
  shows "logged r rec key l res (write_streamed restoreTo ws T rec key (t, res))"
proof -
  obtain t1 x where a: "applyStream restoreTo ws t rec key = (t1, x)" by (cases "applyStream restoreTo ws t rec key")
  note k = applyStream_log [OF assms(1,2) a]
  show ?thesis using a k assms(3) logged_nothing(1) [of t1 l]
    by (cases x) (auto simp: write_streamed_def intro!: logged_value)
qed

lemma writeOneRecord_logged: "L t l \<Longrightarrow> logged r rec key l res (writeOneRecord r T rec key (t, res))"
  using write_d1_logged [of t l rec r key res] write_buffered_logged [of t l r rec key res] write_streamed_logged [of t l _ r rec _ key res]
  by (auto simp: writeOneRecord_def written_value_def split: option.splits prod.splits)

end

lemma classify_new:
  "snd (classifyRecord T t rec existing claimed) = Inr key \<Longrightarrow> key \<notin> existing \<and> key \<notin> claimed"
  by (auto simp: classifyRecord_def Let_def split: if_splits prod.splits sum.splits)

context recording_target
begin

definition record_log :: "recordReader \<Rightarrow> string set \<Rightarrow> ShardRecord \<Rightarrow> (string \<times> bytes) list \<Rightarrow> bool" where
  "record_log r existing rec w \<longleftrightarrow> w = [] \<or> (\<exists>t claimed. snd (classifyRecord T t rec existing claimed) = Inr (fst (hd w)))
     \<and> writes_of r T rec (fst (hd w)) w"

lemma classify_log:
  assumes "L t l" "classifyRecord T t rec existing claimed = (t', a)"
  shows "L t' l"
  using assms key_log [OF assms(1), of "sr_Name rec"]
  by (auto simp: classifyRecord_def Let_def split: if_splits prod.splits sum.splits)

lemma writes_of_head: "writes_of r T rec key w \<Longrightarrow> w \<noteq> [] \<Longrightarrow> fst (hd w) = key"
  by (auto simp: writes_of_def split: sum.splits)

lemma stream_record_log:
  assumes "L (as_target s) l"
  shows "\<exists>w. record_log r existing rec w \<and> L (as_target (stream_record r T existing True s rec)) (l @ w)
     \<and> rs_Restored (as_res (stream_record r T existing True s rec)) = rs_Restored (as_res s) + (if w = [] then 0 else 1)
     \<and> rs_MetadataSidecars (as_res (stream_record r T existing True s rec))
         = rs_MetadataSidecars (as_res s) + (if w = [] then 0 else int (length w) - 1)"
proof -
  obtain t a where c: "classifyRecord T (as_target s) rec existing (as_claimed s) = (t, a)"
    by (cases "classifyRecord T (as_target s) rec existing (as_claimed s)")
  have lt: "L t l" by (rule classify_log [OF assms c])
  show ?thesis
  proof (cases a)
    case (Inl conflict)
    then show ?thesis using c lt by (intro exI [of _ "[]"]) (simp add: stream_record_def record_log_def Let_def)
  next
    case (Inr key)
    obtain t1 res1 where w: "writeOneRecord r T rec key (t, as_res s) = (t1, res1)"
      by (cases "writeOneRecord r T rec key (t, as_res s)")
    obtain w where lw: "L t1 (l @ w)" "writes_of r T rec key w"
      "rs_Restored res1 = rs_Restored (as_res s) + (if w = [] then 0 else 1)"
      "rs_MetadataSidecars res1 = rs_MetadataSidecars (as_res s) + (if w = [] then 0 else int (length w) - 1)"
      using writeOneRecord_logged [OF lt, of r rec key "as_res s"] unfolding logged_def w fst_conv snd_conv by blast
    have "record_log r existing rec w"
      using c Inr lw(2) writes_of_head [OF lw(2)] unfolding record_log_def by (metis snd_conv)
    then show ?thesis using c Inr w lw by (intro exI [of _ w]) (simp add: stream_record_def Let_def)
  qed
qed

lemma run_log:
  "L (as_target s) l \<Longrightarrow> s' = foldl (stream_record r T existing True) s recs \<Longrightarrow>
     \<exists>ws. list_all2 (record_log r existing) recs ws \<and> L (as_target s') (l @ concat ws)
       \<and> rs_Restored (as_res s') = rs_Restored (as_res s) + int (length (filter (\<lambda>w. w \<noteq> []) ws))
       \<and> rs_MetadataSidecars (as_res s') = rs_MetadataSidecars (as_res s)
           + int (length (concat ws)) - int (length (filter (\<lambda>w. w \<noteq> []) ws))"
proof (induction recs arbitrary: s l)
  case (Cons rec recs)
  obtain w where w: "record_log r existing rec w" "L (as_target (stream_record r T existing True s rec)) (l @ w)"
    "rs_Restored (as_res (stream_record r T existing True s rec)) = rs_Restored (as_res s) + (if w = [] then 0 else 1)"
    "rs_MetadataSidecars (as_res (stream_record r T existing True s rec))
         = rs_MetadataSidecars (as_res s) + (if w = [] then 0 else int (length w) - 1)"
    using stream_record_log [OF Cons.prems(1)] by blast
  obtain ws where "list_all2 (record_log r existing) recs ws" "L (as_target s') ((l @ w) @ concat ws)"
    "rs_Restored (as_res s') = rs_Restored (as_res (stream_record r T existing True s rec)) + int (length (filter (\<lambda>w. w \<noteq> []) ws))"
    "rs_MetadataSidecars (as_res s') = rs_MetadataSidecars (as_res (stream_record r T existing True s rec))
       + int (length (concat ws)) - int (length (filter (\<lambda>w. w \<noteq> []) ws))"
    using Cons.IH [OF w(2)] Cons.prems(2) by auto
  then show ?case using w by (intro exI [of _ "w # ws"]) auto
qed simp

lemma dry_run_log: "L (as_target s) l \<Longrightarrow> L (as_target (foldl (stream_record r T existing False) s recs)) l"
proof (induction recs arbitrary: s)
  case (Cons rec recs)
  obtain t a where c: "classifyRecord T (as_target s) rec existing (as_claimed s) = (t, a)"
    by (cases "classifyRecord T (as_target s) rec existing (as_claimed s)")
  have "L (as_target (stream_record r T existing False s rec)) l"
    using c classify_log [OF Cons.prems c] by (cases a) (simp_all add: stream_record_def Let_def)
  then show ?case using Cons.IH by simp
qed simp

lemma restore_log:
  assumes "L t l" "ApplyStreaming (walk_of recs err) r T t True = (t', Some (plan, res), err')"
  shows "\<exists>existing ws. snd (tg_Existing T t) = Inr existing \<and> list_all2 (record_log r existing) recs ws \<and> L t' (l @ concat ws)
     \<and> rs_Restored res = int (length (filter (\<lambda>w. w \<noteq> []) ws))
     \<and> rs_MetadataSidecars res = int (length (concat ws)) - int (length (filter (\<lambda>w. w \<noteq> []) ws))"
proof -
  obtain t0 existing where e: "tg_Existing T t = (t0, Inr existing)"
    using assms(2) unfolding ApplyStreaming_walk by (cases "tg_Existing T t"; cases "snd (tg_Existing T t)") auto
  define s' where "s' = foldl (stream_record r T existing True) (start_state T t0) recs"
  have "L (as_target (start_state T t0)) l" using existing_log [OF assms(1)] e by (simp add: start_state_def)
  from run_log [OF this s'_def] obtain ws where ws: "list_all2 (record_log r existing) recs ws" "L (as_target s') (l @ concat ws)"
    "rs_Restored (as_res s') = int (length (filter (\<lambda>w. w \<noteq> []) ws))"
    "rs_MetadataSidecars (as_res s') = int (length (concat ws)) - int (length (filter (\<lambda>w. w \<noteq> []) ws))"
    by (auto simp: start_state_def new_result_def)
  have "t' = fst (tg_Close T (as_target s'))" "res = sort_result (recordConflicts (as_res s') (as_plan s'))"
    using assms(2) e unfolding ApplyStreaming_walk by (auto simp: Let_def s'_def split: prod.splits)
  then show ?thesis using e ws close_log [OF ws(2)]
    by (auto simp: sort_result_def recordConflicts_def Let_def)
qed

lemma dry_run_nothing:
  "L t l \<Longrightarrow> L (fst (ApplyStreaming (walk_of recs err) r T t False)) l"
  unfolding ApplyStreaming_walk using existing_log [of t l] dry_run_log [of "start_state T (fst (tg_Existing T t))" l r _ recs]
  by (auto simp: Let_def start_state_def split: prod.splits sum.splits)

lemma restore_any:
  assumes "L t l"
  shows "\<exists>w. L (fst (ApplyStreaming (walk_of recs err) r T t confirm)) (l @ w)"
proof (cases confirm)
  case False
  then show ?thesis using dry_run_nothing [OF assms, of recs err r] by (intro exI [of _ "[]"]) simp
next
  case True
  obtain t' a e where a: "ApplyStreaming (walk_of recs err) r T t True = (t', a, e)"
    by (cases "ApplyStreaming (walk_of recs err) r T t True")
  show ?thesis
  proof (cases a)
    case None
    then have "t' = fst (tg_Existing T t)"
      using a unfolding ApplyStreaming_walk by (auto simp: Let_def split: prod.splits sum.splits)
    then show ?thesis using a True existing_log [OF assms] by (intro exI [of _ "[]"]) simp
  next
    case (Some x)
    then obtain plan res where "ApplyStreaming (walk_of recs err) r T t True = (t', Some (plan, res), e)" using a by (cases x) auto
    then show ?thesis using restore_log [OF assms] True by fastforce
  qed
qed

end

section \<open>The targets keep the law\<close>

text \<open>A directory without faults, against the files it began with: these, and what was written where nothing was.\<close>

definition written_files :: "(string \<times> bytes) list \<Rightarrow> path \<Rightarrow> bytes option" where
  "written_files l = map_of (map (\<lambda>(key, v). (path_of key, v)) l)"

definition dir_log :: "(path \<Rightarrow> bytes option) \<Rightarrow> DirTarget \<Rightarrow> (string \<times> bytes) list \<Rightarrow> bool" where
  "dir_log F d l \<longleftrightarrow> faults (dir_fs d) = 0 \<and> file_at (dir_fs d) = F ++ written_files l
     \<and> distinct (map (\<lambda>(key, _). path_of key) l) \<and> list_all (\<lambda>(key, _). F (path_of key) = None) l"

lemma dir_log_write:
  assumes "dir_log F d l" "settled (dir_fs d) key val n fs'"
  shows "dir_log F (d\<lparr>dir_fs := fs', dir_calls := k\<rparr>) (case val of Some v \<Rightarrow> l @ [(key, v)] | None \<Rightarrow> l)"
proof -
  have z: "faults (dir_fs d) = 0" "faults fs' = 0" using assms by (auto simp: dir_log_def settled_def)
  note f = settled_files [OF assms(2)]
  show ?thesis
  proof (cases val)
    case None
    then show ?thesis using f(1) z assms(1) by (simp add: dir_log_def)
  next
    case (Some v)
    have "F (path_of key) = None" "written_files l (path_of key) = None"
      using f(2) Some z assms(1) by (auto simp: dir_log_def map_add_None)
    moreover have "path_of key \<notin> set (map (\<lambda>(key, _). path_of key) l)"
      using \<open>written_files l (path_of key) = None\<close> by (force simp: written_files_def map_of_eq_None_iff)
    moreover have "F ++ written_files (l @ [(key, v)]) = (F ++ written_files l)(path_of key \<mapsto> v)"
      using \<open>written_files l (path_of key) = None\<close>
      by (auto simp: written_files_def map_add_def fun_eq_iff split: option.splits)
    ultimately show ?thesis using f(1) Some z assms(1) by (auto simp: dir_log_def)
  qed
qed

lemma dir_log_same:
  "dir_log F d l \<Longrightarrow> fs_look fs' = fs_look (dir_fs d) \<Longrightarrow> faults fs' \<le> faults (dir_fs d) \<Longrightarrow> dir_log F (d\<lparr>dir_fs := fs'\<rparr>) l"
  by (auto simp: dir_log_def file_at_def fun_eq_iff)

lemma dir_update_calls: "d\<lparr>dir_fs := fs\<rparr> = d\<lparr>dir_fs := fs, dir_calls := dir_calls d\<rparr>"
  by simp

lemma dir_existing_same:
  assumes "DirTarget_Existing d = (d', a)"
  shows "\<exists>fs. d' = d\<lparr>dir_fs := fs\<rparr> \<and> fs_look fs = fs_look (dir_fs d) \<and> faults fs \<le> faults (dir_fs d)"
proof -
  obtain f1 fs1 where 1: "next_fault (dir_fs d) = (f1, fs1)" by (cases "next_fault (dir_fs d)")
  obtain f2 fs2 where 2: "next_fault fs1 = (f2, fs2)" by (cases "next_fault fs1")
  have "d' = d\<lparr>dir_fs := fs1\<rparr> \<or> d' = d\<lparr>dir_fs := fs2\<rparr>"
    using assms 1 2 by (auto simp: DirTarget_Existing_def split: option.splits node.splits prod.splits)
  then show ?thesis using next_fault_cases [OF 1] next_fault_cases [OF 2] by auto
qed

lemma dir_write_log:
  assumes "dir_log F d l" "DirTarget_Write d key v = (d', e)"
  shows "dir_log F d' (if e = None then l @ [(key, v)] else l)"
proof -
  obtain fs where w: "write_file (dir_fs d) key v = (fs, e)" "d' = d\<lparr>dir_fs := fs\<rparr>"
    using assms(2) by (auto simp: DirTarget_Write_def split: prod.splits)
  show ?thesis using dir_log_write [OF assms(1) write_file_settled [OF w(1)], of "dir_calls d"] w(2)
    by (cases e) auto
qed

interpretation dir_records: recording_target dir_target "dir_log F" for F
proof unfold_locales
  fix d l name
  assume a: "dir_log F d l"
  show "dir_log F (fst (tg_Key dir_target d name)) l" using a by (simp add: dir_target_def DirTarget_Key_def)
  show "dir_log F (fst (tg_Close dir_target d)) l" using a by (simp add: dir_target_def DirTarget_Close_def)
  show "dir_log F (fst (tg_Existing dir_target d)) l"
    using dir_existing_same [of d "fst (DirTarget_Existing d)"] dir_log_same [OF a] by (cases "DirTarget_Existing d") (auto simp: dir_target_def)
next
  fix d l key v d' e
  assume "dir_log F d l" "tg_Write dir_target d key v = (d', e)"
  then show "dir_log F d' (if e = None then l @ [(key, v)] else l)" using dir_write_log by (simp add: dir_target_def)
next
  fix d l ws key src n d' e took
  assume a: "dir_log F d l" and w: "tg_WriteStream dir_target = Some ws" "ws d key src n = (d', e, took)"
  obtain fs where s: "stream_file (dir_fs d) (dir_tmp d (dir_calls d)) key src = (fs, e, took)"
    "d' = d\<lparr>dir_fs := fs, dir_calls := Suc (dir_calls d)\<rparr>"
    using w by (auto simp: dir_target_def DirTarget_WriteStream_def split: prod.splits)
  have "e = None \<Longrightarrow> took = None" using s(1) by (auto simp: stream_file_def Let_def split: prod.splits option.splits sum.splits)
  then show "dir_log F d' (if e = None then l @ [(key, fst src)] else l) \<and> (e = None \<longrightarrow> snd src = None \<and> took = None)"
    using stream_file_settled [OF s(1)] dir_log_write [OF a conjunct1 [OF stream_file_settled [OF s(1)]], of "Suc (dir_calls d)"] s(2)
    by (cases e) auto
next
  fix d l mkey wm key doc d' e
  assume "dir_log F d l" "tg_Metadata dir_target = Some (mkey, wm)" "wm d key doc = (d', e)"
  then show "dir_log F d' (if e = None then l @ [(mkey key, doc)] else l)"
    using dir_write_log by (auto simp: dir_target_def WriteMetadata_def)
qed

text \<open>A directory with any faults keeps what it began with.\<close>

definition dir_keeps :: "(path \<Rightarrow> node option) \<Rightarrow> DirTarget \<Rightarrow> (string \<times> bytes) list \<Rightarrow> bool" where
  "dir_keeps N d l \<longleftrightarrow> N \<subseteq>\<^sub>m fs_look (dir_fs d)"

lemma dir_keeps_settled: "dir_keeps N d l \<Longrightarrow> settled (dir_fs d) key val n fs \<Longrightarrow> dir_keeps N (d\<lparr>dir_fs := fs, dir_calls := k\<rparr>) l'"
  using settled_keeps [of "dir_fs d" key val n fs] unfolding dir_keeps_def map_le_def by (auto simp: dom_def)

lemma dir_write_keeps: "dir_keeps N d l \<Longrightarrow> DirTarget_Write d key v = (d', e) \<Longrightarrow> dir_keeps N d' l'"
  using dir_keeps_settled [OF _ write_file_settled, of N d l key v _ e "dir_calls d" l']
  by (auto simp: DirTarget_Write_def split: prod.splits)

interpretation dir_safe: recording_target dir_target "dir_keeps N" for N
proof unfold_locales
  fix d l name
  assume a: "dir_keeps N d l"
  show "dir_keeps N (fst (tg_Key dir_target d name)) l" using a by (simp add: dir_target_def DirTarget_Key_def)
  show "dir_keeps N (fst (tg_Close dir_target d)) l" using a by (simp add: dir_target_def DirTarget_Close_def)
  show "dir_keeps N (fst (tg_Existing dir_target d)) l"
    using dir_existing_same [of d "fst (DirTarget_Existing d)"] a by (cases "DirTarget_Existing d") (auto simp: dir_target_def dir_keeps_def)
next
  fix d l key v d' e
  assume "dir_keeps N d l" "tg_Write dir_target d key v = (d', e)"
  then show "dir_keeps N d' (if e = None then l @ [(key, v)] else l)" using dir_write_keeps by (simp add: dir_target_def)
next
  fix d l ws key src n d' e took
  assume a: "dir_keeps N d l" and w: "tg_WriteStream dir_target = Some ws" "ws d key src n = (d', e, took)"
  obtain fs where s: "stream_file (dir_fs d) (dir_tmp d (dir_calls d)) key src = (fs, e, took)"
    "d' = d\<lparr>dir_fs := fs, dir_calls := Suc (dir_calls d)\<rparr>"
    using w by (auto simp: dir_target_def DirTarget_WriteStream_def split: prod.splits)
  have "e = None \<Longrightarrow> took = None" using s(1) by (auto simp: stream_file_def Let_def split: prod.splits option.splits sum.splits)
  then show "dir_keeps N d' (if e = None then l @ [(key, fst src)] else l) \<and> (e = None \<longrightarrow> snd src = None \<and> took = None)"
    using stream_file_settled [OF s(1)] dir_keeps_settled [OF a conjunct1 [OF stream_file_settled [OF s(1)]]] s(2) by auto
next
  fix d l mkey wm key doc d' e
  assume "dir_keeps N d l" "tg_Metadata dir_target = Some (mkey, wm)" "wm d key doc = (d', e)"
  then show "dir_keeps N d' (if e = None then l @ [(mkey key, doc)] else l)"
    using dir_write_keeps by (auto simp: dir_target_def WriteMetadata_def)
qed

text \<open>The file system of a directory stays a tree.\<close>

definition dir_tree :: "DirTarget \<Rightarrow> (string \<times> bytes) list \<Rightarrow> bool" where
  "dir_tree d l \<longleftrightarrow> tree (fs_look (dir_fs d))"

lemma dir_write_tree: "dir_tree d l \<Longrightarrow> DirTarget_Write d key v = (d', e) \<Longrightarrow> dir_tree d' l'"
  using write_file_tree by (auto simp: dir_tree_def DirTarget_Write_def split: prod.splits)

interpretation dir_shape: recording_target dir_target dir_tree
proof unfold_locales
  fix d l name
  assume a: "dir_tree d l"
  show "dir_tree (fst (tg_Key dir_target d name)) l" using a by (simp add: dir_target_def DirTarget_Key_def)
  show "dir_tree (fst (tg_Close dir_target d)) l" using a by (simp add: dir_target_def DirTarget_Close_def)
  show "dir_tree (fst (tg_Existing dir_target d)) l"
    using dir_existing_same [of d "fst (DirTarget_Existing d)"] a by (cases "DirTarget_Existing d") (auto simp: dir_target_def dir_tree_def)
next
  fix d l key v d' e
  assume "dir_tree d l" "tg_Write dir_target d key v = (d', e)"
  then show "dir_tree d' (if e = None then l @ [(key, v)] else l)" using dir_write_tree by (simp add: dir_target_def)
next
  fix d l ws key src n d' e took
  assume a: "dir_tree d l" and w: "tg_WriteStream dir_target = Some ws" "ws d key src n = (d', e, took)"
  obtain fs where s: "stream_file (dir_fs d) (dir_tmp d (dir_calls d)) key src = (fs, e, took)"
    "d' = d\<lparr>dir_fs := fs, dir_calls := Suc (dir_calls d)\<rparr>"
    using w by (auto simp: dir_target_def DirTarget_WriteStream_def split: prod.splits)
  have "e = None \<Longrightarrow> took = None" using s(1) by (auto simp: stream_file_def Let_def split: prod.splits option.splits sum.splits)
  then show "dir_tree d' (if e = None then l @ [(key, fst src)] else l) \<and> (e = None \<longrightarrow> snd src = None \<and> took = None)"
    using stream_file_settled [OF s(1)] stream_file_tree [OF s(1)] a s(2) by (auto simp: dir_tree_def)
next
  fix d l mkey wm key doc d' e
  assume "dir_tree d l" "tg_Metadata dir_target = Some (mkey, wm)" "wm d key doc = (d', e)"
  then show "dir_tree d' (if e = None then l @ [(mkey key, doc)] else l)"
    using dir_write_tree by (auto simp: dir_target_def WriteMetadata_def)
qed

definition env_log :: "bytes \<Rightarrow> EnvTarget \<Rightarrow> (string \<times> bytes) list \<Rightarrow> bool" where
  "env_log w e l \<longleftrightarrow> ev_faults e = [] \<and> ev_w e = w @ concat (map (\<lambda>(key, v). bytes_of (env_line key v)) l)"

interpretation env_records: recording_target env_target "env_log w" for w
  by unfold_locales
    (auto simp: env_target_def EnvTarget_Key_def EnvTarget_Existing_def EnvTarget_Close_def EnvTarget_Write_def env_log_def
      Let_def split: if_splits)

definition discard_log :: "bytes \<Rightarrow> DiscardTarget \<Rightarrow> (string \<times> bytes) list \<Rightarrow> bool" where
  "discard_log b d l \<longleftrightarrow> ds_digest d = b @ concat (map (\<lambda>(key, v). fold_leaf key (sha384 v)) l)"

interpretation discard_records: recording_target discard_target "discard_log b" for b
  by unfold_locales
    (auto simp: discard_target_def DiscardTarget_Key_def DiscardTarget_Existing_def DiscardTarget_Close_def DiscardTarget_Write_def
      DiscardTarget_WriteStream_def DiscardTarget_fold_def discard_log_def Let_def split: option.splits prod.splits)

text \<open>
  C6. A restore into a directory never changes a file or a directory that is there, whatever records the walk
  hands over, whatever they are named, and whatever the file system and the archive answer: every path
  keeps its node through a dry run and through a confirmed one.
\<close>
theorem restore_never_clobbers:
  "fs_look (dir_fs d) \<subseteq>\<^sub>m fs_look (dir_fs (fst (ApplyStreaming (EachRecord sr) r dir_target d confirm)))"
  using dir_safe.restore_any [of "fs_look (dir_fs d)" d "[]" "fst (delivered sr)" "snd (delivered sr)" r confirm]
  by (simp add: ApplyStreaming_each dir_keeps_def)

text \<open>A record's place in a directory, and what one record left there.\<close>

definition dir_key :: "ShardRecord \<Rightarrow> string" where
  "dir_key rec = (if sr_SourceType rec = SourceD1 then d1OutputKey (safeKey (sr_Name rec)) (d1DescriptorUnrenderable rec)
     else safeKey (sr_Name rec))"

definition dir_record :: "recordReader \<Rightarrow> string set \<Rightarrow> ShardRecord \<Rightarrow> (string \<times> bytes) list \<Rightarrow> bool" where
  "dir_record r existing rec w \<longleftrightarrow> w = [] \<or> (dir_key rec \<notin> existing \<and> writes_of r dir_target rec (dir_key rec) w)"

lemma dir_classified:
  "snd (classifyRecord dir_target t rec existing claimed) = Inr key \<Longrightarrow> key = dir_key rec"
  by (auto simp: classifyRecord_def dir_target_def DirTarget_Key_def dir_key_def Let_def split: if_splits option.splits)

lemma dir_record_log: "dir_records.record_log r existing rec w \<Longrightarrow> dir_record r existing rec w"
  using dir_classified classify_new unfolding dir_records.record_log_def dir_record_def by metis

text \<open>
  C5. What a restore leaves in a directory, when no system call fails, is what was there and the records. Each
  record has written nothing, or its value as the reader answers it, at the place its name maps to, where
  no file was, with or without its metadata beside it; no two wrote to the same place; the files of the
  directory are those of before and these; and the counts of restored records and of metadata files are
  the numbers of them.
\<close>
theorem restore_writes_the_records:
  assumes "faults (dir_fs d) = 0"
    and "ApplyStreaming (walk_of recs err) r dir_target d True = (d', Some (plan, res), err')"
  shows "\<exists>existing ws. snd (DirTarget_Existing d) = Inr existing \<and> list_all2 (dir_record r existing) recs ws
     \<and> file_at (dir_fs d') = file_at (dir_fs d) ++ written_files (concat ws)
     \<and> distinct (map (\<lambda>(key, _). path_of key) (concat ws))
     \<and> list_all (\<lambda>(key, _). file_at (dir_fs d) (path_of key) = None) (concat ws)
     \<and> rs_Restored res = int (length (filter (\<lambda>w. w \<noteq> []) ws))
     \<and> rs_MetadataSidecars res = int (length (concat ws)) - int (length (filter (\<lambda>w. w \<noteq> []) ws))"
proof -
  have "dir_log (file_at (dir_fs d)) d []" using assms(1) by (simp add: dir_log_def written_files_def)
  from dir_records.restore_log [OF this assms(2)] obtain existing ws where w:
    "snd (tg_Existing dir_target d) = Inr existing" "list_all2 (dir_records.record_log r existing) recs ws"
    "dir_log (file_at (dir_fs d)) d' (concat ws)" "rs_Restored res = int (length (filter (\<lambda>w. w \<noteq> []) ws))"
    "rs_MetadataSidecars res = int (length (concat ws)) - int (length (filter (\<lambda>w. w \<noteq> []) ws))" by auto
  have "list_all2 (dir_record r existing) recs ws" by (rule list_all2_mono [OF w(2) dir_record_log])
  then show ?thesis using w by (intro exI [of _ existing] exI [of _ ws]) (simp add: dir_log_def dir_target_def)
qed

section \<open>What the values are\<close>


section \<open>The two ways to apply\<close>

text \<open>
  The law: \<open>Key\<close> is a function of the name and leaves the target alone. Then planning first and writing
  afterwards is planning and writing record by record, as long as a name says which record it is.
\<close>

locale pure_key_target =
  fixes T :: "'t Target" and K :: "string \<Rightarrow> goerr + string"
  assumes key_pure: "tg_Key T t name = (t, K name)"

definition forget_writes :: "RestorePlan \<Rightarrow> RestorePlan" where
  "forget_writes p = p\<lparr>pl_Writes := []\<rparr>"

lemma forget_simps [simp]:
  "forget_writes (new_plan k) = new_plan k"
  "forget_writes (annotateReprovision (annotateD1 p T rec key) rec' key') = annotateReprovision (annotateD1 (forget_writes p) T rec key) rec' key'"
  "forget_writes (p\<lparr>pl_TotalRecords := n\<rparr>) = (forget_writes p)\<lparr>pl_TotalRecords := n\<rparr>"
  "forget_writes (p\<lparr>pl_Conflicts := cs\<rparr>) = (forget_writes p)\<lparr>pl_Conflicts := cs\<rparr>"
  "forget_writes (p\<lparr>pl_WriteCount := n\<rparr>) = (forget_writes p)\<lparr>pl_WriteCount := n\<rparr>"
  "forget_writes (p\<lparr>pl_TotalBytes := n\<rparr>) = (forget_writes p)\<lparr>pl_TotalBytes := n\<rparr>"
  "forget_writes (p\<lparr>pl_Writes := w\<rparr>) = forget_writes p"
  "pl_Conflicts (forget_writes p) = pl_Conflicts p" "pl_TotalRecords (forget_writes p) = pl_TotalRecords p"
  "pl_WriteCount (forget_writes p) = pl_WriteCount p" "pl_TotalBytes (forget_writes p) = pl_TotalBytes p"
  "pl_Kind (forget_writes p) = pl_Kind p"
  by (simp_all add: forget_writes_def new_plan_def annotateReprovision_def annotateD1_def Let_def)

lemma recordConflicts_forget [simp]: "recordConflicts res (forget_writes p) = recordConflicts res p"
  by (simp only: recordConflicts_def forget_simps)

lemma conflicts_commute [simp]:
  "restored (recordConflicts res p) n = recordConflicts (restored res n) p"
  "recordFailure (recordConflicts res p) name key err = recordConflicts (recordFailure res name key err) p"
  "recordReprovision (recordConflicts res p) rec key err = recordConflicts (recordReprovision res rec key err) p"
  "noteMarker (recordConflicts res p) rec key v = recordConflicts (noteMarker res rec key v) p"
  "noteUnrenderable (recordConflicts res p) rec key v = recordConflicts (noteUnrenderable res rec key v) p"
  "noteMetadataUnapplied (recordConflicts res p) rec key flds reason = recordConflicts (noteMetadataUnapplied res rec key flds reason) p"
  "(recordConflicts res p)\<lparr>rs_MetadataSidecars := rs_MetadataSidecars (recordConflicts res p) + 1\<rparr>
     = recordConflicts (res\<lparr>rs_MetadataSidecars := rs_MetadataSidecars res + 1\<rparr>) p"
  "(recordConflicts res p)\<lparr>rs_Failed := rs_Failed (recordConflicts res p) @ fs\<rparr>
     = recordConflicts (res\<lparr>rs_Failed := rs_Failed res @ fs\<rparr>) p"
  by (simp_all add: recordConflicts_def restored_def recordFailure_def recordReprovision_def noteMarker_def noteUnrenderable_def
      noteMetadataUnapplied_def Let_def)

abbreviation with_conflicts :: "RestorePlan \<Rightarrow> 't \<times> RestoreResult \<Rightarrow> 't \<times> RestoreResult" where
  "with_conflicts p \<equiv> map_prod id (\<lambda>res. recordConflicts res p)"

lemma applyMetadata_conflicts:
  "applyMetadata T (t, recordConflicts res p) rec key = with_conflicts p (applyMetadata T (t, res) rec key)"
  by (simp add: applyMetadata_def Let_def split: option.split sum.split prod.split)

lemma writeOneRecord_conflicts:
  "writeOneRecord r T rec key (t, recordConflicts res p) = with_conflicts p (writeOneRecord r T rec key (t, res))"
proof -
  have 1: "write_d1 r T rec key (t, recordConflicts res p) = with_conflicts p (write_d1 r T rec key (t, res))"
    by (simp add: write_d1_def applyMetadata_conflicts split: option.split sum.split prod.split)
  have 2: "write_buffered r T rec key (t, recordConflicts res p) = with_conflicts p (write_buffered r T rec key (t, res))"
    by (simp add: write_buffered_def applyMetadata_conflicts split: option.split sum.split prod.split)
  have 3: "write_streamed f ws T rec key (t, recordConflicts res p) = with_conflicts p (write_streamed f ws T rec key (t, res))" for f ws
    by (simp add: write_streamed_def applyMetadata_conflicts split: option.split sum.split prod.split)
  show ?thesis by (cases "rd_Streaming r"; cases "tg_WriteStream T") (auto simp: writeOneRecord_def 1 2 3)
qed

lemma plan_records_kind: "plan_records T existing t claimed plan recs = (t', plan') \<Longrightarrow> pl_Kind plan' = pl_Kind plan"
proof (induction recs arbitrary: t claimed plan)
  case (Cons rec recs)
  have "pl_Kind (annotateReprovision (annotateD1 p T rec key) rec key) = pl_Kind p" for p key
    by (simp add: annotateReprovision_def annotateD1_def Let_def)
  then show ?case using Cons by (auto simp: Let_def split: prod.splits sum.splits)
qed simp

definition apply_write :: "(string \<Rightarrow> ShardRecord option) \<Rightarrow> recordReader \<Rightarrow> 't Target \<Rightarrow> 't \<times> RestoreResult \<Rightarrow> PlannedWrite \<Rightarrow> 't \<times> RestoreResult" where
  "apply_write byName r T st w = (case byName (pw_Name w) of
     None \<Rightarrow> (fst st, (snd st)\<lparr>rs_Failed := rs_Failed (snd st) @ [record_disappeared w]\<rparr>)
   | Some rec \<Rightarrow> writeOneRecord r T rec (pw_Key w) st)"

lemma applyRecords_fold: "applyRecords plan byName r T st = foldl (apply_write byName r T) st (pl_Writes plan)"
  unfolding applyRecords_def apply_write_def [abs_def] by (rule refl)

lemma apply_write_conflicts:
  "apply_write byName r T (t, recordConflicts res p) w = with_conflicts p (apply_write byName r T (t, res) w)"
  by (simp add: apply_write_def writeOneRecord_conflicts split: option.split)

lemma apply_writes_conflicts:
  "foldl (apply_write byName r T) (t, recordConflicts res p) ws = with_conflicts p (foldl (apply_write byName r T) (t, res) ws)"
proof (induction ws arbitrary: t res)
  case (Cons w ws)
  obtain t1 res1 where "apply_write byName r T (t, res) w = (t1, res1)" by (cases "apply_write byName r T (t, res) w")
  then show ?case using Cons by (simp add: apply_write_conflicts)
qed simp

lemma index_by_name_distinct:
  assumes "distinct (map sr_Name recs)" "rec \<in> set recs"
  shows "index_by_name recs (sr_Name rec) = Some rec"
proof -
  have "foldl (\<lambda>m rec. m(sr_Name rec \<mapsto> rec)) m recs = m ++ map_of (rev (map (\<lambda>rec. (sr_Name rec, rec)) recs))" for m
    by (induction recs arbitrary: m) (auto simp: map_add_upd_left map_add_def fun_eq_iff split: option.splits)
  then have "index_by_name recs = map_of (rev (map (\<lambda>rec. (sr_Name rec, rec)) recs))" by (simp add: index_by_name_def)
  moreover have "distinct (map fst (rev (map (\<lambda>rec. (sr_Name rec, rec)) recs)))"
    using assms(1) by (simp add: comp_def rev_map [symmetric] del: rev_map)
  ultimately show ?thesis using assms(2) by (auto intro: map_of_is_SomeI)
qed

context pure_key_target
begin

lemma classify_pure: "classifyRecord T t rec existing claimed = (t, snd (classifyRecord T t' rec existing claimed))"
  by (auto simp: classifyRecord_def key_pure Let_def split: sum.split)

lemma plan_then_write:
  "plan_records T existing t claimed plan recs = (t', plan') \<Longrightarrow> as_claimed s = claimed \<Longrightarrow> as_plan s = forget_writes plan \<Longrightarrow>
   (\<And>rec. rec \<in> set recs \<Longrightarrow> byName (sr_Name rec) = Some rec) \<Longrightarrow>
     t' = t \<and> (\<exists>ws. pl_Writes plan' = pl_Writes plan @ ws
       \<and> as_plan (foldl (stream_record r T existing c) s recs) = forget_writes plan'
       \<and> (as_target (foldl (stream_record r T existing c) s recs), as_res (foldl (stream_record r T existing c) s recs))
           = (if c then foldl (apply_write byName r T) (as_target s, as_res s) ws else (as_target s, as_res s)))"
proof (induction recs arbitrary: claimed plan s)
  case (Cons rec recs)
  define a where "a = snd (classifyRecord T t rec existing claimed)"
  have cl: "classifyRecord T u rec existing claimed = (u, a)" for u
    unfolding a_def by (rule classify_pure)
  show ?case
  proof (cases a)
    case (Inl conflict)
    define plan1 where "plan1 = plan\<lparr>pl_TotalRecords := pl_TotalRecords plan + 1, pl_Conflicts := pl_Conflicts plan @ [conflict]\<rparr>"
    define s1 where "s1 = stream_record r T existing c s rec"
    have "plan_records T existing t claimed plan1 recs = (t', plan')"
      using Cons.prems(1) cl Inl by (simp add: plan1_def Let_def)
    moreover have "as_claimed s1 = claimed" "as_plan s1 = forget_writes plan1" "as_target s1 = as_target s" "as_res s1 = as_res s"
      using Cons.prems(2,3) cl Inl by (simp_all add: s1_def plan1_def stream_record_def Let_def)
    moreover have "pl_Writes plan1 = pl_Writes plan" by (simp add: plan1_def)
    ultimately show ?thesis using Cons.IH [of claimed plan1 s1] Cons.prems(4) unfolding foldl_Cons s1_def [symmetric]
      by (cases c) simp_all
  next
    case (Inr key)
    define plan1 where "plan1 = annotateReprovision (annotateD1
        (plan\<lparr>pl_TotalRecords := pl_TotalRecords plan + 1,
              pl_Writes := pl_Writes plan @ [\<lparr>pw_Name = sr_Name rec, pw_Key = key, pw_Bytes = sr_PlaintextSize rec\<rparr>],
              pl_WriteCount := pl_WriteCount plan + 1, pl_TotalBytes := pl_TotalBytes plan + sr_PlaintextSize rec\<rparr>) T rec key) rec key"
    define claimed1 where "claimed1 = claimMetadataKey T rec key existing (insert key claimed)"
    define s1 where "s1 = stream_record r T existing c s rec"
    have w: "pl_Writes plan1 = pl_Writes plan @ [\<lparr>pw_Name = sr_Name rec, pw_Key = key, pw_Bytes = sr_PlaintextSize rec\<rparr>]"
      by (simp add: plan1_def annotateReprovision_def annotateD1_def Let_def)
    have "plan_records T existing t claimed1 plan1 recs = (t', plan')"
      using Cons.prems(1) cl Inr by (simp add: plan1_def claimed1_def Let_def)
    moreover have "as_claimed s1 = claimed1" "as_plan s1 = forget_writes plan1"
      using Cons.prems(2,3) cl Inr by (simp_all add: s1_def plan1_def claimed1_def stream_record_def Let_def split: prod.split)
    moreover have "(as_target s1, as_res s1) = (if c then writeOneRecord r T rec key (as_target s, as_res s) else (as_target s, as_res s))"
      using Cons.prems(2,3) cl Inr by (simp add: s1_def stream_record_def Let_def split: prod.split)
    moreover have "byName (sr_Name rec) = Some rec" using Cons.prems(4) by simp
    ultimately have s: "plan_records T existing t claimed1 plan1 recs = (t', plan')" "as_claimed s1 = claimed1"
      "as_plan s1 = forget_writes plan1"
      "(as_target s1, as_res s1) = (if c then apply_write byName r T (as_target s, as_res s)
          \<lparr>pw_Name = sr_Name rec, pw_Key = key, pw_Bytes = sr_PlaintextSize rec\<rparr> else (as_target s, as_res s))"
      by (simp_all add: apply_write_def)
    obtain ws where "t' = t" "pl_Writes plan' = pl_Writes plan1 @ ws"
      "as_plan (foldl (stream_record r T existing c) s1 recs) = forget_writes plan'"
      "(as_target (foldl (stream_record r T existing c) s1 recs), as_res (foldl (stream_record r T existing c) s1 recs))
         = (if c then foldl (apply_write byName r T) (as_target s1, as_res s1) ws else (as_target s1, as_res s1))"
      using Cons.IH [OF s(1-3)] Cons.prems(4) by auto
    then show ?thesis unfolding foldl_Cons s1_def [symmetric] using w s(4)
      by (intro conjI exI [of _ "\<lparr>pw_Name = sr_Name rec, pw_Key = key, pw_Bytes = sr_PlaintextSize rec\<rparr> # ws"]) auto
  qed
qed auto

lemma start_simps: "as_claimed (start_state T t) = {}" "as_plan (start_state T t) = new_plan (tg_Kind T)"
  "as_target (start_state T t) = t" "as_res (start_state T t) = new_result (tg_Kind T)" "pl_Writes (new_plan k) = []"
  by (simp_all add: start_state_def new_plan_def)

lemma apply_eq_streaming:
  assumes "distinct (map sr_Name (rd_Records r))"
  shows "(case RestoreApply r T t confirm of (t', a, e) \<Rightarrow> (t', map_option (apfst forget_writes) a, e))
     = ApplyStreaming (walk_of (rd_Records r) None) r T t confirm"
proof (cases "tg_Existing T t")
  case (Pair t0 x)
  show ?thesis
  proof (cases x)
    case (Inl err)
    then show ?thesis using Pair by (simp add: ApplyStreaming_walk RestoreApply_def MakePlan_def)
  next
    case (Inr existing)
    obtain t1 plan where p: "plan_records T existing t0 {} (new_plan (tg_Kind T)) (rd_Records r) = (t1, plan)"
      by (cases "plan_records T existing t0 {} (new_plan (tg_Kind T)) (rd_Records r)")
    let ?s = "foldl (stream_record r T existing confirm) (start_state T t0) (rd_Records r)"
    obtain ws where w: "t1 = t0" "pl_Writes plan = ws" "as_plan ?s = forget_writes plan"
      "(as_target ?s, as_res ?s) = (if confirm then foldl (apply_write (index_by_name (rd_Records r)) r T) (t0, new_result (tg_Kind T)) ws
          else (t0, new_result (tg_Kind T)))"
      using plan_then_write [OF p, of "start_state T t0" "index_by_name (rd_Records r)" r confirm]
        index_by_name_distinct [OF assms]
      by (cases confirm) (auto simp: start_simps)
    have k: "pl_Kind plan = tg_Kind T" using plan_records_kind [OF p] by (simp add: new_plan_def)
    show ?thesis
      unfolding ApplyStreaming_walk RestoreApply_def MakePlan_def Pair Inr
      using w p k by (cases "foldl (apply_write (index_by_name (rd_Records r)) r T) (t0, new_result (tg_Kind T)) ws")
        (auto simp: applyRecords_fold apply_writes_conflicts Let_def split: prod.split)
  qed
qed

end

interpretation dir_pure: pure_key_target dir_target "\<lambda>name. snd (DirTarget_Key (NewDirTarget '''' \<lparr>fs_nodes = [], fs_faults = []\<rparr> (\<lambda>_ _. '''')) name)"
  by unfold_locales (simp add: dir_target_def DirTarget_Key_def)

interpretation env_pure: pure_key_target env_target "\<lambda>name. snd (EnvTarget_Key (NewEnvTarget [] []) name)"
  by unfold_locales (simp add: env_target_def EnvTarget_Key_def)

text \<open>
  Applying a run that is held in memory and applying it as it streams by come to the same, for a directory
  and for the environment, dry or confirmed: the same target, the same plan apart from the list of writes
  that only the first one keeps, the same result and the same error; provided no two records share a name.
\<close>
theorem apply_is_streaming_apply:
  assumes "distinct (map sr_Name (rd_Records r))"
  shows "(case RestoreApply r dir_target d confirm of (d', a, e) \<Rightarrow> (d', map_option (apfst forget_writes) a, e))
       = ApplyStreaming (walk_of (rd_Records r) None) r dir_target d confirm
     \<and> (case RestoreApply r env_target v confirm of (v', a, e) \<Rightarrow> (v', map_option (apfst forget_writes) a, e))
       = ApplyStreaming (walk_of (rd_Records r) None) r env_target v confirm"
  using dir_pure.apply_eq_streaming [OF assms] env_pure.apply_eq_streaming [OF assms] by blast

text \<open>A small archive and an empty directory.\<close>

definition ex_rec :: "string \<Rightarrow> string \<Rightarrow> ShardRecord" where
  "ex_rec source name = zero_ShardRecord\<lparr>sr_SourceType := source, sr_Name := name\<rparr>"

definition ex_reader :: "ShardRecord list \<Rightarrow> recordReader" where
  "ex_reader recs = \<lparr>rd_Records = recs, rd_RestoreRecord = (\<lambda>rec. Inr (bytes_of (sr_SourceType rec))), rd_Streaming = None\<rparr>"

definition ex_out :: DirTarget where
  "ex_out = NewDirTarget ''out'' \<lparr>fs_nodes = [([], FDir), ([''a''], FFile [])], fs_faults = []\<rparr> (\<lambda>k i. dec_of_nat i)"

theorem apply_is_streaming_apply_witness:
  "(case RestoreApply (ex_reader [ex_rec SourceKV ''a'', ex_rec SourceKV ''x'']) dir_target ex_out True of (d', a, e) \<Rightarrow>
     (d', map_option (apfst forget_writes) a, e))
       = ApplyStreaming (walk_of [ex_rec SourceKV ''a'', ex_rec SourceKV ''x''] None)
           (ex_reader [ex_rec SourceKV ''a'', ex_rec SourceKV ''x'']) dir_target ex_out True"
proof -
  have d: "distinct (map sr_Name (rd_Records (ex_reader [ex_rec SourceKV ''a'', ex_rec SourceKV ''x''])))"
    by (simp add: ex_reader_def ex_rec_def)
  have r: "rd_Records (ex_reader recs) = recs" for recs by (simp add: ex_reader_def)
  show ?thesis using conjunct1 [OF apply_is_streaming_apply [OF d, of ex_out True]] unfolding r .
qed



definition ex_outcome :: "DirTarget \<times> (RestorePlan \<times> RestoreResult) option \<times> goerr option \<Rightarrow> (bytes option list \<times> int \<times> int) option" where
  "ex_outcome a = (case a of (d, Some (plan, res), None) \<Rightarrow>
     Some (map (file_at (dir_fs d)) [[''a''], [''x''], [''x.sql'']], rs_Restored res, rs_SkippedConflicts res) | _ \<Rightarrow> None)"

theorem restore_writes_the_records_witness:
  "\<exists>d' plan res ws. ApplyStreaming (walk_of [ex_rec SourceKV ''a'', ex_rec SourceKV ''x''] None)
       (ex_reader [ex_rec SourceKV ''a'', ex_rec SourceKV ''x'']) dir_target ex_out True = (d', Some (plan, res), None)
     \<and> file_at (dir_fs d') = file_at (dir_fs ex_out) ++ written_files (concat ws)
     \<and> rs_Restored res = 1 \<and> length (filter (\<lambda>w. w \<noteq> []) ws) = 1"
proof -
  let ?recs = "[ex_rec SourceKV ''a'', ex_rec SourceKV ''x'']"
  let ?A = "ApplyStreaming (walk_of ?recs None) (ex_reader ?recs) dir_target ex_out True"
  let ?R = "RestoreApply (ex_reader ?recs) dir_target ex_out True"
  have f: "faults (dir_fs ex_out) = 0" by code_simp
  have d: "distinct (map sr_Name (rd_Records (ex_reader ?recs)))" by (simp add: ex_reader_def ex_rec_def)
  have r: "rd_Records (ex_reader recs) = recs" for recs by (simp add: ex_reader_def)
  have "ex_outcome ?R = Some ([Some [], Some (bytes_of SourceKV), None], 1, 1)"
    unfolding RestoreApply_def applyRecords_fold by code_simp
  then obtain d' plan res where a: "?R = (d', Some (plan, res), None)" "rs_Restored res = 1"
    by (cases ?R) (auto simp: ex_outcome_def split: option.splits prod.splits)
  then have "?A = (d', Some (forget_writes plan, res), None)"
    using dir_pure.apply_eq_streaming [OF d, of ex_out True] unfolding r by simp
  then show ?thesis using restore_writes_the_records [OF f, of ?recs None "ex_reader ?recs" d' "forget_writes plan" res None] a(2)
    by (intro exI [of _ d'] exI [of _ "forget_writes plan"] exI [of _ res]) auto
qed

text \<open>
  Two records that share a name: a database and a key of a namespace. A restore that holds the records in
  memory finds a record by its name, and gives the file of each the value of the last of them.
\<close>
lemma apply_confuses_equal_names:
  "ex_outcome (RestoreApply (ex_reader [ex_rec SourceD1 ''x'', ex_rec SourceKV ''x'']) dir_target ex_out True)
     = Some ([Some [], Some (bytes_of SourceKV), Some (bytes_of SourceKV)], 2, 0)"
  unfolding RestoreApply_def applyRecords_fold by code_simp

end
