(* ===== verification/Report.thy ===== *)
theory Report
  imports CanonJson
begin

text \<open>
  \<open>internal/format/report.go\<close>: the signed assurance report. The strict parser works on the position and
  the bytes that are left, so that a message names the byte the code names; an object is the list of its
  members in the order of the file. Parsing ends because every step takes at least one byte.
\<close>

section \<open>Values and limits\<close>

definition ReportSignaturePrefix :: string where "ReportSignaturePrefix = ''edmldsa1:''"
definition reportSignatureLen :: nat where "reportSignatureLen = 64 + 4627"
definition maxReportDepth :: nat where "maxReportDepth = 256"
definition maxSafeInteger :: int where "maxSafeInteger = 2 ^ 53 - 1"

datatype rval =
    RNull
  | RBool bool
  | RInt int
  | RString string
  | RArray "rval list"
  | RObject "(string \<times> rval) list"

record ReportPeriod =
  rp_FromSeconds :: int
  rp_ToSeconds :: int

record VerifiedReport =
  vr_Kind :: string
  vr_GeneratedAt :: string
  vr_PointInTime :: bool
  vr_Period :: "ReportPeriod option"
  vr_SignedBytes :: bytes

definition reportSignedMembers :: "string list" where
  "reportSignedMembers = [''kind'', ''generatedAt'', ''period'', ''data'']"

definition isReportSignedMember :: "string \<Rightarrow> bool" where
  "isReportSignedMember k \<longleftrightarrow> k \<in> set reportSignedMembers"

section \<open>The strict parser\<close>

type_synonym pin = "nat \<times> string"

definition adv :: "pin \<Rightarrow> pin" where
  "adv p = (fst p + 1, tl (snd p))"

definition syntaxErr :: "goarg \<Rightarrow> pin \<Rightarrow> goerr" where
  "syntaxErr what p = coded ExitUsage (Errorf ''the report file is not valid JSON: %s at byte %d'' [what, AInt (int (fst p))])"

definition report_space :: "char \<Rightarrow> bool" where
  "report_space c \<longleftrightarrow> c = CHR '' '' \<or> c = CHR 0x09 \<or> c = CHR 0x0A \<or> c = CHR 0x0D"

definition skipSpace :: "pin \<Rightarrow> pin" where
  "skipSpace p = (fst p + length (takeWhile report_space (snd p)), dropWhile report_space (snd p))"

definition at_char :: "char \<Rightarrow> pin \<Rightarrow> bool" where
  "at_char c p \<longleftrightarrow> snd p \<noteq> [] \<and> hd (snd p) = c"

definition digits :: "pin \<Rightarrow> nat \<times> pin" where
  "digits p = (length (takeWhile is_digit (snd p)),
     (fst p + length (takeWhile is_digit (snd p)), dropWhile is_digit (snd p)))"

text \<open>The fraction and the exponent: whether one was there, and what follows it.\<close>

definition number_frac :: "pin \<Rightarrow> goerr + bool \<times> pin" where
  "number_frac p =
     (if at_char (CHR ''.'') p then
        (case digits (adv p) of (n, q) \<Rightarrow> if n = 0 then Inl (syntaxErr (AStr ''malformed number'') q) else Inr (True, q))
      else Inr (False, p))"

definition number_exp :: "pin \<Rightarrow> goerr + bool \<times> pin" where
  "number_exp p =
     (if at_char (CHR ''e'') p \<or> at_char (CHR ''E'') p then
        (let p1 = adv p; p2 = (if at_char (CHR ''+'') p1 \<or> at_char (CHR ''-'') p1 then adv p1 else p1)
         in case digits p2 of (n, q) \<Rightarrow> if n = 0 then Inl (syntaxErr (AStr ''malformed number'') q) else Inr (True, q))
      else Inr (False, p))"

definition number_int :: "pin \<Rightarrow> goerr + pin" where
  "number_int p =
     (let p1 = (if at_char (CHR ''-'') p then adv p else p)
      in if at_char (CHR ''0'') p1 then Inr (adv p1)
         else if snd p1 \<noteq> [] \<and> is_digit (hd (snd p1)) then Inr (snd (digits p1))
         else Inl (syntaxErr (AStr ''malformed number'') p1))"

definition report_number :: "pin \<Rightarrow> goerr + rval \<times> pin" where
  "report_number p =
     rbind (number_int p) (\<lambda>p1.
     rbind (number_frac p1) (\<lambda>(frac, p2).
     rbind (number_exp p2) (\<lambda>(exponent, q).
       let lit = take (fst q - fst p) (snd p)
       in if frac \<or> exponent \<or> lit = ''-0'' then
            Inl (coded ExitUnverified (Errorf ''the report holds the number %s, which is not written as a plain integer. The engine writes integers only, in plain decimal, so it did not write this report'' [AStr lit]))
          else (case parse_int64 lit of
                  None \<Rightarrow> Inl (coded ExitUnverified (Errorf ''the report holds the integer %s, whose magnitude is over 2^53 - 1. The engine signs integers up to that magnitude only, so it cannot have signed this report'' [AStr lit]))
                | Some n \<Rightarrow>
                    if n > maxSafeInteger \<or> n < - maxSafeInteger
                    then Inl (coded ExitUnverified (Errorf ''the report holds the integer %s, whose magnitude is over 2^53 - 1. The engine signs integers up to that magnitude only, so it cannot have signed this report'' [AStr lit]))
                    else Inr (RInt n, q)))))"

definition loneSurrogate :: "nat \<Rightarrow> pin \<Rightarrow> goerr" where
  "loneSurrogate r p = coded ExitUnverified
     (Errorf (''the report holds an unpaired UTF-16 surrogate ('' @ [CHR 0x5C] @ ''u%04x) before byte %d. The engine refuses to sign such a string, so it cannot have signed this report'') [AInt (int r), AInt (int (fst p))])"

definition report_hex4 :: "pin \<Rightarrow> goerr + nat \<times> pin" where
  "report_hex4 p =
     (if length (snd p) < 4 then Inl (syntaxErr (AStr (''short '' @ [CHR 0x5C] @ ''u escape'')) p)
      else (case hex4 (snd p) of
              None \<Rightarrow> Inl (syntaxErr (AStr (''malformed '' @ [CHR 0x5C] @ ''u escape'')) p)
            | Some (n, r) \<Rightarrow> Inr (n, (fst p + 4, r))))"

definition is_surrogate :: "nat \<Rightarrow> bool" where
  "is_surrogate r \<longleftrightarrow> 0xD800 \<le> r \<and> r < 0xE000"

text \<open>\<open>escape\<close> is entered at the backslash.\<close>

definition escape :: "pin \<Rightarrow> goerr + nat \<times> pin" where
  "escape p =
     (let p1 = adv p
      in if snd p1 = [] then Inl (syntaxErr (AStr ''unterminated escape'') p1)
         else (let c = hd (snd p1); p2 = adv p1
               in case simple_escape c of
                    Some e \<Rightarrow> Inr (code e, p2)
                  | None \<Rightarrow>
                      if c \<noteq> CHR ''u'' then Inl (syntaxErr (AVal (Errorf (''invalid escape '' @ [CHR 0x5C] @ ''%c'') [AInt (int (code c))])) p2)
                      else rbind (report_hex4 p2) (\<lambda>(hi, p3).
                        if \<not> is_surrogate hi then Inr (hi, p3)
                        else if hi \<ge> 0xDC00 \<or> \<not> prefix [CHR 0x5C, CHR ''u''] (snd p3) then Inl (loneSurrogate hi p3)
                        else rbind (report_hex4 (adv (adv p3))) (\<lambda>(lo, p4).
                          if utf16_DecodeRune hi lo = RuneError then Inl (loneSurrogate hi p4)
                          else Inr (utf16_DecodeRune hi lo, p4)))))"

lemma adv_shorter: "snd p \<noteq> [] \<Longrightarrow> length (snd (adv p)) < length (snd p)"
  by (simp add: adv_def)

lemma adv_le: "length (snd (adv p)) \<le> length (snd p)"
  by (simp add: adv_def)

lemma report_hex4_shorter: "report_hex4 p = Inr (n, q) \<Longrightarrow> length (snd q) < length (snd p)"
  by (auto simp: report_hex4_def split: if_splits option.splits dest: hex4_shorter)

lemma escape_shorter:
  assumes "escape p = Inr (r, q)" "snd p \<noteq> []"
  shows "length (snd q) < length (snd p)"
proof -
  have a: "length (snd (adv (adv p'))) \<le> length (snd p')" for p' by (simp add: adv_def)
  have b: "length (snd (adv p)) < length (snd p)" by (rule adv_shorter [OF assms(2)])
  show ?thesis using assms(1) b a adv_le [of "adv p"]
    by (auto simp: escape_def Let_def split: if_splits option.splits dest!: report_hex4_shorter)
       (metis le_less_trans less_le_trans less_trans)+
qed

text \<open>One step of the loop of \<open>str\<close>, not at the closing quote.\<close>

definition str_char :: "pin \<Rightarrow> goerr + string \<times> pin" where
  "str_char p =
     (if snd p = [] then Inl (syntaxErr (AStr ''unterminated string'') p)
      else if code (hd (snd p)) < 0x20 then Inl (syntaxErr (AStr ''unescaped control character in a string'') p)
      else if hd (snd p) = CHR 0x5C then rbind (escape p) (\<lambda>(r, q). Inr (encode_rune r, q))
      else (case decode_rune (snd p) of (r, width) \<Rightarrow> Inr (encode_rune r, (fst p + width, drop width (snd p)))))"

lemma str_char_shorter:
  assumes "str_char p = Inr (t, q)"
  shows "length (snd q) < length (snd p)"
proof -
  have ne: "snd p \<noteq> []" using assms by (auto simp: str_char_def)
  show ?thesis
  proof (cases "hd (snd p) = CHR 0x5C")
    case True
    then obtain r where "escape p = Inr (r, q)" using assms ne by (auto simp: str_char_def split: if_splits)
    then show ?thesis using ne by (rule escape_shorter)
  next
    case False
    then have "q = (fst p + snd (decode_rune (snd p)), drop (snd (decode_rune (snd p))) (snd p))"
      using assms ne by (simp add: str_char_def split: if_splits prod.splits)
    moreover have "0 < length (snd p)" using ne by simp
    ultimately show ?thesis using decode_rune_width [OF ne] by simp
  qed
qed

function str_loop :: "string \<Rightarrow> pin \<Rightarrow> goerr + string \<times> pin" where
  "str_loop sb p =
     (if at_char (CHR 0x22) p then Inr (sb, adv p)
      else (case str_char p of Inl e \<Rightarrow> Inl e | Inr (t, q) \<Rightarrow> str_loop (sb @ t) q))"
  by auto
termination
  by (relation "measure (\<lambda>(sb, p). length (snd p))") (auto dest: str_char_shorter)

declare str_loop.simps [simp del]

definition report_str :: "pin \<Rightarrow> goerr + string \<times> pin" where
  "report_str p = str_loop [] (adv p)"

lemma at_char_shorter: "at_char c p \<Longrightarrow> length (snd (adv p)) < length (snd p)"
  by (simp add: at_char_def adv_shorter)

lemma str_loop_shorter: "str_loop sb p = Inr (s, q) \<Longrightarrow> length (snd q) < length (snd p)"
proof (induction sb p rule: str_loop.induct)
  case (1 sb p)
  show ?case
  proof (cases "at_char (CHR 0x22) p")
    case True
    then show ?thesis using 1(2) at_char_shorter [OF True] by (simp add: str_loop.simps)
  next
    case False
    then obtain t r where c: "str_char p = Inr (t, r)" "str_loop (sb @ t) r = Inr (s, q)"
      using 1(2) by (auto simp: str_loop.simps [of sb p] split: sum.splits prod.splits)
    have "length (snd q) < length (snd r)" by (rule 1(1) [OF False c(1) refl c(2)])
    then show ?thesis using str_char_shorter [OF c(1)] by linarith
  qed
qed

lemma report_str_shorter: "report_str p = Inr (s, q) \<Longrightarrow> length (snd q) < length (snd p)"
  using adv_le [of p] by (auto simp: report_str_def dest!: str_loop_shorter)


definition dup_member :: "string \<Rightarrow> goerr" where
  "dup_member k = coded ExitUnverified (Errorf ''the report repeats the member name %q in one object. Two readers can take different values from such a file, and the engine never writes one'' [AStr k])"

definition advn :: "nat \<Rightarrow> pin \<Rightarrow> pin" where
  "advn n p = (fst p + n, drop n (snd p))"

text \<open>\<open>object\<close> and \<open>array\<close> are entered behind the opening bracket.\<close>

function report_value :: "nat \<Rightarrow> pin \<Rightarrow> goerr + rval \<times> pin"
  and report_object :: "nat \<Rightarrow> pin \<Rightarrow> goerr + rval \<times> pin"
  and report_members :: "nat \<Rightarrow> (string \<times> rval) list \<Rightarrow> pin \<Rightarrow> goerr + rval \<times> pin"
  and report_array :: "nat \<Rightarrow> pin \<Rightarrow> goerr + rval \<times> pin"
  and report_elements :: "nat \<Rightarrow> rval list \<Rightarrow> pin \<Rightarrow> goerr + rval \<times> pin" where
  "report_value lvl p0 =
     (if lvl > maxReportDepth then Inl (coded ExitUsage (Errorf ''the report file nests deeper than %d levels'' [AInt (int maxReportDepth)]))
      else let p = skipSpace p0
        in if snd p = [] then Inl (syntaxErr (AStr ''unexpected end of input'') p)
           else let c = hd (snd p)
             in if c = CHR 0x7B then report_object lvl (adv p)
                else if c = CHR 0x5B then report_array lvl (adv p)
                else if c = CHR 0x22 then rbind (report_str p) (\<lambda>(s, q). Inr (RString s, q))
                else if c = CHR ''-'' \<or> is_digit c then report_number p
                else if prefix ''true'' (snd p) then Inr (RBool True, advn 4 p)
                else if prefix ''false'' (snd p) then Inr (RBool False, advn 5 p)
                else if prefix ''null'' (snd p) then Inr (RNull, advn 4 p)
                else Inl (syntaxErr (AVal (Errorf ''unexpected character %q'' [AInt (int (code c))])) p))"
| "report_object lvl p0 =
     (let p = skipSpace p0
      in if at_char (CHR 0x7D) p then Inr (RObject [], adv p) else report_members lvl [] p)"
| "report_members lvl obj p0 =
     (let p = skipSpace p0
      in if \<not> at_char (CHR 0x22) p then Inl (syntaxErr (AStr ''expected a member name'') p)
         else (case report_str p of
                 Inl e \<Rightarrow> Inl e
               | Inr (k, p1) \<Rightarrow>
                   if k \<in> fst ` set obj then Inl (dup_member k)
                   else let p2 = skipSpace p1
                     in if \<not> at_char (CHR '':'') p2 then Inl (syntaxErr (AStr (''expected '' @ [CHR 0x27, CHR '':'', CHR 0x27])) p2)
                        else (case report_value (lvl + 1) (adv p2) of
                                Inl e \<Rightarrow> Inl e
                              | Inr (v, p3) \<Rightarrow>
                                  let p4 = skipSpace p3; obj' = obj @ [(k, v)]
                                  in if snd p4 = [] then Inl (syntaxErr (AStr ''unexpected end of input in an object'') p4)
                                     else if hd (snd p4) = CHR '','' then report_members lvl obj' (adv p4)
                                     else if hd (snd p4) = CHR 0x7D then Inr (RObject obj', adv p4)
                                     else Inl (syntaxErr (AStr (''expected '' @ [CHR 0x27, CHR '','', CHR 0x27] @ '' or '' @ [CHR 0x27, CHR 0x7D, CHR 0x27])) p4))))"
| "report_array lvl p0 =
     (let p = skipSpace p0
      in if at_char (CHR 0x5D) p then Inr (RArray [], adv p) else report_elements lvl [] p)"
| "report_elements lvl arr p =
     (case report_value (lvl + 1) p of
        Inl e \<Rightarrow> Inl e
      | Inr (v, p3) \<Rightarrow>
          let p4 = skipSpace p3; arr' = arr @ [v]
          in if snd p4 = [] then Inl (syntaxErr (AStr ''unexpected end of input in an array'') p4)
             else if hd (snd p4) = CHR '','' then report_elements lvl arr' (adv p4)
             else if hd (snd p4) = CHR 0x5D then Inr (RArray arr', adv p4)
             else Inl (syntaxErr (AStr (''expected '' @ [CHR 0x27, CHR '','', CHR 0x27] @ '' or '' @ [CHR 0x27, CHR 0x5D, CHR 0x27])) p4))"
  by pat_completeness auto

lemma skipSpace_le: "length (snd (skipSpace p)) \<le> length (snd p)"
  by (simp add: skipSpace_def length_dropWhile_le)

lemma digits_le: "length (snd (snd (digits p))) \<le> length (snd p)"
  by (simp add: digits_def length_dropWhile_le)

lemma digits_shorter: "snd p \<noteq> [] \<Longrightarrow> is_digit (hd (snd p)) \<Longrightarrow> length (snd (snd (digits p))) < length (snd p)"
  by (cases "snd p") (simp_all add: digits_def length_dropWhile_le le_imp_less_Suc)

lemma number_int_shorter: "number_int p = Inr q \<Longrightarrow> length (snd q) < length (snd p)"
  using adv_le [of p] digits_shorter [of p] digits_shorter [of "adv p"] at_char_shorter [of "CHR ''0''" "adv p"]
    at_char_shorter [of "CHR ''0''" p]
  by (auto simp: number_int_def Let_def split: if_splits)

lemma number_frac_le: "number_frac p = Inr (b, q) \<Longrightarrow> length (snd q) \<le> length (snd p)"
  using adv_le [of p] digits_le [of "adv p"]
  by (auto simp: number_frac_def split: if_splits prod.splits)

lemma number_exp_le: "number_exp p = Inr (b, q) \<Longrightarrow> length (snd q) \<le> length (snd p)"
  using adv_le [of p] adv_le [of "adv p"] digits_le [of "adv p"] digits_le [of "adv (adv p)"]
  by (auto simp: number_exp_def Let_def split: if_splits prod.splits)

lemma report_number_shorter:
  assumes "report_number p = Inr (v, q)"
  shows "length (snd q) < length (snd p)"
proof -
  obtain p1 a p2 b where "number_int p = Inr p1" "number_frac p1 = Inr (a, p2)" "number_exp p2 = Inr (b, q)"
    using assms by (auto simp: report_number_def Let_def split: if_splits option.splits)
  then show ?thesis using number_int_shorter [of p p1] number_frac_le [of p1 a p2] number_exp_le [of p2 b q] by linarith
qed

lemma advn_le: "length (snd (advn n p)) \<le> length (snd p)"
  by (simp add: advn_def)


text \<open>Whatever the parser returns, it has taken at least one byte; so every call is on a shorter text.\<close>

abbreviation "report_dom \<equiv> report_value_report_object_report_members_report_array_report_elements_dom"

lemma report_shorter:
  "report_dom (Inl (Inl (d, p))) \<Longrightarrow> report_value d p = Inr (v, q) \<Longrightarrow> length (snd q) < length (snd p)"
  "report_dom (Inl (Inr (d, p))) \<Longrightarrow> report_object d p = Inr (v, q) \<Longrightarrow> length (snd q) < length (snd p)"
  "report_dom (Inr (Inl (d, obj, p))) \<Longrightarrow> report_members d obj p = Inr (v, q) \<Longrightarrow> length (snd q) < length (snd p)"
  "report_dom (Inr (Inr (Inl (d, p)))) \<Longrightarrow> report_array d p = Inr (v, q) \<Longrightarrow> length (snd q) < length (snd p)"
  "report_dom (Inr (Inr (Inr (d, arr, p)))) \<Longrightarrow> report_elements d arr p = Inr (v, q) \<Longrightarrow> length (snd q) < length (snd p)"
proof (induction d p and d p and d obj p and d p and d arr p arbitrary: v q and v q and v q and v q and v q
    rule: report_value_report_object_report_members_report_array_report_elements.pinduct)
  case (1 d p0)
  let ?p = "skipSpace p0"
  have l: "length (snd ?p) \<le> length (snd p0)" by (rule skipSpace_le)
  have d: "\<not> maxReportDepth < d" "snd ?p \<noteq> []"
    using 1(4) by (auto simp: report_value.psimps [OF 1(1)] Let_def split: if_splits)
  have a: "length (snd (adv ?p)) < length (snd ?p)" by (rule adv_shorter [OF d(2)])
  consider "report_object d (adv ?p) = Inr (v, q)" "hd (snd ?p) = CHR 0x7B"
    | "report_array d (adv ?p) = Inr (v, q)" "hd (snd ?p) = CHR 0x5B"
    | s where "report_str ?p = Inr (s, q)" | "report_number ?p = Inr (v, q)"
    | "q = advn 4 ?p" | "q = advn 5 ?p"
    using 1(4) d by (auto simp: report_value.psimps [OF 1(1)] Let_def split: if_splits)
  then show ?case
  proof cases
    case 1
    then show ?thesis using "1.IH"(1) [OF d(1) refl d(2) refl] a l by fastforce
  next
    case 2
    then show ?thesis using "1.IH"(2) [OF d(1) refl d(2) refl] a l by fastforce
  next
    case 3
    then show ?thesis using report_str_shorter l by fastforce
  next
    case 4
    then show ?thesis using report_number_shorter l by fastforce
  next
    case 5
    then show ?thesis using d(2) l by (cases "snd ?p") (auto simp: advn_def)
  next
    case 6
    then show ?thesis using d(2) l by (cases "snd ?p") (auto simp: advn_def)
  qed
next
  case (2 d p0)
  then show ?case using skipSpace_le [of p0] at_char_shorter [of "CHR 0x7D" "skipSpace p0"]
    by (fastforce simp: report_object.psimps [OF 2(1)] Let_def split: if_splits)
next
  case (3 d obj p0)
  let ?p = "skipSpace p0"
  obtain k p1 v3 p3 where s: "at_char (CHR 0x22) ?p" "report_str ?p = Inr (k, p1)" "k \<notin> fst ` set obj"
      "at_char (CHR '':'') (skipSpace p1)" "report_value (d + 1) (adv (skipSpace p1)) = Inr (v3, p3)"
      "snd (skipSpace p3) \<noteq> []"
    using 3(4) by (auto simp: report_members.psimps [OF 3(1)] Let_def split: if_splits sum.splits prod.splits)
  have "length (snd p3) < length (snd (adv (skipSpace p1)))"
    by (rule "3.IH"(1) [OF refl _ s(2) refl s(3) refl]) (use s in auto)
  then have l: "length (snd (adv (skipSpace p3))) < length (snd p0)"
    using skipSpace_le [of p0] report_str_shorter [OF s(2)] skipSpace_le [of p1] adv_le [of "skipSpace p1"]
      skipSpace_le [of p3] adv_le [of "skipSpace p3"] by linarith
  consider "q = adv (skipSpace p3)"
    | "report_members d (obj @ [(k, v3)]) (adv (skipSpace p3)) = Inr (v, q)" "hd (snd (skipSpace p3)) = CHR '',''"
    using 3(4) s by (auto simp: report_members.psimps [OF 3(1)] Let_def split: if_splits)
  then show ?case
  proof cases
    case 1
    then show ?thesis using l by simp
  next
    case 2
    have "length (snd q) < length (snd (adv (skipSpace p3)))"
      by (rule "3.IH"(2) [OF refl _ s(2) refl s(3) refl _ s(5) refl refl refl s(6) 2(2) 2(1)]) (use s in auto)
    then show ?thesis using l by linarith
  qed
next
  case (4 d p0)
  then show ?case using skipSpace_le [of p0] at_char_shorter [of "CHR 0x5D" "skipSpace p0"]
    by (fastforce simp: report_array.psimps [OF 4(1)] Let_def split: if_splits)
next
  case (5 d arr p)
  obtain v3 p3 where s: "report_value (d + 1) p = Inr (v3, p3)" "snd (skipSpace p3) \<noteq> []"
    using 5(4) by (auto simp: report_elements.psimps [OF 5(1)] Let_def split: if_splits sum.splits prod.splits)
  have l: "length (snd (adv (skipSpace p3))) < length (snd p)"
    using "5.IH"(1) [OF s(1)] skipSpace_le [of p3] adv_le [of "skipSpace p3"] by linarith
  consider "q = adv (skipSpace p3)"
    | "report_elements d (arr @ [v3]) (adv (skipSpace p3)) = Inr (v, q)" "hd (snd (skipSpace p3)) = CHR '',''"
    using 5(4) s by (auto simp: report_elements.psimps [OF 5(1)] Let_def split: if_splits)
  then show ?case
  proof cases
    case 1
    then show ?thesis using l by simp
  next
    case 2
    have "length (snd q) < length (snd (adv (skipSpace p3)))"
      by (rule "5.IH"(2) [OF s(1) refl refl refl s(2) 2(2) 2(1)])
    then show ?thesis using l by linarith
  qed
qed

termination report_value
proof (relation "measure (\<lambda>x. case x of
    Inl (Inl (d, p)) \<Rightarrow> 4 * length (snd p) | Inl (Inr (d, p)) \<Rightarrow> 4 * length (snd p) + 3
  | Inr (Inl (d, obj, p)) \<Rightarrow> 4 * length (snd p) + 1 | Inr (Inr (Inl (d, p))) \<Rightarrow> 4 * length (snd p) + 3
  | Inr (Inr (Inr (d, arr, p))) \<Rightarrow> 4 * length (snd p) + 1)", goal_cases)
  case (2 d p0 p c)
  then show ?case using skipSpace_le [of p0] adv_shorter [of "skipSpace p0"] by simp
next
  case (3 d p0 p c)
  then show ?case using skipSpace_le [of p0] adv_shorter [of "skipSpace p0"] by simp
next
  case (4 d p0 p)
  then show ?case using skipSpace_le [of p0] by simp
next
  case (5 d obj p0 p b k p1 p2)
  then show ?case using skipSpace_le [of p0] report_str_shorter [of p k p1] skipSpace_le [of p1] adv_le [of p2] by simp
next
  case (6 d obj p0 p b k p1 p2 c v p3 p4 obj')
  then show ?case
    using skipSpace_le [of p0] report_str_shorter [of p k p1] skipSpace_le [of p1] adv_le [of p2] skipSpace_le [of p3]
      adv_le [of p4] report_shorter(1) [of "d + 1" "adv p2" v p3] by simp
next
  case (7 d p0 p)
  then show ?case using skipSpace_le [of p0] by simp
next
  case (9 d arr p b v p3 p4 arr')
  then show ?case
    using skipSpace_le [of p3] adv_le [of p4] report_shorter(1) [of "d + 1" p v p3] by simp
qed simp_all

declare report_value.simps [simp del] report_object.simps [simp del] report_members.simps [simp del]
  report_array.simps [simp del] report_elements.simps [simp del]

section \<open>Reading a file\<close>

definition rlookup :: "string \<Rightarrow> (string \<times> rval) list \<Rightarrow> rval option" where
  "rlookup k obj = map_of obj k"

definition parseReportObject :: "bytes \<Rightarrow> goerr + (string \<times> rval) list" where
  "parseReportObject raw0 =
     (if prefix (bytes_of ''%PDF-'') raw0 then Inl (coded ExitUsage (Errorf ''this is the report PDF, and the PDF does not carry a signature this tool can check: its Signature line states only that the report was signed and with which scheme. The signature covers the report JSON. Each request to the engine generates a new report, so a JSON you fetch now is a separately generated report, not the one this PDF shows, and that JSON can be verified. Take it from the report card's View JSON in the console, or from GET /admin/reports/<kind>. The console offers a compliance evidence pack as a PDF only, so for its JSON fetch GET /admin/reports/evidence-pack?framework=<id>'' []))
      else if prefix [0xFF, 0xFE] raw0 \<or> prefix [0xFE, 0xFF] raw0 then Inl (coded ExitUsage (Errorf ''the report file is UTF-16 text. Save it as UTF-8 and run the command again (a PowerShell > redirect writes UTF-16; use Out-File -Encoding utf8, or Invoke-RestMethod -OutFile)'' []))
      else let raw = (if prefix [0xEF, 0xBB, 0xBF] raw0 then drop 3 raw0 else raw0); s = string_of raw
        in if \<not> ValidString s then Inl (coded ExitUnverified (Errorf ''the report file is not valid UTF-8, so it is not the JSON the engine emitted'' []))
           else let p = skipSpace (0, s)
             in if snd p = [] then Inl (coded ExitUsage (Errorf ''the report file is empty'' []))
                else rbind (report_value 0 p) (\<lambda>(v, p1).
                  let p2 = skipSpace p1
                  in if snd p2 \<noteq> [] then Inl (coded ExitUsage (Errorf ''the report file has content after the JSON value, at byte %d. It holds more than one report, or the copy picked up extra text'' [AInt (int (fst p2))]))
                     else (case v of
                             RObject obj \<Rightarrow>
                               if rlookup ''kind'' obj = None \<and> rlookup ''signature'' obj = None
                               then Inl (coded ExitUsage (Errorf ''the report file is a JSON object with neither a kind nor a signature member, so it is not a report'' []))
                               else Inr obj
                           | _ \<Rightarrow> Inl (coded ExitUsage (Errorf ''the report file holds a JSON value that is not an object, so it is not a report'' [])))))"

section \<open>The canonical text\<close>

definition sortUTF16 :: "(string \<times> 'a) list \<Rightarrow> (string \<times> 'a) list" where
  "sortUTF16 ms = sort_key (\<lambda>m. utf16_key (fst m)) ms"

fun writeReportCanonical :: "rval \<Rightarrow> string" where
  "writeReportCanonical RNull = ''null''"
| "writeReportCanonical (RBool b) = (if b then ''true'' else ''false'')"
| "writeReportCanonical (RInt n) = dec_of_int n"
| "writeReportCanonical (RString s) = writeJSONString s"
| "writeReportCanonical (RArray vs) = canonArray (map writeReportCanonical vs)"
| "writeReportCanonical (RObject ms) = canonObject (sortUTF16 (map (\<lambda>m. (fst m, writeReportCanonical (snd m))) ms))"

section \<open>Verification\<close>

definition reportSignature :: "(string \<times> rval) list \<Rightarrow> goerr + string" where
  "reportSignature obj =
     (case rlookup ''signature'' obj of
        Some (RString s) \<Rightarrow> Inr s
      | None \<Rightarrow> Inl (coded ExitUnverified (Errorf ''the report has no signature, so nothing in it can be verified. The engine returns a report unsigned when it has no signer configured or when signing fails. Treat its figures as informational only'' []))
      | Some RNull \<Rightarrow> Inl (coded ExitUnverified (Errorf ''the report has no signature, so nothing in it can be verified. The engine returns a report unsigned when it has no signer configured or when signing fails. Treat its figures as informational only'' []))
      | _ \<Rightarrow> Inl (coded ExitUnverified (Errorf ''the report's signature member is not a string, so it is not a signature the engine wrote'' [])))"

definition shown_scheme :: "string \<Rightarrow> string" where
  "shown_scheme s =
     (if CHR '':'' \<in> set s then takeWhile (\<lambda>c. c \<noteq> CHR '':'') s @ '':''
      else if length s > 16 then take 16 s @ ''...'' else s)"

definition decodeReportSignature :: "string \<Rightarrow> goerr + bytes" where
  "decodeReportSignature s =
     (if \<not> prefix ReportSignaturePrefix s then
        Inl (coded ExitUnverified (Errorf ''the report signature does not carry the %q scheme tag (it starts %q), so this tool cannot verify it'' [AStr ReportSignaturePrefix, AStr (shown_scheme s)]))
      else rbind (map_err (\<lambda>e. coded ExitUnverified (Errorf ''the report signature is not valid unpadded base64url: %w'' [AWrap e]))
                   (B64Decode (drop (length ReportSignaturePrefix) s))) (\<lambda>sig.
        if length sig \<noteq> reportSignatureLen then
          Inl (coded ExitUnverified (Errorf ''the report signature decodes to %d bytes, and an %s signature is %d bytes (Ed25519 64 + ML-DSA-87 4627). It is truncated or damaged, which is often a copy that lost its end''
            [AInt (int (length sig)), AStr ''edmldsa1'', AInt (int reportSignatureLen)]))
        else Inr sig))"

definition report_string :: "string \<Rightarrow> (string \<times> rval) list \<Rightarrow> string" where
  "report_string k obj = (case rlookup k obj of Some (RString s) \<Rightarrow> s | _ \<Rightarrow> '''')"

text \<open>\<open>p.vals[k].(int64)\<close>, with its second result.\<close>

definition report_int :: "string \<Rightarrow> (string \<times> rval) list \<Rightarrow> int option" where
  "report_int k p = (case rlookup k p of Some (RInt n) \<Rightarrow> Some n | _ \<Rightarrow> None)"

definition report_period :: "rval option \<Rightarrow> ReportPeriod option" where
  "report_period v =
     (case v of
        Some (RObject p) \<Rightarrow>
          (case (report_int ''fromSeconds'' p, report_int ''toSeconds'' p) of
             (Some a, Some b) \<Rightarrow> Some \<lparr>rp_FromSeconds = a, rp_ToSeconds = b\<rparr>
           | _ \<Rightarrow> None)
      | _ \<Rightarrow> None)"

text \<open>The object the signature covers.\<close>

definition signed_view :: "(string \<times> rval) list \<Rightarrow> (string \<times> rval) list" where
  "signed_view obj = map (\<lambda>k. (k, case rlookup k obj of Some v \<Rightarrow> v | None \<Rightarrow> RNull)) reportSignedMembers"

definition verified_report :: "(string \<times> rval) list \<Rightarrow> bytes \<Rightarrow> VerifiedReport" where
  "verified_report obj msg =
     \<lparr>vr_Kind = report_string ''kind'' obj, vr_GeneratedAt = report_string ''generatedAt'' obj,
      vr_PointInTime = (rlookup ''period'' obj = None \<or> rlookup ''period'' obj = Some RNull),
      vr_Period = report_period (rlookup ''period'' obj), vr_SignedBytes = msg\<rparr>"

definition uncovered_member :: "string \<Rightarrow> goerr" where
  "uncovered_member k = coded ExitUnverified (Errorf ''the report has a top-level member %q that the signature does not cover. The engine emits only kind, generatedAt, period, data and signature, so this file is not the report as the engine emitted it'' [AStr k])"

definition missing_member :: "string \<Rightarrow> goerr" where
  "missing_member k = coded ExitUnverified (Errorf ''the report has no %q member, so the signed content cannot be rebuilt. The engine always emits kind, generatedAt, period and data'' [AStr k])"

definition neither_half :: goerr where
  "neither_half = coded ExitUnverified (Errorf ''the report signature did not verify: neither the Ed25519 half nor the ML-DSA-87 half verified under this signer. Either the report was changed after it was signed, or a different signer signed it. Check the signer fingerprint against your recovery sheet'' [])"

definition only_mldsa :: goerr where
  "only_mldsa = coded ExitUnverified (Errorf ''the report signature did not verify: the ML-DSA-87 half verified and the Ed25519 half did not. The Ed25519 part of the report's signature member may be damaged (an edited or badly copied signature), or the Ed25519 half of the --signer file may be damaged or come from a partial signer rotation. Take the report JSON again from the engine and, if it still fails, take another copy of the signer public key (signer.pub) from your recovery kit. Do not rely on the report until both halves verify'' [])"

definition only_ed :: goerr where
  "only_ed = coded ExitUnverified (Errorf ''the report signature did not verify: the Ed25519 half verified and the ML-DSA-87 half did not. The ML-DSA-87 part of the report's signature member may be damaged (an edited or badly copied signature), or the ML-DSA-87 half of the --signer file may be damaged or come from a partial signer rotation. Take the report JSON again from the engine and, if it still fails, take another copy of the signer public key (signer.pub) from your recovery kit. Do not rely on the report until both halves verify'' [])"

definition VerifyReport :: "pk_lib \<Rightarrow> bytes \<Rightarrow> HybridVerifier \<Rightarrow> goerr + VerifiedReport" where
  "VerifyReport L raw verifier =
     rbind (parseReportObject raw) (\<lambda>obj.
     rbind (reportSignature obj) (\<lambda>sigText.
     rbind (loopr (\<lambda>_ k. if k \<noteq> ''signature'' \<and> \<not> isReportSignedMember k
         then Inl (uncovered_member k)
         else Inr ()) () (map fst obj)) (\<lambda>_.
     rbind (loopr (\<lambda>_ k. if rlookup k obj = None
         then Inl (missing_member k) else Inr ()) () reportSignedMembers) (\<lambda>_.
     rbind (decodeReportSignature sigText) (\<lambda>sig.
       let msg = bytes_of (writeReportCanonical (RObject (signed_view obj)))
       in case VerifyEach L verifier msg sig of
            (True, True) \<Rightarrow> Inr (verified_report obj msg)
          | (False, False) \<Rightarrow> Inl neither_half
          | (False, True) \<Rightarrow> Inl only_mldsa
          | (True, False) \<Rightarrow> Inl only_ed)))))"

end
