(* ===== verification/ReportFacts.thy ===== *)
theory ReportFacts
  imports Report
begin

text \<open>
  What the strict report parser and the canonical writer guarantee together: the parser reads back what the
  writer wrote; what it accepts is well formed; and the members a verified report shows are determined by
  the bytes both halves of the signature cover.
\<close>

section \<open>Well-formed reports\<close>

text \<open>
  A value the parser can return at nesting level \<open>d\<close>: strings are UTF-8, integers are safe, member names
  are unique, and nothing nests beyond the limit.
\<close>

fun wf_report :: "nat \<Rightarrow> rval \<Rightarrow> bool" where
  "wf_report d (RInt n) \<longleftrightarrow> d \<le> maxReportDepth \<and> - maxSafeInteger \<le> n \<and> n \<le> maxSafeInteger"
| "wf_report d (RString s) \<longleftrightarrow> d \<le> maxReportDepth \<and> ValidString s"
| "wf_report d (RArray vs) \<longleftrightarrow> d \<le> maxReportDepth \<and> list_all (wf_report (d + 1)) vs"
| "wf_report d (RObject ms) \<longleftrightarrow> d \<le> maxReportDepth \<and> distinct (map fst ms)
     \<and> list_all (\<lambda>m. ValidString (fst m) \<and> wf_report (d + 1) (snd m)) ms"
| "wf_report d v \<longleftrightarrow> d \<le> maxReportDepth"

fun sorted_report :: "rval \<Rightarrow> rval" where
  "sorted_report (RArray vs) = RArray (map sorted_report vs)"
| "sorted_report (RObject ms) = RObject (sortUTF16 (map (\<lambda>m. (fst m, sorted_report (snd m))) ms))"
| "sorted_report v = v"

lemma wf_report_level: "wf_report d v \<Longrightarrow> d \<le> maxReportDepth"
  by (cases v) simp_all

section \<open>The parser on written text\<close>

text \<open>A parser step returns a value and leaves a text; the position is only shown in messages.\<close>

definition yields :: "goerr + 'a \<times> pin \<Rightarrow> 'a \<Rightarrow> string \<Rightarrow> bool" where
  "yields r v t \<longleftrightarrow> (\<exists>j. r = Inr (v, (j, t)))"

lemma yieldsI: "r = Inr (v, (j, t)) \<Longrightarrow> yields r v t"
  by (auto simp: yields_def)

lemma yieldsE:
  assumes "yields r v t"
  obtains j where "r = Inr (v, (j, t))"
  using assms by (auto simp: yields_def)

lemma skipSpace_id: "s = [] \<or> \<not> report_space (hd s) \<Longrightarrow> skipSpace (i, s) = (i, s)"
  by (cases s) (auto simp: skipSpace_def)

lemma skipSpace_cons [simp]: "\<not> report_space c \<Longrightarrow> skipSpace (i, c # s) = (i, c # s)"
  by (simp add: skipSpace_id)

lemma adv_cons [simp]: "adv (i, c # s) = (i + 1, s)"
  by (simp add: adv_def)

lemma at_char_cons [simp]: "at_char c (i, d # s) \<longleftrightarrow> d = c" "\<not> at_char c (i, [])"
  by (simp_all add: at_char_def)

lemma encode_rune_ascii: "code c < 0x80 \<Longrightarrow> encode_rune (code c) = [c]"
  by (simp add: encode_rune_def)

lemma str_char_escape:
  assumes "simple_escape e = Some x" "code x < 0x80"
  shows "yields (str_char (i, CHR 0x5C # e # r)) [x] r"
proof -
  have "escape (i, CHR 0x5C # e # r) = Inr (code x, (i + 1 + 1, r))"
    using assms(1) by (simp add: escape_def Let_def)
  then show ?thesis using encode_rune_ascii [OF assms(2)] by (simp add: str_char_def code_chars yields_def)
qed

lemma str_char_u00:
  assumes "n < 0x80"
  shows "yields (str_char (i, CHR 0x5C # CHR ''u'' # CHR ''0'' # CHR ''0'' # hex_digit (n div 16) # hex_digit (n mod 16) # r))
    [char_of n] r"
proof -
  let ?r = "CHR ''0'' # CHR ''0'' # hex_digit (n div 16) # hex_digit (n mod 16) # r"
  have z: "hex_value (CHR ''0'') = Some 0" by (simp add: hex_value_def)
  have "n div 16 < 16" using assms by simp
  then have "hex4 ?r = Some (n, r)" by (simp add: z hex_value_digit16)
  then have "report_hex4 (i + 1 + 1, ?r) = Inr (n, (i + 1 + 1 + 4, r))" by (simp add: report_hex4_def)
  moreover have "simple_escape (CHR ''u'') = None" by (simp add: simple_escape_def)
  moreover have "\<not> is_surrogate n" using assms by (simp add: is_surrogate_def)
  ultimately have "escape (i, CHR 0x5C # CHR ''u'' # ?r) = Inr (n, (i + 1 + 1 + 4, r))"
    by (simp add: escape_def Let_def)
  moreover have "encode_rune n = [char_of n]" using assms by (simp add: encode_rune_def)
  ultimately show ?thesis by (simp add: str_char_def code_chars yields_def)
qed

lemma str_char_ascii:
  assumes "code c < 0x80"
  shows "write_rune (code c) \<noteq> [] \<and> hd (write_rune (code c)) \<noteq> CHR 0x22
    \<and> yields (str_char (i, write_rune (code c) @ r)) [c] r"
proof -
  have e: "encode_rune (code c) = [c]" by (rule encode_rune_ascii [OF assms])
  consider "code c \<in> {0x22, 0x5C, 0x0A, 0x0D, 0x09, 0x08, 0x0C}"
    | "code c \<notin> {0x22, 0x5C, 0x0A, 0x0D, 0x09, 0x08, 0x0C}" "code c < 0x20"
    | "code c \<notin> {0x22, 0x5C, 0x0A, 0x0D, 0x09, 0x08, 0x0C}" "\<not> code c < 0x20"
    by blast
  then show ?thesis
  proof cases
    case 1
    then have "c \<in> {CHR 0x22, CHR 0x5C, CHR 0x0A, CHR 0x0D, CHR 0x09, CHR 0x08, CHR 0x0C}"
      using code_eqD [of c "CHR 0x22"] code_eqD [of c "CHR 0x5C"] code_eqD [of c "CHR 0x0A"] code_eqD [of c "CHR 0x0D"]
        code_eqD [of c "CHR 0x09"] code_eqD [of c "CHR 0x08"] code_eqD [of c "CHR 0x0C"]
      by (auto simp: code_chars)
    then show ?thesis
      by (auto simp: write_rune_def code_chars simple_escape_def intro!: str_char_escape)
  next
    case 2
    then show ?thesis using str_char_u00 [OF assms, of i r] by (auto simp: write_rune_def)
  next
    case 3
    then have "c \<noteq> CHR 0x22" "c \<noteq> CHR 0x5C" by (auto simp: code_def)
    then show ?thesis using 3 assms e
      by (simp add: write_rune_def str_char_def decode_ascii yields_def)
  qed
qed

lemma str_char_rune:
  assumes "s \<noteq> []" "decode_rune s \<noteq> (RuneError, 1)"
  shows "write_rune (fst (decode_rune s)) \<noteq> [] \<and> hd (write_rune (fst (decode_rune s))) \<noteq> CHR 0x22
    \<and> yields (str_char (i, write_rune (fst (decode_rune s)) @ r)) (take (snd (decode_rune s)) s) r"
proof (cases "code (hd s) < 0x80")
  case True
  then obtain c u where "s = c # u" "code c < 0x80" using assms(1) by (cases s) auto
  then show ?thesis using str_char_ascii [of c i r] by (simp add: decode_ascii)
next
  case hi: False
  let ?w = "snd (decode_rune s)"
  have w: "write_rune (fst (decode_rune s)) = take ?w s"
    using decode_rune_high [OF assms hi] encode_decode [OF assms] by (simp add: write_rune_def)
  obtain c u where s: "s = c # u" "\<not> code c < 0x80" using assms(1) hi by (cases s) auto
  have "1 \<le> ?w" using decode_rune_width [OF assms(1)] by simp
  then obtain u' where tk: "take ?w s = c # u'" using s(1) by (cases ?w) auto
  have c: "c \<noteq> CHR 0x22" "c \<noteq> CHR 0x5C" "\<not> code c < 0x20" using s(2) by (auto simp: code_def)
  have d: "decode_rune (take ?w s @ r) = decode_rune s" by (rule decode_rune_append [OF assms])
  have "length (take ?w s) = ?w" using decode_rune_width [OF assms(1)] by simp
  then have dr: "drop ?w (take ?w s @ r) = r" by simp
  have e: "encode_rune (fst (decode_rune s)) = take ?w s" by (rule encode_decode [OF assms])
  have "str_char (i, take ?w s @ r) = Inr (take ?w s, (i + ?w, r))"
    using c d [unfolded tk] dr [unfolded tk] e [unfolded tk] unfolding tk by (simp add: str_char_def split_beta)
  then show ?thesis using w tk c by (simp add: yieldsI)
qed

lemma str_loop_written:
  "ValidString s \<Longrightarrow> yields (str_loop sb (i, concat (map write_rune (runes s)) @ CHR 0x22 # t)) (sb @ s) t"
proof (induction s arbitrary: sb i rule: ValidString.induct)
  case (1 s)
  show ?case
  proof (cases "s = []")
    case True
    then show ?thesis by (simp add: str_loop.simps yields_def)
  next
    case False
    let ?w = "snd (decode_rune s)"
    have d: "decode_rune s \<noteq> (RuneError, 1)" and v: "ValidString (drop ?w s)"
      using 1(2) False by (auto simp: ValidString.simps [of s] split: if_splits)
    let ?rest = "concat (map write_rune (runes (drop ?w s))) @ CHR 0x22 # t"
    let ?u = "write_rune (fst (decode_rune s))"
    have rs: "concat (map write_rune (runes s)) @ CHR 0x22 # t = ?u @ ?rest"
      using False by (simp add: runes.simps [of s])
    have u: "?u \<noteq> []" "hd ?u \<noteq> CHR 0x22" using str_char_rune [OF False d] by blast+
    obtain j where j: "str_char (i, ?u @ ?rest) = Inr (take ?w s, (j, ?rest))"
      using str_char_rune [OF False d, of i ?rest] by (auto elim: yieldsE)
    have "\<not> at_char (CHR 0x22) (i, ?u @ ?rest)" using u by (cases ?u) auto
    then have "str_loop sb (i, ?u @ ?rest) = str_loop (sb @ take ?w s) (j, ?rest)"
      using j by (simp add: str_loop.simps [of sb])
    moreover have "yields (str_loop (sb @ take ?w s) (j, ?rest)) ((sb @ take ?w s) @ drop ?w s) t"
      by (rule 1(1) [OF False d v])
    ultimately show ?thesis unfolding rs by (simp only: append_assoc append_take_drop_id)
  qed
qed

lemma report_str_written: "ValidString s \<Longrightarrow> yields (report_str (i, writeJSONString s @ t)) s t"
  using str_loop_written [of s "[]" "i + 1" t] by (simp add: report_str_def writeJSONString_def)

lemma at_char_delim:
  assumes "delim t" "c \<noteq> CHR '',''" "c \<noteq> CHR '']''" "c \<noteq> CHR ''}''"
  shows "\<not> at_char c (i, t)"
  using assms by (cases t) (auto simp: delim_def)

lemma at_char_number:
  "delim t \<Longrightarrow> \<not> at_char (CHR ''.'') (i, t)" "delim t \<Longrightarrow> \<not> at_char (CHR ''e'') (i, t)" "delim t \<Longrightarrow> \<not> at_char (CHR ''E'') (i, t)"
  by (erule at_char_delim; simp)+

lemma digits_written:
  assumes "list_all is_digit ds" "delim t"
  shows "digits (i, ds @ t) = (length ds, (i + length ds, t))"
proof -
  have "t = [] \<or> \<not> is_digit (hd t)" using assms(2) by (auto simp: delim_def is_digit_def code_def)
  then show ?thesis using takeWhile_digits [OF assms(1)] by (simp add: digits_def)
qed

lemma number_int_nat:
  assumes "delim t" "\<not> at_char (CHR ''-'') (i, dec_of_nat n @ t)"
  shows "number_int (i, dec_of_nat n @ t) = Inr (i + length (dec_of_nat n), t)"
proof (cases "hd (dec_of_nat n) = CHR ''0''")
  case True
  then have "dec_of_nat n = [CHR ''0'']" by (rule dec_of_nat_hd_zero)
  then show ?thesis by (simp add: number_int_def)
next
  case False
  obtain c r where cr: "dec_of_nat n = c # r" by (cases "dec_of_nat n") auto
  have "is_digit c" using dec_of_nat_digits [of n] cr by simp
  then show ?thesis using digits_written [OF dec_of_nat_digits assms(1), of i n] False assms(2) cr
    by (simp add: number_int_def Let_def)
qed

lemma dec_of_nat_no_minus: "\<not> at_char (CHR ''-'') (i, dec_of_nat n @ t)"
proof -
  obtain c r where cr: "dec_of_nat n = c # r" by (cases "dec_of_nat n") auto
  then have "c \<noteq> CHR ''-''" using dec_of_nat_digits [of n] by (auto simp: is_digit_def code_def)
  then show ?thesis using cr by simp
qed

lemma number_int_minus: "\<not> at_char (CHR ''-'') (i + 1, s) \<Longrightarrow> number_int (i, CHR ''-'' # s) = number_int (i + 1, s)"
  by (simp add: number_int_def)

lemma number_int_written:
  assumes "delim t"
  shows "number_int (i, dec_of_int n @ t) = Inr (i + length (dec_of_int n), t)"
proof (cases "n < 0")
  case True
  have "number_int (i + 1, dec_of_nat (nat (- n)) @ t) = Inr (i + 1 + length (dec_of_nat (nat (- n))), t)"
    by (rule number_int_nat [OF assms dec_of_nat_no_minus])
  moreover have "number_int (i, CHR ''-'' # dec_of_nat (nat (- n)) @ t) = number_int (i + 1, dec_of_nat (nat (- n)) @ t)"
    by (rule number_int_minus [OF dec_of_nat_no_minus])
  ultimately show ?thesis using True by (simp add: dec_of_int_def)
next
  case False
  then show ?thesis using number_int_nat [OF assms dec_of_nat_no_minus, of i "nat n"] by (simp add: dec_of_int_def)
qed

lemma parse_int64_dec_int:
  assumes "- (2 ^ 63) < n" "n < 2 ^ 63"
  shows "parse_int64 (dec_of_int n) = Some n"
proof (cases "n < 0")
  case True
  have l: "int (nat (- n)) \<le> 2 ^ 63" using assms True by simp
  have "parse_int64 (CHR ''-'' # dec_of_nat (nat (- n))) = Some (- int (nat (- n)))"
    using l dec_of_nat_digits [of "nat (- n)"] by (simp add: parse_int64_def del: power_numeral)
  then show ?thesis using True by (simp add: dec_of_int_def)
next
  case False
  have "int (nat n) < 2 ^ 63" using assms False by simp
  then have "nat n < 2 ^ 63" by (metis of_nat_less_iff of_nat_numeral of_nat_power)
  then show ?thesis using False parse_int64_dec [of "nat n"] by (simp add: dec_of_int_def del: power_numeral)
qed

lemma dec_of_int_not_minus_zero: "dec_of_int n \<noteq> ''-0''"
proof (cases "n < 0")
  case True
  have "dec_of_nat (nat (- n)) \<noteq> ''0''"
  proof
    assume "dec_of_nat (nat (- n)) = ''0''"
    then have "nat_of_digits (dec_of_nat (nat (- n))) = nat_of_digits ''0''" by (rule arg_cong)
    moreover have "nat_of_digits ''0'' = 0" by (simp add: nat_of_digits_def code_def)
    ultimately show False using True by simp
  qed
  then show ?thesis using True by (simp add: dec_of_int_def)
next
  case False
  then show ?thesis using dec_of_nat_no_minus [of 0 "nat n" "[]"] by (auto simp: dec_of_int_def)
qed

lemma report_number_written:
  assumes "delim t" "- maxSafeInteger \<le> n" "n \<le> maxSafeInteger"
  shows "yields (report_number (i, dec_of_int n @ t)) (RInt n) t"
proof -
  have "parse_int64 (dec_of_int n) = Some n"
    using assms(2,3) by (intro parse_int64_dec_int) (simp_all add: maxSafeInteger_def)
  then show ?thesis
    using number_int_written [OF assms(1), of i n] at_char_number [OF assms(1)] dec_of_int_not_minus_zero [of n] assms(2,3)
    by (simp add: report_number_def number_frac_def number_exp_def yields_def)
qed

section \<open>Containers\<close>

lemma join_cons: "join sep (a # b # xs) = a @ sep @ join sep (b # xs)"
  by simp

lemma report_space_not: "\<not> report_space (CHR '','')" "\<not> report_space (CHR 0x5D)" "\<not> report_space (CHR 0x7D)"
  "\<not> report_space (CHR 0x22)" "\<not> report_space (CHR '':'')" "\<not> report_space (CHR 0x7B)" "\<not> report_space (CHR 0x5B)"
  by (simp_all add: report_space_def)

text \<open>What every written value is for the parser.\<close>

definition written :: "nat \<Rightarrow> string \<Rightarrow> rval \<Rightarrow> bool" where
  "written d s v \<longleftrightarrow> s \<noteq> [] \<and> \<not> report_space (hd s) \<and> hd s \<noteq> CHR 0x5D
     \<and> (\<forall>i t. delim t \<longrightarrow> yields (report_value d (i, s @ t)) v t)"

lemma report_elements_written:
  assumes "list_all (\<lambda>p. written (d + 1) (fst p) (snd p)) ps" "ps \<noteq> []"
  shows "yields (report_elements d arr (i, join '','' (map fst ps) @ CHR 0x5D # t)) (RArray (arr @ map snd ps)) t"
  using assms
proof (induction ps arbitrary: arr i)
  case (Cons p ps)
  have w: "written (d + 1) (fst p) (snd p)" using Cons.prems(1) by simp
  show ?case
  proof (cases ps)
    case Nil
    have "delim (CHR 0x5D # t)" by (simp add: delim_def)
    then obtain j where "report_value (d + 1) (i, fst p @ CHR 0x5D # t) = Inr (snd p, (j, CHR 0x5D # t))"
      using w unfolding written_def by (blast elim: yieldsE)
    then show ?thesis using Nil
      by (simp add: report_elements.simps [of d arr] report_space_not yields_def)
  next
    case (Cons q qs)
    let ?r = "CHR '','' # join '','' (map fst ps) @ CHR 0x5D # t"
    have "delim ?r" by (simp add: delim_def)
    then obtain j where j: "report_value (d + 1) (i, fst p @ ?r) = Inr (snd p, (j, ?r))"
      using w unfolding written_def by (blast elim: yieldsE)
    have "join '','' (map fst (p # ps)) @ CHR 0x5D # t = fst p @ ?r" using Cons by simp
    moreover have "report_elements d arr (i, fst p @ ?r)
        = report_elements d (arr @ [snd p]) (j + 1, join '','' (map fst ps) @ CHR 0x5D # t)"
      using j by (simp add: report_elements.simps [of d arr] report_space_not)
    moreover have "yields (report_elements d (arr @ [snd p]) (j + 1, join '','' (map fst ps) @ CHR 0x5D # t))
        (RArray ((arr @ [snd p]) @ map snd ps)) t"
      using Cons.IH [of "arr @ [snd p]" "j + 1"] Cons.prems Cons by simp
    ultimately show ?thesis by simp
  qed
qed simp

lemma report_member_written:
  assumes "ValidString k" "written (d + 1) s v" "k \<notin> fst ` set obj" "r \<noteq> []" "hd r = CHR '','' \<or> hd r = CHR 0x7D"
  obtains j where "report_members d obj (i, writeJSONString k @ '':'' @ s @ r) =
     (if hd r = CHR '','' then report_members d (obj @ [(k, v)]) (j, tl r) else Inr (RObject (obj @ [(k, v)]), (j, tl r)))"
proof -
  obtain i1 where s1: "report_str (i, writeJSONString k @ '':'' @ s @ r) = Inr (k, (i1, '':'' @ s @ r))"
    using report_str_written [OF assms(1)] by (blast elim: yieldsE)
  obtain i2 where s2: "report_value (d + 1) (i1 + 1, s @ r) = Inr (v, (i2, r))"
    using assms(2,4,5) unfolding written_def delim_def by (blast elim: yieldsE)
  obtain c u where r: "r = c # u" "\<not> report_space c" "c = CHR '','' \<or> c = CHR 0x7D"
    using assms(4,5) by (cases r) (auto simp: report_space_def)
  have sk: "skipSpace (i, writeJSONString k @ '':'' @ s @ r) = (i, writeJSONString k @ '':'' @ s @ r)"
    by (rule skipSpace_id) (simp add: writeJSONString_def report_space_not)
  have at: "at_char (CHR 0x22) (i, writeJSONString k @ '':'' @ s @ r)" by (simp add: writeJSONString_def)
  have "report_members d obj (i, writeJSONString k @ '':'' @ s @ r) =
     (if hd r = CHR '','' then report_members d (obj @ [(k, v)]) (i2 + 1, tl r) else Inr (RObject (obj @ [(k, v)]), (i2 + 1, tl r)))"
    using s1 s2 r assms(3) sk at
    by (subst report_members.simps) (auto simp: Let_def report_space_not)
  then show thesis by (rule that)
qed

lemma report_members_written:
  assumes "list_all (\<lambda>m. ValidString (fst m) \<and> written (d + 1) (fst (snd m)) (snd (snd m))) ms" "ms \<noteq> []"
    "distinct (map fst obj @ map fst ms)"
  shows "yields (report_members d obj
      (i, join '','' (map (\<lambda>m. writeJSONString (fst m) @ '':'' @ fst (snd m)) ms) @ CHR 0x7D # t))
    (RObject (obj @ map (\<lambda>m. (fst m, snd (snd m))) ms)) t"
  using assms
proof (induction ms arbitrary: obj i)
  case (Cons m ms)
  let ?f = "\<lambda>m. writeJSONString (fst m) @ '':'' @ fst (snd m)"
  have w: "ValidString (fst m)" "written (d + 1) (fst (snd m)) (snd (snd m))" "fst m \<notin> fst ` set obj"
    using Cons.prems by auto
  show ?case
  proof (cases ms)
    case Nil
    obtain j where "report_members d obj (i, ?f m @ CHR 0x7D # t) = Inr (RObject (obj @ [(fst m, snd (snd m))]), (j, t))"
      using report_member_written [OF w, of "CHR 0x7D # t" i] by auto
    then show ?thesis using Nil by (simp add: yields_def)
  next
    case (Cons q qs)
    let ?r = "CHR '','' # join '','' (map ?f ms) @ CHR 0x7D # t"
    obtain j where "report_members d obj (i, ?f m @ ?r)
        = report_members d (obj @ [(fst m, snd (snd m))]) (j, join '','' (map ?f ms) @ CHR 0x7D # t)"
      using report_member_written [OF w, of ?r i] by auto
    moreover have "join '','' (map ?f (m # ms)) @ CHR 0x7D # t = ?f m @ ?r" using Cons by simp
    moreover have "yields (report_members d (obj @ [(fst m, snd (snd m))]) (j, join '','' (map ?f ms) @ CHR 0x7D # t))
        (RObject ((obj @ [(fst m, snd (snd m))]) @ map (\<lambda>m. (fst m, snd (snd m))) ms)) t"
      using Cons.IH [of "obj @ [(fst m, snd (snd m))]" j] Cons.prems Cons by simp
    ultimately show ?thesis by simp
  qed
qed simp

lemma written_start:
  assumes "d \<le> maxReportDepth" "\<not> report_space c"
  shows "report_value d (i, c # s) =
     (if c = CHR 0x7B then report_object d (i + 1, s)
      else if c = CHR 0x5B then report_array d (i + 1, s)
      else if c = CHR 0x22 then rbind (report_str (i, c # s)) (\<lambda>(s, q). Inr (RString s, q))
      else if c = CHR ''-'' \<or> is_digit c then report_number (i, c # s)
      else if prefix ''true'' (c # s) then Inr (RBool True, advn 4 (i, c # s))
      else if prefix ''false'' (c # s) then Inr (RBool False, advn 5 (i, c # s))
      else if prefix ''null'' (c # s) then Inr (RNull, advn 4 (i, c # s))
      else Inl (syntaxErr (AVal (Errorf ''unexpected character %q'' [AInt (int (code c))])) (i, c # s)))"
  using assms by (subst report_value.simps) (simp add: Let_def)

lemma dec_of_int_start:
  obtains c r where "dec_of_int n = c # r" "c = CHR ''-'' \<or> is_digit c"
proof (cases "n < 0")
  case True
  then show thesis using that by (simp add: dec_of_int_def)
next
  case False
  obtain c r where "dec_of_nat (nat n) = c # r" by (cases "dec_of_nat (nat n)") auto
  then show thesis using that dec_of_nat_digits [of "nat n"] False by (simp add: dec_of_int_def)
qed

lemma set_sortUTF16 [simp]: "set (sortUTF16 ms) = set ms"
  by (simp add: sortUTF16_def)

lemma mset_sortUTF16 [simp]: "mset (sortUTF16 ms) = mset ms"
  by (simp add: sortUTF16_def)

lemma insort_key_map_comp: "insort_key k (g x) (map g xs) = map g (insort_key (\<lambda>x. k (g x)) x xs)"
  by (induction xs) simp_all

lemma sort_key_map_comp: "sort_key k (map g xs) = map g (sort_key (\<lambda>x. k (g x)) xs)"
  by (induction xs) (simp_all add: insort_key_map_comp)

lemma sortUTF16_map_snd: "sortUTF16 (map (\<lambda>m. (fst m, f m)) ms) = map (\<lambda>m. (fst m, f m)) (sort_key (\<lambda>m. utf16_key (fst m)) ms)"
  by (simp add: sortUTF16_def sort_key_map_comp)

lemma writtenI:
  "s = c # r \<Longrightarrow> \<not> report_space c \<Longrightarrow> c \<noteq> CHR 0x5D \<Longrightarrow>
     (\<And>i t. delim t \<Longrightarrow> yields (report_value d (i, s @ t)) v t) \<Longrightarrow> written d s v"
  by (simp add: written_def)

lemma yields_map: "yields r v t \<Longrightarrow> yields (rbind r (\<lambda>(s, q). Inr (f s, q))) (f v) t"
  by (auto simp: yields_def)

lemma written_array:
  assumes "d \<le> maxReportDepth" "list_all (\<lambda>p. written (d + 1) (fst p) (snd p)) ps"
  shows "written d (canonArray (map fst ps)) (RArray (map snd ps))"
proof (rule writtenI [of _ "CHR 0x5B"])
  show "canonArray (map fst ps) = CHR 0x5B # tl (canonArray (map fst ps))" by (simp add: canonArray_def)
next
  fix i t
  assume "delim t"
  have v: "report_value d (i, canonArray (map fst ps) @ t) = report_array d (i + 1, join '','' (map fst ps) @ CHR 0x5D # t)"
    using written_start [OF assms(1), of "CHR 0x5B"] by (simp add: canonArray_def report_space_not)
  show "yields (report_value d (i, canonArray (map fst ps) @ t)) (RArray (map snd ps)) t"
  proof (cases ps)
    case Nil
    then show ?thesis unfolding v by (simp add: report_array.simps report_space_not yields_def)
  next
    case (Cons p qs)
    have "written (d + 1) (fst p) (snd p)" using assms(2) Cons by simp
    then obtain c u where c: "fst p = c # u" "\<not> report_space c" "c \<noteq> CHR 0x5D"
      by (cases "fst p") (auto simp: written_def)
    then obtain u' where u: "join '','' (map fst ps) @ CHR 0x5D # t = c # u'" using Cons by (cases qs) auto
    have "report_array d (i + 1, c # u') = report_elements d [] (i + 1, c # u')"
      using c by (simp add: report_array.simps)
    then show ?thesis using report_elements_written [OF assms(2), of "[]" "i + 1" t] Cons
      unfolding v u by simp
  qed
qed (simp_all add: report_space_not)

lemma written_object:
  assumes "d \<le> maxReportDepth" "distinct (map fst ms)"
    "list_all (\<lambda>m. ValidString (fst m) \<and> written (d + 1) (fst (snd m)) (snd (snd m))) ms"
  shows "written d (canonObject (map (\<lambda>m. (fst m, fst (snd m))) ms)) (RObject (map (\<lambda>m. (fst m, snd (snd m))) ms))"
proof (rule writtenI [of _ "CHR 0x7B"])
  let ?s = "canonObject (map (\<lambda>m. (fst m, fst (snd m))) ms)"
  show "?s = CHR 0x7B # tl ?s" by (simp add: canonObject_def)
  fix i t
  assume "delim t"
  let ?b = "join '','' (map (\<lambda>m. writeJSONString (fst m) @ '':'' @ fst (snd m)) ms) @ CHR 0x7D # t"
  have v: "report_value d (i, ?s @ t) = report_object d (i + 1, ?b)"
    using written_start [OF assms(1), of "CHR 0x7B"] by (simp add: canonObject_def report_space_not comp_def)
  show "yields (report_value d (i, ?s @ t)) (RObject (map (\<lambda>m. (fst m, snd (snd m))) ms)) t"
  proof (cases ms)
    case Nil
    then show ?thesis unfolding v by (simp add: report_object.simps report_space_not yields_def)
  next
    case (Cons m qs)
    obtain u where u: "?b = CHR 0x22 # u" using Cons by (cases qs) (auto simp: writeJSONString_def)
    have "report_object d (i + 1, CHR 0x22 # u) = report_members d [] (i + 1, CHR 0x22 # u)"
      by (simp add: report_object.simps report_space_not)
    then show ?thesis using report_members_written [OF assms(3), of "[]" "i + 1" t] Cons assms(2)
      unfolding v u by simp
  qed
qed (simp_all add: report_space_not)

lemma written_string:
  assumes "d \<le> maxReportDepth" "ValidString s"
  shows "written d (writeJSONString s) (RString s)"
proof (rule writtenI [of _ "CHR 0x22"])
  show "writeJSONString s = CHR 0x22 # tl (writeJSONString s)" by (simp add: writeJSONString_def)
  fix i t
  have "report_value d (i, writeJSONString s @ t) = rbind (report_str (i, writeJSONString s @ t)) (\<lambda>(s, q). Inr (RString s, q))"
    using written_start [OF assms(1), of "CHR 0x22"] by (simp add: writeJSONString_def report_space_not)
  then show "yields (report_value d (i, writeJSONString s @ t)) (RString s) t"
    using yields_map [OF report_str_written [OF assms(2)], where f = RString] by simp
qed (simp_all add: report_space_not)

lemma written_int:
  assumes "d \<le> maxReportDepth" "- maxSafeInteger \<le> n" "n \<le> maxSafeInteger"
  shows "written d (dec_of_int n) (RInt n)"
proof -
  obtain c r where c: "dec_of_int n = c # r" "c = CHR ''-'' \<or> is_digit c" by (rule dec_of_int_start)
  then have s: "\<not> report_space c" "c \<noteq> CHR 0x5D" "c \<noteq> CHR 0x7B" "c \<noteq> CHR 0x5B" "c \<noteq> CHR 0x22"
    by (auto simp: report_space_def is_digit_def code_def)
  show ?thesis
  proof (rule writtenI [OF c(1) s(1,2)])
    fix i t
    assume t: "delim t"
    have "report_value d (i, c # r @ t) = report_number (i, c # r @ t)"
      using written_start [OF assms(1) s(1)] s c(2) by simp
    then show "yields (report_value d (i, dec_of_int n @ t)) (RInt n) t"
      using report_number_written [OF t assms(2,3), of i] c(1) by simp
  qed
qed

lemma written_word:
  assumes "d \<le> maxReportDepth"
  shows "written d ''null'' RNull" "written d ''true'' (RBool True)" "written d ''false'' (RBool False)"
proof -
  have sp: "\<not> report_space (CHR ''n'')" "\<not> report_space (CHR ''t'')" "\<not> report_space (CHR ''f'')"
    and dg: "\<not> is_digit (CHR ''n'')" "\<not> is_digit (CHR ''t'')" "\<not> is_digit (CHR ''f'')"
    by (simp_all add: report_space_def is_digit_def code_def)
  note s = written_start [OF assms sp(1)] written_start [OF assms sp(2)] written_start [OF assms sp(3)]
  show "written d ''null'' RNull" "written d ''true'' (RBool True)" "written d ''false'' (RBool False)"
    unfolding written_def using sp dg by (simp_all add: s advn_def yields_def)
qed

lemma written_value: "wf_report d v \<Longrightarrow> written d (writeReportCanonical v) (sorted_report v)"
proof (induction v arbitrary: d rule: writeReportCanonical.induct)
  case (5 vs)
  let ?ps = "map (\<lambda>v. (writeReportCanonical v, sorted_report v)) vs"
  have "list_all (\<lambda>p. written (d + 1) (fst p) (snd p)) ?ps" using 5 by (auto simp: list_all_iff)
  then show ?case using written_array [of d ?ps] 5(2) by (simp add: comp_def)
next
  case (6 ms)
  let ?ms = "map (\<lambda>m. (fst m, writeReportCanonical (snd m), sorted_report (snd m))) (sort_key (\<lambda>m. utf16_key (fst m)) ms)"
  have "list_all (\<lambda>m. ValidString (fst m) \<and> written (d + 1) (fst (snd m)) (snd (snd m))) ?ms"
    using 6 by (auto simp: list_all_iff)
  moreover have "distinct (map fst ?ms)"
    using 6(2) by (simp add: comp_def) (metis mset_eq_imp_distinct_iff mset_map mset_sort)
  ultimately show ?case using written_object [of d ?ms] 6(2) by (simp add: comp_def sortUTF16_map_snd)
qed (auto intro: written_word written_int written_string)

section \<open>The written text is UTF-8\<close>

lemma ValidString_append: "ValidString s \<Longrightarrow> ValidString t \<Longrightarrow> ValidString (s @ t)"
proof (induction s rule: ValidString.induct)
  case (1 s)
  show ?case
  proof (cases "s = []")
    case False
    let ?w = "snd (decode_rune s)"
    have d: "decode_rune s \<noteq> (RuneError, 1)" and v: "ValidString (drop ?w s)"
      using 1(2) False by (auto simp: ValidString.simps [of s] split: if_splits)
    have "ValidString (take ?w s @ drop ?w s @ t)"
      using 1(1) [OF False d v 1(3)] by (rule ValidString_append_rune [OF False d])
    then show ?thesis by (simp only: append_assoc [symmetric] append_take_drop_id)
  qed (use 1 in simp)
qed

lemma ValidString_ascii: "list_all (\<lambda>c. code c < 0x80) s \<Longrightarrow> ValidString s"
  by (induction s) simp_all

lemma ascii_hex_digit: "n < 16 \<Longrightarrow> code (hex_digit n) < 0x80"
  by (auto simp: hex_digit_def)

lemma ValidString_write_rune: "ValidString (write_rune (fst (decode_rune s)))"
proof -
  have "ValidString (encode_rune (fst (decode_rune s)))" using ValidString_encode [of "[]" s] by simp
  moreover have "n div 16 < 16" if "n < 32" for n :: nat using that by simp
  moreover have "code (CHR ''u'') < 0x80" "code (CHR ''0'') < 0x80" "code (CHR ''n'') < 0x80" "code (CHR ''r'') < 0x80"
    "code (CHR ''t'') < 0x80" "code (CHR ''b'') < 0x80" "code (CHR ''f'') < 0x80"
    by (simp_all add: code_def)
  ultimately show ?thesis by (simp add: write_rune_def ascii_hex_digit code_chars)
qed

lemma ValidString_writeJSONString: "ValidString (writeJSONString s)"
proof -
  have "ValidString (concat (map write_rune (runes s)))"
  proof (induction s rule: runes.induct)
    case (1 s)
    then show ?case
      by (cases "s = []") (auto simp: runes.simps [of s] intro: ValidString_append ValidString_write_rune)
  qed
  from ValidString_append [OF this, of "[CHR 0x22]"] show ?thesis
    by (simp add: writeJSONString_def code_chars)
qed

lemma ValidString_join: "list_all ValidString xs \<Longrightarrow> ValidString (join '','' xs)"
proof (induction xs rule: induct_list012)
  case (3 x y xs)
  have "code (CHR '','') < 0x80" by (simp add: code_def)
  then have "ValidString (CHR '','' # join '','' (y # xs))" using 3 by simp
  then show ?case using 3 ValidString_append by simp
qed simp_all

lemma ValidString_bracket:
  assumes "code a < 0x80" "code b < 0x80" "ValidString s"
  shows "ValidString (a # s @ [b])"
  using assms ValidString_append [OF assms(3), of "[b]"] by simp

lemma ascii_digits: "list_all is_digit s \<Longrightarrow> list_all (\<lambda>c. code c < 0x80) s"
  by (induction s) (simp_all add: is_digit_def)

lemma ValidString_dec_of_int: "ValidString (dec_of_int n)"
proof -
  have "code (CHR ''-'') < 0x80" by (simp add: code_def)
  then show ?thesis by (simp add: dec_of_int_def ValidString_ascii ascii_digits dec_of_nat_digits)
qed

lemma ValidString_written: "ValidString (writeReportCanonical v)"
proof (induction v rule: writeReportCanonical.induct)
  case (5 vs)
  have "ValidString (join '','' (map writeReportCanonical vs))" using 5 by (intro ValidString_join) (auto simp: list_all_iff)
  from ValidString_bracket [OF _ _ this, of "CHR 0x5B" "CHR 0x5D"] show ?case by (simp add: canonArray_def code_def)
next
  case (6 ms)
  have c: "code (CHR '':'') < 0x80" by (simp add: code_def)
  have "list_all ValidString (map (\<lambda>m. writeJSONString (fst m) @ '':'' @ snd m)
      (sortUTF16 (map (\<lambda>m. (fst m, writeReportCanonical (snd m))) ms)))"
    using 6 c by (auto simp: list_all_iff intro!: ValidString_append ValidString_writeJSONString)
  from ValidString_bracket [OF _ _ ValidString_join [OF this], of "CHR 0x7B" "CHR 0x7D"]
  show ?case by (simp add: canonObject_def code_def)
qed (auto simp: ValidString_dec_of_int ValidString_writeJSONString code_def intro!: ValidString_ascii)

section \<open>Reading back what was written\<close>

definition sorted_members :: "(string \<times> rval) list \<Rightarrow> (string \<times> rval) list" where
  "sorted_members obj = sortUTF16 (map (\<lambda>m. (fst m, sorted_report (snd m))) obj)"

lemma rlookup_sorted:
  assumes "distinct (map fst obj)"
  shows "rlookup k (sorted_members obj) = map_option sorted_report (rlookup k obj)"
proof -
  let ?o = "map (\<lambda>m. (fst m, sorted_report (snd m))) obj"
  have d: "distinct (map fst ?o)" using assms by (simp add: comp_def)
  have "mset (map fst (sortUTF16 ?o)) = mset (map fst ?o)" by (simp only: mset_map mset_sortUTF16)
  from mset_eq_imp_distinct_iff [OF this] have "distinct (map fst (sortUTF16 ?o))" using d by blast
  then have "map_of (sortUTF16 ?o) = map_of ?o" using d by (simp add: map_of_inject_set)
  moreover have "map_of ?o k = map_option sorted_report (map_of obj k)" by (induction obj) auto
  ultimately show ?thesis by (simp add: rlookup_def sorted_members_def)
qed

lemma parse_written:
  assumes "wf_report 0 (RObject obj)" "rlookup ''kind'' obj \<noteq> None \<or> rlookup ''signature'' obj \<noteq> None"
  shows "parseReportObject (bytes_of (writeReportCanonical (RObject obj))) = Inr (sorted_members obj)"
proof -
  let ?s = "writeReportCanonical (RObject obj)"
  obtain u where u: "?s = CHR 0x7B # u" by (simp add: canonObject_def)
  have b: "bytes_of ?s = 0x7B # bytes_of u" unfolding u by (simp add: bytes_of_def)
  have np: "\<not> prefix (bytes_of ''%PDF-'') (bytes_of ?s)" "\<not> prefix [0xFF, 0xFE] (bytes_of ?s)"
    "\<not> prefix [0xFE, 0xFF] (bytes_of ?s)" "\<not> prefix [0xEF, 0xBB, 0xBF] (bytes_of ?s)"
    unfolding b by (simp_all add: bytes_of_def)
  have "delim []" by (simp add: delim_def)
  then obtain j where j: "report_value 0 (0, ?s) = Inr (RObject (sorted_members obj), (j, []))"
    using written_value [OF assms(1)] unfolding written_def by (fastforce simp: sorted_members_def elim: yieldsE)
  have sp: "skipSpace (0, ?s) = (0, ?s)" "?s \<noteq> []" "skipSpace (j, []) = (j, [])"
    unfolding u by (simp_all add: report_space_not skipSpace_id)
  have k: "\<not> (rlookup ''kind'' (sorted_members obj) = None \<and> rlookup ''signature'' (sorted_members obj) = None)"
    using assms rlookup_sorted [of obj] by auto
  show ?thesis
    using np j sp k ValidString_written [of "RObject obj"] unfolding parseReportObject_def
    by (simp del: writeReportCanonical.simps)
qed

section \<open>What the parser accepts is well formed\<close>

lemma code_char_small: "n < 256 \<Longrightarrow> code (char_of n) = n"
  by simp

lemma split3: "(n :: nat) = n div 4096 * 4096 + n div 64 mod 64 * 64 + n mod 64"
proof -
  have "n div 4096 = n div 64 div 64" by (simp add: div_mult2_eq [symmetric])
  then show ?thesis using div_mult_mod_eq [of "n div 64" 64] div_mult_mod_eq [of n 64] by linarith
qed

lemma split4: "(n :: nat) = n div 262144 * 262144 + n div 4096 mod 64 * 4096 + n div 64 mod 64 * 64 + n mod 64"
proof -
  have "n div 262144 = n div 4096 div 64" by (simp add: div_mult2_eq [symmetric])
  then show ?thesis using split3 [of n] div_mult_mod_eq [of "n div 4096" 64] by linarith
qed

lemma decode_rune_2:
  assumes "2 \<le> a" "a < 32" "b < 64"
  shows "decode_rune (char_of (0xC0 + a) # char_of (0x80 + b) # t) = (a * 64 + b, 2)"
  using assms code_char_small [of "0xC0 + a"] code_char_small [of "0x80 + b"]
  by (simp add: decode_rune_def Let_def cont_byte_def del: code_char_of)

lemma decode_rune_3:
  assumes "a < 16" "x < 64" "y < 64" "a = 0 \<Longrightarrow> 32 \<le> x" "a = 13 \<Longrightarrow> x \<le> 31"
  shows "decode_rune (char_of (0xE0 + a) # char_of (0x80 + x) # char_of (0x80 + y) # t) = (a * 4096 + x * 64 + y, 3)"
  using assms code_char_small [of "0xE0 + a"] code_char_small [of "0x80 + x"] code_char_small [of "0x80 + y"]
  by (simp add: decode_rune_def Let_def cont_byte_def in_range_def second_range_def del: code_char_of)

lemma decode_rune_4:
  assumes "a \<le> 4" "x < 64" "y < 64" "z < 64" "a = 0 \<Longrightarrow> 16 \<le> x" "a = 4 \<Longrightarrow> x \<le> 15"
  shows "decode_rune (char_of (0xF0 + a) # char_of (0x80 + x) # char_of (0x80 + y) # char_of (0x80 + z) # t)
    = (a * 262144 + x * 4096 + y * 64 + z, 4)"
  using assms code_char_small [of "0xF0 + a"] code_char_small [of "0x80 + x"] code_char_small [of "0x80 + y"] code_char_small [of "0x80 + z"]
  by (simp add: decode_rune_def Let_def cont_byte_def in_range_def second_range_def del: code_char_of)

lemma decode_encode:
  assumes "n \<le> 0x10FFFF" "\<not> (0xD800 \<le> n \<and> n \<le> 0xDFFF)"
  shows "decode_rune (encode_rune n @ t) = (n, length (encode_rune n))"
proof -
  consider (1) "n < 0x80" | (2) "0x80 \<le> n" "n < 0x800" | (3) "0x800 \<le> n" "n < 0x10000" | (4) "0x10000 \<le> n" by linarith
  then show ?thesis
  proof cases
    case 1
    then have "code (char_of n) < 0x80" "code (char_of n) = n" by simp_all
    then show ?thesis using 1 decode_ascii [of "char_of n" t] by (simp add: encode_rune_def del: code_char_of)
  next
    case 2
    have "2 \<le> n div 64" "n div 64 < 32" "n mod 64 < 64" using 2 by simp_all
    from decode_rune_2 [OF this, of t] show ?thesis by (simp add: encode_rune_cases(1) [OF 2])
  next
    case 3
    have b: "n div 4096 < 16" "n div 64 mod 64 < 64" "n mod 64 < 64" using 3 by simp_all
    have "n div 4096 = 0 \<Longrightarrow> 32 \<le> n div 64 mod 64" "n div 4096 = 13 \<Longrightarrow> n div 64 mod 64 \<le> 31"
      using split3 [of n] b 3(1) assms(2) by linarith+
    from decode_rune_3 [OF b this, of t] show ?thesis
      using split3 [of n] by (simp add: encode_rune_cases(2) [OF 3 assms(2)])
  next
    case 4
    have b: "n div 262144 \<le> 4" "n div 4096 mod 64 < 64" "n div 64 mod 64 < 64" "n mod 64 < 64" using assms(1) by simp_all
    have "n div 262144 = 0 \<Longrightarrow> 16 \<le> n div 4096 mod 64" "n div 262144 = 4 \<Longrightarrow> n div 4096 mod 64 \<le> 15"
      using split4 [of n] b 4 assms(1) by linarith+
    from decode_rune_4 [OF b this, of t] show ?thesis
      using split4 [of n] by (simp add: encode_rune_cases(3) [OF 4 assms(1)])
  qed
qed

lemma ValidString_encode_any: "ValidString t \<Longrightarrow> ValidString (encode_rune n @ t)"
proof -
  assume t: "ValidString t"
  define m where "m = (if n > 0x10FFFF \<or> (0xD800 \<le> n \<and> n \<le> 0xDFFF) then RuneError else n)"
  have m: "encode_rune n = encode_rune m" "m \<le> 0x10FFFF" "\<not> (0xD800 \<le> m \<and> m \<le> 0xDFFF)"
    by (auto simp: m_def encode_rune_def RuneError_def)
  have l: "encode_rune m \<noteq> []" "m = RuneError \<Longrightarrow> length (encode_rune m) = 3"
    by (auto simp: encode_rune_def Let_def RuneError_def)
  show ?thesis unfolding m(1) using decode_encode [OF m(2,3), of t] l t
    by (subst ValidString.simps) auto
qed

lemma str_char_encoded: "str_char p = Inr (t, q) \<Longrightarrow> \<exists>n. t = encode_rune n"
  by (auto simp: str_char_def split: if_splits prod.splits)

lemma str_loop_valid: "str_loop sb p = Inr (s, q) \<Longrightarrow> \<exists>u. s = sb @ u \<and> ValidString u"
proof (induction sb p rule: str_loop.induct)
  case (1 sb p)
  show ?case
  proof (cases "at_char (CHR 0x22) p")
    case True
    then show ?thesis using 1(2) by (simp add: str_loop.simps [of sb p])
  next
    case False
    then obtain t r where c: "str_char p = Inr (t, r)" "str_loop (sb @ t) r = Inr (s, q)"
      using 1(2) by (auto simp: str_loop.simps [of sb p] split: sum.splits prod.splits)
    obtain n where "t = encode_rune n" using str_char_encoded [OF c(1)] by blast
    then show ?thesis using 1(1) [OF False c(1) refl c(2)] ValidString_encode_any by auto
  qed
qed

lemma report_str_valid: "report_str p = Inr (s, q) \<Longrightarrow> ValidString s"
  using str_loop_valid [of "[]" "adv p" s q] by (simp add: report_str_def)

lemma report_number_wf: "report_number p = Inr (v, q) \<Longrightarrow> d \<le> maxReportDepth \<Longrightarrow> wf_report d v"
  by (auto simp: report_number_def Let_def split: if_splits option.splits)

lemma report_members_step:
  assumes "report_members d obj p0 = Inr (v, q)"
  obtains k p1 v3 p3 where
    "at_char (CHR 0x22) (skipSpace p0)" "report_str (skipSpace p0) = Inr (k, p1)" "k \<notin> fst ` set obj"
    "at_char (CHR '':'') (skipSpace p1)" "report_value (d + 1) (adv (skipSpace p1)) = Inr (v3, p3)"
    "snd (skipSpace p3) \<noteq> []"
    "hd (snd (skipSpace p3)) = CHR '','' \<and> report_members d (obj @ [(k, v3)]) (adv (skipSpace p3)) = Inr (v, q)
     \<or> hd (snd (skipSpace p3)) = CHR 0x7D \<and> v = RObject (obj @ [(k, v3)]) \<and> q = adv (skipSpace p3)"
  using assms by (subst (asm) report_members.simps) (auto simp: Let_def split: if_splits sum.splits prod.splits)

lemma report_elements_step:
  assumes "report_elements d arr p = Inr (v, q)"
  obtains v3 p3 where
    "report_value (d + 1) p = Inr (v3, p3)" "snd (skipSpace p3) \<noteq> []"
    "hd (snd (skipSpace p3)) = CHR '','' \<and> report_elements d (arr @ [v3]) (adv (skipSpace p3)) = Inr (v, q)
     \<or> hd (snd (skipSpace p3)) = CHR 0x5D \<and> v = RArray (arr @ [v3]) \<and> q = adv (skipSpace p3)"
  using assms by (subst (asm) report_elements.simps) (auto simp: Let_def split: if_splits sum.splits prod.splits)

lemma report_value_step:
  assumes "report_value d p0 = Inr (v, q)"
  obtains "d \<le> maxReportDepth" "snd (skipSpace p0) \<noteq> []" "hd (snd (skipSpace p0)) = CHR 0x7B" "report_object d (adv (skipSpace p0)) = Inr (v, q)"
  | "d \<le> maxReportDepth" "snd (skipSpace p0) \<noteq> []" "hd (snd (skipSpace p0)) = CHR 0x5B" "report_array d (adv (skipSpace p0)) = Inr (v, q)"
  | s where "d \<le> maxReportDepth" "snd (skipSpace p0) \<noteq> []" "hd (snd (skipSpace p0)) = CHR 0x22" "report_str (skipSpace p0) = Inr (s, q)" "v = RString s"
  | "d \<le> maxReportDepth" "snd (skipSpace p0) \<noteq> []" "hd (snd (skipSpace p0)) = CHR ''-'' \<or> is_digit (hd (snd (skipSpace p0)))" "report_number (skipSpace p0) = Inr (v, q)"
  | "d \<le> maxReportDepth" "prefix ''true'' (snd (skipSpace p0))" "v = RBool True" "q = advn 4 (skipSpace p0)"
  | "d \<le> maxReportDepth" "prefix ''false'' (snd (skipSpace p0))" "v = RBool False" "q = advn 5 (skipSpace p0)"
  | "d \<le> maxReportDepth" "prefix ''null'' (snd (skipSpace p0))" "v = RNull" "q = advn 4 (skipSpace p0)"
  using assms by (subst (asm) report_value.simps) (auto simp: Let_def not_less split: if_splits)

lemma report_parsed_wf:
  "report_value d p = Inr (v, q) \<Longrightarrow> wf_report d v"
  "report_object d p = Inr (v, q) \<Longrightarrow> d \<le> maxReportDepth \<Longrightarrow> wf_report d v"
  "report_members d obj p = Inr (v, q) \<Longrightarrow> wf_report d (RObject obj) \<Longrightarrow> wf_report d v"
  "report_array d p = Inr (v, q) \<Longrightarrow> d \<le> maxReportDepth \<Longrightarrow> wf_report d v"
  "report_elements d arr p = Inr (v, q) \<Longrightarrow> wf_report d (RArray arr) \<Longrightarrow> wf_report d v"
proof (induction d p and d p and d obj p and d p and d arr p arbitrary: v q and v q and v q and v q and v q
    rule: report_value_report_object_report_members_report_array_report_elements.induct)
  case (1 d p0)
  from 1(3) show ?case
  proof (cases rule: report_value_step)
    case 1
    then show ?thesis using "1.IH"(1) [OF _ refl _ refl] by simp
  next
    case 2
    then show ?thesis using "1.IH"(2) [OF _ refl _ refl] by simp
  next
    case (3 s)
    then show ?thesis using report_str_valid by simp
  next
    case 4
    then show ?thesis using report_number_wf by blast
  qed simp_all
next
  case (2 d p0)
  then show ?case by (auto simp: report_object.simps [of d p0] Let_def split: if_splits)
next
  case (3 d obj p0)
  from 3(3) obtain k p1 v3 p3 where s: "at_char (CHR 0x22) (skipSpace p0)" "report_str (skipSpace p0) = Inr (k, p1)"
    "k \<notin> fst ` set obj" "at_char (CHR '':'') (skipSpace p1)"
    "report_value (d + 1) (adv (skipSpace p1)) = Inr (v3, p3)" "snd (skipSpace p3) \<noteq> []"
    and e: "hd (snd (skipSpace p3)) = CHR '','' \<and> report_members d (obj @ [(k, v3)]) (adv (skipSpace p3)) = Inr (v, q)
     \<or> hd (snd (skipSpace p3)) = CHR 0x7D \<and> v = RObject (obj @ [(k, v3)]) \<and> q = adv (skipSpace p3)"
    by (rule report_members_step)
  have "wf_report (d + 1) v3" by (rule "3.IH"(1) [OF refl _ s(2) refl s(3) refl _ s(5)]) (use s in auto)
  then have w: "wf_report d (RObject (obj @ [(k, v3)]))" using 3(4) s(3) report_str_valid [OF s(2)] by auto
  from e show ?case
  proof (elim disjE conjE)
    assume c: "hd (snd (skipSpace p3)) = CHR '',''" "report_members d (obj @ [(k, v3)]) (adv (skipSpace p3)) = Inr (v, q)"
    show ?thesis
      by (rule "3.IH"(2) [OF refl _ s(2) refl s(3) refl _ s(5) refl refl refl s(6) c(1) c(2) w]) (use s in auto)
  qed (use w in simp)
next
  case (4 d p0)
  then show ?case by (auto simp: report_array.simps [of d p0] Let_def split: if_splits)
next
  case (5 d arr p)
  from 5(3) obtain v3 p3 where s: "report_value (d + 1) p = Inr (v3, p3)" "snd (skipSpace p3) \<noteq> []"
    and e: "hd (snd (skipSpace p3)) = CHR '','' \<and> report_elements d (arr @ [v3]) (adv (skipSpace p3)) = Inr (v, q)
     \<or> hd (snd (skipSpace p3)) = CHR 0x5D \<and> v = RArray (arr @ [v3]) \<and> q = adv (skipSpace p3)"
    by (rule report_elements_step)
  have w: "wf_report d (RArray (arr @ [v3]))" using "5.IH"(1) [OF s(1)] 5(4) by simp
  from e show ?case
  proof (elim disjE conjE)
    assume c: "hd (snd (skipSpace p3)) = CHR '',''" "report_elements d (arr @ [v3]) (adv (skipSpace p3)) = Inr (v, q)"
    show ?thesis by (rule "5.IH"(2) [OF s(1) refl refl refl s(2) c(1) c(2) w])
  qed (use w in simp)
qed

lemma parse_report_step:
  assumes "parseReportObject raw = Inr obj"
  obtains s q where
    "s = string_of (if prefix [0xEF, 0xBB, 0xBF] raw then drop 3 raw else raw)" "ValidString s"
    "report_value 0 (skipSpace (0, s)) = Inr (RObject obj, q)" "snd (skipSpace q) = []"
    "rlookup ''kind'' obj \<noteq> None \<or> rlookup ''signature'' obj \<noteq> None"
proof -
  let ?s = "string_of (if prefix [0xEF, 0xBB, 0xBF] raw then drop 3 raw else raw)"
  have v: "ValidString ?s" using assms by (simp add: parseReportObject_def Let_def split: if_splits)
  obtain w q where w: "report_value 0 (skipSpace (0, ?s)) = Inr (w, q)"
    using assms by (auto simp: parseReportObject_def Let_def split: if_splits)
  have "snd (skipSpace q) = []" "w = RObject obj" "rlookup ''kind'' obj \<noteq> None \<or> rlookup ''signature'' obj \<noteq> None"
    using assms w by (simp_all add: parseReportObject_def Let_def split: if_splits rval.splits)
  then show thesis using that [OF refl v] w by blast
qed

lemma parse_report_wf:
  assumes "parseReportObject raw = Inr obj"
  shows "wf_report 0 (RObject obj)"
  using assms by (rule parse_report_step) (rule report_parsed_wf(1))

section \<open>What a verified report says\<close>

lemma VerifyReport_step:
  assumes "VerifyReport L raw v = Inr r"
  obtains obj where
    "parseReportObject raw = Inr obj" "set (map fst obj) \<subseteq> insert ''signature'' (set reportSignedMembers)"
    "\<forall>k \<in> set reportSignedMembers. rlookup k obj \<noteq> None"
    "r = verified_report obj (bytes_of (writeReportCanonical (RObject (signed_view obj))))"
proof -
  obtain obj where o: "parseReportObject raw = Inr obj"
    using assms by (auto simp: VerifyReport_def)
  obtain sigText where s1: "reportSignature obj = Inr sigText"
    using assms o by (auto simp: VerifyReport_def)
  have l1: "loopr (\<lambda>_ k. if k \<noteq> ''signature'' \<and> \<not> isReportSignedMember k then Inl (uncovered_member k) else Inr ()) ()
      (map fst obj) = Inr ()"
    and l2: "loopr (\<lambda>_ k. if rlookup k obj = None then Inl (missing_member k) else Inr ()) () reportSignedMembers = Inr ()"
    using assms o s1 by (simp_all add: VerifyReport_def)
  obtain sg where s2: "decodeReportSignature sigText = Inr sg"
    using assms o s1 l1 l2 by (auto simp: VerifyReport_def)
  have r: "(let msg = bytes_of (writeReportCanonical (RObject (signed_view obj)))
       in case VerifyEach L v msg sg of
            (True, True) \<Rightarrow> Inr (verified_report obj msg)
          | (False, False) \<Rightarrow> Inl neither_half
          | (False, True) \<Rightarrow> Inl only_mldsa
          | (True, False) \<Rightarrow> Inl only_ed) = Inr r"
    using assms unfolding VerifyReport_def o s1 s2 rbind_simps l1 l2 .
  have "set (map fst obj) \<subseteq> insert ''signature'' (set reportSignedMembers)"
    using l1 unfolding loopr_unit_all by (force simp: isReportSignedMember_def split: if_splits)
  moreover have "\<forall>k \<in> set reportSignedMembers. rlookup k obj \<noteq> None"
    using l2 unfolding loopr_unit_all by (force split: if_splits)
  moreover have "r = verified_report obj (bytes_of (writeReportCanonical (RObject (signed_view obj))))"
  proof -
    obtain a b where ve: "VerifyEach L v (bytes_of (writeReportCanonical (RObject (signed_view obj)))) sg = (a, b)" by fastforce
    then show ?thesis using r
      by (cases a; cases b) (simp_all add: Let_def del: writeReportCanonical.simps)
  qed
  ultimately show thesis by (rule that [OF o])
qed

lemma rlookup_view: "k \<in> set reportSignedMembers \<Longrightarrow> rlookup k obj \<noteq> None \<Longrightarrow> rlookup k (signed_view obj) = rlookup k obj"
  by (auto simp: signed_view_def rlookup_def map_of_map_restrict)

lemma signed_view_wf:
  assumes "wf_report 0 (RObject obj)"
  shows "wf_report 0 (RObject (signed_view obj))"
proof -
  have k: "ValidString ''kind''" "ValidString ''generatedAt''" "ValidString ''period''" "ValidString ''data''"
    by (simp_all add: code_def)
  have "wf_report 1 (case rlookup k obj of Some v \<Rightarrow> v | None \<Rightarrow> RNull)" for k
    using assms by (auto simp: rlookup_def maxReportDepth_def list_all_iff split: option.splits dest: map_of_SomeD)
  then show ?thesis using k by (simp add: signed_view_def reportSignedMembers_def maxReportDepth_def)
qed

text \<open>What is shown does not depend on the order of members.\<close>

lemma sorted_report_string: "sorted_report v = RString s \<longleftrightarrow> v = RString s" "sorted_report v = RNull \<longleftrightarrow> v = RNull"
  "sorted_report v = RInt i \<longleftrightarrow> v = RInt i"
  by (cases v; simp)+

lemma report_string_sorted:
  "report_string k obj = (case map_option sorted_report (rlookup k obj) of Some (RString s) \<Rightarrow> s | _ \<Rightarrow> '''')"
  by (auto simp: report_string_def split: option.splits rval.splits)

lemma report_int_sorted:
  assumes "distinct (map fst p)"
  shows "report_int k (sorted_members p) = report_int k p"
proof -
  have "report_int k x = Some n \<longleftrightarrow> rlookup k x = Some (RInt n)" for x n
    by (auto simp: report_int_def split: option.splits rval.splits)
  then have "report_int k (sorted_members p) = Some n \<longleftrightarrow> report_int k p = Some n" for n
    using rlookup_sorted [OF assms, of k] by (auto simp: sorted_report_string)
  then show ?thesis by (metis option.exhaust)
qed

lemma report_period_sorted:
  assumes "\<And>p. v = Some (RObject p) \<Longrightarrow> distinct (map fst p)"
  shows "report_period (map_option sorted_report v) = report_period v"
proof (cases "\<exists>p. v = Some (RObject p)")
  case True
  then obtain p where p: "v = Some (RObject p)" by blast
  have e: "report_int k (sorted_members p) = report_int k p" for k
    by (rule report_int_sorted [OF assms [OF p]])
  have "map_option sorted_report v = Some (RObject (sorted_members p))" using p by (simp add: sorted_members_def)
  then show ?thesis using e p by (simp add: report_period_def)
next
  case False
  then show ?thesis by (cases v; cases "the v") (simp_all add: report_period_def)
qed

lemma wf_report_member:
  assumes "wf_report 0 (RObject obj)" "rlookup k obj = Some v"
  shows "wf_report 1 v"
  using assms by (auto simp: rlookup_def list_all_iff dest: map_of_SomeD)

lemma verified_report_members:
  assumes "wf_report 0 (RObject obj)" "wf_report 0 (RObject obj')"
    "\<And>k. k \<in> set reportSignedMembers \<Longrightarrow> map_option sorted_report (rlookup k obj) = map_option sorted_report (rlookup k obj')"
  shows "verified_report obj b = verified_report obj' b"
proof -
  have m: "''kind'' \<in> set reportSignedMembers" "''generatedAt'' \<in> set reportSignedMembers" "''period'' \<in> set reportSignedMembers"
    by (simp_all add: reportSignedMembers_def)
  have d: "distinct (map fst p)" if "wf_report 0 (RObject x)" "rlookup k x = Some (RObject p)" for x k p
    using wf_report_member [OF that] by simp
  have "report_period (rlookup ''period'' obj) = report_period (rlookup ''period'' obj')"
    using report_period_sorted [of "rlookup ''period'' obj"] report_period_sorted [of "rlookup ''period'' obj'"]
      d assms(1,2) assms(3) [OF m(3)] by metis
  moreover have n: "rlookup k x = Some RNull \<longleftrightarrow> map_option sorted_report (rlookup k x) = Some RNull" for k x
    by (auto simp: sorted_report_string)
  have "(rlookup ''period'' obj = None) = (rlookup ''period'' obj' = None)"
    using assms(3) [OF m(3)] by (metis option.map_disc_iff)
  moreover have "(rlookup ''period'' obj = Some RNull) = (rlookup ''period'' obj' = Some RNull)"
    unfolding n assms(3) [OF m(3)] by (rule refl)
  ultimately show ?thesis using assms(3) [OF m(1)] assms(3) [OF m(2)]
    by (simp add: verified_report_def report_string_sorted)
qed

text \<open>
  C16. Two report files that verify, under whatever signers, and whose signatures cover the same bytes show
  the same report: the kind, the time and the period the tool prints are fixed by the signed bytes. No
  second file can be made to read differently under an old signature.
\<close>
theorem signed_bytes_fix_the_report:
  assumes "VerifyReport L raw v = Inr r" "VerifyReport L' raw' v' = Inr r'" "vr_SignedBytes r = vr_SignedBytes r'"
  shows "r = r'"
proof -
  obtain obj where o: "parseReportObject raw = Inr obj" "\<forall>k \<in> set reportSignedMembers. rlookup k obj \<noteq> None"
    "r = verified_report obj (bytes_of (writeReportCanonical (RObject (signed_view obj))))"
    using VerifyReport_step [OF assms(1)] by metis
  obtain obj' where o': "parseReportObject raw' = Inr obj'" "\<forall>k \<in> set reportSignedMembers. rlookup k obj' \<noteq> None"
    "r' = verified_report obj' (bytes_of (writeReportCanonical (RObject (signed_view obj'))))"
    using VerifyReport_step [OF assms(2)] by metis
  have b: "bytes_of (writeReportCanonical (RObject (signed_view obj))) = bytes_of (writeReportCanonical (RObject (signed_view obj')))"
    using assms(3) o(3) o'(3) by (simp only: verified_report_def VerifiedReport.simps)
  have w: "wf_report 0 (RObject obj)" "wf_report 0 (RObject obj')" using parse_report_wf o(1) o'(1) by blast+
  have k: "''kind'' \<in> set reportSignedMembers" by (simp add: reportSignedMembers_def)
  have "parseReportObject (bytes_of (writeReportCanonical (RObject (signed_view obj)))) = Inr (sorted_members (signed_view obj))"
    "parseReportObject (bytes_of (writeReportCanonical (RObject (signed_view obj')))) = Inr (sorted_members (signed_view obj'))"
    using rlookup_view [OF k, of obj] rlookup_view [OF k, of obj'] o(2) o'(2) k
      parse_written [OF signed_view_wf [OF w(1)]] parse_written [OF signed_view_wf [OF w(2)]]
    by (metis (no_types, lifting))+
  then have s: "sorted_members (signed_view obj) = sorted_members (signed_view obj')" using b by simp
  have dv: "distinct (map fst (signed_view obj))" "distinct (map fst (signed_view obj'))"
    using signed_view_wf [OF w(1)] signed_view_wf [OF w(2)] by simp_all
  have "map_option sorted_report (rlookup k obj) = map_option sorted_report (rlookup k obj')" if "k \<in> set reportSignedMembers" for k
    using rlookup_sorted [OF dv(1), of k] rlookup_sorted [OF dv(2), of k] s o(2) o'(2) that
      rlookup_view [OF that, of obj] rlookup_view [OF that, of obj'] by simp
  from verified_report_members [OF w this] show ?thesis using o(3) o'(3) b by simp
qed

section \<open>A report the engine signed is accepted\<close>

lemma writeReportCanonical_sorted: "writeReportCanonical (sorted_report v) = writeReportCanonical v"
proof (induction v rule: writeReportCanonical.induct)
  case (6 ms)
  let ?s = "sort_key (\<lambda>m. utf16_key (fst m)) ms"
  have "sort_key (\<lambda>m. utf16_key (fst m)) (map (\<lambda>m. (fst m, sorted_report (snd m))) ?s) = map (\<lambda>m. (fst m, sorted_report (snd m))) ?s"
    by (rule sort_key_map_id) simp
  then have "writeReportCanonical (sorted_report (RObject ms))
      = canonObject (map (\<lambda>m. (fst m, writeReportCanonical (snd m))) (map (\<lambda>m. (fst m, sorted_report (snd m))) ?s))"
    by (simp only: sorted_report.simps writeReportCanonical.simps sortUTF16_map_snd)
  also have "map (\<lambda>m. (fst m, writeReportCanonical (snd m))) (map (\<lambda>m. (fst m, sorted_report (snd m))) ?s)
      = map (\<lambda>m. (fst m, writeReportCanonical (snd m))) ?s"
    using 6 by simp
  finally show ?case by (simp only: writeReportCanonical.simps sortUTF16_map_snd)
qed (simp_all add: comp_def cong: map_cong)

lemma sorted_report_idem [simp]: "sorted_report (sorted_report v) = sorted_report v"
proof (induction v rule: writeReportCanonical.induct)
  case (6 ms)
  let ?s = "sort_key (\<lambda>m. utf16_key (fst m)) ms"
  have "sort_key (\<lambda>m. utf16_key (fst m)) (map (\<lambda>m. (fst m, sorted_report (snd m))) ?s) = map (\<lambda>m. (fst m, sorted_report (snd m))) ?s"
    by (rule sort_key_map_id) simp
  then have "sorted_report (sorted_report (RObject ms))
      = RObject (map (\<lambda>m. (fst m, sorted_report (snd m))) (map (\<lambda>m. (fst m, sorted_report (snd m))) ?s))"
    by (simp only: sorted_report.simps sortUTF16_map_snd)
  then show ?case using 6 by (simp add: sortUTF16_map_snd)
qed simp_all

definition report_file :: "(string \<times> rval) list \<Rightarrow> bytes \<Rightarrow> (string \<times> rval) list" where
  "report_file view sg = view @ [(''signature'', RString (ReportSignaturePrefix @ B64Encode sg))]"

lemma ascii_b64: "list_all (\<lambda>c. code c < 0x80) (B64Encode b)"
proof -
  have "code (b64_char n) < 0x80" if "n < 64" for n
    using that by (auto simp: b64_char_def code_def)
  then show ?thesis by (auto simp: B64Encode_def b64_encode_def list_all_iff dest!: b64_sextets_lt)
qed

lemma decode_report_signature:
  assumes "length sg = reportSignatureLen"
  shows "decodeReportSignature (ReportSignaturePrefix @ B64Encode sg) = Inr sg"
proof -
  have "B64Decode (B64Encode sg) = Inr sg" by (simp add: B64Decode_def B64Encode_def)
  then show ?thesis using assms unfolding decodeReportSignature_def by simp
qed

lemma report_file_verifies:
  assumes "wf_report 0 (RObject view)" "map fst view = reportSignedMembers" "length sg = reportSignatureLen"
    "VerifyEach L v (bytes_of (writeReportCanonical (RObject view))) sg = (True, True)"
  shows "VerifyReport L (bytes_of (writeReportCanonical (RObject (report_file view sg)))) v
    = Inr (verified_report view (bytes_of (writeReportCanonical (RObject view))))"
proof -
  let ?file = "report_file view sg" and ?sig = "ReportSignaturePrefix @ B64Encode sg"
  let ?obj = "sorted_members ?file"
  have ns: "''signature'' \<notin> set reportSignedMembers" by (simp add: reportSignedMembers_def)
  have "ValidString ?sig" "ValidString ''signature''"
    using ascii_b64 by (auto simp: ReportSignaturePrefix_def code_def intro!: ValidString_append ValidString_ascii)
  then have w: "wf_report 0 (RObject ?file)"
    using assms(1,2) ns by (auto simp: report_file_def maxReportDepth_def)
  have "map_of view ''signature'' = None" using ns assms(2) by (simp add: map_of_eq_None_iff flip: set_map)
  then have lf: "rlookup k ?file = (if k = ''signature'' then Some (RString ?sig) else rlookup k view)" for k
    by (simp add: report_file_def rlookup_def map_add_def split: option.splits)
  have lo: "rlookup k ?obj = (if k = ''signature'' then Some (RString ?sig) else map_option sorted_report (rlookup k view))" for k
    using rlookup_sorted [of ?file k] w lf [of k] by simp
  have p: "parseReportObject (bytes_of (writeReportCanonical (RObject ?file))) = Inr ?obj"
    by (rule parse_written [OF w]) (simp add: lf)
  have present: "rlookup k view \<noteq> None" if "k \<in> set reportSignedMembers" for k
    using that unfolding assms(2) [symmetric] by (simp add: rlookup_def map_of_eq_None_iff)
  have s: "reportSignature ?obj = Inr ?sig" by (simp add: reportSignature_def lo)
  have keys: "set (map fst ?obj) = insert ''signature'' (set reportSignedMembers)"
  proof -
    have "fst ` set view = set reportSignedMembers" using assms(2) by (metis set_map)
    then show ?thesis by (simp add: sorted_members_def report_file_def image_Un image_image)
  qed
  have l1: "loopr (\<lambda>_ k. if k \<noteq> ''signature'' \<and> \<not> isReportSignedMember k then Inl (uncovered_member k) else Inr ()) ()
      (map fst ?obj) = Inr ()"
    unfolding loopr_unit_all keys by (auto simp: isReportSignedMember_def)
  have l2: "loopr (\<lambda>_ k. if rlookup k ?obj = None then Inl (missing_member k) else Inr ()) () reportSignedMembers = Inr ()"
    unfolding loopr_unit_all using present ns by (auto simp: lo)
  have view: "signed_view ?obj = map (\<lambda>m. (fst m, sorted_report (snd m))) view"
  proof -
    have "rlookup (fst m) ?obj = Some (sorted_report (snd m))" if m: "m \<in> set view" for m
    proof -
      have "fst m \<in> set reportSignedMembers" using m unfolding assms(2) [symmetric] by simp
      then have "fst m \<noteq> ''signature''" using ns by auto
      moreover have "rlookup (fst m) view = Some (snd m)" using m assms(1) by (simp add: rlookup_def)
      ultimately show ?thesis unfolding lo by simp
    qed
    then have "map (\<lambda>k. (k, case rlookup k ?obj of Some v \<Rightarrow> v | None \<Rightarrow> RNull)) (map fst view)
        = map (\<lambda>m. (fst m, sorted_report (snd m))) view"
      unfolding map_map by (intro map_cong refl) simp
    then show ?thesis unfolding signed_view_def assms(2) .
  qed
  have wr: "writeReportCanonical (RObject (signed_view ?obj)) = writeReportCanonical (RObject view)"
    unfolding view by (simp add: comp_def writeReportCanonical_sorted)
  have vr: "verified_report ?obj b = verified_report view b" for b
  proof (rule verified_report_members)
    show "wf_report 0 (RObject ?obj)" by (rule parse_report_wf [OF p])
    fix k
    assume "k \<in> set reportSignedMembers"
    then have "k \<noteq> ''signature''" using ns by auto
    then show "map_option sorted_report (rlookup k ?obj) = map_option sorted_report (rlookup k view)"
      by (simp add: lo option.map_comp comp_def)
  qed (rule assms(1))
  show ?thesis
    unfolding VerifyReport_def p s rbind_simps l1 l2 decode_report_signature [OF assms(3)] Let_def wr assms(4)
    by (simp add: vr)
qed

text \<open>A library whose halves have the lengths of a real report signature.\<close>

definition detached_lib :: pk_lib where
  "detached_lib = plain_lib\<lparr>mldsa_sign := \<lambda>k r m. Some (replicate 4627 0), mldsa_verify := \<lambda>p m s. s = replicate 4627 0\<rparr>"

lemma sig_ok_detached: "sig_ok detached_lib"
  by (simp add: sig_ok_def detached_lib_def plain_lib_def ed25519_SignatureSize_def)

definition sample_view :: "(string \<times> rval) list" where
  "sample_view = [(''kind'', RString ''usage''), (''generatedAt'', RString ''2026''),
     (''period'', RObject [(''toSeconds'', RInt 20), (''fromSeconds'', RInt (- 10))]), (''data'', RArray [RInt 3, RNull])]"

lemma sample_view_wf: "wf_report 0 (RObject sample_view)" "map fst sample_view = reportSignedMembers"
  by (simp_all add: sample_view_def reportSignedMembers_def maxReportDepth_def maxSafeInteger_def code_def)

text \<open>
  C18. What the engine signs verifies: for any report content it can write, the detached hybrid signature
  over the canonical text of the four members, put into the file as its fifth member, is accepted under the
  signer's verifier, and the tool shows the kind, time and period that were signed.
\<close>
theorem signed_report_verifies:
  assumes "sig_ok L" "wf_report 0 (RObject view)" "map fst view = reportSignedMembers"
    "Sign L rnd s (bytes_of (writeReportCanonical (RObject view))) = Inr sg" "length sg = reportSignatureLen"
  shows "VerifyReport L (bytes_of (writeReportCanonical (RObject (report_file view sg)))) (Verifier L s)
    = Inr (verified_report view (bytes_of (writeReportCanonical (RObject view))))"
proof (rule report_file_verifies [OF assms(2,3,5)])
  show "VerifyEach L (Verifier L s) (bytes_of (writeReportCanonical (RObject view))) sg = (True, True)"
    using assms(1,4) by (auto simp: Sign_def VerifyEach_def Verifier_def sig_ok_def simp del: writeReportCanonical.simps)
qed

theorem signed_report_verifies_witness:
  "VerifyReport detached_lib (bytes_of (writeReportCanonical (RObject (report_file sample_view (replicate 4691 0)))))
      \<lparr>vf_Ed = [1], vf_MLDSA = [2]\<rparr>
    = Inr (verified_report sample_view (bytes_of (writeReportCanonical (RObject sample_view))))"
proof -
  have r: "replicate 64 0 @ replicate 4627 0 = (replicate 4691 0 :: bytes)" by (simp flip: replicate_add)
  have "Verifier detached_lib \<lparr>sg_Ed = [1], sg_MLDSA = [2]\<rparr> = \<lparr>vf_Ed = [1], vf_MLDSA = [2]\<rparr>"
    by (simp add: Verifier_def detached_lib_def plain_lib_def)
  then show ?thesis
    using signed_report_verifies [OF sig_ok_detached sample_view_wf, of "[]" "\<lparr>sg_Ed = [1], sg_MLDSA = [2]\<rparr>" "replicate 4691 0"] r
    by (simp add: Sign_def detached_lib_def plain_lib_def reportSignatureLen_def del: writeReportCanonical.simps)
qed

definition sample_file :: bytes where
  "sample_file = bytes_of (writeReportCanonical (RObject (report_file sample_view (replicate 4691 0))))"

lemma parse_bom: "parseReportObject ([0xEF, 0xBB, 0xBF] @ 0x7B # b) = parseReportObject (0x7B # b)"
  by (simp add: parseReportObject_def bytes_of_def)

lemma sample_file_verifies:
  obtains r where "VerifyReport detached_lib sample_file \<lparr>vf_Ed = [1], vf_MLDSA = [2]\<rparr> = Inr r"
    "VerifyReport detached_lib ([0xEF, 0xBB, 0xBF] @ sample_file) \<lparr>vf_Ed = [1], vf_MLDSA = [2]\<rparr> = Inr r"
proof -
  have "take 64 (replicate 4691 0) = (replicate 64 0 :: bytes)" "drop 64 (replicate 4691 0) = (replicate 4627 0 :: bytes)"
    by simp_all
  then have "VerifyEach detached_lib \<lparr>vf_Ed = [1], vf_MLDSA = [2]\<rparr> m (replicate 4691 0) = (True, True)" for m
    by (simp add: VerifyEach_def detached_lib_def plain_lib_def ed25519_SignatureSize_def del: take_replicate drop_replicate)
  then have v: "VerifyReport detached_lib sample_file \<lparr>vf_Ed = [1], vf_MLDSA = [2]\<rparr>
      = Inr (verified_report sample_view (bytes_of (writeReportCanonical (RObject sample_view))))"
    unfolding sample_file_def by (intro report_file_verifies sample_view_wf) (simp_all add: reportSignatureLen_def)
  obtain u where "writeReportCanonical (RObject (report_file sample_view (replicate 4691 0))) = CHR 0x7B # u"
    by (simp add: canonObject_def)
  then have "sample_file = 0x7B # bytes_of u" by (simp add: sample_file_def bytes_of_def del: writeReportCanonical.simps)
  then have "parseReportObject ([0xEF, 0xBB, 0xBF] @ sample_file) = parseReportObject sample_file"
    by (metis parse_bom)
  then show thesis using that v by (simp add: VerifyReport_def)
qed

theorem signed_bytes_fix_the_report_witness:
  "VerifyReport detached_lib sample_file \<lparr>vf_Ed = [1], vf_MLDSA = [2]\<rparr>
    = VerifyReport detached_lib ([0xEF, 0xBB, 0xBF] @ sample_file) \<lparr>vf_Ed = [1], vf_MLDSA = [2]\<rparr>"
  by (rule sample_file_verifies) (use signed_bytes_fix_the_report in metis)

end
