(* ===== verification/ReportJson.thy ===== *)
theory ReportJson
  imports ReportFacts
begin

text \<open>
  The strict report parser against \<open>encoding/json\<close>: whatever the strict parser accepts, Go's ordinary
  decoder reads as the same value. So a reader that is not strict cannot take another meaning from a file
  the tool calls verified.
\<close>

fun json_of :: "rval \<Rightarrow> jval" where
  "json_of RNull = JNull"
| "json_of (RBool b) = JBool b"
| "json_of (RInt n) = JNumber (dec_of_int n)"
| "json_of (RString s) = JString s"
| "json_of (RArray vs) = JArray (map json_of vs)"
| "json_of (RObject ms) = JObject (map (\<lambda>m. (fst m, json_of (snd m))) ms)"

section \<open>Strings\<close>

lemma report_hex4_lex: "report_hex4 p = Inr (n, q) \<Longrightarrow> hex4 (snd p) = Some (n, snd q)"
  by (auto simp: report_hex4_def split: if_splits option.splits)

lemma escape_lex:
  assumes "escape (i, CHR 0x5C # r) = Inr (n, q)"
  shows "lex_char (CHR 0x5C # r) = Some (encode_rune n, snd q)"
proof -
  obtain e r1 where r: "r = e # r1" using assms by (cases r) (auto simp: escape_def Let_def)
  show ?thesis
  proof (cases "simple_escape e")
    case (Some x)
    moreover from Some have "e \<noteq> CHR ''u''" by (auto simp: simple_escape_def)
    moreover have "code x < 0x80" using Some by (auto simp: simple_escape_def code_def split: if_splits)
    ultimately show ?thesis using assms r encode_rune_ascii [of x] by (auto simp: escape_def lex_char_def)
  next
    case None
    then have u: "e = CHR ''u''" using assms r by (auto simp: escape_def Let_def split: if_splits)
    obtain hi p3 where h: "report_hex4 (i + 1 + 1, r1) = Inr (hi, p3)"
      using assms r None u by (auto simp: escape_def Let_def)
    have hl: "hex4 r1 = Some (hi, snd p3)" using report_hex4_lex [OF h] by simp
    show ?thesis
    proof (cases "is_surrogate hi")
      case False
      then show ?thesis using assms r None u h hl
        by (auto simp: escape_def Let_def lex_char_def is_surrogate_def)
    next
      case True
      then have p: "hi < 0xDC00" "prefix [CHR 0x5C, CHR ''u''] (snd p3)"
        using assms r None u h by (auto simp: escape_def Let_def split: if_splits)
      then obtain r3 where r3: "snd p3 = CHR 0x5C # CHR ''u'' # r3" by (auto simp: prefix_def)
      obtain lo p4 where l: "report_hex4 (adv (adv p3)) = Inr (lo, p4)"
        using assms r None u h True p by (auto simp: escape_def Let_def split: if_splits)
      have ll: "hex4 r3 = Some (lo, snd p4)" using report_hex4_lex [OF l] r3 by (simp add: adv_def)
      have "n = utf16_DecodeRune hi lo" "utf16_DecodeRune hi lo \<noteq> RuneError" "q = p4"
        using assms r None u h True p l by (auto simp: escape_def Let_def split: if_splits)
      then show ?thesis using r u hl ll r3 True by (simp add: lex_char_def is_surrogate_def)
    qed
  qed
qed

lemma str_char_lex:
  assumes "str_char p = Inr (t, q)"
  shows "lex_char (snd p) = Some (t, snd q)"
proof -
  obtain i c r where p: "p = (i, c # r)" using assms by (cases p; cases "snd p") (auto simp: str_char_def)
  show ?thesis
  proof (cases "c = CHR 0x5C")
    case True
    then obtain n where "escape (i, CHR 0x5C # r) = Inr (n, q)" "t = encode_rune n"
      using assms p by (auto simp: str_char_def code_chars)
    then show ?thesis using escape_lex p True by simp
  next
    case False
    then show ?thesis using assms p
      by (auto simp: str_char_def lex_char_def split: if_splits prod.splits)
  qed
qed

lemma str_loop_lex: "str_loop sb p = Inr (s, q) \<Longrightarrow> \<exists>u. s = sb @ u \<and> lex_string (snd p) = Some (u, snd q)"
proof (induction sb p rule: str_loop.induct)
  case (1 sb p)
  show ?case
  proof (cases "at_char (CHR 0x22) p")
    case True
    then obtain r where "snd p = CHR 0x22 # r" by (cases "snd p") (auto simp: at_char_def)
    then show ?thesis using 1(2) True by (auto simp: str_loop.simps [of sb p] adv_def)
  next
    case False
    then obtain t r where c: "str_char p = Inr (t, r)" "str_loop (sb @ t) r = Inr (s, q)"
      using 1(2) by (auto simp: str_loop.simps [of sb p] split: sum.splits prod.splits)
    have ne: "snd p \<noteq> []" using c(1) by (auto simp: str_char_def)
    then have "hd (snd p) \<noteq> CHR 0x22" using False by (simp add: at_char_def)
    then show ?thesis using 1(1) [OF False c(1) refl c(2)] str_char_lex [OF c(1)] ne
      by (auto simp: lex_string.simps [of "snd p"])
  qed
qed

lemma report_str_lex:
  assumes "report_str p = Inr (s, q)" "at_char (CHR 0x22) p"
  shows "lex (snd p) = TStr s # lex (snd q)"
proof -
  obtain r where "snd p = CHR 0x22 # r" using assms(2) by (cases "snd p") (auto simp: at_char_def)
  then show ?thesis using str_loop_lex [of "[]" "adv p" s q] assms(1)
    by (auto simp: report_str_def adv_def json_space_def)
qed

section \<open>Numbers\<close>

lemma dec_of_nat_of_digits:
  "ds \<noteq> [] \<Longrightarrow> list_all is_digit ds \<Longrightarrow> (hd ds = CHR ''0'' \<longrightarrow> length ds = 1) \<Longrightarrow> dec_of_nat (nat_of_digits ds) = ds"
proof (induction ds rule: rev_induct)
  case (snoc c xs)
  have c: "48 \<le> code c" "code c \<le> 57" using snoc.prems(2) by (auto simp: is_digit_def)
  show ?case
  proof (cases "xs = []")
    case True
    then show ?thesis using c by (simp add: nat_of_digits_def dec_of_nat.simps [of "code c - 48"])
  next
    case False
    then have hd: "hd xs \<noteq> CHR ''0''" using snoc.prems(3) by auto
    then have i: "dec_of_nat (nat_of_digits xs) = xs" using snoc False by simp
    have "nat_of_digits xs \<noteq> 0"
    proof
      assume "nat_of_digits xs = 0"
      then have "xs = [char_of (48 :: nat)]" using i by (simp add: dec_of_nat.simps)
      moreover have "code (CHR ''0'') = 48" by (simp add: code_def)
      then have "char_of (48 :: nat) = CHR ''0''" by (metis char_of_code)
      ultimately show False using hd by simp
    qed
    then have "\<not> nat_of_digits xs * 10 + (code c - 48) < 10" by simp
    moreover have l: "code c - 48 < 10" using c by simp
    ultimately have "dec_of_nat (nat_of_digits xs * 10 + (code c - 48)) = dec_of_nat (nat_of_digits xs) @ [char_of (48 + (code c - 48))]"
      by (subst dec_of_nat.simps) (simp only: div_mult_add_less [OF l] mod_mult_add_less [OF l] if_False)
    then show ?thesis using i c unfolding nat_of_digits_snoc by simp
  qed
qed simp

lemma number_int_lex:
  assumes "number_int p = Inr q"
  obtains sg ds where "snd p = sg @ ds @ snd q" "fst q = fst p + length (sg @ ds)"
    "sg = [] \<and> \<not> at_char (CHR ''-'') p \<or> sg = ''-''" "lex_int (ds @ snd q) = Some (ds, snd q)"
    "ds \<noteq> []" "list_all is_digit ds" "hd ds = CHR ''0'' \<longrightarrow> length ds = 1"
proof -
  define p1 where "p1 = (if at_char (CHR ''-'') p then adv p else p)"
  have sign: "\<exists>sg. snd p = sg @ snd p1 \<and> fst p1 = fst p + length sg \<and> (sg = [] \<and> \<not> at_char (CHR ''-'') p \<or> sg = ''-'')"
  proof (cases "at_char (CHR ''-'') p")
    case True
    then show ?thesis by (cases "snd p") (auto simp: p1_def at_char_def adv_def)
  qed (simp add: p1_def)
  have n: "(if at_char (CHR ''0'') p1 then Inr (adv p1)
      else if snd p1 \<noteq> [] \<and> is_digit (hd (snd p1)) then Inr (snd (digits p1))
      else Inl (syntaxErr (AStr ''malformed number'') p1)) = Inr q"
    using assms unfolding number_int_def Let_def p1_def .
  have z: "is_digit (CHR ''0'')" by (simp add: is_digit_def code_def)
  have "\<exists>ds. snd p1 = ds @ snd q \<and> fst q = fst p1 + length ds \<and> lex_int (ds @ snd q) = Some (ds, snd q)
     \<and> ds \<noteq> [] \<and> list_all is_digit ds \<and> (hd ds = CHR ''0'' \<longrightarrow> length ds = 1)"
  proof (cases "at_char (CHR ''0'') p1")
    case True
    then obtain r where "snd p1 = CHR ''0'' # r" by (cases "snd p1") (auto simp: at_char_def)
    then show ?thesis using n True z by (intro exI [of _ "''0''"]) (auto simp: adv_def lex_int_def)
  next
    case False
    then have d: "snd p1 \<noteq> []" "is_digit (hd (snd p1))" "q = snd (digits p1)" using n by (auto split: if_splits)
    then obtain c r where cr: "snd p1 = c # r" "is_digit c" "c \<noteq> CHR ''0''"
      using False by (cases "snd p1") (auto simp: at_char_def)
    show ?thesis
      using d(3) cr by (intro exI [of _ "takeWhile is_digit (snd p1)"])
        (auto simp: digits_def lex_int_def lex_digits_def list_all_iff dest: set_takeWhileD)
  qed
  then obtain ds where ds: "snd p1 = ds @ snd q" "fst q = fst p1 + length ds" "lex_int (ds @ snd q) = Some (ds, snd q)"
    "ds \<noteq> []" "list_all is_digit ds" "hd ds = CHR ''0'' \<longrightarrow> length ds = 1" by blast
  obtain sg where sg: "snd p = sg @ snd p1" "fst p1 = fst p + length sg" "sg = [] \<and> \<not> at_char (CHR ''-'') p \<or> sg = ''-''"
    using sign by blast
  have "snd p = sg @ ds @ snd q" "fst q = fst p + length (sg @ ds)" using ds(1,2) sg(1,2) by simp_all
  then show thesis using sg(3) ds(3-6) by (rule that)
qed

lemma number_plain:
  assumes "report_number p = Inr (v, q)"
  obtains n where "v = RInt n" "number_int p = Inr q" "\<not> at_char (CHR ''.'') q" "\<not> at_char (CHR ''e'') q"
    "\<not> at_char (CHR ''E'') q" "take (fst q - fst p) (snd p) \<noteq> ''-0''" "parse_int64 (take (fst q - fst p) (snd p)) = Some n"
proof -
  obtain p1 where p1: "number_int p = Inr p1" using assms by (auto simp: report_number_def)
  obtain a p2 where p2: "number_frac p1 = Inr (a, p2)" using assms p1 by (auto simp: report_number_def)
  obtain b p3 where p3: "number_exp p2 = Inr (b, p3)" using assms p1 p2 by (auto simp: report_number_def)
  have m: "\<not> a" "\<not> b" "take (fst p3 - fst p) (snd p) \<noteq> ''-0''" "p3 = q"
    and n: "\<exists>n. v = RInt n \<and> parse_int64 (take (fst p3 - fst p) (snd p)) = Some n"
    using assms p1 p2 p3 by (auto simp: report_number_def Let_def split: if_splits option.splits)
  have "p2 = p1 \<and> \<not> at_char (CHR ''.'') p1" using p2 m(1) by (auto simp: number_frac_def split: if_splits prod.splits)
  moreover have "p3 = p2 \<and> \<not> at_char (CHR ''e'') p2 \<and> \<not> at_char (CHR ''E'') p2"
    using p3 m(2) by (auto simp: number_exp_def Let_def split: if_splits prod.splits)
  ultimately show thesis using that p1 m n by auto
qed

lemma report_number_lex:
  assumes "report_number p = Inr (v, q)"
  obtains n where "v = RInt n" "lex_number (snd p) = Some (dec_of_int n, snd q)"
proof -
  obtain n where v: "v = RInt n" and i: "number_int p = Inr q" and ne: "\<not> at_char (CHR ''.'') q" "\<not> at_char (CHR ''e'') q"
    "\<not> at_char (CHR ''E'') q" and z: "take (fst q - fst p) (snd p) \<noteq> ''-0''"
    and n: "parse_int64 (take (fst q - fst p) (snd p)) = Some n"
    using assms by (rule number_plain)
  obtain sg ds where s: "snd p = sg @ ds @ snd q" "fst q = fst p + length (sg @ ds)"
    "sg = [] \<and> \<not> at_char (CHR ''-'') p \<or> sg = ''-''" "lex_int (ds @ snd q) = Some (ds, snd q)"
    "ds \<noteq> []" "list_all is_digit ds" "hd ds = CHR ''0'' \<longrightarrow> length ds = 1"
    using i by (rule number_int_lex)
  have lit: "take (fst q - fst p) (snd p) = sg @ ds" using s(1,2) by simp
  have fe: "lex_frac (snd q) = Some ([], snd q)" "lex_exp (snd q) = Some ([], snd q)"
    using ne by (cases "snd q"; auto simp: lex_frac_def lex_exp_def at_char_def)+
  obtain c r where cr: "ds = c # r" "is_digit c" using s(5,6) by (cases ds) auto
  have c: "c \<noteq> CHR ''-''" "c \<noteq> CHR ''+''" using cr(2) by (auto simp: is_digit_def code_def)
  have D: "dec_of_nat (nat_of_digits ds) = ds" by (rule dec_of_nat_of_digits [OF s(5-7)])
  have "lex_number (snd p) = Some (sg @ ds, snd q)"
    using s(3,4) fe cr(1) c(1) unfolding s(1) by (auto simp: lex_number_def)
  moreover have "dec_of_int n = sg @ ds"
  proof (cases "sg = []")
    case True
    then have "n = int (nat_of_digits ds)" using n cr c s(6) unfolding lit by (auto simp: parse_int64_def Let_def split: if_splits)
    then show ?thesis using True D by (simp add: dec_of_int_def)
  next
    case False
    then have sg: "sg = ''-''" using s(3) by simp
    then have m: "n = - int (nat_of_digits ds)" using n s(6) unfolding lit by (auto simp: parse_int64_def Let_def split: if_splits)
    have "nat_of_digits ds \<noteq> 0"
    proof
      assume "nat_of_digits ds = 0"
      moreover have "nat_of_digits ''0'' = 0" by (simp add: nat_of_digits_def code_def)
      ultimately have "ds = dec_of_nat 0" "''0'' = dec_of_nat 0"
        using D dec_of_nat_of_digits [of "''0''"] by (simp_all add: is_digit_def code_def)
      then show False using z lit sg by simp
    qed
    then show ?thesis using m sg D by (simp add: dec_of_int_def)
  qed
  ultimately show thesis using that v by simp
qed

section \<open>Values\<close>

lemma lex_skipSpace [simp]: "lex (snd (skipSpace p)) = lex (snd p)"
proof -
  have "lex (dropWhile report_space s) = lex s" for s
    by (induction s) (simp_all add: report_space_def json_space_def)
  then show ?thesis by (simp add: skipSpace_def)
qed

lemma lex_at_char:
  assumes "at_char c p"
  shows "c = CHR 0x7B \<Longrightarrow> lex (snd p) = TLBrace # lex (snd (adv p))" "c = CHR 0x7D \<Longrightarrow> lex (snd p) = TRBrace # lex (snd (adv p))"
    "c = CHR 0x5B \<Longrightarrow> lex (snd p) = TLBrack # lex (snd (adv p))" "c = CHR 0x5D \<Longrightarrow> lex (snd p) = TRBrack # lex (snd (adv p))"
    "c = CHR '':'' \<Longrightarrow> lex (snd p) = TColon # lex (snd (adv p))" "c = CHR '','' \<Longrightarrow> lex (snd p) = TComma # lex (snd (adv p))"
  using assms by (cases "snd p"; simp add: at_char_def adv_def json_space_def)+

lemma at_charI: "snd p \<noteq> [] \<Longrightarrow> hd (snd p) = c \<Longrightarrow> at_char c p"
  by (simp add: at_char_def)

lemma lex_word:
  "prefix ''true'' (snd p) \<Longrightarrow> lex (snd p) = TScalar (JBool True) # lex (snd (advn 4 p))"
  "prefix ''false'' (snd p) \<Longrightarrow> lex (snd p) = TScalar (JBool False) # lex (snd (advn 5 p))"
  "prefix ''null'' (snd p) \<Longrightarrow> lex (snd p) = TScalar JNull # lex (snd (advn 4 p))"
  by (auto simp: prefix_def advn_def json_space_def)

lemma lex_report_number:
  assumes "report_number p = Inr (v, q)" "hd (snd p) = CHR ''-'' \<or> is_digit (hd (snd p))" "snd p \<noteq> []"
  shows "lex (snd p) = tokens_of (json_of v) @ lex (snd q)"
proof -
  obtain n where n: "v = RInt n" "lex_number (snd p) = Some (dec_of_int n, snd q)"
    by (rule report_number_lex [OF assms(1)])
  obtain c r where cr: "snd p = c # r" "c = CHR ''-'' \<or> is_digit c" using assms(2,3) by (cases "snd p") auto
  then have "c \<noteq> k" if "code k < 45 \<or> 57 < code k" for k
    using that by (auto simp: is_digit_def code_def)
  then show ?thesis using n cr(1) by (simp add: json_space_def code_def)
qed

definition member_tokens :: "string \<times> rval \<Rightarrow> token list" where
  "member_tokens m = TStr (fst m) # TColon # tokens_of (json_of (snd m))"

lemma tokens_of_object:
  "tokens_of (json_of (RObject (m # ms))) = TLBrace # member_tokens m @ concat (map (\<lambda>m. TComma # member_tokens m) ms) @ [TRBrace]"
  by (simp add: member_tokens_def comp_def)

lemma tokens_of_array:
  "tokens_of (json_of (RArray (v # vs))) = TLBrack # tokens_of (json_of v) @ concat (map (\<lambda>w. TComma # tokens_of (json_of w)) vs) @ [TRBrack]"
  by (simp add: comp_def)

lemma report_value_lex:
  "report_value d p = Inr (v, q) \<Longrightarrow> lex (snd p) = tokens_of (json_of v) @ lex (snd q)"
  "report_object d p = Inr (v, q) \<Longrightarrow> TLBrace # lex (snd p) = tokens_of (json_of v) @ lex (snd q)"
  "report_members d obj p = Inr (v, q) \<Longrightarrow> \<exists>m ms. v = RObject (obj @ m # ms)
     \<and> lex (snd p) = member_tokens m @ concat (map (\<lambda>m. TComma # member_tokens m) ms) @ TRBrace # lex (snd q)"
  "report_array d p = Inr (v, q) \<Longrightarrow> TLBrack # lex (snd p) = tokens_of (json_of v) @ lex (snd q)"
  "report_elements d arr p = Inr (v, q) \<Longrightarrow> \<exists>w ws. v = RArray (arr @ w # ws)
     \<and> lex (snd p) = tokens_of (json_of w) @ concat (map (\<lambda>w. TComma # tokens_of (json_of w)) ws) @ TRBrack # lex (snd q)"
proof (induction d p and d p and d obj p and d p and d arr p arbitrary: v q and v q and v q and v q and v q
    rule: report_value_report_object_report_members_report_array_report_elements.induct)
  case (1 d p0)
  from 1(3) show ?case
  proof (cases rule: report_value_step)
    case 1
    have "TLBrace # lex (snd (adv (skipSpace p0))) = tokens_of (json_of v) @ lex (snd q)"
      using "1.IH"(1) [OF _ refl _ refl] 1 by simp
    then show ?thesis using lex_at_char(1) [OF at_charI [OF 1(2,3)] refl] by simp
  next
    case 2
    have "TLBrack # lex (snd (adv (skipSpace p0))) = tokens_of (json_of v) @ lex (snd q)"
      using "1.IH"(2) [OF _ refl _ refl] 2 by simp
    then show ?thesis using lex_at_char(3) [OF at_charI [OF 2(2,3)] refl] by simp
  next
    case (3 s)
    then show ?thesis using report_str_lex [OF 3(4) at_charI [OF 3(2,3)]] by simp
  next
    case 4
    then show ?thesis using lex_report_number [OF 4(4,3,2)] by simp
  next
    case 5
    then show ?thesis using lex_word(1) [of "skipSpace p0"] by simp
  next
    case 6
    then show ?thesis using lex_word(2) [of "skipSpace p0"] by simp
  next
    case 7
    then show ?thesis using lex_word(3) [of "skipSpace p0"] by simp
  qed
next
  case (2 d p0)
  show ?case
  proof (cases "at_char (CHR 0x7D) (skipSpace p0)")
    case True
    then have "v = RObject [] \<and> q = adv (skipSpace p0)" using 2(2) by (simp add: report_object.simps [of d p0] Let_def)
    then show ?thesis using lex_at_char(2) [OF True refl] by simp
  next
    case False
    then have "report_members d [] (skipSpace p0) = Inr (v, q)" using 2(2) by (simp add: report_object.simps [of d p0] Let_def)
    then obtain m ms where "v = RObject (m # ms)"
      "lex (snd p0) = member_tokens m @ concat (map (\<lambda>m. TComma # member_tokens m) ms) @ TRBrace # lex (snd q)"
      using 2(1) [OF refl False] by auto
    then show ?thesis by (simp add: tokens_of_object del: json_of.simps)
  qed
next
  case (3 d obj p0)
  from 3(3) obtain k p1 v3 p3 where s: "at_char (CHR 0x22) (skipSpace p0)" "report_str (skipSpace p0) = Inr (k, p1)"
    "k \<notin> fst ` set obj" "at_char (CHR '':'') (skipSpace p1)"
    "report_value (d + 1) (adv (skipSpace p1)) = Inr (v3, p3)" "snd (skipSpace p3) \<noteq> []"
    and e: "hd (snd (skipSpace p3)) = CHR '','' \<and> report_members d (obj @ [(k, v3)]) (adv (skipSpace p3)) = Inr (v, q)
     \<or> hd (snd (skipSpace p3)) = CHR 0x7D \<and> v = RObject (obj @ [(k, v3)]) \<and> q = adv (skipSpace p3)"
    by (rule report_members_step)
  have "lex (snd (adv (skipSpace p1))) = tokens_of (json_of v3) @ lex (snd p3)"
    by (rule "3.IH"(1) [OF refl _ s(2) refl s(3) refl _ s(5)]) (use s in auto)
  then have m: "lex (snd p0) = member_tokens (k, v3) @ lex (snd p3)"
    using report_str_lex [OF s(2,1)] lex_at_char(5) [OF s(4) refl] by (simp add: member_tokens_def)
  from e show ?case
  proof (elim disjE conjE)
    assume c: "hd (snd (skipSpace p3)) = CHR '',''" "report_members d (obj @ [(k, v3)]) (adv (skipSpace p3)) = Inr (v, q)"
    have "\<exists>m ms. v = RObject ((obj @ [(k, v3)]) @ m # ms) \<and> lex (snd (adv (skipSpace p3)))
        = member_tokens m @ concat (map (\<lambda>m. TComma # member_tokens m) ms) @ TRBrace # lex (snd q)"
      by (rule "3.IH"(2) [OF refl _ s(2) refl s(3) refl _ s(5) refl refl refl s(6) c(1) c(2)]) (use s in auto)
    then obtain m' ms where "v = RObject ((obj @ [(k, v3)]) @ m' # ms)" "lex (snd (adv (skipSpace p3)))
        = member_tokens m' @ concat (map (\<lambda>m. TComma # member_tokens m) ms) @ TRBrace # lex (snd q)" by blast
    then show ?thesis using m lex_at_char(6) [OF at_charI [OF s(6) c(1)] refl]
      by (intro exI [of _ "(k, v3)"] exI [of _ "m' # ms"]) simp
  next
    assume c: "hd (snd (skipSpace p3)) = CHR 0x7D" "v = RObject (obj @ [(k, v3)])" "q = adv (skipSpace p3)"
    then show ?thesis using m lex_at_char(2) [OF at_charI [OF s(6) c(1)] refl]
      by (intro exI [of _ "(k, v3)"] exI [of _ "[]"]) simp
  qed
next
  case (4 d p0)
  show ?case
  proof (cases "at_char (CHR 0x5D) (skipSpace p0)")
    case True
    then have "v = RArray [] \<and> q = adv (skipSpace p0)" using 4(2) by (simp add: report_array.simps [of d p0] Let_def)
    then show ?thesis using lex_at_char(4) [OF True refl] by simp
  next
    case False
    then have "report_elements d [] (skipSpace p0) = Inr (v, q)" using 4(2) by (simp add: report_array.simps [of d p0] Let_def)
    then obtain w ws where "v = RArray (w # ws)"
      "lex (snd p0) = tokens_of (json_of w) @ concat (map (\<lambda>w. TComma # tokens_of (json_of w)) ws) @ TRBrack # lex (snd q)"
      using 4(1) [OF refl False] by auto
    then show ?thesis by (simp add: tokens_of_array del: json_of.simps)
  qed
next
  case (5 d arr p)
  from 5(3) obtain v3 p3 where s: "report_value (d + 1) p = Inr (v3, p3)" "snd (skipSpace p3) \<noteq> []"
    and e: "hd (snd (skipSpace p3)) = CHR '','' \<and> report_elements d (arr @ [v3]) (adv (skipSpace p3)) = Inr (v, q)
     \<or> hd (snd (skipSpace p3)) = CHR 0x5D \<and> v = RArray (arr @ [v3]) \<and> q = adv (skipSpace p3)"
    by (rule report_elements_step)
  have m: "lex (snd p) = tokens_of (json_of v3) @ lex (snd p3)" by (rule "5.IH"(1) [OF s(1)])
  from e show ?case
  proof (elim disjE conjE)
    assume c: "hd (snd (skipSpace p3)) = CHR '',''" "report_elements d (arr @ [v3]) (adv (skipSpace p3)) = Inr (v, q)"
    obtain w ws where "v = RArray ((arr @ [v3]) @ w # ws)" "lex (snd (adv (skipSpace p3)))
        = tokens_of (json_of w) @ concat (map (\<lambda>w. TComma # tokens_of (json_of w)) ws) @ TRBrack # lex (snd q)"
      using "5.IH"(2) [OF s(1) refl refl refl s(2) c(1) c(2)] by blast
    then show ?thesis using m lex_at_char(6) [OF at_charI [OF s(2) c(1)] refl]
      by (intro exI [of _ v3] exI [of _ "w # ws"]) simp
  next
    assume c: "hd (snd (skipSpace p3)) = CHR 0x5D" "v = RArray (arr @ [v3])" "q = adv (skipSpace p3)"
    then show ?thesis using m lex_at_char(4) [OF at_charI [OF s(2) c(1)] refl]
      by (intro exI [of _ v3] exI [of _ "[]"]) simp
  qed
qed

section \<open>The decoder's value\<close>

lemma json_of_depth: "wf_report d v \<Longrightarrow> depth (json_of v) + d \<le> maxReportDepth + 1"
proof (induction v arbitrary: d rule: json_of.induct)
  case (5 vs)
  have "depth (json_of w) \<le> maxReportDepth - d" if "w \<in> set vs" for w
    using 5(1) [OF that, of "d + 1"] 5(2) that by (simp add: list_all_iff)
  then have "Max (insert 0 (depth ` set (map json_of vs))) \<le> maxReportDepth - d" by auto
  then have "depth (json_of (RArray vs)) \<le> Suc (maxReportDepth - d)" by (simp only: json_of.simps depth_max Suc_le_mono)
  moreover have "d \<le> maxReportDepth" using 5(2) by simp
  ultimately show ?case by linarith
next
  case (6 ms)
  have "depth (json_of (snd m)) \<le> maxReportDepth - d" if "m \<in> set ms" for m
    using 6(1) [OF that, of "d + 1"] 6(2) that by (simp add: list_all_iff)
  then have "Max (insert 0 ((\<lambda>kv. depth (snd kv)) ` set (map (\<lambda>m. (fst m, json_of (snd m))) ms))) \<le> maxReportDepth - d" by auto
  then have "depth (json_of (RObject ms)) \<le> Suc (maxReportDepth - d)" by (simp only: json_of.simps depth_max Suc_le_mono)
  moreover have "d \<le> maxReportDepth" using 6(2) by simp
  ultimately show ?case by linarith
qed simp_all

lemma json_of_distinct: "wf_report d v \<Longrightarrow> distinct_keys (json_of v)"
proof (induction v arbitrary: d rule: json_of.induct)
  case (5 vs)
  then show ?case by (auto simp: list_all_iff)
next
  case (6 ms)
  then show ?case by (auto simp: list_all_iff comp_def)
qed simp_all



end
