(* ===== verification/Attest.thy ===== *)
theory Attest
  imports ReaderFacts
begin

text \<open>
  \<open>internal/format/attest.go\<close>: the keyless attestation of a run. The result under construction is passed
  along; a step returns the result it leaves and the error it reports. What the caller gets is a result, if
  one was started, and an error, if any.
\<close>

record AttestResult =
  at_RunID :: string
  at_SignatureResult :: string
  at_SignaturePresent :: bool
  at_SignerPinned :: bool
  at_ShardsHashVerified :: bool
  at_RecipientSetVerified :: bool
  at_ShardCount :: int
  at_DeclaredRecordCount :: int
  at_RunlogVerified :: bool
  at_Freshness :: FreshnessResult
  at_Code :: int

definition attest_OK :: "AttestResult \<Rightarrow> bool" where
  "attest_OK a \<longleftrightarrow> at_Code a = 0"

text \<open>\<open>if a.Code == 0 { a.Code = c }\<close>.\<close>

definition set_code :: "int \<Rightarrow> AttestResult \<Rightarrow> AttestResult" where
  "set_code c a = (if at_Code a = 0 then a\<lparr>at_Code := c\<rparr> else a)"

definition error_code :: "goerr \<Rightarrow> int" where
  "error_code e = (case e of ExitError c _ \<Rightarrow> c | _ \<Rightarrow> 0)"

definition failSignature :: "AttestResult \<Rightarrow> AttestResult" where
  "failSignature a = set_code ExitUnverified a"

definition classifyRootSignature ::
  "pk_lib \<Rightarrow> ObjectStore \<Rightarrow> string \<Rightarrow> bytes \<Rightarrow> HybridVerifier option \<Rightarrow> AttestResult \<Rightarrow> AttestResult \<times> goerr option" where
  "classifyRootSignature L store runID rootBytes signer a =
     (case GetLimited store (runKey runID ''root.manifest.json.sig'') MaxSignatureBytes of
        Inl sigErr \<Rightarrow>
          (let cerr = codedGet ExitUnverified (Errorf ''read root signature: %w'' [AWrap sigErr])
           in (set_code (error_code cerr) (a\<lparr>at_SignaturePresent := False, at_SignatureResult := ''absent''\<rparr>), Some cerr))
      | Inr sigText \<Rightarrow>
          let a = a\<lparr>at_SignaturePresent := True\<rparr>;
              fail = (\<lambda>res. (failSignature (a\<lparr>at_SignatureResult := res\<rparr>),
                        Some (coded ExitUnverified (Errorf ''verify root signature: %s'' [AStr res]))))
          in case B64Decode (TrimSpace (string_of sigText)) of
               Inl derr \<Rightarrow> fail ''invalid''
             | Inr sig \<Rightarrow>
                 if length sig \<le> ed25519_SignatureSize then fail ''invalid''
                 else (case signer of
                         None \<Rightarrow> (a\<lparr>at_SignatureResult := ''unchecked''\<rparr>, None)
                       | Some v \<Rightarrow>
                           if VerifyRootBytes L rootBytes sig v \<noteq> Inr () then fail ''wrong-signer''
                           else (a\<lparr>at_SignatureResult := ''valid''\<rparr>, None)))"

definition check_shard_hash :: "ObjectStore \<Rightarrow> ShardRef \<Rightarrow> goerr + unit" where
  "check_shard_hash store sh =
     (case st_Get store (sh_Object sh) of
        Inl gerr \<Rightarrow> Inl (codedGet ExitUnverified (Errorf ''read shard %s: %w'' [AStr (sh_ID sh), AWrap gerr]))
      | Inr shardBytes \<Rightarrow>
          if \<not> ConstantTimeEqual (bytes_of (SHA384Hex shardBytes)) (bytes_of (sh_SHA384 sh))
          then Inl (coded ExitUnverified (Errorf ''shard %s hash does not match the signed root'' [AStr (sh_ID sh)]))
          else Inr ())"

definition verifyShardHashes :: "ObjectStore \<Rightarrow> RootManifest \<Rightarrow> AttestResult \<Rightarrow> AttestResult \<times> goerr option" where
  "verifyShardHashes store rootm a =
     (if rm_ShardCount rootm \<noteq> int (length (rm_Shards rootm)) then
        (set_code ExitUnverified (a\<lparr>at_ShardsHashVerified := False\<rparr>),
         Some (coded ExitUnverified (Errorf ''shardCount %d does not match the %d listed shards''
                 [AInt (rm_ShardCount rootm), AInt (int (length (rm_Shards rootm)))])))
      else (case loopr (\<lambda>_ sh. check_shard_hash store sh) () (rm_Shards rootm) of
              Inl err \<Rightarrow> (set_code (error_code err) (a\<lparr>at_ShardsHashVerified := False\<rparr>), Some err)
            | Inr _ \<Rightarrow> (a\<lparr>at_ShardsHashVerified := True\<rparr>, None)))"

definition keyless_scan :: "string \<Rightarrow> bool \<times> int \<Rightarrow> RunlogEntry \<Rightarrow> bool \<times> int" where
  "keyless_scan runID st e = (fst st \<or> re_RunID e = runID, if re_Index e > snd st then re_Index e else snd st)"

definition unchecked_step :: "goerr \<Rightarrow> goerr \<Rightarrow> AttestResult \<Rightarrow> AttestResult \<times> goerr option" where
  "unchecked_step cause err a = (a\<lparr>at_Freshness := uncheckedFreshness cause\<rparr>, Some err)"

definition checkRunlog ::
  "pk_lib \<Rightarrow> ObjectStore \<Rightarrow> string \<Rightarrow> RootManifest \<Rightarrow> HybridVerifier option \<Rightarrow> int \<Rightarrow> AttestResult
     \<Rightarrow> AttestResult \<times> goerr option" where
  "checkRunlog L store runID rootm signer minIndex a =
     (case GetLimited store ''_RECOVERY/RUNLOG'' MaxRunlogBytes of
        Inl err \<Rightarrow>
          (let cause = Errorf ''read runlog: %w'' [AWrap err]
           in unchecked_step cause (codedGet ExitStale (Errorf ''%w: %w'' [AWrap ErrFreshnessUnchecked, AWrap cause])) a)
      | Inr runlogBytes \<Rightarrow>
          (case signer of
             Some v \<Rightarrow>
               (case GetLimited store ''_RECOVERY/RUNLOG.sig'' MaxSignatureBytes of
                  Inl serr \<Rightarrow>
                    (let cause = Errorf ''read runlog signature: %w'' [AWrap serr]
                     in unchecked_step cause (codedGet ExitStale (Errorf ''%w: %w'' [AWrap ErrFreshnessUnchecked, AWrap cause])) a)
                | Inr sigText \<Rightarrow>
                    (case CheckFreshness L runlogBytes sigText runID rootm v minIndex of
                       (fresh, Some ferr) \<Rightarrow> (a\<lparr>at_Freshness := fresh\<rparr>, Some ferr)
                     | (fresh, None) \<Rightarrow> (a\<lparr>at_Freshness := fresh, at_RunlogVerified := True\<rparr>, None)))
           | None \<Rightarrow>
               (case ParseRunlog runlogBytes of
                  Inl perr \<Rightarrow> unchecked_step perr (staleUnchecked perr) a
                | Inr entries \<Rightarrow>
                    if length entries = 0
                    then (let e = Errorf ''runlog is empty'' [] in unchecked_step e (staleUnchecked e) a)
                    else (case foldl (keyless_scan runID) (False, 0) entries of (present, runlogMax) \<Rightarrow>
                      if \<not> present
                      then (let e = Errorf ''run %s is absent from the runlog'' [AStr runID]
                            in unchecked_step e (staleUnchecked e) a)
                      else let a = a\<lparr>at_Freshness := (at_Freshness a)\<lparr>fs_RunlogMaxIndex := runlogMax\<rparr>\<rparr>
                        in if minIndex > 0 \<and> runlogMax < minIndex then
                             (let below = Errorf ''runlog max index %d is below the pinned minimum %d (possible rollback; UNAUTHENTICATED without --signer, so this catches an accidentally stale or wholesale-replayed bucket but not a targeted adversary who also edits the unsigned RUNLOG's stated index)'' [AInt runlogMax, AInt minIndex]
                              in (a\<lparr>at_Freshness := (at_Freshness a)\<lparr>fs_RollbackWarning := True, fs_Reason := Some below\<rparr>\<rparr>,
                                  Some (coded ExitStale below)))
                           else (a, None)))))"

definition initial_attest :: "string \<Rightarrow> HybridVerifier option \<Rightarrow> AttestResult" where
  "initial_attest runID signer =
     \<lparr>at_RunID = runID, at_SignatureResult = ''valid'', at_SignaturePresent = False, at_SignerPinned = (signer \<noteq> None),
      at_ShardsHashVerified = False, at_RecipientSetVerified = False, at_ShardCount = 0, at_DeclaredRecordCount = 0,
      at_RunlogVerified = False, at_Freshness = zero_FreshnessResult, at_Code = 0\<rparr>"

text \<open>The steps once the root is parsed and its labels are accepted; \<open>sigFailErr\<close> is held to the end.\<close>

definition attest_structure ::
  "pk_lib \<Rightarrow> ObjectStore \<Rightarrow> string \<Rightarrow> RootManifest \<Rightarrow> HybridVerifier option \<Rightarrow> int \<Rightarrow> goerr option \<Rightarrow> AttestResult
     \<Rightarrow> AttestResult option \<times> goerr option" where
  "attest_structure L store runID rootm signer minIndex sigFailErr a0 =
     (let a = a0\<lparr>at_DeclaredRecordCount := rm_DeclaredRecordCount rootm\<rparr>
      in case checkRecipientSet L rootm of
           Inl err \<Rightarrow>
             (Some (set_code ExitUnverified (a\<lparr>at_RecipientSetVerified := False\<rparr>)), Some (coded ExitUnverified err))
         | Inr _ \<Rightarrow>
             (case verifyShardHashes store rootm (a\<lparr>at_RecipientSetVerified := True, at_ShardCount := rm_ShardCount rootm\<rparr>) of
                (a, Some err) \<Rightarrow> (Some a, Some err)
              | (a, None) \<Rightarrow>
                  (case checkRunlog L store runID rootm signer minIndex a of
                     (a, Some err) \<Rightarrow>
                       (Some (set_code (case exitCodeOf err of (c, ok) \<Rightarrow> if ok then c else ExitStale) a), Some err)
                   | (a, None) \<Rightarrow> (Some a, sigFailErr))))"

definition Attest ::
  "pk_lib \<Rightarrow> ObjectStore \<Rightarrow> string \<Rightarrow> HybridVerifier option \<Rightarrow> int \<Rightarrow> AttestResult option \<times> goerr option" where
  "Attest L store runID signer minIndex =
     (case DecodeULID runID of
        Inl err \<Rightarrow> (None, Some (coded ExitUsage (Errorf ''runId: %w'' [AWrap (UlidErr err)])))
      | Inr _ \<Rightarrow>
      (case openRootManifest store runID of
        Inl err \<Rightarrow> (None, Some err)
      | Inr rootBytes \<Rightarrow>
      (case classifyRootSignature L store runID rootBytes signer (initial_attest runID signer) of (a, sigFailErr) \<Rightarrow>
      (case rbind (ParseRoot rootBytes) (\<lambda>rootm. rbind (checkFormatVersion (rm_FormatVersion rootm)) (\<lambda>_.
              rbind (checkEnvelope rootm) (\<lambda>_. Inr rootm))) of
        Inl err \<Rightarrow> (None, Some err)
      | Inr rootm \<Rightarrow>
          if rm_RunID rootm \<noteq> runID
          then (None, Some (coded ExitUnverified (Errorf ''manifest runId %q does not match the requested run %q''
                  [AStr (rm_RunID rootm), AStr runID])))
          else attest_structure L store runID rootm signer minIndex sigFailErr a))))"

section \<open>What a passed attestation establishes\<close>

definition attested_signature :: "pk_lib \<Rightarrow> ObjectStore \<Rightarrow> string \<Rightarrow> bytes \<Rightarrow> HybridVerifier option \<Rightarrow> bool" where
  "attested_signature L store runID rootBytes signer \<longleftrightarrow>
     (\<exists>sigText sig. GetLimited store (runKey runID ''root.manifest.json.sig'') MaxSignatureBytes = Inr sigText
        \<and> B64Decode (TrimSpace (string_of sigText)) = Inr sig \<and> ed25519_SignatureSize < length sig
        \<and> (case signer of None \<Rightarrow> True | Some v \<Rightarrow> Verify L v rootBytes sig = Inr ()))"

definition attested_shard :: "ObjectStore \<Rightarrow> ShardRef \<Rightarrow> bool" where
  "attested_shard store sh \<longleftrightarrow> (\<exists>b. st_Get store (sh_Object sh) = Inr b \<and> SHA384Hex b = sh_SHA384 sh)"

definition attested_log ::
  "pk_lib \<Rightarrow> ObjectStore \<Rightarrow> string \<Rightarrow> RootManifest \<Rightarrow> HybridVerifier option \<Rightarrow> int \<Rightarrow> bool" where
  "attested_log L store runID rootm signer minIndex \<longleftrightarrow>
     (\<exists>b. GetLimited store ''_RECOVERY/RUNLOG'' MaxRunlogBytes = Inr b
        \<and> (case signer of
             Some v \<Rightarrow> (\<exists>sigText fresh. GetLimited store ''_RECOVERY/RUNLOG.sig'' MaxSignatureBytes = Inr sigText
                 \<and> CheckFreshness L b sigText runID rootm v minIndex = (fresh, None))
           | None \<Rightarrow> (\<exists>es. ParseRunlog b = Inr es \<and> list_ex (\<lambda>e. re_RunID e = runID) es
                 \<and> (minIndex \<le> 0 \<or> list_ex (\<lambda>e. minIndex \<le> re_Index e) es))))"

definition attested ::
  "pk_lib \<Rightarrow> ObjectStore \<Rightarrow> string \<Rightarrow> HybridVerifier option \<Rightarrow> int \<Rightarrow> bytes \<Rightarrow> RootManifest \<Rightarrow> bool" where
  "attested L store runID signer minIndex rootBytes rootm \<longleftrightarrow>
     (\<exists>rid. DecodeULID runID = Inr rid) \<and> openRootManifest store runID = Inr rootBytes \<and> ParseRoot rootBytes = Inr rootm
     \<and> checkFormatVersion (rm_FormatVersion rootm) = Inr () \<and> checkEnvelope rootm = Inr () \<and> rm_RunID rootm = runID
     \<and> attested_signature L store runID rootBytes signer \<and> checkRecipientSet L rootm = Inr ()
     \<and> rm_ShardCount rootm = int (length (rm_Shards rootm)) \<and> list_all (attested_shard store) (rm_Shards rootm)
     \<and> attested_log L store runID rootm signer minIndex"

lemma keyless_scan_facts:
  "foldl (keyless_scan runID) (p, m) es = (present, runlogMax) \<Longrightarrow>
     (present \<longleftrightarrow> p \<or> list_ex (\<lambda>e. re_RunID e = runID) es) \<and> (k \<le> runlogMax \<longleftrightarrow> k \<le> m \<or> list_ex (\<lambda>e. k \<le> re_Index e) es)"
proof (induction es arbitrary: p m)
  case (Cons e es)
  have "keyless_scan runID (p, m) e = (p \<or> re_RunID e = runID, if re_Index e > m then re_Index e else m)"
    by (simp add: keyless_scan_def)
  then have "foldl (keyless_scan runID) (p \<or> re_RunID e = runID, if re_Index e > m then re_Index e else m) es = (present, runlogMax)"
    using Cons.prems by (simp only: foldl_Cons)
  from Cons.IH [OF this] show ?case by auto
qed simp

lemma check_shard_hash_iff: "check_shard_hash store sh = Inr () \<longleftrightarrow> attested_shard store sh"
  by (auto simp: check_shard_hash_def attested_shard_def split: sum.splits)

lemma verifyShardHashes_iff:
  "(\<exists>a'. verifyShardHashes store rootm a = (a', None)) \<longleftrightarrow>
     rm_ShardCount rootm = int (length (rm_Shards rootm)) \<and> list_all (attested_shard store) (rm_Shards rootm)"
  "verifyShardHashes store rootm a = (a', None) \<Longrightarrow> a' = a\<lparr>at_ShardsHashVerified := True\<rparr>"
  using loopr_unit_all [of "check_shard_hash store" "rm_Shards rootm" "()"] check_shard_hash_iff [of store]
  by (auto simp: verifyShardHashes_def list_all_iff split: sum.splits if_splits)

lemma classify_iff:
  "(\<exists>a'. classifyRootSignature L store runID rootBytes signer a = (a', None)) \<longleftrightarrow>
     attested_signature L store runID rootBytes signer"
  by (auto simp: classifyRootSignature_def attested_signature_def VerifyRootBytes_def Let_def not_le
      split: sum.splits option.splits if_splits)

lemma checkRunlog_iff:
  "(\<exists>a'. checkRunlog L store runID rootm signer minIndex a = (a', None)) \<longleftrightarrow>
     attested_log L store runID rootm signer minIndex"
proof (cases "GetLimited store ''_RECOVERY/RUNLOG'' MaxRunlogBytes")
  case (Inl e)
  then show ?thesis by (simp add: checkRunlog_def attested_log_def unchecked_step_def Let_def)
next
  case b: (Inr b)
  show ?thesis
  proof (cases signer)
    case (Some v)
    then show ?thesis using b
      by (auto simp: checkRunlog_def attested_log_def unchecked_step_def Let_def split: sum.splits prod.splits option.splits)
  next
    case None
    show ?thesis
    proof (cases "ParseRunlog b")
      case (Inl e)
      then show ?thesis using b None by (simp add: checkRunlog_def attested_log_def unchecked_step_def)
    next
      case (Inr es)
      obtain present runlogMax where f: "foldl (keyless_scan runID) (False, 0) es = (present, runlogMax)" by fastforce
      have facts: "present \<longleftrightarrow> list_ex (\<lambda>e. re_RunID e = runID) es"
        "minIndex \<le> runlogMax \<longleftrightarrow> minIndex \<le> 0 \<or> list_ex (\<lambda>e. minIndex \<le> re_Index e) es"
        using keyless_scan_facts [OF f, of minIndex] by simp_all
      have "(\<exists>a'. checkRunlog L store runID rootm signer minIndex a = (a', None)) \<longleftrightarrow>
          es \<noteq> [] \<and> present \<and> \<not> (minIndex > 0 \<and> runlogMax < minIndex)"
        using b None Inr f by (simp add: checkRunlog_def unchecked_step_def Let_def)
      moreover have "attested_log L store runID rootm signer minIndex \<longleftrightarrow>
          present \<and> (minIndex \<le> 0 \<or> list_ex (\<lambda>e. minIndex \<le> re_Index e) es)"
        using b None Inr facts(1) by (simp add: attested_log_def)
      moreover have "present \<Longrightarrow> es \<noteq> []" using facts(1) by auto
      ultimately show ?thesis using facts(2) by (meson linorder_not_le)
    qed
  qed
qed

lemma attest_structure_iff:
  "(\<exists>res. attest_structure L store runID rootm signer minIndex sf a = (Some res, None)) \<longleftrightarrow>
     checkRecipientSet L rootm = Inr () \<and> rm_ShardCount rootm = int (length (rm_Shards rootm))
     \<and> list_all (attested_shard store) (rm_Shards rootm) \<and> attested_log L store runID rootm signer minIndex \<and> sf = None"
proof (cases "checkRecipientSet L rootm")
  case (Inl e)
  then show ?thesis by (simp add: attest_structure_def)
next
  case rs: (Inr u)
  let ?a = "a\<lparr>at_DeclaredRecordCount := rm_DeclaredRecordCount rootm, at_RecipientSetVerified := True, at_ShardCount := rm_ShardCount rootm\<rparr>"
  obtain a1 e1 where v: "verifyShardHashes store rootm ?a = (a1, e1)" by fastforce
  show ?thesis
  proof (cases e1)
    case (Some e)
    then show ?thesis using rs v verifyShardHashes_iff(1) [of store rootm ?a] by (auto simp: attest_structure_def Let_def)
  next
    case None
    obtain a2 e2 where r: "checkRunlog L store runID rootm signer minIndex a1 = (a2, e2)" by fastforce
    have "e2 = None \<longleftrightarrow> attested_log L store runID rootm signer minIndex"
      using checkRunlog_iff [of L store runID rootm signer minIndex a1] r by auto
    then show ?thesis using rs v None r verifyShardHashes_iff(1) [of store rootm ?a]
      by (cases e2) (simp_all add: attest_structure_def Let_def)
  qed
qed

text \<open>
  C17. The keyless attestation passes exactly when what it is documented to establish holds: the root of that
  very run is read, of a known version and envelope; its signature object is there, of the hybrid length,
  and verifies when a signer is pinned; the recipient set is intact; as many shards are listed as are
  signed and each is present with the signed hash; and the run log is fresh under the signer's signature,
  or, with no signer, parses, names the run and reaches the pinned index.
\<close>
theorem attest_passes_iff:
  "(\<exists>res. Attest L store runID signer minIndex = (Some res, None)) \<longleftrightarrow>
     (\<exists>rootBytes rootm. attested L store runID signer minIndex rootBytes rootm)"
proof (cases "(\<exists>rid. DecodeULID runID = Inr rid) \<and> (\<exists>b. openRootManifest store runID = Inr b)")
  case False
  then show ?thesis by (auto simp: Attest_def attested_def split: sum.splits)
next
  case True
  then obtain rid b where d: "DecodeULID runID = Inr rid" "openRootManifest store runID = Inr b" by blast
  obtain a sf where c: "classifyRootSignature L store runID b signer (initial_attest runID signer) = (a, sf)" by fastforce
  have sf: "sf = None \<longleftrightarrow> attested_signature L store runID b signer"
    using classify_iff [of L store runID b signer "initial_attest runID signer"] c by auto
  show ?thesis
  proof (cases "rbind (ParseRoot b) (\<lambda>rootm. rbind (checkFormatVersion (rm_FormatVersion rootm)) (\<lambda>_.
              rbind (checkEnvelope rootm) (\<lambda>_. Inr rootm)))")
    case (Inl e)
    then show ?thesis using d c by (auto simp: Attest_def attested_def)
  next
    case (Inr m)
    then have m: "ParseRoot b = Inr m" "checkFormatVersion (rm_FormatVersion m) = Inr ()" "checkEnvelope m = Inr ()"
      by auto
    show ?thesis
      using attest_structure_iff [of L store runID m signer minIndex sf a] sf d c m
      by (auto simp: Attest_def attested_def)
  qed
qed

text \<open>
  A run that opens with the identity, in the strict mode and from a store that answers a plain and a bounded
  read alike, is attested under the same signer and pin: the keyless check never refuses what the keyed
  verification accepts.
\<close>

lemma openOneShard_hash:
  "openOneShard Background store rootm mk rid sh = Inr x \<Longrightarrow> storeGet Background store (sh_Object sh) = st_Get store (sh_Object sh)
     \<Longrightarrow> attested_shard store sh"
  by (auto simp: openOneShard_def openOneShardSized_def attested_shard_def split: if_splits)

lemma mapr_all: "mapr f xs = Inr ys \<Longrightarrow> x \<in> set xs \<Longrightarrow> \<exists>y. f x = Inr y"
  by (induction xs arbitrary: ys) auto

lemma opened_run_is_attested:
  assumes "Open L store runID recipient signer opts = Inr r"
    "\<not> op_AllowUnverified opts" "\<not> op_AllowUnverifiedRunlog opts" "\<not> op_AllowStale opts"
    "\<And>k. storeGet Background store k = st_Get store k"
  shows "\<exists>rootBytes. attested L store runID (Some signer) (op_MinRunlogIndex opts) rootBytes (rr_root r)"
proof -
  obtain rid m master oc pre recs where g: "open_gates L store runID recipient signer opts = Inr (rid, m, master, oc)"
    and s: "openShards store m master rid = Inr (pre, recs)" "checkCompleteness m recs = Inr ()"
    and t: "\<exists>x. open_tail L store runID m signer opts oc = Inr x" and m: "rr_root r = m"
    using assms(1) by (auto simp: Open_factored)
  obtain b oc0 where b: "DecodeULID runID = Inr rid" "openRootManifest store runID = Inr b"
    "verifyRootSignatureGate L store runID b signer opts (initial_outcome opts) = Inr oc0" "ParseRoot b = Inr m"
    "checkFormatVersion (rm_FormatVersion m) = Inr ()" "checkEnvelope m = Inr ()" "rm_RunID m = runID"
    "checkRecipientSet L m = Inr ()"
    using g by (auto simp: open_gates_def split: if_splits)
  have "attested_signature L store runID b (Some signer)"
    using b(3) assms(2) by (auto simp: verifyRootSignatureGate_def signature_result_def attested_signature_def VerifyRootBytes_def
        Let_def split: sum.splits if_splits)
  moreover have "list_all (attested_shard store) (rm_Shards m)"
  proof -
    obtain opened where "mapr (openOneShard Background store m (DeriveMK master rid) rid) (rm_Shards m) = Inr opened"
      using s(1) by (auto simp: openShards_def Let_def)
    then show ?thesis using mapr_all openOneShard_hash assms(5) by (fastforce simp: list_all_iff)
  qed
  moreover have "rm_ShardCount m = int (length (rm_Shards m))" using s(2) by (simp add: checkCompleteness_def split: if_splits)
  moreover have "attested_log L store runID m (Some signer) (op_MinRunlogIndex opts)"
  proof -
    obtain fresh ferr where f: "checkFreshness L store runID m signer (op_MinRunlogIndex opts) = (fresh, ferr)" by fastforce
    have "\<not> acknowledges opts fresh" using assms(2-4) by (simp add: acknowledges_def)
    then have "ferr = None" using t f by (auto simp: open_tail_def split: option.splits if_splits)
    then show ?thesis using f by (auto simp: checkFreshness_def attested_log_def Let_def split: sum.splits)
  qed
  ultimately show ?thesis using b m by (auto simp: attested_def)
qed

end
