(* ===== verification/Receipt.thy ===== *)
theory Receipt
  imports Attest
begin

text \<open>
  \<open>internal/format/receipt.go\<close>: the record a verify or a restore emits. As for the documents of the archive,
  each struct has its zero value, the fields \<open>json.Unmarshal\<close> stores into and the Go value
  \<open>json.Marshal\<close> sees; a map of counts is the list of its entries, and a nil map and an empty one are the
  same. Signing and verifying both go through the canonical text of the receipt with its signature field empty.
\<close>

section \<open>The record\<close>

fun put_entry :: "string \<Rightarrow> int \<Rightarrow> (string \<times> int) list \<Rightarrow> (string \<times> int) list" where
  "put_entry k i [] = [(k, i)]"
| "put_entry k i (e # m) = (if fst e = k then (k, i) # m else e # put_entry k i m)"

fun dec_int_entries :: "(string \<times> jval) list \<Rightarrow> (string \<times> int) list \<Rightarrow> (string \<times> int) list option" where
  "dec_int_entries [] m = Some m"
| "dec_int_entries (kv # kvs) m =
     (case dec_int (snd kv) 0 of None \<Rightarrow> None | Some i \<Rightarrow> dec_int_entries kvs (put_entry (fst kv) i m))"

definition dec_int_map :: "(string \<times> int) list decoder" where
  "dec_int_map v x = (case v of JNull \<Rightarrow> Some [] | JObject kvs \<Rightarrow> dec_int_entries kvs x | _ \<Rightarrow> None)"

definition go_int_map :: "(string \<times> int) list \<Rightarrow> goval" where
  "go_int_map m = GMap (map (\<lambda>e. (fst e, GInt (snd e))) m)"

record ReceiptFreshness =
  rf_RunlogIndex :: int
  rf_IsLatestForDownpipe :: bool
  rf_RollbackWarning :: bool
  rf_MinIndexPinned :: int
  rf_Checked :: bool

definition zero_ReceiptFreshness :: ReceiptFreshness where
  "zero_ReceiptFreshness = \<lparr>rf_RunlogIndex = 0,
     rf_IsLatestForDownpipe = False,
     rf_RollbackWarning = False,
     rf_MinIndexPinned = 0,
     rf_Checked = False\<rparr>"

definition ReceiptFreshness_fields :: "ReceiptFreshness fields" where
  "ReceiptFreshness_fields = [fld ''runlogIndex'' dec_int rf_RunlogIndex rf_RunlogIndex_update,
     fld ''isLatestForDownpipe'' dec_bool rf_IsLatestForDownpipe rf_IsLatestForDownpipe_update,
     fld ''rollbackWarning'' dec_bool rf_RollbackWarning rf_RollbackWarning_update,
     fld ''minIndexPinned'' dec_int rf_MinIndexPinned rf_MinIndexPinned_update,
     fld ''checked'' dec_bool rf_Checked rf_Checked_update]"

definition goval_ReceiptFreshness :: "ReceiptFreshness \<Rightarrow> goval" where
  "goval_ReceiptFreshness r = GStruct [(''runlogIndex'', True, False, GInt (rf_RunlogIndex r)),
     (''isLatestForDownpipe'', True, False, GBool (rf_IsLatestForDownpipe r)),
     (''rollbackWarning'', True, False, GBool (rf_RollbackWarning r)),
     (''minIndexPinned'', True, False, GInt (rf_MinIndexPinned r)),
     (''checked'', True, False, GBool (rf_Checked r))]"

record ReceiptTarget =
  rt_Type :: string
  rt_ValueVerified :: bool

definition zero_ReceiptTarget :: ReceiptTarget where
  "zero_ReceiptTarget = \<lparr>rt_Type = '''',
     rt_ValueVerified = False\<rparr>"

definition ReceiptTarget_fields :: "ReceiptTarget fields" where
  "ReceiptTarget_fields = [fld ''type'' dec_string rt_Type rt_Type_update,
     fld ''valueVerified'' dec_bool rt_ValueVerified rt_ValueVerified_update]"

definition goval_ReceiptTarget :: "ReceiptTarget \<Rightarrow> goval" where
  "goval_ReceiptTarget r = GStruct [(''type'', True, False, GString (rt_Type r)),
     (''valueVerified'', True, False, GBool (rt_ValueVerified r))]"

record Receipt =
  rc_Kind :: string
  rc_FormatVersion :: string
  rc_RunID :: string
  rc_DownpipeID :: string
  rc_StartedAt :: string
  rc_FinishedAt :: string
  rc_Mode :: string
  rc_SignerExpected :: string
  rc_SignatureResult :: string
  rc_Completeness :: string
  rc_BreakGlassVerified :: bool
  rc_DeclaredRecordCount :: int
  rc_RecordsVerified :: int
  rc_RecordsRestored :: int
  rc_VanishedExcluded :: "int option"
  rc_DanglingSegments :: "int option"
  rc_IncompleteMarkers :: int
  rc_IncompleteMarkerKinds :: "(string \<times> int) list"
  rc_RecordsUnwritten :: int
  rc_UnwrittenKinds :: "(string \<times> int) list"
  rc_RecoveryBundleVerified :: bool
  rc_Freshness :: ReceiptFreshness
  rc_Target :: ReceiptTarget
  rc_ExitCode :: int
  rc_Signed :: bool
  rc_ReceiptSignature :: string

definition zero_Receipt :: Receipt where
  "zero_Receipt = \<lparr>rc_Kind = '''',
     rc_FormatVersion = '''',
     rc_RunID = '''',
     rc_DownpipeID = '''',
     rc_StartedAt = '''',
     rc_FinishedAt = '''',
     rc_Mode = '''',
     rc_SignerExpected = '''',
     rc_SignatureResult = '''',
     rc_Completeness = '''',
     rc_BreakGlassVerified = False,
     rc_DeclaredRecordCount = 0,
     rc_RecordsVerified = 0,
     rc_RecordsRestored = 0,
     rc_VanishedExcluded = None,
     rc_DanglingSegments = None,
     rc_IncompleteMarkers = 0,
     rc_IncompleteMarkerKinds = [],
     rc_RecordsUnwritten = 0,
     rc_UnwrittenKinds = [],
     rc_RecoveryBundleVerified = False,
     rc_Freshness = zero_ReceiptFreshness,
     rc_Target = zero_ReceiptTarget,
     rc_ExitCode = 0,
     rc_Signed = False,
     rc_ReceiptSignature = ''''\<rparr>"

definition Receipt_fields :: "Receipt fields" where
  "Receipt_fields = [fld ''kind'' dec_string rc_Kind rc_Kind_update,
     fld ''formatVersion'' dec_string rc_FormatVersion rc_FormatVersion_update,
     fld ''runId'' dec_string rc_RunID rc_RunID_update,
     fld ''downpipeId'' dec_string rc_DownpipeID rc_DownpipeID_update,
     fld ''startedAt'' dec_string rc_StartedAt rc_StartedAt_update,
     fld ''finishedAt'' dec_string rc_FinishedAt rc_FinishedAt_update,
     fld ''mode'' dec_string rc_Mode rc_Mode_update,
     fld ''signerExpected'' dec_string rc_SignerExpected rc_SignerExpected_update,
     fld ''signatureResult'' dec_string rc_SignatureResult rc_SignatureResult_update,
     fld ''completeness'' dec_string rc_Completeness rc_Completeness_update,
     fld ''breakGlassVerified'' dec_bool rc_BreakGlassVerified rc_BreakGlassVerified_update,
     fld ''declaredRecordCount'' dec_int rc_DeclaredRecordCount rc_DeclaredRecordCount_update,
     fld ''recordsVerified'' dec_int rc_RecordsVerified rc_RecordsVerified_update,
     fld ''recordsRestored'' dec_int rc_RecordsRestored rc_RecordsRestored_update,
     fld ''vanishedExcluded'' (dec_ptr dec_int 0) rc_VanishedExcluded rc_VanishedExcluded_update,
     fld ''danglingSegments'' (dec_ptr dec_int 0) rc_DanglingSegments rc_DanglingSegments_update,
     fld ''incompleteMarkers'' dec_int rc_IncompleteMarkers rc_IncompleteMarkers_update,
     fld ''incompleteMarkerKinds'' dec_int_map rc_IncompleteMarkerKinds rc_IncompleteMarkerKinds_update,
     fld ''recordsUnwritten'' dec_int rc_RecordsUnwritten rc_RecordsUnwritten_update,
     fld ''unwrittenKinds'' dec_int_map rc_UnwrittenKinds rc_UnwrittenKinds_update,
     fld ''recoveryBundleVerified'' dec_bool rc_RecoveryBundleVerified rc_RecoveryBundleVerified_update,
     fld ''freshness'' (dec_struct ReceiptFreshness_fields) rc_Freshness rc_Freshness_update,
     fld ''target'' (dec_struct ReceiptTarget_fields) rc_Target rc_Target_update,
     fld ''exitCode'' dec_int rc_ExitCode rc_ExitCode_update,
     fld ''signed'' dec_bool rc_Signed rc_Signed_update,
     fld ''receiptSignature'' dec_string rc_ReceiptSignature rc_ReceiptSignature_update]"

definition goval_Receipt :: "Receipt \<Rightarrow> goval" where
  "goval_Receipt r = GStruct [(''kind'', True, False, GString (rc_Kind r)),
     (''formatVersion'', True, False, GString (rc_FormatVersion r)),
     (''runId'', True, False, GString (rc_RunID r)),
     (''downpipeId'', True, False, GString (rc_DownpipeID r)),
     (''startedAt'', True, False, GString (rc_StartedAt r)),
     (''finishedAt'', True, False, GString (rc_FinishedAt r)),
     (''mode'', True, False, GString (rc_Mode r)),
     (''signerExpected'', True, False, GString (rc_SignerExpected r)),
     (''signatureResult'', True, False, GString (rc_SignatureResult r)),
     (''completeness'', True, False, GString (rc_Completeness r)),
     (''breakGlassVerified'', True, False, GBool (rc_BreakGlassVerified r)),
     (''declaredRecordCount'', True, False, GInt (rc_DeclaredRecordCount r)),
     (''recordsVerified'', True, False, GInt (rc_RecordsVerified r)),
     (''recordsRestored'', True, False, GInt (rc_RecordsRestored r)),
     (''vanishedExcluded'', True, True, go_ptr GInt (rc_VanishedExcluded r)),
     (''danglingSegments'', True, True, go_ptr GInt (rc_DanglingSegments r)),
     (''incompleteMarkers'', True, True, GInt (rc_IncompleteMarkers r)),
     (''incompleteMarkerKinds'', True, True, go_int_map (rc_IncompleteMarkerKinds r)),
     (''recordsUnwritten'', True, True, GInt (rc_RecordsUnwritten r)),
     (''unwrittenKinds'', True, True, go_int_map (rc_UnwrittenKinds r)),
     (''recoveryBundleVerified'', True, False, GBool (rc_RecoveryBundleVerified r)),
     (''freshness'', True, False, goval_ReceiptFreshness (rc_Freshness r)),
     (''target'', True, False, goval_ReceiptTarget (rc_Target r)),
     (''exitCode'', True, False, GInt (rc_ExitCode r)),
     (''signed'', True, False, GBool (rc_Signed r)),
     (''receiptSignature'', True, True, GString (rc_ReceiptSignature r))]"


record ReceiptInput =
  ri_StartedAt :: string
  ri_FinishedAt :: string
  ri_SignerExpected :: string
  ri_TargetType :: string
  ri_Restored :: int
  ri_ExitCode :: int
  ri_MinIndexPinned :: int
  ri_RecoveryBundleVerified :: bool
  ri_Completeness :: string
  ri_VanishedExcluded :: "int option"
  ri_DanglingSegments :: "int option"
  ri_IncompleteMarkers :: int
  ri_IncompleteMarkerKinds :: "(string \<times> int) list"
  ri_RecordsUnwritten :: int
  ri_UnwrittenKinds :: "(string \<times> int) list"

text \<open>The interface both readers satisfy, and what the load-all reader answers to it.\<close>

record ReceiptSource =
  rs_Root :: RootManifest
  rs_Outcome :: Outcome
  rs_Freshness :: FreshnessResult
  rs_RecordCount :: int

definition receipt_source :: "'a Reader_scheme \<Rightarrow> ReceiptSource" where
  "receipt_source r = \<lparr>rs_Root = rr_root r, rs_Outcome = rr_outcome r, rs_Freshness = rr_freshness r,
     rs_RecordCount = RecordCount r\<rparr>"

definition stream_receipt_source :: "StreamReader \<Rightarrow> ReceiptSource" where
  "stream_receipt_source sr = \<lparr>rs_Root = rr_root sr, rs_Outcome = rr_outcome sr, rs_Freshness = rr_freshness sr,
     rs_RecordCount = sr_recordCount sr\<rparr>"

definition BuildReceipt :: "ReceiptSource \<Rightarrow> ReceiptInput \<Rightarrow> Receipt" where
  "BuildReceipt r inp =
     (let rootm = rs_Root r; oc = rs_Outcome r; fresh = rs_Freshness r;
          completeness = (if ri_Completeness inp \<noteq> '''' then ri_Completeness inp else oc_Completeness oc)
      in \<lparr>rc_Kind = ''downpipe-restore-receipt'',
          rc_FormatVersion = rm_FormatVersion rootm,
          rc_RunID = rm_RunID rootm,
          rc_DownpipeID = rm_DownpipeID rootm,
          rc_StartedAt = ri_StartedAt inp,
          rc_FinishedAt = ri_FinishedAt inp,
          rc_Mode = oc_Mode oc,
          rc_SignerExpected = ri_SignerExpected inp,
          rc_SignatureResult = oc_SignatureResult oc,
          rc_Completeness = completeness,
          rc_BreakGlassVerified = oc_BreakGlassVerified oc,
          rc_DeclaredRecordCount = rm_DeclaredRecordCount rootm,
          rc_RecordsVerified = rs_RecordCount r,
          rc_RecordsRestored = ri_Restored inp,
          rc_VanishedExcluded = ri_VanishedExcluded inp,
          rc_DanglingSegments = ri_DanglingSegments inp,
          rc_IncompleteMarkers = ri_IncompleteMarkers inp,
          rc_IncompleteMarkerKinds = ri_IncompleteMarkerKinds inp,
          rc_RecordsUnwritten = ri_RecordsUnwritten inp,
          rc_UnwrittenKinds = ri_UnwrittenKinds inp,
          rc_RecoveryBundleVerified = ri_RecoveryBundleVerified inp,
          rc_Freshness = \<lparr>rf_RunlogIndex = fs_MaxIndexForDownpipe fresh,
            rf_IsLatestForDownpipe = fs_IsLatestForDownpipe fresh,
            rf_RollbackWarning = fs_RollbackWarning fresh,
            rf_MinIndexPinned = ri_MinIndexPinned inp,
            rf_Checked = (\<not> fs_Unchecked fresh)\<rparr>,
          rc_Target = \<lparr>rt_Type = ri_TargetType inp, rt_ValueVerified = False\<rparr>,
          rc_ExitCode = ri_ExitCode inp,
          rc_Signed = False,
          rc_ReceiptSignature = ''''\<rparr>)"

section \<open>Signing and verifying\<close>

text \<open>\<open>Sign\<close> changes the receipt before it can fail: the receipt it leaves is returned with the error.\<close>

definition receipt_Sign :: "pk_lib \<Rightarrow> bytes \<Rightarrow> Receipt \<Rightarrow> HybridSigner \<Rightarrow> Receipt \<times> goerr option" where
  "receipt_Sign L rnd rcpt signer =
     (let r = rcpt\<lparr>rc_Signed := True, rc_ReceiptSignature := ''''\<rparr>
      in case CanonicalJSON (goval_Receipt r) of
           Inl err \<Rightarrow> (r, Some (Errorf ''canonicalise receipt: %w'' [AWrap err]))
         | Inr canonical \<Rightarrow>
             (case Sign L rnd signer canonical of
                Inl err \<Rightarrow> (r, Some (Errorf ''sign receipt: %w'' [AWrap (CryptoErr err)]))
              | Inr sig \<Rightarrow> (r\<lparr>rc_ReceiptSignature := B64Encode sig\<rparr>, None)))"

definition check_receipt :: "pk_lib \<Rightarrow> Receipt \<Rightarrow> HybridVerifier \<Rightarrow> Receipt \<times> goerr option" where
  "check_receipt L rcpt verifier =
     (if \<not> rc_Signed rcpt \<or> rc_ReceiptSignature rcpt = '''' then (rcpt, Some (Errorf ''receipt is not signed'' []))
      else (case B64Decode (rc_ReceiptSignature rcpt) of
        Inl err \<Rightarrow> (rcpt, Some (Errorf ''decode receipt signature: %w'' [AWrap err]))
      | Inr sig \<Rightarrow>
          let r = rcpt\<lparr>rc_Signed := True, rc_ReceiptSignature := ''''\<rparr>
          in case CanonicalJSON (goval_Receipt r) of
               Inl err \<Rightarrow> (r, Some (Errorf ''canonicalise receipt: %w'' [AWrap err]))
             | Inr canonical \<Rightarrow>
                 (case Verify L verifier canonical sig of
                    Inl err \<Rightarrow> (r, Some (Errorf ''verify receipt signature: %w'' [AWrap (CryptoErr err)]))
                  | Inr _ \<Rightarrow> (r\<lparr>rc_ReceiptSignature := B64Encode sig\<rparr>, None))))"

definition VerifyReceipt :: "pk_lib \<Rightarrow> bytes \<Rightarrow> HybridVerifier \<Rightarrow> Receipt option \<times> goerr option" where
  "VerifyReceipt L receiptJSON verifier =
     (case Unmarshal (dec_struct Receipt_fields) zero_Receipt (string_of receiptJSON) of
        None \<Rightarrow> (None, Some (Errorf ''parse receipt: %w'' [AWrap (JsonErr ''receipt'')]))
      | Some rcpt \<Rightarrow> (case check_receipt L rcpt verifier of (r, err) \<Rightarrow> (Some r, err)))"

definition receipt_Marshal :: "Receipt \<Rightarrow> goerr + bytes" where
  "receipt_Marshal rcpt = CanonicalJSON (goval_Receipt rcpt)"

section \<open>Lemmas\<close>

text \<open>A receipt that was signed is accepted, unchanged, by the check under the signer's verifier.\<close>

lemma signed_receipt_checks:
  assumes "sig_ok L" "receipt_Sign L rnd rcpt s = (r, None)"
  shows "check_receipt L r (Verifier L s) = (r, None)"
proof -
  let ?r = "rcpt\<lparr>rc_Signed := True, rc_ReceiptSignature := ''''\<rparr>"
  obtain c where c: "CanonicalJSON (goval_Receipt ?r) = Inr c"
    using assms(2) by (auto simp: receipt_Sign_def Let_def split: sum.splits)
  obtain sig where sig: "Sign L rnd s c = Inr sig" using assms(2) c by (auto simp: receipt_Sign_def Let_def split: sum.splits)
  then have r: "r = ?r\<lparr>rc_ReceiptSignature := B64Encode sig\<rparr>" using assms(2) c by (simp add: receipt_Sign_def)
  have v: "Verify L (Verifier L s) c sig = Inr ()" by (rule Verify_Sign [OF assms(1) sig])
  have "length sig \<ge> ed25519_SignatureSize" using v by (auto simp: Verify_def split: if_splits)
  then have "sig \<noteq> []" by (auto simp: ed25519_SignatureSize_def)
  then have ne: "B64Encode sig \<noteq> ''''" by (cases sig rule: b64_sextets.cases) (auto simp: B64Encode_def b64_encode_def)
  have d: "B64Decode (B64Encode sig) = Inr sig" by (simp add: B64Decode_def B64Encode_def)
  have "rc_Signed r" "rc_ReceiptSignature r = B64Encode sig" "r\<lparr>rc_Signed := True, rc_ReceiptSignature := ''''\<rparr> = ?r"
    using r by simp_all
  then show ?thesis using ne d c v r by (simp add: check_receipt_def Let_def)
qed

text \<open>
  What an accepted receipt is worth: the canonical text of the receipt returned, with its signature field
  empty, verifies under the signer; the signature it carries is the one that was checked.
\<close>

lemma accepted_receipt_is_signed:
  assumes "VerifyReceipt L b v = (Some r, None)"
  shows "\<exists>c sig. CanonicalJSON (goval_Receipt (r\<lparr>rc_ReceiptSignature := ''''\<rparr>)) = Inr c \<and> rc_Signed r
    \<and> rc_ReceiptSignature r = B64Encode sig \<and> Verify L v c sig = Inr ()"
  using assms by (auto simp: VerifyReceipt_def check_receipt_def Let_def split: option.splits if_splits sum.splits)

text \<open>The two readers give the same receipt for a run both open.\<close>

lemma receipt_of_either_reader:
  "stream_receipt_source (streaming r signer opts) = receipt_source r"
  by (simp add: stream_receipt_source_def receipt_source_def streaming_def)

end
