(* ===== verification/CommandLine.thy ===== *)
theory CommandLine
  imports Receipt Targets Custody
begin

text \<open>
  \<open>cmd/downpipe/main.go\<close>, \<open>identity_source.go\<close>, \<open>signer_source.go\<close> and \<open>recombine.go\<close>: where a command gets its
  archive, its identity and its signer from, the receipt it leaves and the status it exits with. The parsed flags are
  given. What a command prints is the list of its lines, a line being its format with its arguments. The files a
  command reads are functions of their path and do not change while it runs; the environment is a function from
  names to values, the empty text when a variable is not set. The texts of the errors and notices of the custody
  package, which only appear in messages, are an argument.
\<close>

section \<open>Printed lines, status and hints\<close>

type_synonym line = "string \<times> goarg list"

definition Printf :: "string \<Rightarrow> goarg list \<Rightarrow> line" where
  "Printf f as = (f, as)"

definition exitUncoded :: int where "exitUncoded = 1"
definition exitUnclassified :: int where "exitUnclassified = 1"

definition errHelpRequested :: goerr where
  "errHelpRequested = Sentinel ''help requested''"

definition readsAnArchive :: "string \<Rightarrow> bool" where
  "readsAnArchive cmd \<longleftrightarrow>
     List.member [''inspect'', ''keys'', ''verify'', ''attest'', ''restore'', ''prune''] cmd"

definition acceptsFreshnessOverride :: "string \<Rightarrow> bool" where
  "acceptsFreshnessOverride cmd \<longleftrightarrow> List.member [''verify'', ''restore''] cmd"

definition kept_code :: string where
  "kept_code = ''Exit %d is the code that read failure kept, not a finding against the archive: no signature or hash failed here.''"

definition dangling_code :: string where
  "dangling_code = ''Exit %d is the code for exactly this: the run's signed manifests all verified and name an object the archive does not hold. It is not a finding against the archive's authenticity, and no signature, tag or hash failed here.''"

definition absent_hint :: string where
  "absent_hint = ''downpipe: an object this run needs was not found at all, so nothing was retrieved to check. %s Check that --archive points at the whole bucket tree (it must hold run/, seg/ and _RECOVERY/ together), that the copy or download finished, and that --run names a run present there. Run 'downpipe keys --which --archive <dir>' to list the runs the archive actually holds, then retry. If the path and the run are right and the object is genuinely gone from the destination, that is a real gap in the archive and is worth investigating as one.''"

definition hintAbsentObject :: "goerr \<Rightarrow> int \<Rightarrow> string \<Rightarrow> line list" where
  "hintAbsentObject err c cmd =
     (if \<not> readsAnArchive cmd \<or> \<not> is_not_exist err then []
      else if \<not> List.member [exitUncoded, ExitUnverified, ExitIncomplete, ExitPlaintext, ExitStale, ExitDangling] c then []
      else (let kept = Errorf (if c = ExitDangling then dangling_code else kept_code) [AInt c]
            in [Printf absent_hint [AVal kept]]))"

definition mismatch_hint :: string where
  "mismatch_hint = ''downpipe: this is a key mismatch, not a finding against the archive. The archive is intact and sealed to the identities named above; the key the command held is a different one. Find the key file whose fingerprint matches one of them (your recovery sheet records which identity is which) and re-run with that file as --identity. If you recovered from an M-of-N custody quorum and passed --share with --envelope rather than a key file, you hold no key file to swap and the same conclusion applies to the quorum: those shares and that envelope rebuild a key this run was not sealed to, so they are from a different ceremony or a different split, and the fix is the right custody artefacts rather than more shares from the same set. Retrying with the correct key is the right response here, and is the exception to the exit-code table's rule about not retrying on a different key. Run 'downpipe keys --which' against the archive to see every identity that opens a run in it.''"

definition hintIdentityMismatch :: "goerr \<Rightarrow> line list" where
  "hintIdentityMismatch err =
     (if list_ex (\<lambda>e. case e of CryptoErr (ErrIdentityMismatch _ _) \<Rightarrow> True | _ \<Rightarrow> False) (chain err)
      then [Printf mismatch_hint []] else [])"

definition unchecked_hint :: string where
  "unchecked_hint = (''downpipe: this is the anti-rollback freshness check, and the line above says it could not be run at all, so nothing was established about this run'' @ [CHR 0x27] @ ''s recency. --allow-stale does not cover this and will refuse again: it is an age word, and no age was measured. The acknowledgement here is --allow-unverified-runlog, which waives that check rather than satisfying it, and a bucket someone has rolled back or replaced looks exactly like this. Fetch the RUNLOG and its signature from a copy you trust and re-run first; see docs/RECOVER.md '' @ [CHR 0x22] @ ''Freshness / rollback (exit 5)'' @ [CHR 0x22] @ ''.'')"

definition anomaly_hint :: string where
  "anomaly_hint = (''downpipe: this is the anti-rollback freshness check. The RUNLOG verified against --signer, and the line above says the log contradicts itself, which means it was rewritten or hand-assembled rather than appended to by the engine. --allow-stale does not cover this and will refuse again; the acknowledgement is --allow-unverified-runlog. Compare this log against a copy you trust before you act on the outcome; see docs/RECOVER.md '' @ [CHR 0x22] @ ''Freshness / rollback (exit 5)'' @ [CHR 0x22] @ ''.'')"

definition stale_hint :: string where
  "stale_hint = (''downpipe: this is the anti-rollback freshness check, not a decryption failure. The check ran, and the line above says what it found: this run is not the latest for its downpipe, or the RUNLOG'' @ [CHR 0x27] @ ''s maximum index is below your --min-runlog-index pin. If you chose an older run on purpose, or you expected that index, re-run with --allow-stale to restore the intact data. If you cannot explain it, treat it as a rollback signal and compare the bucket against a copy you trust first; see docs/RECOVER.md '' @ [CHR 0x22] @ ''Freshness / rollback (exit 5)'' @ [CHR 0x22] @ ''.'')"

definition freshness_hint :: "goerr \<Rightarrow> int \<Rightarrow> string \<Rightarrow> line list" where
  "freshness_hint err c cmd =
     (if c = ExitStale \<and> acceptsFreshnessOverride cmd \<and> \<not> is_not_exist err then
        [Printf (if errors_Is err ErrFreshnessUnchecked then unchecked_hint
                 else if errors_Is err ErrRunlogChainAnomaly then anomaly_hint else stale_hint) []]
      else [])"

text \<open>
  How \<open>run\<close> ends for the error a subcommand returned: the status and what is printed. The first coded error of the
  chain decides; the hint about the identity looks at the chain below it.
\<close>

fun coded_part :: "goerr list \<Rightarrow> (int \<times> goerr) option" where
  "coded_part [] = None"
| "coded_part (e # es) = (case e of ExitError c e' \<Rightarrow> Some (c, ExitError c e') | _ \<Rightarrow> coded_part es)"

definition finish_run :: "string \<Rightarrow> goerr option \<Rightarrow> int \<times> line list" where
  "finish_run cmd err =
     (case err of None \<Rightarrow> (0, [])
      | Some e \<Rightarrow>
          if errors_Is e errHelpRequested then (0, [])
          else (case coded_part (chain e) of
            Some (c, ee) \<Rightarrow>
              (c, [Printf ''downpipe: %v'' [AVal e]] @ freshness_hint e c cmd @ hintAbsentObject e c cmd
                    @ hintIdentityMismatch ee)
          | None \<Rightarrow> (exitUncoded, [Printf ''downpipe: %v'' [AVal e]] @ hintAbsentObject e exitUncoded cmd)))"

definition exit_status :: "string \<Rightarrow> goerr option \<Rightarrow> int" where
  "exit_status cmd err = fst (finish_run cmd err)"

section \<open>The archive\<close>

record storeFlags =
  sf_archive :: string
  sf_s3Endpoint :: string
  sf_s3Bucket :: string
  sf_s3Region :: string
  sf_azureEndpoint :: string
  sf_azureContainer :: string

definition describe :: "storeFlags \<Rightarrow> string" where
  "describe sf =
     (if sf_s3Endpoint sf \<noteq> '''' then ''s3 '' @ sf_s3Endpoint sf @ ''/'' @ sf_s3Bucket sf
      else if sf_azureEndpoint sf \<noteq> '''' then ''azure '' @ sf_azureEndpoint sf @ ''/'' @ sf_azureContainer sf
      else if sf_archive sf \<noteq> '''' then ''archive '' @ sf_archive sf
      else ''unknown destination'')"

definition store_supplied :: "storeFlags \<Rightarrow> bool" where
  "store_supplied sf \<longleftrightarrow> sf_archive sf \<noteq> '''' \<or> sf_s3Endpoint sf \<noteq> '''' \<or> sf_azureEndpoint sf \<noteq> ''''"

record S3Config =
  s3_Endpoint :: string
  s3_Bucket :: string
  s3_Region :: string
  s3_AccessKeyID :: string
  s3_SecretKey :: string

record AzureConfig =
  az_Endpoint :: string
  az_Container :: string
  az_Account :: string
  az_AccountKey :: string
  az_SASToken :: string

text \<open>The three backends as the constructors that make them.\<close>

record 'd backends =
  bk_NewDirStore :: "string \<Rightarrow> 'd"
  bk_NewS3Store :: "S3Config \<Rightarrow> goerr + 'd"
  bk_NewAzureStore :: "AzureConfig \<Rightarrow> goerr + 'd"

definition resolveAzure :: "'d backends \<Rightarrow> (string \<Rightarrow> string) \<Rightarrow> storeFlags \<Rightarrow> goerr + 'd" where
  "resolveAzure bk env sf =
     (if sf_azureContainer sf = '''' then Inl (usagef ''--azure-container is required with --azure-endpoint'' [])
      else (let key = env ''AZURE_STORAGE_KEY''; sas = env ''AZURE_STORAGE_SAS_TOKEN''
            in if key = '''' \<and> sas = '''' then Inl (usagef ''set AZURE_STORAGE_KEY (a storage account access key) or AZURE_STORAGE_SAS_TOKEN (a shared access signature) to read from Azure Blob'' [])
               else map_err (ExitError ExitUsage)
                 (bk_NewAzureStore bk \<lparr>az_Endpoint = sf_azureEndpoint sf, az_Container = sf_azureContainer sf,
                    az_Account = env ''AZURE_STORAGE_ACCOUNT'', az_AccountKey = key, az_SASToken = sas\<rparr>)))"

definition store_resolve :: "'d backends \<Rightarrow> (string \<Rightarrow> string) \<Rightarrow> storeFlags \<Rightarrow> goerr + 'd" where
  "store_resolve bk env sf =
     (if sf_s3Endpoint sf \<noteq> '''' \<and> sf_azureEndpoint sf \<noteq> '''' then Inl (usagef ''--s3-endpoint and --azure-endpoint name two different destinations; pass one'' [])
      else if sf_azureEndpoint sf \<noteq> '''' then resolveAzure bk env sf
      else if sf_s3Endpoint sf \<noteq> '''' then
        (if sf_s3Bucket sf = '''' then Inl (usagef ''--s3-bucket is required with --s3-endpoint'' [])
         else (let ak = env ''AWS_ACCESS_KEY_ID''; sk = env ''AWS_SECRET_ACCESS_KEY''
               in if ak = '''' \<or> sk = '''' then Inl (usagef ''set AWS_ACCESS_KEY_ID and AWS_SECRET_ACCESS_KEY to read from S3'' [])
                  else map_err (ExitError ExitUsage)
                    (bk_NewS3Store bk \<lparr>s3_Endpoint = sf_s3Endpoint sf, s3_Bucket = sf_s3Bucket sf,
                       s3_Region = sf_s3Region sf, s3_AccessKeyID = ak, s3_SecretKey = sk\<rparr>)))
      else if sf_archive sf = '''' then Inl (usagef ''need --archive <dir>, --s3-endpoint <url> --s3-bucket <name>, or --azure-endpoint <url> --azure-container <name>'' [])
      else Inr (bk_NewDirStore bk (sf_archive sf)))"

section \<open>Key files\<close>

definition labelIdentity :: string where "labelIdentity = ''downpipe-identity-v1''"
definition labelRecipient :: string where "labelRecipient = ''downpipe-recipient-v1''"
definition labelSignerPublic :: string where "labelSignerPublic = ''downpipe-signer-public-v1''"
definition labelSignerPrivate :: string where "labelSignerPrivate = ''downpipe-signer-private-v1''"

definition parseKeyFileBytes :: "bytes \<Rightarrow> string \<Rightarrow> goerr + bytes" where
  "parseKeyFileBytes content label =
     (case string_fields [] (string_of content) of
        [l, text] \<Rightarrow> if l \<noteq> label then Inl (Errorf ''not a %s file'' [AStr label]) else of_opt (Base64Err text) (b64_decode text)
      | _ \<Rightarrow> Inl (Errorf ''not a %s file'' [AStr label]))"

definition keyFileLine :: "string \<Rightarrow> bytes \<Rightarrow> string" where
  "keyFileLine label raw = label @ '' '' @ b64_encode raw @ [CHR 0x0A]"

definition exists_message :: string where
  "exists_message = ''%s already exists and this refuses to overwrite key material: choose an empty --out directory, or move the existing files aside first if you are certain they are not needed''"

text \<open>Creating a key file: the path is one of the directory the command runs in.\<close>

definition writeKeyFile :: "filesys \<Rightarrow> string \<Rightarrow> string \<Rightarrow> bytes \<Rightarrow> filesys \<times> goerr option" where
  "writeKeyFile fs path label raw =
     (case os_OpenExcl fs (path_of path) of
        (fs, Some e) \<Rightarrow>
          (fs, Some (if e = EEXIST then usagef exists_message [AStr path]
                     else Errorf ''write key file %s: %w'' [AStr path, AWrap (PathError ''open'' path e)]))
      | (fs, None) \<Rightarrow>
          (case os_Write fs (path_of path) (bytes_of (keyFileLine label raw)) of
             (fs, Some (e, _)) \<Rightarrow> (fs, Some (Errorf ''write key file %s: %w'' [AStr path, AWrap (PathError ''write'' path e)]))
           | (fs, None) \<Rightarrow> (fs, None)))"

definition fingerprintPrefixes :: "string list" where
  "fingerprintPrefixes = [''dpr1:'', ''edmldsa1:'']"

definition fingerprint_flag_text :: string where
  "fingerprint_flag_text = ''. For verify and restore, pass this value with --signer-fingerprint instead of --signer''"

definition fingerprintFlagHint :: "string \<Rightarrow> string \<Rightarrow> string" where
  "fingerprintFlagHint pfx label =
     (if pfx = SignerFingerprintPrefix \<and> label = labelSignerPublic then fingerprint_flag_text else '''')"

definition origin_signer :: string where "origin_signer = ''signer.pub is the operator signer PUBLIC key, a file the key ceremony downloaded into your recovery kit. The recovery sheet carries only its fingerprint. From engine 0.3.7, the recovery bundle in the bucket also carries a copy of the current signer's signer.pub. Pass --signer-fingerprint with the signer fingerprint from your sheet, and the reader uses that copy only if the fingerprints match. The copy does not help when no such engine has written to the bucket, or when the signer was rotated after the run was sealed. Then signer.pub has to come from your kit''"
definition origin_recipient :: string where "origin_recipient = ''recipient.pub is the break-glass PUBLIC key, a file the key ceremony downloaded into your recovery kit. The recovery sheet carries only its fingerprint''"
definition origin_identity :: string where "origin_identity = ''identity.key is the break-glass PRIVATE key from your offline storage. If you hold it as custody shares instead, pass --envelope with M --share files rather than --identity''"
definition origin_private :: string where "origin_private = ''the signer private key is held by the writing engine and is not part of a recovery kit''"

definition keyFileOrigin :: "string \<Rightarrow> string" where
  "keyFileOrigin label =
     (if label = labelSignerPublic then origin_signer
      else if label = labelRecipient then origin_recipient
      else if label = labelIdentity then origin_identity
      else if label = labelSignerPrivate then origin_private
      else ''check the path'')"

definition not_a_file_message :: string where
  "not_a_file_message = ''%q is a fingerprint, not a file. %s. To check a file you already hold against the fingerprint on your sheet, run: downpipe keys --fingerprint%s''"

definition missingKeyFile :: "string \<Rightarrow> string \<Rightarrow> goerr \<Rightarrow> goerr" where
  "missingKeyFile path label err =
     (if \<not> is_not_exist err then err
      else (let origin = keyFileOrigin label
            in case filter (\<lambda>p. prefix p path) fingerprintPrefixes of
                 p # _ \<Rightarrow> Errorf not_a_file_message [AStr path, AStr origin, AStr (fingerprintFlagHint p label)]
               | [] \<Rightarrow> Errorf ''%w. %s'' [AWrap err, AStr origin]))"

text \<open>
  A file as it is opened: what \<open>Stat\<close> says of it (whether it is a regular file and its size), the bytes it delivers
  and the error its reading ends with, if any.
\<close>

record os_file =
  of_Stat :: "goerr + bool \<times> int"
  of_Body :: bytes
  of_ReadErr :: "goerr option"

type_synonym files = "string \<Rightarrow> goerr + os_file"

definition os_ReadFile :: "files \<Rightarrow> string \<Rightarrow> goerr + bytes" where
  "os_ReadFile files path =
     rbind (files path) (\<lambda>f. case of_ReadErr f of Some err \<Rightarrow> Inl err | None \<Rightarrow> Inr (of_Body f))"

text \<open>\<open>io.ReadAll\<close> of an \<open>io.LimitReader\<close>: an error behind the limit is not met.\<close>

definition read_limited :: "os_file \<Rightarrow> nat \<Rightarrow> goerr + bytes" where
  "read_limited f n =
     (if length (of_Body f) \<ge> n then Inr (take n (of_Body f))
      else (case of_ReadErr f of Some err \<Rightarrow> Inl err | None \<Rightarrow> Inr (of_Body f)))"

definition readKeyFile :: "files \<Rightarrow> string \<Rightarrow> string \<Rightarrow> goerr + bytes" where
  "readKeyFile files path label =
     rbind (map_err (missingKeyFile path label) (os_ReadFile files path)) (\<lambda>b.
       map_err (\<lambda>err. Errorf ''%s is %v'' [AStr path, AVal err]) (parseKeyFileBytes b label))"

definition missing_run_text :: string where
  "missing_run_text = '' To list the runs a source holds, which needs no run id and no keys, run: downpipe keys --which --archive <dir>.''"

definition check_candidate_text :: string where
  "check_candidate_text = ''. Check a candidate file against your sheet with: downpipe keys --fingerprint --signer <file>.''"

definition needs_identity_text :: string where
  "needs_identity_text = ''an identity (--identity <file>, or --share files with --envelope)''"

definition needs_signer_text :: string where
  "needs_signer_text = ''a signer (--signer <file>, or --signer-fingerprint <fingerprint from your recovery sheet>)''"

definition needs_source_text :: string where
  "needs_source_text = ''a source (--archive <dir>, --s3-endpoint <url> or --azure-endpoint <url>)''"

definition missingReaderInputs :: "string \<Rightarrow> string \<Rightarrow> bool \<Rightarrow> bool \<Rightarrow> bool \<Rightarrow> goerr" where
  "missingReaderInputs cmd run identitySupplied signerSupplied sourceSupplied =
     (let missing = (if run = '''' then [''--run <runId>''] else [])
            @ (if \<not> identitySupplied then [needs_identity_text] else [])
            @ (if \<not> signerSupplied then [needs_signer_text] else [])
            @ (if \<not> sourceSupplied then [needs_source_text] else []);
          msg = cmd @ '' needs ''
            @ concat (case missing of [] \<Rightarrow> [] | x # r \<Rightarrow> x # map (\<lambda>y. '', '' @ y) r) @ ''.''
            @ (if run = '''' then missing_run_text else '''')
            @ (if \<not> identitySupplied then '' '' @ keyFileOrigin labelIdentity @ ''.'' else '''')
            @ (if \<not> signerSupplied then '' '' @ keyFileOrigin labelSignerPublic @ check_candidate_text else '''')
      in ExitError ExitUsage (Errorf msg []))"

section \<open>Custody artefacts\<close>

definition maxArtefactBytes :: int where "maxArtefactBytes = 2 ^ 20"

definition usageErr :: "string \<Rightarrow> goerr" where
  "usageErr msg = ExitError ExitUsage (Errorf msg [])"

definition read_failed :: "string \<Rightarrow> goerr \<Rightarrow> goerr" where
  "read_failed path err = usagef ''read %s: %v'' [AStr path, AVal err]"

definition readArtefact :: "files \<Rightarrow> string \<Rightarrow> goerr + string" where
  "readArtefact files path =
     rbind (map_err (read_failed path) (files path)) (\<lambda>fh.
     rbind (map_err (read_failed path) (of_Stat fh)) (\<lambda>(regular, fsize).
       if \<not> regular then Inl (usagef ''read %s: not a regular file; a custody artefact is a saved file'' [AStr path])
       else if fsize > maxArtefactBytes then Inl (usagef ''read %s: %d bytes is far larger than any custody artefact; refusing'' [AStr path, AInt fsize])
       else rbind (map_err (read_failed path) (read_limited fh (nat (maxArtefactBytes + 1)))) (\<lambda>b.
         if int (length b) > maxArtefactBytes
         then Inl (usagef ''read %s: more than %d bytes is far larger than any custody artefact; refusing'' [AStr path, AInt maxArtefactBytes])
         else Inr (string_of b))))"

text \<open>
  Which of the errors is an \<open>IntegrityError\<close>; the text of an error of the custody package is an argument. A
  panic of that package is no error; the shares it is handed here are never empty.
\<close>

definition custodyErr :: "(custody_error \<Rightarrow> string) \<Rightarrow> string \<Rightarrow> custody_error \<Rightarrow> goerr" where
  "custodyErr ctext place err =
     (let shown = Errorf ''%s: %v'' [AStr place, AStr (ctext err)]
      in case err of
           ChecksumFails \<Rightarrow> ExitError ExitCustody shown
         | DecryptFails \<Rightarrow> ExitError ExitCustody shown
         | _ \<Rightarrow> ExitError ExitUsage shown)"

fun labelled_from :: "string list \<Rightarrow> bool" where
  "labelled_from [] = False"
| "labelled_from (raw # r) =
     (let line = TrimSpace (trim_right_set [CHR 0x0D] raw)
      in if line = '''' \<or> prefix ''#'' line then labelled_from r else line = ShareFileMagic)"

definition isLabelledShare :: "string \<Rightarrow> bool" where
  "isLabelledShare text = labelled_from (split_on (CHR 0x0A) text)"

fun load_shares ::
  "(custody_error \<Rightarrow> string) \<Rightarrow> files \<Rightarrow> string list \<Rightarrow> Inputs \<Rightarrow> goerr + Inputs" where
  "load_shares ctext files [] inp = Inr inp"
| "load_shares ctext files (p # ps) inp =
     rbind (readArtefact files p) (\<lambda>text.
       if isLabelledShare text then
         rbind (map_err (custodyErr ctext p) (ParseShareFile text)) (\<lambda>sf.
           load_shares ctext files ps (inp\<lparr>in_Labelled := in_Labelled inp @ [sf]\<rparr>))
       else
         rbind (map_err (custodyErr ctext p) (ParseRawShare text)) (\<lambda>raw.
           load_shares ctext files ps (inp\<lparr>in_Raw := in_Raw inp @ [raw]\<rparr>)))"

definition security_key_message :: string where
  "security_key_message = ''this envelope's wrapping key derives from a security key (it carries a credential-id); it is not recoverable offline from shares. Use the console's security-key flow, or the share or wrapping-key artefacts of a share-based ceremony''"

definition loadCustodyInputs ::
  "(custody_error \<Rightarrow> string) \<Rightarrow> files \<Rightarrow> string list \<Rightarrow> string \<Rightarrow> string \<Rightarrow> int \<Rightarrow> goerr + Inputs" where
  "loadCustodyInputs ctext files shares wrappingKeyPath envelopePath threshold =
     rbind (readArtefact files envelopePath) (\<lambda>envText.
     rbind (map_err (custodyErr ctext envelopePath) (ParseEnvelopeFile envText)) (\<lambda>env.
       if ef_CredentialID env \<noteq> None then Inl (usageErr security_key_message)
       else if shares \<noteq> [] \<and> wrappingKeyPath \<noteq> '''' then Inl (usageErr ''supply --share files or --wrapping-key, not both'')
       else if shares = [] \<and> wrappingKeyPath = '''' then Inl (usageErr ''recovering the identity needs a key source: repeatable --share files, or --wrapping-key'')
       else
         rbind (load_shares ctext files shares
            \<lparr>in_Labelled = [], in_Raw = [], in_WrappingKey = None, in_Envelope = Some env, in_ThresholdHint = threshold\<rparr>)
           (\<lambda>inp.
         if wrappingKeyPath \<noteq> '''' then
           rbind (readArtefact files wrappingKeyPath) (\<lambda>text.
           rbind (map_err (custodyErr ctext wrappingKeyPath) (ParseWrappingKeyFile text)) (\<lambda>wk.
             Inr (inp\<lparr>in_WrappingKey := Some wk\<rparr>)))
         else Inr inp)))"

definition printCustodyNotices :: "(notice \<Rightarrow> string) \<Rightarrow> notice list \<Rightarrow> line list" where
  "printCustodyNotices ntext notices = map (\<lambda>n. Printf ''note: %s'' [AStr (ntext n)]) notices"

text \<open>\<open>%v\<close> of an error keeps its text, not its chain.\<close>

definition not_identity_file :: "goerr \<Rightarrow> goerr" where
  "not_identity_file err = ExitError ExitCustody (Errorf ''the decrypted payload is not an identity-key file: %v'' [AVal err])"

definition not_identity_key :: "crypto_error \<Rightarrow> goerr" where
  "not_identity_key err = ExitError ExitCustody (Errorf ''the decrypted payload does not parse as a break-glass identity key: %v'' [AVal (CryptoErr err)])"

record recombine_flags =
  rb_Shares :: "string list"
  rb_WrappingKey :: string
  rb_Envelope :: string
  rb_Out :: string
  rb_Threshold :: int

definition recombine_needs_envelope :: string where
  "recombine_needs_envelope = ''recombine needs --envelope (the wrapped-identity file) plus --share files or --wrapping-key''"

definition recombine_needs_key :: string where
  "recombine_needs_key = ''recombine needs a key source: repeatable --share files, or --wrapping-key''"

definition recombine_payload ::
  "pk_lib \<Rightarrow> (custody_error \<Rightarrow> string) \<Rightarrow> files \<Rightarrow> recombine_flags \<Rightarrow> (goerr + bytes) \<times> notice list" where
  "recombine_payload L ctext files f =
     (if rb_Envelope f = '''' then (Inl (usageErr recombine_needs_envelope), [])
      else if rb_Shares f = [] \<and> rb_WrappingKey f = '''' then (Inl (usageErr recombine_needs_key), [])
      else if rb_Shares f \<noteq> [] \<and> rb_WrappingKey f \<noteq> '''' then (Inl (usageErr ''supply --share files or --wrapping-key, not both''), [])
      else (case loadCustodyInputs ctext files (rb_Shares f) (rb_WrappingKey f) (rb_Envelope f) (rb_Threshold f) of
        Inl err \<Rightarrow> (Inl err, [])
      | Inr inp \<Rightarrow>
          (case Recombine inp of (r, notices) \<Rightarrow>
            (rbind (map_err (custodyErr ctext ''recombine'') r) (\<lambda>plaintext.
             rbind (map_err not_identity_file (parseKeyFileBytes plaintext labelIdentity)) (\<lambda>idBytes.
             rbind (map_err not_identity_key (ParseKEMPrivate L idBytes)) (\<lambda>_. Inr plaintext))), notices))))"

definition recovered_line :: string where
  "recovered_line = (''recovered the break-glass identity to %s'' @ [CHR 0x0A] @ ''next: downpipe restore --apply --archive <bucket> --run <runId> --identity %s --signer <signer.pub> --out <dir>'')"

text \<open>The recovered file is created in the directory the command runs in.\<close>

definition cmdRecombine ::
  "pk_lib \<Rightarrow> (custody_error \<Rightarrow> string) \<Rightarrow> (notice \<Rightarrow> string) \<Rightarrow> files \<Rightarrow> recombine_flags \<Rightarrow> filesys
    \<Rightarrow> filesys \<times> goerr option \<times> line list" where
  "cmdRecombine L ctext ntext files f fs =
     (case recombine_payload L ctext files f of
        (Inl err, notices) \<Rightarrow> (fs, Some err, printCustodyNotices ntext notices)
      | (Inr plaintext, notices) \<Rightarrow>
          let notes = printCustodyNotices ntext notices; path = rb_Out f
          in case os_OpenExcl fs (path_of path) of
               (fs, Some e) \<Rightarrow>
                 (fs, Some (usagef ''write %s (it may already exist): %v'' [AStr path, AVal (PathError ''open'' path e)]), notes)
             | (fs, None) \<Rightarrow>
                 (case os_Write fs (path_of path) plaintext of
                    (fs, Some (e, _)) \<Rightarrow>
                      (fst (os_Close fs),
                       Some (Errorf ''write %s: %w'' [AStr path, AWrap (PathError ''write'' path e)]), notes)
                  | (fs, None) \<Rightarrow>
                      (case os_Close fs of
                         (fs, Some e) \<Rightarrow> (fs, Some (Errorf ''write %s: %w'' [AStr path, AWrap (PathError ''close'' path e)]), notes)
                       | (fs, None) \<Rightarrow> (fs, None, notes @ [Printf recovered_line [AStr path, AStr path]]))))"

section \<open>Identity and signer\<close>

record identityFlags =
  id_path :: string
  id_shares :: "string list"
  id_wrappingKey :: string
  id_envelope :: string
  id_threshold :: int

definition identity_supplied :: "identityFlags \<Rightarrow> bool" where
  "identity_supplied f \<longleftrightarrow> id_path f \<noteq> '''' \<or> id_envelope f \<noteq> '''' \<or> id_shares f \<noteq> [] \<or> id_wrappingKey f \<noteq> ''''"

definition fromCustody :: "identityFlags \<Rightarrow> bool" where
  "fromCustody f \<longleftrightarrow> id_shares f \<noteq> [] \<or> id_wrappingKey f \<noteq> ''''"

definition no_identity_message :: string where
  "no_identity_message = ''no identity source: pass --identity <file>, or --envelope with repeatable --share files (or --wrapping-key)''"

definition not_both_message :: string where
  "not_both_message = ''supply either --identity or the custody artefacts (--share/--wrapping-key with --envelope), not both''"

definition needs_envelope_message :: string where
  "needs_envelope_message = ''recovering the identity from shares needs --envelope (the wrapped-identity file the console offered for download)''"

definition payload_not_file :: "goerr \<Rightarrow> goerr" where
  "payload_not_file err = ExitError ExitCustody (Errorf ''the recovered payload is not an identity-key file: %v'' [AVal err])"

definition payload_not_key :: "crypto_error \<Rightarrow> goerr" where
  "payload_not_key err = ExitError ExitCustody (Errorf ''the recovered payload does not parse as a break-glass identity key: %v'' [AVal (CryptoErr err)])"

text \<open>The notices of a recombination are printed whatever it comes to.\<close>

definition identity_resolve ::
  "pk_lib \<Rightarrow> (custody_error \<Rightarrow> string) \<Rightarrow> files \<Rightarrow> identityFlags \<Rightarrow> (goerr + HybridKEMPrivate) \<times> notice list" where
  "identity_resolve L ctext files f =
     (if \<not> identity_supplied f then (Inl (usageErr no_identity_message), [])
      else if id_path f \<noteq> '''' \<and> fromCustody f then (Inl (usageErr not_both_message), [])
      else if id_path f \<noteq> '''' then
        (rbind (map_err (\<lambda>err. ExitError ExitUsage (Errorf ''identity: %w'' [AWrap err]))
                 (readKeyFile files (id_path f) labelIdentity)) (\<lambda>idBytes.
           map_err (\<lambda>err. ExitError ExitUsage (Errorf ''identity: %w'' [AWrap (CryptoErr err)])) (ParseKEMPrivate L idBytes)), [])
      else if id_envelope f = '''' then (Inl (usageErr needs_envelope_message), [])
      else (case loadCustodyInputs ctext files (id_shares f) (id_wrappingKey f) (id_envelope f) (id_threshold f) of
        Inl err \<Rightarrow> (Inl err, [])
      | Inr inp \<Rightarrow>
          (case Recombine inp of (r, notices) \<Rightarrow>
            (rbind (map_err (custodyErr ctext ''recombine'') r) (\<lambda>plaintext.
             rbind (map_err payload_not_file (parseKeyFileBytes plaintext labelIdentity)) (\<lambda>idBytes.
             map_err payload_not_key (ParseKEMPrivate L idBytes))), notices))))"

definition loadSignerFile :: "pk_lib \<Rightarrow> files \<Rightarrow> string \<Rightarrow> goerr + HybridVerifier" where
  "loadSignerFile L files path =
     rbind (map_err (\<lambda>err. ExitError ExitUsage (Errorf ''signer: %w'' [AWrap err])) (readKeyFile files path labelSignerPublic))
       (\<lambda>signerBytes.
         map_err (\<lambda>err. ExitError ExitUsage (Errorf ''signer: %w'' [AWrap (CryptoErr err)])) (ParseVerifier L signerBytes))"

definition loadAndVerifier ::
  "pk_lib \<Rightarrow> (custody_error \<Rightarrow> string) \<Rightarrow> files \<Rightarrow> identityFlags \<Rightarrow> string
    \<Rightarrow> (goerr + HybridKEMPrivate \<times> HybridVerifier) \<times> notice list" where
  "loadAndVerifier L ctext files f signerPath =
     (case identity_resolve L ctext files f of (r, notices) \<Rightarrow>
       (rbind r (\<lambda>identity. rbind (loadSignerFile L files signerPath) (\<lambda>verifier. Inr (identity, verifier))), notices))"

record signerFlags =
  sn_path :: string
  sn_fingerprint :: string

definition signer_supplied :: "signerFlags \<Rightarrow> bool" where
  "signer_supplied f \<longleftrightarrow> sn_path f \<noteq> '''' \<or> sn_fingerprint f \<noteq> ''''"

definition other_ceremony_message :: string where
  "other_ceremony_message = ''the --signer file %s has fingerprint %s, which is not the --signer-fingerprint you gave (%s). One of the two is from a different key ceremony. Check which signer your recovery sheet names''"

definition no_signer_message :: string where
  "no_signer_message = ''no signer: pass --signer <file>, or --signer-fingerprint <fingerprint from your recovery sheet>''"

definition signer_resolve :: "pk_lib \<Rightarrow> files \<Rightarrow> signerFlags \<Rightarrow> ObjectStore \<Rightarrow> goerr + HybridVerifier" where
  "signer_resolve L files f store =
     rbind (if sn_fingerprint f \<noteq> '''' then ParseSignerFingerprint (sn_fingerprint f) else Inr '''') (\<lambda>pin.
       if sn_path f \<noteq> '''' then
         rbind (loadSignerFile L files (sn_path f)) (\<lambda>verifier.
           if pin \<noteq> '''' \<and> \<not> SameSignerFingerprint (SignerFingerprint verifier) pin
           then Inl (usagef other_ceremony_message [AStr (sn_path f), AStr (SignerFingerprint verifier), AStr pin])
           else Inr verifier)
       else if pin = '''' then Inl (usageErr no_signer_message)
       else BundledSigner L store pin)"

definition loadWithSigner ::
  "pk_lib \<Rightarrow> (custody_error \<Rightarrow> string) \<Rightarrow> files \<Rightarrow> identityFlags \<Rightarrow> signerFlags \<Rightarrow> ObjectStore
    \<Rightarrow> (goerr + HybridKEMPrivate \<times> HybridVerifier) \<times> notice list" where
  "loadWithSigner L ctext files f sig store =
     (case signer_resolve L files sig store of
        Inl err \<Rightarrow> (Inl err, [])
      | Inr verifier \<Rightarrow>
          (case identity_resolve L ctext files f of (r, notices) \<Rightarrow> (rbind r (\<lambda>identity. Inr (identity, verifier)), notices)))"

section \<open>Warnings and the receipt\<close>

definition no_pin_warning :: string where
  "no_pin_warning = ''warning: --min-runlog-index was not set, so a rollback to an older, validly signed run will not be detected. Read the latest trusted RUNLOG index off your recovery sheet's anti-rollback line and pass --min-runlog-index <n>. If this is a genuine first recovery with no recovery sheet entry yet, pass --acknowledge-no-rollback-pin to silence this reminder; rollback protection stays off either way.''"

definition warnIfNoRollbackPin :: "int \<Rightarrow> bool \<Rightarrow> line list" where
  "warnIfNoRollbackPin minIndex ackNoPin = (if minIndex > 0 \<or> ackNoPin then [] else [Printf no_pin_warning []])"

definition no_reason_text :: string where
  "no_reason_text = ''the reader recorded no reason, which is itself a fault worth reporting''"

definition freshnessReason :: "FreshnessResult \<Rightarrow> goarg" where
  "freshnessReason fresh = (case fs_Reason fresh of None \<Rightarrow> AStr no_reason_text | Some err \<Rightarrow> AVal err)"

definition unchecked_warning :: string where
  "unchecked_warning = ''warning: this run's anti-rollback/freshness check COULD NOT BE RUN and was overridden by --allow-unverified-runlog or --allow-unverified: %s. Nothing was established about this run's recency, and a rolled-back or replaced bucket would look exactly like this. Re-check this run against a RUNLOG and signature from a copy you trust before you act on the outcome. See docs/RECOVER.md %q.''"

definition untrusted_warning :: string where
  "untrusted_warning = ''warning: this run's anti-rollback/freshness check found the RUNLOG contradicts itself, and that was overridden by --allow-unverified-runlog or --allow-unverified: %s. The log verified against the pinned signer, so the contradiction means it was rewritten or hand-assembled rather than appended to by the engine, and which run is latest cannot be read from it. Compare it against a copy you trust before you act on the outcome. See docs/RECOVER.md %q.''"

definition overridden_warning :: string where
  "overridden_warning = ''warning: this run's anti-rollback/freshness check did NOT pass and was overridden by --allow-stale, --allow-unverified-runlog or --allow-unverified: %s. The signature and manifests are still genuinely verified; only the freshness guarantee was skipped for this run. See docs/RECOVER.md %q.''"

definition warnIfRollbackOverridden :: "FreshnessResult \<Rightarrow> line list" where
  "warnIfRollbackOverridden fresh =
     (let place = AStr ''Freshness / rollback (exit 5)''
      in if \<not> fs_RollbackWarning fresh then []
         else if fs_Unchecked fresh then [Printf unchecked_warning [freshnessReason fresh, place]]
         else if fs_RunlogUntrusted fresh then [Printf untrusted_warning [freshnessReason fresh, place]]
         else [Printf overridden_warning [freshnessReason fresh, place]])"

definition load_receipt_signer :: "pk_lib \<Rightarrow> files \<Rightarrow> string \<Rightarrow> goerr + HybridSigner" where
  "load_receipt_signer L files path =
     rbind (map_err (\<lambda>err. ExitError ExitUsage (Errorf ''receipt signer: %w'' [AWrap err]))
              (readKeyFile files path labelSignerPrivate)) (\<lambda>raw.
       map_err (\<lambda>err. ExitError ExitUsage (Errorf ''receipt signer: %w'' [AWrap (CryptoErr err)])) (ParseSigner L raw))"

definition checkReceiptSigner :: "pk_lib \<Rightarrow> files \<Rightarrow> string \<Rightarrow> goerr + unit" where
  "checkReceiptSigner L files path =
     (if path = '''' then Inr () else rbind (load_receipt_signer L files path) (\<lambda>_. Inr ()))"

text \<open>
  The receipt as it leaves the command: to no place, to the standard error stream, or to a file; the write may fail.
\<close>

datatype receipt_place = NoReceipt | ReceiptToStderr bytes | ReceiptToFile string bytes

definition sign_receipt :: "pk_lib \<Rightarrow> bytes \<Rightarrow> files \<Rightarrow> string \<Rightarrow> Receipt \<Rightarrow> goerr + Receipt" where
  "sign_receipt L rnd files signerKeyPath rcpt =
     (if signerKeyPath = '''' then Inr rcpt
      else rbind (load_receipt_signer L files signerKeyPath) (\<lambda>signer.
        case receipt_Sign L rnd rcpt signer of (_, Some err) \<Rightarrow> Inl err | (r, None) \<Rightarrow> Inr r))"

definition emitReceipt ::
  "pk_lib \<Rightarrow> bytes \<Rightarrow> files \<Rightarrow> (receipt_place \<Rightarrow> goerr option) \<Rightarrow> ReceiptSource \<Rightarrow> ReceiptInput \<Rightarrow> bool \<Rightarrow> string \<Rightarrow> string
    \<Rightarrow> receipt_place \<times> goerr option" where
  "emitReceipt L rnd files write r inp valueVerified path signerKeyPath =
     (if path = '''' then (NoReceipt, None)
      else (let rcpt0 = BuildReceipt r inp;
                rcpt = rcpt0\<lparr>rc_Target := (rc_Target rcpt0)\<lparr>rt_ValueVerified := valueVerified\<rparr>\<rparr>
            in case rbind (sign_receipt L rnd files signerKeyPath rcpt) receipt_Marshal of
                 Inl err \<Rightarrow> (NoReceipt, Some err)
               | Inr b \<Rightarrow>
                   let place = (if path = ''-'' then ReceiptToStderr (b @ [0x0A]) else ReceiptToFile path (b @ [0x0A]))
                   in (place, write place)))"

section \<open>The surroundings of a command\<close>

record surroundings =
  su_ctext :: "custody_error \<Rightarrow> string"
  su_ntext :: "notice \<Rightarrow> string"
  su_getenv :: "string \<Rightarrow> string"
  su_files :: files

section \<open>Lemmas\<close>

lemma coded_part_as_exit: "map_option fst (coded_part (chain e)) = as_exit e"
proof -
  have "map_option fst (coded_part es) = (case [c. ExitError c e \<leftarrow> es] of [] \<Rightarrow> None | c # _ \<Rightarrow> Some c)" for es
    by (induction es) (auto split: goerr.splits)
  then show ?thesis by (simp add: as_exit_def)
qed

text \<open>The status is the first code of the error, and 1 for an error without one.\<close>

lemma exit_status_code:
  "\<not> errors_Is e errHelpRequested \<Longrightarrow> exit_status cmd (Some e) = (case as_exit e of Some c \<Rightarrow> c | None \<Rightarrow> exitUncoded)"
  using coded_part_as_exit [of e]
  by (auto simp: exit_status_def finish_run_def split: option.splits)

lemma exit_status_None [simp]: "exit_status cmd None = 0"
  by (simp add: exit_status_def finish_run_def)

lemma exit_status_ExitError [simp]:
  "\<not> errors_Is e errHelpRequested \<Longrightarrow> exit_status cmd (Some (ExitError c e)) = c"
  by (simp add: exit_status_def finish_run_def errors_Is_def errHelpRequested_def)

text \<open>The files a directory holds, as a later command opens them.\<close>

definition files_of :: "filesys \<Rightarrow> files" where
  "files_of fs path =
     (case fs_look fs (path_of path) of
        Some (FFile b) \<Rightarrow> Inr \<lparr>of_Stat = Inr (True, int (length b)), of_Body = b, of_ReadErr = None\<rparr>
      | Some FDir \<Rightarrow> Inr \<lparr>of_Stat = Inr (False, 0), of_Body = [], of_ReadErr = Some (PathError ''read'' path EISDIR)\<rparr>
      | None \<Rightarrow> Inl (PathError ''open'' path ENOENT))"

definition fresh_dir :: filesys where
  "fresh_dir = \<lparr>fs_nodes = [([], FDir)], fs_faults = []\<rparr>"

definition as_option :: "'e + 'a \<Rightarrow> 'a option" where
  "as_option r = (case r of Inr x \<Rightarrow> Some x | Inl _ \<Rightarrow> None)"

definition custody_flags :: "recombine_flags \<Rightarrow> identityFlags" where
  "custody_flags rf = \<lparr>id_path = '''', id_shares = rb_Shares rf, id_wrappingKey = rb_WrappingKey rf,
     id_envelope = rb_Envelope rf, id_threshold = rb_Threshold rf\<rparr>"

definition file_flags :: "string \<Rightarrow> identityFlags" where
  "file_flags path = \<lparr>id_path = path, id_shares = [], id_wrappingKey = '''', id_envelope = '''', id_threshold = 0\<rparr>"

lemma as_option_simps [simp]:
  "as_option (Inr x) = Some x" "as_option (Inl e) = None" "as_option (map_err f r) = as_option r"
  "as_option (rbind r g) = Option.bind (as_option r) (\<lambda>x. as_option (g x))"
  by (auto simp: as_option_def map_err_def rbind_def split: sum.splits)

lemma bind_again: "Option.bind p (\<lambda>a. Option.bind (q a) (\<lambda>_. Option.bind p q)) = Option.bind p q"
proof (cases p)
  case (Some x)
  then show ?thesis by (cases "q x") simp_all
qed simp

definition payload_key :: "pk_lib \<Rightarrow> bytes \<Rightarrow> HybridKEMPrivate option" where
  "payload_key L plaintext =
     Option.bind (as_option (parseKeyFileBytes plaintext labelIdentity)) (\<lambda>b. as_option (ParseKEMPrivate L b))"

lemma identity_from_custody:
  "as_option (fst (identity_resolve L ctext files (custody_flags rf))) =
     Option.bind (as_option (fst (recombine_payload L ctext files rf))) (payload_key L)"
proof (cases "rb_Envelope rf = ''''")
  case True
  then show ?thesis
    by (simp add: identity_resolve_def recombine_payload_def custody_flags_def identity_supplied_def fromCustody_def)
next
  case env: False
  show ?thesis
  proof (cases "(rb_Shares rf = []) = (rb_WrappingKey rf = '''')")
    case True
    have "as_option (loadCustodyInputs ctext files (rb_Shares rf) (rb_WrappingKey rf) (rb_Envelope rf) (rb_Threshold rf)) = None"
      using True by (auto simp: loadCustodyInputs_def bind_eq_None_conv)
    then show ?thesis using True env
      by (auto simp: identity_resolve_def recombine_payload_def custody_flags_def identity_supplied_def fromCustody_def
          split: sum.splits)
  next
    case False
    then show ?thesis using env
      by (auto simp: identity_resolve_def recombine_payload_def custody_flags_def identity_supplied_def fromCustody_def
          payload_key_def bind_again split: sum.splits prod.splits)
  qed
qed

lemma identity_from_file:
  "as_option (fst (identity_resolve L ctext (files_of (fresh_dir\<lparr>fs_nodes := [([], FDir), ([''identity.key''], FFile b)]\<rparr>))
     (file_flags ''identity.key''))) = payload_key L b"
proof -
  have p: "path_of ''identity.key'' = [''identity.key'']" by (simp add: path_of_def)
  have "os_ReadFile (files_of (fresh_dir\<lparr>fs_nodes := [([], FDir), ([''identity.key''], FFile b)]\<rparr>)) ''identity.key'' = Inr b"
    by (simp add: os_ReadFile_def files_of_def fs_look_def p)
  then show ?thesis
    by (simp add: identity_resolve_def file_flags_def identity_supplied_def fromCustody_def readKeyFile_def payload_key_def)
qed

lemma recombine_writes:
  "cmdRecombine L ctext ntext files (rf\<lparr>rb_Out := ''identity.key''\<rparr>) fresh_dir =
     (case recombine_payload L ctext files rf of
        (Inl err, notices) \<Rightarrow> (fresh_dir, Some err, printCustodyNotices ntext notices)
      | (Inr b, notices) \<Rightarrow>
          (fresh_dir\<lparr>fs_nodes := [([], FDir), ([''identity.key''], FFile b)]\<rparr>, None,
           printCustodyNotices ntext notices @ [Printf recovered_line [AStr ''identity.key'', AStr ''identity.key'']]))"
proof -
  have p: "path_of ''identity.key'' = [''identity.key'']" by (simp add: path_of_def)
  have "recombine_payload L ctext files (rf\<lparr>rb_Out := ''identity.key''\<rparr>) = recombine_payload L ctext files rf"
    by (simp add: recombine_payload_def)
  then show ?thesis
    by (simp add: cmdRecombine_def p os_OpenExcl_def os_Write_def os_Close_def next_fault_def fresh_dir_def fs_look_def
        fs_put_def Let_def split: prod.splits sum.splits)
qed


text \<open>
  A signer accepted under a fingerprint has that fingerprint, whether it was read from a file or from the archive.
\<close>

lemma BundledSigner_pinned: "BundledSigner L store pin = Inr v \<Longrightarrow> SameSignerFingerprint (SignerFingerprint v) pin"
  by (auto simp: BundledSigner_def Let_def split: sum.splits if_splits list.splits option.splits)

lemma pinned_signer:
  assumes "signer_resolve L files f store = Inr v" "sn_fingerprint f \<noteq> ''''"
  shows "\<exists>pin. ParseSignerFingerprint (sn_fingerprint f) = Inr pin \<and> SameSignerFingerprint (SignerFingerprint v) pin"
proof -
  obtain pin where pin: "ParseSignerFingerprint (sn_fingerprint f) = Inr pin" using assms by (auto simp: signer_resolve_def)
  then have "pin \<noteq> ''''" by (auto simp: ParseSignerFingerprint_def Let_def SignerFingerprintPrefix_def split: if_splits option.splits)
  then have "SameSignerFingerprint (SignerFingerprint v) pin"
    using assms pin by (auto simp: signer_resolve_def split: if_splits dest: BundledSigner_pinned)
  with pin show ?thesis by blast
qed

end
