(* ===== verification/PruneCommand.thy ===== *)
theory PruneCommand
  imports PruneReceipt CommandLine
begin

text \<open>
  \<open>cmd/downpipe/prune.go\<close>: the prune command, from the stored run log to the deletes, the receipts and the exit
  status. The parsed flags are given. The destination is read through an \<open>ObjectStore\<close>, all reads coming before the
  first delete, and changed through a \<open>destination\<close>. The text of an error, which only appears in messages, is the
  argument \<open>text\<close>.
\<close>

section \<open>Errors\<close>

fun prune_goerr :: "prune_error \<Rightarrow> goerr" where
  "prune_goerr (KeepTooSmall n) =
     Errorf ''keep-per-downpipe must be at least 1, got %d (refusing to treat an unset policy as 'keep nothing')'' [AInt n]"
| "prune_goerr (Abstain runID reason) =
     (if reason = '''' then
        Errorf ''abstained: retained run %s could not be fully enumerated, so its live segments cannot be distinguished from orphans''
          [AStr runID]
      else
        Errorf ''abstained: retained run %s could not be fully enumerated, so its live segments cannot be distinguished from orphans: %s''
          [AStr runID, AStr reason])"
| "prune_goerr CannotDelete = Errorf ''this destination cannot delete objects, so a prune cannot be applied to it'' []"
| "prune_goerr CannotList =
     Errorf ''this destination cannot list objects, so the run trees to remove cannot be enumerated'' []"
| "prune_goerr (ListRunTree runID lerr) = Errorf ''list run tree %s: %w'' [AStr runID, AWrap (Sentinel lerr)]"

fun receipt_goerr :: "receipt_error \<Rightarrow> goerr" where
  "receipt_goerr (CreateTempFile dir e) = Errorf ''create receipt temp file in %s: %w'' [AStr dir, AWrap (Sentinel e)]"
| "receipt_goerr (EncodeReceipt e) = Errorf ''encode receipt: %w'' [AWrap (Sentinel e)]"
| "receipt_goerr (WriteReceipt e) = Errorf ''write receipt: %w'' [AWrap (Sentinel e)]"
| "receipt_goerr (FlushReceipt e) = Errorf ''flush receipt: %w'' [AWrap (Sentinel e)]"
| "receipt_goerr (CloseReceipt e) = Errorf ''close receipt: %w'' [AWrap (Sentinel e)]"
| "receipt_goerr (PlaceReceipt path e) = Errorf ''place receipt at %s: %w'' [AStr path, AWrap (Sentinel e)]"
| "receipt_goerr (OpenReceiptDir dir e) = Errorf ''open receipt directory %s: %w'' [AStr dir, AWrap (Sentinel e)]"
| "receipt_goerr (FlushReceiptDir dir e) = Errorf ''flush receipt directory %s: %w'' [AStr dir, AWrap (Sentinel e)]"
| "receipt_goerr (ReadReceiptFile e) = Sentinel e"
| "receipt_goerr (ParseReceipt path e) = Errorf ''parse receipt %s: %w'' [AStr path, AWrap (Sentinel e)]"
| "receipt_goerr (ReceiptVersionUnknown path v) =
     Errorf ''receipt %s is version %d, this build understands versions 1 and %d'' [AStr path, AInt v, AInt ReceiptVersion]"

section \<open>From the run log to the plan\<close>

definition verifyRunlogSignature :: "pk_lib \<Rightarrow> ObjectStore \<Rightarrow> bytes \<Rightarrow> HybridVerifier \<Rightarrow> goerr + unit" where
  "verifyRunlogSignature L store runlogBytes verifier =
     rbind (map_err (\<lambda>err. codedGet ExitUnverified
              (Errorf ''read the runlog signature, which decides which runs this prune may delete: %w'' [AWrap err]))
            (GetLimited store ''_RECOVERY/RUNLOG.sig'' MaxSignatureBytes)) (\<lambda>sigText.
     rbind (map_err (\<lambda>err. ExitError ExitUnverified (Errorf ''decode the runlog signature: %w'' [AWrap err]))
            (B64Decode (TrimSpace (string_of sigText)))) (\<lambda>sig.
       map_err (\<lambda>err. ExitError ExitUnverified
              (Errorf ''the runlog signature does not verify against --signer, so which runs your policy supersedes cannot be trusted and nothing was deleted: %w''
                 [AWrap (CryptoErr err)]))
         (Verify L verifier runlogBytes sig)))"

definition prune_options :: Options where
  "prune_options = \<lparr>op_MinRunlogIndex = 0, op_AllowStale = True, op_AllowUnverifiedRunlog = True,
     op_AllowUnverified = False, op_CheckRecoveryBundle = False, op_FetchConcurrency = 0, op_MaxMemoryBytes = 0\<rparr>"

text \<open>The keys of the map \<open>refs.Objects\<close>: the segment objects the records of an opened run name.\<close>

definition run_objects :: "Reader \<Rightarrow> string list" where
  "run_objects r = remdups (concat (map (\<lambda>rec. map sg_Object (sr_Segments rec)) (rr_records r)))"

definition enumerate_run ::
  "pk_lib \<Rightarrow> (goerr \<Rightarrow> string) \<Rightarrow> ObjectStore \<Rightarrow> HybridKEMPrivate \<Rightarrow> HybridVerifier \<Rightarrow> string \<Rightarrow> RunRefs" where
  "enumerate_run L text store identity verifier runID =
     (case Open L store runID identity verifier prune_options of
        Inl err \<Rightarrow> \<lparr>rr_RunID = runID, rr_Objects = [], rr_Complete = False, rr_Reason = text err\<rparr>
      | Inr r \<Rightarrow> \<lparr>rr_RunID = runID, rr_Objects = run_objects r, rr_Complete = True, rr_Reason = ''''\<rparr>)"

definition enumerate_runs ::
  "pk_lib \<Rightarrow> (goerr \<Rightarrow> string) \<Rightarrow> ObjectStore \<Rightarrow> string list \<Rightarrow> HybridKEMPrivate \<Rightarrow> HybridVerifier \<Rightarrow> RunRefs list" where
  "enumerate_runs L text store runIDs identity verifier = map (enumerate_run L text store identity verifier) runIDs"

text \<open>An abstention exits as unverified and says on the standard error stream what to do.\<close>

definition abstained_line :: string where
  "abstained_line = ''prune abstained: retained run %s could not be opened and fully read, so its live segments cannot be told apart from deletable ones. Nothing was deleted.''"

definition diagnose_line :: string where
  "diagnose_line = ''  run `downpipe verify --run %s` for the full diagnosis of that one run, and prune again once it opens. The reason it refused to open is on the next line.''"

definition abstain_exit :: "prune_error \<Rightarrow> goerr \<times> line list" where
  "abstain_exit err =
     (case err of
        Abstain runID reason \<Rightarrow>
          (ExitError ExitUnverified (prune_goerr err),
           [Printf abstained_line [AStr runID], Printf diagnose_line [AStr runID]])
      | _ \<Rightarrow> (prune_goerr err, []))"

definition no_output :: "goerr + 'a \<Rightarrow> (goerr \<times> line list) + 'a" where
  "no_output r = map_err (\<lambda>err. (err, [])) r"

definition plan_prune ::
  "pk_lib \<Rightarrow> (goerr \<Rightarrow> string) \<Rightarrow> ObjectStore \<Rightarrow> HybridKEMPrivate \<Rightarrow> HybridVerifier \<Rightarrow> int
    \<Rightarrow> (goerr \<times> line list) + string list \<times> Plan" where
  "plan_prune L text store identity verifier keep =
     rbind (no_output (map_err (\<lambda>err. codedGet exitUnclassified (Errorf ''read runlog: %w'' [AWrap err]))
            (GetLimited store ''_RECOVERY/RUNLOG'' MaxRunlogBytes))) (\<lambda>runlogBytes.
     rbind (no_output (verifyRunlogSignature L store runlogBytes verifier)) (\<lambda>_.
     rbind (no_output (ParseRunlog runlogBytes)) (\<lambda>entries.
     rbind (no_output (map_err (\<lambda>err. ExitError ExitUsage (prune_goerr err)) (Partition entries keep))) (\<lambda>(keepIDs, dropIDs).
     rbind (map_err abstain_exit
            (Compute (enumerate_runs L text store keepIDs identity verifier) (enumerate_runs L text store dropIDs identity verifier)))
       (\<lambda>plan. Inr (keepIDs, plan))))))"

section \<open>Carrying the plan out\<close>

text \<open>
  What the two writes of the receipt need: its directory, the encoder, how the operations of each write end, the
  temporary names picked and the time of the second write. The run keeps the states of the directory before the
  first delete and after the last one, and the deletes in between.
\<close>

record receipt_io =
  rw_dir :: string
  rw_encode :: "PruneReceipt \<Rightarrow> string + bytes"
  rw_first :: os_outcome
  rw_firstTmp :: string
  rw_second :: os_outcome
  rw_secondTmp :: string
  rw_finished :: string

record apply_run =
  ap_Result :: "goerr + Result"
  ap_Warning :: "receipt_error option"
  ap_Before :: "directory list"
  ap_History :: history
  ap_After :: "directory list"

definition applyWithReceipt ::
  "destination \<Rightarrow> Plan \<Rightarrow> bool \<Rightarrow> string \<Rightarrow> receipt_io \<Rightarrow> PruneReceipt \<Rightarrow> directory \<Rightarrow> apply_run" where
  "applyWithReceipt store plan dryRun receiptPath io receipt fs =
     (case if receiptPath \<noteq> ''''
           then receipt_write (rw_first io) (rw_dir io) (rw_firstTmp io) receiptPath (rw_encode io receipt) fs
           else (None, [fs]) of
        (Some err, states) \<Rightarrow>
          \<lparr>ap_Result = Inl (Errorf ''the prune receipt could not be written, so nothing was deleted: %w''
                             [AWrap (receipt_goerr err)]),
           ap_Warning = None, ap_Before = states, ap_History = [], ap_After = []\<rparr>
      | (None, states) \<Rightarrow>
          (case Apply store plan dryRun of
             (Inl err, h) \<Rightarrow>
               \<lparr>ap_Result = Inl (prune_goerr err), ap_Warning = None, ap_Before = states, ap_History = h, ap_After = []\<rparr>
           | (Inr res, h) \<Rightarrow>
               if receiptPath \<noteq> '''' then
                 (case receipt_write (rw_second io) (rw_dir io) (rw_secondTmp io) receiptPath
                         (rw_encode io (receipt_complete receipt res (rw_finished io))) (last states) of
                    (werr, states') \<Rightarrow>
                      \<lparr>ap_Result = Inr res, ap_Warning = werr, ap_Before = states, ap_History = h, ap_After = states'\<rparr>)
               else \<lparr>ap_Result = Inr res, ap_Warning = None, ap_Before = states, ap_History = h, ap_After = []\<rparr>))"

text \<open>What somebody who looks at the directory and the destination can find, oldest first.\<close>

definition apply_trace :: "apply_run \<Rightarrow> (directory \<times> history) list" where
  "apply_trace r = map (\<lambda>s. (s, [])) (ap_Before r)
     @ map (\<lambda>n. (last (ap_Before r), take n (ap_History r))) [0..<Suc (length (ap_History r))]
     @ map (\<lambda>s. (s, ap_History r)) (ap_After r)"

section \<open>The report\<close>

definition lock_named_line :: string where
  "lock_named_line = ''    of which the refusal named an Object Lock, retention or legal hold: %d''"

definition no_lock_line :: string where
  "no_lock_line = (''    a refusal that names no lock may be a lock or a permission this credential lacks; check the object'' @ [CHR 0x27] @ ''s retention and the credential'' @ [CHR 0x27] @ ''s delete permission'')"

definition failed_line :: string where
  "failed_line = ''  deletes FAILED (no usable answer: a network fault, a server error, or an error this tool cannot classify): %d; running prune again retries them''"

definition held_line :: string where
  "held_line = ''  run-tree objects KEPT because a segment of their run was not deleted (the tree is how a later prune finds it): %d''"

definition pruneShortfallLines :: "Result \<Rightarrow> line list" where
  "pruneShortfallLines res =
     (let n = length (rs_Refused res)
      in if n > 0 then
           [Printf ''  deletes REFUSED by the destination: %d'' [AInt (int n)]]
           @ (if rs_RefusedLockNamed res > 0 then [Printf lock_named_line [AInt (int (rs_RefusedLockNamed res))]] else [])
           @ (if rs_RefusedLockNamed res < n then [Printf no_lock_line []] else [])
         else [])
     @ (let n = length (rs_Failed res) in if n > 0 then [Printf failed_line [AInt (int n)]] else [])
     @ (if rs_HeldRunObjects res > 0 then [Printf held_line [AInt (int (rs_HeldRunObjects res))]] else [])"

definition incomplete_message :: string where
  "incomplete_message = ''prune --apply did not remove everything it planned: %d delete(s) refused, %d failed, %d run-tree object(s) kept; those objects are still in the destination''"

definition pruneExit :: "Result \<Rightarrow> bool \<Rightarrow> goerr option" where
  "pruneExit res applied =
     (if \<not> applied \<or> \<not> Incomplete res then None
      else Some (ExitError ExitPruneIncomplete
             (Errorf incomplete_message [AInt (int (length (rs_Refused res))), AInt (int (length (rs_Failed res))),
                AInt (int (rs_HeldRunObjects res))])))"

definition uncounted_line :: string where
  "uncounted_line = ''  would delete run-tree objects: NOT COUNTED (this destination offers no listing)''"

definition at_least_line :: string where
  "at_least_line = ''  would delete objects in total: at least %d, with the uncounted run trees on top of that''"

definition cannot_apply_line :: string where
  "cannot_apply_line = ''  a prune cannot be APPLIED to this destination: removing a run tree means listing it first, so an --apply here deletes nothing and fails''"

definition pruneDryRunLines :: "Result \<Rightarrow> line list" where
  "pruneDryRunLines res =
     (let segments = Printf ''  would delete segments:  %d'' [AInt (int (rs_PlannedSegments res))]
      in if \<not> rs_RunObjectsUnknown res then
           [segments,
            Printf ''  would delete run-tree objects: %d'' [AInt (int (rs_PlannedRunObjects res))],
            Printf ''  would delete objects in total: %d''
              [AInt (int (rs_PlannedSegments res) + int (rs_PlannedRunObjects res))]]
         else
           [segments, Printf uncounted_line [], Printf at_least_line [AInt (int (rs_PlannedSegments res))],
            Printf cannot_apply_line []])"

definition skipped_line :: string where
  "skipped_line = ''  superseded runs this pass will NOT touch (could not be read, so their bytes stay): %d %v''"

definition not_deleted_line :: string where
  "not_deleted_line = ''  NOT deleted (planned but kept by the destination): %d''"

text \<open>\<open>%v\<close> of a list of strings.\<close>

definition go_strings :: "string list \<Rightarrow> string" where
  "go_strings xs = ''['' @ concat (case xs of [] \<Rightarrow> [] | x # r \<Rightarrow> x # map (\<lambda>y. '' '' @ y) r) @ '']''"

definition prune_report :: "bool \<Rightarrow> string list \<Rightarrow> Plan \<Rightarrow> Result \<Rightarrow> line list" where
  "prune_report apply keepIDs plan res =
     [Printf ''prune %s'' [AStr (if apply then ''APPLIED'' else ''DRY RUN (nothing was deleted; pass --apply to delete)'')],
      Printf ''  runs kept:              %d'' [AInt (int (length keepIDs))],
      Printf ''  runs deletable:         %d'' [AInt (int (length (pl_SupersededRuns plan)))],
      Printf ''  orphan segments:        %d'' [AInt (int (length (pl_OrphanSegments plan)))]]
     @ (if length (pl_SkippedSuperseded plan) > 0 then
          [Printf skipped_line [AInt (int (length (pl_SkippedSuperseded plan))), AStr (go_strings (pl_SkippedSuperseded plan))]]
        else [])
     @ (if apply then
          [Printf ''  segments deleted:       %d'' [AInt (int (rs_SegmentsDeleted res))],
           Printf ''  run-tree objects gone:  %d'' [AInt (int (rs_RunObjectsDeleted res))]]
          @ (let short = (int (rs_PlannedSegments res) + int (rs_PlannedRunObjects res))
                         - (int (rs_SegmentsDeleted res) + int (rs_RunObjectsDeleted res))
             in if short > 0 then [Printf not_deleted_line [AInt short]] else [])
        else pruneDryRunLines res)
     @ pruneShortfallLines res"

section \<open>The command\<close>

record prune_flags =
  pf_Store :: storeFlags
  pf_Identity :: identityFlags
  pf_Signer :: string
  pf_Keep :: int
  pf_Apply :: bool
  pf_Receipt :: string

text \<open>An opened backend, as what is read through it and what is deleted through it.\<close>

record prune_source =
  ps_Store :: ObjectStore
  ps_Destination :: destination

text \<open>The run is absent when the command ends before the plan is carried out.\<close>

record prune_outcome =
  po_Error :: "goerr option"
  po_Output :: "line list"
  po_Stderr :: "line list"
  po_Run :: "apply_run option"

definition prune_usage :: string where
  "prune_usage = ''prune needs an identity (--identity, or --share files with --envelope), --signer, --keep <n>=1 or more, and a source (--archive or --s3-endpoint)''"

definition receipt_warning_line :: string where
  "receipt_warning_line = ''warning: the prune ran but its receipt could not be updated at %s: %v''"

definition still_started_line :: string where
  "still_started_line = ''         the receipt still records this pass as started, with the plan it was executing.''"

definition receipt_warning :: "string \<Rightarrow> receipt_error option \<Rightarrow> line list" where
  "receipt_warning receiptPath werr =
     (case werr of None \<Rightarrow> []
      | Some err \<Rightarrow> [Printf receipt_warning_line [AStr receiptPath, AVal (receipt_goerr err)], Printf still_started_line []])"

definition prune_stops :: "line list \<Rightarrow> goerr \<times> line list \<Rightarrow> prune_outcome" where
  "prune_stops notes err = \<lparr>po_Error = Some (fst err), po_Output = [], po_Stderr = notes @ snd err, po_Run = None\<rparr>"

text \<open>The receipt is made for the pass: its time is when the plan is known.\<close>

definition prune_receipt :: "prune_flags \<Rightarrow> string list \<Rightarrow> Plan \<Rightarrow> string \<Rightarrow> PruneReceipt" where
  "prune_receipt f keepIDs plan now =
     NewReceipt (describe (pf_Store f)) (if pf_Apply f then ''apply'' else ''dry-run'') (pf_Keep f) (int (length keepIDs)) plan now"

definition cmdPrune ::
  "pk_lib \<Rightarrow> (goerr \<Rightarrow> string) \<Rightarrow> surroundings \<Rightarrow> prune_source backends \<Rightarrow> prune_flags \<Rightarrow> receipt_io \<Rightarrow> string \<Rightarrow> directory
    \<Rightarrow> prune_outcome" where
  "cmdPrune L text su bk f io now fs =
     (if \<not> identity_supplied (pf_Identity f) \<or> pf_Signer f = '''' \<or> pf_Keep f < 1
      then prune_stops [] (ExitError ExitUsage (Errorf prune_usage []), [])
      else case store_resolve bk (su_getenv su) (pf_Store f) of Inl err \<Rightarrow> prune_stops [] (err, [])
      | Inr src \<Rightarrow>
      (case loadAndVerifier L (su_ctext su) (su_files su) (pf_Identity f) (pf_Signer f) of (keys, notices) \<Rightarrow>
      let notes = printCustodyNotices (su_ntext su) notices
      in case keys of Inl err \<Rightarrow> prune_stops notes (err, [])
      | Inr (identity, verifier) \<Rightarrow>
      (case plan_prune L text (ps_Store src) identity verifier (pf_Keep f) of Inl err \<Rightarrow> prune_stops notes err
      | Inr (keepIDs, plan) \<Rightarrow>
          let r = applyWithReceipt (ps_Destination src) plan (\<not> pf_Apply f) (pf_Receipt f) io
                    (prune_receipt f keepIDs plan now) fs
          in case ap_Result r of
               Inl err \<Rightarrow> \<lparr>po_Error = Some err, po_Output = [], po_Stderr = notes, po_Run = Some r\<rparr>
             | Inr res \<Rightarrow>
                 \<lparr>po_Error = pruneExit res (pf_Apply f),
                  po_Output = prune_report (pf_Apply f) keepIDs plan res,
                  po_Stderr = notes @ receipt_warning (pf_Receipt f) (ap_Warning r), po_Run = Some r\<rparr>)))"

section \<open>Lemmas\<close>

lemma no_output_Inr: "no_output r = Inr x \<longleftrightarrow> r = Inr x"
  by (cases r) (simp_all add: no_output_def)

lemma map_err_Inr: "map_err f r = Inr x \<longleftrightarrow> r = Inr x"
  by (cases r) simp_all

text \<open>What a computed plan rests on.\<close>

definition runlog_signed :: "pk_lib \<Rightarrow> ObjectStore \<Rightarrow> HybridVerifier \<Rightarrow> bytes \<Rightarrow> bool" where
  "runlog_signed L store verifier runlogBytes \<longleftrightarrow>
     (\<exists>sigText sig. GetLimited store ''_RECOVERY/RUNLOG'' MaxRunlogBytes = Inr runlogBytes
        \<and> GetLimited store ''_RECOVERY/RUNLOG.sig'' MaxSignatureBytes = Inr sigText
        \<and> B64Decode (TrimSpace (string_of sigText)) = Inr sig \<and> Verify L verifier runlogBytes sig = Inr ())"

lemma plan_prune_Inr:
  assumes "plan_prune L text store identity verifier keep = Inr (keepIDs, plan)"
  obtains runlogBytes entries dropIDs where "runlog_signed L store verifier runlogBytes"
    "ParseRunlog runlogBytes = Inr entries" "Partition entries keep = Inr (keepIDs, dropIDs)"
    "Compute (enumerate_runs L text store keepIDs identity verifier) (enumerate_runs L text store dropIDs identity verifier) = Inr plan"
proof -
  from assms obtain b entries dropIDs where a: "GetLimited store ''_RECOVERY/RUNLOG'' MaxRunlogBytes = Inr b"
    "verifyRunlogSignature L store b verifier = Inr ()" "ParseRunlog b = Inr entries"
    "Partition entries keep = Inr (keepIDs, dropIDs)"
    "Compute (enumerate_runs L text store keepIDs identity verifier) (enumerate_runs L text store dropIDs identity verifier) = Inr plan"
    by (auto simp: plan_prune_def no_output_Inr map_err_Inr)
  then have "runlog_signed L store verifier b"
    by (auto simp: runlog_signed_def verifyRunlogSignature_def map_err_Inr)
  with a that show thesis by blast
qed

lemma enumerate_complete:
  assumes "r \<in> set (enumerate_runs L text store runIDs identity verifier)"
  shows "rr_RunID r \<in> set runIDs"
    and "rr_Complete r \<Longrightarrow> \<exists>rd. Open L store (rr_RunID r) identity verifier prune_options = Inr rd
      \<and> set (rr_Objects r) = set (run_objects rd)"
  using assms by (auto simp: enumerate_runs_def enumerate_run_def split: sum.splits)

text \<open>The deletes a command attempts, with their answers.\<close>

definition attempts :: "prune_outcome \<Rightarrow> history" where
  "attempts out = (case po_Run out of None \<Rightarrow> [] | Some r \<Rightarrow> ap_History r)"

text \<open>
  What a prune may delete, once the run log it was handed has been divided into runs to keep and runs to drop: a
  segment a dropped run references and no kept run does, every kept run having been opened; or an object of the
  tree of a dropped run, each segment of which is live in a kept run or has already been removed.
\<close>

definition opens :: "pk_lib \<Rightarrow> prune_source \<Rightarrow> HybridKEMPrivate \<Rightarrow> HybridVerifier \<Rightarrow> string \<Rightarrow> Reader \<Rightarrow> bool" where
  "opens L src identity verifier runID rd \<longleftrightarrow> Open L (ps_Store src) runID identity verifier prune_options = Inr rd"

definition dead_segment ::
  "pk_lib \<Rightarrow> prune_source \<Rightarrow> HybridKEMPrivate \<Rightarrow> HybridVerifier \<Rightarrow> string list \<Rightarrow> Reader \<Rightarrow> string \<Rightarrow> bool" where
  "dead_segment L src identity verifier keepIDs rd k \<longleftrightarrow> k \<in> set (run_objects rd)
     \<and> (\<forall>runID \<in> set keepIDs. \<exists>kd. opens L src identity verifier runID kd \<and> k \<notin> set (run_objects kd))"

definition dead_tree ::
  "pk_lib \<Rightarrow> prune_source \<Rightarrow> HybridKEMPrivate \<Rightarrow> HybridVerifier \<Rightarrow> string list \<Rightarrow> history \<Rightarrow> string \<Rightarrow> Reader \<Rightarrow> string \<Rightarrow> bool" where
  "dead_tree L src identity verifier keepIDs h runID rd k \<longleftrightarrow> prefix (RunTreePrefix runID) k
     \<and> (\<forall>seg \<in> set (run_objects rd). (seg, None) \<in> set h
          \<or> (\<exists>keptID \<in> set keepIDs. \<exists>kd. opens L src identity verifier keptID kd \<and> seg \<in> set (run_objects kd)))"

definition prunable :: "pk_lib \<Rightarrow> surroundings \<Rightarrow> prune_source backends \<Rightarrow> prune_flags \<Rightarrow> history \<Rightarrow> string set" where
  "prunable L su bk f h = {k. pf_Apply f \<and> (\<exists>src identity verifier runlogBytes entries keepIDs dropIDs.
     store_resolve bk (su_getenv su) (pf_Store f) = Inr src
     \<and> fst (loadAndVerifier L (su_ctext su) (su_files su) (pf_Identity f) (pf_Signer f)) = Inr (identity, verifier)
     \<and> runlog_signed L (ps_Store src) verifier runlogBytes
     \<and> ParseRunlog runlogBytes = Inr entries \<and> Partition entries (pf_Keep f) = Inr (keepIDs, dropIDs)
     \<and> (\<exists>runID \<in> set dropIDs. \<exists>rd. opens L src identity verifier runID rd
          \<and> (dead_segment L src identity verifier keepIDs rd k
             \<or> dead_tree L src identity verifier keepIDs h runID rd k)))}"

lemma applyWithReceipt_history:
  assumes "ap_History (applyWithReceipt store plan dryRun path io rcpt fs) \<noteq> []"
  shows "\<exists>out. Apply store plan dryRun = (out, ap_History (applyWithReceipt store plan dryRun path io rcpt fs))"
  using assms by (auto simp: applyWithReceipt_def split: prod.splits option.splits sum.splits if_splits)

lemma cmdPrune_run:
  assumes "po_Run (cmdPrune L text su bk f io now fs) = Some r"
  obtains src identity verifier keepIDs plan where "store_resolve bk (su_getenv su) (pf_Store f) = Inr src"
    "fst (loadAndVerifier L (su_ctext su) (su_files su) (pf_Identity f) (pf_Signer f)) = Inr (identity, verifier)"
    "plan_prune L text (ps_Store src) identity verifier (pf_Keep f) = Inr (keepIDs, plan)"
    "r = applyWithReceipt (ps_Destination src) plan (\<not> pf_Apply f) (pf_Receipt f) io (prune_receipt f keepIDs plan now) fs"
    "\<forall>res. ap_Result r = Inr res \<longrightarrow> po_Error (cmdPrune L text su bk f io now fs) = pruneExit res (pf_Apply f)"
  using assms
  by (auto simp: cmdPrune_def prune_stops_def Let_def split: if_splits sum.splits prod.splits)

lemma attempts_Cons:
  assumes "(k, o') \<in> set (attempts (cmdPrune L text su bk f io now fs))"
  obtains src identity verifier keepIDs plan out where "store_resolve bk (su_getenv su) (pf_Store f) = Inr src"
    "fst (loadAndVerifier L (su_ctext su) (su_files su) (pf_Identity f) (pf_Signer f)) = Inr (identity, verifier)"
    "plan_prune L text (ps_Store src) identity verifier (pf_Keep f) = Inr (keepIDs, plan)"
    "Apply (ps_Destination src) plan (\<not> pf_Apply f) = (out, attempts (cmdPrune L text su bk f io now fs))"
proof -
  let ?out = "cmdPrune L text su bk f io now fs"
  obtain r where r: "po_Run ?out = Some r" using assms by (cases "po_Run ?out") (auto simp: attempts_def)
  then have h: "attempts ?out = ap_History r" "ap_History r \<noteq> []" using assms by (auto simp: attempts_def)
  from r obtain src identity verifier keepIDs plan where a: "store_resolve bk (su_getenv su) (pf_Store f) = Inr src"
    "fst (loadAndVerifier L (su_ctext su) (su_files su) (pf_Identity f) (pf_Signer f)) = Inr (identity, verifier)"
    "plan_prune L text (ps_Store src) identity verifier (pf_Keep f) = Inr (keepIDs, plan)"
    "r = applyWithReceipt (ps_Destination src) plan (\<not> pf_Apply f) (pf_Receipt f) io (prune_receipt f keepIDs plan now) fs"
    by (rule cmdPrune_run)
  have "\<exists>out. Apply (ps_Destination src) plan (\<not> pf_Apply f) = (out, ap_History r)"
    using applyWithReceipt_history [of "ps_Destination src" plan "\<not> pf_Apply f" "pf_Receipt f" io
        "prune_receipt f keepIDs plan now" fs] h(2) a(4) by simp
  with a(1,2,3) that show thesis unfolding h(1) by blast
qed

lemma enumerate_runs_all:
  assumes "\<forall>r \<in> set (enumerate_runs L text (ps_Store src) runIDs identity verifier). rr_Complete r" "runID \<in> set runIDs"
  shows "\<exists>rd r. opens L src identity verifier runID rd \<and> r \<in> set (enumerate_runs L text (ps_Store src) runIDs identity verifier)
    \<and> set (rr_Objects r) = set (run_objects rd)"
proof -
  have e: "enumerate_run L text (ps_Store src) identity verifier runID
      \<in> set (enumerate_runs L text (ps_Store src) runIDs identity verifier)"
    using assms(2) by (simp add: enumerate_runs_def)
  obtain rd where "Open L (ps_Store src) runID identity verifier prune_options = Inr rd"
    using bspec [OF assms(1) e] by (auto simp: enumerate_run_def split: sum.splits)
  then show ?thesis using e by (intro exI [of _ rd] exI [of _ "enumerate_run L text (ps_Store src) identity verifier runID"])
    (simp add: opens_def enumerate_run_def)
qed


section \<open>The receipt of a pass that stops\<close>

lemma receipt_write_states:
  assumes "receipt_write os dir tmpName path body fs = (err, states)" "tmpName \<noteq> path"
  shows "states \<noteq> []"
    and "s \<in> set states \<Longrightarrow> s path = fs path \<or> (\<exists>b. body = Inr b \<and> s path = Some (b @ [0x0A]))"
    and "err = None \<Longrightarrow> \<exists>b. body = Inr b \<and> (last states) path = Some (b @ [0x0A])"
  using assms by (auto simp: receipt_write_def Let_def split: option.splits prod.splits sum.splits)

definition started_on_record :: "receipt_io \<Rightarrow> PruneReceipt \<Rightarrow> bytes option \<Rightarrow> bool" where
  "started_on_record io rcpt file \<longleftrightarrow> (\<exists>b. rw_encode io rcpt = Inr b \<and> file = Some (b @ [0x0A]))"

definition finished_on_record :: "receipt_io \<Rightarrow> PruneReceipt \<Rightarrow> apply_run \<Rightarrow> bytes option \<Rightarrow> bool" where
  "finished_on_record io rcpt r file \<longleftrightarrow>
     (\<exists>res b. ap_Result r = Inr res \<and> rw_encode io (receipt_complete rcpt res (rw_finished io)) = Inr b
        \<and> file = Some (b @ [0x0A]))"

text \<open>
  C15. A prune that was asked for a receipt is always on record: whoever looks at the disk and the destination at
  any moment, between any two operations and however the file operations end, finds no object deleted or even asked
  for unless the receipt file is there, whole; while the pass goes on it is the record of what was planned, marked
  as not finished, and the record of what was done can only be found once the last delete has been answered.
\<close>
theorem interrupted_prune_is_on_record:
  assumes "r = applyWithReceipt store plan dryRun path io rcpt fs" "path \<noteq> ''''"
    "rw_firstTmp io \<noteq> path" "rw_secondTmp io \<noteq> path" "(s, h) \<in> set (apply_trace r)" "h \<noteq> []"
  shows "started_on_record io rcpt (s path) \<or> finished_on_record io rcpt r (s path) \<and> h = ap_History r"
proof -
  obtain err1 states1 where w: "receipt_write (rw_first io) (rw_dir io) (rw_firstTmp io) path (rw_encode io rcpt) fs
      = (err1, states1)" by fastforce
  have ne: "err1 = None"
  proof (rule ccontr)
    assume "err1 \<noteq> None"
    then have "ap_History r = []" "ap_After r = []" using assms(1,2) w by (auto simp: applyWithReceipt_def)
    then show False using assms(5,6) by (auto simp: apply_trace_def)
  qed
  note first = receipt_write_states [OF w assms(3)]
  have b1: "started_on_record io rcpt ((last states1) path)" using first(3) [OF ne] by (auto simp: started_on_record_def)
  have before: "ap_Before r = states1"
    using assms(1,2) w ne by (auto simp: applyWithReceipt_def split: sum.splits prod.splits)
  from assms(5,6) consider "s = last states1" | "s \<in> set (ap_After r)" "h = ap_History r"
    unfolding apply_trace_def before by auto
  then show ?thesis
  proof cases
    case 1
    then show ?thesis using b1 by simp
  next
    case 2
    obtain res h' where a: "Apply store plan dryRun = (Inr res, h')"
      using 2(1) assms(1,2) w ne by (auto simp: applyWithReceipt_def split: sum.splits prod.splits)
    obtain err2 states2 where w2: "receipt_write (rw_second io) (rw_dir io) (rw_secondTmp io) path
        (rw_encode io (receipt_complete rcpt res (rw_finished io))) (last states1) = (err2, states2)" by fastforce
    have r: "ap_Result r = Inr res" "ap_After r = states2" using assms(1,2) w w2 ne a by (auto simp: applyWithReceipt_def)
    have "s path = (last states1) path
        \<or> (\<exists>b. rw_encode io (receipt_complete rcpt res (rw_finished io)) = Inr b \<and> s path = Some (b @ [0x0A]))"
      using receipt_write_states(2) [OF w2 assms(4)] 2(1) r(2) by simp
    then show ?thesis using b1 2(2) r(1) by (auto simp: finished_on_record_def)
  qed
qed

definition ex_io :: receipt_io where
  "ex_io = \<lparr>rw_dir = ''d'', rw_encode = (\<lambda>r. if Interrupted r then Inr [1] else Inr [2]),
     rw_first = \<lparr>oo_create = None, oo_write = None, oo_sync = None, oo_close = None, oo_rename = None,
       oo_opendir = None, oo_syncdir = None\<rparr>,
     rw_firstTmp = ''t'', rw_second = ex_disk_full, rw_secondTmp = ''u'', rw_finished = ''later''\<rparr>"

definition ex_receipt :: PruneReceipt where
  "ex_receipt = NewReceipt ''d'' ''apply'' 1 1 ex_plan ''now''"

lemma ex_apply_run:
  "ap_History (applyWithReceipt ex_store ex_plan False ''r'' ex_io ex_receipt Map.empty)
     = [(''s2'', None), (''run/b/root'', None)]"
  "last (ap_Before (applyWithReceipt ex_store ex_plan False ''r'' ex_io ex_receipt Map.empty)) = [''r'' \<mapsto> [1, 0x0A]]"
  by (auto simp: applyWithReceipt_def ex_io_def ex_receipt_def ex_Apply receipt_write_def ex_disk_full_def Let_def
      NewReceipt_def Interrupted_def fun_eq_iff)

theorem interrupted_prune_is_on_record_witness:
  "started_on_record ex_io ex_receipt (Some [1, 0x0A])
   \<or> finished_on_record ex_io ex_receipt (applyWithReceipt ex_store ex_plan False ''r'' ex_io ex_receipt Map.empty)
       (Some [1, 0x0A])"
proof -
  let ?r = "applyWithReceipt ex_store ex_plan False ''r'' ex_io ex_receipt Map.empty"
  have "([''r'' \<mapsto> [1, 0x0A]], [(''s2'', None)]) \<in> set (apply_trace ?r)"
    unfolding apply_trace_def ex_apply_run by (simp add: upt_rec [of 0] upt_rec [of 1])
  from interrupted_prune_is_on_record [OF refl _ _ _ this] show ?thesis by (auto simp: ex_io_def)
qed

section \<open>The exit status\<close>

text \<open>
  An applied prune whose pass ran to its end exits with success exactly when every object it asked for was removed
  and none was held back, and otherwise as incomplete; a dry run that ends exits with success.
\<close>

lemma prune_exit_status:
  assumes "po_Run (cmdPrune L text su bk f io now fs) = Some r" "ap_Result r = Inr res"
  shows "exit_status ''prune'' (po_Error (cmdPrune L text su bk f io now fs)) =
    (if pf_Apply f \<and> (\<not> list_all (\<lambda>a. snd a = None) (ap_History r) \<or> rs_HeldRunObjects res > 0) then ExitPruneIncomplete else 0)"
proof -
  obtain src identity verifier keepIDs plan where "store_resolve bk (su_getenv su) (pf_Store f) = Inr src"
    "fst (loadAndVerifier L (su_ctext su) (su_files su) (pf_Identity f) (pf_Signer f)) = Inr (identity, verifier)"
    "plan_prune L text (ps_Store src) identity verifier (pf_Keep f) = Inr (keepIDs, plan)"
    and r:
    "r = applyWithReceipt (ps_Destination src) plan (\<not> pf_Apply f) (pf_Receipt f) io (prune_receipt f keepIDs plan now) fs"
    "\<forall>res. ap_Result r = Inr res \<longrightarrow> po_Error (cmdPrune L text su bk f io now fs) = pruneExit res (pf_Apply f)"
    by (rule cmdPrune_run [OF assms(1)])
  note e = r(2) [rule_format, OF assms(2)]
  have ap: "Apply (ps_Destination src) plan (\<not> pf_Apply f) = (Inr res, ap_History r)"
    using assms(2) r by (auto simp: applyWithReceipt_def split: prod.splits option.splits sum.splits if_splits)
  show ?thesis
  proof (cases "pf_Apply f")
    case True
    have "\<not> Incomplete res \<longleftrightarrow> map fst (ap_History r) = deletes_of (ap_History r) \<and> rs_HeldRunObjects res = 0"
      using Apply_totals(3) [of "ps_Destination src" plan res "ap_History r"] ap True by simp
    moreover have "map fst h = deletes_of h \<longleftrightarrow> list_all (\<lambda>a. snd a = None) h" for h
    proof
      assume "map fst h = deletes_of h"
      then have "length (filter (\<lambda>(k, o'). o' = None) h) = length h" by (metis deletes_of_def length_map)
      then have "filter (\<lambda>(k, o'). o' = None) h = h" by (metis filter_id_conv length_filter_less less_irrefl)
      then show "list_all (\<lambda>a. snd a = None) h" by (auto simp: filter_id_conv list_all_iff)
    next
      assume "list_all (\<lambda>a. snd a = None) h"
      then have "filter (\<lambda>(k, o'). o' = None) h = h" by (auto simp: filter_id_conv list_all_iff)
      then show "map fst h = deletes_of h" by (simp add: deletes_of_def)
    qed
    ultimately show ?thesis using True
      by (auto simp: e pruneExit_def errors_Is_def errHelpRequested_def)
  next
    case False
    then show ?thesis by (simp add: e pruneExit_def)
  qed
qed

end
