(* ===== verification/RestoreCommand.thy ===== *)
theory RestoreCommand
  imports CommandLine RestoreFacts
begin

text \<open>
  \<open>cmd/downpipe/restore.go\<close>, \<open>verify.go\<close> and \<open>attest.go\<close>: the commands that open a run, from the parsed flags to
  what they print, the receipt they leave and the error they return. The walk over the records and the restore are
  those of the packages below; the three targets of a restore are the cases of a type. The clock is the texts of the
  two stamps of a receipt.
\<close>

section \<open>Sizes\<close>

text \<open>Two letters outside ASCII have a lower case inside it: the dotted capital I and the Kelvin sign.\<close>

fun unit_lower :: "string \<Rightarrow> string" where
  "unit_lower [] = []"
| "unit_lower (c # r) =
     (if c = CHR 0xC4 \<and> prefix [CHR 0xB0] r then CHR ''i'' # unit_lower (drop 1 r)
      else if c = CHR 0xE2 \<and> prefix [CHR 0x84, CHR 0xAA] r then CHR ''k'' # unit_lower (drop 2 r)
      else ascii_lower c # unit_lower r)"

definition size_unit :: "string \<Rightarrow> int option" where
  "size_unit u = map_of
     [('''', 1), (''b'', 1), (''k'', 2 ^ 10), (''kib'', 2 ^ 10), (''kb'', 1000), (''m'', 2 ^ 20), (''mib'', 2 ^ 20),
      (''mb'', 1000 * 1000), (''g'', 2 ^ 30), (''gib'', 2 ^ 30), (''gb'', 1000 * 1000 * 1000), (''t'', 2 ^ 40),
      (''tib'', 2 ^ 40), (''tb'', 1000 * 1000 * 1000 * 1000)] u"

definition parseHumanBytes :: "string \<Rightarrow> goerr + int" where
  "parseHumanBytes s0 =
     (let s = TrimSpace s0; digits = takeWhile is_digit s; rest = dropWhile is_digit s
      in if s = '''' then Inr 0
         else if digits = '''' then
           Inl (Errorf ''invalid size %q: expected a number, optionally with a unit like MiB or GB'' [AStr s])
         else (case parse_int64 digits of
           None \<Rightarrow> Inl (Errorf ''invalid size %q: %w'' [AStr s, AWrap (Sentinel ''value out of range'')])
         | Some n \<Rightarrow>
             (case size_unit (unit_lower (TrimSpace rest)) of
                None \<Rightarrow> Inl (Errorf ''invalid size unit in %q (want B, KiB/KB, MiB/MB, GiB/GB or TiB/TB)'' [AStr s])
              | Some factor \<Rightarrow>
                  if factor > 1 \<and> n > 2 ^ 62 div factor then Inl (Errorf ''size %q overflows int64'' [AStr s])
                  else Inr (n * factor))))"

section \<open>What a pass comes to\<close>

definition conflict_kind_name :: "ConflictKind \<Rightarrow> string" where
  "conflict_kind_name k =
     (case k of ConflictExisting \<Rightarrow> ''existing'' | ConflictCollision \<Rightarrow> ''collision''
      | ConflictUnrepresentable \<Rightarrow> ''unrepresentable'')"

definition conflictKindTally :: "(ConflictKind \<Rightarrow> int option) \<Rightarrow> (string \<times> int) list" where
  "conflictKindTally kinds =
     List.map_filter (\<lambda>k. map_option (\<lambda>n. (conflict_kind_name k, n)) (kinds k))
       [ConflictExisting, ConflictCollision, ConflictUnrepresentable]"

definition markerKindTally :: "RecordMarker list \<Rightarrow> (string \<times> int) list" where
  "markerKindTally markers =
     foldl (\<lambda>t m. AList.update (mk_Kind m) ((case map_of t (mk_Kind m) of None \<Rightarrow> 0 | Some n \<Rightarrow> n) + 1) t) [] markers"

definition fs_ErrNotExist :: goerr where
  "fs_ErrNotExist = StoreErr \<lparr>se_Text = ''file does not exist'', se_Unreachable = None, se_ObjectAbsent = None, se_NotExist = True\<rparr>"

text \<open>The tag prints as the aggregate alone, and has nothing but the sentinel on its chain.\<close>

definition absentObjectErr :: "goerr \<Rightarrow> goerr" where
  "absentObjectErr err = Errorf ''%v'' [AVal err, AWrap fs_ErrNotExist]"

definition tagAbsentObject :: "RestoreResult option \<Rightarrow> goerr \<Rightarrow> goerr" where
  "tagAbsentObject res err =
     (case res of None \<Rightarrow> err | Some r \<Rightarrow> if \<not> AnyAbsentObject r then err else absentObjectErr err)"

definition perRecordExit :: "RestoreResult \<Rightarrow> int" where
  "perRecordExit res =
     (if DanglingOnly res then ExitDangling
      else if rs_IntegrityExit res \<noteq> 0 then rs_IntegrityExit res else exitUncoded)"

definition foldPerRecordExit :: "int \<Rightarrow> int \<Rightarrow> int" where
  "foldPerRecordExit c recordCode =
     (if c = 0 then recordCode
      else if recordCode \<noteq> ExitDangling \<and> recordCode \<noteq> ExitUnreachable \<and> recordCode > c then recordCode else c)"

definition restoreValueVerified :: "bool \<Rightarrow> string \<Rightarrow> bool" where
  "restoreValueVerified dryRun targetKind \<longleftrightarrow>
     \<not> dryRun \<and> (targetKind = ''file'' \<or> targetKind = ''env'' \<or> targetKind = ''discard'')"

definition receiptCompleteness :: "RestoreResult option \<Rightarrow> string" where
  "receiptCompleteness res =
     (case res of None \<Rightarrow> ''''
      | Some r \<Rightarrow> if DanglingOnly r then ''incomplete'' else if \<not> OK r then ''UNVERIFIED'' else ''complete'')"

definition checkRecoveryBundle ::
  "pk_lib \<Rightarrow> bool \<Rightarrow> bool \<Rightarrow> ObjectStore \<Rightarrow> HybridVerifier \<Rightarrow> (goerr + bool) \<times> line list" where
  "checkRecoveryBundle L check allowUnverified store verifier =
     (if \<not> check then (Inr False, [])
      else (case VerifyBundle L (st_Get store) verifier of
        Inl err \<Rightarrow>
          if \<not> allowUnverified then (Inl (ExitError ExitUnverified (Errorf ''recovery bundle: %w'' [AWrap err])), [])
          else (Inr False, [Printf ''warning: recovery bundle check failed: %v'' [AVal err]])
      | Inr _ \<Rightarrow> (Inr True, [])))"

section \<open>Reports\<close>

definition int_length :: "'a list \<Rightarrow> int" where
  "int_length xs = int (length xs)"

definition reprovision_count_line :: string where "reprovision_count_line = ''%d record(s) restore by re-provisioning, not a live re-apply:''"
definition reprovision_line :: string where "reprovision_line = ''  reprovision [%s] %q -> %q: %s''"

definition reportReprovision :: "RestorePlan \<Rightarrow> line list" where
  "reportReprovision plan =
     (if pl_Reprovision plan = [] then []
      else Printf reprovision_count_line [AInt (int_length (pl_Reprovision plan))]
        # map (\<lambda>rp. Printf reprovision_line [AStr (rv_SourceType rp), AStr (rv_Name rp), AStr (rv_Key rp), AStr (rv_Guidance rp)])
            (pl_Reprovision plan))"

definition reportD1 :: "RestorePlan \<Rightarrow> line list" where
  "reportD1 plan =
     (if \<not> pl_HasD1File plan then [] else [Printf ''d1 dump(s) planned as .sql: %s'' [AStr D1ReplayGuidance]])"

definition unrenderable_plan_line :: string where "unrenderable_plan_line = ''  unrenderable d1 format %q %q -> %q: written verbatim, NOT SQL; do not apply it with sqlite3''"

definition reportD1Unrenderable :: "RestorePlan \<Rightarrow> bool \<Rightarrow> line list" where
  "reportD1Unrenderable plan apply =
     (if pl_D1Unrenderable plan = [] then []
      else Printf ''d1 dump(s) this release cannot render: %s''
             [AStr (D1UnrenderableGuidance (int_length (pl_D1Unrenderable plan)) apply)]
        # map (\<lambda>u. Printf unrenderable_plan_line [AStr (du_Format u), AStr (du_Name u), AStr (du_Key u)])
            (pl_D1Unrenderable plan))"

definition unrenderable_line :: string where "unrenderable_line = ''  WARNING unrenderable d1 format %q %q -> %q: the bytes are verified and were written unchanged, and they are NOT SQL; do not apply this file with sqlite3''"
definition unrenderable_count_line :: string where
  "unrenderable_count_line = ''WARNING: %d of %d restored record(s) carry a D1 body format this release cannot render. Nothing is corrupt and nothing was lost; use a downpipe release that reads the label named against each record.''"

definition reportUnrenderable :: "RestoreResult \<Rightarrow> line list" where
  "reportUnrenderable res =
     (if rs_Unrenderable res = [] then []
      else map (\<lambda>u. Printf unrenderable_line [AStr (ru_Format u), AStr (ru_Name u), AStr (ru_Key u)]) (rs_Unrenderable res)
        @ [Printf unrenderable_count_line [AInt (int_length (rs_Unrenderable res)), AInt (rs_Restored res)]])"

definition sidecar_line :: string where "sidecar_line = ''kept the source metadata of %d record(s) in a sidecar next to each value (<key>%s, docs/format/SPEC.md 6.3). Apply it when you put the objects back.''"
definition metadata_line :: string where "metadata_line = ''  WARNING metadata NOT kept [%s] %q -> %q: %s: %s''"
definition metadata_count_line :: string where
  "metadata_count_line = ''WARNING: %d of %d restored record(s) carry source metadata (KV metadata or expiration, R2 HTTP or custom metadata) that this restore did NOT keep. The values are restored; the metadata is only in the archive.''"

definition comma_joined :: "string list \<Rightarrow> string" where
  "comma_joined xs = concat (case xs of [] \<Rightarrow> [] | x # r \<Rightarrow> x # map (\<lambda>y. '', '' @ y) r)"

definition reportMetadata :: "RestoreResult \<Rightarrow> line list" where
  "reportMetadata res =
     (if rs_MetadataSidecars res > 0 then [Printf sidecar_line [AInt (rs_MetadataSidecars res), AStr MetadataSidecarSuffix]] else [])
     @ (if rs_MetadataUnapplied res = [] then []
        else map (\<lambda>u. Printf metadata_line [AStr (mu_SourceType u), AStr (mu_Name u), AStr (mu_Key u),
                   AStr (comma_joined (mu_Fields u)), mu_Reason u]) (rs_MetadataUnapplied res)
          @ [Printf metadata_count_line [AInt (int_length (rs_MetadataUnapplied res)), AInt (rs_Restored res)]])"

definition reprovision_only_count_line :: string where
  "reprovision_only_count_line = ''%d record(s) restore via reprovision, not a plain file write: the verified bytes could not be laid down as a file (a Worker's content and its settings/versions cannot share one path). Re-deploy from the verified snapshot per the reprovision guidance above. This is expected, not a failure.''"
definition reprovision_only_line :: string where "reprovision_only_line = ''  reprovision-only [%s] %q -> %q: verified, file not written (%s)''"

definition reportReprovisionOnly :: "RestoreResult \<Rightarrow> line list" where
  "reportReprovisionOnly res =
     (if rs_Reprovisioned res = [] then []
      else Printf reprovision_only_count_line [AInt (int_length (rs_Reprovisioned res))]
        # map (\<lambda>rp. Printf reprovision_only_line [AStr (rp2_SourceType rp), AStr (rp2_Name rp), AStr (rp2_Key rp), rp2_Reason rp])
            (rs_Reprovisioned res))"

definition marker_line :: string where "marker_line = ''  WARNING incompleteness marker [%s] %q -> %q: the source was partially unavailable at backup time; this value is a sentinel placeholder, NOT real data''"
definition marker_count_line :: string where "marker_count_line = ''WARNING: %d of %d restored record(s) are incompleteness markers (the source was partially unavailable at backup time), NOT real data. Their value is a valid, hash-verifying sentinel placeholder; do not treat it as the source's live data.''"

definition reportIncompleteMarkers :: "RestoreResult \<Rightarrow> line list" where
  "reportIncompleteMarkers res =
     (if rs_IncompleteMarkers res = 0 then []
      else map (\<lambda>m. Printf marker_line [AStr (mk_Kind m), AStr (mk_Name m), AStr (mk_Key m)]) (rs_Markers res)
        @ [Printf marker_count_line [AInt (rs_IncompleteMarkers res), AInt (rs_Restored res)]])"

definition plan_line :: string where "plan_line = ''plan (%s target): %d record(s), %d byte(s) planned, %d conflict(s)''"
definition conflict_line :: string where "conflict_line = ''  conflict [%s] %q -> %q: %s''"
definition dry_run_line :: string where "dry_run_line = ''dry run: nothing was written. Re-run with --apply to write.''"
definition restored_line :: string where "restored_line = ''restored %d record(s), %d byte(s); %d reprovision-only, %d failed, %d conflict(s) skipped''"

definition reportRestore :: "RestorePlan \<Rightarrow> RestoreResult \<Rightarrow> bool \<Rightarrow> line list" where
  "reportRestore plan res apply =
     [Printf plan_line [AStr (pl_Kind plan), AInt (pl_WriteCount plan), AInt (pl_TotalBytes plan), AInt (int_length (pl_Conflicts plan))]]
     @ map (\<lambda>c. Printf conflict_line [AStr (conflict_kind_name (cf_Kind c)), AStr (cf_Name c), AStr (cf_Key c), cf_Detail c])
         (pl_Conflicts plan)
     @ reportReprovision plan @ reportD1 plan @ reportD1Unrenderable plan apply
     @ (if \<not> apply then [Printf dry_run_line []]
        else Printf restored_line [AInt (rs_Restored res), AInt (rs_BytesRestored res), AInt (int_length (rs_Reprovisioned res)),
                 AInt (int_length (rs_Failed res)), AInt (rs_SkippedConflicts res)]
          # map (\<lambda>f. Printf ''  failed %q -> %q: %s'' [AStr (rf_Name f), AStr (rf_Key f), rf_Reason f]) (rs_Failed res)
          @ reportReprovisionOnly res @ reportIncompleteMarkers res @ reportUnrenderable res @ reportMetadata res)"

definition attestation_line :: string where "attestation_line = ''restorability attestation: verified %d record(s), %d byte(s); %d failed, %d conflict(s) skipped''"
definition digest_line :: string where "digest_line = ''restore digest (sha384 over each record's key and plaintext hash): %s%s''"
definition empty_note :: string where "empty_note = '' (no record was verified, so this is the digest of an empty stream, not of your data)''"
definition discard_dangling_line :: string where "discard_dangling_line = ''discard sink: %d record(s) could not be read at all because %d segment object(s) are absent from this archive (named above); nothing failed a check, and no plaintext was written.''"
definition discard_failed_line :: string where "discard_failed_line = ''discard sink: %d record(s) did NOT decrypt or did not match their signed hash (named above); no plaintext was written.''"
definition discard_ok_line :: string where "discard_ok_line = ''discard sink: every record was decrypted and verified; no plaintext was written.''"

definition reportDiscard :: "DiscardTarget \<Rightarrow> RestorePlan \<Rightarrow> RestoreResult \<Rightarrow> line list" where
  "reportDiscard dt plan res =
     [Printf attestation_line [AInt (ds_records dt), AInt (ds_bytes dt), AInt (int_length (rs_Failed res)), AInt (rs_SkippedConflicts res)],
      Printf digest_line [AStr (Digest dt), AStr (if ds_records dt = 0 then empty_note else '''')]]
     @ map (\<lambda>f. Printf ''  failed %q: %s'' [AStr (rf_Name f), rf_Reason f]) (rs_Failed res)
     @ reportReprovisionOnly res @ reportIncompleteMarkers res @ reportReprovision plan @ reportD1 plan
     @ (if rs_Failed res \<noteq> [] then
          [if DanglingOnly res
           then Printf discard_dangling_line [AInt (int_length (rs_Failed res)), AInt (DanglingSegments res)]
           else Printf discard_failed_line [AInt (int_length (rs_Failed res))]]
        else [Printf discard_ok_line []])"

section \<open>The restore command\<close>

record restore_flags =
  rsf_store :: storeFlags
  rsf_run :: string
  rsf_identity :: identityFlags
  rsf_signer :: signerFlags
  rsf_out :: string
  rsf_sinkKind :: string
  rsf_apply :: bool
  rsf_allowStale :: bool
  rsf_allowUnverifiedRunlog :: bool
  rsf_allowUnverified :: bool
  rsf_minIndex :: int
  rsf_ackNoPin :: bool
  rsf_checkBundle :: bool
  rsf_receipt :: string
  rsf_receiptSigner :: string
  rsf_fetchConcurrency :: int
  rsf_maxMemory :: string

text \<open>What the parsed flags must satisfy; the answer is the memory cap.\<close>

definition check_restore_flags :: "pk_lib \<Rightarrow> surroundings \<Rightarrow> restore_flags \<Rightarrow> goerr + int" where
  "check_restore_flags L su f =
     (if rsf_run f = '''' \<or> \<not> identity_supplied (rsf_identity f) \<or> \<not> signer_supplied (rsf_signer f)
      then Inl (missingReaderInputs ''restore'' (rsf_run f) (identity_supplied (rsf_identity f))
                  (signer_supplied (rsf_signer f)) (store_supplied (rsf_store f)))
      else if rsf_sinkKind f = ''file'' \<and> rsf_out f = '''' then Inl (usagef ''restore --sink file needs --out <dir>'' [])
      else rbind (checkReceiptSigner L (su_files su) (rsf_receiptSigner f)) (\<lambda>_.
        map_err (\<lambda>err. ExitError ExitUsage (Errorf ''--max-memory: %w'' [AWrap err])) (parseHumanBytes (rsf_maxMemory f))))"

text \<open>The three targets, and what they start from: the directory, the environment and the standard output.\<close>

datatype sink = FileSink DirTarget | EnvSink EnvTarget | DiscardSink DiscardTarget

record sink_world =
  sw_dir :: filesys
  sw_tmp :: "nat \<Rightarrow> nat \<Rightarrow> string"
  sw_environ :: "string list"
  sw_stdout :: "(goerr \<times> nat) option list"

definition envNames :: "string list \<Rightarrow> string list" where
  "envNames env = List.map_filter (\<lambda>kv. case index_byte CHR ''='' kv of
     Some i \<Rightarrow> if i > 0 then Some (take i kv) else None | None \<Rightarrow> None) env"

definition newRestoreTarget :: "string \<Rightarrow> string \<Rightarrow> sink_world \<Rightarrow> goerr + sink" where
  "newRestoreTarget sinkKind out w =
     (if sinkKind = ''file'' then Inr (FileSink (NewDirTarget out (sw_dir w) (sw_tmp w)))
      else if sinkKind = ''env'' then Inr (EnvSink (NewEnvTarget (envNames (sw_environ w)) (sw_stdout w)))
      else if sinkKind = ''discard'' then Inr (DiscardSink NewDiscardTarget)
      else Inl (usagef ''unknown --sink %q (want file, env or discard)'' [AStr sinkKind]))"

definition restore_options :: "restore_flags \<Rightarrow> int \<Rightarrow> Options" where
  "restore_options f maxMem = \<lparr>op_MinRunlogIndex = rsf_minIndex f, op_AllowStale = rsf_allowStale f,
     op_AllowUnverifiedRunlog = rsf_allowUnverifiedRunlog f, op_AllowUnverified = rsf_allowUnverified f,
     op_CheckRecoveryBundle = False, op_FetchConcurrency = rsf_fetchConcurrency f, op_MaxMemoryBytes = maxMem\<rparr>"

definition restore_receipt_input ::
  "RestoreResult \<Rightarrow> string \<Rightarrow> HybridVerifier \<Rightarrow> string \<Rightarrow> string \<Rightarrow> int \<Rightarrow> bool \<Rightarrow> int \<Rightarrow> ReceiptInput" where
  "restore_receipt_input res kind verifier started finished c bundleOK minIndex =
     \<lparr>ri_StartedAt = started, ri_FinishedAt = finished, ri_SignerExpected = SignerFingerprint verifier,
      ri_TargetType = kind, ri_Restored = (if \<not> rs_DryRun res then rs_Restored res else 0), ri_ExitCode = c,
      ri_MinIndexPinned = minIndex, ri_RecoveryBundleVerified = bundleOK,
      ri_Completeness = (if \<not> rs_DryRun res then receiptCompleteness (Some res) else ''''),
      ri_VanishedExcluded = None,
      ri_DanglingSegments = (if \<not> rs_DryRun res then Some (DanglingSegments res) else None),
      ri_IncompleteMarkers = rs_IncompleteMarkers res, ri_IncompleteMarkerKinds = markerKindTally (rs_Markers res),
      ri_RecordsUnwritten = rs_SkippedConflicts res, ri_UnwrittenKinds = conflictKindTally (rs_ConflictKinds res)\<rparr>"

definition unverified_message :: string where "unverified_message = ''restored but unverified: signature=%s completeness=%s''"
definition dangling_message :: string where "dangling_message = ''%d of %d planned record(s) could not be restored from this archive: %d segment object(s) the signed manifests name are not here. No signature, tag or hash failed''"
definition unwritten_message :: string where "unwritten_message = ''restored %d record(s), but %d were NOT written: the target could not take them (see the conflicts above)''"
definition markers_message :: string where "markers_message = ''restored, but %d of %d record(s) are incompleteness markers (the source was partially unavailable at backup time), NOT real data''"
definition unrenderable_message :: string where "unrenderable_message = ''restored, but %d of %d record(s) carry a D1 body format this release cannot render; their verified bytes were written unchanged and are NOT SQL''"

definition run_code :: "bool \<Rightarrow> bool \<Rightarrow> Outcome \<Rightarrow> int" where
  "run_code checkBundle bundleOK oc =
     (if checkBundle \<and> \<not> bundleOK \<and> oc_Code oc = 0 then ExitUnverified else oc_Code oc)"

definition restore_exit_code :: "bool \<Rightarrow> int \<Rightarrow> RestoreResult \<Rightarrow> int" where
  "restore_exit_code apply c res = (if apply \<and> \<not> OK res then foldPerRecordExit c (perRecordExit res) else c)"

text \<open>The error the command ends with once the receipt is out.\<close>

definition restore_verdict :: "bool \<Rightarrow> int \<Rightarrow> Outcome \<Rightarrow> RestorePlan \<Rightarrow> RestoreResult \<Rightarrow> goerr option" where
  "restore_verdict apply c oc plan res =
     (let exitCode = restore_exit_code apply c res
      in if c \<noteq> 0 then
           Some (ExitError exitCode (Errorf unverified_message [AStr (oc_SignatureResult oc), AStr (oc_Completeness oc)]))
         else if apply \<and> \<not> OK res then
           (let aggregate =
              (if DanglingOnly res
               then Errorf dangling_message [AInt (int_length (rs_Failed res)), AInt (pl_WriteCount plan), AInt (DanglingSegments res)]
               else Errorf ''%d of %d planned record(s) failed to restore'' [AInt (int_length (rs_Failed res)), AInt (pl_WriteCount plan)])
            in Some (ExitError exitCode (tagAbsentObject (Some res) aggregate)))
         else if apply \<and> rs_SkippedConflicts res > 0 then
           Some (ExitError ExitUnwritten (Errorf unwritten_message [AInt (rs_Restored res), AInt (rs_SkippedConflicts res)]))
         else if apply \<and> rs_IncompleteMarkers res > 0 then
           Some (ExitError ExitIncompleteMarkers (Errorf markers_message [AInt (rs_IncompleteMarkers res), AInt (rs_Restored res)]))
         else if apply \<and> rs_Unrenderable res \<noteq> [] then
           Some (ExitError ExitUnrenderable (Errorf unrenderable_message [AInt (int_length (rs_Unrenderable res)), AInt (rs_Restored res)]))
         else None)"

text \<open>What a command leaves behind: the target, the lines on the standard error stream, the receipt and the error.\<close>

record 't command_end =
  ce_Target :: 't
  ce_Stderr :: "line list"
  ce_Receipt :: receipt_place
  ce_Error :: "goerr option"

definition fails_with :: "'t \<Rightarrow> line list \<Rightarrow> goerr \<Rightarrow> 't command_end" where
  "fails_with t notes err = \<lparr>ce_Target = t, ce_Stderr = notes, ce_Receipt = NoReceipt, ce_Error = Some err\<rparr>"

text \<open>The receipt with its stamps, the key it is signed with, the randomness of the signature and the writing of it.\<close>

record receipt_out =
  ro_started :: string
  ro_finished :: string
  ro_rnd :: bytes
  ro_write :: "receipt_place \<Rightarrow> goerr option"

text \<open>From the opened run to the end; \<open>report\<close> is what the target has to say.\<close>

definition restore_opened ::
  "pk_lib \<Rightarrow> gzip_decoder \<Rightarrow> surroundings \<Rightarrow> receipt_out \<Rightarrow> restore_flags \<Rightarrow> HybridVerifier \<Rightarrow> StreamReader \<Rightarrow> bool
    \<Rightarrow> 't Target \<Rightarrow> ('t \<Rightarrow> RestorePlan \<Rightarrow> RestoreResult \<Rightarrow> bool \<Rightarrow> line list) \<Rightarrow> line list \<Rightarrow> 't \<Rightarrow> 't command_end" where
  "restore_opened L gz su ro f verifier sr bundleOK T report notes t =
     (let apply = (rsf_apply f \<or> tg_Kind T = ''discard'')
      in case ApplyStreaming (EachRecord sr) (format_reader gz sr) T t apply of
           (t, _, Some err) \<Rightarrow> fails_with t notes err
         | (t, None, None) \<Rightarrow> fails_with t notes (Sentinel '''')
         | (t, Some (plan, res), None) \<Rightarrow>
             let c = run_code (rsf_checkBundle f) bundleOK (rr_outcome sr);
                 inp = restore_receipt_input res (tg_Kind T) verifier (ro_started ro) (ro_finished ro)
                         (restore_exit_code apply c res) bundleOK (rsf_minIndex f)
             in case emitReceipt L (ro_rnd ro) (su_files su) (ro_write ro) (stream_receipt_source sr) inp
                       (restoreValueVerified (rs_DryRun res) (tg_Kind T)) (rsf_receipt f) (rsf_receiptSigner f) of
                  (place, err) \<Rightarrow>
                    \<lparr>ce_Target = t, ce_Stderr = notes @ report t plan res apply, ce_Receipt = place,
                     ce_Error = (case err of Some e \<Rightarrow> Some e | None \<Rightarrow> restore_verdict apply c (rr_outcome sr) plan res)\<rparr>)"

definition map_end :: "('a \<Rightarrow> 'b) \<Rightarrow> 'a command_end \<Rightarrow> 'b command_end" where
  "map_end g e = \<lparr>ce_Target = g (ce_Target e), ce_Stderr = ce_Stderr e, ce_Receipt = ce_Receipt e, ce_Error = ce_Error e\<rparr>"

text \<open>The interrupt context is the argument \<open>ctx\<close>.\<close>

definition open_for_restore ::
  "pk_lib \<Rightarrow> goctx \<Rightarrow> surroundings \<Rightarrow> ObjectStore backends \<Rightarrow> restore_flags \<Rightarrow> int
    \<Rightarrow> (goerr + HybridVerifier \<times> StreamReader \<times> bool) \<times> line list" where
  "open_for_restore L ctx su bk f maxMem =
     (case store_resolve bk (su_getenv su) (rsf_store f) of Inl err \<Rightarrow> (Inl err, [])
      | Inr store \<Rightarrow>
     (case loadWithSigner L (su_ctext su) (su_files su) (rsf_identity f) (rsf_signer f) store of (keys, notices) \<Rightarrow>
      let notes = printCustodyNotices (su_ntext su) notices
      in case keys of Inl err \<Rightarrow> (Inl err, notes)
      | Inr (identity, verifier) \<Rightarrow>
      let notes = notes @ warnIfNoRollbackPin (rsf_minIndex f) (rsf_ackNoPin f)
      in case StreamOpenContext L ctx store (rsf_run f) identity verifier (restore_options f maxMem) of Inl err \<Rightarrow> (Inl err, notes)
      | Inr sr \<Rightarrow>
      let notes = notes @ warnIfRollbackOverridden (rr_freshness sr)
      in case checkRecoveryBundle L (rsf_checkBundle f) (rsf_allowUnverified f) store verifier of
           (Inl err, warns) \<Rightarrow> (Inl err, notes @ warns)
         | (Inr bundleOK, warns) \<Rightarrow> (Inr (verifier, sr, bundleOK), notes @ warns)))"

definition cmdRestore ::
  "pk_lib \<Rightarrow> gzip_decoder \<Rightarrow> goctx \<Rightarrow> surroundings \<Rightarrow> ObjectStore backends \<Rightarrow> receipt_out \<Rightarrow> restore_flags \<Rightarrow> sink_world
    \<Rightarrow> sink option command_end" where
  "cmdRestore L gz ctx su bk ro f w =
     (case check_restore_flags L su f of Inl err \<Rightarrow> fails_with None [] err
      | Inr maxMem \<Rightarrow>
     (case newRestoreTarget (rsf_sinkKind f) (rsf_out f) w of Inl err \<Rightarrow> fails_with None [] err
      | Inr target \<Rightarrow>
     (case open_for_restore L ctx su bk f maxMem of
        (Inl err, notes) \<Rightarrow> fails_with (Some target) notes err
      | (Inr (verifier, sr, bundleOK), notes) \<Rightarrow>
          map_end Some (case target of
            FileSink d \<Rightarrow> map_end FileSink
              (restore_opened L gz su ro f verifier sr bundleOK dir_target (\<lambda>_. reportRestore) notes d)
          | EnvSink e \<Rightarrow> map_end EnvSink
              (restore_opened L gz su ro f verifier sr bundleOK env_target (\<lambda>_. reportRestore) notes e)
          | DiscardSink dt \<Rightarrow> map_end DiscardSink
              (restore_opened L gz su ro f verifier sr bundleOK discard_target (\<lambda>dt plan res _. reportDiscard dt plan res)
                 notes dt)))))"

section \<open>The verify command\<close>

record verify_flags =
  vff_store :: storeFlags
  vff_run :: string
  vff_identity :: identityFlags
  vff_signer :: signerFlags
  vff_allowStale :: bool
  vff_allowUnverifiedRunlog :: bool
  vff_allowUnverified :: bool
  vff_minIndex :: int
  vff_ackNoPin :: bool
  vff_checkBundle :: bool
  vff_deep :: bool
  vff_fetchConcurrency :: int
  vff_receipt :: string
  vff_receiptSigner :: string

definition not_checked_text :: string where "not_checked_text = ''not-checked (pass --check-bundle to verify the in-bucket FORMAT.md and RECOVER.md against their signed SHA384SUMS)''"

definition bundleVerdict :: "bool \<Rightarrow> bool \<Rightarrow> string" where
  "bundleVerdict checked ok = (if \<not> checked then not_checked_text else if ok then ''verified'' else ''FAILED'')"

definition verdictWord :: "int \<Rightarrow> string" where
  "verdictWord c = (if c = ExitDangling then ''incomplete'' else ''unverified'')"

definition verdictLabel :: "int \<Rightarrow> string" where
  "verdictLabel c = (if c = 0 then ''verified'' else map ascii_upper (verdictWord c))"

definition incomplete_text :: string where "incomplete_text = ''incomplete (%d of %d record(s) could not be read: %d segment object(s) the signed manifests name are not in this archive. No signature, tag or hash failed)''"

text \<open>The phrase is its format with its counts.\<close>

definition reportedCompleteness :: "Outcome \<Rightarrow> bool \<Rightarrow> RestoreResult option \<Rightarrow> int \<Rightarrow> goarg" where
  "reportedCompleteness oc deep deepResult n =
     (case deepResult of
        None \<Rightarrow> AStr (oc_Completeness oc)
      | Some res \<Rightarrow>
          if \<not> deep then AStr (oc_Completeness oc)
          else if DanglingOnly res then
            AVal (Errorf incomplete_text [AInt (int_length (rs_Failed res)), AInt n, AInt (DanglingSegments res)])
          else if \<not> OK res then
            AVal (Errorf ''UNVERIFIED (%d of %d record(s) failed integrity)'' [AInt (int_length (rs_Failed res)), AInt n])
          else AVal (Errorf ''complete (%d record(s) decrypted+verified)'' [AInt (rs_Restored res)]))"

definition shallow_line :: string where "shallow_line = ''%s: run %s, %d record(s); signature=%s structure=%s (manifests only: segment bytes NOT decrypted; run 'verify --deep' or 'restore --sink discard') bundle=%s''"
definition deep_line :: string where "deep_line = ''%s: run %s, %d record(s); signature=%s completeness=%s bundle=%s''"

definition emitVerifySummary :: "string \<Rightarrow> int \<Rightarrow> Outcome \<Rightarrow> bool \<Rightarrow> RestoreResult option \<Rightarrow> int \<Rightarrow> string \<Rightarrow> line list" where
  "emitVerifySummary run n oc deep deepResult c bundle =
     (if \<not> deep then
        [Printf shallow_line [AStr (verdictLabel c), AStr run, AInt n, AStr (oc_SignatureResult oc), AStr (oc_Completeness oc), AStr bundle]]
      else
        [Printf deep_line [AStr (verdictLabel c), AStr run, AInt n, AStr (oc_SignatureResult oc),
           reportedCompleteness oc deep deepResult n, AStr bundle]])"

definition verify_receipt_input ::
  "RestoreResult option \<Rightarrow> HybridVerifier \<Rightarrow> string \<Rightarrow> string \<Rightarrow> int \<Rightarrow> bool \<Rightarrow> int \<Rightarrow> ReceiptInput" where
  "verify_receipt_input deepResult verifier started finished c bundleOK minIndex =
     (let inp = \<lparr>ri_StartedAt = started, ri_FinishedAt = finished, ri_SignerExpected = SignerFingerprint verifier,
            ri_TargetType = ''verify'', ri_Restored = 0, ri_ExitCode = c, ri_MinIndexPinned = minIndex,
            ri_RecoveryBundleVerified = bundleOK, ri_Completeness = '''', ri_VanishedExcluded = None,
            ri_DanglingSegments = None, ri_IncompleteMarkers = 0, ri_IncompleteMarkerKinds = [],
            ri_RecordsUnwritten = 0, ri_UnwrittenKinds = []\<rparr>
      in case deepResult of None \<Rightarrow> inp
         | Some res \<Rightarrow> inp\<lparr>ri_TargetType := ''discard'', ri_Restored := rs_Restored res,
             ri_IncompleteMarkers := rs_IncompleteMarkers res, ri_IncompleteMarkerKinds := markerKindTally (rs_Markers res),
             ri_DanglingSegments := Some (DanglingSegments res), ri_Completeness := receiptCompleteness (Some res)\<rparr>)"

definition bundle_reason_message :: string where "bundle_reason_message = ''unverified: the run itself checks out (signature=%s completeness=%s) and the RECOVERY BUNDLE does not match its signed SHA384SUMS, so the in-bucket FORMAT.md or RECOVER.md has been altered since it was written. Do not follow the instructions in the bucket; use a copy of the reader and the guide you already trust''"
definition verified_markers_message :: string where "verified_markers_message = ''verified, but %d of %d record(s) are incompleteness markers (the source was partially unavailable at backup time), NOT real data''"

text \<open>The error the command ends with once the receipt is out.\<close>

definition verify_verdict :: "bool \<Rightarrow> bool \<Rightarrow> int \<Rightarrow> Outcome \<Rightarrow> RestoreResult option \<Rightarrow> int \<Rightarrow> goerr option" where
  "verify_verdict deep bundleIsTheReason c oc deepResult n =
     (if c \<noteq> 0 then
        (if bundleIsTheReason then
           Some (ExitError c (Errorf bundle_reason_message [AStr (oc_SignatureResult oc), reportedCompleteness oc deep deepResult n]))
         else
           Some (ExitError c (tagAbsentObject deepResult (Errorf ''%s: signature=%s completeness=%s''
             [AStr (verdictWord c), AStr (oc_SignatureResult oc), reportedCompleteness oc deep deepResult n]))))
      else (case deepResult of
        Some res \<Rightarrow>
          if deep \<and> rs_IncompleteMarkers res > 0 then
            Some (ExitError ExitIncompleteMarkers (Errorf verified_markers_message [AInt (rs_IncompleteMarkers res), AInt (rs_Restored res)]))
          else None
      | None \<Rightarrow> None))"

definition verify_code :: "int \<Rightarrow> RestoreResult option \<Rightarrow> int" where
  "verify_code c deepResult =
     (case deepResult of None \<Rightarrow> c | Some res \<Rightarrow> if \<not> OK res then foldPerRecordExit c (perRecordExit res) else c)"

text \<open>The deep pass: a restore of every record into the discarding target.\<close>

definition deep_pass ::
  "gzip_decoder \<Rightarrow> StreamReader \<Rightarrow> bool \<Rightarrow> goerr + RestoreResult option \<times> line list" where
  "deep_pass gz sr deep =
     (if \<not> deep then Inr (None, [])
      else (case ApplyStreaming (EachRecord sr) (format_reader gz sr) discard_target NewDiscardTarget True of
        (_, _, Some err) \<Rightarrow> Inl err
      | (_, None, None) \<Rightarrow> Inl (Sentinel '''')
      | (dt, Some (plan, res), None) \<Rightarrow> Inr (Some res, reportDiscard dt plan res)))"

definition verify_opened ::
  "pk_lib \<Rightarrow> gzip_decoder \<Rightarrow> surroundings \<Rightarrow> receipt_out \<Rightarrow> verify_flags \<Rightarrow> HybridVerifier \<Rightarrow> StreamReader \<Rightarrow> bool
    \<Rightarrow> line list \<Rightarrow> unit command_end" where
  "verify_opened L gz su ro f verifier sr bundleOK notes =
     (let oc = rr_outcome sr; n = sr_recordCount sr; c0 = run_code (vff_checkBundle f) bundleOK oc;
          bundleIsTheReason = (vff_checkBundle f \<and> \<not> bundleOK \<and> oc_Code oc = 0)
      in case deep_pass gz sr (vff_deep f) of Inl err \<Rightarrow> fails_with () notes err
         | Inr (deepResult, report) \<Rightarrow>
             let c = verify_code c0 deepResult;
                 inp = verify_receipt_input deepResult verifier (ro_started ro) (ro_finished ro) c bundleOK (vff_minIndex f);
                 valueVerified = (case deepResult of None \<Rightarrow> False | Some res \<Rightarrow> OK res)
             in case emitReceipt L (ro_rnd ro) (su_files su) (ro_write ro) (stream_receipt_source sr) inp valueVerified
                       (vff_receipt f) (vff_receiptSigner f) of
                  (place, err) \<Rightarrow>
                    \<lparr>ce_Target = (),
                     ce_Stderr = notes @ report
                       @ emitVerifySummary (vff_run f) n oc (vff_deep f) deepResult c (bundleVerdict (vff_checkBundle f) bundleOK)
                       @ warnIfRollbackOverridden (rr_freshness sr),
                     ce_Receipt = place,
                     ce_Error = (case err of Some e \<Rightarrow> Some e
                       | None \<Rightarrow> verify_verdict (vff_deep f) bundleIsTheReason c oc deepResult n)\<rparr>)"

definition verify_options :: "verify_flags \<Rightarrow> Options" where
  "verify_options f = \<lparr>op_MinRunlogIndex = vff_minIndex f, op_AllowStale = vff_allowStale f,
     op_AllowUnverifiedRunlog = vff_allowUnverifiedRunlog f, op_AllowUnverified = vff_allowUnverified f,
     op_CheckRecoveryBundle = False, op_FetchConcurrency = vff_fetchConcurrency f, op_MaxMemoryBytes = 0\<rparr>"

definition cmdVerify ::
  "pk_lib \<Rightarrow> gzip_decoder \<Rightarrow> goctx \<Rightarrow> surroundings \<Rightarrow> ObjectStore backends \<Rightarrow> receipt_out \<Rightarrow> verify_flags \<Rightarrow> unit command_end" where
  "cmdVerify L gz ctx su bk ro f =
     (if vff_run f = '''' \<or> \<not> identity_supplied (vff_identity f) \<or> \<not> signer_supplied (vff_signer f)
      then fails_with () [] (missingReaderInputs ''verify'' (vff_run f) (identity_supplied (vff_identity f))
             (signer_supplied (vff_signer f)) (store_supplied (vff_store f)))
      else case rbind (checkReceiptSigner L (su_files su) (vff_receiptSigner f)) (\<lambda>_. store_resolve bk (su_getenv su) (vff_store f)) of
        Inl err \<Rightarrow> fails_with () [] err
      | Inr store \<Rightarrow>
     (case loadWithSigner L (su_ctext su) (su_files su) (vff_identity f) (vff_signer f) store of (keys, notices) \<Rightarrow>
      let notes = printCustodyNotices (su_ntext su) notices
      in case keys of Inl err \<Rightarrow> fails_with () notes err
      | Inr (identity, verifier) \<Rightarrow>
      let notes = notes @ warnIfNoRollbackPin (vff_minIndex f) (vff_ackNoPin f)
      in case StreamOpenContext L ctx store (vff_run f) identity verifier (verify_options f) of Inl err \<Rightarrow> fails_with () notes err
      | Inr sr \<Rightarrow>
         (case checkRecoveryBundle L (vff_checkBundle f) (vff_allowUnverified f) store verifier of
           (Inl err, warns) \<Rightarrow> fails_with () (notes @ warns) err
         | (Inr bundleOK, warns) \<Rightarrow> verify_opened L gz su ro f verifier sr bundleOK (notes @ warns))))"

section \<open>The attest command\<close>

record attest_flags =
  atf_store :: storeFlags
  atf_run :: string
  atf_signer :: string
  atf_minIndex :: int
  atf_ackNoPin :: bool

definition attest_usage :: string where "attest_usage = ''attest needs --run and a source (--archive or --s3-endpoint). To see which runs a source holds, run: downpipe keys --which --archive <dir>''"
definition not_run_line :: string where "not_run_line = ''  runlog:      the freshness check COULD NOT BE RUN: %s. Nothing was established about this run's recency, and the verdicts this line carries otherwise were not measured''"
definition not_checked_line :: string where "not_checked_line = ''  runlog:      present and parsed, listing this run; signature and freshness unchecked (no --signer), max-index=%d''"
definition anchored_text :: string where "anchored_text = ''cryptographically anchored (--signer verified the RUNLOG)''"
definition unauthenticated_text :: string where "unauthenticated_text = ''UNAUTHENTICATED (no --signer: the RUNLOG's plaintext index only)''"
definition declared_line :: string where "declared_line = ''  records:     %d declared (record-level completeness needs the identity; run verify/restore)''"

definition go_bool :: "bool \<Rightarrow> goarg" where
  "go_bool b = AStr (if b then ''true'' else ''false'')"

definition reportAttest :: "AttestResult \<Rightarrow> int \<Rightarrow> line list" where
  "reportAttest res minIndex =
     [Printf ''%s: run %s (%s)'' [AStr (if attest_OK res then ''attested'' else ''UNATTESTED''), AStr (at_RunID res),
        AStr (if at_SignerPinned res then ''signer-pinned'' else ''keyless'')],
      Printf ''  signature:   %s (present=%v)'' [AStr (at_SignatureResult res), go_bool (at_SignaturePresent res)],
      Printf ''  shards:      %d shard(s), hash-verified=%v'' [AInt (at_ShardCount res), go_bool (at_ShardsHashVerified res)],
      Printf ''  recipients:  break-glass set verified=%v'' [go_bool (at_RecipientSetVerified res)],
      (let fresh = at_Freshness res
       in if fs_Unchecked fresh then Printf not_run_line [freshnessReason fresh]
          else if at_SignerPinned res then
            Printf ''  runlog:      verified=%v, latest-for-downpipe=%v, max-index=%d''
              [go_bool (at_RunlogVerified res), go_bool (fs_IsLatestForDownpipe fresh), AInt (fs_RunlogMaxIndex fresh)]
          else Printf not_checked_line [AInt (fs_RunlogMaxIndex fresh)])]
     @ (if minIndex > 0 then
          [Printf ''  min-index:   pinned=%d, %s''
             [AInt minIndex, AStr (if \<not> at_SignerPinned res then unauthenticated_text else anchored_text)]]
        else [])
     @ [Printf declared_line [AInt (at_DeclaredRecordCount res)]]"

definition cmdAttest ::
  "pk_lib \<Rightarrow> surroundings \<Rightarrow> ObjectStore backends \<Rightarrow> attest_flags \<Rightarrow> goerr option \<times> line list" where
  "cmdAttest L su bk f =
     (if atf_run f = '''' then (Some (ExitError ExitUsage (Errorf attest_usage [])), [])
      else case map_err (\<lambda>err. ExitError ExitUsage (Errorf ''--run: %w'' [AWrap (UlidErr err)])) (DecodeULID (atf_run f)) of
        Inl err \<Rightarrow> (Some err, [])
      | Inr _ \<Rightarrow> (case store_resolve bk (su_getenv su) (atf_store f) of Inl err \<Rightarrow> (Some err, [])
      | Inr store \<Rightarrow>
      (case (if atf_signer f \<noteq> '''' then rbind (loadSignerFile L (su_files su) (atf_signer f)) (\<lambda>v. Inr (Some v)) else Inr None) of
        Inl err \<Rightarrow> (Some err, [])
      | Inr verifier \<Rightarrow>
          let warns = (if verifier \<noteq> None then warnIfNoRollbackPin (atf_minIndex f) (atf_ackNoPin f) else [])
          in case Attest L store (atf_run f) verifier (atf_minIndex f) of
               (res, attestErr) \<Rightarrow>
                 (map_option (\<lambda>e. case as_exit e of Some _ \<Rightarrow> e | None \<Rightarrow> ExitError ExitUnverified e) attestErr,
                  warns @ (case res of None \<Rightarrow> [] | Some a \<Rightarrow> reportAttest a (atf_minIndex f))))))"

end
