(* ===== verification/RestoreCommandFacts.thy ===== *)
theory RestoreCommandFacts
  imports RestoreCommand
begin

text \<open>
  What the exit of \<open>restore\<close>, \<open>verify\<close> and \<open>attest\<close> says: that an opened run hands over every record its root
  declares, what a restore that ends without an error has put where, and that the code of the receipt is the code
  the process exits with.
\<close>

section \<open>An opened run hands over every record\<close>

definition note_leaf :: "RootManifest \<Rightarrow> merkle_accumulator \<times> int \<Rightarrow> ShardRecord \<Rightarrow> merkle_accumulator \<times> int" where
  "note_leaf m st r = (merkle_push (fst st) (case check_record m r of Inr rh \<Rightarrow> rh | Inl _ \<Rightarrow> []), snd st + 1)"

lemma verify_callback_each: "verify_callback m = each_callback m (steady (note_leaf m))"
  by (auto simp: fun_eq_iff verify_callback_def each_callback_def note_leaf_def split: sum.splits)

lemma note_leaf_count: "snd (foldl (note_leaf m) st rs) = snd st + int (length rs)"
  by (induction rs arbitrary: st) (auto simp: note_leaf_def)

lemma verified_delivers:
  assumes "verifyRecordsAndRoot sr = Inr n"
  shows "snd (delivered sr) = None \<and> n = int (length (fst (delivered sr))) \<and> n = rm_DeclaredRecordCount (rr_root sr)"
proof -
  have w: "walkShards sr (verify_callback (rr_root sr)) (merkle_empty, 0) =
      (foldl (note_leaf (rr_root sr)) (merkle_empty, 0) (fst (delivered sr)), snd (delivered sr))"
    using EachRecord_delivers [of sr "note_leaf (rr_root sr)" "(merkle_empty, 0)"]
    by (simp add: EachRecord_def verify_callback_each)
  have c: "snd (foldl (note_leaf (rr_root sr)) (merkle_empty, 0) (fst (delivered sr))) = int (length (fst (delivered sr)))"
    by (simp add: note_leaf_count)
  obtain acc where f: "foldl (note_leaf (rr_root sr)) (merkle_empty, 0) (fst (delivered sr)) = (acc, int (length (fst (delivered sr))))"
    using c by (metis prod.collapse)
  show ?thesis using assms w f
    by (auto simp: verifyRecordsAndRoot_def Let_def split: if_splits option.splits)
qed

lemma delivered_cong:
  assumes "rr_root sr' = rr_root sr" "rr_master sr' = rr_master sr" "rr_runIDBytes sr' = rr_runIDBytes sr"
    "rr_ctx sr' = rr_ctx sr" "rr_store sr' = rr_store sr" "sr_opts sr' = sr_opts sr"
  shows "delivered sr' = delivered sr"
  unfolding delivered_def EachRecord_def walkShards_def reader_context_def assms by (rule refl)

lemma opened_delivers:
  assumes "StreamOpenContext L ctx store runID recipient signer opts = Inr sr"
  shows "snd (delivered sr) = None" "int (length (fst (delivered sr))) = rm_DeclaredRecordCount (rr_root sr)"
    "sr_recordCount sr = rm_DeclaredRecordCount (rr_root sr)" "rm_RunID (rr_root sr) = runID"
proof -
  have "\<exists>sr0 n fresh oc. verifyRecordsAndRoot sr0 = Inr n
    \<and> sr = sr0\<lparr>rr_freshness := fresh, rr_outcome := oc, sr_recordCount := n\<rparr> \<and> rm_RunID (rr_root sr0) = runID"
    using assms unfolding StreamOpenContext_def
    apply (clarsimp simp: Let_def split_beta split: if_split_asm)
    apply (rule exI, rule exI, rule conjI, assumption)
    apply (intro conjI exI)
     apply (simp_all (no_asm))
    done
  then obtain sr0 n fresh oc where v: "verifyRecordsAndRoot sr0 = Inr n"
    and sr: "sr = sr0\<lparr>rr_freshness := fresh, rr_outcome := oc, sr_recordCount := n\<rparr>" and id: "rm_RunID (rr_root sr0) = runID"
    by blast
  have d: "delivered sr = delivered sr0" by (rule delivered_cong) (simp_all add: sr)
  show "snd (delivered sr) = None" "int (length (fst (delivered sr))) = rm_DeclaredRecordCount (rr_root sr)"
    "sr_recordCount sr = rm_DeclaredRecordCount (rr_root sr)" "rm_RunID (rr_root sr) = runID"
    using verified_delivers [OF v] unfolding d by (simp_all add: sr id)
qed

section \<open>A pass without failures\<close>

lemma applyMetadata_failed [simp]: "rs_Failed (snd (applyMetadata T (t, res) rec key)) = rs_Failed res"
  "rs_Reprovisioned (snd (applyMetadata T (t, res) rec key)) = rs_Reprovisioned res"
  by (auto simp: applyMetadata_def noteMetadataUnapplied_def Let_def split: option.splits sum.splits prod.splits)

lemma notes_failed [simp]:
  "rs_Failed (noteMarker res rec key v) = rs_Failed res" "rs_Failed (noteUnrenderable res rec key v) = rs_Failed res"
  "rs_Failed (restored res n) = rs_Failed res" "rs_Failed (recordReprovision res rec key err) = rs_Failed res"
  "rs_Failed (recordFailure res name key err) \<noteq> rs_Failed res"
  "rs_Failed (recordFailure res name key err) = rs_Failed res @ [\<lparr>rf_Name = name, rf_Key = key, rf_Reason = AVal err, rf_Err = Some err\<rparr>]"
  "rs_Reprovisioned (noteMarker res rec key v) = rs_Reprovisioned res"
  "rs_Reprovisioned (noteUnrenderable res rec key v) = rs_Reprovisioned res"
  "rs_Reprovisioned (restored res n) = rs_Reprovisioned res" "rs_Reprovisioned (recordFailure res name key err) = rs_Reprovisioned res"
  by (simp_all add: noteMarker_def noteUnrenderable_def restored_def recordReprovision_def recordFailure_def Let_def)

text \<open>A record fails nothing but itself, and only one of a type that is re-provisioned is left out without failing.\<close>

lemma writeOneRecord_failed:
  "prefix (rs_Failed res) (rs_Failed (snd (writeOneRecord r T rec key (t, res))))
   \<and> (\<not> ReprovisionSourceType (sr_SourceType rec) \<longrightarrow>
        rs_Reprovisioned (snd (writeOneRecord r T rec key (t, res))) = rs_Reprovisioned res)"
proof -
  let ?P = "\<lambda>x. prefix (rs_Failed res) (rs_Failed (snd (x :: 'a \<times> RestoreResult)))
    \<and> (\<not> ReprovisionSourceType (sr_SourceType rec) \<longrightarrow> rs_Reprovisioned (snd x) = rs_Reprovisioned res)"
  have 1: "?P (write_d1 r T rec key (t, res))" by (auto simp: write_d1_def split: sum.split prod.split option.split)
  have 2: "?P (write_streamed f ws T rec key (t, res))" for f ws
    by (auto simp: write_streamed_def split: sum.split prod.split option.split)
  have 3: "?P (write_buffered r T rec key (t, res))" by (auto simp: write_buffered_def split: sum.split prod.split option.split)
  show ?thesis using 1 2 3 by (simp add: writeOneRecord_def split: option.split prod.split)
qed

lemma stream_record_failed:
  "prefix (rs_Failed (as_res s)) (rs_Failed (as_res (stream_record r T existing True s rec)))"
  "prefix (pl_Conflicts (as_plan s)) (pl_Conflicts (as_plan (stream_record r T existing True s rec)))"
  using writeOneRecord_failed [of "as_res s" r T rec]
  by (auto simp: stream_record_def Let_def split: prod.splits sum.splits) (metis snd_conv)

lemma stream_record_left_out:
  assumes "rs_Failed (as_res (stream_record r T existing True s rec)) = rs_Failed (as_res s)"
    "pl_Conflicts (as_plan (stream_record r T existing True s rec)) = pl_Conflicts (as_plan s)"
    "rs_Restored (as_res (stream_record r T existing True s rec)) = rs_Restored (as_res s)"
  shows "ReprovisionSourceType (sr_SourceType rec)"
proof (rule ccontr)
  assume n: "\<not> ReprovisionSourceType (sr_SourceType rec)"
  obtain t a where c: "classifyRecord T (as_target s) rec existing (as_claimed s) = (t, a)" by fastforce
  show False
  proof (cases a)
    case (Inl conflict)
    then show ?thesis using assms(2) c by (simp add: stream_record_def Let_def)
  next
    case (Inr key)
    obtain t1 res1 where w: "writeOneRecord r T rec key (t, as_res s) = (t1, res1)" by fastforce
    have "as_res (stream_record r T existing True s rec) = res1" using c Inr w by (simp add: stream_record_def Let_def)
    moreover have "rs_Reprovisioned res1 = rs_Reprovisioned (as_res s)"
      using writeOneRecord_failed [of "as_res s" r T rec key t] n w by simp
    moreover have "tally res1 = tally (as_res s) + 1" using writeOneRecord_tally [of r T rec key t "as_res s"] w by simp
    ultimately show ?thesis using assms(1,3) by (simp add: tally_def)
  qed
qed

lemma run_failed:
  "prefix (rs_Failed (as_res s)) (rs_Failed (as_res (foldl (stream_record r T existing True) s recs)))
   \<and> prefix (pl_Conflicts (as_plan s)) (pl_Conflicts (as_plan (foldl (stream_record r T existing True) s recs)))"
  by (induction recs arbitrary: s) (auto intro: prefix_order.trans stream_record_failed)

lemma sort_key_empty: "sort_key f xs = [] \<longleftrightarrow> xs = []"
  by (metis length_0_conv length_sort)

context recording_target
begin

text \<open>When no record failed or conflicted, every record was written, or is of a type that is re-provisioned.\<close>

lemma clean_run_log:
  assumes "L (as_target s) l" "s' = foldl (stream_record r T existing True) s recs"
    and "rs_Failed (as_res s') = []" "pl_Conflicts (as_plan s') = []"
  shows "\<exists>ws. list_all2 (\<lambda>rec w. record_log r existing rec w \<and> (w = [] \<longrightarrow> ReprovisionSourceType (sr_SourceType rec))) recs ws
    \<and> L (as_target s') (l @ concat ws)"
  using assms
proof (induction recs arbitrary: s l)
  case (Cons rec recs)
  let ?s1 = "stream_record r T existing True s rec"
  obtain w where w: "record_log r existing rec w" "L (as_target ?s1) (l @ w)"
    "rs_Restored (as_res ?s1) = rs_Restored (as_res s) + (if w = [] then 0 else 1)"
    using stream_record_log [OF Cons.prems(1)] by blast
  have s': "s' = foldl (stream_record r T existing True) ?s1 recs" using Cons.prems(2) by simp
  have z1: "rs_Failed (as_res ?s1) = []" "pl_Conflicts (as_plan ?s1) = []"
    using run_failed [of ?s1 r T existing recs] Cons.prems(3,4) s' by auto
  have z: "rs_Failed (as_res s) = []" "pl_Conflicts (as_plan s) = []"
    using stream_record_failed [of s r T existing rec] z1 by auto
  have left: "w = [] \<longrightarrow> ReprovisionSourceType (sr_SourceType rec)"
    using stream_record_left_out [of r T existing s rec] z z1 w(3) by simp
  obtain ws where "list_all2 (\<lambda>rec w. record_log r existing rec w \<and> (w = [] \<longrightarrow> ReprovisionSourceType (sr_SourceType rec))) recs ws"
    "L (as_target s') ((l @ w) @ concat ws)"
    using Cons.IH [OF w(2) s' Cons.prems(3,4)] by blast
  then show ?case using w(1) left by (intro exI [of _ "w # ws"]) simp
qed simp

lemma clean_restore_log:
  assumes "L t l" "ApplyStreaming (walk_of recs err) r T t True = (t', Some (plan, res), None)"
    and "OK res" "rs_SkippedConflicts res = 0"
  shows "\<exists>existing ws. snd (tg_Existing T t) = Inr existing
     \<and> list_all2 (\<lambda>rec w. record_log r existing rec w \<and> (w = [] \<longrightarrow> ReprovisionSourceType (sr_SourceType rec))) recs ws
     \<and> L t' (l @ concat ws)"
proof -
  obtain t0 existing where e: "tg_Existing T t = (t0, Inr existing)"
    using assms(2) unfolding ApplyStreaming_walk by (cases "tg_Existing T t"; cases "snd (tg_Existing T t)") auto
  define s' where "s' = foldl (stream_record r T existing True) (start_state T t0) recs"
  have l0: "L (as_target (start_state T t0)) l" using existing_log [OF assms(1)] e by (simp add: start_state_def)
  have f: "t' = fst (tg_Close T (as_target s'))" "res = sort_result (recordConflicts (as_res s') (as_plan s'))"
    using assms(2) e unfolding ApplyStreaming_walk by (auto simp: Let_def s'_def split: prod.splits)
  have "rs_Failed (as_res s') = []" "pl_Conflicts (as_plan s') = []"
    using assms(3,4) f(2) by (auto simp: OK_def sort_result_def recordConflicts_def sort_key_empty Let_def split: if_splits)
  from clean_run_log [OF l0 s'_def this] obtain ws where
    "list_all2 (\<lambda>rec w. record_log r existing rec w \<and> (w = [] \<longrightarrow> ReprovisionSourceType (sr_SourceType rec))) recs ws"
    "L (as_target s') (l @ concat ws)" by blast
  then show ?thesis using e f(1) close_log by auto
qed

end

section \<open>A restore that ends without an error\<close>

lemma verdict_None:
  assumes "restore_verdict True c oc plan res = None"
  shows "c = 0" "OK res" "rs_SkippedConflicts res \<le> 0"
  using assms by (auto simp: restore_verdict_def Let_def split: if_splits)

lemma run_code_0: "run_code checkBundle bundleOK oc = 0 \<Longrightarrow> oc_Code oc = 0 \<and> (checkBundle \<longrightarrow> bundleOK)"
  by (auto simp: run_code_def ExitUnverified_def split: if_splits)

lemma restore_opened_None:
  assumes "ce_Error (restore_opened L gz su ro f verifier sr bundleOK T report notes t) = None" "rsf_apply f"
  obtains t' plan res where "ApplyStreaming (EachRecord sr) (format_reader gz sr) T t True = (t', Some (plan, res), None)"
    "ce_Target (restore_opened L gz su ro f verifier sr bundleOK T report notes t) = t'"
    "OK res" "rs_SkippedConflicts res \<le> 0" "oc_Code (rr_outcome sr) = 0" "rsf_checkBundle f \<longrightarrow> bundleOK"
proof -
  obtain t' pr e where a: "ApplyStreaming (EachRecord sr) (format_reader gz sr) T t True = (t', pr, e)"
    by (metis prod_cases3)
  have "e = None" using assms a by (cases e; cases pr) (auto simp: restore_opened_def fails_with_def)
  moreover obtain plan res where "pr = Some (plan, res)"
    using assms a \<open>e = None\<close> by (cases pr) (auto simp: restore_opened_def fails_with_def)
  ultimately have a: "ApplyStreaming (EachRecord sr) (format_reader gz sr) T t True = (t', Some (plan, res), None)"
    using a by simp
  have v: "restore_verdict True (run_code (rsf_checkBundle f) bundleOK (rr_outcome sr)) (rr_outcome sr) plan res = None"
    using assms a by (auto simp: restore_opened_def Let_def split: prod.splits option.splits)
  have t: "ce_Target (restore_opened L gz su ro f verifier sr bundleOK T report notes t) = t'"
    using a assms(2) by (simp add: restore_opened_def Let_def split_beta)
  show ?thesis
    using that [OF a t] verdict_None [OF v] run_code_0 [of "rsf_checkBundle f" bundleOK "rr_outcome sr"] by blast
qed

lemma skipped_conflicts: 
  "ApplyStreaming (walk_of recs err) r T t True = (t', Some (plan, res), e) \<Longrightarrow> rs_SkippedConflicts res \<ge> 0"
  unfolding ApplyStreaming_walk
  by (auto simp: Let_def recordConflicts_def sort_result_def split: prod.splits sum.splits if_splits)

lemma clean_dir_restore:
  assumes "ApplyStreaming (EachRecord sr) r dir_target d True = (d', Some (plan, res), None)"
    and "OK res" "rs_SkippedConflicts res \<le> 0" "faults (dir_fs d) = 0"
  shows "\<exists>existing ws. list_all2 (\<lambda>rec w. dir_record r existing rec w \<and> (w = [] \<longrightarrow> ReprovisionSourceType (sr_SourceType rec)))
       (fst (delivered sr)) ws
     \<and> file_at (dir_fs d') = file_at (dir_fs d) ++ written_files (concat ws)
     \<and> distinct (map (\<lambda>(key, _). path_of key) (concat ws))
     \<and> list_all (\<lambda>(key, _). file_at (dir_fs d) (path_of key) = None) (concat ws)"
proof -
  note a = assms(1) [unfolded ApplyStreaming_each]
  have k: "rs_SkippedConflicts res = 0" using skipped_conflicts [OF a] assms(3) by simp
  have "dir_log (file_at (dir_fs d)) d []" using assms(4) by (simp add: dir_log_def written_files_def)
  from dir_records.clean_restore_log [OF this a assms(2) k] obtain existing ws where w:
    "list_all2 (\<lambda>rec w. dir_records.record_log r existing rec w \<and> (w = [] \<longrightarrow> ReprovisionSourceType (sr_SourceType rec)))
       (fst (delivered sr)) ws"
    "dir_log (file_at (dir_fs d)) d' (concat ws)" by auto
  have "list_all2 (\<lambda>rec w. dir_record r existing rec w \<and> (w = [] \<longrightarrow> ReprovisionSourceType (sr_SourceType rec)))
       (fst (delivered sr)) ws"
    by (rule list_all2_mono [OF w(1)]) (auto intro: dir_record_log)
  then show ?thesis using w(2) by (intro exI [of _ existing] exI [of _ ws]) (simp add: dir_log_def)
qed

lemma opened_for_restore:
  assumes "open_for_restore L ctx su bk f maxMem = (Inr (verifier, sr, bundleOK), notes)"
  shows "snd (delivered sr) = None" "int (length (fst (delivered sr))) = rm_DeclaredRecordCount (rr_root sr)"
    "rm_RunID (rr_root sr) = rsf_run f"
proof -
  obtain store identity where "StreamOpenContext L ctx store (rsf_run f) identity verifier (restore_options f maxMem) = Inr sr"
    using assms by (auto simp: open_for_restore_def Let_def split: sum.splits prod.splits)
  then show "snd (delivered sr) = None" "int (length (fst (delivered sr))) = rm_DeclaredRecordCount (rr_root sr)"
    "rm_RunID (rr_root sr) = rsf_run f"
    by (rule opened_delivers)+
qed

text \<open>A record is done when it was written, or is of a type that is re-provisioned and could not be.\<close>

definition record_done :: "recordReader \<Rightarrow> string set \<Rightarrow> ShardRecord \<Rightarrow> (string \<times> bytes) list \<Rightarrow> bool" where
  "record_done r existing rec vs \<longleftrightarrow> dir_record r existing rec vs \<and> (vs = [] \<longrightarrow> ReprovisionSourceType (sr_SourceType rec))"


section \<open>The receipt and the status\<close>

lemma not_help [simp]:
  "\<not> errors_Is (ExitError c e) errHelpRequested \<longleftrightarrow> \<not> errors_Is e errHelpRequested"
  by (simp add: errors_Is_def errHelpRequested_def)

lemma not_help_text:
  "list_all (\<lambda>a. chain_arg a = []) as \<Longrightarrow> \<not> errors_Is (Errorf f as) errHelpRequested"
  by (induction as) (auto simp: errors_Is_def errHelpRequested_def)

lemma not_help_tagged:
  "\<not> errors_Is e errHelpRequested \<Longrightarrow> \<not> errors_Is (tagAbsentObject r e) errHelpRequested"
  by (auto simp: tagAbsentObject_def absentObjectErr_def fs_ErrNotExist_def errors_Is_def errHelpRequested_def split: option.split)

lemma completeness_plain: "chain_arg (reportedCompleteness oc deep d n) = []"
  by (simp add: reportedCompleteness_def split: option.split)


lemma verify_receipt_records_the_exit:
  "exit_status ''verify'' (verify_verdict deep b (verify_code c deepResult) oc deepResult n) = verify_code c deepResult
   \<or> verify_code c deepResult = 0 \<and> exit_status ''verify'' (verify_verdict deep b (verify_code c deepResult) oc deepResult n) = ExitIncompleteMarkers"
  by (simp add: verify_verdict_def exit_status_ExitError not_help_tagged not_help_text completeness_plain split: option.split)

text \<open>
  A deep verification that asks for the recovery bundle and finds both the bundle and records wrong ends with the
  sentence that the run itself checks out: the reason is fixed before the records are read.
\<close>

lemma bundle_reason_over_failed_records:
  assumes "vff_checkBundle f" "vff_deep f" "oc_Code (rr_outcome sr) = 0"
    and "deep_pass gz sr True = Inr (Some res, report)" "\<not> OK res"
    and "vff_receipt f = ''''" "verify_code ExitUnverified (Some res) \<noteq> 0"
  shows "ce_Error (verify_opened L gz su ro f verifier sr False notes0) =
    Some (ExitError (verify_code ExitUnverified (Some res))
      (Errorf bundle_reason_message [AStr (oc_SignatureResult (rr_outcome sr)), reportedCompleteness (rr_outcome sr) True (Some res) (sr_recordCount sr)]))"
  using assms by (simp add: verify_opened_def Let_def run_code_def emitReceipt_def verify_verdict_def)

section \<open>Sizes\<close>

lemma parse_int64_digits: "list_all is_digit ds \<Longrightarrow> parse_int64 ds = Some n \<Longrightarrow> 0 \<le> n \<and> n < 2 ^ 63"
  by (cases ds) (auto simp: parse_int64_def is_digit_def code_def Let_def split: if_splits)

lemma size_unit_pos: "size_unit u = Some k \<Longrightarrow> 0 < k"
  by (auto simp: size_unit_def split: if_splits)

lemma scaled_in_range:
  fixes n k :: int
  assumes "0 \<le> n" "n < 2 ^ 63" "0 < k" "\<not> (1 < k \<and> 2 ^ 62 div k < n)"
  shows "0 \<le> n * k \<and> n * k < 2 ^ 63"
proof (cases "1 < k")
  case True
  then have "n * k \<le> 2 ^ 62 div k * k" using assms by (intro mult_right_mono) auto
  also have "\<dots> \<le> 2 ^ 62" using assms(3) by (simp add: minus_mod_eq_div_mult [symmetric])
  finally show ?thesis using assms(1,3) by simp
next
  case False
  then have "k = 1" using assms(3) by simp
  then show ?thesis using assms by simp
qed

text \<open>C0. A size given to \<open>--max-memory\<close> is read without wrapping around: what comes back is a 64-bit size, never negative.\<close>
theorem parseHumanBytes_bounds:
  "case parseHumanBytes s of Inl err \<Rightarrow> True | Inr n \<Rightarrow> 0 \<le> n \<and> n < 2 ^ 63"
proof -
  have d: "list_all is_digit (takeWhile is_digit (TrimSpace s))" by (auto simp: list_all_iff dest: set_takeWhileD)
  show ?thesis
    using parse_int64_digits [OF d] size_unit_pos scaled_in_range
    unfolding parseHumanBytes_def Let_def by (simp split: option.split) (metis less_imp_le mult_nonneg_nonneg)
qed

end
