(* ===== verification/VerifyCommandFacts.thy ===== *)
theory VerifyCommandFacts
  imports RestoreCommandFacts
begin

text \<open>
  What \<open>verify --deep\<close> establishes when it ends without an error. The discarding target gives every name a key of
  its own, so a record is read exactly when no earlier one has its name: these records have the hash they
  sign, and the later ones of a name are left out, counted as conflicts, and not looked at by the verdict.
\<close>

section \<open>Names and keys of the discarding target\<close>

definition seen :: "DiscardTarget \<Rightarrow> string set \<Rightarrow> string set \<Rightarrow> bool" where
  "seen d claimed names \<longleftrightarrow> dom (map_of (ds_keyOf d)) = names \<and> ran (map_of (ds_keyOf d)) \<subseteq> claimed
     \<and> claimed \<subseteq> dec_of_nat ` {..<ds_keySeq d}"

lemma dec_of_nat_eq_iff [simp]: "dec_of_nat m = dec_of_nat n \<longleftrightarrow> m = n"
  by (metis nat_of_dec_of_nat)

lemma seen_start: "seen NewDiscardTarget {} {}"
  by (simp add: seen_def NewDiscardTarget_def)

lemma seen_same: "ds_keySeq d' = ds_keySeq d \<Longrightarrow> ds_keyOf d' = ds_keyOf d \<Longrightarrow> seen d' claimed names = seen d claimed names"
  by (simp add: seen_def)

lemma discard_kind [simp]: "tg_Kind discard_target = ''discard''" "tg_Metadata discard_target = None"
  "tg_WriteStream discard_target = Some DiscardTarget_WriteStream"
  by (simp_all add: discard_target_def)

lemma classify_seen:
  assumes "seen d claimed names" "sr_Name rec \<in> names"
  shows "\<exists>c. classifyRecord discard_target d rec {} claimed = (d, Inl c)"
proof -
  obtain k where k: "map_of (ds_keyOf d) (sr_Name rec) = Some k" using assms by (auto simp: seen_def)
  then have "k \<in> claimed" using assms(1) by (auto simp: seen_def ran_def)
  then show ?thesis using k by (simp add: classifyRecord_def discard_target_def DiscardTarget_Key_def)
qed

lemma classify_fresh:
  assumes "seen d claimed names" "sr_Name rec \<notin> names"
  shows "\<exists>d' key. classifyRecord discard_target d rec {} claimed = (d', Inr key)
    \<and> seen d' (insert key claimed) (insert (sr_Name rec) names)"
proof -
  have k: "map_of (ds_keyOf d) (sr_Name rec) = None" using assms by (auto simp: seen_def)
  have f: "dec_of_nat (ds_keySeq d) \<notin> claimed" using assms(1) by (auto simp: seen_def)
  have "seen (d\<lparr>ds_keySeq := Suc (ds_keySeq d), ds_keyOf := (sr_Name rec, dec_of_nat (ds_keySeq d)) # ds_keyOf d\<rparr>)
      (insert (dec_of_nat (ds_keySeq d)) claimed) (insert (sr_Name rec) names)"
    using assms(1) k by (auto simp: seen_def lessThan_Suc)
  then show ?thesis using k f
    by (auto simp: classifyRecord_def discard_target_def DiscardTarget_Key_def Let_def)
qed

section \<open>The pass\<close>

fun first_named :: "string set \<Rightarrow> ShardRecord list \<Rightarrow> ShardRecord list" where
  "first_named names [] = []"
| "first_named names (rec # recs) =
     (if sr_Name rec \<in> names then first_named names recs else rec # first_named (insert (sr_Name rec) names) recs)"

lemma first_named_distinct: "distinct (map sr_Name recs) \<Longrightarrow> names \<inter> sr_Name ` set recs = {} \<Longrightarrow> first_named names recs = recs"
  by (induction recs arbitrary: names) auto

text \<open>What a state is apart from its plan.\<close>

definition unplanned :: "'t apply_state \<Rightarrow> 't \<times> string set \<times> RestoreResult" where
  "unplanned s = (as_target s, as_claimed s, as_res s)"

lemma stream_seen:
  assumes "seen (as_target s) (as_claimed s) names" "sr_Name rec \<in> names"
  shows "unplanned (stream_record r discard_target {} True s rec) = unplanned s"
  using classify_seen [OF assms] by (auto simp: stream_record_def unplanned_def)

lemma stream_fresh:
  assumes "seen (as_target s) (as_claimed s) names" "sr_Name rec \<notin> names"
  shows "\<exists>d key. let s' = stream_record r discard_target {} True s rec in
    (as_target s', as_res s') = writeOneRecord r discard_target rec key (d, as_res s)
    \<and> seen (as_target s') (as_claimed s') (insert (sr_Name rec) names)"
proof -
  obtain d key where c: "classifyRecord discard_target (as_target s) rec {} (as_claimed s) = (d, Inr key)"
    "seen d (insert key (as_claimed s)) (insert (sr_Name rec) names)"
    using classify_fresh [OF assms] by blast
  obtain d' res where w: "writeOneRecord r discard_target rec key (d, as_res s) = (d', res)" by fastforce
  have "seen d' (insert key (as_claimed s)) (insert (sr_Name rec) names)"
    using c(2) seen_same [of d' d] discard_plans.writeOneRecord_view [of r rec key d "as_res s"] w by simp
  then show ?thesis using c(1) w
    by (intro exI [of _ d] exI [of _ key]) (simp add: stream_record_def claimMetadataKey_def Let_def)
qed

lemma stream_unplanned:
  "unplanned s = unplanned s' \<Longrightarrow>
   unplanned (stream_record r T existing c s rec) = unplanned (stream_record r T existing c s' rec)"
proof -
  assume u: "unplanned s = unplanned s'"
  have e: "as_target s = as_target s'" "as_claimed s = as_claimed s'" "as_res s = as_res s'" using u by (simp_all add: unplanned_def)
  obtain t a where k: "classifyRecord T (as_target s') rec existing (as_claimed s') = (t, a)" by fastforce
  show ?thesis
  proof (cases a)
    case (Inl conflict)
    then show ?thesis by (simp add: stream_record_def unplanned_def Let_def e k)
  next
    case (Inr key)
    then show ?thesis by (simp add: stream_record_def unplanned_def Let_def split_beta e k)
  qed
qed

lemma run_unplanned:
  "unplanned s = unplanned s' \<Longrightarrow>
   unplanned (foldl (stream_record r T existing c) s recs) = unplanned (foldl (stream_record r T existing c) s' recs)"
proof (induction recs arbitrary: s s')
  case (Cons rec recs)
  show ?case using Cons.IH [OF stream_unplanned [OF Cons.prems]] by simp
qed simp

lemma run_first_named:
  assumes "seen (as_target s) (as_claimed s) names"
  shows "unplanned (foldl (stream_record r discard_target {} True) s recs)
    = unplanned (foldl (stream_record r discard_target {} True) s (first_named names recs))"
  using assms
proof (induction recs arbitrary: s names)
  case (Cons rec recs)
  let ?s = "stream_record r discard_target {} True s rec"
  show ?case
  proof (cases "sr_Name rec \<in> names")
    case True
    have u: "unplanned ?s = unplanned s" by (rule stream_seen [OF Cons.prems True])
    then have "seen (as_target ?s) (as_claimed ?s) names" using Cons.prems by (simp add: unplanned_def)
    from Cons.IH [OF this] show ?thesis using True run_unplanned [OF u] by simp
  next
    case False
    then show ?thesis using stream_fresh [OF Cons.prems False, of r] Cons.IH by (auto simp: Let_def)
  qed
qed simp

lemma write_discard_clean:
  assumes "rs_Failed (snd (writeOneRecord r discard_target rec key (d, res))) = rs_Failed res"
  shows "\<exists>v. written_value r discard_target rec = Inr v"
proof -
  have b: "\<exists>v. rd_RestoreRecord r rec = Inr v"
    if "rs_Failed (snd (write_buffered r discard_target rec key (d, res))) = rs_Failed res"
    using that by (auto simp: write_buffered_def split: sum.splits)
  have s: "\<exists>v. restoreTo rec None = (v, None)"
    if "rs_Failed (snd (write_streamed restoreTo DiscardTarget_WriteStream discard_target rec key (d, res))) = rs_Failed res"
    for restoreTo
    using that by (cases "restoreTo rec None"; cases "snd (restoreTo rec None)")
      (auto simp: write_streamed_def applyStream_def DiscardTarget_WriteStream_def Let_def split: if_splits)
  show ?thesis
  proof (cases "\<exists>isStreamable restoreTo. rd_Streaming r = Some (isStreamable, restoreTo)
      \<and> sr_PlaintextSize rec \<ge> streamThreshold \<and> isStreamable rec \<and> \<not> ReprovisionSourceType (sr_SourceType rec)")
    case True
    then obtain isStreamable restoreTo where t: "rd_Streaming r = Some (isStreamable, restoreTo)"
      "sr_PlaintextSize rec \<ge> streamThreshold" "isStreamable rec" "\<not> ReprovisionSourceType (sr_SourceType rec)" by blast
    then have "\<exists>v. restoreTo rec None = (v, None)"
      using assms by (intro s) (simp add: writeOneRecord_def)
    then show ?thesis using t by (auto simp: written_value_def)
  next
    case False
    then have "writeOneRecord r discard_target rec key (d, res) = write_buffered r discard_target rec key (d, res)"
      by (auto simp: writeOneRecord_def split: option.split)
    moreover have "written_value r discard_target rec = rd_RestoreRecord r rec"
      using False by (auto simp: written_value_def split: option.split)
    ultimately show ?thesis using b assms by simp
  qed
qed

lemma run_values:
  assumes "seen (as_target s) (as_claimed s) names"
    and "rs_Failed (as_res (foldl (stream_record r discard_target {} True) s recs)) = []"
  shows "list_all (\<lambda>rec. \<exists>v. written_value r discard_target rec = Inr v) (first_named names recs)"
  using assms
proof (induction recs arbitrary: s names)
  case (Cons rec recs)
  let ?s = "stream_record r discard_target {} True s rec"
  have z: "rs_Failed (as_res ?s) = []" "rs_Failed (as_res s) = []"
    using run_failed [of ?s r discard_target "{}" recs] stream_record_failed [of s r discard_target "{}" rec] Cons.prems(2) by auto
  show ?case
  proof (cases "sr_Name rec \<in> names")
    case True
    have "seen (as_target ?s) (as_claimed ?s) names"
      using Cons.prems(1) stream_seen [OF Cons.prems(1) True, of r] by (simp add: unplanned_def)
    then show ?thesis using Cons.IH [of ?s names] Cons.prems(2) True by simp
  next
    case False
    obtain d key where w: "(as_target ?s, as_res ?s) = writeOneRecord r discard_target rec key (d, as_res s)"
      "seen (as_target ?s) (as_claimed ?s) (insert (sr_Name rec) names)"
      using stream_fresh [OF Cons.prems(1) False, of r] by (auto simp: Let_def)
    have "\<exists>v. written_value r discard_target rec = Inr v"
      by (rule write_discard_clean [of r rec key d "as_res s"]) (simp add: w(1) [symmetric] z)
    then show ?thesis using False Cons.IH [OF w(2)] Cons.prems(2) by simp
  qed
qed simp

section \<open>A deep verification that ends without an error\<close>

lemma discarded_value_hash:
  assumes "written_value (format_reader gz R) discard_target rec = Inr v"
  shows "SHA384Hex v = sr_PlaintextSHA rec"
proof -
  have b: "SHA384Hex v = sr_PlaintextSHA rec" if "RestoreRecord gz R rec = Inr v" for v
    using that by (auto simp: RestoreRecord_def restoreRecord_def ConstantTimeEqual_def split: if_splits)
  have "pipe_writer None = append_writer" by (simp add: fun_eq_iff pipe_writer_def append_writer_def)
  then show ?thesis using b streamed_value_hash [of R rec v] assms
    by (auto simp: written_value_def format_reader_def split: sum.splits option.splits prod.splits if_splits)
qed

definition discard_run :: "recordReader \<Rightarrow> ShardRecord list \<Rightarrow> DiscardTarget apply_state" where
  "discard_run r recs = foldl (stream_record r discard_target {} True) (start_state discard_target NewDiscardTarget) recs"

lemma discard_start: "seen (as_target (start_state discard_target NewDiscardTarget)) (as_claimed (start_state discard_target NewDiscardTarget)) {}"
  using seen_start by (simp add: start_state_def)

lemma discard_pass:
  "ApplyStreaming (walk_of recs err) r discard_target NewDiscardTarget True =
     (as_target (discard_run r recs),
      Some (as_plan (discard_run r recs), sort_result (recordConflicts (as_res (discard_run r recs)) (as_plan (discard_run r recs)))), err)"
  unfolding ApplyStreaming_walk discard_run_def
  by (simp add: discard_target_def DiscardTarget_Existing_def DiscardTarget_Close_def Let_def split: option.split)

lemma failed_of_pass: "OK (sort_result (recordConflicts res plan)) \<longleftrightarrow> rs_Failed res = []"
  by (simp add: OK_def sort_result_def recordConflicts_def sort_key_empty Let_def)

text \<open>
  Two passes of the discarding target, over the records of a run and over the first of each name among them, leave the
  same target, with the same counts and digest, and the same result but for the conflicts it counts: a record
  whose name an earlier one has is never read.
\<close>
theorem discard_pass_reads_first_of_each_name:
  "unplanned (discard_run r recs) = unplanned (discard_run r (first_named {} recs))"
  unfolding discard_run_def by (rule run_first_named [OF discard_start])

lemma verify_verdict_None:
  assumes "verify_verdict deep b (verify_code c deepResult) oc deepResult n = None"
  shows "verify_code c deepResult = 0"
  using assms by (auto simp: verify_verdict_def split: if_splits)

lemma perRecordExit_nonzero: "perRecordExit res \<noteq> 0"
  by (simp add: perRecordExit_def ExitDangling_def exitUncoded_def)

lemma verify_code_zero: "verify_code c deepResult = 0 \<Longrightarrow> c = 0 \<and> (case deepResult of None \<Rightarrow> True | Some res \<Rightarrow> OK res)"
  using perRecordExit_nonzero by (auto simp: verify_code_def foldPerRecordExit_def split: option.splits if_splits)

lemma verify_opened_None:
  assumes "ce_Error (verify_opened L gz su ro f verifier sr bundleOK lines) = None" "vff_deep f"
  shows "oc_Code (rr_outcome sr) = 0 \<and> rs_Failed (as_res (discard_run (format_reader gz sr) (fst (delivered sr)))) = []"
proof -
  let ?s = "discard_run (format_reader gz sr) (fst (delivered sr))"
  let ?res = "sort_result (recordConflicts (as_res ?s) (as_plan ?s))"
  have a: "ApplyStreaming (EachRecord sr) (format_reader gz sr) discard_target NewDiscardTarget True
      = (as_target ?s, Some (as_plan ?s, ?res), snd (delivered sr))"
    unfolding ApplyStreaming_each by (rule discard_pass)
  then have p: "deep_pass gz sr True = Inr (Some ?res, reportDiscard (as_target ?s) (as_plan ?s) ?res)"
    using assms by (cases "snd (delivered sr)") (auto simp: verify_opened_def deep_pass_def fails_with_def Let_def)
  have "verify_code (run_code (vff_checkBundle f) bundleOK (rr_outcome sr)) (Some ?res) = 0"
    using assms p by (auto simp: verify_opened_def Let_def split: prod.splits option.splits dest: verify_verdict_None)
  then have "run_code (vff_checkBundle f) bundleOK (rr_outcome sr) = 0" "OK ?res" using verify_code_zero by fastforce+
  then show ?thesis using run_code_0 failed_of_pass by blast
qed

text \<open>
  C14. When \<open>downpipe verify --deep\<close> exits without an error, the run asked for was opened and verified with code 0,
  as many records were walked as its root declares, and every one of them that is the first of its name was decrypted
  to a value with the SHA-384 it signs. If the names differ that is every record; by
  \<open>discard_pass_reads_first_of_each_name\<close> nothing is established of the others.
\<close>
theorem deep_verify_checks_first_of_each_name:
  "if ce_Error (cmdVerify L gz ctx su bk ro f) = None \<and> vff_deep f
   then \<exists>store identity verifier sr.
          StreamOpenContext L ctx store (vff_run f) identity verifier (verify_options f) = Inr sr
        \<and> rm_RunID (rr_root sr) = vff_run f \<and> oc_Code (rr_outcome sr) = 0
        \<and> int (length (fst (delivered sr))) = rm_DeclaredRecordCount (rr_root sr)
        \<and> list_all (\<lambda>rec. \<exists>v. written_value (format_reader gz sr) discard_target rec = Inr v \<and> SHA384Hex v = sr_PlaintextSHA rec)
             (if distinct (map sr_Name (fst (delivered sr))) then fst (delivered sr) else first_named {} (fst (delivered sr)))
   else True"
proof (cases "ce_Error (cmdVerify L gz ctx su bk ro f) = None \<and> vff_deep f")
  case True
  obtain store identity verifier sr bundleOK ln where
    o: "StreamOpenContext L ctx store (vff_run f) identity verifier (verify_options f) = Inr sr"
    and v: "ce_Error (verify_opened L gz su ro f verifier sr bundleOK ln) = None"
    using True by (auto simp: cmdVerify_def fails_with_def Let_def split: if_splits sum.splits prod.splits)
  note c = verify_opened_None [OF v conjunct2 [OF True]]
  have "list_all (\<lambda>rec. \<exists>v. written_value (format_reader gz sr) discard_target rec = Inr v) (first_named {} (fst (delivered sr)))"
    using run_values [OF discard_start] c unfolding discard_run_def by blast
  then have "list_all (\<lambda>rec. \<exists>v. written_value (format_reader gz sr) discard_target rec = Inr v \<and> SHA384Hex v = sr_PlaintextSHA rec)
      (first_named {} (fst (delivered sr)))"
    by (rule list.pred_mono_strong) (auto dest: discarded_value_hash)
  moreover have "(if distinct (map sr_Name (fst (delivered sr))) then fst (delivered sr) else first_named {} (fst (delivered sr)))
      = first_named {} (fst (delivered sr))"
    using first_named_distinct [of "fst (delivered sr)" "{}"] by simp
  ultimately have "StreamOpenContext L ctx store (vff_run f) identity verifier (verify_options f) = Inr sr
      \<and> rm_RunID (rr_root sr) = vff_run f \<and> oc_Code (rr_outcome sr) = 0
      \<and> int (length (fst (delivered sr))) = rm_DeclaredRecordCount (rr_root sr)
      \<and> list_all (\<lambda>rec. \<exists>v. written_value (format_reader gz sr) discard_target rec = Inr v \<and> SHA384Hex v = sr_PlaintextSHA rec)
           (if distinct (map sr_Name (fst (delivered sr))) then fst (delivered sr) else first_named {} (fst (delivered sr)))"
    using o c opened_delivers [OF o] by presburger
  then show ?thesis using True by (subst if_P) (assumption, blast)
next
  case False
  then show ?thesis by (subst if_not_P) (assumption, rule TrueI)
qed

text \<open>
  The case the root does not exclude: a later record of a name that is taken, whatever its type, is left out, and the verdict
  over the pass is the verdict over the pass without it.
\<close>

lemma deep_verify_passes_over_equal_names:
  assumes "sr_Name rec \<in> sr_Name ` set recs"
  shows "unplanned (discard_run r (recs @ [rec])) = unplanned (discard_run r recs)"
    and "verify_verdict True b c oc (Some (sort_result (recordConflicts res plan))) n
       = verify_verdict True b c oc (Some (sort_result (recordConflicts res plan'))) n"
proof -
  have "first_named names (recs @ [rec]) = first_named names recs" if "sr_Name rec \<in> names \<union> sr_Name ` set recs" for names
    using that by (induction recs arbitrary: names) auto
  then have "first_named {} (recs @ [rec]) = first_named {} recs" using assms by simp
  then show "unplanned (discard_run r (recs @ [rec])) = unplanned (discard_run r recs)"
    using run_first_named [OF discard_start, of r] unfolding discard_run_def by metis
  show "verify_verdict True b c oc (Some (sort_result (recordConflicts res plan))) n
       = verify_verdict True b c oc (Some (sort_result (recordConflicts res plan'))) n"
    by (simp add: verify_verdict_def tagAbsentObject_def AnyAbsentObject_def reportedCompleteness_def DanglingOnly_def
        DanglingSegments_def OK_def sort_result_def recordConflicts_def Let_def)
qed

end
