(* ===== verification/Spec2Isabelle.thy ===== *)
theory Spec2Isabelle
  imports Capsule Merkle Custody RootCodec PruneReceipt PrefetchFacts D1Facts RestoreFacts ReportJson Receipt PruneCommand RestoreCommandFacts VerifyCommandFacts
begin

text \<open>
  A verification library for downpipe, the offline tool that verifies, restores, attests and prunes the
  encrypted backup archives an engine writes to object storage.

  The program and its parts. An archive run is a signed root manifest that names sealed shard manifests;
  a shard lists records; a record points at sealed segments that hold its value. A master key, sealed in
  a capsule to a set of recipients, derives every other key. A run log, signed and chained, dates the runs.
  The command line opens a run (\<open>internal/format\<close>) with a recovery identity that may first be recombined
  from shares (\<open>internal/custody\<close>), over the cryptography of \<open>internal/crypto\<close> and the file format of
  \<open>internal/spec\<close>, and hands its records to a target (\<open>internal/restore\<close>); it can check a run without any
  key, issue and check signed receipts and reports, and delete what no kept run needs (\<open>internal/prune\<close>).

  Foundations.
  \<^item> \<open>Prelude\<close>: bytes, results (\<open>rbind\<close>, \<open>mapr\<close>, \<open>loopr\<close>) and shared facts on lists.
  \<^item> \<open>GoStrings\<close>, \<open>Utf8\<close>, \<open>Json\<close>: what the source uses of Go's \<open>strings\<close>, \<open>encoding/hex\<close>,
    \<open>encoding/base64\<close>, \<open>unicode/utf8\<close>, \<open>unicode/utf16\<close>, \<open>strconv\<close> and \<open>encoding/json\<close>, executable.
  \<^item> \<open>GoCrypto\<close>: SHA-256, SHA-384, HMAC, HKDF and AES-256-GCM, computed, with the interfaces
    \<open>hash_fun\<close> and \<open>aead_cipher\<close> that the proofs about them use.

  The format (\<open>internal/spec\<close>, \<open>internal/crypto\<close>).
  \<^item> \<open>Spec\<close> (\<open>spec.go\<close>, \<open>container.go\<close>, \<open>sourcetype.go\<close>, \<open>ulid.go\<close>), \<open>Manifest\<close> and \<open>ManifestCodec\<close> (\<open>manifest.go\<close>):
    the constants, the container framing, the identifiers, the document structs and their JSON forms.
  \<^item> \<open>StreamCipher\<close> (\<open>stream.go\<close>): the STREAM construction over GCM; round trip, authenticity, and the
    incremental writer and reader against the buffer forms.
  \<^item> \<open>KeyDerive\<close> (\<open>derive.go\<close>, \<open>segment.go\<close>): the key schedule and the data segments.
  \<^item> \<open>Capsule\<close> (\<open>keys.go\<close>, \<open>pq.go\<close>, \<open>capsule.go\<close>): hybrid encapsulation and signatures, key files, the capsule.

  Custody (\<open>internal/custody\<close>): \<open>Shamir\<close> (the field and Lagrange recombination) and \<open>Custody\<close> (artefact
  files, the share set, the authenticated decrypt of the identity).

  Reading a run (\<open>internal/format\<close>).
  \<^item> \<open>GoErr\<close> (\<open>errors.go\<close>): errors as values with the chain \<open>errors.As\<close> searches, and the exit codes.
  \<^item> \<open>CanonNum\<close>, \<open>CanonJson\<close> (\<open>canonnum.go\<close>, \<open>canonjson.go\<close>): the canonical text that is signed.
  \<^item> \<open>Merkle\<close> (\<open>merkle.go\<close>): the batch root, RFC 6962's tree and the streaming accumulator.
  \<^item> \<open>Runlog\<close> (\<open>freshness.go\<close>), \<open>Store\<close> (\<open>sign.go\<close>, \<open>bundle.go\<close>, \<open>signerpin.go\<close>, \<open>pruned.go\<close>, bounded
    reads), with \<open>RootCodec\<close> (the signed root written and read back), \<open>Verify\<close> (\<open>verify.go\<close>,
    \<open>record.go\<close>, \<open>shard.go\<close>): the gates of a verification.
  \<^item> \<open>Reader\<close> (\<open>reader.go\<close>, \<open>stream.go\<close>) and \<open>ReaderFacts\<close>: the load-all and the streaming reader and
    their agreement. \<open>Prefetch\<close> and \<open>PrefetchFacts\<close>: the concurrent prefetcher of \<open>stream.go\<close> as a step
    relation, with its invariants, deadlock freedom, termination and refinement of the sequential walk.
  \<^item> \<open>RecordRestore\<close> (\<open>restore.go\<close>) and \<open>RecordFacts\<close>: a record reassembled whole or streamed.
  \<^item> \<open>Attest\<close> (\<open>attest.go\<close>): the keyless attestation against a specification of what it establishes.
  \<^item> \<open>Receipt\<close> (\<open>receipt.go\<close>): the signed receipt of a pass.
  \<^item> \<open>Report\<close>, \<open>ReportFacts\<close>, \<open>ReportJson\<close> (\<open>report.go\<close>): the strict parser and the canonical writer of
    signed reports, what a verified report's bytes determine, and agreement with \<open>encoding/json\<close>.

  Restoring (\<open>internal/restore\<close>).
  \<^item> \<open>D1Transcode\<close>, \<open>D1Facts\<close> (\<open>d1transcode.go\<close>): database dumps as SQL, read back by a model of SQLite's lexer.
  \<^item> \<open>Guidance\<close> (\<open>guidance.go\<close>), \<open>Targets\<close> and \<open>TargetFacts\<close> (\<open>target_env.go\<close>, \<open>target_dir.go\<close>,
    \<open>target_discard.go\<close>, \<open>metadata.go\<close>): the targets over a dotenv writer, a file system and a digest.
  \<^item> \<open>Restore\<close> (\<open>restore.go\<close>) and \<open>RestoreFacts\<close>: planning, applying, accounting. What a target promises is
    stated by the locales \<open>planning_target\<close>, \<open>recording_target\<close> and \<open>pure_key_target\<close>, each interpreted on
    the targets of the code.

  Pruning (\<open>internal/prune\<close>): \<open>Prune\<close> (\<open>plan.go\<close>, \<open>apply.go\<close>) and \<open>PruneReceipt\<close> (\<open>receipt.go\<close>).

  The commands (\<open>cmd/downpipe\<close>), from their parsed flags to their exit status.
  \<^item> \<open>CommandLine\<close> (\<open>main.go\<close>, \<open>identity_source.go\<close>, \<open>signer_source.go\<close>, \<open>recombine.go\<close>): exit status and hints,
    the choice of the backend, key files and custody artefacts, warnings, the emission of the receipt.
  \<^item> \<open>PruneCommand\<close> (\<open>prune.go\<close>): the checks before a deletion, the plan, the receipt around the deletions.
  \<^item> \<open>RestoreCommand\<close> (\<open>restore.go\<close>, \<open>verify.go\<close>, \<open>attest.go\<close>) with \<open>RestoreCommandFacts\<close> and
    \<open>VerifyCommandFacts\<close>: what an end without an error establishes, and that the receipt records the status.

  How the model stands for the code. A Go string is a HOL \<open>string\<close>, a byte slice a list of 8-bit words, a
  fixed-width counter whose wrap-around matters a word, other integers \<open>int\<close> or \<open>nat\<close>. A function that can
  fail returns a sum, \<open>Inl\<close> with the error the code builds: its format, its arguments and its exit code. A
  method that changes its receiver returns the new receiver with the error. A struct is a record, a Go map
  whose order is not used an association list with distinct keys. A callback is a function from the caller's
  state to the new state and an error; a writer may refuse after any number of bytes; a body of the object
  store delivers a prefix and then an error. Recursion that is not structural has a termination proof on the
  length of what is left to read; no definition carries fuel. The strict report parser is bounded by the
  nesting limit of the code, 256, the JSON machine by Go's 10000.

  What is assumed. The asymmetric primitives (X25519, ML-KEM-1024, Ed25519, ML-DSA-87) are packages outside
  the repository: they are the fields of \<open>pk_lib\<close>, and \<open>kem_ok\<close> and \<open>sig_ok\<close> state that encapsulation and
  signing are inverted by decapsulation and verification, no more; \<open>plain_lib\<close> satisfies both and serves the
  witnesses. The gzip decoder is an argument. No hardness assumption is made: a theorem about authenticity
  says what was authenticated, not that forging is impossible; where a hash decides, the theorem names the
  two inputs that would have to collide. Within one command the object store is a function of the key. A
  \<open>json.RawMessage\<close> is kept as the value it denotes. \<open>sort.Slice\<close> is a stable sort. The file system of the
  directory target has no symbolic links, since every access goes through \<open>os.Root\<close>; the failures of its
  operations are a list that is consumed in order.

  What the properties show, by group: authenticity and round trips of the ciphers, key files, capsules,
  shares and documents; that the two readers, the incremental and the batch forms, the dry run and the run
  agree; that every value written by a restore has the signed hash, lands where its name maps to, never
  replaces anything and is accounted for; that SQL and dotenv output is closed under any data; that pruning
  never deletes what a kept run needs; that freshness, attestation and report verification establish what
  they document; that the commands compose these parts so that success means what it says; and that the
  prefetcher neither deadlocks nor exceeds its window. The findings of the manifest name the lemmas that
  prove them: a deep verification that leaves out a record whose name an earlier one has
  (\<open>deep_verify_passes_over_equal_names\<close>) or blames the bundle alone over failed records
  (\<open>bundle_reason_over_failed_records\<close>), an interrupted prefetch that can hang (\<open>interrupt_hangs_prefetch\<close>),
  the load-all apply that confuses records of equal names (\<open>apply_confuses_equal_names\<close>), and an empty final
  chunk the comments exclude (\<open>empty_final_chunk_accepted\<close>).

  Not modelled. The registration and parsing of flags, the usage text, the dispatch on the command name and the
  commands that generate keys, set up, list, diagnose, update and self-test; the
  network backends and request signing of \<open>internal/source\<close>, the provisioning client \<open>internal/provision\<close>,
  the wiping of key buffers, which no result depends on, and the vendored \<open>mldsa\<close> and \<open>hkdf\<close> packages.
\<close>

end
